(* ===== verification/Prelude.thy ===== *)
theory Prelude
  imports Main "HOL-Library.Word" "HOL-Library.Signed_Division"
begin

text \<open>
  Shared vocabulary of the development: machine integer types, byte buffers, big-endian
  fields, C integer conversions, and the three interfaces (locales) that several firmware
  modules implement: a state machine with an invariant, a bounded table keyed by a value,
  and an append-only log kept in a ring.
\<close>

unbundle bit_operations_syntax

section \<open>Types\<close>

type_synonym u8 = "8 word"
type_synonym u16 = "16 word"
type_synonym u32 = "32 word"
type_synonym u64 = "64 word"

text \<open>A \<^theory_text>\<open>uint8_t[4]\<close> address and a \<^theory_text>\<open>uint8_t[6]\<close> hardware address.\<close>

type_synonym ip4 = "u8 \<times> u8 \<times> u8 \<times> u8"
type_synonym mac6 = "u8 \<times> u8 \<times> u8 \<times> u8 \<times> u8 \<times> u8"

text \<open>
  A \<^theory_text>\<open>const uint8_t *\<close> is the memory seen from the pointer: offset to byte. A read
  past the object it points into still yields some byte, as it does on the target; that a
  routine never does so is a theorem about it, not a property of the type.
\<close>

type_synonym ptr = "nat \<Rightarrow> u8"

named_theorems buf_simps "facts about writes into byte buffers"
named_theorems wire_simps "definitions of wire-format fields"

section \<open>Integers\<close>

text \<open>Conversion of a wide signed value to \<open>int32_t\<close>: two's complement of the low 32 bits.\<close>

definition to_i32 :: "int \<Rightarrow> int" where
  "to_i32 x = signed_take_bit 31 x"

lemma to_i32_id [simp]: "- (2 ^ 31) \<le> x \<Longrightarrow> x < 2 ^ 31 \<Longrightarrow> to_i32 x = x"
  unfolding to_i32_def by (rule signed_take_bit_int_eq_self) auto

lemma to_i32_bounds: "- (2 ^ 31) \<le> to_i32 x \<and> to_i32 x < 2 ^ 31"
  unfolding to_i32_def
  by (simp add: signed_take_bit_int_greater_eq_minus_exp [of 31 x, simplified]
      signed_take_bit_int_less_exp [of 31 x, simplified])

text \<open>Saturation to a symmetric band, the two-\<open>if\<close> idiom every servo here uses.\<close>

definition clamp_sym :: "int \<Rightarrow> int \<Rightarrow> int" where
  "clamp_sym m x = (let y = (if x > m then m else x) in if y < - m then - m else y)"

lemma clamp_sym_bounds: "0 \<le> m \<Longrightarrow> - m \<le> clamp_sym m x \<and> clamp_sym m x \<le> m"
  by (simp add: clamp_sym_def Let_def)

lemma clamp_sym_id: "- m \<le> x \<Longrightarrow> x \<le> m \<Longrightarrow> clamp_sym m x = x"
  by (simp add: clamp_sym_def Let_def)

lemma clamp_sym_abs_le: "0 \<le> m \<Longrightarrow> \<bar>clamp_sym m x\<bar> \<le> m"
  using clamp_sym_bounds [of m x] by linarith

lemma clamp_sym_sgn: "0 \<le> m \<Longrightarrow> \<bar>x - clamp_sym m x\<bar> = max 0 (\<bar>x\<bar> - m)"
  by (auto simp: clamp_sym_def Let_def)

text \<open>C's \<open>/\<close> truncates towards zero.\<close>

lemma sdiv_bounds:
  fixes a b :: int
  assumes "0 < b"
  shows "\<bar>a sdiv b\<bar> \<le> \<bar>a\<bar>"
proof -
  have "\<bar>a\<bar> div b \<le> \<bar>a\<bar> div 1"
    using assms by (intro zdiv_mono2) auto
  moreover have "\<bar>a sdiv b\<bar> = \<bar>a\<bar> div b"
    using assms by (auto simp: signed_divide_int_def sgn_if pos_imp_zdiv_nonneg_iff)
  ultimately show ?thesis by simp
qed

lemma sdiv_nonneg: "0 \<le> (a::int) \<Longrightarrow> 0 < b \<Longrightarrow> a sdiv b = a div b"
  by (cases "a = 0") (auto simp: signed_divide_int_def sgn_if)

lemma sdiv_uminus: "(- a :: int) sdiv b = - (a sdiv b)"
  by (auto simp: signed_divide_int_def sgn_if)

section \<open>Big-endian fields\<close>

text \<open>\<open>rd16\<close> and \<open>rd32\<close> of the C files, reading at an offset from a pointer.\<close>

definition rd16 :: "ptr \<Rightarrow> nat \<Rightarrow> u16" where
  "rd16 p i = push_bit 8 (ucast (p i)) OR ucast (p (i + 1))"

definition rd32 :: "ptr \<Rightarrow> nat \<Rightarrow> u32" where
  "rd32 p i = push_bit 24 (ucast (p i)) OR push_bit 16 (ucast (p (i + 1)))
     OR push_bit 8 (ucast (p (i + 2))) OR ucast (p (i + 3))"

text \<open>\<open>wr16\<close> and \<open>wr32\<close>: the bytes they store.\<close>

definition be16 :: "u16 \<Rightarrow> u8 list" where
  [wire_simps]: "be16 v = [ucast (drop_bit 8 v), ucast v]"

definition be32 :: "u32 \<Rightarrow> u8 list" where
  [wire_simps]: "be32 v =
     [ucast (drop_bit 24 v), ucast (drop_bit 16 v), ucast (drop_bit 8 v), ucast v]"

lemma length_be16 [simp]: "length (be16 v) = 2"
  by (simp add: be16_def)

lemma length_be32 [simp]: "length (be32 v) = 4"
  by (simp add: be32_def)

lemma rd16_be16: "p i = be16 v ! 0 \<Longrightarrow> p (i + 1) = be16 v ! 1 \<Longrightarrow> rd16 p i = v"
  unfolding rd16_def be16_def
  by (rule bit_word_eqI) (auto simp: bit_simps)

lemma rd16_cong: "p i = q i \<Longrightarrow> p (i + 1) = q (i + 1) \<Longrightarrow> rd16 p i = rd16 q i"
  by (simp add: rd16_def)

lemma byte_bit_bound: "bit (b :: u8) n \<Longrightarrow> n < 8"
  using bit_imp_le_length [of b n] by simp

lemma rd32_be32:
  assumes "p i = be32 v ! 0" "p (i + 1) = be32 v ! 1" "p (i + 2) = be32 v ! 2"
    "p (i + 3) = be32 v ! 3"
  shows "rd32 p i = v"
proof (rule bit_word_eqI)
  fix n assume "n < LENGTH(32)"
  then consider "n < 8" | "8 \<le> n" "n < 16" | "16 \<le> n" "n < 24" | "24 \<le> n" "n < 32"
    by fastforce
  then show "bit (rd32 p i) n = bit v n"
    using assms unfolding rd32_def be32_def
    by cases (auto simp: bit_simps nth_Cons' dest: byte_bit_bound)
qed

lemma rd32_cong:
  "p i = q i \<Longrightarrow> p (i + 1) = q (i + 1) \<Longrightarrow> p (i + 2) = q (i + 2) \<Longrightarrow> p (i + 3) = q (i + 3) \<Longrightarrow>
   rd32 p i = rd32 q i"
  by (simp add: rd32_def)

lemma unat_u8_less: "unat (b :: u8) < 256"
proof -
  have "unat b < 2 ^ LENGTH(8)" by (rule unsigned_less)
  then show ?thesis by simp
qed

lemma unat_u16_less: "unat (b :: u16) < 65536"
proof -
  have "unat b < 2 ^ LENGTH(16)" by (rule unsigned_less)
  then show ?thesis by simp
qed

lemma unat_u32_less: "unat (b :: u32) < 4294967296"
proof -
  have "unat b < 2 ^ LENGTH(32)" by (rule unsigned_less)
  then show ?thesis by simp
qed

lemma unat_drop_bit: "unat (drop_bit n (w :: 'a::len word)) = unat w div 2 ^ n"
  by (metis drop_bit_eq_div take_bit_nat_eq_self_iff unsigned_drop_bit_eq unsigned_less)

lemma unat_take_bit: "unat (take_bit n (w :: 'a::len word)) = unat w mod 2 ^ n"
  by (metis take_bit_eq_mod unsigned_take_bit_eq)

lemma and_low16: "(w :: u32) AND 0xFFFF = take_bit 16 w"
proof -
  have "(mask 16 :: u32) = 0xFFFF" by (simp add: mask_eq_exp_minus_1)
  then show ?thesis by (simp add: take_bit_eq_mask)
qed

lemma unat_not_u32: "unat (NOT (w :: u32)) = 4294967295 - unat w"
proof -
  have "NOT w = - 1 - w" by (simp add: not_eq_complement)
  moreover have "- 1 = (4294967295 :: u32)" by simp
  moreover have "w \<le> 4294967295"
    using unat_u32_less [of w] by (simp add: word_le_nat_alt)
  ultimately show ?thesis by (simp add: unat_sub)
qed

lemma unat_zero_iff: "unat (w :: 'a::len word) = 0 \<longleftrightarrow> w = 0"
  by (simp add: unat_eq_0)

lemma unat_byte_u16 [simp]: "unat (ucast (b :: u8) :: u16) = unat b"
  using unat_u8_less [of b] by (simp add: unsigned_ucast_eq take_bit_nat_eq_self_iff)

lemma unat_byte_u32 [simp]: "unat (ucast (b :: u8) :: u32) = unat b"
  using unat_u8_less [of b] by (simp add: unsigned_ucast_eq take_bit_nat_eq_self_iff)

lemma unat_u16_u32 [simp]: "unat (ucast (b :: u16) :: u32) = unat b"
  using unat_u16_less [of b] by (simp add: unsigned_ucast_eq take_bit_nat_eq_self_iff)

lemma unat_rd16: "unat (rd16 p i) = 256 * unat (p i) + unat (p (i + 1))"
proof -
  have "rd16 p i = push_bit 8 (ucast (p i)) + ucast (p (i + 1))"
    unfolding rd16_def
    by (rule disjunctive_add [symmetric]) (auto simp: bit_simps dest: byte_bit_bound)
  moreover have "unat (push_bit 8 (ucast (p i)) :: u16) = 256 * unat (p i)"
    using unat_u8_less [of "p i"] by (simp add: push_bit_eq_mult unat_word_ariths)
  ultimately show ?thesis
    using unat_u8_less [of "p i"] unat_u8_less [of "p (i + 1)"]
    by (simp add: unat_word_ariths)
qed

section \<open>Buffers\<close>

text \<open>
  \<open>put off bs buf\<close>: the buffer after storing the bytes \<open>bs\<close> at offset \<open>off\<close>
  (\<^theory_text>\<open>memcpy(buf + off, bs, n)\<close>, a \<open>wr16\<close>, a byte store), the buffer being large enough.
\<close>

definition put :: "nat \<Rightarrow> 'a list \<Rightarrow> 'a list \<Rightarrow> 'a list" where
  "put off bs buf = take off buf @ bs @ drop (off + length bs) buf"

lemma length_put [simp, buf_simps]:
  "off + length bs \<le> length buf \<Longrightarrow> length (put off bs buf) = length buf"
  by (simp add: put_def)

lemma nth_put:
  "off + length bs \<le> length buf \<Longrightarrow> i < length buf \<Longrightarrow>
   put off bs buf ! i = (if off \<le> i \<and> i < off + length bs then bs ! (i - off) else buf ! i)"
  by (auto simp: put_def nth_append min_def)

lemma put_0 [buf_simps]: "put 0 bs buf = bs @ drop (length bs) buf"
  by (simp add: put_def)

lemma put_skip [buf_simps]: "length xs \<le> off \<Longrightarrow> put off bs (xs @ ys) = xs @ put (off - length xs) bs ys"
  by (auto simp: put_def)

lemma put_inside [buf_simps]:
  "off + length bs \<le> length xs \<Longrightarrow> put off bs (xs @ ys) = put off bs xs @ ys"
  by (auto simp: put_def)

lemma put_skip_Cons [buf_simps]: "0 < off \<Longrightarrow> put off bs (x # ys) = x # put (off - 1) bs ys"
  by (cases off) (auto simp: put_def)

lemma take_put: "n \<le> off \<Longrightarrow> n \<le> length buf \<Longrightarrow> take n (put off bs buf) = take n buf"
  by (auto simp: put_def min_def)

lemma drop_put:
  "off + length bs \<le> n \<Longrightarrow> off + length bs \<le> length buf \<Longrightarrow> drop n (put off bs buf) = drop n buf"
  by (auto simp: put_def min_def drop_drop add.commute)

text \<open>Reading \<open>n\<close> bytes from a pointer: the source side of a \<^theory_text>\<open>memcpy\<close>.\<close>

definition bytes_at :: "ptr \<Rightarrow> nat \<Rightarrow> nat \<Rightarrow> u8 list" where
  "bytes_at p i n = map (\<lambda>k. p (i + k)) [0..<n]"

lemma length_bytes_at [simp]: "length (bytes_at p i n) = n"
  by (simp add: bytes_at_def)

lemma bytes_at_cong: "(\<And>k. k < n \<Longrightarrow> p (i + k) = q (i + k)) \<Longrightarrow> bytes_at p i n = bytes_at q i n"
  by (simp add: bytes_at_def)

text \<open>A byte list seen as memory, followed by zeros.\<close>

definition ptr_of :: "u8 list \<Rightarrow> ptr" where
  "ptr_of bs = (\<lambda>i. if i < length bs then bs ! i else 0)"

lemma ptr_of_nth [simp]: "i < length bs \<Longrightarrow> ptr_of bs i = bs ! i"
  by (simp add: ptr_of_def)

lemma bytes_at_ptr_of: "i + n \<le> length bs \<Longrightarrow> bytes_at (ptr_of bs) i n = take n (drop i bs)"
  by (rule nth_equalityI) (auto simp: bytes_at_def)

text \<open>Addresses in memory.\<close>

definition ip_at :: "ptr \<Rightarrow> nat \<Rightarrow> ip4" where
  "ip_at p i = (p i, p (i + 1), p (i + 2), p (i + 3))"

definition mac_at :: "ptr \<Rightarrow> nat \<Rightarrow> mac6" where
  "mac_at p i = (p i, p (i + 1), p (i + 2), p (i + 3), p (i + 4), p (i + 5))"

fun ip_bytes :: "ip4 \<Rightarrow> u8 list" where
  "ip_bytes (a, b, c, d) = [a, b, c, d]"

fun mac_bytes :: "mac6 \<Rightarrow> u8 list" where
  "mac_bytes (a, b, c, d, e, f) = [a, b, c, d, e, f]"

lemma length_ip_bytes [simp]: "length (ip_bytes a) = 4"
  by (cases a) simp

lemma length_mac_bytes [simp]: "length (mac_bytes a) = 6"
  by (cases a) simp

lemma ip_bytes_inject [simp]: "ip_bytes a = ip_bytes b \<longleftrightarrow> a = b"
  by (cases a; cases b) simp

section \<open>Reading fields back\<close>

lemma ptr_of_at: "ptr_of (xs @ b # ys) (length xs) = b"
  by (simp add: ptr_of_def)

lemma rd16_at: "rd16 (ptr_of (xs @ be16 v @ ys)) (length xs) = v"
  by (rule rd16_be16) (simp_all add: ptr_of_def nth_append be16_def)

lemma rd32_at: "rd32 (ptr_of (xs @ be32 v @ ys)) (length xs) = v"
  by (rule rd32_be32) (simp_all add: ptr_of_def nth_append be32_def nth_Cons')

lemma ip_at_at: "ip_at (ptr_of (xs @ ip_bytes a @ ys)) (length xs) = a"
  by (cases a) (simp add: ip_at_def ptr_of_def nth_append nth_Cons')

lemma mac_at_at: "mac_at (ptr_of (xs @ mac_bytes a @ ys)) (length xs) = a"
  by (cases a) (simp add: mac_at_def ptr_of_def nth_append nth_Cons')

section \<open>Deadlines on a wrapping clock\<close>

text \<open>The signed reading of a wrapped difference: not negative for less than half a turn.\<close>

lemma sint_nonneg_iff: "0 \<le> sint (w :: u32) \<longleftrightarrow> unat w < 2 ^ 31"
proof -
  have "0 \<le> sint w \<longleftrightarrow> \<not> bit w 31"
    by (simp add: sint_uint bit_unsigned_iff)
  also have "bit w 31 \<longleftrightarrow> odd (unat w div 2 ^ 31)"
    using bit_unsigned_iff [of w 31, where 'a = nat] by (simp add: bit_iff_odd)
  also have "\<not> odd (unat w div 2 ^ 31) \<longleftrightarrow> unat w < 2 ^ 31"
  proof (cases "unat w < 2 ^ 31")
    case False
    then have "unat w div 2 ^ 31 = 1"
      using unat_u32_less [of w] by (intro div_nat_eqI) simp_all
    with False show ?thesis by simp
  qed simp
  finally show ?thesis .
qed

lemma unat_diff_u32:
  "unat (a - b :: u32) = (if unat b \<le> unat a then unat a - unat b else 2 ^ 32 + unat a - unat b)"
proof (cases "unat b \<le> unat a")
  case True
  then show ?thesis by (simp add: unat_sub word_le_nat_alt)
next
  case False
  then have lt: "2 ^ 32 + unat a - unat b < 2 ^ 32" by simp
  have "uint (a - b) = (int (unat a) - int (unat b)) mod 2 ^ 32"
    by (simp add: uint_word_ariths)
  also have "\<dots> = (int (unat a) - int (unat b) + 2 ^ 32) mod 2 ^ 32" by simp
  also have "int (unat a) - int (unat b) + 2 ^ 32 = int (2 ^ 32 + unat a - unat b)"
    using False unat_u32_less [of b] by (subst of_nat_diff) simp_all
  also have "int (2 ^ 32 + unat a - unat b) mod 2 ^ 32 = int (2 ^ 32 + unat a - unat b)"
    using lt by (intro mod_pos_pos_trivial) simp_all
  finally have "int (unat (a - b)) = int (2 ^ 32 + unat a - unat b)" by simp
  with False show ?thesis by (simp only: of_nat_eq_iff if_False)
qed

lemma due_iff:
  assumes "unat r \<le> 2 ^ 31" "unat (now - t0) < 2 ^ 31"
  shows "0 \<le> sint (now - (t0 + r) :: u32) \<longleftrightarrow> unat r \<le> unat (now - t0)"
proof -
  have "now - (t0 + r) = (now - t0) - r" by simp
  then have "unat (now - (t0 + r)) =
      (if unat r \<le> unat (now - t0) then unat (now - t0) - unat r else 2 ^ 32 + unat (now - t0) - unat r)"
    by (simp only: unat_diff_u32)
  then show ?thesis using assms by (auto simp: sint_nonneg_iff)
qed

section \<open>Interfaces\<close>

text \<open>
  A component as a deterministic machine: a step function, an invariant its start
  satisfies and every step keeps. The client of the interface gets the invariant, and
  anything that follows from it, after every sequence of steps.
\<close>

locale machine =
  fixes step :: "'s \<Rightarrow> 'e \<Rightarrow> 's"
    and inv :: "'s \<Rightarrow> bool"
  assumes step_inv: "inv s \<Longrightarrow> inv (step s e)"
begin

lemma run_inv: "inv s \<Longrightarrow> inv (foldl step s es)"
  by (induction es arbitrary: s) (auto simp: step_inv)

lemma run_safe: "inv s \<Longrightarrow> (\<And>t. inv t \<Longrightarrow> P t) \<Longrightarrow> P (foldl step s es)"
  using run_inv by blast

lemma run_always:
  assumes "inv s"
  shows "inv (foldl step s (take n es))"
  using assms by (rule run_inv)

end

text \<open>
  A table keyed by a value, with bounded room: storing under a key either fails, leaving
  the table alone, or makes that key read back as stored and no other key change, except
  keys the table says it gave up (\<open>evicts\<close>).
\<close>

locale keyed_table =
  fixes get :: "'t \<Rightarrow> 'k \<Rightarrow> 'v option"
    and store :: "'t \<Rightarrow> 'k \<Rightarrow> 'v \<Rightarrow> 't option"
    and evicts :: "'t \<Rightarrow> 'k \<Rightarrow> 'k set"
    and valid :: "'k \<Rightarrow> bool"
    and inv :: "'t \<Rightarrow> bool"
  assumes get_same: "inv t \<Longrightarrow> valid k \<Longrightarrow> store t k v = Some t' \<Longrightarrow> get t' k = Some v"
    and get_other: "inv t \<Longrightarrow> valid k \<Longrightarrow> store t k v = Some t' \<Longrightarrow> j \<noteq> k \<Longrightarrow>
      j \<notin> evicts t k \<Longrightarrow> get t' j = get t j"
    and update_keeps: "inv t \<Longrightarrow> get t k \<noteq> None \<Longrightarrow> evicts t k = {}"
    and update_room: "inv t \<Longrightarrow> valid k \<Longrightarrow> get t k \<noteq> None \<Longrightarrow> store t k v \<noteq> None"
    and store_inv: "inv t \<Longrightarrow> valid k \<Longrightarrow> store t k v = Some t' \<Longrightarrow> inv t'"
begin

lemma store_twice:
  assumes "inv t" "valid k" "store t k v = Some t1"
  shows "\<exists>t2. store t1 k w = Some t2 \<and> get t2 k = Some w"
proof -
  have "get t1 k = Some v" and "inv t1"
    using assms get_same store_inv by auto
  then obtain t2 where "store t1 k w = Some t2"
    using update_room [of t1 k w] assms(2) by auto
  with \<open>inv t1\<close> assms(2) show ?thesis using get_same by blast
qed

lemma update_frame:
  assumes "inv t" "valid k" "get t k \<noteq> None" "store t k v = Some t'" "j \<noteq> k"
  shows "get t' j = get t j"
  using assms get_other [of t k v t' j] update_keeps [of t k] by auto

end

text \<open>
  A ring that keeps the most recent \<open>n\<close> items pushed into it. \<open>last_n\<close> is the abstract
  log; the interface says what one push does to it, its client what any number does.
\<close>

definition last_n :: "nat \<Rightarrow> 'a list \<Rightarrow> 'a list" where
  "last_n n xs = drop (length xs - n) xs"

lemma length_last_n [simp]: "length (last_n n xs) = min n (length xs)"
  by (simp add: last_n_def min_def)

lemma last_n_all: "length xs \<le> n \<Longrightarrow> last_n n xs = xs"
  by (simp add: last_n_def)

lemma last_n_append: "last_n n (last_n n xs @ ys) = last_n n (xs @ ys)"
proof (cases "length xs \<le> n")
  case False
  then have "length xs - n + (n + length ys - n) = length xs + length ys - n" by simp
  with False show ?thesis by (simp add: last_n_def add.commute)
qed (simp add: last_n_all)

lemma last_n_tl: "length xs = n \<Longrightarrow> last_n n (x # xs) = xs"
  by (simp add: last_n_def)

lemma last_n_last: "0 < n \<Longrightarrow> last_n n (xs @ [x]) = last_n (n - 1) xs @ [x]"
  by (cases n) (auto simp: last_n_def Suc_diff_le not_less_eq_eq)

locale recent_log =
  fixes push :: "'r \<Rightarrow> 'a \<Rightarrow> 'r"
    and log :: "'r \<Rightarrow> 'b list"
    and view :: "'a \<Rightarrow> 'b"
    and n :: nat
    and inv :: "'r \<Rightarrow> bool"
  assumes log_push: "inv r \<Longrightarrow> log (push r x) = last_n n (log r @ [view x])"
    and push_inv: "inv r \<Longrightarrow> inv (push r x)"
    and room: "0 < n"
begin

lemma log_pushes: "inv r \<Longrightarrow> length (log r) \<le> n \<Longrightarrow>
    log (foldl push r xs) = last_n n (log r @ map view xs)"
proof (induction xs arbitrary: r)
  case Nil
  then show ?case by (simp add: last_n_all)
next
  case (Cons x xs)
  have "length (log (push r x)) \<le> n"
    using Cons.prems by (simp add: log_push)
  with Cons show ?case
    by (simp add: log_push push_inv last_n_append)
qed

lemma pushes_inv: "inv r \<Longrightarrow> inv (foldl push r xs)"
  by (induction xs arbitrary: r) (auto simp: push_inv)

lemma newest_kept:
  assumes "inv r"
  shows "log (push r x) \<noteq> [] \<and> List.last (log (push r x)) = view x"
  using assms room by (simp add: log_push last_n_last)

end

text \<open>
  The array form of such a ring: \<open>n\<close> cells, the next one to write, and whether the
  write position has been around once.
\<close>

definition ring_log :: "'a list \<Rightarrow> nat \<Rightarrow> bool \<Rightarrow> 'a list" where
  "ring_log cells head wrapped = (if wrapped then drop head cells @ take head cells else take head cells)"

lemma ring_log_push:
  assumes "h < length cells"
  shows "ring_log (cells[h := x]) ((h + 1) mod length cells) (wrapped \<or> h + 1 = length cells)
       = last_n (length cells) (ring_log cells h wrapped @ [x])"
proof (cases "h + 1 = length cells")
  case True
  then have "cells[h := x] = take h cells @ [x]"
    using assms by (simp add: upd_conv_take_nth_drop)
  moreover have "length cells > 0" "length (drop h cells @ take h cells @ [x]) = Suc (length cells)"
    using assms by auto
  moreover have "drop h cells = [cells ! h]"
    using True assms by (simp add: Cons_nth_drop_Suc [symmetric])
  ultimately show ?thesis
    using True assms by (auto simp: ring_log_def last_n_tl last_n_all)
next
  case False
  then have "h + 1 < length cells" using assms by simp
  moreover have "cells[h := x] = take h cells @ x # drop (Suc h) cells"
    using assms by (simp add: upd_conv_take_nth_drop)
  moreover have "drop h cells = cells ! h # drop (Suc h) cells"
    using assms by (simp add: Cons_nth_drop_Suc)
  moreover have "length (drop (Suc h) cells @ take h cells @ [x]) = length cells"
    using assms by simp
  ultimately show ?thesis
    using assms by (auto simp: ring_log_def last_n_tl last_n_all)
qed

lemma ring_log_map: "map f (ring_log cells h w) = ring_log (map f cells) h w"
  by (simp add: ring_log_def drop_map take_map)

lemma length_ring_log: "h < length cells \<Longrightarrow> length (ring_log cells h w) \<le> length cells"
  by (simp add: ring_log_def)

end
