(* ===== verification/Cap.thy ===== *)
theory Cap
  imports Prelude
begin

text \<open>
  The on-device capture of the control plane, \<^theory_text>\<open>firmware/cap.c\<close>: the port filter, the
  classification of a frame, and the ring the frames are kept in. Sending the ring to a
  host is in theory Cap_Serve, since it goes through the network stack.
\<close>

section \<open>State\<close>

text \<open>\<^theory_text>\<open>CAP_N\<close>, \<^theory_text>\<open>CAP_BYTES\<close> and the two ports.\<close>

definition CAP_N :: nat where "CAP_N = 128"
definition CAP_BYTES :: nat where "CAP_BYTES = 256"
definition CAP_REQ_PORT :: u16 where "CAP_REQ_PORT = 7778"
definition CAP_OUT_PORT :: u16 where "CAP_OUT_PORT = 9997"

record cap_entry =
  ce_t_ms :: u32
  ce_dir :: u8
  ce_len :: u16
  ce_caplen :: u16
  ce_data :: "u8 list"

record cap_st =
  cap_ring :: "cap_entry list"
  cap_head :: nat
  cap_total :: u32
  cap_wrapped :: bool

definition cap_entry0 :: cap_entry where
  "cap_entry0 = \<lparr>ce_t_ms = 0, ce_dir = 0, ce_len = 0, ce_caplen = 0,
     ce_data = replicate CAP_BYTES 0\<rparr>"

text \<open>\<^theory_text>\<open>cap_reset\<close>.\<close>

definition cap_reset :: "cap_st \<Rightarrow> cap_st" where
  "cap_reset s = s\<lparr>cap_head := 0, cap_total := 0, cap_wrapped := False,
     cap_ring := replicate CAP_N cap_entry0\<rparr>"

section \<open>Classification\<close>

definition cap_ports :: "u16 list" where
  "cap_ports = [4440, 8800, 8700, 4455, 319, 320]"

definition cap_is_control :: "ptr \<Rightarrow> nat \<Rightarrow> bool" where
  "cap_is_control f len =
    (if len < 42 then False
     else if f 12 \<noteq> 0x08 \<or> f 13 \<noteq> 0x00 then False
     else let ihl = unat (f 14 AND 0x0F) * 4 in
     if f 23 \<noteq> 17 then False
     else let u = 14 + ihl in
     if len < u + 8 then False
     else let sp = rd16 f u; dp = rd16 f (u + 2) in
     if \<not> (\<exists>q \<in> set cap_ports. sp = q \<or> dp = q) then False
     else if (sp = 4440 \<or> dp = 4440) \<and> len \<ge> u + 8 + 8 \<and> rd16 f (u + 8 + 6) = 0x4100 then False
     else True)"

text \<open>The early exit of \<^theory_text>\<open>cap_record\<close>: the 0x4100 storm on the ARC port.\<close>

definition cap_storm :: "ptr \<Rightarrow> nat \<Rightarrow> bool" where
  "cap_storm f len \<longleftrightarrow>
    len \<ge> 42 \<and> f 12 = 0x08 \<and> f 13 = 0x00 \<and> f 23 = 17 \<and>
    (let u = 14 + unat (f 14 AND 0x0F) * 4 in
      len \<ge> u + 16 \<and> (rd16 f u = 4440 \<or> rd16 f (u + 2) = 4440) \<and> rd16 f (u + 8 + 6) = 0x4100)"

text \<open>The rest of its guards: IPv4 only, inbound unicast or a control port, unicast only.\<close>

definition cap_wanted :: "u8 \<Rightarrow> ptr \<Rightarrow> nat \<Rightarrow> bool" where
  "cap_wanted dir f len =
    (if cap_storm f len then False
     else if len < 34 \<or> f 12 \<noteq> 0x08 \<or> f 13 \<noteq> 0x00 then False
     else let unicast = (f 0 AND 0x01 = 0) in
     if \<not> (dir = 0 \<and> unicast) \<and> \<not> cap_is_control f len then False
     else unicast)"

section \<open>Recording\<close>

definition cap_push :: "cap_st \<Rightarrow> u8 \<times> ptr \<times> nat \<times> u32 \<Rightarrow> cap_st" where
  "cap_push s x = (case x of (dir, f, len, now) \<Rightarrow>
     let h = cap_head s;
         h' = (h + 1) mod CAP_N;
         n = (if len < CAP_BYTES then len else CAP_BYTES);
         e = cap_ring s ! h in
     s\<lparr>cap_head := h',
       cap_wrapped := (if h' = 0 then True else cap_wrapped s),
       cap_total := cap_total s + 1,
       cap_ring := (cap_ring s)[h := \<lparr>ce_t_ms = now, ce_dir = dir, ce_len = of_nat len,
          ce_caplen = of_nat n, ce_data = put 0 (bytes_at f 0 n) (ce_data e)\<rparr>]\<rparr>)"

definition cap_record :: "u8 \<Rightarrow> ptr \<Rightarrow> nat \<Rightarrow> u32 \<Rightarrow> cap_st \<Rightarrow> cap_st" where
  "cap_record dir f len now s = (if cap_wanted dir f len then cap_push s (dir, f, len, now) else s)"

text \<open>The window of the ring a dump walks: its first index and its number of entries.\<close>

definition cap_start :: "cap_st \<Rightarrow> nat" where
  "cap_start s = (if cap_wrapped s then cap_head s else 0)"

definition cap_count :: "cap_st \<Rightarrow> nat" where
  "cap_count s = (if cap_wrapped s then CAP_N else cap_head s)"

definition cap_nth :: "cap_st \<Rightarrow> nat \<Rightarrow> cap_entry" where
  "cap_nth s i = cap_ring s ! ((cap_start s + i) mod CAP_N)"

section \<open>The ring keeps the most recent frames\<close>

text \<open>What a dump shows of an entry, and the dump as a list, oldest first.\<close>

definition cap_view :: "cap_entry \<Rightarrow> u32 \<times> u8 \<times> u16 \<times> u8 list" where
  "cap_view e = (ce_t_ms e, ce_dir e, ce_len e, take (unat (ce_caplen e)) (ce_data e))"

definition cap_log :: "cap_st \<Rightarrow> (u32 \<times> u8 \<times> u16 \<times> u8 list) list" where
  "cap_log s = map (\<lambda>i. cap_view (cap_nth s i)) [0..<cap_count s]"

definition cap_item :: "u8 \<times> ptr \<times> nat \<times> u32 \<Rightarrow> u32 \<times> u8 \<times> u16 \<times> u8 list" where
  "cap_item x = (case x of (dir, f, len, now) \<Rightarrow>
     (now, dir, of_nat len, bytes_at f 0 (min len CAP_BYTES)))"

definition cap_inv :: "cap_st \<Rightarrow> bool" where
  "cap_inv s \<longleftrightarrow> length (cap_ring s) = CAP_N \<and> cap_head s < CAP_N \<and>
     (\<forall>e \<in> set (cap_ring s). length (ce_data e) = CAP_BYTES \<and> unat (ce_caplen e) \<le> CAP_BYTES)"

lemma cap_log_ring:
  assumes "cap_inv s"
  shows "cap_log s = ring_log (map cap_view (cap_ring s)) (cap_head s) (cap_wrapped s)"
proof (rule nth_equalityI)
  show "length (cap_log s) = length (ring_log (map cap_view (cap_ring s)) (cap_head s) (cap_wrapped s))"
    using assms by (auto simp: cap_log_def cap_count_def ring_log_def cap_inv_def)
next
  fix i assume "i < length (cap_log s)"
  then have i: "i < cap_count s" by (simp add: cap_log_def)
  show "cap_log s ! i = ring_log (map cap_view (cap_ring s)) (cap_head s) (cap_wrapped s) ! i"
  proof (cases "cap_wrapped s")
    case False
    then show ?thesis
      using i assms by (auto simp: cap_log_def cap_nth_def cap_start_def cap_count_def
          ring_log_def cap_inv_def)
  next
    case True
    have "(cap_head s + i) mod CAP_N =
        (if cap_head s + i < CAP_N then cap_head s + i else cap_head s + i - CAP_N)"
      using i True assms by (auto simp: cap_inv_def cap_count_def mod_if)
    then show ?thesis
      using i True assms
      by (auto simp: cap_log_def cap_nth_def cap_start_def cap_count_def
          ring_log_def cap_inv_def nth_append add.commute)
  qed
qed

lemma cap_push_inv: "cap_inv s \<Longrightarrow> cap_inv (cap_push s x)"
  by (cases x) (auto simp: cap_inv_def cap_push_def Let_def CAP_BYTES_def CAP_N_def put_0
      unat_of_nat dest!: set_update_subset_insert [THEN subsetD])

lemma cap_push_log:
  assumes "cap_inv s"
  shows "cap_log (cap_push s x) = last_n CAP_N (cap_log s @ [cap_item x])"
proof -
  obtain dir f len now where x: "x = (dir, f, len, now)" by (cases x)
  let ?h = "cap_head s"
  let ?cells = "map cap_view (cap_ring s)"
  have h: "?h < length ?cells" "length ?cells = CAP_N"
    using assms by (auto simp: cap_inv_def)
  have len_data: "length (ce_data (cap_ring s ! ?h)) = CAP_BYTES"
    using assms h by (auto simp: cap_inv_def)
  have "cap_log (cap_push s x) =
      ring_log (?cells[?h := cap_item x]) ((?h + 1) mod length ?cells)
        (cap_wrapped s \<or> ?h + 1 = length ?cells)"
    using h assms len_data cap_push_inv [OF assms, of x]
    by (auto simp: cap_log_ring x cap_push_def Let_def map_update cap_view_def cap_item_def
        put_0 CAP_BYTES_def CAP_N_def unat_of_nat min_def mod_if)
  then show ?thesis
    using h ring_log_push [OF h(1), of "cap_item x" "cap_wrapped s"] assms
    by (simp add: cap_log_ring)
qed

interpretation cap_ring: recent_log cap_push cap_log cap_item CAP_N cap_inv
  by unfold_locales (auto simp: cap_push_log cap_push_inv CAP_N_def)

lemma cap_record_inv: "cap_inv s \<Longrightarrow> cap_inv (cap_record dir f len now s)"
  by (simp add: cap_record_def cap_push_inv)

lemma cap_reset_inv: "cap_inv (cap_reset s)"
  by (simp add: cap_reset_def cap_inv_def CAP_N_def cap_entry0_def)

section \<open>No read past the frame\<close>

lemma cap_is_control_local:
  assumes "\<And>i. i < len \<Longrightarrow> f i = g i"
  shows "cap_is_control f len = cap_is_control g len"
proof (cases "len < 42")
  case False
  have "rd16 f i = rd16 g i" if "i + 1 < len" for i
    using that assms by (intro rd16_cong) auto
  with False assms show ?thesis
    by (auto simp: cap_is_control_def Let_def)
qed (simp add: cap_is_control_def)

lemma cap_storm_local:
  assumes "\<And>i. i < len \<Longrightarrow> f i = g i"
  shows "cap_storm f len = cap_storm g len"
proof (cases "len < 42")
  case False
  have "rd16 f i = rd16 g i" if "i + 1 < len" for i
    using that assms by (intro rd16_cong) auto
  with False assms show ?thesis
    by (auto simp: cap_storm_def Let_def)
qed (simp add: cap_storm_def)

lemma cap_record_local:
  assumes "\<And>i. i < len \<Longrightarrow> f i = g i"
  shows "cap_record dir f len now s = cap_record dir g len now s"
proof -
  have "cap_wanted dir f len = cap_wanted dir g len"
    using assms cap_storm_local [of len f g] cap_is_control_local [of len f g]
    by (auto simp: cap_wanted_def Let_def)
  moreover have b: "bytes_at f 0 (if len < CAP_BYTES then len else CAP_BYTES) =
      bytes_at g 0 (if len < CAP_BYTES then len else CAP_BYTES)"
    using assms by (intro bytes_at_cong) (auto split: if_splits)
  have "cap_push s (dir, f, len, now) = cap_push s (dir, g, len, now)"
    unfolding cap_push_def Let_def prod.case b by (rule refl)
  ultimately show ?thesis by (simp add: cap_record_def)
qed

end
