(* ===== verification/Checksum.thy ===== *)
theory Checksum
  imports Prelude
begin

text \<open>
  The internet checksum of \<^theory_text>\<open>firmware/net.c\<close> (\<^theory_text>\<open>net_checksum\<close>) on 32-bit
  accumulators, its value as arithmetic modulo 65535, and the fact receivers rely on: data
  carrying its own checksum sums to zero.
\<close>

section \<open>The routine\<close>

text \<open>The pairwise sum with the odd tail byte in the high half.\<close>

fun csum_add :: "u8 list \<Rightarrow> u32 \<Rightarrow> u32" where
  "csum_add (a # b # bs) acc = csum_add bs (acc + (push_bit 8 (ucast a) OR ucast b))"
| "csum_add [a] acc = acc + push_bit 8 (ucast a)"
| "csum_add [] acc = acc"

text \<open>The end-around carry: \<^theory_text>\<open>while (sum >> 16) sum = (sum & 0xFFFF) + (sum >> 16)\<close>.\<close>

lemma fold_smaller:
  fixes s :: u32
  assumes "drop_bit 16 s \<noteq> 0"
  shows "unat ((s AND 0xFFFF) + drop_bit 16 s) = unat s mod 65536 + unat s div 65536"
    and "unat s mod 65536 + unat s div 65536 < unat s"
proof -
  have a: "unat (s AND 0xFFFF) = unat s mod 65536"
    by (simp only: and_low16 unat_take_bit) simp
  have d: "unat (drop_bit 16 s) = unat s div 65536"
    by (simp only: unat_drop_bit) simp
  have lt: "unat s < 4294967296" by (rule unat_u32_less)
  have "unat s mod 65536 < 65536" by simp
  moreover have "unat s div 65536 < 65536" using lt by (simp add: less_mult_imp_div_less)
  ultimately have "unat s mod 65536 + unat s div 65536 < 4294967296" by linarith
  then show "unat ((s AND 0xFFFF) + drop_bit 16 s) = unat s mod 65536 + unat s div 65536"
    by (simp add: unat_word_ariths a d)
  have "unat s div 65536 \<noteq> 0"
    using assms d unsigned_0 unat_eq_0 by metis
  then show "unat s mod 65536 + unat s div 65536 < unat s"
    using div_mult_mod_eq [of "unat s" 65536] by linarith
qed

function csum_fold :: "u32 \<Rightarrow> u32" where
  "csum_fold s = (if drop_bit 16 s \<noteq> 0 then csum_fold ((s AND 0xFFFF) + drop_bit 16 s) else s)"
  by pat_completeness auto
termination
  by (relation "measure unat") (auto simp: fold_smaller)

declare csum_fold.simps [simp del]

definition net_checksum :: "u8 list \<Rightarrow> u32 \<Rightarrow> u16" where
  "net_checksum data initial = ucast (NOT (csum_fold (csum_add data initial)))"

section \<open>Its value\<close>

text \<open>The sum over the naturals.\<close>

fun nat_sum :: "u8 list \<Rightarrow> nat" where
  "nat_sum (a # b # bs) = 256 * unat a + unat b + nat_sum bs"
| "nat_sum [a] = 256 * unat a"
| "nat_sum [] = 0"

lemma unat_pair: "unat (push_bit 8 (ucast (a :: u8)) OR ucast (b :: u8) :: u32) = 256 * unat a + unat b"
proof -
  have "(push_bit 8 (ucast a) OR ucast b :: u32) = push_bit 8 (ucast a) + ucast b"
    by (rule disjunctive_add [symmetric]) (auto simp: bit_simps dest: byte_bit_bound)
  then show ?thesis
    using unat_u8_less [of a] unat_u8_less [of b]
    by (simp add: push_bit_eq_mult unat_word_ariths)
qed

lemma unat_high: "unat (push_bit 8 (ucast (a :: u8)) :: u32) = 256 * unat a"
  using unat_u8_less [of a] by (simp add: push_bit_eq_mult unat_word_ariths)

lemma nat_sum_bound: "nat_sum bs \<le> 65535 * ((length bs + 1) div 2)"
proof (induction bs rule: nat_sum.induct)
  case (1 a b bs)
  then show ?case
    using unat_u8_less [of a] unat_u8_less [of b] by simp
next
  case (2 a)
  then show ?case using unat_u8_less [of a] by simp
qed simp

lemma unat_csum_add:
  "unat acc + nat_sum bs < 2 ^ 32 \<Longrightarrow> unat (csum_add bs acc) = unat acc + nat_sum bs"
proof (induction bs acc rule: csum_add.induct)
  case (1 a b bs acc)
  have "unat (acc + (push_bit 8 (ucast a) OR ucast b)) = unat acc + (256 * unat a + unat b)"
    using "1.prems" by (simp add: unat_word_ariths unat_pair)
  with 1 show ?case by simp
next
  case (2 a acc)
  then show ?case by (simp add: unat_word_ariths unat_high)
qed simp

text \<open>The one's complement residue: 0 only for 0, else in 1..65535.\<close>

definition oc :: "nat \<Rightarrow> nat" where
  "oc n = (if n = 0 then 0 else (n - 1) mod 65535 + 1)"

lemma oc_bound: "oc n \<le> 65535"
proof -
  have "(n - 1) mod 65535 + 1 \<le> 65535"
    using mod_less_divisor [of 65535 "n - 1"] by linarith
  then show ?thesis unfolding oc_def by simp
qed

lemma oc_step:
  assumes "65536 \<le> n"
  shows "oc (n mod 65536 + n div 65536) = oc n"
proof -
  let ?q = "n div 65536" and ?r = "n mod 65536"
  have q: "0 < ?q" using assms by (simp add: div_greater_zero_iff)
  have "n - 1 = (?r + ?q - 1) + 65535 * ?q"
    using div_mult_mod_eq [of n 65536] q by linarith
  then have "(n - 1) mod 65535 = (?r + ?q - 1) mod 65535" by simp
  with q assms show ?thesis by (simp add: oc_def)
qed

lemma unat_csum_fold: "unat (csum_fold s) = oc (unat s)"
proof (induction s rule: csum_fold.induct)
  case (1 s)
  have d: "unat (drop_bit 16 s) = unat s div 65536"
    by (simp only: unat_drop_bit) simp
  show ?case
  proof (cases "drop_bit 16 s \<noteq> 0")
    case True
    then have "65536 \<le> unat s"
      using d by (metis div_less not_less unat_eq_0)
    with True show ?thesis
      using 1 fold_smaller [OF True] by (simp add: csum_fold.simps [of s] oc_step)
  next
    case False
    then have "unat s div 65536 = 0" using d by simp
    then have "unat s < 65536" by (simp add: div_eq_0_iff)
    with False show ?thesis
      by (auto simp: csum_fold.simps [of s] oc_def)
  qed
qed

lemma unat_net_checksum:
  assumes "unat initial + nat_sum bs < 2 ^ 32"
  shows "unat (net_checksum bs initial) = 65535 - oc (unat initial + nat_sum bs)"
proof -
  let ?f = "csum_fold (csum_add bs initial)"
  have f: "unat ?f = oc (unat initial + nat_sum bs)"
    using assms by (simp add: unat_csum_fold unat_csum_add)
  have "unat (NOT ?f) = 4294967295 - unat ?f"
    by (simp add: unat_not_u32) 
  moreover have "unat (ucast (NOT ?f) :: u16) = unat (NOT ?f) mod 65536"
    by (simp add: unsigned_ucast_eq take_bit_eq_mod)
  moreover have "(4294967295 - unat ?f) mod 65536 = 65535 - unat ?f"
  proof -
    define m where "m = 65535 - unat ?f"
    have "unat ?f \<le> 65535" by (simp add: f oc_bound)
    then have "4294967295 - unat ?f = m + 65536 * 65535" by (simp add: m_def)
    moreover have "m < 65536" by (simp add: m_def)
    ultimately have "(4294967295 - unat ?f) mod 65536 = m"
      by (simp only: mod_mult_self2 mod_less)
    then show ?thesis by (simp only: m_def)
  qed
  ultimately show ?thesis by (simp add: net_checksum_def f)
qed

section \<open>Data carrying its checksum verifies\<close>

lemma nat_sum_append: "even (length xs) \<Longrightarrow> nat_sum (xs @ ys) = nat_sum xs + nat_sum ys"
  by (induction xs rule: nat_sum.induct) auto

lemma nat_sum_be16: "nat_sum (be16 v @ ys) = unat v + nat_sum ys"
proof -
  have "256 * unat (ucast (drop_bit 8 v) :: u8) + unat (ucast v :: u8) = unat v"
  proof -
    have "unat (drop_bit 8 v) = unat v div 256"
      by (simp only: unat_drop_bit) simp
    then have "unat (ucast (drop_bit 8 v) :: u8) = unat v div 256"
      using unat_u16_less [of v]
      by (simp add: unsigned_ucast_eq take_bit_eq_mod less_mult_imp_div_less)
    moreover have "unat (ucast v :: u8) = unat v mod 256"
      by (simp add: unsigned_ucast_eq take_bit_eq_mod)
    ultimately show ?thesis by (simp add: mult_div_mod_eq)
  qed
  then show ?thesis by (simp add: be16_def)
qed

lemma oc_complement: "oc (n + (65535 - oc n)) = 65535"
proof (cases "n = 0")
  case False
  define q where "q = (n - 1) div 65535"
  define r where "r = (n - 1) mod 65535"
  have r: "r < 65535" and n: "n = 65535 * q + r + 1"
    using False div_mult_mod_eq [of "n - 1" 65535] by (auto simp: q_def r_def mult.commute)
  have "oc n = r + 1" using False by (simp add: oc_def r_def)
  then have "n + (65535 - oc n) - 1 = 65534 + 65535 * q" and "n + (65535 - oc n) \<noteq> 0"
    using r n by auto
  then show ?thesis by (simp add: oc_def)
qed (simp add: oc_def)

text \<open>
  \<open>pre\<close> and \<open>post\<close> surround a checksum field that was zero when the checksum was taken,
  at an even offset, as in every header the firmware builds.
\<close>

lemma checksum_verifies:
  assumes "even (length pre)" "length pre + length post < 100000"
  shows "net_checksum (pre @ be16 (net_checksum (pre @ be16 0 @ post) 0) @ post) 0 = 0"
proof -
  let ?N = "nat_sum pre + nat_sum post"
  let ?c = "net_checksum (pre @ be16 0 @ post) 0"
  have N: "nat_sum (pre @ be16 0 @ post) = ?N"
    using assms by (simp add: nat_sum_append nat_sum_be16)
  have "nat_sum pre \<le> 65535 * 50000" "nat_sum post \<le> 65535 * 50000" "?N \<le> 65535 * 50001"
    using nat_sum_bound [of pre] nat_sum_bound [of post] assms by auto
  then have small: "?N < 2 ^ 32 - 65536" by simp
  have c: "unat ?c = 65535 - oc ?N"
    using small by (simp add: unat_net_checksum N)
  have "nat_sum (pre @ be16 ?c @ post) = ?N + (65535 - oc ?N)"
    using assms c by (simp add: nat_sum_append nat_sum_be16)
  then have "unat (net_checksum (pre @ be16 ?c @ post) 0) = 65535 - oc (?N + (65535 - oc ?N))"
    using small by (simp add: unat_net_checksum)
  then have "unat (net_checksum (pre @ be16 ?c @ post) 0) = 0"
    by (simp only: oc_complement diff_self_eq_0)
  then show ?thesis by (simp add: unat_eq_0)
qed

end
