(* ===== verification/Net.thy ===== *)
theory Net
  imports Cap Checksum
begin

text \<open>
  The network stack, \<^theory_text>\<open>firmware/net.c\<close>: raw transmission through the MAC's buffer
  slots, ARP, IGMP, UDP, ICMP and the receive dispatcher. The state is one record with the
  file's static variables, the MAC transmit buffers, the capture ring \<open>eth_send\<close> records
  into, the frames handed to the MAC so far, and the millisecond clock the ring stamps with.
\<close>

section \<open>State\<close>

datatype udp_fn = Arc_Rx | Cmc_Rx | Flows_Rx | Info_Rx | Stats_Rx | Mdns_Rx
  | Ptpv1_Rx | Probe_Rx | Cap_Req_Rx

record arp_entry =
  ae_ip :: ip4
  ae_mac :: mac6
  ae_valid :: bool

record net_stats =
  rx_arp :: u32
  rx_ip :: u32
  rx_udp :: u32
  rx_icmp :: u32
  rx_igmp :: u32
  rx_dropped :: u32
  tx_udp :: u32
  tx_arp :: u32
  tx_icmp :: u32
  tx_igmp :: u32
  tx_dropped :: u32
  arp_misses :: u32

record net =
  g_net_ip :: ip4
  g_net_prefix :: u8
  g_net_stats :: net_stats
  net_mac :: mac6
  ip_ident :: u16
  tx_slots :: "u8 list list"
  txslot :: nat
  arp_cache :: "arp_entry list"
  arp_next :: nat
  igmp_groups :: "ip4 list"
  igmp_count :: nat
  udp_bindings :: "(u16 \<times> udp_fn option) list"
  cap :: cap_st
  wire :: "u8 list list"
  now_ms :: u32

definition net_stats0 :: net_stats where
  "net_stats0 = \<lparr>rx_arp = 0, rx_ip = 0, rx_udp = 0, rx_icmp = 0, rx_igmp = 0, rx_dropped = 0,
     tx_udp = 0, tx_arp = 0, tx_icmp = 0, tx_igmp = 0, tx_dropped = 0, arp_misses = 0\<rparr>"

abbreviation bump :: "((u32 \<Rightarrow> u32) \<Rightarrow> net_stats \<Rightarrow> net_stats) \<Rightarrow> net \<Rightarrow> net" where
  "bump f s \<equiv> s\<lparr>g_net_stats := f (\<lambda>x. x + 1) (g_net_stats s)\<rparr>"

definition ETH_HDR_LEN :: nat where "ETH_HDR_LEN = 14"
definition IP_HDR_LEN :: nat where "IP_HDR_LEN = 20"
definition UDP_HDR_LEN :: nat where "UDP_HDR_LEN = 8"
definition NET_MAX_PAYLOAD :: nat where "NET_MAX_PAYLOAD = 1400"
definition ARP_CACHE_N :: nat where "ARP_CACHE_N = 6"
definition IGMP_N :: nat where "IGMP_N = 6"
definition UDP_BINDINGS :: nat where "UDP_BINDINGS = 16"
definition NET_TOS_AUDIO :: u8 where "NET_TOS_AUDIO = 0xB8"
definition NET_TOS_PTP :: u8 where "NET_TOS_PTP = 0xE0"

fun is_mcast :: "ip4 \<Rightarrow> bool" where
  "is_mcast (a, b, c, d) = (a \<ge> 224 \<and> a \<le> 239)"

fun is_bcast :: "ip4 \<Rightarrow> bool" where
  "is_bcast (a, b, c, d) = (a = 255 \<and> b = 255 \<and> c = 255 \<and> d = 255)"

fun net_mcast_mac :: "ip4 \<Rightarrow> mac6" where
  "net_mcast_mac (a, b, c, d) = (0x01, 0x00, 0x5e, b AND 0x7f, c, d)"

section \<open>Raw transmission\<close>

definition tx_buf :: "net \<Rightarrow> u8 list" where
  "tx_buf s = tx_slots s ! txslot s"

definition tx_put :: "nat \<Rightarrow> u8 list \<Rightarrow> net \<Rightarrow> net" where
  "tx_put off bs s = s\<lparr>tx_slots := (tx_slots s)[txslot s := put off bs (tx_buf s)]\<rparr>"

definition eth_send :: "nat \<Rightarrow> net \<Rightarrow> net" where
  "eth_send len s =
    (let len = (if len < 60 then 60 else len);
         buf = tx_buf s in
     s\<lparr>cap := cap_record 1 (ptr_of buf) len (now_ms s) (cap s),
       wire := wire s @ [take len buf],
       txslot := (txslot s + 1) mod length (tx_slots s)\<rparr>)"

section \<open>ARP\<close>

text \<open>The first valid cache entry for an address.\<close>

definition arp_index :: "arp_entry list \<Rightarrow> ip4 \<Rightarrow> nat option" where
  "arp_index cache ip = List.find (\<lambda>i. ae_valid (cache ! i) \<and> ae_ip (cache ! i) = ip) [0..<length cache]"

definition arp_learn :: "ip4 \<Rightarrow> mac6 \<Rightarrow> net \<Rightarrow> net" where
  "arp_learn ip mac s =
    (if is_mcast ip \<or> is_bcast ip then s
     else if ip = (0, 0, 0, 0) then s
     else case arp_index (arp_cache s) ip of
       Some i \<Rightarrow> s\<lparr>arp_cache := (arp_cache s)[i := (arp_cache s ! i)\<lparr>ae_mac := mac\<rparr>]\<rparr>
     | None \<Rightarrow> s\<lparr>arp_cache := (arp_cache s)[arp_next s := \<lparr>ae_ip = ip, ae_mac = mac, ae_valid = True\<rparr>],
                 arp_next := (arp_next s + 1) mod ARP_CACHE_N\<rparr>)"

text \<open>
  The frame is built in the transmit buffer; an ARP request has no target hardware
  address (\<^theory_text>\<open>NULL\<close>).
\<close>

definition arp_send :: "u16 \<Rightarrow> ip4 \<Rightarrow> mac6 option \<Rightarrow> net \<Rightarrow> net" where
  "arp_send oper tip tmac s0 =
    (let s = tx_put 0 (replicate 60 0) s0;
         s = (if oper = 1 then tx_put 0 (replicate 6 0xFF) s
              else case tmac of Some m \<Rightarrow> tx_put 0 (mac_bytes m) s | None \<Rightarrow> s);
         s = tx_put 6 (mac_bytes (net_mac s)) s;
         s = tx_put 12 (be16 0x0806) s;
         s = tx_put 14 (be16 1) s;
         s = tx_put 16 (be16 0x0800) s;
         s = tx_put 18 [6, 4] s;
         s = tx_put 20 (be16 oper) s;
         s = tx_put 22 (mac_bytes (net_mac s)) s;
         s = tx_put 28 (ip_bytes (g_net_ip s)) s;
         s = (case tmac of Some m \<Rightarrow> if oper = 2 then tx_put 32 (mac_bytes m) s else s | None \<Rightarrow> s);
         s = tx_put 38 (ip_bytes tip) s;
         s = eth_send 60 s in
     bump tx_arp_update s)"

definition net_arp_lookup :: "ip4 \<Rightarrow> net \<Rightarrow> mac6 option \<times> net" where
  "net_arp_lookup ip s =
    (if is_mcast ip then (Some (net_mcast_mac ip), s)
     else if is_bcast ip then (Some (0xFF, 0xFF, 0xFF, 0xFF, 0xFF, 0xFF), s)
     else case arp_index (arp_cache s) ip of
       Some i \<Rightarrow> (Some (ae_mac (arp_cache s ! i)), s)
     | None \<Rightarrow> (None, arp_send 1 ip None (bump arp_misses_update s)))"

definition arp_rx :: "ptr \<Rightarrow> nat \<Rightarrow> net \<Rightarrow> net" where
  "arp_rx f len s =
    (if len < ETH_HDR_LEN + 28 then s
     else if rd16 f 14 \<noteq> 1 \<or> rd16 f 16 \<noteq> 0x0800 \<or> f 18 \<noteq> 6 \<or> f 19 \<noteq> 4 then s
     else let oper = rd16 f 20;
              s = arp_learn (ip_at f 28) (mac_at f 22) s;
              s = bump rx_arp_update s in
     if oper = 1 \<and> ip_at f 38 = g_net_ip s
     then arp_send 2 (ip_at f 28) (Some (mac_at f 22)) s else s)"

section \<open>IGMP\<close>

definition igmp_report :: "ip4 \<Rightarrow> net \<Rightarrow> net" where
  "igmp_report grp s0 =
    (let s = tx_put 0 (replicate 60 0) s0;
         s = tx_put 0 (mac_bytes (net_mcast_mac grp)) s;
         s = tx_put 6 (mac_bytes (net_mac s)) s;
         s = tx_put 12 (be16 0x0800) s;
         s = tx_put 14 [0x46, 0xC0] s;
         s = tx_put 16 (be16 (24 + 8)) s;
         s = tx_put 18 (be16 (ip_ident s)) (s\<lparr>ip_ident := ip_ident s + 1\<rparr>);
         s = tx_put 20 (be16 0) s;
         s = tx_put 22 [1] s;
         s = tx_put 23 [2] s;
         s = tx_put 24 (be16 0) s;
         s = tx_put 26 (ip_bytes (g_net_ip s)) s;
         s = tx_put 30 (ip_bytes grp) s;
         s = tx_put 34 (be32 0x94040000) s;
         s = tx_put 24 (be16 (net_checksum (take 24 (drop 14 (tx_buf s))) 0)) s;
         s = tx_put 38 [0x16, 0] s;
         s = tx_put 40 (be16 0) s;
         s = tx_put 42 (ip_bytes grp) s;
         s = tx_put 40 (be16 (net_checksum (take 8 (drop 38 (tx_buf s))) 0)) s;
         s = eth_send (ETH_HDR_LEN + 24 + 8) s in
     bump tx_igmp_update s)"

definition net_igmp_join :: "ip4 \<Rightarrow> net \<Rightarrow> int \<times> net" where
  "net_igmp_join grp s =
    (if grp \<in> set (take (igmp_count s) (igmp_groups s)) then (0, s)
     else if igmp_count s \<ge> IGMP_N then (-1, s)
     else (0, igmp_report grp (s\<lparr>igmp_groups := (igmp_groups s)[igmp_count s := grp],
             igmp_count := igmp_count s + 1\<rparr>)))"

text \<open>One report per joined grp that the query asks about, in table order.\<close>

fun igmp_answer :: "ip4 \<Rightarrow> ip4 list \<Rightarrow> net \<Rightarrow> net" where
  "igmp_answer q [] s = s"
| "igmp_answer q (g # gs) s =
     igmp_answer q gs (if q = (0, 0, 0, 0) then igmp_report g s
                       else if g = q then igmp_report g s else s)"

definition igmp_rx :: "ptr \<Rightarrow> nat \<Rightarrow> net \<Rightarrow> net" where
  "igmp_rx p len s =
    (if len < 8 then s
     else let s = bump rx_igmp_update s in
     if p 0 \<noteq> 0x11 then s
     else igmp_answer (ip_at p 4) (take (igmp_count s) (igmp_groups s)) s)"

section \<open>UDP\<close>

definition net_udp_bind :: "u16 \<Rightarrow> udp_fn option \<Rightarrow> net \<Rightarrow> int \<times> net" where
  "net_udp_bind port fn s =
    (case List.find (\<lambda>i. fst (udp_bindings s ! i) = port) [0..<length (udp_bindings s)] of
       Some i \<Rightarrow> (0, s\<lparr>udp_bindings := (udp_bindings s)[i := (port, fn)]\<rparr>)
     | None \<Rightarrow>
        (case List.find (\<lambda>i. fst (udp_bindings s ! i) = 0) [0..<length (udp_bindings s)] of
           Some i \<Rightarrow> (0, s\<lparr>udp_bindings := (udp_bindings s)[i := (port, fn)]\<rparr>)
         | None \<Rightarrow> (-1, s)))"

text \<open>Storing a payload through \<^theory_text>\<open>net_udp_payload_buf()\<close>.\<close>

definition payload_put :: "nat \<Rightarrow> u8 list \<Rightarrow> net \<Rightarrow> net" where
  "payload_put off bs s = tx_put (ETH_HDR_LEN + IP_HDR_LEN + UDP_HDR_LEN + off) bs s"

definition net_udp_commit :: "ip4 \<Rightarrow> u16 \<Rightarrow> u16 \<Rightarrow> nat \<Rightarrow> u8 \<Rightarrow> net \<Rightarrow> int \<times> net" where
  "net_udp_commit dst dport sport len tos s0 =
    (if len > NET_MAX_PAYLOAD then (-1, bump tx_dropped_update s0)
     else case net_arp_lookup dst s0 of
       (None, s) \<Rightarrow> (-1, bump tx_dropped_update s)
     | (Some dmac, s) \<Rightarrow>
        (let s = tx_put 0 (mac_bytes dmac) s;
             s = tx_put 6 (mac_bytes (net_mac s)) s;
             s = tx_put 12 (be16 0x0800) s;
             s = tx_put 14 [0x45, tos] s;
             s = tx_put 16 (be16 (of_nat (IP_HDR_LEN + UDP_HDR_LEN + len))) s;
             s = (if tos = NET_TOS_AUDIO then tx_put 18 (be16 0) s
                  else tx_put 18 (be16 (ip_ident s)) (s\<lparr>ip_ident := ip_ident s + 1\<rparr>));
             s = tx_put 20 (be16 0) s;
             s = tx_put 22 [if is_mcast dst then 32 else 64] s;
             s = tx_put 23 [17] s;
             s = tx_put 24 (be16 0) s;
             s = tx_put 26 (ip_bytes (g_net_ip s)) s;
             s = tx_put 30 (ip_bytes dst) s;
             s = tx_put 24 (be16 (net_checksum (take 20 (drop 14 (tx_buf s))) 0)) s;
             s = tx_put 34 (be16 sport) s;
             s = tx_put 36 (be16 dport) s;
             s = tx_put 38 (be16 (of_nat (UDP_HDR_LEN + len))) s;
             s = tx_put 40 (be16 0) s;
             s = eth_send (ETH_HDR_LEN + IP_HDR_LEN + UDP_HDR_LEN + len) s in
         (0, bump tx_udp_update s)))"

definition net_udp_send :: "ip4 \<Rightarrow> u16 \<Rightarrow> u16 \<Rightarrow> u8 list \<Rightarrow> u8 \<Rightarrow> net \<Rightarrow> int \<times> net" where
  "net_udp_send dst dport sport payload tos s0 =
    (if length payload > NET_MAX_PAYLOAD then (-1, bump tx_dropped_update s0)
     else case net_arp_lookup dst s0 of
       (None, s) \<Rightarrow> (-1, bump tx_dropped_update s)
     | (Some _, s) \<Rightarrow>
        net_udp_commit dst dport sport (length payload) tos (payload_put 0 payload s))"

section \<open>ICMP echo\<close>

text \<open>The second half of \<^theory_text>\<open>icmp_rx\<close>: move the reply down and put the headers before it.\<close>

definition icmp_reply :: "mac6 \<Rightarrow> ip4 \<Rightarrow> nat \<Rightarrow> net \<Rightarrow> net" where
  "icmp_reply dmac src len s0 =
    (let s = tx_put (ETH_HDR_LEN + IP_HDR_LEN) (take len (drop 42 (tx_buf s0))) s0;
         s = tx_put 0 (mac_bytes dmac) s;
         s = tx_put 6 (mac_bytes (net_mac s)) s;
         s = tx_put 12 (be16 0x0800) s;
         s = tx_put 14 [0x45, 0] s;
         s = tx_put 16 (be16 (of_nat (IP_HDR_LEN + len))) s;
         s = tx_put 18 (be16 (ip_ident s)) (s\<lparr>ip_ident := ip_ident s + 1\<rparr>);
         s = tx_put 20 (be16 0) s;
         s = tx_put 22 [64] s;
         s = tx_put 23 [1] s;
         s = tx_put 24 (be16 0) s;
         s = tx_put 26 (ip_bytes (g_net_ip s)) s;
         s = tx_put 30 (ip_bytes src) s;
         s = tx_put 24 (be16 (net_checksum (take 20 (drop 14 (tx_buf s))) 0)) s;
         s = eth_send (ETH_HDR_LEN + IP_HDR_LEN + len) s in
     bump tx_icmp_update s)"

definition icmp_rx :: "ip4 \<Rightarrow> ptr \<Rightarrow> nat \<Rightarrow> net \<Rightarrow> net" where
  "icmp_rx src p len s0 =
    (if len < 8 \<or> p 0 \<noteq> 8 then s0
     else if len > NET_MAX_PAYLOAD then s0
     else let s = bump rx_icmp_update s0;
              s = payload_put 0 (bytes_at p 0 len) s;
              s = payload_put 0 [0] s;
              s = payload_put 2 [0, 0] s;
              ck = net_checksum (take len (drop 42 (tx_buf s))) 0;
              s = payload_put 2 (be16 ck) s in
     case net_arp_lookup src s of
       (None, s) \<Rightarrow> s
     | (Some dmac, s) \<Rightarrow> icmp_reply dmac src len s)"

section \<open>Receive dispatch\<close>

definition ip_for_us :: "ip4 \<Rightarrow> net \<Rightarrow> bool" where
  "ip_for_us d s =
    (if d = g_net_ip s then True
     else if is_bcast d then True
     else if is_mcast d then True
     else case (d, g_net_ip s) of ((a, b, c, e), (a', b', c', e')) \<Rightarrow>
       if g_net_prefix s = 24 then a = a' \<and> b = b' \<and> c = c' \<and> e = 255
       else a = a' \<and> b = b' \<and> c = 255 \<and> e = 255)"

text \<open>A datagram handed to a bound handler: the handler's arguments.\<close>

record datagram =
  dg_fn :: udp_fn
  dg_src :: ip4
  dg_dst :: ip4
  dg_sport :: u16
  dg_payload :: "u8 list"

definition udp_lookup :: "(u16 \<times> udp_fn option) list \<Rightarrow> u16 \<Rightarrow> udp_fn option" where
  "udp_lookup bs port = (case List.find (\<lambda>(q, fn). q = port \<and> fn \<noteq> None) bs of
     Some (_, fn) \<Rightarrow> fn | None \<Rightarrow> None)"

text \<open>
  The transport switch: \<open>off\<close> is where the IP payload starts in the frame and \<open>plen\<close> the
  \<^theory_text>\<open>uint32_t\<close> it computes as \<open>total - ihl\<close>.
\<close>

definition ip_deliver :: "ptr \<Rightarrow> nat \<Rightarrow> nat \<Rightarrow> net \<Rightarrow> datagram option \<times> net" where
  "ip_deliver f off plen s =
    (let src = ip_at f 26; dst = ip_at f 30 in
     if f 23 = 1 then (None, icmp_rx src (\<lambda>i. f (off + i)) plen s)
     else if f 23 = 2 then (None, igmp_rx (\<lambda>i. f (off + i)) plen s)
     else if f 23 = 17 then
       (if plen < UDP_HDR_LEN then (None, s)
        else let sport = rd16 f off; dport = rd16 f (off + 2); ulen = unat (rd16 f (off + 4)) in
        if ulen < UDP_HDR_LEN \<or> ulen > plen then (None, bump rx_dropped_update s)
        else let s = bump rx_udp_update s in
        case udp_lookup (udp_bindings s) dport of
          None \<Rightarrow> (None, s)
        | Some fn \<Rightarrow> (Some \<lparr>dg_fn = fn, dg_src = src, dg_dst = dst, dg_sport = sport,
             dg_payload = bytes_at f (off + UDP_HDR_LEN) (ulen - UDP_HDR_LEN)\<rparr>, s))
     else (None, s))"

definition net_rx_frame :: "ptr \<Rightarrow> nat \<Rightarrow> net \<Rightarrow> int \<times> datagram option \<times> net" where
  "net_rx_frame f len s =
    (if len < ETH_HDR_LEN then (0, None, s)
     else let et = rd16 f 12 in
     if et = 0x0806 then (1, None, arp_rx f len s)
     else if et \<noteq> 0x0800 then (0, None, s)
     else if len < ETH_HDR_LEN + IP_HDR_LEN then (0, None, s)
     else if drop_bit 4 (f 14) \<noteq> 4 then (0, None, s)
     else let ihl = unat (f 14 AND 0x0F) * 4 in
     if ihl < IP_HDR_LEN \<or> len < ETH_HDR_LEN + ihl then (0, None, s)
     else let total = unat (rd16 f 16) in
     if (total < ihl \<or> len < ETH_HDR_LEN + total) \<and> len < ETH_HDR_LEN + total
     then (1, None, bump rx_dropped_update s)
     else if \<not> ip_for_us (ip_at f 30) s then (1, None, s)
     else let s = bump rx_ip_update s;
              s = arp_learn (ip_at f 26) (mac_at f 6) s;
              plen = (total + 2 ^ 32 - ihl) mod 2 ^ 32;
              (d, s) = ip_deliver f (ETH_HDR_LEN + ihl) plen s in
     (1, d, s))"

section \<open>Lifecycle\<close>

definition net_init :: "mac6 \<Rightarrow> ip4 option \<Rightarrow> u8 \<Rightarrow> net \<Rightarrow> net" where
  "net_init mac ip prefix s =
    s\<lparr>net_mac := mac,
      g_net_ip := (case ip of Some a \<Rightarrow> a | None \<Rightarrow> g_net_ip s),
      g_net_prefix := (if prefix \<noteq> 0 then prefix else g_net_prefix s),
      arp_cache := replicate ARP_CACHE_N \<lparr>ae_ip = (0, 0, 0, 0), ae_mac = (0, 0, 0, 0, 0, 0), ae_valid = False\<rparr>,
      g_net_stats := net_stats0, igmp_count := 0, txslot := 0\<rparr>"

definition net_set_ip :: "ip4 \<Rightarrow> u8 \<Rightarrow> net \<Rightarrow> net" where
  "net_set_ip ip prefix s =
    s\<lparr>g_net_ip := ip, g_net_prefix := (if prefix \<noteq> 0 then prefix else g_net_prefix s)\<rparr>"

end
