(* ===== verification/Net_Frame.thy ===== *)
theory Net_Frame
  imports Net
begin

text \<open>
  What the transmit half of the stack puts on the wire: how the buffer writes of
  \<^theory_text>\<open>net_udp_commit\<close>, \<^theory_text>\<open>icmp_rx\<close>, \<^theory_text>\<open>arp_send\<close> and
  \<^theory_text>\<open>igmp_report\<close> compose into a frame, and which other state they touch.
\<close>

section \<open>Buffer well-formedness and frame rules\<close>

text \<open>Room for the largest frame the stack builds: 42 header bytes and 1400 of payload.\<close>

definition tx_wf :: "net \<Rightarrow> bool" where
  "tx_wf s \<longleftrightarrow> txslot s < length (tx_slots s) \<and> (\<forall>b \<in> set (tx_slots s). 1442 \<le> length b)"

lemma tx_put_fields [simp]:
  "g_net_ip (tx_put off bs s) = g_net_ip s" "g_net_prefix (tx_put off bs s) = g_net_prefix s"
  "g_net_stats (tx_put off bs s) = g_net_stats s" "net_mac (tx_put off bs s) = net_mac s"
  "ip_ident (tx_put off bs s) = ip_ident s" "txslot (tx_put off bs s) = txslot s"
  "arp_cache (tx_put off bs s) = arp_cache s" "arp_next (tx_put off bs s) = arp_next s"
  "igmp_groups (tx_put off bs s) = igmp_groups s" "igmp_count (tx_put off bs s) = igmp_count s"
  "udp_bindings (tx_put off bs s) = udp_bindings s" "cap (tx_put off bs s) = cap s"
  "wire (tx_put off bs s) = wire s" "now_ms (tx_put off bs s) = now_ms s"
  "length (tx_slots (tx_put off bs s)) = length (tx_slots s)"
  by (simp_all add: tx_put_def)

lemma eth_send_fields [simp]:
  "g_net_ip (eth_send n s) = g_net_ip s" "g_net_prefix (eth_send n s) = g_net_prefix s"
  "g_net_stats (eth_send n s) = g_net_stats s" "net_mac (eth_send n s) = net_mac s"
  "ip_ident (eth_send n s) = ip_ident s" "tx_slots (eth_send n s) = tx_slots s"
  "arp_cache (eth_send n s) = arp_cache s" "arp_next (eth_send n s) = arp_next s"
  "igmp_groups (eth_send n s) = igmp_groups s" "igmp_count (eth_send n s) = igmp_count s"
  "udp_bindings (eth_send n s) = udp_bindings s" "now_ms (eth_send n s) = now_ms s"
  by (simp_all add: eth_send_def Let_def)

lemma tx_buf_bump [simp]:
  "tx_buf (g_net_stats_update f s) = tx_buf s" "tx_buf (ip_ident_update g s) = tx_buf s"
  by (simp_all add: tx_buf_def)

lemma tx_wf_bump [simp]:
  "tx_wf (g_net_stats_update f s) = tx_wf s" "tx_wf (ip_ident_update g s) = tx_wf s"
  by (simp_all add: tx_wf_def)

lemma tx_buf_len: "tx_wf s \<Longrightarrow> 1442 \<le> length (tx_buf s)"
  by (simp add: tx_wf_def tx_buf_def)

text \<open>The current slot exists: all that reading back a write needs.\<close>

definition tx_ok :: "net \<Rightarrow> bool" where
  "tx_ok s \<longleftrightarrow> txslot s < length (tx_slots s)"

lemma tx_ok_simps [simp]:
  "tx_ok (tx_put off bs s) = tx_ok s" "tx_ok (g_net_stats_update f s) = tx_ok s"
  "tx_ok (ip_ident_update g s) = tx_ok s"
  by (simp_all add: tx_ok_def)

lemma tx_wf_ok: "tx_wf s \<Longrightarrow> tx_ok s"
  by (simp add: tx_wf_def tx_ok_def)

lemma tx_buf_put: "tx_ok s \<Longrightarrow> tx_buf (tx_put off bs s) = put off bs (tx_buf s)"
  by (simp add: tx_buf_def tx_put_def tx_ok_def)

lemma tx_wf_put: "tx_wf s \<Longrightarrow> off + length bs \<le> 1442 \<Longrightarrow> tx_wf (tx_put off bs s)"
  using tx_buf_len [of s]
  by (auto simp: tx_wf_def tx_put_def dest!: set_update_subset_insert [THEN subsetD])

lemma wire_eth_send: "wire (eth_send n s) = wire s @ [take (max 60 n) (tx_buf s)]"
  by (simp add: eth_send_def Let_def max_def)

lemma tx_wf_eth_send: "tx_wf s \<Longrightarrow> tx_wf (eth_send n s)"
  by (auto simp: tx_wf_def eth_send_def Let_def intro!: mod_less_divisor)

lemmas tx_rules = tx_buf_put tx_wf_put tx_wf_eth_send

section \<open>The layouts\<close>

definition eth_header :: "mac6 \<Rightarrow> mac6 \<Rightarrow> u16 \<Rightarrow> u8 list" where
  "eth_header dmac smac et = mac_bytes dmac @ mac_bytes smac @ be16 et"

definition ip_header_with ::
    "u8 \<Rightarrow> u16 \<Rightarrow> u16 \<Rightarrow> u8 \<Rightarrow> u8 \<Rightarrow> ip4 \<Rightarrow> ip4 \<Rightarrow> u16 \<Rightarrow> u8 list" where
  "ip_header_with tos tlen ident ttl proto src dst ck =
     [0x45, tos] @ be16 tlen @ be16 ident @ be16 0 @ [ttl, proto] @ be16 ck @ ip_bytes src @ ip_bytes dst"

definition ip_header :: "u8 \<Rightarrow> u16 \<Rightarrow> u16 \<Rightarrow> u8 \<Rightarrow> u8 \<Rightarrow> ip4 \<Rightarrow> ip4 \<Rightarrow> u8 list" where
  "ip_header tos tlen ident ttl proto src dst =
     ip_header_with tos tlen ident ttl proto src dst
       (net_checksum (ip_header_with tos tlen ident ttl proto src dst 0) 0)"

definition udp_header :: "u16 \<Rightarrow> u16 \<Rightarrow> nat \<Rightarrow> u8 list" where
  "udp_header sport dport len = be16 sport @ be16 dport @ be16 (of_nat (8 + len)) @ be16 0"

lemma length_eth_header [simp]: "length (eth_header d s e) = 14"
  by (simp add: eth_header_def)

lemma length_ip_header_with [simp]: "length (ip_header_with a b c d e f g h) = 20"
  by (simp add: ip_header_with_def)

lemma length_ip_header [simp]: "length (ip_header a b c d e f g) = 20"
  by (simp add: ip_header_def)

lemma length_udp_header [simp]: "length (udp_header a b c) = 8"
  by (simp add: udp_header_def)

text \<open>Every IPv4 header the stack builds verifies.\<close>

lemma ip_header_verifies: "net_checksum (ip_header tos tlen ident ttl proto src dst) 0 = 0"
  using checksum_verifies
    [of "[0x45, tos] @ be16 tlen @ be16 ident @ be16 0 @ [ttl, proto]" "ip_bytes src @ ip_bytes dst"]
  by (simp add: ip_header_def ip_header_with_def)

definition next_ident :: "u8 \<Rightarrow> net \<Rightarrow> u16" where
  "next_ident tos s = (if tos = NET_TOS_AUDIO then 0 else ip_ident s)"

definition udp_frame :: "mac6 \<Rightarrow> ip4 \<Rightarrow> u16 \<Rightarrow> u16 \<Rightarrow> u8 \<Rightarrow> u8 list \<Rightarrow> net \<Rightarrow> u8 list" where
  "udp_frame dmac dst dport sport tos payload s =
     eth_header dmac (net_mac s) 0x0800 @
     ip_header tos (of_nat (28 + length payload)) (next_ident tos s)
       (if is_mcast dst then 32 else 64) 17 (g_net_ip s) dst @
     udp_header sport dport (length payload) @ payload"

section \<open>UDP transmission\<close>

lemma net_arp_lookup_Some:
  "net_arp_lookup dst s = (Some m, s') \<Longrightarrow> s' = s"
  by (auto simp: net_arp_lookup_def split: if_splits option.splits)

text \<open>The IPv4 header as the code stores it, piecewise into a buffer \<open>b\<close>.\<close>

lemma ip_writes:
  assumes "length e = 14"
  shows "put 30 (ip_bytes dst) (put 26 (ip_bytes src) (put 24 (be16 0) (put 23 [proto]
      (put 22 [ttl] (put 20 (be16 0) (put 18 (be16 ident) (put 16 (be16 tlen)
      (put 14 [0x45, tos] (e @ r))))))))) =
    e @ ip_header_with tos tlen ident ttl proto src dst 0 @ drop 20 r"
  using assms by (simp add: put_skip put_skip_Cons put_0 ip_header_with_def)

lemma ip_csum_write:
  assumes "length e = 14"
  shows "put 24 (be16 ck) (e @ ip_header_with tos tlen ident ttl proto src dst 0 @ r) =
    e @ ip_header_with tos tlen ident ttl proto src dst ck @ r"
  using assms by (simp add: put_skip put_skip_Cons put_0 ip_header_with_def)

lemma eth_writes:
  "put 12 (be16 et) (put 6 (mac_bytes smac) (put 0 (mac_bytes dmac) b)) =
     eth_header dmac smac et @ drop 14 b"
  by (simp add: put_skip put_0 eth_header_def)

lemma udp_writes:
  assumes "length e = 14" "length h = 20"
  shows "put 40 (be16 0) (put 38 (be16 ul) (put 36 (be16 dport) (put 34 (be16 sport) (e @ h @ r)))) =
    e @ h @ be16 sport @ be16 dport @ be16 ul @ be16 0 @ drop 8 r"
  using assms by (simp add: put_skip put_0)

text \<open>The bytes sent after the payload when the frame is short: whatever the slot held.\<close>

lemma take_frame:
  assumes "length h = k" "k \<le> 60"
  shows "take (max 60 (k + n)) (h @ r) = h @ take n r @ take (60 - (k + n)) (drop n r)"
proof -
  have "max 60 (k + n) - k = n + (60 - (k + n))" using assms(2) by (simp add: max_def)
  then show ?thesis using assms by (simp add: take_add)
qed

definition udp_headers :: "mac6 \<Rightarrow> ip4 \<Rightarrow> u16 \<Rightarrow> u16 \<Rightarrow> u8 \<Rightarrow> nat \<Rightarrow> net \<Rightarrow> u8 list" where
  "udp_headers dmac dst dport sport tos len s =
     eth_header dmac (net_mac s) 0x0800 @
     ip_header tos (of_nat (28 + len)) (next_ident tos s)
       (if is_mcast dst then 32 else 64) 17 (g_net_ip s) dst @
     udp_header sport dport len"

lemma length_udp_headers [simp]: "length (udp_headers a b c d e f g) = 42"
  by (simp add: udp_headers_def)

lemma udp_commit_state:
  assumes ok: "tx_ok s" and len: "len \<le> 1400"
    and arp: "net_arp_lookup dst s = (Some dmac, s)"
  shows "\<exists>t. net_udp_commit dst dport sport len tos s = (0, bump tx_udp_update (eth_send (14 + 20 + 8 + len) t)) \<and>
    wire t = wire s \<and> cap t = cap s \<and> tx_buf t = udp_headers dmac dst dport sport tos len s @ drop 42 (tx_buf s)"
  unfolding net_udp_commit_def Let_def NET_MAX_PAYLOAD_def ETH_HDR_LEN_def IP_HDR_LEN_def
    UDP_HDR_LEN_def arp prod.case option.case if_not_P [OF len [folded not_less]]
  apply (rule exI, rule conjI, rule refl)
  using ok
  by (cases "tos = NET_TOS_AUDIO")
    (simp_all add: tx_buf_put eth_writes ip_writes ip_csum_write udp_writes udp_headers_def
        udp_header_def ip_header_def next_ident_def)

lemma udp_commit_ok:
  assumes wf: "tx_wf s" and len: "len \<le> 1400"
    and arp: "net_arp_lookup dst s = (Some dmac, s)"
  shows "\<exists>s'. net_udp_commit dst dport sport len tos s = (0, s') \<and>
     wire s' = wire s @ [udp_frame dmac dst dport sport tos (take len (drop 42 (tx_buf s))) s @
        take (18 - len) (drop (42 + len) (tx_buf s))]"
proof -
  have b: "1442 \<le> length (tx_buf s)" and ok: "tx_ok s"
    using wf by (auto intro: tx_buf_len tx_wf_ok)
  obtain t where t: "net_udp_commit dst dport sport len tos s =
      (0, bump tx_udp_update (eth_send (14 + 20 + 8 + len) t))" "wire t = wire s"
      "tx_buf t = udp_headers dmac dst dport sport tos len s @ drop 42 (tx_buf s)"
    using udp_commit_state [OF ok len arp] by blast
  let ?h = "udp_headers dmac dst dport sport tos len s" and ?p = "take len (drop 42 (tx_buf s))"
  have lp: "length ?p = len" using b len by simp
  have "udp_frame dmac dst dport sport tos ?p s = ?h @ ?p"
    by (simp only: udp_frame_def udp_headers_def lp append_assoc)
  moreover have "wire (eth_send (14 + 20 + 8 + len) t) =
      wire s @ [take (max 60 (42 + len)) (?h @ drop 42 (tx_buf s))]"
    using t by (simp add: wire_eth_send)
  ultimately show ?thesis
    using t take_frame [of ?h 42 len "drop 42 (tx_buf s)"] by (simp add: add.commute)
qed

end
