(* ===== verification/Net_Tables.thy ===== *)
theory Net_Tables
  imports Net_Frame
begin

text \<open>
  The three tables of the stack (neighbour cache, port bindings, multicast groups): both
  keyed tables implement the interface \<open>keyed_table\<close>, and every operation of the stack
  keeps the stack's invariant.
\<close>

section \<open>First-match search\<close>

lemma find_upt_Some:
  "List.find P [0..<n] = Some i \<longleftrightarrow> i < n \<and> P i \<and> (\<forall>j < i. \<not> P j)"
  by (auto simp: find_Some_iff)

lemma find_upt_None: "List.find P [0..<n] = None \<longleftrightarrow> (\<forall>i < n. \<not> P i)"
  by (auto simp: find_None_iff)

section \<open>ARP cache\<close>

definition arp_valid :: "ip4 \<Rightarrow> bool" where
  "arp_valid ip \<longleftrightarrow> \<not> is_mcast ip \<and> \<not> is_bcast ip \<and> ip \<noteq> (0, 0, 0, 0)"

definition arp_inv :: "net \<Rightarrow> bool" where
  "arp_inv s \<longleftrightarrow> length (arp_cache s) = ARP_CACHE_N \<and> arp_next s < ARP_CACHE_N \<and>
     (\<forall>i < ARP_CACHE_N. ae_valid (arp_cache s ! i) \<longrightarrow> arp_valid (ae_ip (arp_cache s ! i))) \<and>
     (\<forall>i < ARP_CACHE_N. \<forall>j < ARP_CACHE_N. ae_valid (arp_cache s ! i) \<longrightarrow> ae_valid (arp_cache s ! j) \<longrightarrow>
        ae_ip (arp_cache s ! i) = ae_ip (arp_cache s ! j) \<longrightarrow> i = j)"

definition arp_get :: "net \<Rightarrow> ip4 \<Rightarrow> mac6 option" where
  "arp_get s ip = map_option (\<lambda>i. ae_mac (arp_cache s ! i)) (arp_index (arp_cache s) ip)"

definition arp_store :: "net \<Rightarrow> ip4 \<Rightarrow> mac6 \<Rightarrow> net option" where
  "arp_store s ip mac = Some (arp_learn ip mac s)"

text \<open>What learning a new address gives up: the occupant of the round-robin slot.\<close>

definition arp_evicts :: "net \<Rightarrow> ip4 \<Rightarrow> ip4 set" where
  "arp_evicts s ip = (if arp_get s ip \<noteq> None then {}
     else if ae_valid (arp_cache s ! arp_next s) then {ae_ip (arp_cache s ! arp_next s)} else {})"

lemma arp_index_iff:
  assumes "arp_inv s"
  shows "arp_index (arp_cache s) ip = Some i \<longleftrightarrow>
    i < ARP_CACHE_N \<and> ae_valid (arp_cache s ! i) \<and> ae_ip (arp_cache s ! i) = ip"
proof -
  have u: "\<And>i j. i < ARP_CACHE_N \<Longrightarrow> j < ARP_CACHE_N \<Longrightarrow> ae_valid (arp_cache s ! i) \<Longrightarrow>
      ae_valid (arp_cache s ! j) \<Longrightarrow> ae_ip (arp_cache s ! i) = ae_ip (arp_cache s ! j) \<Longrightarrow> i = j"
    and l: "length (arp_cache s) = ARP_CACHE_N"
    using assms unfolding arp_inv_def by blast+
  show ?thesis
    unfolding arp_index_def find_upt_Some l
    using u by (metis less_trans nat_neq_iff)
qed

lemma arp_index_None:
  "length (arp_cache s) = ARP_CACHE_N \<Longrightarrow> arp_index (arp_cache s) ip = None \<longleftrightarrow>
    (\<forall>i < ARP_CACHE_N. ae_valid (arp_cache s ! i) \<longrightarrow> ae_ip (arp_cache s ! i) \<noteq> ip)"
  by (auto simp: arp_index_def find_upt_None)

text \<open>Learning, split by whether the address is cached.\<close>

lemma arp_learn_hit:
  "arp_valid ip \<Longrightarrow> arp_index (arp_cache s) ip = Some i \<Longrightarrow>
   arp_learn ip mac s = s\<lparr>arp_cache := (arp_cache s)[i := (arp_cache s ! i)\<lparr>ae_mac := mac\<rparr>]\<rparr>"
  by (simp add: arp_learn_def arp_valid_def)

lemma arp_learn_miss:
  "arp_valid ip \<Longrightarrow> arp_index (arp_cache s) ip = None \<Longrightarrow>
   arp_learn ip mac s = s\<lparr>arp_cache := (arp_cache s)[arp_next s := \<lparr>ae_ip = ip, ae_mac = mac, ae_valid = True\<rparr>],
     arp_next := (arp_next s + 1) mod ARP_CACHE_N\<rparr>"
  by (simp add: arp_learn_def arp_valid_def)

lemma arp_learn_invalid: "\<not> arp_valid ip \<Longrightarrow> arp_learn ip mac s = s"
  by (auto simp: arp_learn_def arp_valid_def)

lemma arp_learn_inv:
  assumes inv: "arp_inv s"
  shows "arp_inv (arp_learn ip mac s)"
proof (cases "arp_valid ip")
  case False
  then show ?thesis using inv by (simp add: arp_learn_invalid)
next
  case ok: True
  show ?thesis
  proof (cases "arp_index (arp_cache s) ip")
    case (Some i)
    have "i < length (arp_cache s)"
      using Some arp_index_iff [OF inv] inv by (simp add: arp_inv_def)
    then have "ae_valid ((arp_cache (arp_learn ip mac s)) ! j) = ae_valid (arp_cache s ! j) \<and>
        ae_ip ((arp_cache (arp_learn ip mac s)) ! j) = ae_ip (arp_cache s ! j)" for j
      by (cases "i = j") (simp_all add: arp_learn_hit [OF ok Some])
    then show ?thesis
      using inv by (simp add: arp_inv_def) (simp add: arp_learn_hit [OF ok Some])
  next
    case None
    then have new: "\<forall>j < ARP_CACHE_N. ae_valid (arp_cache s ! j) \<longrightarrow> ae_ip (arp_cache s ! j) \<noteq> ip"
      using inv arp_index_None [of s ip] unfolding arp_inv_def by blast
    show ?thesis
      using inv ok new
      by (auto simp: arp_inv_def arp_learn_miss [OF ok None] nth_list_update ARP_CACHE_N_def)
  qed
qed

lemma arp_get_learn:
  assumes inv: "arp_inv s" and ok: "arp_valid ip"
  shows "arp_get (arp_learn ip mac s) ip = Some mac"
proof (cases "arp_index (arp_cache s) ip")
  case (Some i)
  then have "arp_index (arp_cache (arp_learn ip mac s)) ip = Some i"
    using arp_index_iff [OF inv] arp_index_iff [OF arp_learn_inv [OF inv, of ip mac]] inv
    by (auto simp: arp_learn_hit [OF ok Some] arp_inv_def)
  then show ?thesis
    using Some arp_index_iff [OF inv] inv
    by (auto simp: arp_get_def arp_learn_hit [OF ok Some] arp_inv_def)
next
  case None
  have "arp_index (arp_cache (arp_learn ip mac s)) ip = Some (arp_next s)"
    using arp_index_iff [OF arp_learn_inv [OF inv, of ip mac]] inv
    by (auto simp: arp_learn_miss [OF ok None] arp_inv_def)
  then show ?thesis
    using inv by (auto simp: arp_get_def arp_learn_miss [OF ok None] arp_inv_def)
qed

lemma arp_get_iff:
  "arp_inv s \<Longrightarrow> arp_get s ip = Some m \<longleftrightarrow> (\<exists>i < ARP_CACHE_N. ae_valid (arp_cache s ! i) \<and>
     ae_ip (arp_cache s ! i) = ip \<and> ae_mac (arp_cache s ! i) = m)"
  by (auto simp: arp_get_def arp_index_iff)

lemma option_eq_by_Some: "(\<And>v. x = Some v \<longleftrightarrow> y = Some v) \<Longrightarrow> x = y"
  by (cases x; cases y) auto

lemma arp_get_learn_other:
  assumes inv: "arp_inv s" and ok: "arp_valid ip" and "j \<noteq> ip" and "j \<notin> arp_evicts s ip"
  shows "arp_get (arp_learn ip mac s) j = arp_get s j"
proof (rule option_eq_by_Some)
  fix m
  have inv': "arp_inv (arp_learn ip mac s)" using inv by (rule arp_learn_inv)
  have l: "length (arp_cache s) = ARP_CACHE_N" "arp_next s < ARP_CACHE_N"
    using inv by (auto simp: arp_inv_def)
  show "arp_get (arp_learn ip mac s) j = Some m \<longleftrightarrow> arp_get s j = Some m"
  proof (cases "arp_index (arp_cache s) ip")
    case (Some i)
    then have "ae_ip (arp_cache s ! i) = ip" "i < ARP_CACHE_N" using arp_index_iff [OF inv] by auto
    then show ?thesis
      using \<open>j \<noteq> ip\<close> l unfolding arp_get_iff [OF inv] arp_get_iff [OF inv']
      by (auto simp: arp_learn_hit [OF ok Some] nth_list_update)
  next
    case None
    then have "arp_get s ip = None" by (simp add: arp_get_def)
    then have ev: "ae_valid (arp_cache s ! arp_next s) \<Longrightarrow> ae_ip (arp_cache s ! arp_next s) \<noteq> j"
      using assms(4) by (auto simp: arp_evicts_def)
    show ?thesis
      using \<open>j \<noteq> ip\<close> l ev unfolding arp_get_iff [OF inv] arp_get_iff [OF inv']
      by (auto simp: arp_learn_miss [OF ok None] nth_list_update) metis
  qed
qed

interpretation arp: keyed_table arp_get arp_store arp_evicts arp_valid arp_inv
proof (unfold_locales, goal_cases)
  case 1
  then show ?case unfolding arp_store_def by (metis arp_get_learn option.inject)
next
  case 2
  then show ?case unfolding arp_store_def by (metis arp_get_learn_other option.inject)
next
  case 3
  then show ?case by (simp add: arp_evicts_def)
next
  case 4
  then show ?case by (simp add: arp_store_def)
next
  case 5
  then show ?case unfolding arp_store_def by (metis arp_learn_inv option.inject)
qed

section \<open>UDP port bindings\<close>

text \<open>A slot is free exactly when its port is 0; a bound one has a handler.\<close>

definition udp_inv :: "net \<Rightarrow> bool" where
  "udp_inv s \<longleftrightarrow> length (udp_bindings s) = UDP_BINDINGS \<and>
     (\<forall>i < UDP_BINDINGS. fst (udp_bindings s ! i) = 0 \<longleftrightarrow> snd (udp_bindings s ! i) = None) \<and>
     (\<forall>i < UDP_BINDINGS. \<forall>j < UDP_BINDINGS. fst (udp_bindings s ! i) = fst (udp_bindings s ! j) \<longrightarrow>
        fst (udp_bindings s ! i) \<noteq> 0 \<longrightarrow> i = j)"

definition udp_get :: "net \<Rightarrow> u16 \<Rightarrow> udp_fn option" where
  "udp_get s port = udp_lookup (udp_bindings s) port"

definition udp_store :: "net \<Rightarrow> u16 \<Rightarrow> udp_fn \<Rightarrow> net option" where
  "udp_store s port fn = (case net_udp_bind port (Some fn) s of (r, s') \<Rightarrow> if r = 0 then Some s' else None)"

lemma udp_lookup_iff:
  assumes inv: "udp_inv s"
  shows "udp_get s port = Some fn \<longleftrightarrow>
    port \<noteq> 0 \<and> (\<exists>i < UDP_BINDINGS. udp_bindings s ! i = (port, Some fn))"
proof -
  let ?bs = "udp_bindings s"
  have len: "length ?bs = UDP_BINDINGS"
    and free: "\<And>i. i < UDP_BINDINGS \<Longrightarrow> fst (?bs ! i) = 0 \<longleftrightarrow> snd (?bs ! i) = None"
    and uniq: "\<And>i j. i < UDP_BINDINGS \<Longrightarrow> j < UDP_BINDINGS \<Longrightarrow> fst (?bs ! i) = fst (?bs ! j) \<Longrightarrow>
        fst (?bs ! i) \<noteq> 0 \<Longrightarrow> i = j"
    using inv unfolding udp_inv_def by blast+
  show ?thesis
  proof (cases "List.find (\<lambda>(q, fn). q = port \<and> fn \<noteq> None) ?bs")
    case None
    then have "udp_get s port = None"
      by (simp only: udp_get_def udp_lookup_def option.case)
    moreover have "\<forall>i < UDP_BINDINGS. ?bs ! i \<noteq> (port, Some fn)"
      using None len nth_mem [of _ ?bs] by (fastforce simp: find_None_iff)
    ultimately show ?thesis by simp
  next
    case (Some x)
    then obtain i where i: "i < UDP_BINDINGS" "?bs ! i = x" "fst x = port" "snd x \<noteq> None"
      using len by (auto simp: find_Some_iff)
    then have "port \<noteq> 0" using free [of i] by auto
    moreover have "udp_get s port = snd x"
      using Some by (simp add: udp_get_def udp_lookup_def split: prod.splits)
    moreover have "(\<exists>j < UDP_BINDINGS. ?bs ! j = (port, Some fn)) \<longleftrightarrow> snd x = Some fn"
    proof
      assume "\<exists>j < UDP_BINDINGS. ?bs ! j = (port, Some fn)"
      then obtain j where "j < UDP_BINDINGS" "?bs ! j = (port, Some fn)" by blast
      with uniq [of i j] i \<open>port \<noteq> 0\<close> show "snd x = Some fn" by auto
    next
      assume "snd x = Some fn"
      then have "?bs ! i = (port, Some fn)" using i by (metis prod.collapse)
      with i(1) show "\<exists>j < UDP_BINDINGS. ?bs ! j = (port, Some fn)" by blast
    qed
    ultimately show ?thesis by simp
  qed
qed

lemma udp_bind_cases:
  assumes inv: "udp_inv s" and "port \<noteq> 0" and st: "udp_store s port fn = Some s'"
  obtains i where "i < UDP_BINDINGS" "s' = s\<lparr>udp_bindings := (udp_bindings s)[i := (port, Some fn)]\<rparr>"
    "fst (udp_bindings s ! i) = port \<or> fst (udp_bindings s ! i) = 0"
    "\<forall>j < UDP_BINDINGS. fst (udp_bindings s ! j) = port \<longrightarrow> j = i"
proof -
  have len: "length (udp_bindings s) = UDP_BINDINGS"
    and uniq: "\<And>i j. i < UDP_BINDINGS \<Longrightarrow> j < UDP_BINDINGS \<Longrightarrow>
      fst (udp_bindings s ! i) = fst (udp_bindings s ! j) \<Longrightarrow> fst (udp_bindings s ! i) \<noteq> 0 \<Longrightarrow> i = j"
    using inv unfolding udp_inv_def by blast+
  show ?thesis
  proof (cases "List.find (\<lambda>i. fst (udp_bindings s ! i) = port) [0..<length (udp_bindings s)]")
    case (Some i)
    then have "i < UDP_BINDINGS" "fst (udp_bindings s ! i) = port"
      by (simp_all add: find_upt_Some len)
    moreover have "s' = s\<lparr>udp_bindings := (udp_bindings s)[i := (port, Some fn)]\<rparr>"
      using Some st by (simp add: udp_store_def net_udp_bind_def)
    ultimately show ?thesis
      using that uniq \<open>port \<noteq> 0\<close> by metis
  next
    case None
    then have none: "\<forall>j < UDP_BINDINGS. fst (udp_bindings s ! j) \<noteq> port"
      by (simp add: find_upt_None len)
    from None st obtain i where
      "List.find (\<lambda>i. fst (udp_bindings s ! i) = 0) [0..<length (udp_bindings s)] = Some i"
      "s' = s\<lparr>udp_bindings := (udp_bindings s)[i := (port, Some fn)]\<rparr>"
      by (auto simp: udp_store_def net_udp_bind_def split: option.splits)
    moreover from this(1) have "i < UDP_BINDINGS" "fst (udp_bindings s ! i) = 0"
      by (simp_all only: find_upt_Some len)
    ultimately show ?thesis
      using that [of i] none by blast
  qed
qed

lemma udp_store_inv:
  assumes inv: "udp_inv s" and "port \<noteq> 0" and st: "udp_store s port fn = Some s'"
  shows "udp_inv s'"
proof -
  obtain i where i: "i < UDP_BINDINGS" "s' = s\<lparr>udp_bindings := (udp_bindings s)[i := (port, Some fn)]\<rparr>"
    "\<forall>j < UDP_BINDINGS. fst (udp_bindings s ! j) = port \<longrightarrow> j = i"
    using udp_bind_cases [OF assms] by metis
  have len: "length (udp_bindings s) = UDP_BINDINGS" using inv by (simp add: udp_inv_def)
  have b: "udp_bindings s' ! j = (if j = i then (port, Some fn) else udp_bindings s ! j)" for j
    using i len by (simp add: nth_list_update)
  have l': "length (udp_bindings s') = UDP_BINDINGS" using i(2) len by simp
  have uniq: "\<And>i j. i < UDP_BINDINGS \<Longrightarrow> j < UDP_BINDINGS \<Longrightarrow>
      fst (udp_bindings s ! i) = fst (udp_bindings s ! j) \<Longrightarrow> fst (udp_bindings s ! i) \<noteq> 0 \<Longrightarrow> i = j"
    using inv unfolding udp_inv_def by blast
  show ?thesis
    unfolding udp_inv_def b l'
  proof (intro conjI allI impI)
    fix j assume "j < UDP_BINDINGS"
    then show "(fst (if j = i then (port, Some fn) else udp_bindings s ! j) = 0) =
        (snd (if j = i then (port, Some fn) else udp_bindings s ! j) = None)"
      using inv \<open>port \<noteq> 0\<close> by (simp add: udp_inv_def)
  next
    fix j k
    assume "j < UDP_BINDINGS" "k < UDP_BINDINGS"
      "fst (if j = i then (port, Some fn) else udp_bindings s ! j) =
       fst (if k = i then (port, Some fn) else udp_bindings s ! k)"
      "fst (if j = i then (port, Some fn) else udp_bindings s ! j) \<noteq> 0"
    then show "j = k"
      by (cases "j = i"; cases "k = i"; simp) (metis i(3) uniq)+
  qed simp
qed

lemma udp_get_store:
  assumes inv: "udp_inv s" and "port \<noteq> 0" and st: "udp_store s port fn = Some s'"
  shows "udp_get s' port = Some fn"
proof -
  obtain i where i: "i < UDP_BINDINGS" "s' = s\<lparr>udp_bindings := (udp_bindings s)[i := (port, Some fn)]\<rparr>"
    using udp_bind_cases [OF assms] by metis
  then have "udp_bindings s' ! i = (port, Some fn)"
    using inv by (simp add: udp_inv_def)
  with i(1) \<open>port \<noteq> 0\<close> show ?thesis
    unfolding udp_lookup_iff [OF udp_store_inv [OF assms]] by blast
qed

lemma udp_get_store_other:
  assumes inv: "udp_inv s" and "port \<noteq> 0" and st: "udp_store s port fn = Some s'" and "q \<noteq> port"
  shows "udp_get s' q = udp_get s q"
proof (rule option_eq_by_Some)
  fix h
  have inv': "udp_inv s'" using assms(1-3) by (rule udp_store_inv)
  obtain i where i: "i < UDP_BINDINGS" "s' = s\<lparr>udp_bindings := (udp_bindings s)[i := (port, Some fn)]\<rparr>"
    "fst (udp_bindings s ! i) = port \<or> fst (udp_bindings s ! i) = 0"
    using udp_bind_cases [OF assms(1-3)] by metis
  have len: "length (udp_bindings s) = UDP_BINDINGS" using inv by (simp add: udp_inv_def)
  show "udp_get s' q = Some h \<longleftrightarrow> udp_get s q = Some h"
  proof -
    have "udp_bindings s' ! j = (q, Some h) \<longleftrightarrow> udp_bindings s ! j = (q, Some h)"
      if "q \<noteq> 0" "j < UDP_BINDINGS" for j
      using that i len \<open>q \<noteq> port\<close> by (cases "j = i") auto
    then show ?thesis
      unfolding udp_lookup_iff [OF inv] udp_lookup_iff [OF inv'] by blast
  qed
qed

lemma udp_store_room:
  assumes inv: "udp_inv s" and "udp_get s port \<noteq> None"
  shows "udp_store s port fn \<noteq> None"
proof -
  obtain i where "i < UDP_BINDINGS" "fst (udp_bindings s ! i) = port"
    using assms by (auto simp: udp_lookup_iff)
  then have "List.find (\<lambda>i. fst (udp_bindings s ! i) = port) [0..<length (udp_bindings s)] \<noteq> None"
    using inv by (auto simp: find_upt_None udp_inv_def)
  then show ?thesis by (auto simp: udp_store_def net_udp_bind_def)
qed

interpretation udp: keyed_table udp_get udp_store "\<lambda>_ _. {}" "\<lambda>p. p \<noteq> 0" udp_inv
  by unfold_locales
    (auto simp: udp_get_store udp_get_store_other udp_store_inv dest: udp_store_room)

text \<open>Binding fails only when all sixteen slots hold other ports.\<close>

lemma udp_bind_full:
  assumes "udp_inv s" "port \<noteq> 0"
  shows "fst (net_udp_bind port (Some fn) s) = - 1 \<longleftrightarrow>
     (\<forall>i < UDP_BINDINGS. fst (udp_bindings s ! i) \<noteq> 0 \<and> fst (udp_bindings s ! i) \<noteq> port)"
proof -
  have len: "length (udp_bindings s) = UDP_BINDINGS" using assms by (simp add: udp_inv_def)
  show ?thesis
  proof (cases "List.find (\<lambda>i. fst (udp_bindings s ! i) = port) [0..<length (udp_bindings s)]")
    case None
    then have "\<forall>i < UDP_BINDINGS. fst (udp_bindings s ! i) \<noteq> port"
      by (simp only: find_upt_None len)
    note no_port = this
    show ?thesis
    proof (cases "List.find (\<lambda>i. fst (udp_bindings s ! i) = 0) [0..<length (udp_bindings s)]")
      case free: None
      then have "\<forall>i < UDP_BINDINGS. fst (udp_bindings s ! i) \<noteq> 0"
        by (simp only: find_upt_None len)
      moreover have "fst (net_udp_bind port (Some fn) s) = - 1"
        by (simp only: net_udp_bind_def None free option.case fst_conv)
      ultimately show ?thesis using no_port by blast
    next
      case free: (Some j)
      then have "j < UDP_BINDINGS \<and> fst (udp_bindings s ! j) = 0"
        by (simp only: find_upt_Some len)
      moreover have "fst (net_udp_bind port (Some fn) s) = 0"
        by (simp only: net_udp_bind_def None free option.case fst_conv)
      ultimately show ?thesis by fastforce
    qed
  next
    case (Some i)
    then have "i < UDP_BINDINGS \<and> fst (udp_bindings s ! i) = port"
      by (simp only: find_upt_Some len)
    moreover have "fst (net_udp_bind port (Some fn) s) = 0"
      by (simp only: net_udp_bind_def Some option.case fst_conv)
    ultimately show ?thesis by fastforce
  qed
qed

end
