(* ===== verification/Net_Inv.thy ===== *)
theory Net_Inv
  imports Net_Tables
begin

text \<open>
  The invariant of the network stack and its preservation by every entry point; the
  addresses and tables the transmit paths leave alone.
\<close>

section \<open>What transmission leaves alone\<close>

definition tables :: "net \<Rightarrow> _" where
  "tables s = (arp_cache s, arp_next s, igmp_groups s, igmp_count s, udp_bindings s,
     g_net_ip s, g_net_prefix s, net_mac s, now_ms s)"

definition hw_ok :: "net \<Rightarrow> bool" where
  "hw_ok s \<longleftrightarrow> tx_wf s \<and> cap_inv (cap s)"

lemma tables_simps [simp]:
  "tables (tx_put off bs s) = tables s" "tables (eth_send n s) = tables s"
  "tables (g_net_stats_update f s) = tables s" "tables (ip_ident_update g s) = tables s"
  by (simp_all add: tables_def)

lemma hw_ok_put: "hw_ok s \<Longrightarrow> off + length bs \<le> 1442 \<Longrightarrow> hw_ok (tx_put off bs s)"
  by (simp add: hw_ok_def tx_wf_put)

lemma hw_ok_send: "hw_ok s \<Longrightarrow> hw_ok (eth_send n s)"
  by (simp add: hw_ok_def tx_wf_eth_send) (simp add: eth_send_def Let_def cap_record_inv)

lemma hw_ok_upd [simp]:
  "hw_ok (g_net_stats_update f s) = hw_ok s" "hw_ok (ip_ident_update g s) = hw_ok s"
  by (simp_all add: hw_ok_def)

lemma hw_ok_tables [simp]:
  "hw_ok (arp_cache_update a s) = hw_ok s" "hw_ok (arp_next_update b s) = hw_ok s"
  "hw_ok (igmp_groups_update c s) = hw_ok s" "hw_ok (igmp_count_update d s) = hw_ok s"
  "hw_ok (udp_bindings_update e s) = hw_ok s"
  by (simp_all add: hw_ok_def tx_wf_def)

lemma hw_ok_tx: "hw_ok s \<Longrightarrow> tx_wf s" "hw_ok s \<Longrightarrow> tx_ok s"
  by (auto simp: hw_ok_def tx_wf_ok)

lemmas hw_rules = hw_ok_put hw_ok_send

lemma arp_send_frame:
  "tables (arp_send oper ip m s) = tables s \<and> (hw_ok s \<longrightarrow> hw_ok (arp_send oper ip m s))"
  by (cases m) (simp_all add: arp_send_def Let_def hw_rules)

lemma net_arp_lookup_frame:
  "tables (snd (net_arp_lookup ip s)) = tables s \<and> (hw_ok s \<longrightarrow> hw_ok (snd (net_arp_lookup ip s)))"
  using arp_send_frame [of 1 ip None "bump arp_misses_update s"]
  by (auto simp: net_arp_lookup_def split: option.splits)

lemma igmp_report_frame:
  "tables (igmp_report g s) = tables s \<and> (hw_ok s \<longrightarrow> hw_ok (igmp_report g s))"
  by (simp add: igmp_report_def Let_def hw_rules)

lemma igmp_answer_frame:
  "tables (igmp_answer q gs s) = tables s \<and> (hw_ok s \<longrightarrow> hw_ok (igmp_answer q gs s))"
  by (induction q gs s rule: igmp_answer.induct) (auto simp: igmp_report_frame)

lemma igmp_rx_frame:
  "tables (igmp_rx p n s) = tables s \<and> (hw_ok s \<longrightarrow> hw_ok (igmp_rx p n s))"
  by (auto simp: igmp_rx_def Let_def igmp_answer_frame)

lemma payload_put_frame [simp]: "tables (payload_put off bs s) = tables s"
  by (simp add: payload_put_def)

lemma hw_ok_payload: "hw_ok s \<Longrightarrow> off + length bs \<le> 1400 \<Longrightarrow> hw_ok (payload_put off bs s)"
  by (simp add: payload_put_def hw_rules ETH_HDR_LEN_def IP_HDR_LEN_def UDP_HDR_LEN_def)

lemma net_udp_commit_frame:
  "tables (snd (net_udp_commit dst dp sp n tos s)) = tables s \<and>
   (hw_ok s \<longrightarrow> hw_ok (snd (net_udp_commit dst dp sp n tos s)))"
proof (cases "net_arp_lookup dst s")
  case (Pair m s')
  then have s': "tables s' = tables s" "hw_ok s \<longrightarrow> hw_ok s'"
    using net_arp_lookup_frame [of dst s] by auto
  show ?thesis
    using s' by (cases m; cases "tos = NET_TOS_AUDIO")
      (simp_all add: net_udp_commit_def Let_def Pair hw_rules)
qed

lemma net_udp_send_frame:
  "tables (snd (net_udp_send dst dp sp pl tos s)) = tables s \<and>
   (hw_ok s \<longrightarrow> hw_ok (snd (net_udp_send dst dp sp pl tos s)))"
proof (cases "net_arp_lookup dst s")
  case (Pair m s')
  then have s': "tables s' = tables s" "hw_ok s \<longrightarrow> hw_ok s'"
    using net_arp_lookup_frame [of dst s] by auto
  show ?thesis
    using s' net_udp_commit_frame [of dst dp sp "length pl" tos "payload_put 0 pl s'"]
    by (cases m) (auto simp: net_udp_send_def Pair NET_MAX_PAYLOAD_def hw_ok_payload)
qed

lemma icmp_reply_frame:
  assumes "n \<le> 1400"
  shows "tables (icmp_reply m src n s) = tables s \<and> (hw_ok s \<longrightarrow> hw_ok (icmp_reply m src n s))"
proof -
  have "34 + min k n \<le> 1442" for k using assms by (simp add: min_def)
  then show ?thesis by (simp add: icmp_reply_def Let_def hw_rules ETH_HDR_LEN_def IP_HDR_LEN_def)
qed

lemma icmp_rx_frame:
  "tables (icmp_rx src p n s) = tables s \<and> (hw_ok s \<longrightarrow> hw_ok (icmp_rx src p n s))"
proof (cases "n < 8 \<or> p 0 \<noteq> 8 \<or> n > NET_MAX_PAYLOAD")
  case True
  then show ?thesis by (auto simp: icmp_rx_def)
next
  case False
  let ?s1 = "payload_put 2 [0, 0] (payload_put 0 [0] (payload_put 0 (bytes_at p 0 n) (bump rx_icmp_update s)))"
  let ?s2 = "payload_put 2 (be16 (net_checksum (take n (drop 42 (tx_buf ?s1))) 0)) ?s1"
  have "tables ?s2 = tables s" "hw_ok s \<longrightarrow> hw_ok ?s2"
    using False by (auto simp: NET_MAX_PAYLOAD_def intro!: hw_ok_payload)
  moreover obtain m s' where arp: "net_arp_lookup src ?s2 = (m, s')" by fastforce
  ultimately have s': "tables s' = tables s" "hw_ok s \<longrightarrow> hw_ok s'"
    using net_arp_lookup_frame [of src ?s2] by auto
  have eq: "icmp_rx src p n s = (case m of None \<Rightarrow> s' | Some dmac \<Rightarrow> icmp_reply dmac src n s')"
    using False by (auto simp: icmp_rx_def Let_def arp)
  show ?thesis
    using s' False icmp_reply_frame [of n _ src s']
    by (cases m) (simp_all add: eq NET_MAX_PAYLOAD_def)
qed

section \<open>The invariant\<close>

definition igmp_inv :: "net \<Rightarrow> bool" where
  "igmp_inv s \<longleftrightarrow> length (igmp_groups s) = IGMP_N \<and> igmp_count s \<le> IGMP_N \<and>
     distinct (take (igmp_count s) (igmp_groups s))"

definition net_inv :: "net \<Rightarrow> bool" where
  "net_inv s \<longleftrightarrow> hw_ok s \<and> arp_inv s \<and> udp_inv s \<and> igmp_inv s"

lemma inv_tables:
  assumes "tables s' = tables s"
  shows "arp_inv s' = arp_inv s" "udp_inv s' = udp_inv s" "igmp_inv s' = igmp_inv s"
proof -
  have eq: "arp_cache s' = arp_cache s" "arp_next s' = arp_next s" "igmp_groups s' = igmp_groups s"
    "igmp_count s' = igmp_count s" "udp_bindings s' = udp_bindings s"
    using assms by (simp_all add: tables_def)
  show "arp_inv s' = arp_inv s" by (simp only: arp_inv_def eq)
  show "udp_inv s' = udp_inv s" by (simp only: udp_inv_def eq)
  show "igmp_inv s' = igmp_inv s" by (simp only: igmp_inv_def eq)
qed

lemma net_inv_frame: "net_inv s \<Longrightarrow> tables s' = tables s \<Longrightarrow> hw_ok s' \<Longrightarrow> net_inv s'"
  unfolding net_inv_def using inv_tables [of s' s] by blast

lemma net_inv_hw: "net_inv s \<Longrightarrow> hw_ok s"
  by (simp add: net_inv_def)

lemma net_inv_bump [simp]: "net_inv (g_net_stats_update f s) = net_inv s"
  unfolding net_inv_def by (simp only: inv_tables [OF tables_simps(3)] hw_ok_upd)

lemma arp_learn_net_inv: "net_inv s \<Longrightarrow> net_inv (arp_learn ip mac s)"
proof -
  assume s: "net_inv s"
  have a: "hw_ok (arp_learn ip mac s) = hw_ok s \<and> udp_bindings (arp_learn ip mac s) = udp_bindings s \<and>
      igmp_groups (arp_learn ip mac s) = igmp_groups s \<and> igmp_count (arp_learn ip mac s) = igmp_count s"
    by (auto simp: arp_learn_def split: option.splits)
  have "udp_inv (arp_learn ip mac s) = udp_inv s" "igmp_inv (arp_learn ip mac s) = igmp_inv s"
    by (simp_all only: udp_inv_def igmp_inv_def a)
  with s a arp_learn_inv [of s ip mac] show ?thesis
    unfolding net_inv_def by blast
qed

lemma arp_rx_net_inv:
  assumes "net_inv s"
  shows "net_inv (arp_rx f n s)"
proof -
  let ?s = "bump rx_arp_update (arp_learn (ip_at f 28) (mac_at f 22) s)"
  have "net_inv ?s" using assms by (simp add: arp_learn_net_inv)
  then have "net_inv (arp_send 2 (ip_at f 28) (Some (mac_at f 22)) ?s)"
    using arp_send_frame by (blast intro: net_inv_frame net_inv_hw)
  with \<open>net_inv ?s\<close> assms show ?thesis by (auto simp: arp_rx_def Let_def)
qed

lemma ip_deliver_net_inv: "net_inv s \<Longrightarrow> net_inv (snd (ip_deliver f off plen s))"
  using icmp_rx_frame [of "ip_at f 26" "\<lambda>i. f (off + i)" plen s]
    igmp_rx_frame [of "\<lambda>i. f (off + i)" plen s]
  by (auto simp: ip_deliver_def Let_def split: option.splits intro: net_inv_frame dest: net_inv_hw)

lemma net_rx_frame_net_inv:
  assumes "net_inv s"
  shows "net_inv (snd (snd (net_rx_frame f n s)))"
proof -
  have "net_inv (arp_learn (ip_at f 26) (mac_at f 6) (bump rx_ip_update s))"
    using assms by (simp add: arp_learn_net_inv)
  then show ?thesis
    using assms ip_deliver_net_inv
    by (auto simp: net_rx_frame_def Let_def arp_rx_net_inv split: prod.splits)
qed

lemma net_igmp_join_net_inv:
  assumes "net_inv s"
  shows "net_inv (snd (net_igmp_join g s))"
proof (cases "g \<in> set (take (igmp_count s) (igmp_groups s)) \<or> igmp_count s \<ge> IGMP_N")
  case True
  then show ?thesis using assms by (auto simp: net_igmp_join_def)
next
  case False
  let ?n = "igmp_count s"
  let ?s = "s\<lparr>igmp_groups := (igmp_groups s)[?n := g], igmp_count := ?n + 1\<rparr>"
  have len: "?n < length (igmp_groups s)"
    using False assms by (simp add: net_inv_def igmp_inv_def)
  then have "take (?n + 1) ((igmp_groups s)[?n := g]) = take ?n (igmp_groups s) @ [g]"
    by (simp add: take_Suc_conv_app_nth)
  then have "net_inv ?s"
    using False assms by (auto simp: net_inv_def igmp_inv_def arp_inv_def udp_inv_def)
  then have "net_inv (igmp_report g ?s)"
    using igmp_report_frame by (blast intro: net_inv_frame net_inv_hw)
  then show ?thesis using False by (simp add: net_igmp_join_def)
qed

lemma net_udp_bind_net_inv:
  assumes "net_inv s" "port \<noteq> 0"
  shows "net_inv (snd (net_udp_bind port (Some fn) s))"
proof -
  have frame: "\<exists>b. snd (net_udp_bind port (Some fn) s) = s\<lparr>udp_bindings := b\<rparr> \<or>
      snd (net_udp_bind port (Some fn) s) = s"
    by (auto simp: net_udp_bind_def split: option.splits)
  have "udp_inv (snd (net_udp_bind port (Some fn) s))"
  proof (cases "fst (net_udp_bind port (Some fn) s) = 0")
    case True
    then show ?thesis
      using assms udp_store_inv [of s port fn] by (simp add: udp_store_def net_inv_def split_beta)
  next
    case False
    then have "snd (net_udp_bind port (Some fn) s) = s"
      by (auto simp: net_udp_bind_def split: option.splits)
    then show ?thesis using assms by (simp add: net_inv_def)
  qed
  with frame assms show ?thesis
    by (auto simp: net_inv_def arp_inv_def igmp_inv_def)
qed

section \<open>The stack as a machine\<close>

text \<open>Everything the rest of the firmware and the wire can do to the stack.\<close>

datatype net_event =
    Net_Rx ptr nat
  | Net_Join ip4
  | Net_Bind u16 udp_fn
  | Net_Send ip4 u16 u16 "u8 list" u8
  | Net_Commit ip4 u16 u16 nat u8
  | Net_Payload nat "u8 list"
  | Net_Set_Ip ip4 u8
  | Net_Tick u32

fun net_step :: "net \<Rightarrow> net_event \<Rightarrow> net" where
  "net_step s (Net_Rx f n) = snd (snd (net_rx_frame f n s))"
| "net_step s (Net_Join g) = snd (net_igmp_join g s)"
| "net_step s (Net_Bind p fn) = (if p = 0 then s else snd (net_udp_bind p (Some fn) s))"
| "net_step s (Net_Send d dp sp pl tos) = snd (net_udp_send d dp sp pl tos s)"
| "net_step s (Net_Commit d dp sp n tos) = snd (net_udp_commit d dp sp n tos s)"
| "net_step s (Net_Payload off bs) =
     (if off + length bs \<le> NET_MAX_PAYLOAD then payload_put off bs s else s)"
| "net_step s (Net_Set_Ip ip p) = net_set_ip ip p s"
| "net_step s (Net_Tick t) = s\<lparr>now_ms := t\<rparr>"

lemma net_step_inv: "net_inv s \<Longrightarrow> net_inv (net_step s e)"
proof (cases e)
  case (Net_Payload off bs)
  assume "net_inv s"
  then show ?thesis
    using Net_Payload hw_ok_payload [of s off bs]
      net_inv_frame [of s "payload_put off bs s"] net_inv_hw [of s]
    by (auto simp: NET_MAX_PAYLOAD_def)
next
  case (Net_Set_Ip ip p)
  assume "net_inv s"
  then show ?thesis
    using Net_Set_Ip
    by (simp add: net_set_ip_def net_inv_def hw_ok_def tx_wf_def arp_inv_def udp_inv_def igmp_inv_def)
next
  case (Net_Tick t)
  assume "net_inv s"
  then show ?thesis
    using Net_Tick
    by (simp add: net_inv_def hw_ok_def tx_wf_def arp_inv_def udp_inv_def igmp_inv_def)
next
  case (Net_Send d dp sp pl tos)
  assume s: "net_inv s"
  then show ?thesis
    using net_udp_send_frame [of d dp sp pl tos s]
      net_inv_frame [OF s, of "snd (net_udp_send d dp sp pl tos s)"] net_inv_hw [OF s]
    unfolding Net_Send net_step.simps by blast
next
  case (Net_Commit d dp sp n tos)
  assume s: "net_inv s"
  then show ?thesis
    using net_udp_commit_frame [of d dp sp n tos s]
      net_inv_frame [OF s, of "snd (net_udp_commit d dp sp n tos s)"] net_inv_hw [OF s]
    unfolding Net_Commit net_step.simps by blast
qed (auto simp: net_rx_frame_net_inv net_igmp_join_net_inv net_udp_bind_net_inv)

interpretation net: machine net_step net_inv
  by unfold_locales (rule net_step_inv)

text \<open>The state \<^theory_text>\<open>net_init\<close> leaves, from zeroed memory and two transmit slots.\<close>

definition net_boot :: "mac6 \<Rightarrow> net" where
  "net_boot mac = net_init mac None 0
    \<lparr>g_net_ip = (169, 254, 9, 200), g_net_prefix = 16, g_net_stats = net_stats0,
      net_mac = (0, 0, 0, 0, 0, 0), ip_ident = 0, tx_slots = replicate 2 (replicate 2048 0),
      txslot = 0, arp_cache = [], arp_next = 0, igmp_groups = replicate IGMP_N (0, 0, 0, 0),
      igmp_count = 0, udp_bindings = replicate UDP_BINDINGS (0, None),
      cap = \<lparr>cap_ring = replicate CAP_N cap_entry0, cap_head = 0, cap_total = 0, cap_wrapped = False\<rparr>,
      wire = [], now_ms = 0\<rparr>"

lemma net_boot_inv: "net_inv (net_boot mac)"
  by (simp add: net_boot_def net_init_def net_inv_def hw_ok_def tx_wf_def cap_inv_def arp_inv_def
      udp_inv_def igmp_inv_def ARP_CACHE_N_def IGMP_N_def UDP_BINDINGS_def CAP_N_def cap_entry0_def
      CAP_BYTES_def)

end
