(* ===== verification/Net_Rx.thy ===== *)
theory Net_Rx
  imports Net_Inv
begin

text \<open>
  The receive half of the stack: which bytes of a frame it reads, what one stack sends
  and another receives, and the echo reply.
\<close>

section \<open>No read past the frame\<close>

definition agree :: "nat \<Rightarrow> ptr \<Rightarrow> ptr \<Rightarrow> bool" where
  "agree n f g \<longleftrightarrow> (\<forall>i < n. f i = g i)"

lemma agree_rd16: "agree n f g \<Longrightarrow> i + 1 < n \<Longrightarrow> rd16 f i = rd16 g i"
  by (auto simp: agree_def intro: rd16_cong)

lemma agree_ip: "agree n f g \<Longrightarrow> i + 3 < n \<Longrightarrow> ip_at f i = ip_at g i"
  by (simp add: agree_def ip_at_def)

lemma agree_mac: "agree n f g \<Longrightarrow> i + 5 < n \<Longrightarrow> mac_at f i = mac_at g i"
  by (simp add: agree_def mac_at_def)

lemma agree_byte: "agree n f g \<Longrightarrow> i < n \<Longrightarrow> f i = g i"
  by (simp add: agree_def)

lemma agree_bytes: "agree n f g \<Longrightarrow> i + k \<le> n \<Longrightarrow> bytes_at f i k = bytes_at g i k"
  by (auto simp: agree_def intro: bytes_at_cong)

lemma agree_shift: "agree n f g \<Longrightarrow> agree (n - k) (\<lambda>i. f (k + i)) (\<lambda>i. g (k + i))"
  by (simp add: agree_def)

lemma agree_less: "agree n f g \<Longrightarrow> m \<le> n \<Longrightarrow> agree m f g"
  by (simp add: agree_def)

lemma arp_rx_local: "agree len f g \<Longrightarrow> arp_rx f len s = arp_rx g len s"
proof (cases "len < ETH_HDR_LEN + 28")
  case False
  assume "agree len f g"
  moreover have "41 < len" using False by (simp add: ETH_HDR_LEN_def)
  ultimately have "rd16 f 14 = rd16 g 14" "rd16 f 16 = rd16 g 16" "rd16 f 20 = rd16 g 20"
    "f 18 = g 18" "f 19 = g 19" "ip_at f 28 = ip_at g 28" "ip_at f 38 = ip_at g 38"
    "mac_at f 22 = mac_at g 22"
    by (auto intro: agree_rd16 agree_ip agree_mac agree_byte)
  then show ?thesis by (simp add: arp_rx_def Let_def)
qed (simp add: arp_rx_def)

lemma igmp_rx_local: "agree n p q \<Longrightarrow> igmp_rx p n s = igmp_rx q n s"
  using agree_byte [of n p q 0] agree_ip [of n p q 4] by (auto simp: igmp_rx_def Let_def)

lemma icmp_rx_local: "agree n p q \<Longrightarrow> icmp_rx src p n s = icmp_rx src q n s"
  using agree_byte [of n p q 0] agree_bytes [of n p q 0 n] by (auto simp: icmp_rx_def)

lemma ip_deliver_local:
  assumes "agree len f g" "off + plen \<le> len" "34 \<le> off"
  shows "ip_deliver f off plen s = ip_deliver g off plen s"
proof -
  have a: "agree plen (\<lambda>i. f (off + i)) (\<lambda>i. g (off + i))"
    using agree_less [OF agree_shift [OF assms(1), of off]] assms(2) by simp
  show ?thesis
  proof (cases "34 < len")
    case True
    then have "f 23 = g 23" "ip_at f 26 = ip_at g 26" "ip_at f 30 = ip_at g 30"
      using assms(1) by (auto intro: agree_byte agree_ip)
    moreover have "rd16 f off = rd16 g off \<and> rd16 f (off + 2) = rd16 g (off + 2) \<and>
        rd16 f (off + 4) = rd16 g (off + 4)" if "\<not> plen < 8"
      using that assms(2) by (auto intro!: agree_rd16 [OF assms(1)])
    moreover have "bytes_at f (off + 8) k = bytes_at g (off + 8) k" if "8 + k \<le> plen" for k
      using that assms by (intro agree_bytes [OF assms(1)]) simp
    then have "bytes_at f (off + 8) (unat (rd16 g (off + 4)) - 8) =
        bytes_at g (off + 8) (unat (rd16 g (off + 4)) - 8)"
      if "\<not> unat (rd16 g (off + 4)) < 8 \<and> \<not> plen < unat (rd16 g (off + 4))"
      using that by simp
    ultimately show ?thesis
      using icmp_rx_local [OF a] igmp_rx_local [OF a]
      by (cases "plen < 8") (auto simp add: ip_deliver_def Let_def UDP_HDR_LEN_def split: option.split)
  next
    case False
    then have "plen = 0" "len \<le> 34" using assms by auto
    then have "f 23 = g 23" if "len = 34" using that assms(1) by (simp add: agree_byte)
    then show ?thesis
      using \<open>plen = 0\<close> assms False
      by (auto simp: ip_deliver_def Let_def UDP_HDR_LEN_def icmp_rx_def igmp_rx_def)
  qed
qed

text \<open>A \<^theory_text>\<open>uint32_t\<close> difference that does not wrap.\<close>

lemma u32_diff:
  assumes "b \<le> a" "a < 2 ^ 32"
  shows "(a + 2 ^ 32 - b) mod 2 ^ 32 = (a - b :: nat)"
proof -
  have "a + 2 ^ 32 - b = (a - b) + 2 ^ 32" using assms(1) by (rule diff_add_assoc2)
  then have "(a + 2 ^ 32 - b) mod 2 ^ 32 = (a - b) mod 2 ^ 32" by (simp only: mod_add_self2)
  also have "\<dots> = a - b" using assms by (intro mod_less) (rule le_less_trans [OF diff_le_self])
  finally show ?thesis .
qed

text \<open>
  A well-formed IPv4 length: the total length covers the header. This is what the guard
  \<^theory_text>\<open>total < ihl || len < ETH_HDR_LEN + total\<close> is there to ensure.
\<close>

definition ip_len_ok :: "ptr \<Rightarrow> bool" where
  "ip_len_ok f \<longleftrightarrow> (rd16 f 12 = 0x0800 \<longrightarrow> unat (f 14 AND 0x0F) * 4 \<le> unat (rd16 f 16))"

lemma net_rx_frame_local:
  assumes ag: "agree len f g" and ok: "ip_len_ok f"
  shows "net_rx_frame f len s = net_rx_frame g len s"
proof (cases "len < ETH_HDR_LEN")
  case True
  then show ?thesis by (simp add: net_rx_frame_def)
next
  case ge14: False
  then have et: "rd16 f 12 = rd16 g 12"
    using ag by (auto simp: ETH_HDR_LEN_def intro: agree_rd16)
  show ?thesis
  proof (cases "rd16 f 12 \<noteq> 0x0800 \<or> len < ETH_HDR_LEN + IP_HDR_LEN")
    case True
    then show ?thesis
      using et arp_rx_local [OF ag] by (auto simp: net_rx_frame_def Let_def)
  next
    case False
    then have l: "34 \<le> len" and ip: "rd16 f 12 = 0x0800" "rd16 g 12 = 0x0800"
      using et by (auto simp: ETH_HDR_LEN_def IP_HDR_LEN_def)
    have eqs: "f 14 = g 14" "rd16 f 16 = rd16 g 16" "ip_at f 30 = ip_at g 30"
      "ip_at f 26 = ip_at g 26" "mac_at f 6 = mac_at g 6"
      using ag l by (auto intro: agree_byte agree_rd16 agree_ip agree_mac)
    let ?ihl = "unat (g 14 AND 0x0F) * 4" and ?tot = "unat (rd16 g 16)"
    have le: "?ihl \<le> ?tot" using ok eqs ip by (simp add: ip_len_ok_def)
    have small: "?tot < 65536" by (rule unat_u16_less)
    have plen: "(?tot + 2 ^ 32 - ?ihl) mod 2 ^ 32 = ?tot - ?ihl"
      by (rule u32_diff) (use le small in simp_all)
    have "ip_deliver f (ETH_HDR_LEN + ?ihl) (?tot - ?ihl) t = ip_deliver g (ETH_HDR_LEN + ?ihl) (?tot - ?ihl) t"
      if "ETH_HDR_LEN + ?tot \<le> len" "IP_HDR_LEN \<le> ?ihl" for t
      using that le by (intro ip_deliver_local [OF ag]) (auto simp: ETH_HDR_LEN_def IP_HDR_LEN_def)
    note deq = this
    show ?thesis
      unfolding net_rx_frame_def Let_def eqs et plen
    proof (intro if_cong refl)
      assume "rd16 g 12 = 0x0806"
      then show "(1, None, arp_rx f len s) = (1, None, arp_rx g len s)" using ip by simp
    next
      assume "\<not> (?ihl < IP_HDR_LEN \<or> len < ETH_HDR_LEN + ?ihl)"
        "\<not> ((?tot < ?ihl \<or> len < ETH_HDR_LEN + ?tot) \<and> len < ETH_HDR_LEN + ?tot)"
      then have "ETH_HDR_LEN + ?tot \<le> len" "IP_HDR_LEN \<le> ?ihl" by (auto simp: not_less)
      note d = deq [OF this]
      show "(case ip_deliver f (ETH_HDR_LEN + ?ihl) (?tot - ?ihl) t of (d, s) \<Rightarrow> (1, d, s)) =
          (case ip_deliver g (ETH_HDR_LEN + ?ihl) (?tot - ?ihl) t of (d, s) \<Rightarrow> (1, d, s))" for t
        by (simp only: d)
    qed
  qed
qed

text \<open>A delivered payload then lies inside the frame.\<close>

lemma ip_deliver_payload:
  "ip_deliver f off plen s = (Some d, s') \<Longrightarrow> 8 + length (dg_payload d) \<le> plen"
  by (auto simp: ip_deliver_def Let_def UDP_HDR_LEN_def split: if_splits option.splits)

section \<open>Sending and receiving\<close>

lemma udp_frame_fields:
  assumes n: "length payload \<le> 1400"
    and F: "F = udp_frame dmac dst dport sport tos payload s @ pad"
  shows "rd16 (ptr_of F) 12 = 0x0800" "ptr_of F 14 = 0x45"
    "unat (rd16 (ptr_of F) 16) = 28 + length payload" "ptr_of F 23 = 17"
    "ip_at (ptr_of F) 26 = g_net_ip s" "ip_at (ptr_of F) 30 = dst"
    "mac_at (ptr_of F) 6 = net_mac s"
    "rd16 (ptr_of F) 34 = sport" "rd16 (ptr_of F) 36 = dport"
    "unat (rd16 (ptr_of F) 38) = 8 + length payload"
    "bytes_at (ptr_of F) 42 (length payload) = payload" "42 + length payload \<le> length F"
proof -
  let ?ttl = "if is_mcast dst then 32 else 64 :: u8"
  define ck where "ck = net_checksum (ip_header_with tos (of_nat (28 + length payload)) (next_ident tos s)
      ?ttl 17 (g_net_ip s) dst 0) 0"
  define d where "d = mac_bytes dmac"
  define m where "m = mac_bytes (net_mac s)"
  define r where "r = payload @ pad"
  let ?t = "be16 (of_nat (28 + length payload))" and ?i = "be16 (next_ident tos s)"
  have len: "length d = 6" "length m = 6" by (simp_all add: d_def m_def)
  have F': "F = d @ m @ be16 0x0800 @ [0x45, tos] @ ?t @ ?i @ be16 0 @ [?ttl, 17] @ be16 ck @
      ip_bytes (g_net_ip s) @ ip_bytes dst @ be16 sport @ be16 dport @
      be16 (of_nat (8 + length payload)) @ be16 0 @ r"
    by (simp add: F udp_frame_def eth_header_def ip_header_def ip_header_with_def udp_header_def
        d_def m_def r_def ck_def)
  show "rd16 (ptr_of F) 12 = 0x0800"
    using rd16_at [of "d @ m"] len by (simp add: F')
  show "ptr_of F 14 = 0x45"
    using ptr_of_at [of "d @ m @ be16 0x0800" "0x45"] len by (simp add: F')
  have "rd16 (ptr_of F) 16 = of_nat (28 + length payload)"
    using rd16_at [of "d @ m @ be16 0x0800 @ [0x45, tos]" "of_nat (28 + length payload)"] len by (simp add: F')
  then show "unat (rd16 (ptr_of F) 16) = 28 + length payload"
    using n by (simp add: unat_of_nat unat_word_ariths)
  show "ptr_of F 23 = 17"
    using ptr_of_at [of "d @ m @ be16 0x0800 @ [0x45, tos] @ ?t @ ?i @ be16 0 @ [?ttl]" 17] len
    by (simp add: F')
  show "ip_at (ptr_of F) 26 = g_net_ip s"
    using ip_at_at [of "d @ m @ be16 0x0800 @ [0x45, tos] @ ?t @ ?i @ be16 0 @ [?ttl, 17] @ be16 ck"
        "g_net_ip s"] len by (simp add: F')
  show "ip_at (ptr_of F) 30 = dst"
    using ip_at_at [of "d @ m @ be16 0x0800 @ [0x45, tos] @ ?t @ ?i @ be16 0 @ [?ttl, 17] @ be16 ck @
        ip_bytes (g_net_ip s)" dst] len by (simp add: F')
  show "mac_at (ptr_of F) 6 = net_mac s"
    using mac_at_at [of d "net_mac s"] len by (simp add: F' m_def)
  let ?h = "d @ m @ be16 0x0800 @ [0x45, tos] @ ?t @ ?i @ be16 0 @ [?ttl, 17] @ be16 ck @
        ip_bytes (g_net_ip s) @ ip_bytes dst"
  show "rd16 (ptr_of F) 34 = sport"
    using rd16_at [of ?h sport] len by (simp add: F')
  show "rd16 (ptr_of F) 36 = dport"
    using rd16_at [of "?h @ be16 sport" dport] len by (simp add: F')
  have "rd16 (ptr_of F) 38 = of_nat (8 + length payload)"
    using rd16_at [of "?h @ be16 sport @ be16 dport" "of_nat (8 + length payload)"] len by (simp add: F')
  then show "unat (rd16 (ptr_of F) 38) = 8 + length payload"
    using n by (simp add: unat_of_nat unat_word_ariths)
  show "42 + length payload \<le> length F" using len by (simp add: F' r_def)
  then show "bytes_at (ptr_of F) 42 (length payload) = payload"
    using len by (simp add: bytes_at_ptr_of F' r_def)
qed

lemma udp_frame_received:
  assumes n: "length payload \<le> 1400"
    and F: "F = udp_frame dmac dst dport sport tos payload s @ pad"
    and us: "ip_for_us dst t" and bound: "udp_get t dport = Some fn"
  shows "\<exists>t'. net_rx_frame (ptr_of F) (length F) t =
    (1, Some \<lparr>dg_fn = fn, dg_src = g_net_ip s, dg_dst = dst, dg_sport = sport, dg_payload = payload\<rparr>, t')"
proof -
  note flds = udp_frame_fields [OF n F]
  have b: "udp_bindings (arp_learn ip m x) = udp_bindings x" for ip m x
    by (auto simp: arp_learn_def split: option.splits)
  have plen: "(28 + length payload + 2 ^ 32 - 20) mod 2 ^ 32 = 8 + length payload"
    using u32_diff [of 20 "28 + length payload"] n by simp
  show ?thesis
    using flds n us bound plen
    by (simp add: net_rx_frame_def Let_def ETH_HDR_LEN_def IP_HDR_LEN_def UDP_HDR_LEN_def
        ip_deliver_def b udp_get_def)
qed

section \<open>A payload stored in the slot, then committed\<close>

lemma arp_lookup_tables:
  assumes "net_arp_lookup a s = (Some m, s)" "arp_cache t = arp_cache s"
  shows "net_arp_lookup a t = (Some m, t)"
  using assms by (auto simp: net_arp_lookup_def split: if_splits option.splits)

lemma payload_commit_ok:
  assumes wf: "tx_wf s" and n: "length payload \<le> 1400"
    and arp: "net_arp_lookup dst s = (Some dmac, s)"
  shows "\<exists>s'. net_udp_commit dst dport sport (length payload) tos (payload_put 0 payload s) = (0, s') \<and>
     wire s' = wire s @ [udp_frame dmac dst dport sport tos payload s @
       take (18 - length payload) (drop (42 + length payload) (tx_buf s))]"
proof -
  let ?t = "payload_put 0 payload s"
  have "tx_wf ?t"
    using wf n by (simp add: payload_put_def tx_wf_put ETH_HDR_LEN_def IP_HDR_LEN_def UDP_HDR_LEN_def)
  moreover have "net_arp_lookup dst ?t = (Some dmac, ?t)"
    using arp by (rule arp_lookup_tables) (simp add: payload_put_def)
  moreover have b: "1442 \<le> length (tx_buf s)" "tx_ok s" using wf by (auto dest: tx_buf_len tx_wf_ok)
  then have "tx_buf ?t = put 42 payload (tx_buf s)"
    by (simp add: payload_put_def tx_buf_put ETH_HDR_LEN_def IP_HDR_LEN_def UDP_HDR_LEN_def)
  then have "take (length payload) (drop 42 (tx_buf ?t)) = payload"
    "drop (42 + length payload) (tx_buf ?t) = drop (42 + length payload) (tx_buf s)"
    using b n by (simp_all add: put_def)
  moreover have "udp_frame dmac dst dport sport tos payload ?t = udp_frame dmac dst dport sport tos payload s"
    by (simp add: udp_frame_def next_ident_def payload_put_def)
  ultimately show ?thesis
    using udp_commit_ok [of ?t "length payload" dst dmac dport sport tos] n by (simp add: payload_put_def)
qed

section \<open>The echo reply\<close>

definition echo_reply :: "ptr \<Rightarrow> nat \<Rightarrow> u8 list" where
  "echo_reply p len =
    (let rest = bytes_at p 4 (len - 4) in
     [0, p 1] @ be16 (net_checksum ([0, p 1] @ be16 0 @ rest) 0) @ rest)"

lemma bytes_at_split: "a \<le> n \<Longrightarrow> bytes_at p i n = bytes_at p i a @ bytes_at p (i + a) (n - a)"
  by (rule nth_equalityI) (auto simp: bytes_at_def nth_append)

lemma bytes_at_4: "bytes_at p 0 4 = [p 0, p 1, p 2, p 3]"
  by (rule nth_equalityI) (auto simp: bytes_at_def less_Suc_eq numeral_eq_Suc)

lemma length_echo_reply [simp]: "4 \<le> len \<Longrightarrow> length (echo_reply p len) = len"
  by (simp add: echo_reply_def Let_def)

lemma echo_reply_verifies:
  assumes "4 \<le> len" "len < 100000"
  shows "net_checksum (echo_reply p len) 0 = 0"
  unfolding echo_reply_def Let_def by (rule checksum_verifies) (use assms in simp_all)

lemma echo_scratch:
  assumes ok: "tx_ok s" and n: "8 \<le> len" and b: "tx_buf s = h @ r" "length h = 42" "len \<le> length r"
  shows "tx_buf (payload_put 2 (be16 ck) (payload_put 2 [0, 0] (payload_put 0 [0]
      (payload_put 0 (bytes_at p 0 len) s)))) = h @ ([0, p 1] @ be16 ck @ bytes_at p 4 (len - 4)) @ drop len r"
proof -
  have m: "bytes_at p 0 len = [p 0, p 1, p 2, p 3] @ bytes_at p 4 (len - 4)"
    using bytes_at_split [of 4 len p 0] n by (simp add: bytes_at_4)
  have l: "Suc (Suc (Suc (Suc (len - 4)))) = len" using n by simp
  show ?thesis
    using ok b l
    by (simp add: payload_put_def tx_buf_put ETH_HDR_LEN_def IP_HDR_LEN_def UDP_HDR_LEN_def m
        put_skip put_0 put_skip_Cons)
qed

lemma echo_scratch0:
  assumes "tx_ok s" "8 \<le> len" "tx_buf s = h @ r" "length h = 42" "len \<le> length r"
  shows "tx_buf (payload_put 2 [0, 0] (payload_put 0 [0] (payload_put 0 (bytes_at p 0 len) s))) =
    h @ ([0, p 1] @ be16 0 @ bytes_at p 4 (len - 4)) @ drop len r"
proof -
  have m: "bytes_at p 0 len = [p 0, p 1, p 2, p 3] @ bytes_at p 4 (len - 4)"
    using bytes_at_split [of 4 len p 0] assms(2) by (simp add: bytes_at_4)
  have l: "Suc (Suc (Suc (Suc (len - 4)))) = len" using assms(2) by simp
  show ?thesis
    using assms l
    by (simp add: payload_put_def tx_buf_put ETH_HDR_LEN_def IP_HDR_LEN_def UDP_HDR_LEN_def m
        put_skip put_0 put_skip_Cons wire_simps)
qed

lemma payload_put_fields [simp]:
  "g_net_ip (payload_put off bs s) = g_net_ip s" "net_mac (payload_put off bs s) = net_mac s"
  "ip_ident (payload_put off bs s) = ip_ident s" "arp_cache (payload_put off bs s) = arp_cache s"
  "wire (payload_put off bs s) = wire s" "tx_ok (payload_put off bs s) = tx_ok s"
  by (simp_all add: payload_put_def)

lemma icmp_reply_wire:
  assumes ok: "tx_ok C" and buf: "tx_buf C = h @ msg @ r" and h: "length h = 42"
    and msg: "length msg = len"
  shows "wire (icmp_reply m src len C) = wire C @
    [eth_header m (net_mac C) 0x0800 @
     ip_header 0 (of_nat (20 + len)) (ip_ident C) 64 1 (g_net_ip C) src @ msg @
     take (26 - len) (drop (34 + len) (h @ msg @ r))]"
proof -
  let ?b = "h @ msg @ r"
  define y where "y = drop (34 + len) ?b"
  have "drop 34 (put 34 msg ?b) = msg @ y"
    using h msg by (simp add: put_def y_def)
  moreover have t: "take len (drop 42 (tx_buf C)) = msg" using buf h msg by simp
  moreover have "max 60 (34 + len) = 34 + (len + (26 - len))" by simp
  then have "take (max 60 (34 + len) - 34) msg @ take (max 60 (34 + len) - (34 + length msg)) y =
      msg @ take (26 - len) y"
    using msg by simp
  ultimately show ?thesis
    unfolding icmp_reply_def Let_def t ETH_HDR_LEN_def IP_HDR_LEN_def y_def [symmetric]
    using ok
    by (simp add: wire_eth_send tx_buf_put eth_writes ip_writes ip_csum_write buf ip_header_def)
qed

lemma icmp_echo_reply:
  assumes wf: "tx_wf s" and len: "8 \<le> len" "len \<le> 1400" and req: "p 0 = 8"
    and arp: "net_arp_lookup src s = (Some m, s)"
  shows "\<exists>pad. length pad = 26 - len \<and> wire (icmp_rx src p len s) = wire s @
    [eth_header m (net_mac s) 0x0800 @
     ip_header 0 (of_nat (20 + len)) (ip_ident s) 64 1 (g_net_ip s) src @ echo_reply p len @ pad]"
proof -
  let ?a = "payload_put 2 [0, 0] (payload_put 0 [0] (payload_put 0 (bytes_at p 0 len) (bump rx_icmp_update s)))"
  have b: "1442 \<le> length (tx_buf s)" and ok: "tx_ok s"
    using wf by (auto dest: tx_buf_len tx_wf_ok)
  define h where "h = take 42 (tx_buf s)"
  define r where "r = drop 42 (tx_buf s)"
  have hr: "tx_buf (bump rx_icmp_update s) = h @ r" "length h = 42" "len \<le> length r" "1400 \<le> length r"
    using b len by (simp_all add: h_def r_def)
  have ok': "tx_ok (bump rx_icmp_update s)" using ok by simp
  define ck where "ck = net_checksum ([0, p 1] @ be16 0 @ bytes_at p 4 (len - 4)) 0"
  have ck: "net_checksum (take len (drop 42 (tx_buf ?a))) 0 = ck"
  proof -
    let ?m = "[0, p 1] @ be16 0 @ bytes_at p 4 (len - 4)"
    have "length ?m = len" using len by simp
    then have "take len (drop 42 (h @ ?m @ drop len r)) = ?m" using hr(2) by (simp del: append_Cons)
    then show ?thesis unfolding echo_scratch0 [OF ok' len(1) hr(1-3)] ck_def by simp
  qed
  let ?c = "payload_put 2 (be16 ck) ?a"
  have c: "tx_buf ?c = h @ echo_reply p len @ drop len r"
    unfolding echo_scratch [OF ok' len(1) hr(1-3)] by (simp add: echo_reply_def Let_def ck_def)
  have arp': "net_arp_lookup src ?c = (Some m, ?c)"
    using arp by (rule arp_lookup_tables) simp
  have cond: "\<not> (len < 8 \<or> p 0 \<noteq> 8)" "\<not> NET_MAX_PAYLOAD < len"
    using len req by (simp_all add: NET_MAX_PAYLOAD_def)
  have eq: "icmp_rx src p len s = icmp_reply m src len ?c"
    unfolding icmp_rx_def Let_def if_not_P [OF cond(1)] if_not_P [OF cond(2)] ck arp' by simp
  have "tx_ok ?c" using ok by simp
  note R = icmp_reply_wire [OF this c hr(2) length_echo_reply, of m src]
  define pad where "pad = take (26 - len) (drop (34 + len) (h @ echo_reply p len @ drop len r))"
  have "length pad = 26 - len" using hr len by (simp add: pad_def)
  then show ?thesis
    unfolding eq using R len by (intro exI [of _ pad]) (simp only: pad_def; simp)
qed

section \<open>A total length shorter than the header\<close>

text \<open>
  The guard of \<^theory_text>\<open>net_rx_frame\<close> drops a frame only when the total length overruns it. One
  smaller than the header falls through, \<^theory_text>\<open>total - ihl\<close> wraps to almost \<open>2 ^ 32\<close>, and the
  UDP length in the frame is the only bound left on what the handler is given.
\<close>

lemma short_total_overread:
  assumes len: "60 \<le> len" and et: "rd16 f 12 = 0x0800" and v: "f 14 = 0x45"
    and tot: "unat (rd16 f 16) < 20" and proto: "f 23 = 17" and us: "ip_for_us (ip_at f 30) s"
    and ulen: "8 \<le> unat (rd16 f 38)" and bound: "udp_get s (rd16 f 36) = Some fn"
  shows "\<exists>d t. net_rx_frame f len s = (1, Some d, t) \<and> dg_fn d = fn \<and>
    dg_payload d = bytes_at f 42 (unat (rd16 f 38) - 8)"
proof -
  have b: "udp_bindings (arp_learn ip m x) = udp_bindings x" for ip m x
    by (auto simp: arp_learn_def split: option.splits)
  define plen where "plen = (unat (rd16 f 16) + 2 ^ 32 - 20) mod 2 ^ 32"
  have "plen = unat (rd16 f 16) + 2 ^ 32 - 20" using tot by (simp add: plen_def)
  then have p: "\<not> plen < 8" "\<not> plen < unat (rd16 f 38)"
    using tot unat_u16_less [of "rd16 f 38"] by simp_all
  have l: "\<not> len < 14" "\<not> len < 34" "\<not> len < 14 + unat (rd16 f 16)" using len tot by simp_all
  have ihl: "unat (f 14 AND 15) * 4 = 20" "drop_bit 4 (f 14) = 4" by (simp_all add: v)
  show ?thesis
    using et tot proto us ulen bound b p l unat_u16_less [of "rd16 f 38"]
    by (simp add: net_rx_frame_def Let_def ETH_HDR_LEN_def IP_HDR_LEN_def UDP_HDR_LEN_def ihl
        ip_deliver_def udp_get_def plen_def [symmetric])
qed

end
