(* ===== verification/Net_Claims.thy ===== *)
theory Net_Claims
  imports Net_Rx
begin

text \<open>
  The properties of the network stack and the capture ring, each with an instance on the
  state \<^theory_text>\<open>net_init\<close> leaves (theory Net_Inv) where it has hypotheses.
\<close>

section \<open>Two concrete stacks\<close>

definition demo_tx :: net where "demo_tx = net_boot (0, 0x1D, 0xC1, 1, 2, 3)"

definition demo_rx :: net where
  "demo_rx = snd (net_udp_bind 5353 (Some Mdns_Rx) (net_boot (0, 0x1D, 0xC1, 4, 5, 6)))"

lemma demo_tx_inv: "net_inv demo_tx"
  by (simp add: demo_tx_def net_boot_inv)

lemma demo_tx_wf: "tx_wf demo_tx"
  using demo_tx_inv by (simp add: net_inv_def hw_ok_def)

lemma demo_tx_arp:
  "net_arp_lookup (224, 0, 0, 251) demo_tx = (Some (0x01, 0x00, 0x5E, 0, 0, 251), demo_tx)"
  by (simp add: net_arp_lookup_def)

lemma demo_rx_bound: "udp_get demo_rx 5353 = Some Mdns_Rx"
  by (simp add: demo_rx_def net_udp_bind_def net_boot_def net_init_def udp_get_def udp_lookup_def
      UDP_BINDINGS_def numeral_eq_Suc upt_rec)

section \<open>UDP\<close>

lemma net_udp_send_frame_ok:
  assumes wf: "tx_wf s" and n: "length payload \<le> 1400"
    and arp: "net_arp_lookup dst s = (Some dmac, s)"
  shows "\<exists>s' pad. net_udp_send dst dport sport payload tos s = (0, s') \<and>
     wire s' = wire s @ [udp_frame dmac dst dport sport tos payload s @ pad]"
  using payload_commit_ok [OF assms, of dport sport tos] n arp
  by (auto simp: net_udp_send_def NET_MAX_PAYLOAD_def)

text \<open>
  C4: \<^theory_text>\<open>net_udp_send\<close> and \<^theory_text>\<open>net_rx_frame\<close> agree. With a resolved destination and
  room in the slot, sending puts one frame on the wire, and a stack that accepts the
  destination address and has a handler bound to the port hands that handler exactly the
  payload sent, with the sender's address and port.
\<close>

theorem udp_send_receive:
  assumes "tx_wf s" "length payload \<le> 1400" "net_arp_lookup dst s = (Some dmac, s)"
    and "ip_for_us dst t" "udp_get t dport = Some fn"
  shows "\<exists>s' F t'. net_udp_send dst dport sport payload tos s = (0, s') \<and> wire s' = wire s @ [F] \<and>
    net_rx_frame (ptr_of F) (length F) t =
      (1, Some \<lparr>dg_fn = fn, dg_src = g_net_ip s, dg_dst = dst, dg_sport = sport,
         dg_payload = payload\<rparr>, t')"
proof -
  obtain s' pad where 1: "net_udp_send dst dport sport payload tos s = (0, s')"
      "wire s' = wire s @ [udp_frame dmac dst dport sport tos payload s @ pad]"
    using net_udp_send_frame_ok [OF assms(1-3)] by blast
  with udp_frame_received [OF assms(2) refl assms(4,5)] show ?thesis by blast
qed

theorem udp_send_receive_witness:
  "\<exists>s' F t'. net_udp_send (224, 0, 0, 251) 5353 5353 [1, 2, 3] 0 demo_tx = (0, s') \<and>
    wire s' = wire demo_tx @ [F] \<and>
    net_rx_frame (ptr_of F) (length F) demo_rx =
      (1, Some \<lparr>dg_fn = Mdns_Rx, dg_src = g_net_ip demo_tx, dg_dst = (224, 0, 0, 251),
         dg_sport = 5353, dg_payload = [1, 2, 3]\<rparr>, t')"
  by (rule udp_send_receive [OF demo_tx_wf _ demo_tx_arp _ demo_rx_bound])
    (simp_all add: ip_for_us_def)

text \<open>
  The frame \<^theory_text>\<open>net_udp_commit\<close> sends, byte for byte: Ethernet, IPv4 with a checksum
  that verifies, UDP, the payload in the slot, and on a short frame the bytes the slot
  happened to hold up to the Ethernet minimum.
\<close>

theorem net_udp_commit_frame_exact:
  assumes "tx_wf s" "len \<le> 1400" "net_arp_lookup dst s = (Some dmac, s)"
  shows "\<exists>s' ip. net_udp_commit dst dport sport len tos s = (0, s') \<and>
    ip = ip_header tos (of_nat (28 + len)) (next_ident tos s)
       (if is_mcast dst then 32 else 64) 17 (g_net_ip s) dst \<and>
    net_checksum ip 0 = 0 \<and>
    wire s' = wire s @ [eth_header dmac (net_mac s) 0x0800 @ ip @ udp_header sport dport len @
      take len (drop 42 (tx_buf s)) @ take (18 - len) (drop (42 + len) (tx_buf s))]"
proof -
  have "length (take len (drop 42 (tx_buf s))) = len"
    using tx_buf_len [OF assms(1)] assms(2) by simp
  with udp_commit_ok [OF assms, of dport sport tos] show ?thesis
    by (auto simp: udp_frame_def ip_header_verifies)
qed

theorem net_udp_commit_frame_exact_witness:
  "\<exists>s' ip. net_udp_commit (224, 0, 0, 251) 5353 5353 40 NET_TOS_AUDIO demo_tx = (0, s') \<and>
    ip = ip_header NET_TOS_AUDIO (of_nat (28 + 40)) (next_ident NET_TOS_AUDIO demo_tx)
       (if is_mcast (224, 0, 0, 251) then 32 else 64) 17 (g_net_ip demo_tx) (224, 0, 0, 251) \<and>
    net_checksum ip 0 = 0 \<and>
    wire s' = wire demo_tx @ [eth_header (0x01, 0x00, 0x5E, 0, 0, 251) (net_mac demo_tx) 0x0800 @ ip @
      udp_header 5353 5353 40 @
      take 40 (drop 42 (tx_buf demo_tx)) @ take (18 - 40) (drop (42 + 40) (tx_buf demo_tx))]"
  by (rule net_udp_commit_frame_exact [OF demo_tx_wf _ demo_tx_arp]) simp

section \<open>Receive\<close>

text \<open>
  An echo request of 8 to 1400 bytes is answered with one frame whose ICMP message is
  the request's with type 0 and a checksum that verifies, addressed to the sender.
\<close>

theorem icmp_echo_answered:
  assumes "tx_wf s" "8 \<le> len" "len \<le> 1400" "p 0 = 8" "net_arp_lookup src s = (Some m, s)"
  shows "\<exists>msg pad. wire (icmp_rx src p len s) = wire s @
    [eth_header m (net_mac s) 0x0800 @
     ip_header 0 (of_nat (20 + len)) (ip_ident s) 64 1 (g_net_ip s) src @ msg @ pad] \<and>
    length msg = len \<and> take 2 msg = [0, p 1] \<and> drop 4 msg = bytes_at p 4 (len - 4) \<and>
    net_checksum msg 0 = 0"
proof -
  obtain pad where "wire (icmp_rx src p len s) = wire s @
    [eth_header m (net_mac s) 0x0800 @
     ip_header 0 (of_nat (20 + len)) (ip_ident s) 64 1 (g_net_ip s) src @ echo_reply p len @ pad]"
    using icmp_echo_reply [where p = p, OF assms(1-3) _ assms(5)] assms(4) by blast
  moreover have "length (echo_reply p len) = len" "net_checksum (echo_reply p len) 0 = 0"
    using assms by (simp_all add: echo_reply_verifies)
  moreover have "take 2 (echo_reply p len) = [0, p 1]" "drop 4 (echo_reply p len) = bytes_at p 4 (len - 4)"
    by (simp_all add: echo_reply_def Let_def)
  ultimately show ?thesis by blast
qed

definition demo_arp :: net where
  "demo_arp = arp_learn (169, 254, 9, 7) (0, 1, 2, 3, 4, 5) demo_tx"

lemma demo_arp_inv: "net_inv demo_arp"
  by (simp add: demo_arp_def arp_learn_net_inv demo_tx_inv)

lemma net_arp_lookup_get:
  assumes "arp_get s ip = Some m" "\<not> is_mcast ip" "\<not> is_bcast ip"
  shows "net_arp_lookup ip s = (Some m, s)"
  using assms by (auto simp: net_arp_lookup_def arp_get_def split: option.splits)

lemma demo_arp_lookup: "net_arp_lookup (169, 254, 9, 7) demo_arp = (Some (0, 1, 2, 3, 4, 5), demo_arp)"
  unfolding demo_arp_def
  by (rule net_arp_lookup_get [OF arp_get_learn])
    (use demo_tx_inv in \<open>simp_all add: arp_valid_def net_inv_def\<close>)

theorem icmp_echo_answered_witness:
  "\<exists>msg pad. wire (icmp_rx (169, 254, 9, 7) (ptr_of (8 # replicate 15 1)) 16 demo_arp) = wire demo_arp @
    [eth_header (0, 1, 2, 3, 4, 5) (net_mac demo_arp) 0x0800 @
     ip_header 0 (of_nat (20 + 16)) (ip_ident demo_arp) 64 1 (g_net_ip demo_arp) (169, 254, 9, 7) @
     msg @ pad] \<and>
    length msg = 16 \<and> take 2 msg = [0, ptr_of (8 # replicate 15 1) 1] \<and>
    drop 4 msg = bytes_at (ptr_of (8 # replicate 15 1)) 4 (16 - 4) \<and> net_checksum msg 0 = 0"
  by (rule icmp_echo_answered [OF _ _ _ _ demo_arp_lookup])
    (use demo_arp_inv in \<open>simp_all add: net_inv_def hw_ok_def\<close>)

text \<open>
  C33: when the IPv4 total length covers the header, handling a frame reads none of the
  bytes beyond it: two memories that agree on the frame's \<open>len\<close> bytes give the same result,
  the payload handed to a handler included.
\<close>

theorem net_rx_frame_reads_inside:
  assumes "\<forall>i < len. f i = g i" "rd16 f 12 = 0x0800 \<longrightarrow> unat (f 14 AND 0x0F) * 4 \<le> unat (rd16 f 16)"
  shows "net_rx_frame f len s = net_rx_frame g len s"
  by (rule net_rx_frame_local) (use assms in \<open>simp_all add: agree_def ip_len_ok_def\<close>)

text \<open>A datagram on the wire, and the same memory with other bytes after its end.\<close>

definition demo_frame :: "u8 list" where
  "demo_frame = udp_frame (0x01, 0x00, 0x5E, 0, 0, 251) (224, 0, 0, 251) 5353 5353 0 [1, 2, 3] demo_tx @ replicate 15 0"

theorem net_rx_frame_reads_inside_witness:
  "net_rx_frame (ptr_of demo_frame) 60 demo_rx = net_rx_frame (\<lambda>i. if i < 60 then ptr_of demo_frame i else 0xAA) 60 demo_rx \<and>
   rd16 (ptr_of demo_frame) 12 = 0x0800 \<and> unat (rd16 (ptr_of demo_frame) 16) = 31 \<and>
   (\<exists>t. net_rx_frame (\<lambda>i. if i < 60 then ptr_of demo_frame i else 0xAA) 60 demo_rx =
     (1, Some \<lparr>dg_fn = Mdns_Rx, dg_src = g_net_ip demo_tx, dg_dst = (224, 0, 0, 251), dg_sport = 5353, dg_payload = [1, 2, 3]\<rparr>, t))"
proof -
  let ?g = "\<lambda>i. if i < 60 then ptr_of demo_frame i else 0xAA"
  have "demo_frame = udp_frame (0x01, 0x00, 0x5E, 0, 0, 251) (224, 0, 0, 251) 5353 5353 0 [1, 2, 3] demo_tx @ replicate 15 0"
    by (simp add: demo_frame_def)
  note f = udp_frame_fields [OF _ this] and r = udp_frame_received [OF _ this _ demo_rx_bound]
  have l: "length demo_frame = 60" using length_udp_headers by (simp add: demo_frame_def udp_frame_def)
  have t: "rd16 (ptr_of demo_frame) 12 = 0x0800" "unat (rd16 (ptr_of demo_frame) 16) = 31" "ptr_of demo_frame 14 = 0x45"
    using f(1-3) by simp_all
  have e: "net_rx_frame (ptr_of demo_frame) 60 demo_rx = net_rx_frame ?g 60 demo_rx"
    by (rule net_rx_frame_reads_inside) (simp_all add: t)
  have "ip_for_us (224, 0, 0, 251) demo_rx" by (simp add: ip_for_us_def)
  with r obtain t where d: "net_rx_frame (ptr_of demo_frame) 60 demo_rx =
      (1, Some \<lparr>dg_fn = Mdns_Rx, dg_src = g_net_ip demo_tx, dg_dst = (224, 0, 0, 251), dg_sport = 5353, dg_payload = [1, 2, 3]\<rparr>, t)"
    unfolding l by auto
  show ?thesis by (intro conjI exI) (rule e t(1,2) trans [OF e [symmetric] d])+
qed

text \<open>
  When it does not, the guard lets the frame through, \<^theory_text>\<open>total - ihl\<close> wraps, and a
  handler is given as many bytes as the UDP length asks for, frame or no frame: here 992
  from a 60-byte frame, 974 of them past its end.
\<close>

theorem short_total_length_overreads:
  assumes "60 \<le> len" "rd16 f 12 = 0x0800" "f 14 = 0x45" "unat (rd16 f 16) < 20" "f 23 = 17"
    and "ip_for_us (ip_at f 30) s" "8 \<le> unat (rd16 f 38)" "udp_get s (rd16 f 36) = Some fn"
  shows "\<exists>d t. net_rx_frame f len s = (1, Some d, t) \<and> dg_fn d = fn \<and>
    dg_payload d = bytes_at f 42 (unat (rd16 f 38) - 8)"
  using assms by (rule short_total_overread)

definition demo_short :: "u8 list" where
  "demo_short = [1, 0, 94, 0, 0, 251, 0, 1, 2, 3, 4, 5] @ be16 0x0800 @ [0x45, 0] @ be16 0 @
     [0, 0, 0, 0, 1, 17, 0, 0, 10, 0, 0, 1, 224, 0, 0, 251] @ be16 5353 @ be16 5353 @ be16 1000 @
     replicate 20 0"

theorem short_total_length_overreads_witness:
  "length demo_short = 60 \<and>
   (\<exists>d t. net_rx_frame (ptr_of demo_short) 60 demo_rx = (1, Some d, t) \<and> dg_fn d = Mdns_Rx \<and>
    dg_payload d = bytes_at (ptr_of demo_short) 42 992)"
proof -
  let ?p = "ptr_of demo_short"
  have *: "rd16 ?p 12 = 0x0800" "?p 14 = 0x45" "rd16 ?p 16 = 0" "?p 23 = 17"
    "ip_at ?p 30 = (224, 0, 0, 251)" "rd16 ?p 38 = 1000" "rd16 ?p 36 = 5353" "length demo_short = 60"
    by (simp_all add: demo_short_def rd16_def ptr_of_def ip_at_def be16_def)
  show ?thesis
    using short_total_length_overreads [of 60 ?p demo_rx Mdns_Rx] demo_rx_bound
    by (simp add: * ip_for_us_def)
qed

section \<open>The tables\<close>

text \<open>
  C32: from \<^theory_text>\<open>net_init\<close> on, whatever arrives and whatever is bound, joined, sent or
  renumbered, the slot index stays in range, the ARP cache holds at most one entry per
  address, the bound ports are distinct, the joined groups are distinct and at most six,
  and the capture ring is well formed.
\<close>

theorem net_always_invariant:
  "\<exists>s. s = foldl net_step (net_boot mac) es \<and> tx_wf s \<and> arp_inv s \<and> udp_inv s \<and> igmp_inv s \<and>
    cap_inv (cap s)"
  using net.run_inv [OF net_boot_inv, of mac es] by (simp add: net_inv_def hw_ok_def)

text \<open>
  The ARP cache is a table. An address learned is the one looked up next, without a
  request going out, and every other answer stays except the one entry it replaced.
\<close>

theorem arp_learn_lookup:
  assumes "arp_inv s" "\<not> is_mcast ip" "\<not> is_bcast ip" "ip \<noteq> (0, 0, 0, 0)"
  shows "net_arp_lookup ip (arp_learn ip mac s) = (Some mac, arp_learn ip mac s) \<and>
    (\<forall>j. j \<noteq> ip \<and> j \<notin> arp_evicts s ip \<longrightarrow> arp_get (arp_learn ip mac s) j = arp_get s j)"
proof (intro conjI allI impI)
  have ok: "arp_valid ip" using assms by (simp add: arp_valid_def)
  show "net_arp_lookup ip (arp_learn ip mac s) = (Some mac, arp_learn ip mac s)"
    by (rule net_arp_lookup_get [OF arp.get_same [OF assms(1) ok]]) (simp_all add: arp_store_def assms)
  show "j \<noteq> ip \<and> j \<notin> arp_evicts s ip \<Longrightarrow> arp_get (arp_learn ip mac s) j = arp_get s j" for j
    using arp.get_other [OF assms(1) ok, of mac "arp_learn ip mac s" j] by (simp add: arp_store_def)
qed

theorem arp_learn_lookup_witness:
  "net_arp_lookup (10, 0, 0, 9) (arp_learn (10, 0, 0, 9) (2, 0, 0, 0, 0, 9) demo_arp) =
    (Some (2, 0, 0, 0, 0, 9), arp_learn (10, 0, 0, 9) (2, 0, 0, 0, 0, 9) demo_arp)"
  by (rule arp_learn_lookup [THEN conjunct1]) (use demo_arp_inv in \<open>simp_all add: net_inv_def\<close>)

text \<open>
  Binding a port succeeds unless all sixteen bindings are taken by other ports, and
  then the handler bound is the one a datagram to that port finds, every other port
  keeping its own; the one refused leaves the table as it was.
\<close>

theorem net_udp_bind_table:
  assumes "udp_inv s" "port \<noteq> 0" "net_udp_bind port (Some fn) s = (r, s')"
  shows "(if \<forall>i < UDP_BINDINGS. fst (udp_bindings s ! i) \<noteq> 0 \<and> fst (udp_bindings s ! i) \<noteq> port
    then r = - 1 \<and> s' = s
    else r = 0 \<and> udp_inv s' \<and> udp_get s' port = Some fn \<and> (\<forall>q. q \<noteq> port \<longrightarrow> udp_get s' q = udp_get s q))"
proof (cases "r = 0")
  case True
  then have st: "udp_store s port fn = Some s'" using assms(3) by (simp add: udp_store_def)
  show ?thesis
    using udp_bind_full [OF assms(1,2), of fn] assms(3) True
      udp_store_inv [OF assms(1,2) st] udp.get_same [OF assms(1,2) st]
      udp.get_other [OF assms(1,2) st] by auto
next
  case False
  then have "r = - 1 \<and> s' = s"
    using assms(3) by (auto simp: net_udp_bind_def split: option.splits)
  then show ?thesis using udp_bind_full [OF assms(1,2), of fn] assms(3) by auto
qed

theorem net_udp_bind_table_witness:
  "\<exists>s'. net_udp_bind 4440 (Some Arc_Rx) demo_tx = (0, s') \<and> udp_get s' 4440 = Some Arc_Rx"
proof -
  obtain r s' where b: "net_udp_bind 4440 (Some Arc_Rx) demo_tx = (r, s')" by fastforce
  have free: "fst (udp_bindings demo_tx ! 0) = 0" "0 < UDP_BINDINGS"
    by (simp_all add: demo_tx_def net_boot_def net_init_def UDP_BINDINGS_def)
  then have "\<not> (\<forall>i < UDP_BINDINGS. fst (udp_bindings demo_tx ! i) \<noteq> 0 \<and> fst (udp_bindings demo_tx ! i) \<noteq> 4440)"
    by blast
  then show ?thesis
    using net_udp_bind_table [OF _ _ b] demo_tx_inv by (simp add: net_inv_def b)
qed

section \<open>The capture ring\<close>

text \<open>
  After any number of frames recorded, a dump shows the last \<^theory_text>\<open>CAP_N\<close> of them,
  oldest first, each with its time, direction, length and first \<^theory_text>\<open>CAP_BYTES\<close> bytes.
\<close>

theorem cap_keeps_most_recent:
  "cap_log (foldl cap_push (cap_reset s) xs) = last_n CAP_N (map cap_item xs)"
  using cap_ring.log_pushes [OF cap_reset_inv, of s xs]
  by (simp add: cap_log_def cap_count_def cap_reset_def)

text \<open>
  Recording a frame reads only the frame: the filter, the classification and the copy
  stay inside its \<open>len\<close> bytes.
\<close>

theorem cap_record_reads_inside:
  assumes "\<forall>i < len. f i = g i"
  shows "cap_record dir f len now s = cap_record dir g len now s"
  by (rule cap_record_local) (use assms in simp)

theorem cap_record_reads_inside_witness:
  "cap_record 0 (ptr_of [1, 2, 3]) 3 7 (cap demo_tx) = cap_record 0 (\<lambda>i. of_nat i + 1) 3 7 (cap demo_tx)"
proof (rule cap_record_reads_inside, intro allI impI)
  fix i :: nat assume "i < 3"
  then consider "i = 0" | "i = 1" | "i = 2" by linarith
  then show "ptr_of [1, 2, 3] i = (of_nat i + 1 :: u8)" by cases simp_all
qed

section \<open>The checksum\<close>

text \<open>
  A message of even prefix length carrying its own \<^theory_text>\<open>net_checksum\<close> sums to zero,
  which is the test every receiver makes; the value itself is the ones'-complement sum.
\<close>

theorem net_checksum_verifies:
  assumes "even (length pre)" "length pre + length post < 100000"
  shows "net_checksum (pre @ be16 (net_checksum (pre @ be16 0 @ post) 0) @ post) 0 = 0 \<and>
    unat (net_checksum (pre @ post) 0) = 65535 - oc (nat_sum (pre @ post))"
proof
  show "net_checksum (pre @ be16 (net_checksum (pre @ be16 0 @ post) 0) @ post) 0 = 0"
    using assms by (rule checksum_verifies)
  have "nat_sum (pre @ post) \<le> 65535 * 50000"
    using nat_sum_bound [of "pre @ post"] assms(2) by auto
  then show "unat (net_checksum (pre @ post) 0) = 65535 - oc (nat_sum (pre @ post))"
    by (simp add: unat_net_checksum)
qed

theorem net_checksum_verifies_witness:
  "net_checksum ([8, 0] @ be16 (net_checksum ([8, 0] @ be16 0 @ [1, 2, 3]) 0) @ [1, 2, 3]) 0 = 0 \<and>
   unat (net_checksum ([8, 0] @ [1, 2, 3]) 0) = 65535 - oc (nat_sum ([8, 0] @ [1, 2, 3]))"
  by (rule net_checksum_verifies) simp_all

end
