(* ===== verification/Net_Text.thy ===== *)
theory Net_Text
  imports Net
begin

text \<open>
  The textual address configuration of \<^theory_text>\<open>firmware/net.c\<close>: \<^theory_text>\<open>u8str\<close>,
  \<^theory_text>\<open>net_ip_str\<close>, \<^theory_text>\<open>net_parse_ipstr\<close>. A C string is the list of its bytes up to
  the terminating NUL; the end of the list is that NUL.
\<close>

section \<open>Printing\<close>

definition ascii_digit :: "nat \<Rightarrow> u8" where
  "ascii_digit d = of_nat (48 + d)"

definition u8str :: "nat \<Rightarrow> u8 list" where
  "u8str v =
    (if v \<ge> 100 then [ascii_digit (v div 100), ascii_digit ((v div 10) mod 10), ascii_digit (v mod 10)]
     else if v \<ge> 10 then [ascii_digit (v div 10), ascii_digit (v mod 10)]
     else [ascii_digit v])"

definition net_ip_str :: "net \<Rightarrow> u8 list" where
  "net_ip_str s = (case g_net_ip s of (a, b, c, d) \<Rightarrow>
     u8str (unat a) @ [46] @ u8str (unat b) @ [46] @ u8str (unat c) @ [46] @ u8str (unat d) @
     [47] @ u8str (unat (g_net_prefix s)))"

section \<open>Parsing\<close>

definition is_digit :: "u8 \<Rightarrow> bool" where
  "is_digit c \<longleftrightarrow> 48 \<le> c \<and> c \<le> 57"

text \<open>
  The first loop: \<open>val\<close>, \<open>dig\<close> and the octets finished so far. \<open>None\<close> is its \<^theory_text>\<open>return 0\<close>.
\<close>

fun parse_octets :: "u8 list \<Rightarrow> nat \<Rightarrow> bool \<Rightarrow> nat list \<Rightarrow> (nat \<times> bool \<times> nat list \<times> u8 list) option" where
  "parse_octets [] val dig oct = Some (val, dig, oct, [])"
| "parse_octets (c # cs) val dig oct =
    (if is_digit c then
       (let val = val * 10 + (unat c - 48) in
        if val > 255 then None else parse_octets cs val True oct)
     else if c = 46 then
       (if \<not> dig \<or> length oct \<ge> 3 then None else parse_octets cs 0 False (oct @ [val]))
     else Some (val, dig, oct, c # cs))"

text \<open>The prefix loop, on an \<^theory_text>\<open>unsigned\<close> that may wrap.\<close>

fun parse_prefix :: "u8 list \<Rightarrow> nat \<Rightarrow> bool \<Rightarrow> nat \<times> bool \<times> u8 list" where
  "parse_prefix [] val dig = (val, dig, [])"
| "parse_prefix (c # cs) val dig =
    (if is_digit c then parse_prefix cs ((val * 10 + (unat c - 48)) mod 2 ^ 32) True
     else (val, dig, c # cs))"

definition net_parse_ipstr :: "u8 list \<Rightarrow> net \<Rightarrow> int \<times> net" where
  "net_parse_ipstr str s =
    (case parse_octets str 0 False [] of
       None \<Rightarrow> (0, s)
     | Some (val, dig, oct, p) \<Rightarrow>
        if \<not> dig \<or> length oct \<noteq> 3 then (0, s)
        else
          let oct = oct @ [val];
              (pfx, havep, p) =
                (case p of c # cs \<Rightarrow>
                   if c = 47 then parse_prefix cs 0 False else (0, False, p)
                 | [] \<Rightarrow> (0, False, p)) in
          if p \<noteq> [] \<and> hd p \<notin> {0, 10, 13, 32} then (0, s)
          else (1, s\<lparr>g_net_ip := (of_nat (oct ! 0), of_nat (oct ! 1), of_nat (oct ! 2), of_nat (oct ! 3)),
                     g_net_prefix := (if havep then (if pfx \<ge> 20 then 24 else 16) else g_net_prefix s)\<rparr>))"

section \<open>Round trip\<close>

lemma unat_ascii_digit: "d < 10 \<Longrightarrow> unat (ascii_digit d) = 48 + d"
  by (simp only: ascii_digit_def unat_of_nat) simp

lemma is_digit_ascii: "d < 10 \<Longrightarrow> is_digit (ascii_digit d)"
  using unat_ascii_digit [of d] by (simp add: is_digit_def word_le_nat_alt)

lemma three_digits: "(v div 100 * 10 + v div 10 mod 10) * 10 + v mod 10 = (v :: nat)"
  using div_mult_mod_eq [of v 10] div_mult_mod_eq [of "v div 10" 10]
  by (simp add: div_mult2_eq [symmetric])

lemma parse_octets_u8str:
  assumes "v < 256"
  shows "parse_octets (u8str v @ rest) 0 False oct = parse_octets rest v True oct"
proof -
  have d: "v div 100 < 10" "v div 10 mod 10 < 10" "v mod 10 < 10" using assms by auto
  have b: "v div 100 * 10 + v div 10 mod 10 \<le> 255" "v div 100 \<le> 255"
    using three_digits [of v] assms by linarith+
  show ?thesis
    using assms d b three_digits [of v] mult_div_mod_eq [of 10 v]
    by (simp add: u8str_def Let_def is_digit_ascii unat_ascii_digit) (auto simp: not_less mult.commute)
qed

lemma parse_prefix_u8str:
  assumes "v < 256"
  shows "parse_prefix (u8str v) 0 False = (v, True, [])"
proof -
  have d: "v div 100 < 10" "v div 10 mod 10 < 10" "v mod 10 < 10" using assms by auto
  have b: "v div 100 * 10 + v div 10 mod 10 \<le> 255" "v div 100 \<le> 255"
    using three_digits [of v] assms by linarith+
  show ?thesis
    using assms d b three_digits [of v] mult_div_mod_eq [of 10 v]
    by (simp add: u8str_def Let_def is_digit_ascii unat_ascii_digit)
qed

lemma net_ip_str_parses:
  "net_parse_ipstr (net_ip_str s) t = (1, t\<lparr>g_net_ip := g_net_ip s,
     g_net_prefix := (if g_net_prefix s \<ge> 20 then 24 else 16)\<rparr>)"
proof -
  obtain a b c d where ip: "g_net_ip s = (a, b, c, d)" by (cases "g_net_ip s") auto
  have nd: "\<not> is_digit 46" "\<not> is_digit 47" by (simp_all add: is_digit_def)
  show ?thesis
    using unat_u8_less [of a] unat_u8_less [of b] unat_u8_less [of c] unat_u8_less [of d]
      unat_u8_less [of "g_net_prefix s"]
    by (simp add: net_parse_ipstr_def net_ip_str_def ip parse_octets_u8str parse_prefix_u8str nd
        word_le_nat_alt)
qed

lemma net_ip_str_short: "length (net_ip_str s) \<le> 19"
proof -
  have "length (u8str n) \<le> 3" for n by (simp add: u8str_def)
  note l = this
  obtain a b c d where ip: "g_net_ip s = (a, b, c, d)" by (cases "g_net_ip s") auto
  show ?thesis
    using l [of "unat a"] l [of "unat b"] l [of "unat c"] l [of "unat d"] l [of "unat (g_net_prefix s)"]
    by (simp add: net_ip_str_def ip)
qed

text \<open>A string that is refused changes nothing.\<close>

lemma net_parse_ipstr_refused: "net_parse_ipstr str s = (0, s) \<or> fst (net_parse_ipstr str s) = 1"
  by (auto simp: net_parse_ipstr_def Let_def split: option.splits prod.splits if_splits list.splits)

section \<open>The property\<close>

text \<open>
  The printed address fits twenty bytes with its NUL, and read back it sets the address
  that was printed and the prefix class, 24 from 20 upwards and 16 below, whatever was set
  before; a string that is refused changes nothing.
\<close>

theorem net_ip_str_roundtrip:
  "length (net_ip_str s) \<le> 19 \<and>
   net_parse_ipstr (net_ip_str s) t = (1, t\<lparr>g_net_ip := g_net_ip s,
     g_net_prefix := (if g_net_prefix s \<ge> 20 then 24 else 16)\<rparr>) \<and>
   (net_parse_ipstr str t = (0, t) \<or> fst (net_parse_ipstr str t) = 1)"
  using net_ip_str_parses net_ip_str_short net_parse_ipstr_refused by blast

end
