(* ===== verification/Cap_Serve.thy ===== *)
theory Cap_Serve
  imports Net_Rx
begin

text \<open>
  Sending the capture ring to a host, the second half of \<^theory_text>\<open>firmware/cap.c\<close>:
  \<^theory_text>\<open>cap_send_ring\<close>, the request handler, and why a dump shows the ring whole: the
  datagrams it sends are not themselves recorded.
\<close>

section \<open>The dump\<close>

definition cap_entry_bytes :: "cap_entry \<Rightarrow> u8 list" where
  "cap_entry_bytes e = be32 (ce_t_ms e) @ [ce_dir e] @ be16 (ce_len e) @ be16 (ce_caplen e) @
     take (unat (ce_caplen e)) (ce_data e)"

text \<open>The body of the loop of \<^theory_text>\<open>cap_send_ring\<close>: entries \<open>i\<close> and \<open>i + 1\<close> in one datagram.\<close>

definition cap_send_pair :: "ip4 \<Rightarrow> u16 \<Rightarrow> nat \<Rightarrow> nat \<Rightarrow> net \<Rightarrow> nat \<Rightarrow> net" where
  "cap_send_pair dst dport start cnt s i =
    (let p = be32 (cap_total (cap s)) @ be16 (of_nat i) @ be16 (of_nat cnt) @
           concat (map (\<lambda>k. cap_entry_bytes (cap_ring (cap s) ! ((start + i + k) mod CAP_N)))
             (filter (\<lambda>k. i + k < cnt) [0, 1])) in
     snd (net_udp_commit dst dport CAP_OUT_PORT (length p) 0 (payload_put 0 p s)))"

definition cap_send_ring :: "ip4 \<Rightarrow> u16 \<Rightarrow> net \<Rightarrow> net" where
  "cap_send_ring dst dport s =
     foldl (cap_send_pair dst dport (cap_start (cap s)) (cap_count (cap s))) s
       (filter even [0..<cap_count (cap s)])"

definition cap_req_rx :: "ip4 \<Rightarrow> u8 list \<Rightarrow> net \<Rightarrow> net" where
  "cap_req_rx src payload s =
    (let s = cap_send_ring src CAP_OUT_PORT s in
     if length payload \<ge> 1 \<and> payload ! 0 = 114 then s\<lparr>cap := cap_reset (cap s)\<rparr> else s)"

definition cap_init :: "net \<Rightarrow> net" where
  "cap_init s = snd (net_udp_bind CAP_REQ_PORT (Some Cap_Req_Rx) s)"

section \<open>The dump as a list of payloads\<close>

definition cap_view_bytes :: "u32 \<times> u8 \<times> u16 \<times> u8 list \<Rightarrow> u8 list" where
  "cap_view_bytes v = (case v of (t, dir, len, bs) \<Rightarrow>
     be32 t @ [dir] @ be16 len @ be16 (of_nat (length bs)) @ bs)"

definition cap_dump_payload :: "cap_st \<Rightarrow> nat \<Rightarrow> u8 list" where
  "cap_dump_payload c i = be32 (cap_total c) @ be16 (of_nat i) @ be16 (of_nat (cap_count c)) @
     concat (map cap_view_bytes (take 2 (drop i (cap_log c))))"

lemma cap_nth_inv:
  assumes "cap_inv c"
  shows "length (ce_data (cap_nth c i)) = CAP_BYTES \<and> unat (ce_caplen (cap_nth c i)) \<le> CAP_BYTES"
proof -
  have "cap_nth c i \<in> set (cap_ring c)"
    using assms by (simp add: cap_inv_def cap_nth_def CAP_N_def)
  then show ?thesis using assms by (simp add: cap_inv_def)
qed

lemma cap_view_bytes_nth:
  assumes "cap_inv c"
  shows "cap_entry_bytes (cap_nth c i) = cap_view_bytes (cap_view (cap_nth c i))"
proof -
  let ?e = "cap_nth c i"
  have "length (take (unat (ce_caplen ?e)) (ce_data ?e)) = unat (ce_caplen ?e)"
    using cap_nth_inv [OF assms, of i] by simp
  then show ?thesis
    by (simp add: cap_entry_bytes_def cap_view_bytes_def cap_view_def del: length_take)
qed

lemma take2_drop:
  assumes "i < length xs"
  shows "take 2 (drop i xs) = map (\<lambda>k. xs ! (i + k)) (filter (\<lambda>k. i + k < length xs) [0, 1])"
proof (cases "Suc i < length xs")
  case True
  then have "drop i xs = xs ! i # xs ! Suc i # drop (Suc (Suc i)) xs"
    using assms by (metis Cons_nth_drop_Suc)
  with True show ?thesis by simp
next
  case False
  then have "drop i xs = [xs ! i]"
    using assms by (metis Cons_nth_drop_Suc Suc_lessI drop_all not_less)
  with False show ?thesis using assms by simp
qed

lemma cap_send_pair_payload:
  assumes "cap_inv (cap s)" "i < cap_count (cap s)"
  shows "cap_send_pair dst dport (cap_start (cap s)) (cap_count (cap s)) s i =
    (let p = cap_dump_payload (cap s) i in
     snd (net_udp_commit dst dport CAP_OUT_PORT (length p) 0 (payload_put 0 p s)))"
proof -
  have "concat (map (\<lambda>k. cap_entry_bytes (cap_ring (cap s) ! ((cap_start (cap s) + i + k) mod CAP_N)))
      (filter (\<lambda>k. i + k < cap_count (cap s)) [0, 1])) =
    concat (map cap_view_bytes (take 2 (drop i (cap_log (cap s)))))"
    using assms cap_view_bytes_nth [OF assms(1), unfolded cap_nth_def]
    by (simp add: take2_drop cap_log_def cap_nth_def add.assoc)
  then show ?thesis
    by (simp only: cap_send_pair_def cap_dump_payload_def)
qed

lemma cap_dump_payload_short:
  assumes "cap_inv c"
  shows "length (cap_dump_payload c i) \<le> 538"
proof -
  have "length (cap_view_bytes v) \<le> 265" if v: "v \<in> set (cap_log c)" for v
  proof -
    obtain j where "v = cap_view (cap_nth c j)" using v by (auto simp: cap_log_def)
    then show ?thesis
      using cap_nth_inv [OF assms, of j] by (simp add: cap_view_def cap_view_bytes_def CAP_BYTES_def)
  qed
  then have "length (concat (map cap_view_bytes vs)) \<le> 265 * length vs" if "set vs \<subseteq> set (cap_log c)" for vs
    using that by (induction vs) fastforce+
  from this [of "take 2 (drop i (cap_log c))"]
  have "length (concat (map cap_view_bytes (take 2 (drop i (cap_log c))))) \<le> 530"
    using set_take_subset [of 2 "drop i (cap_log c)"] set_drop_subset [of i "cap_log c"] by fastforce
  then show ?thesis by (simp add: cap_dump_payload_def)
qed

section \<open>A dump is not recorded\<close>

lemma cap_record_other_ports:
  assumes "f 12 = 0x08" "f 13 = 0x00" "f 14 = 0x45" "f 23 = 17"
    and "rd16 f 34 \<notin> set cap_ports" "rd16 f 36 \<notin> set cap_ports"
  shows "cap_record 1 f len now c = c"
  using assms by (auto simp: cap_record_def cap_wanted_def cap_is_control_def Let_def)

lemma cap_record_not_ip: "f 13 \<noteq> 0x00 \<Longrightarrow> cap_record dir f len now c = c"
  by (simp add: cap_record_def cap_wanted_def)

lemma udp_headers_fields:
  assumes F: "F = udp_headers dmac dst dport sport tos len s @ r"
  shows "ptr_of F 12 = 0x08 \<and> ptr_of F 13 = 0x00 \<and> ptr_of F 14 = 0x45 \<and> ptr_of F 23 = 17 \<and>
    rd16 (ptr_of F) 34 = sport \<and> rd16 (ptr_of F) 36 = dport"
proof -
  have l: "length (mac_bytes dmac) = 6" "length (mac_bytes (net_mac s)) = 6" by simp_all
  have 1: "rd16 (ptr_of F) 34 = sport"
    using rd16_at [of "eth_header dmac (net_mac s) 0x0800 @ ip_header tos (of_nat (28 + len)) (next_ident tos s)
       (if is_mcast dst then 32 else 64) 17 (g_net_ip s) dst" sport]
    by (simp add: F udp_headers_def udp_header_def)
  have 2: "rd16 (ptr_of F) 36 = dport"
    using rd16_at [of "eth_header dmac (net_mac s) 0x0800 @ ip_header tos (of_nat (28 + len)) (next_ident tos s)
       (if is_mcast dst then 32 else 64) 17 (g_net_ip s) dst @ be16 sport" dport]
    by (simp add: F udp_headers_def udp_header_def)
  show ?thesis
    using 1 2 l
    by (simp add: F udp_headers_def eth_header_def ip_header_def ip_header_with_def ptr_of_def
        nth_append nth_Cons' be16_def)
qed

text \<open>Whatever becomes of it, a datagram between ports outside the filter leaves the ring alone.\<close>

lemma arp_request_cap:
  assumes "tx_ok s" "60 \<le> length (tx_buf s)"
  shows "cap (arp_send 1 ip None s) = cap s"
  using assms
  by (simp add: arp_send_def Let_def eth_send_def)
    (rule cap_record_not_ip, simp add: tx_buf_put nth_put be16_def ptr_of_def)

lemma net_udp_commit_cap:
  assumes "tx_wf s" "len \<le> 1400" "sport \<notin> set cap_ports" "dport \<notin> set cap_ports"
  shows "cap (snd (net_udp_commit dst dport sport len tos s)) = cap s"
proof (cases "net_arp_lookup dst s")
  case (Pair m s')
  show ?thesis
  proof (cases m)
    case None
    have "60 \<le> length (tx_buf s)" using tx_buf_len [OF assms(1)] by simp
    then have "cap s' = cap s"
      using Pair None arp_request_cap [of "bump arp_misses_update s" dst] tx_wf_ok [OF assms(1)]
      by (auto simp: net_arp_lookup_def split: if_splits option.splits)
    then show ?thesis using Pair None assms(2) by (simp add: net_udp_commit_def)
  next
    case (Some dmac)
    with Pair have arp: "net_arp_lookup dst s = (Some dmac, s)"
      using net_arp_lookup_Some [of dst s dmac s'] by simp
    obtain t where t: "net_udp_commit dst dport sport len tos s = (0, bump tx_udp_update (eth_send (14 + 20 + 8 + len) t))"
        "cap t = cap s" "tx_buf t = udp_headers dmac dst dport sport tos len s @ drop 42 (tx_buf s)"
      using udp_commit_state [OF tx_wf_ok [OF assms(1)] assms(2) arp] by blast
    have "cap (eth_send (14 + 20 + 8 + len) t) = cap t"
      using udp_headers_fields [OF t(3)] assms(3,4)
      by (simp add: eth_send_def Let_def cap_record_other_ports)
    with t show ?thesis by simp
  qed
qed

lemma cap_send_pair_keeps:
  assumes "hw_ok s" "i < cap_count (cap s)" "dport \<notin> set cap_ports"
  shows "cap (cap_send_pair dst dport (cap_start (cap s)) (cap_count (cap s)) s i) = cap s \<and>
    hw_ok (cap_send_pair dst dport (cap_start (cap s)) (cap_count (cap s)) s i)"
proof -
  have c: "cap_inv (cap s)" using assms(1) by (simp add: hw_ok_def)
  let ?p = "cap_dump_payload (cap s) i"
  have n: "length ?p \<le> 538" using c by (rule cap_dump_payload_short)
  then have hw: "hw_ok (payload_put 0 ?p s)" using assms(1) by (simp add: hw_ok_payload)
  have "CAP_OUT_PORT \<notin> set cap_ports" by (simp add: CAP_OUT_PORT_def cap_ports_def)
  then have "cap (snd (net_udp_commit dst dport CAP_OUT_PORT (length ?p) 0 (payload_put 0 ?p s))) =
      cap (payload_put 0 ?p s)"
    using hw n assms(3) by (intro net_udp_commit_cap) (simp_all add: hw_ok_def)
  moreover have "cap (payload_put 0 ?p s) = cap s" by (simp add: payload_put_def)
  moreover have "hw_ok (snd (net_udp_commit dst dport CAP_OUT_PORT (length ?p) 0 (payload_put 0 ?p s)))"
    using net_udp_commit_frame hw by blast
  ultimately show ?thesis
    unfolding cap_send_pair_payload [OF c assms(2)] Let_def by simp
qed

lemma cap_send_pairs_keep:
  assumes "hw_ok s" "\<forall>i \<in> set is. i < cap_count c" "dport \<notin> set cap_ports" "cap s = c"
  shows "cap (foldl (cap_send_pair dst dport (cap_start c) (cap_count c)) s is) = c \<and>
    hw_ok (foldl (cap_send_pair dst dport (cap_start c) (cap_count c)) s is)"
  using assms
proof (induction "is" arbitrary: s)
  case (Cons i "is")
  then show ?case
    using cap_send_pair_keeps [of s i dport dst] by simp
qed simp

lemma cap_send_ring_keeps:
  assumes "hw_ok s" "dport \<notin> set cap_ports"
  shows "cap (cap_send_ring dst dport s) = cap s" "hw_ok (cap_send_ring dst dport s)"
  unfolding cap_send_ring_def
  using cap_send_pairs_keep [OF assms(1) _ assms(2) refl, of "filter even [0..<cap_count (cap s)]" dst] by auto

section \<open>A dump shows the whole ring\<close>

text \<open>The frame \<open>F\<close> carries the payload \<open>p\<close> to port \<open>dport\<close>.\<close>

definition carries :: "u16 \<Rightarrow> u8 list \<Rightarrow> u8 list \<Rightarrow> bool" where
  "carries dport F p \<longleftrightarrow> take (length p) (drop 42 F) = p \<and> rd16 (ptr_of F) 36 = dport"

lemma udp_frame_carries:
  "length p \<le> 1400 \<Longrightarrow> carries dport (udp_frame dmac dst dport sport tos p s @ pad) p"
  using udp_frame_fields(9) [OF _ refl, of p dmac dst dport sport tos s pad]
  by (simp add: carries_def udp_frame_def)

lemma cap_send_pair_sends:
  assumes hw: "hw_ok s" and i: "i < cap_count (cap s)" and arp: "net_arp_lookup dst s = (Some dmac, s)"
  shows "\<exists>F. wire (cap_send_pair dst dport (cap_start (cap s)) (cap_count (cap s)) s i) = wire s @ [F] \<and>
    carries dport F (cap_dump_payload (cap s) i)"
proof -
  have c: "cap_inv (cap s)" and wf: "tx_wf s" using hw by (simp_all add: hw_ok_def)
  let ?p = "cap_dump_payload (cap s) i"
  have n: "length ?p \<le> 1400" using cap_dump_payload_short [OF c, of i] by simp
  show ?thesis
    unfolding cap_send_pair_payload [OF c i] Let_def
    using payload_commit_ok [OF wf n arp, of dport CAP_OUT_PORT 0] udp_frame_carries [OF n]
    by fastforce
qed

lemma cap_send_pair_tables: "tables (cap_send_pair dst dport st n s i) = tables s"
  using net_udp_commit_frame by (simp add: cap_send_pair_def Let_def)

lemma cap_send_pairs_send:
  assumes "hw_ok s" "\<forall>i \<in> set is. i < cap_count c" "dport \<notin> set cap_ports" "cap s = c"
    "net_arp_lookup dst s = (Some dmac, s)"
  shows "\<exists>fs. wire (foldl (cap_send_pair dst dport (cap_start c) (cap_count c)) s is) = wire s @ fs \<and>
    list_all2 (carries dport) fs (map (cap_dump_payload c) is)"
  using assms
proof (induction "is" arbitrary: s)
  case (Cons i "is")
  let ?s = "cap_send_pair dst dport (cap_start c) (cap_count c) s i"
  have "cap ?s = c" "hw_ok ?s"
    using Cons.prems cap_send_pair_keeps [of s i dport dst] by auto
  moreover have "net_arp_lookup dst ?s = (Some dmac, ?s)"
    using Cons.prems(5) by (rule arp_lookup_tables)
      (use cap_send_pair_tables [of dst dport "cap_start c" "cap_count c" s i] in \<open>simp add: tables_def\<close>)
  ultimately obtain fs where fs: "wire (foldl (cap_send_pair dst dport (cap_start c) (cap_count c)) ?s is) =
      wire ?s @ fs" "list_all2 (carries dport) fs (map (cap_dump_payload c) is)"
    using Cons.IH [of ?s] Cons.prems by auto
  obtain F where "wire ?s = wire s @ [F]" "carries dport F (cap_dump_payload c i)"
    using Cons.prems cap_send_pair_sends [of s i dst dmac dport] by auto
  with fs show ?case by (intro exI [of _ "F # fs"]) simp
qed simp

lemma cap_send_ring_sends:
  assumes "hw_ok s" "dport \<notin> set cap_ports" "net_arp_lookup dst s = (Some dmac, s)"
  shows "\<exists>fs. wire (cap_send_ring dst dport s) = wire s @ fs \<and> list_all2 (carries dport) fs
    (map (cap_dump_payload (cap s)) (filter even [0..<cap_count (cap s)]))"
  unfolding cap_send_ring_def
  using cap_send_pairs_send [OF assms(1) _ assms(2) refl assms(3), of "filter even [0..<cap_count (cap s)]"]
  by auto

section \<open>The property\<close>

text \<open>
  Asking for the ring sends it whole: one datagram per pair of entries, oldest first,
  each entry with its time, direction, length and captured bytes; and the ring is as it was
  before the request, the dump itself leaving no trace, unless the request asks for a reset.
\<close>

theorem cap_request_dumps_ring:
  assumes "hw_ok s" "net_arp_lookup src s = (Some dmac, s)"
  shows "\<exists>fs. wire (cap_req_rx src payload s) = wire s @ fs \<and>
    list_all2 (carries CAP_OUT_PORT) fs
      (map (cap_dump_payload (cap s)) (filter even [0..<cap_count (cap s)])) \<and>
    cap (cap_req_rx src payload s) =
      (if payload \<noteq> [] \<and> hd payload = 114 then cap_reset (cap s) else cap s)"
proof -
  have "CAP_OUT_PORT \<notin> set cap_ports" by (simp add: CAP_OUT_PORT_def cap_ports_def)
  with cap_send_ring_sends [OF assms(1) _ assms(2)] cap_send_ring_keeps [OF assms(1)]
  show ?thesis by (cases payload) (auto simp: cap_req_rx_def Let_def)
qed

theorem cap_request_dumps_ring_witness:
  "\<exists>fs. wire (cap_req_rx (224, 0, 0, 251) [114]
      ((net_boot (0, 0x1D, 0xC1, 1, 2, 3))\<lparr>cap := cap_push (cap (net_boot (0, 0x1D, 0xC1, 1, 2, 3))) (0, \<lambda>_. 7, 60, 5)\<rparr>)) =
    wire (net_boot (0, 0x1D, 0xC1, 1, 2, 3)) @ fs"
proof -
  let ?b = "net_boot (0, 0x1D, 0xC1, 1, 2, 3)"
  let ?s = "?b\<lparr>cap := cap_push (cap ?b) (0, \<lambda>_. 7, 60, 5)\<rparr>"
  have "hw_ok ?b" using net_boot_inv by (simp add: net_inv_def)
  then have hw: "hw_ok ?s" by (simp add: hw_ok_def cap_push_inv tx_wf_def)
  have arp: "net_arp_lookup (224, 0, 0, 251) ?s = (Some (0x01, 0x00, 0x5E, 0, 0, 251), ?s)"
    by (simp add: net_arp_lookup_def)
  show ?thesis
    using cap_request_dumps_ring [OF hw arp, of "[114]"] by auto
qed

end
