(* ===== verification/Crc32.thy ===== *)
theory Crc32
  imports Prelude
begin

text \<open>
  The bitwise CRC-32 of \<^theory_text>\<open>firmware/loader/loader.c\<close>, which decides whether an image is
  started. Each bit step is linear and invertible, so a corruption confined to four
  consecutive bytes always changes the result.
\<close>

section \<open>The routine\<close>

definition CRC_POLY :: u32 where "CRC_POLY = 0xEDB88320"

text \<open>One turn of the inner loop; the mask is \<^theory_text>\<open>-(int32_t)(crc & 1)\<close>.\<close>

definition crc32_bit :: "u32 \<Rightarrow> u32" where
  "crc32_bit crc = drop_bit 1 crc XOR (CRC_POLY AND (- (crc AND 1)))"

definition crc32_byte :: "u32 \<Rightarrow> u8 \<Rightarrow> u32" where
  "crc32_byte crc b = (crc32_bit ^^ 8) (crc XOR ucast b)"

definition crc32 :: "u8 list \<Rightarrow> u32" where
  "crc32 p = NOT (foldl crc32_byte 0xFFFFFFFF p)"

section \<open>The bit step\<close>

lemma crc32_bit_alt: "crc32_bit c = drop_bit 1 c XOR (if bit c 0 then CRC_POLY else 0)"
proof (cases "bit c 0")
  case True
  then have "c AND 1 = 1" by (simp add: and_one_eq bit_0 odd_iff_mod_2_eq_one)
  then show ?thesis using True by (simp add: crc32_bit_def)
next
  case False
  then have "c AND 1 = 0" by (simp add: and_one_eq bit_0 even_iff_mod_2_eq_zero)
  then show ?thesis using False by (simp add: crc32_bit_def)
qed

lemma crc32_bit_xor: "crc32_bit (x XOR y) = crc32_bit x XOR crc32_bit y"
proof -
  have "drop_bit 1 (x XOR y) = drop_bit 1 x XOR drop_bit 1 y" by simp
  moreover have "bit (x XOR y) 0 \<longleftrightarrow> bit x 0 \<noteq> bit y 0" by (simp only: bit_xor_iff)
  ultimately show ?thesis
    unfolding crc32_bit_alt
    by (cases "bit x 0"; cases "bit y 0") (simp_all add: ac_simps)
qed

lemma crc32_bit_zero [simp]: "crc32_bit 0 = 0"
  by (simp add: crc32_bit_def)

lemma crc32_bit_eq_zero:
  assumes "crc32_bit x = 0"
  shows "x = 0"
proof -
  have "bit (drop_bit 1 x) 31 = False"
    using bit_imp_le_length [of x 32] by (auto simp: bit_drop_bit_eq)
  moreover have "bit CRC_POLY 31" by (simp add: CRC_POLY_def)
  ultimately have "bit x 0 \<Longrightarrow> bit (crc32_bit x) 31"
    by (simp only: crc32_bit_alt bit_xor_iff if_True) simp
  then have b0: "\<not> bit x 0" using assms by auto
  then have "drop_bit 1 x = 0" using assms by (simp add: crc32_bit_alt)
  then have "bit x (Suc i) = False" for i
    using bit_drop_bit_eq [of 1 x] by (metis bit_0_eq bot_apply bot_bool_def comp_apply plus_1_eq_Suc)
  with b0 show ?thesis by (intro bit_eqI) (metis bit_0_eq bot_apply bot_bool_def not0_implies_Suc)
qed

lemma crc32_bits_xor: "(crc32_bit ^^ n) (x XOR y) = (crc32_bit ^^ n) x XOR (crc32_bit ^^ n) y"
  by (induction n) (simp_all add: crc32_bit_xor)

lemma crc32_bits_eq_zero: "(crc32_bit ^^ n) x = 0 \<Longrightarrow> x = 0"
  by (induction n) (auto dest: crc32_bit_eq_zero)

lemma crc32_bits_inject:
  assumes "(crc32_bit ^^ n) x = (crc32_bit ^^ n) y"
  shows "x = y"
proof -
  have "(crc32_bit ^^ n) (x XOR y) = 0" using assms by (simp add: crc32_bits_xor)
  then have "x XOR y = 0" by (rule crc32_bits_eq_zero)
  then show ?thesis by (metis xor.assoc xor.left_neutral xor_self_eq)
qed

text \<open>Low zero bits are shifted out untouched.\<close>

lemma crc32_bit_shift:
  assumes "0 < m" "m \<le> 24"
  shows "crc32_bit (push_bit m (ucast (b :: u8))) = push_bit (m - 1) (ucast b)"
proof -
  have "\<not> bit (push_bit m (ucast b :: u32)) 0"
    using assms by (simp only: bit_push_bit_iff) simp
  moreover have "drop_bit 1 (push_bit m (ucast b :: u32)) = push_bit (m - 1) (ucast b)"
    using assms by (intro bit_word_eqI) (auto simp: bit_simps dest: byte_bit_bound)
  ultimately show ?thesis by (simp add: crc32_bit_alt)
qed

lemma crc32_bits_shift: "n \<le> 24 \<Longrightarrow> (crc32_bit ^^ n) (push_bit n (ucast (b :: u8))) = ucast b"
proof (induction n)
  case (Suc n)
  then have "crc32_bit (push_bit (Suc n) (ucast b)) = push_bit n (ucast b)"
    using crc32_bit_shift [of "Suc n" b] by (simp only: diff_Suc_1)
  then show ?case
    using Suc by (simp only: funpow_Suc_right o_apply)
qed simp

section \<open>Bytes\<close>

lemma xor_right_cancel: "x XOR z = y XOR z \<Longrightarrow> x = (y :: u32)"
  by (metis xor.assoc xor.right_neutral xor_self_eq)

lemma crc32_byte_inject: "crc32_byte c b = crc32_byte d b \<Longrightarrow> c = d"
  unfolding crc32_byte_def by (rule xor_right_cancel, rule crc32_bits_inject)

lemma crc32_bytes_inject: "foldl crc32_byte c bs = foldl crc32_byte d bs \<longleftrightarrow> c = d"
  by (induction bs arbitrary: c d) (auto dest: crc32_byte_inject)

text \<open>Up to four bytes as one little-endian word.\<close>

fun le_word :: "u8 list \<Rightarrow> u32" where
  "le_word [] = 0"
| "le_word (b # bs) = ucast b XOR push_bit 8 (le_word bs)"

lemma le_word_snoc:
  "le_word (bs @ [b]) = le_word bs XOR push_bit (8 * length bs) (ucast b)"
  by (induction bs) (simp_all add: push_bit_xor push_bit_push_bit ac_simps)

lemma crc32_bytes_word:
  "length bs \<le> 4 \<Longrightarrow> foldl crc32_byte c bs = (crc32_bit ^^ (8 * length bs)) (c XOR le_word bs)"
proof (induction bs rule: rev_induct)
  case (snoc b bs)
  let ?n = "8 * length bs" and ?b = "ucast b :: u32"
  have "(crc32_bit ^^ ?n) (push_bit ?n ?b) = ?b"
    using snoc.prems crc32_bits_shift [of ?n b] by simp
  then have "(crc32_bit ^^ ?n) (c XOR le_word bs) XOR ?b = (crc32_bit ^^ ?n) (c XOR le_word (bs @ [b]))"
    by (simp only: crc32_bits_xor le_word_snoc xor.assoc)
  then have "foldl crc32_byte c (bs @ [b]) = (crc32_bit ^^ (8 + ?n)) (c XOR le_word (bs @ [b]))"
    using snoc by (simp add: crc32_byte_def [of "(crc32_bit ^^ (8 * length bs)) (c XOR le_word bs)"] funpow_add)
  then show ?case by simp
qed simp

lemma le_word_bit: "bit (le_word bs) i \<Longrightarrow> i < 8 * length bs"
proof (induction bs arbitrary: i)
  case (Cons b bs)
  then show ?case
    by (cases "i < 8") (auto simp: bit_simps dest!: Cons.IH byte_bit_bound)
qed simp

lemma le_word_inject:
  "length xs = length ys \<Longrightarrow> length xs \<le> 4 \<Longrightarrow> le_word xs = le_word ys \<Longrightarrow> xs = ys"
proof (induction xs arbitrary: ys)
  case (Cons x xs)
  then obtain y ys' where ys: "ys = y # ys'" "length xs = length ys'" by (cases ys) auto
  have eq: "bit (le_word (x # xs)) i = bit (le_word (y # ys')) i" for i
    using Cons.prems(3) ys by simp
  have xy: "x = y"
  proof (rule bit_word_eqI)
    fix i assume "i < LENGTH(8)"
    then show "bit x i = bit y i" using eq [of i] by (simp add: bit_simps)
  qed
  have "le_word xs = le_word ys'"
  proof (rule bit_word_eqI)
    fix i assume i: "i < LENGTH(32)"
    show "bit (le_word xs) i = bit (le_word ys') i"
    proof (cases "i < 24")
      case True
      then show ?thesis using eq [of "i + 8"] by (auto simp: bit_simps xy dest: byte_bit_bound)
    next
      case False
      then show ?thesis using le_word_bit [of xs i] le_word_bit [of ys' i] Cons.prems(2) ys by auto
    qed
  qed
  then show ?case using Cons.IH [of ys'] Cons.prems ys xy by simp
qed simp

section \<open>Detection\<close>

lemma crc32_burst:
  assumes "length xs = length ys" "length xs \<le> 4" "crc32 (pre @ xs @ post) = crc32 (pre @ ys @ post)"
  shows "xs = ys"
proof -
  let ?c = "foldl crc32_byte 0xFFFFFFFF pre"
  have "foldl crc32_byte ?c (xs @ post) = foldl crc32_byte ?c (ys @ post)"
    using assms(3) by (simp add: crc32_def)
  then have "foldl crc32_byte ?c xs = foldl crc32_byte ?c ys"
    by (simp add: crc32_bytes_inject)
  then have "?c XOR le_word xs = ?c XOR le_word ys"
    using assms(1,2) by (auto simp: crc32_bytes_word dest: crc32_bits_inject)
  then have "le_word xs = le_word ys"
    using xor_right_cancel [of "le_word xs" ?c "le_word ys"] by (simp add: xor.commute)
  with assms(1,2) show ?thesis by (intro le_word_inject)
qed

end
