(* ===== verification/Cfgflash.thy ===== *)
theory Cfgflash
  imports Prelude
begin

text \<open>
  The SPI-flash driver \<^theory_text>\<open>firmware/cfgflash.c\<close>. The SPI master and the flash behind it
  are hardware: they are the argument \<open>xfer\<close> of every operation, one transfer of up to 40
  bits each, on a device state of any type. What the driver relies on is the locale
  \<open>flash_device\<close>; \<open>nor_xfer\<close> is a device that satisfies it.
\<close>

section \<open>Transfers\<close>

type_synonym 'd spi = "u64 \<Rightarrow> nat \<Rightarrow> 'd \<Rightarrow> u64 \<times> 'd"

text \<open>
  The words of a transfer: a command byte on top, the 24-bit address below it, a data byte
  at the bottom; the shorter ones leave the rest zero.
\<close>

definition spi_op :: "u64 \<Rightarrow> u64" where
  "spi_op c = push_bit 32 c"

definition spi_op_addr :: "u64 \<Rightarrow> u32 \<Rightarrow> u64" where
  "spi_op_addr c a = push_bit 32 c OR push_bit 8 (ucast a)"

definition spi_op_data :: "u64 \<Rightarrow> u32 \<Rightarrow> u8 \<Rightarrow> u64" where
  "spi_op_data c a b = push_bit 32 c OR push_bit 8 (ucast a) OR ucast b"

definition addr24 :: "u32 \<Rightarrow> u32" where
  "addr24 a = a AND 0xFFFFFF"

fun repeat_xfer :: "nat \<Rightarrow> ('d \<Rightarrow> 'd) \<Rightarrow> 'd \<Rightarrow> 'd" where
  "repeat_xfer 0 f d = d"
| "repeat_xfer (Suc n) f d = repeat_xfer n f (f d)"

section \<open>The driver\<close>

definition cfgflash_warmup :: "'d spi \<Rightarrow> 'd \<Rightarrow> 'd" where
  "cfgflash_warmup xfer d = repeat_xfer 8 (\<lambda>d. snd (xfer 0 32 d)) d"

definition cfgflash_jedec :: "'d spi \<Rightarrow> 'd \<Rightarrow> u32 \<times> 'd" where
  "cfgflash_jedec xfer d = (let (r, d) = xfer (spi_op 0x9F) 32 d in (ucast (r AND 0xFFFFFF), d))"

fun cfgflash_read_from :: "'d spi \<Rightarrow> u32 \<Rightarrow> nat \<Rightarrow> nat \<Rightarrow> 'd \<Rightarrow> u8 list \<times> 'd" where
  "cfgflash_read_from xfer addr i 0 d = ([], d)"
| "cfgflash_read_from xfer addr i (Suc n) d =
    (let a = addr24 (addr + of_nat i);
         (r, d) = xfer (spi_op_addr 0x03 a) 40 d;
         (bs, d) = cfgflash_read_from xfer addr (Suc i) n d in
     (ucast (r AND 0xFF) # bs, d))"

definition cfgflash_read :: "'d spi \<Rightarrow> u32 \<Rightarrow> nat \<Rightarrow> 'd \<Rightarrow> u8 list \<times> 'd" where
  "cfgflash_read xfer addr n d = cfgflash_read_from xfer addr 0 n d"

definition cfgflash_status :: "'d spi \<Rightarrow> 'd \<Rightarrow> u8 \<times> 'd" where
  "cfgflash_status xfer d = (let (r, d) = xfer (spi_op 0x05) 16 d in (ucast (r AND 0xFF), d))"

fun wait_wip :: "'d spi \<Rightarrow> nat \<Rightarrow> 'd \<Rightarrow> 'd" where
  "wait_wip xfer 0 d = d"
| "wait_wip xfer (Suc n) d =
    (let (st, d) = cfgflash_status xfer d in if st AND 0x01 = 0 then d else wait_wip xfer n d)"

definition WIP_POLLS :: nat where "WIP_POLLS = 4000000"

definition cfg_wait_wip :: "'d spi \<Rightarrow> 'd \<Rightarrow> 'd" where
  "cfg_wait_wip xfer d = wait_wip xfer WIP_POLLS d"

definition cfg_write_enable :: "'d spi \<Rightarrow> 'd \<Rightarrow> 'd" where
  "cfg_write_enable xfer d = snd (xfer (spi_op 0x06) 8 d)"

definition cfgflash_unprotect :: "'d spi \<Rightarrow> 'd \<Rightarrow> 'd" where
  "cfgflash_unprotect xfer d =
     cfg_wait_wip xfer (snd (xfer (push_bit 32 0x01 OR push_bit 24 0x00) 16 (cfg_write_enable xfer d)))"

definition cfgflash_erase_4k :: "'d spi \<Rightarrow> u32 \<Rightarrow> 'd \<Rightarrow> 'd" where
  "cfgflash_erase_4k xfer addr d =
     cfg_wait_wip xfer (snd (xfer (spi_op_addr 0x20 (addr24 addr)) 32
       (cfg_write_enable xfer d)))"

fun cfgflash_program_from :: "'d spi \<Rightarrow> u32 \<Rightarrow> nat \<Rightarrow> u8 list \<Rightarrow> 'd \<Rightarrow> 'd" where
  "cfgflash_program_from xfer addr i [] d = d"
| "cfgflash_program_from xfer addr i (b # bs) d =
    (let d = cfg_write_enable xfer d;
         m = spi_op_data 0x02 (addr24 (addr + of_nat i)) b;
         d = snd (xfer m 40 d) in
     cfgflash_program_from xfer addr (Suc i) bs (cfg_wait_wip xfer d))"

definition cfgflash_program :: "'d spi \<Rightarrow> u32 \<Rightarrow> u8 list \<Rightarrow> 'd \<Rightarrow> 'd" where
  "cfgflash_program xfer addr bs d = cfgflash_program_from xfer addr 0 bs d"

section \<open>What it relies on\<close>

text \<open>
  The memory array, the write-enable latch and the number of status reads a write stays in
  progress, as the flash's data sheet has them: READ returns the addressed byte; WREN sets
  the latch; a page program of one byte clears bits only; a sector erase sets its 4096
  bytes to ones; a status read shows the write in progress until it is done.
\<close>

locale flash_device =
  fixes xfer :: "'d spi"
    and mem :: "'d \<Rightarrow> u32 \<Rightarrow> u8"
    and wel :: "'d \<Rightarrow> bool"
    and busy :: "'d \<Rightarrow> nat"
  assumes read_law: "busy d = 0 \<Longrightarrow> addr24 a = a \<Longrightarrow>
      xfer (spi_op_addr 0x03 a) 40 d = (r, d') \<Longrightarrow>
      ucast (r AND 0xFF) = mem d a \<and> mem d' = mem d \<and> busy d' = 0"
    and wren_law: "busy d = 0 \<Longrightarrow> xfer (spi_op 0x06) 8 d = (r, d') \<Longrightarrow>
      mem d' = mem d \<and> wel d' \<and> busy d' = 0"
    and program_law: "busy d = 0 \<Longrightarrow> wel d \<Longrightarrow> addr24 a = a \<Longrightarrow>
      xfer (spi_op_data 0x02 a b) 40 d = (r, d') \<Longrightarrow>
      mem d' = (mem d)(a := mem d a AND b) \<and> busy d' < WIP_POLLS"
    and erase_law: "busy d = 0 \<Longrightarrow> wel d \<Longrightarrow> addr24 a = a \<Longrightarrow>
      xfer (spi_op_addr 0x20 a) 32 d = (r, d') \<Longrightarrow>
      mem d' = (\<lambda>x. if drop_bit 12 x = drop_bit 12 a then 0xFF else mem d x) \<and> busy d' < WIP_POLLS"
    and status_law: "xfer (spi_op 0x05) 16 d = (r, d') \<Longrightarrow>
      (ucast (r AND 0xFF) AND (0x01 :: u8) = 0 \<longleftrightarrow> busy d = 0) \<and> mem d' = mem d \<and> busy d' = busy d - 1"
begin

lemma wait_wip_done: "busy d < n \<Longrightarrow> mem (wait_wip xfer n d) = mem d \<and> busy (wait_wip xfer n d) = 0"
proof (induction n arbitrary: d)
  case (Suc n)
  obtain r d' where x: "xfer (spi_op 0x05) 16 d = (r, d')" by fastforce
  note st = status_law [OF x]
  then show ?case
    using Suc by (auto simp: cfgflash_status_def Let_def x)
qed simp

lemma write_enable: "busy d = 0 \<Longrightarrow> mem (cfg_write_enable xfer d) = mem d \<and>
    wel (cfg_write_enable xfer d) \<and> busy (cfg_write_enable xfer d) = 0"
  using wren_law by (cases "xfer (spi_op 0x06) 8 d") (simp add: cfg_write_enable_def)

lemma erase_4k:
  assumes "busy d = 0" "addr24 a = a"
  shows "mem (cfgflash_erase_4k xfer a d) = (\<lambda>x. if drop_bit 12 x = drop_bit 12 a then 0xFF else mem d x) \<and>
    busy (cfgflash_erase_4k xfer a d) = 0"
proof -
  obtain r d' where x: "xfer (spi_op_addr 0x20 a) 32 (cfg_write_enable xfer d) = (r, d')"
    by fastforce
  show ?thesis
    using write_enable [OF assms(1)] erase_law [OF _ _ assms(2) x] wait_wip_done [of d' WIP_POLLS]
    by (auto simp add: cfgflash_erase_4k_def cfg_wait_wip_def assms(2) x)
qed

lemma program_byte:
  assumes "busy d = 0" "addr24 a = a"
    and "d' = cfg_wait_wip xfer (snd (xfer (spi_op_data 0x02 a b) 40
      (cfg_write_enable xfer d)))"
  shows "mem d' = (mem d)(a := mem d a AND b) \<and> busy d' = 0"
proof -
  obtain r e where x: "xfer (spi_op_data 0x02 a b) 40 (cfg_write_enable xfer d) = (r, e)"
    by fastforce
  show ?thesis
    using write_enable [OF assms(1)] program_law [OF _ _ assms(2) x] wait_wip_done [of e WIP_POLLS] assms(3)
    by (simp add: cfg_wait_wip_def x)
qed

text \<open>Addresses of a run of bytes below the top of the array.\<close>

lemma read_from:
  assumes "busy d = 0" "\<And>k. k < i + n \<Longrightarrow> addr24 (addr + of_nat k) = addr + of_nat k"
  shows "fst (cfgflash_read_from xfer addr i n d) = map (\<lambda>k. mem d (addr + of_nat (i + k))) [0..<n] \<and>
    mem (snd (cfgflash_read_from xfer addr i n d)) = mem d \<and>
    busy (snd (cfgflash_read_from xfer addr i n d)) = 0"
  using assms
proof (induction n arbitrary: i d)
  case (Suc n)
  let ?a = "addr + of_nat i"
  have a: "addr24 ?a = ?a" using Suc.prems(2) [of i] by simp
  obtain r d' where x: "xfer (spi_op_addr 0x03 ?a) 40 d = (r, d')" by fastforce
  note rd = read_law [OF Suc.prems(1) a x]
  have "map (\<lambda>k. mem d (addr + of_nat (i + k))) [0..<Suc n] =
      mem d ?a # map (\<lambda>k. mem d (addr + of_nat (Suc i + k))) [0..<n]"
    by (simp add: upt_conv_Cons map_Suc_upt [symmetric] o_def ac_simps del: upt_Suc)
  then show ?case
    using Suc.IH [of d' "Suc i"] Suc.prems rd
    by (simp add: Let_def a x split_beta del: of_nat_Suc of_nat_add)
qed simp

lemma program_from:
  assumes "busy d = 0" "\<And>k. k < i + length bs \<Longrightarrow> addr24 (addr + of_nat k) = addr + of_nat k"
    and "i + length bs \<le> 4096"
  shows "busy (cfgflash_program_from xfer addr i bs d) = 0 \<and>
    (\<forall>j < i + length bs. mem (cfgflash_program_from xfer addr i bs d) (addr + of_nat j) =
      (if j < i then mem d (addr + of_nat j) else mem d (addr + of_nat j) AND bs ! (j - i)))"
  using assms
proof (induction bs arbitrary: i d)
  case (Cons b bs)
  let ?a = "addr + of_nat i"
  have a: "addr24 ?a = ?a" using Cons.prems(2) [of i] by simp
  define d' where "d' = cfg_wait_wip xfer (snd (xfer (spi_op_data 0x02 ?a b) 40 (cfg_write_enable xfer d)))"
  have d': "mem d' = (mem d)(?a := mem d ?a AND b)" "busy d' = 0"
    using program_byte [OF Cons.prems(1) a d'_def] by auto
  have inj: "addr + of_nat j = ?a \<longleftrightarrow> j = i" if "j < i + length (b # bs)" for j
  proof -
    have "unat (of_nat j :: u32) = j" "unat (of_nat i :: u32) = i"
      using that Cons.prems(3) by (simp_all add: unat_of_nat)
    then show ?thesis by (metis add_left_cancel)
  qed
  have eq: "cfgflash_program_from xfer addr i (b # bs) d = cfgflash_program_from xfer addr (Suc i) bs d'"
    by (simp only: cfgflash_program_from.simps Let_def a d'_def)
  have IH: "busy (cfgflash_program_from xfer addr (Suc i) bs d') = 0 \<and>
    (\<forall>j < Suc i + length bs. mem (cfgflash_program_from xfer addr (Suc i) bs d') (addr + of_nat j) =
      (if j < Suc i then mem d' (addr + of_nat j) else mem d' (addr + of_nat j) AND bs ! (j - Suc i)))"
    by (rule Cons.IH) (use d' Cons.prems in auto)
  show ?case
    unfolding eq
  proof (intro conjI allI impI)
    show "busy (cfgflash_program_from xfer addr (Suc i) bs d') = 0" using IH by blast
  next
    fix j assume j: "j < i + length (b # bs)"
    have m: "mem d' (addr + of_nat j) = (if j = i then mem d ?a AND b else mem d (addr + of_nat j))"
      using inj [OF j] d'(1) by auto
    consider "j < i" | "j = i" | "i < j" by linarith
    then show "mem (cfgflash_program_from xfer addr (Suc i) bs d') (addr + of_nat j) =
      (if j < i then mem d (addr + of_nat j) else mem d (addr + of_nat j) AND (b # bs) ! (j - i))"
      using IH j m by cases (auto simp: nth_Cons')
  qed
qed simp

text \<open>Erasing a sector and programming a run of bytes inside it reads back as those bytes.\<close>

lemma erase_program_read:
  assumes "busy d = 0" "length bs \<le> 4096"
    and a: "\<And>k. k < length bs \<Longrightarrow> addr24 (addr + of_nat k) = addr + of_nat k \<and>
      drop_bit 12 (addr + of_nat k) = drop_bit 12 addr" and "addr24 addr = addr"
    and d': "d' = cfgflash_program xfer addr bs (cfgflash_erase_4k xfer addr d)"
  shows "busy d' = 0 \<and> fst (cfgflash_read xfer addr (length bs) d') = bs"
proof -
  let ?e = "cfgflash_erase_4k xfer addr d"
  have e: "mem ?e = (\<lambda>x. if drop_bit 12 x = drop_bit 12 addr then 0xFF else mem d x)" "busy ?e = 0"
    using erase_4k [OF assms(1,4)] by auto
  have p: "busy d' = 0 \<and> (\<forall>j < length bs. mem d' (addr + of_nat j) = mem ?e (addr + of_nat j) AND bs ! j)"
    using program_from [of ?e 0 bs addr] e(2) a assms(2) by (simp add: d' cfgflash_program_def)
  have m: "mem d' (addr + of_nat j) = bs ! j" if "j < length bs" for j
  proof -
    have "(0xFF :: u8) = - 1" by simp
    then have "0xFF AND bs ! j = bs ! j" by (simp only: and.left_neutral)
    then show ?thesis using p that a [OF that] by (simp add: e(1))
  qed
  have "fst (cfgflash_read xfer addr (length bs) d') = map (\<lambda>k. mem d' (addr + of_nat k)) [0..<length bs]"
    using read_from [of d' 0 "length bs" addr] p a by (simp add: cfgflash_read_def)
  also have "\<dots> = bs" using m by (intro nth_equalityI) auto
  finally show ?thesis using p by simp
qed

end

section \<open>A device\<close>

text \<open>A NOR flash as the data sheet describes it: each write is busy for two status reads.\<close>

record nor =
  nor_mem :: "u32 \<Rightarrow> u8"
  nor_wel :: bool
  nor_busy :: nat

definition nor_xfer :: "nor spi" where
  "nor_xfer mosi bits d =
    (let op = drop_bit 32 mosi; a = ucast (drop_bit 8 mosi) AND 0xFFFFFF; b = ucast mosi :: u8 in
     if op = 0x05 then (if nor_busy d = 0 then 0 else 1, d\<lparr>nor_busy := nor_busy d - 1\<rparr>)
     else if nor_busy d \<noteq> 0 then (0, d)
     else if op = 0x03 then (ucast (nor_mem d a), d)
     else if op = 0x06 then (0, d\<lparr>nor_wel := True\<rparr>)
     else if op = 0x02 \<and> nor_wel d
       then (0, d\<lparr>nor_mem := (nor_mem d)(a := nor_mem d a AND b), nor_wel := False, nor_busy := 2\<rparr>)
     else if op = 0x20 \<and> nor_wel d
       then (0, d\<lparr>nor_mem := (\<lambda>x. if drop_bit 12 x = drop_bit 12 a then 0xFF else nor_mem d x),
                  nor_wel := False, nor_busy := 2\<rparr>)
     else (0, d))"

lemma spi_op_field: "drop_bit 32 (spi_op c) = (c AND 0xFFFFFFFF)"
proof -
  have m: "(0xFFFFFFFF :: u64) = mask 32" by (simp add: mask_eq_exp_minus_1)
  show ?thesis unfolding m by (rule bit_word_eqI) (auto simp: spi_op_def bit_simps)
qed

lemma spi_fields:
  assumes "addr24 a = a"
  shows "drop_bit 32 (spi_op_addr c a) = (c AND 0xFFFFFFFF)"
    and "drop_bit 32 (spi_op_data c a b) = (c AND 0xFFFFFFFF)"
    and "ucast (drop_bit 8 (spi_op_addr c a)) AND 0xFFFFFF = a"
    and "ucast (drop_bit 8 (spi_op_data c a b)) AND 0xFFFFFF = a"
    and "ucast (spi_op_data c a b) = b"
proof -
  have m: "(0xFFFFFFFF :: u64) = mask 32" "(0xFFFFFF :: u32) = mask 24"
    by (simp_all add: mask_eq_exp_minus_1)
  have ab: "bit a i \<Longrightarrow> i < 24" for i
    using assms by (metis addr24_def m(2) bit_and_iff bit_mask_iff)
  have bb: "bit b i \<Longrightarrow> i < 8" for i by (rule byte_bit_bound)
  show "drop_bit 32 (spi_op_addr c a) = (c AND 0xFFFFFFFF)"
    unfolding m by (rule bit_word_eqI) (auto simp: spi_op_addr_def bit_simps dest: ab)
  show "drop_bit 32 (spi_op_data c a b) = (c AND 0xFFFFFFFF)"
    unfolding m by (rule bit_word_eqI) (auto simp: spi_op_data_def bit_simps dest: ab bb)
  show "ucast (drop_bit 8 (spi_op_addr c a)) AND 0xFFFFFF = a"
    unfolding m by (rule bit_word_eqI) (auto simp: spi_op_addr_def bit_simps dest: ab)
  show "ucast (drop_bit 8 (spi_op_data c a b)) AND 0xFFFFFF = a"
    unfolding m by (rule bit_word_eqI) (auto simp: spi_op_data_def bit_simps dest: ab bb)
  show "ucast (spi_op_data c a b) = b"
    by (rule bit_word_eqI) (auto simp: spi_op_data_def bit_simps)
qed

lemma byte_low: "ucast (ucast (b :: u8) AND (0xFF :: u64)) = b"
proof -
  have m: "(0xFF :: u64) = mask 8" by (simp add: mask_eq_exp_minus_1)
  show ?thesis unfolding m by (rule bit_word_eqI) (auto simp: bit_simps)
qed

interpretation nor: flash_device nor_xfer nor_mem nor_wel nor_busy
proof unfold_locales
qed (auto simp: nor_xfer_def Let_def spi_fields spi_op_field byte_low WIP_POLLS_def split: if_splits)

end
