(* ===== verification/Loader.thy ===== *)
theory Loader
  imports Crc32 Cfgflash
begin

text \<open>
  The boot loader \<^theory_text>\<open>firmware/loader/loader.c\<close>: the network load state machine, the flash
  path and \<^theory_text>\<open>main\<close>. \<open>CODERAM_SIZE\<close> comes from the generated memory map: it is the
  length of the list \<open>ld_ram\<close>. A poll of the receiver yields nothing or a frame; the loop of
  \<^theory_text>\<open>netload\<close> runs over the list of polls and answers \<open>None\<close> while it is still waiting.
\<close>

section \<open>State and replies\<close>

definition IMG_MAGIC :: u32 where "IMG_MAGIC = 0x494E464E"
definition FLASH_IMAGE_ADDR :: u32 where "FLASH_IMAGE_ADDR = 0x00300000"
definition OP_START :: u8 where "OP_START = 1"
definition OP_DATA :: u8 where "OP_DATA = 2"
definition OP_EXEC :: u8 where "OP_EXEC = 3"
definition OP_ACK :: u8 where "OP_ACK = 0x80"
definition OP_NAK :: u8 where "OP_NAK = 0x81"
definition NL_HDR_LEN :: nat where "NL_HDR_LEN = 28"
definition NL_ETHERTYPE :: u16 where "NL_ETHERTYPE = 0x88B5"
definition NL_MAX_PAYLOAD :: u32 where "NL_MAX_PAYLOAD = 1024"
definition NETLOAD_WINDOW_SPINS :: u32 where "NETLOAD_WINDOW_SPINS = 4000000"

lemmas op_defs = OP_START_def OP_DATA_def OP_EXEC_def OP_ACK_def OP_NAK_def

record ldr =
  ld_ram :: "u8 list"
  img_len :: u32
  img_crc :: u32
  next_off :: u32
  started :: bool
  spins :: u32
  ld_wire :: "u8 list list"

definition our_mac :: mac6 where "our_mac = (0x02, 0x00, 0x00, 0x00, 0x00, 0x42)"

text \<open>\<^theory_text>\<open>nl_reply\<close>: the sixty zeroed bytes, filled in and sent.\<close>

definition nl_reply :: "ptr \<Rightarrow> u8 \<Rightarrow> u32 \<Rightarrow> ldr \<Rightarrow> ldr" where
  "nl_reply req op noff s =
    (let tx = replicate 60 0;
         tx = put 0 (mac_bytes (mac_at req 6)) tx;
         tx = put 6 (mac_bytes our_mac) tx;
         tx = put 12 (be16 NL_ETHERTYPE) tx;
         tx = put 14 (be32 IMG_MAGIC) tx;
         tx = put 18 [op, 0] tx;
         tx = put 20 (be32 noff) tx;
         tx = put 24 (be32 0) tx in
     s\<lparr>ld_wire := ld_wire s @ [tx]\<rparr>)"

section \<open>The operations\<close>

definition nl_start :: "ptr \<Rightarrow> u32 \<Rightarrow> u32 \<Rightarrow> ldr \<Rightarrow> ldr" where
  "nl_start f arg0 arg1 s =
    (if arg0 = 0 \<or> unat arg0 > length (ld_ram s) then nl_reply f OP_NAK 0 s
     else nl_reply f OP_ACK 0 (s\<lparr>img_len := arg0, img_crc := arg1, next_off := 0, started := True\<rparr>))"

definition nl_plen :: "u32 \<Rightarrow> nat \<Rightarrow> u32" where
  "nl_plen arg1 len =
    (let avail = of_nat (len - NL_HDR_LEN);
         plen = arg1;
         plen = (if plen > NL_MAX_PAYLOAD then NL_MAX_PAYLOAD else plen) in
     if plen > avail then avail else plen)"

definition nl_data :: "ptr \<Rightarrow> nat \<Rightarrow> u32 \<Rightarrow> u32 \<Rightarrow> ldr \<Rightarrow> ldr" where
  "nl_data f len arg0 arg1 s =
    (let plen = nl_plen arg1 len;
         s = (if plen \<noteq> 0 \<and> arg0 = next_off s \<and> arg0 + plen \<le> img_len s
              then s\<lparr>ld_ram := put (unat arg0) (bytes_at f NL_HDR_LEN (unat plen)) (ld_ram s),
                     next_off := arg0 + plen\<rparr>
              else s) in
     nl_reply f OP_ACK (next_off s) s)"

definition nl_exec :: "ptr \<Rightarrow> ldr \<Rightarrow> int option \<times> ldr" where
  "nl_exec f s =
    (if next_off s \<noteq> img_len s then (None, nl_reply f OP_NAK (next_off s) s)
     else if crc32 (take (unat (img_len s)) (ld_ram s)) \<noteq> img_crc s
     then (None, (nl_reply f OP_NAK (next_off s) s)\<lparr>started := False\<rparr>)
     else (Some 1, nl_reply f OP_ACK (img_len s) s))"

definition netload_frame :: "ptr \<Rightarrow> nat \<Rightarrow> ldr \<Rightarrow> int option \<times> ldr" where
  "netload_frame f len s =
    (if len \<ge> NL_HDR_LEN \<and> rd16 f 12 = NL_ETHERTYPE \<and> rd32 f 14 = IMG_MAGIC then
       (let op = f 18; arg0 = rd32 f 20; arg1 = rd32 f 24 in
        if op = OP_START then (None, nl_start f arg0 arg1 s)
        else if op = OP_DATA \<and> started s then (None, nl_data f len arg0 arg1 s)
        else if op = OP_EXEC \<and> started s then nl_exec f s
        else (None, s))
     else (None, s))"

definition nl_tick :: "ldr \<Rightarrow> ldr" where
  "nl_tick s = (if \<not> started s then s\<lparr>spins := spins s + 1\<rparr> else s)"

fun netload :: "(ptr \<times> nat) option list \<Rightarrow> ldr \<Rightarrow> int option \<times> ldr" where
  "netload [] s = (None, s)"
| "netload (e # es) s =
    (let s = nl_tick s in
     if \<not> started s \<and> spins s > NETLOAD_WINDOW_SPINS then (Some 0, s)
     else case e of
       None \<Rightarrow> netload es s
     | Some (f, len) \<Rightarrow>
        (case netload_frame f len s of
           (Some r, s) \<Rightarrow> (Some r, s)
         | (None, s) \<Rightarrow> netload es s))"

definition ldr_boot :: "u8 list \<Rightarrow> ldr" where
  "ldr_boot ram = \<lparr>ld_ram = ram, img_len = 0, img_crc = 0, next_off = 0, started = False,
     spins = 0, ld_wire = []\<rparr>"

definition flashload :: "'d spi \<Rightarrow> 'd \<Rightarrow> ldr \<Rightarrow> int \<times> 'd \<times> ldr" where
  "flashload xfer d s =
    (let d = cfgflash_warmup xfer d;
         (hdr, d) = cfgflash_read xfer FLASH_IMAGE_ADDR 12 d in
     if rd32 (ptr_of hdr) 0 \<noteq> IMG_MAGIC then (0, d, s)
     else let len = rd32 (ptr_of hdr) 4; crc = rd32 (ptr_of hdr) 8 in
     if len = 0 \<or> unat len > length (ld_ram s) then (0, d, s)
     else let (img, d) = cfgflash_read xfer (FLASH_IMAGE_ADDR + 12) (unat len) d;
              s = s\<lparr>ld_ram := put 0 img (ld_ram s)\<rparr> in
     if crc32 (take (unat len) (ld_ram s)) \<noteq> crc then (0, d, s) else (1, d, s))"

text \<open>How \<^theory_text>\<open>main\<close> ends: jumping to the image in RAM, halting, or still polling.\<close>

datatype ldr_outcome = Jump "u8 list" | Halt | Waiting

definition ldr_main :: "'d spi \<Rightarrow> 'd \<Rightarrow> (ptr \<times> nat) option list \<Rightarrow> u8 list \<Rightarrow> ldr_outcome" where
  "ldr_main xfer d polls ram =
    (case netload polls (ldr_boot ram) of
       (None, s) \<Rightarrow> Waiting
     | (Some ok, s) \<Rightarrow>
        (if ok \<noteq> 0 then Jump (ld_ram s)
         else case flashload xfer d s of
           (ok, d, s) \<Rightarrow> if ok \<noteq> 0 then Jump (ld_ram s) else Halt))"

section \<open>The console\<close>

text \<open>\<^theory_text>\<open>uputhex\<close> and \<^theory_text>\<open>uputdec\<close>: the characters they put out.\<close>

definition uputhex :: "u32 \<Rightarrow> string" where
  "uputhex v = ''0x'' @ map (\<lambda>i. ''0123456789abcdef'' ! unat (drop_bit i v AND 0xF))
     [28, 24, 20, 16, 12, 8, 4, 0]"

fun dec_rev :: "nat \<Rightarrow> nat \<Rightarrow> nat list" where
  "dec_rev 0 v = []"
| "dec_rev (Suc k) v = (if v = 0 then [] else v mod 10 # dec_rev k (v div 10))"

definition uputdec :: "u32 \<Rightarrow> nat list" where
  "uputdec v = (if v = 0 then [0] else rev (dec_rev 10 (unat v)))"

section \<open>Invariant\<close>

definition ld_inv :: "ldr \<Rightarrow> bool" where
  "ld_inv s \<longleftrightarrow> unat (next_off s) \<le> unat (img_len s) \<and> unat (img_len s) \<le> length (ld_ram s) \<and>
     (started s \<longrightarrow> 0 < unat (img_len s))"

lemma nl_reply_fields [simp]:
  "ld_ram (nl_reply f op n s) = ld_ram s" "img_len (nl_reply f op n s) = img_len s"
  "img_crc (nl_reply f op n s) = img_crc s" "next_off (nl_reply f op n s) = next_off s"
  "started (nl_reply f op n s) = started s" "spins (nl_reply f op n s) = spins s"
  by (simp_all add: nl_reply_def Let_def)

lemma ld_inv_simps [simp]:
  "ld_inv (nl_reply f op n s) = ld_inv s" "ld_inv (s\<lparr>spins := k\<rparr>) = ld_inv s"
  by (simp_all add: ld_inv_def)

lemma nl_plen_bounds:
  assumes "len < 2 ^ 32"
  shows "unat (nl_plen a len) \<le> 1024" "unat (nl_plen a len) \<le> len - 28" "unat (nl_plen a len) \<le> unat a"
proof -
  have "unat (of_nat (len - 28) :: u32) = len - 28"
    using assms by (simp add: unat_of_nat)
  then show "unat (nl_plen a len) \<le> 1024" "unat (nl_plen a len) \<le> len - 28" "unat (nl_plen a len) \<le> unat a"
    by (auto simp: nl_plen_def Let_def NL_HDR_LEN_def NL_MAX_PAYLOAD_def not_less word_less_nat_alt
        word_le_nat_alt)
qed

text \<open>An accepted chunk lies inside the image: the 32-bit end offset did not wrap.\<close>

lemma nl_accept:
  assumes "ld_inv s" "len < 2 ^ 32" "arg0 = next_off s" "arg0 + nl_plen arg1 len \<le> img_len s"
    and "length (ld_ram s) \<le> 2 ^ 31"
  shows "unat (arg0 + nl_plen arg1 len) = unat arg0 + unat (nl_plen arg1 len)"
    and "unat arg0 + unat (nl_plen arg1 len) \<le> unat (img_len s)"
proof -
  have "unat arg0 + unat (nl_plen arg1 len) < 2 ^ 32"
    using assms nl_plen_bounds(1) [OF assms(2), of arg1] by (simp add: ld_inv_def)
  then show e: "unat (arg0 + nl_plen arg1 len) = unat arg0 + unat (nl_plen arg1 len)"
    by (simp add: unat_word_ariths)
  show "unat arg0 + unat (nl_plen arg1 len) \<le> unat (img_len s)"
    using assms(4) e by (simp add: word_le_nat_alt)
qed

lemma nl_start_inv: "ld_inv s \<Longrightarrow> ld_inv (nl_start f a b s) \<and> length (ld_ram (nl_start f a b s)) = length (ld_ram s)"
  by (auto simp: ld_inv_def nl_start_def unat_gt_0 not_less)

lemma nl_data_inv:
  assumes "ld_inv s" "len < 2 ^ 32" "length (ld_ram s) \<le> 2 ^ 31"
  shows "ld_inv (nl_data f len a b s) \<and> length (ld_ram (nl_data f len a b s)) = length (ld_ram s)"
proof (cases "nl_plen b len \<noteq> 0 \<and> a = next_off s \<and> a + nl_plen b len \<le> img_len s")
  case True
  then show ?thesis
    using nl_accept [OF assms(1,2) _ _ assms(3), of a b] assms
    by (auto simp: nl_data_def Let_def ld_inv_def)
qed (use assms in \<open>auto simp: nl_data_def Let_def\<close>)

lemma netload_frame_inv:
  assumes "ld_inv s" "len < 2 ^ 32" "length (ld_ram s) \<le> 2 ^ 31"
  shows "ld_inv (snd (netload_frame f len s)) \<and>
    length (ld_ram (snd (netload_frame f len s))) = length (ld_ram s)"
  using nl_start_inv [OF assms(1)] nl_data_inv [OF assms] assms(1)
  by (auto simp: netload_frame_def Let_def nl_exec_def) (auto simp: ld_inv_def)

section \<open>Safety\<close>

definition polls_ok :: "(ptr \<times> nat) option list \<Rightarrow> bool" where
  "polls_ok es \<longleftrightarrow> (\<forall>e \<in> set es. case e of None \<Rightarrow> True | Some (f, len) \<Rightarrow> len < 2 ^ 32)"

text \<open>
  The general rule for the loop: a predicate every frame and the spin counter keep holds
  of the state it stops in.
\<close>

lemma netload_expired:
  "\<not> started (nl_tick s) \<and> spins (nl_tick s) > NETLOAD_WINDOW_SPINS \<Longrightarrow>
   netload (e # es) s = (Some 0, nl_tick s)"
  by (simp add: Let_def)

lemma netload_go:
  "\<not> (\<not> started (nl_tick s) \<and> spins (nl_tick s) > NETLOAD_WINDOW_SPINS) \<Longrightarrow>
   netload (e # es) s = (case e of None \<Rightarrow> netload es (nl_tick s)
     | Some (f, len) \<Rightarrow> (case netload_frame f len (nl_tick s) of
         (Some r, s) \<Rightarrow> (Some r, s) | (None, s) \<Rightarrow> netload es s))"
  by (simp only: netload.simps Let_def if_False)

lemma netload_rule:
  assumes "Q s"
    and "\<And>s k. Q s \<Longrightarrow> Q (s\<lparr>spins := k\<rparr>)"
    and "\<And>s f len. Q s \<Longrightarrow> Some (f, len) \<in> set es \<Longrightarrow> Q (snd (netload_frame f len s))"
  shows "Q (snd (netload es s))"
  using assms(1,3)
proof (induction es arbitrary: s)
  case (Cons e es)
  have q: "Q (nl_tick s)" using Cons.prems(1) assms(2) by (simp add: nl_tick_def)
  have IH: "Q t \<Longrightarrow> Q (snd (netload es t))" for t
    using Cons.IH Cons.prems(2) by simp
  show ?case
  proof (cases "\<not> started (nl_tick s) \<and> spins (nl_tick s) > NETLOAD_WINDOW_SPINS")
    case True
    then show ?thesis using q by (simp only: netload_expired [OF True] snd_conv)
  next
    case False
    show ?thesis
    proof (cases e)
      case None
      then show ?thesis using IH [OF q] by (simp only: netload_go [OF False] option.case)
    next
      case (Some p)
      then obtain f len where e: "e = Some (f, len)" by (cases p) auto
      have "Q (snd (netload_frame f len (nl_tick s)))" using q Cons.prems(2) e by simp
      then show ?thesis
        using IH e by (simp only: netload_go [OF False] option.case prod.case) (auto split: prod.split option.split)
    qed
  qed
qed simp

lemma netload_inv:
  assumes "ld_inv s" "polls_ok es" "length (ld_ram s) = n" "n \<le> 2 ^ 31"
  shows "ld_inv (snd (netload es s)) \<and> length (ld_ram (snd (netload es s))) = n"
proof -
  let ?Q = "\<lambda>s. ld_inv s \<and> length (ld_ram s) = n"
  have "?Q (snd (netload es s))"
  proof (rule netload_rule)
    fix s f len assume q: "?Q s" and "Some (f, len) \<in> set es"
    then have "len < 2 ^ 32" using assms(2) by (force simp: polls_ok_def)
    then show "?Q (snd (netload_frame f len s))"
      using netload_frame_inv [of s len f] q assms(4) by auto
  qed (use assms in auto)
  then show ?thesis .
qed

text \<open>What a return of 1 says of the state it returns in.\<close>

lemma nl_exec_result:
  "nl_exec f s = (Some r, s') \<Longrightarrow> r = 1 \<and> next_off s' = img_len s' \<and>
     crc32 (take (unat (img_len s')) (ld_ram s')) = img_crc s' \<and>
     started s' = started s \<and> ld_ram s' = ld_ram s \<and> img_len s' = img_len s"
  by (auto simp: nl_exec_def split: if_splits)

lemma netload_frame_result:
  "netload_frame f len s = (Some r, s') \<Longrightarrow> r = 1 \<and> next_off s' = img_len s' \<and>
     crc32 (take (unat (img_len s')) (ld_ram s')) = img_crc s' \<and> started s'"
  by (auto simp: netload_frame_def Let_def dest!: nl_exec_result split: if_splits)

lemma netload_result:
  "netload es s = (Some r, s') \<Longrightarrow> r = 0 \<or> (r = 1 \<and> next_off s' = img_len s' \<and>
     crc32 (take (unat (img_len s')) (ld_ram s')) = img_crc s' \<and> started s')"
proof (induction es arbitrary: s)
  case (Cons e es)
  show ?case
  proof (cases "\<not> started (nl_tick s) \<and> spins (nl_tick s) > NETLOAD_WINDOW_SPINS")
    case True
    then show ?thesis using Cons.prems by (simp only: netload_expired [OF True]) simp
  next
    case False
    note step = Cons.prems [unfolded netload_go [OF False]]
    show ?thesis
    proof (cases e)
      case None
      then show ?thesis using step Cons.IH by simp
    next
      case (Some p)
      then obtain f len where e: "e = Some (f, len)" by (cases p) auto
      obtain ro t where fr: "netload_frame f len (nl_tick s) = (ro, t)" by fastforce
      then show ?thesis
        using step Cons.IH [of t] netload_frame_result [of f len "nl_tick s" _ t] e by (cases ro) auto
    qed
  qed
qed simp

section \<open>An honest host\<close>

text \<open>
  Every frame the host sends belongs to one image: a START announces its length and CRC,
  and the bytes of a DATA frame are the image's at that offset.
\<close>

definition honest :: "u8 list \<Rightarrow> ptr \<times> nat \<Rightarrow> bool" where
  "honest img e = (case e of (f, len) \<Rightarrow> len < 2 ^ 32 \<and>
     (f 18 = OP_START \<longrightarrow> unat (rd32 f 20) = length img \<and> rd32 f 24 = crc32 img) \<and>
     (f 18 = OP_DATA \<longrightarrow> (let off = unat (rd32 f 20); n = unat (nl_plen (rd32 f 24) len) in
        off + n \<le> length img \<longrightarrow> bytes_at f NL_HDR_LEN n = take n (drop off img))))"

definition holds_part :: "u8 list \<Rightarrow> ldr \<Rightarrow> bool" where
  "holds_part img s \<longleftrightarrow> ld_inv s \<and> length (ld_ram s) \<le> 2 ^ 31 \<and> (started s \<longrightarrow>
     unat (img_len s) = length img \<and> img_crc s = crc32 img \<and>
     take (unat (next_off s)) (ld_ram s) = take (unat (next_off s)) img)"

lemma holds_part_simps [simp]:
  "holds_part img (nl_reply f op n s) = holds_part img s"
  "holds_part img (s\<lparr>spins := k\<rparr>) = holds_part img s"
  by (simp_all add: holds_part_def)

lemma nl_start_part:
  assumes "holds_part img s" "unat a = length img" "b = crc32 img"
  shows "holds_part img (nl_start f a b s)"
  using assms nl_start_inv [of s f a b]
  by (auto simp: holds_part_def nl_start_def)

lemma nl_data_part:
  assumes h: "holds_part img s" and st: "started s" and len: "len < 2 ^ 32"
    and d: "unat a + unat (nl_plen b len) \<le> length img \<longrightarrow>
      bytes_at f NL_HDR_LEN (unat (nl_plen b len)) = take (unat (nl_plen b len)) (drop (unat a) img)"
  shows "holds_part img (nl_data f len a b s)"
proof (cases "nl_plen b len \<noteq> 0 \<and> a = next_off s \<and> a + nl_plen b len \<le> img_len s")
  case True
  let ?n = "unat (nl_plen b len)"
  have inv: "ld_inv s" and sz: "length (ld_ram s) \<le> 2 ^ 31" and L: "unat (img_len s) = length img"
    and crc: "img_crc s = crc32 img" and p: "take (unat a) (ld_ram s) = take (unat a) img"
    using h st True by (auto simp: holds_part_def)
  have e: "unat (a + nl_plen b len) = unat a + ?n" and le: "unat a + ?n \<le> length img"
    using nl_accept [OF inv len _ _ sz, of a b] True L by auto
  have "bytes_at f NL_HDR_LEN ?n = take ?n (drop (unat a) img)" using d le by blast
  then have bytes: "take (unat a + ?n) (put (unat a) (bytes_at f NL_HDR_LEN ?n) (ld_ram s)) =
      take (unat a + ?n) img"
    using p le inv L by (auto simp: put_def ld_inv_def take_add min_def)
  show ?thesis
    using True nl_data_inv [OF inv len sz, of f a b] bytes e L crc st sz
    by (auto simp: holds_part_def nl_data_def Let_def)
next
  case False
  then show ?thesis using h by (auto simp: nl_data_def Let_def)
qed

lemma netload_frame_part:
  assumes "holds_part img s" "honest img (f, len)"
  shows "holds_part img (snd (netload_frame f len s))"
proof -
  have "holds_part img (snd (nl_exec f s))"
    using assms(1) by (auto simp: nl_exec_def) (auto simp: holds_part_def ld_inv_def)
  then show ?thesis
    using assms nl_start_part [of img s "rd32 f 20" "rd32 f 24" f]
      nl_data_part [of img s len "rd32 f 20" "rd32 f 24" f]
    by (auto simp: netload_frame_def Let_def honest_def)
qed

section \<open>A complete transfer\<close>

text \<open>The frames of \<^theory_text>\<open>tools/netload.py\<close>: padded to the Ethernet minimum.\<close>

definition nl_req :: "u8 \<Rightarrow> u32 \<Rightarrow> u32 \<Rightarrow> u8 list \<Rightarrow> u8 list" where
  "nl_req op a0 a1 payload = replicate 6 0xFF @ [2, 0, 0, 0, 0, 1] @ be16 NL_ETHERTYPE @ be32 IMG_MAGIC @
     [op, 0] @ be32 a0 @ be32 a1 @ payload @ replicate (32 - length payload) 0"

definition nl_poll :: "u8 list \<Rightarrow> (ptr \<times> nat) option" where
  "nl_poll F = Some (ptr_of F, length F)"

function host_chunks :: "nat \<Rightarrow> nat \<Rightarrow> u8 list \<Rightarrow> u8 list list" where
  "host_chunks n off bs = (if bs = [] \<or> n = 0 then []
     else nl_req OP_DATA (of_nat off) (of_nat (length (take n bs))) (take n bs) #
       host_chunks n (off + n) (drop n bs))"
  by pat_completeness auto
termination
  by (relation "measure (\<lambda>(n, off, bs). length bs)") auto

declare host_chunks.simps [simp del]

definition host_session :: "nat \<Rightarrow> u8 list \<Rightarrow> u8 list list" where
  "host_session n img = nl_req OP_START (of_nat (length img)) (crc32 img) [] #
     host_chunks n 0 img @ [nl_req OP_EXEC 0 0 []]"

lemma nl_req_fields:
  "rd16 (ptr_of (nl_req op a0 a1 pl)) 12 = NL_ETHERTYPE" "rd32 (ptr_of (nl_req op a0 a1 pl)) 14 = IMG_MAGIC"
  "ptr_of (nl_req op a0 a1 pl) 18 = op" "rd32 (ptr_of (nl_req op a0 a1 pl)) 20 = a0"
  "rd32 (ptr_of (nl_req op a0 a1 pl)) 24 = a1" "28 + length pl \<le> length (nl_req op a0 a1 pl)"
  "k \<le> length pl \<Longrightarrow> bytes_at (ptr_of (nl_req op a0 a1 pl)) NL_HDR_LEN k = take k pl"
proof -
  let ?h = "replicate 6 0xFF @ [2, 0, 0, 0, 0, 1] :: u8 list"
  let ?F = "nl_req op a0 a1 pl"
  show "rd16 (ptr_of ?F) 12 = NL_ETHERTYPE"
    using rd16_at [of ?h NL_ETHERTYPE] by (simp add: nl_req_def)
  show "rd32 (ptr_of ?F) 14 = IMG_MAGIC"
    using rd32_at [of "?h @ be16 NL_ETHERTYPE" IMG_MAGIC] by (simp add: nl_req_def)
  show "ptr_of ?F 18 = op"
    using ptr_of_at [of "?h @ be16 NL_ETHERTYPE @ be32 IMG_MAGIC" op] by (simp add: nl_req_def)
  show "rd32 (ptr_of ?F) 20 = a0"
    using rd32_at [of "?h @ be16 NL_ETHERTYPE @ be32 IMG_MAGIC @ [op, 0]" a0] by (simp add: nl_req_def)
  show "rd32 (ptr_of ?F) 24 = a1"
    using rd32_at [of "?h @ be16 NL_ETHERTYPE @ be32 IMG_MAGIC @ [op, 0] @ be32 a0" a1]
    by (simp add: nl_req_def)
  show l: "28 + length pl \<le> length ?F" by (simp add: nl_req_def)
  show "bytes_at (ptr_of ?F) NL_HDR_LEN k = take k pl" if "k \<le> length pl"
    using that l by (subst bytes_at_ptr_of) (simp_all add: nl_req_def NL_HDR_LEN_def)
qed

lemma nl_req_header: "NL_HDR_LEN \<le> length (nl_req op a0 a1 pl)"
  using nl_req_fields(6) [of pl op a0 a1] by (simp add: NL_HDR_LEN_def)

lemmas nl_req_rules = nl_req_fields(1-5) nl_req_header

lemma nl_tick_started: "started s \<Longrightarrow> nl_tick s = s"
  by (simp add: nl_tick_def)

lemma data_step:
  assumes h: "holds_part img s" "started s" and off: "unat (next_off s) = off"
    and pl: "pl = take n (drop off img)" "0 < length pl" "n \<le> 1024"
    and F: "F = nl_req OP_DATA (of_nat off) (of_nat (length pl)) pl"
  shows "\<exists>t. netload (nl_poll F # es) s = netload es t \<and> holds_part img t \<and> started t \<and>
    unat (next_off t) = off + length pl"
proof -
  let ?f = "ptr_of F" and ?n = "nl_plen (of_nat (length pl)) (length F)"
  have len: "length F < 2 ^ 32" "length pl \<le> 1024" "length pl \<le> length F - 28"
    using pl(1,3) by (auto simp: F nl_req_def)
  have u: "unat (of_nat (length pl) :: u32) = length pl" using len(2) by (simp add: unat_of_nat)
  have n: "unat ?n = length pl"
  proof -
    have "unat (of_nat (length F - 28) :: u32) = length F - 28" using len(1) by (simp add: unat_of_nat)
    then show ?thesis
      using u len by (auto simp: nl_plen_def Let_def NL_HDR_LEN_def NL_MAX_PAYLOAD_def word_less_nat_alt)
  qed
  have inv: "ld_inv s" and sz: "length (ld_ram s) \<le> 2 ^ 31" and L: "unat (img_len s) = length img"
    using h by (auto simp: holds_part_def)
  have o: "of_nat off = next_off s" using off by auto
  have le: "off + length pl \<le> length img" using pl(1,2) by auto
  then have "unat (next_off s + ?n) = off + length pl"
    using n off inv sz L by (simp add: unat_word_ariths ld_inv_def)
  then have acc: "next_off s + ?n \<le> img_len s" "?n \<noteq> 0"
    and e: "unat (next_off s + ?n) = off + length pl"
    using le L n pl(2) by (auto simp: word_le_nat_alt)
  let ?t = "nl_data ?f (length F) (next_off s) (of_nat (length pl)) s"
  have fr: "netload_frame ?f (length F) s = (None, ?t)"
    using h(2) by (simp add: netload_frame_def F nl_req_rules Let_def op_defs o)
  have "bytes_at ?f NL_HDR_LEN (length pl) = take (length pl) (drop off img)"
    using nl_req_fields(7) [of "length pl" pl] append_eq_conv_conj [of pl "drop n (drop off img)" "drop off img"]
    by (simp add: F pl(1))
  then have "holds_part img ?t"
    using nl_data_part [of img s "length F" "next_off s" "of_nat (length pl)" ?f] h len(1) n off by simp
  moreover have "started ?t" "unat (next_off ?t) = off + length pl"
    using acc e h(2) by (simp_all add: nl_data_def Let_def)
  moreover have "netload (nl_poll F # es) s = netload es ?t"
    using netload_go [of s "nl_poll F" es] h(2) by (simp add: nl_tick_started nl_poll_def fr)
  ultimately show ?thesis by blast
qed

lemma chunks_run:
  assumes "0 < n" "n \<le> 1024"
  shows "holds_part img s \<Longrightarrow> started s \<Longrightarrow> unat (next_off s) = off \<Longrightarrow> bs = drop off img \<Longrightarrow>
    off \<le> length img \<Longrightarrow>
    \<exists>t. netload (map nl_poll (host_chunks n off bs) @ es) s = netload es t \<and> holds_part img t \<and>
      started t \<and> unat (next_off t) = length img"
  using assms
proof (induction n off bs arbitrary: s rule: host_chunks.induct)
  case (1 n off bs)
  show ?case
  proof (cases "bs = []")
    case True
    then have "off = length img" using 1 by simp
    moreover have "host_chunks n off bs = []" using True by (simp add: host_chunks.simps)
    ultimately show ?thesis using 1 by auto
  next
    case False
    let ?pl = "take n bs"
    let ?F = "nl_req OP_DATA (of_nat off) (of_nat (length ?pl)) ?pl"
    obtain t where t: "netload (nl_poll ?F # map nl_poll (host_chunks n (off + n) (drop n bs)) @ es) s =
        netload (map nl_poll (host_chunks n (off + n) (drop n bs)) @ es) t"
        "holds_part img t" "started t" "unat (next_off t) = off + length ?pl"
      using data_step [OF 1(2,3,4), of ?pl n ?F] 1 False by auto
    have eq: "netload (map nl_poll (host_chunks n off bs) @ es) s =
        netload (map nl_poll (host_chunks n (off + n) (drop n bs)) @ es) t"
      using t(1) False 1(7) by (simp add: host_chunks.simps [of n off bs])
    show ?thesis
    proof (cases "n \<le> length bs")
      case True
      then show ?thesis
        using 1(1) [of t] t 1 False unfolding eq by (simp add: add.commute)
    next
      case short: False
      then have "host_chunks n (off + n) (drop n bs) = []" by (simp add: host_chunks.simps)
      then show ?thesis using t short 1 unfolding eq by (intro exI [of _ t]) auto
    qed
  qed
qed

text \<open>The loader after \<open>w\<close> polls that found nothing.\<close>

abbreviation ldr_waited :: "nat \<Rightarrow> u8 list \<Rightarrow> ldr" where
  "ldr_waited w ram \<equiv> (ldr_boot ram)\<lparr>spins := of_nat w\<rparr>"

lemma window_open: "w \<le> 4000000 \<Longrightarrow> \<not> (\<not> started (ldr_waited w ram) \<and> spins (ldr_waited w ram) > NETLOAD_WINDOW_SPINS)"
  by (simp add: NETLOAD_WINDOW_SPINS_def word_less_nat_alt unat_of_nat)

lemma waited_tick: "nl_tick (ldr_waited w ram) = ldr_waited (Suc w) ram"
  by (simp add: nl_tick_def ldr_boot_def add.commute)

lemma session_loads_after:
  assumes n: "0 < n" "n \<le> 1024" and img: "0 < length img" "length img \<le> length ram" "length ram \<le> 2 ^ 31"
    and w: "w < 4000000"
  shows "\<exists>s'. netload (map nl_poll (host_session n img)) (ldr_waited w ram) = (Some 1, s') \<and>
    take (length img) (ld_ram s') = img"
proof -
  let ?L = "of_nat (length img) :: u32"
  have L: "unat ?L = length img" using img by (simp add: unat_of_nat)
  then have L0: "?L \<noteq> 0" using img(1) by auto
  let ?F = "nl_req OP_START ?L (crc32 img) []" and ?E = "nl_req OP_EXEC 0 0 []"
  let ?b = "nl_tick (ldr_waited w ram)"
  have b: "\<not> (\<not> started ?b \<and> spins ?b > NETLOAD_WINDOW_SPINS)"
    unfolding waited_tick by (rule window_open) (use w in simp)
  define s where "s = nl_start (ptr_of ?F) ?L (crc32 img) ?b"
  have "netload_frame (ptr_of ?F) (length ?F) ?b = (None, s)"
    by (simp add: netload_frame_def nl_req_rules Let_def op_defs s_def)
  then have st: "netload (map nl_poll (host_session n img)) (ldr_waited w ram) =
      netload (map nl_poll (host_chunks n 0 img) @ [nl_poll ?E]) s"
    using netload_go [OF b, of "nl_poll ?F"] by (simp add: host_session_def nl_poll_def)
  have s: "holds_part img s" "started s" "unat (next_off s) = 0"
    using img L L0
    by (auto simp: s_def nl_start_def nl_tick_def ldr_boot_def holds_part_def ld_inv_def)
  obtain t where t: "netload (map nl_poll (host_chunks n 0 img) @ [nl_poll ?E]) s = netload [nl_poll ?E] t"
      "holds_part img t" "started t" "unat (next_off t) = length img"
    using chunks_run [OF n s(1,2,3), of img "[nl_poll ?E]"] by auto
  have h: "unat (img_len t) = length img" "img_crc t = crc32 img"
      "take (length img) (ld_ram t) = img"
    using t(2,3,4) by (auto simp: holds_part_def)
  have "next_off t = img_len t" using t(4) h(1) by (simp add: word_unat_eq_iff)
  then have "netload_frame (ptr_of ?E) (length ?E) t = (Some 1, nl_reply (ptr_of ?E) OP_ACK (img_len t) t)"
    using t(3) h by (simp add: netload_frame_def nl_req_rules Let_def op_defs nl_exec_def)
  then have "netload [nl_poll ?E] t = (Some 1, nl_reply (ptr_of ?E) OP_ACK (img_len t) t)"
    using netload_go [of t "nl_poll ?E" "[]"] t(3) by (simp add: nl_tick_started nl_poll_def)
  then show ?thesis using st t h by simp
qed

lemma session_loads:
  assumes "0 < n" "n \<le> 1024" "0 < length img" "length img \<le> length ram" "length ram \<le> 2 ^ 31"
  shows "\<exists>s'. netload (map nl_poll (host_session n img)) (ldr_boot ram) = (Some 1, s') \<and>
    take (length img) (ld_ram s') = img"
  using session_loads_after [OF assms, of 0] by (simp add: ldr_boot_def)

section \<open>The window, the flash and \<open>main\<close>\<close>

text \<open>With nobody on the wire the loop gives up after its window.\<close>

lemma netload_waits:
  assumes "v + n \<le> 4000000"
  shows "netload (replicate n None @ es) (ldr_waited v ram) = netload es (ldr_waited (v + n) ram)"
  using assms
proof (induction n arbitrary: v)
  case (Suc n)
  have "netload (None # replicate n None @ es) (ldr_waited v ram) = netload (replicate n None @ es) (ldr_waited (Suc v) ram)"
    using netload_go [of "ldr_waited v ram" None "replicate n None @ es"] window_open [of "Suc v" ram] Suc.prems
    unfolding waited_tick by simp
  also have "\<dots> = netload es (ldr_waited (Suc v + n) ram)" by (rule Suc.IH) (use Suc.prems in simp)
  finally show ?case by (simp only: replicate_Suc append_Cons add_Suc add_Suc_right)
qed simp

text \<open>The poll after the last of the window is not looked at.\<close>

lemma netload_shut:
  assumes "w = 4000000"
  shows "netload (e # es) (ldr_waited w ram) = (Some 0, ldr_waited (Suc w) ram)"
proof -
  have "unat (of_nat (Suc w) :: u32) = Suc w" using assms by (simp add: unat_of_nat del: of_nat_Suc)
  then have "\<not> started (ldr_waited (Suc w) ram) \<and> spins (ldr_waited (Suc w) ram) > NETLOAD_WINDOW_SPINS"
    using assms by (simp add: ldr_boot_def NETLOAD_WINDOW_SPINS_def word_less_nat_alt del: of_nat_Suc)
  then show ?thesis using netload_expired [of "ldr_waited w ram" e es] unfolding waited_tick by simp
qed

lemma netload_idle:
  assumes "w = 4000000"
  shows "netload (replicate n None @ es) (ldr_boot ram) =
    (if n \<le> w then netload es (ldr_waited n ram) else (Some 0, ldr_waited (Suc w) ram))"
proof -
  have b: "ldr_waited 0 ram = ldr_boot ram" by (simp add: ldr_boot_def)
  have all: "0 + w \<le> 4000000" using assms by simp
  show ?thesis
  proof (cases "n \<le> w")
    case True
    then have "0 + n \<le> 4000000" using assms by simp
    from netload_waits [OF this, of es ram] True show ?thesis by (simp only: b add_0 if_True)
  next
    case False
    then obtain k where n: "n = w + Suc k" using less_imp_Suc_add [of w n] by auto
    have "netload (replicate n None @ es) (ldr_waited 0 ram) = netload (None # replicate k None @ es) (ldr_waited w ram)"
      using netload_waits [of 0 w "None # replicate k None @ es" ram, OF all]
      by (simp only: n replicate_add append_assoc replicate_Suc append_Cons add_0)
    then show ?thesis using False by (simp only: b netload_shut [OF assms] if_False)
  qed
qed


lemma flashload_result:
  assumes "flashload xfer d s = (ok, d', s')" "ok \<noteq> 0"
    and "hdr = ptr_of (fst (cfgflash_read xfer FLASH_IMAGE_ADDR 12 (cfgflash_warmup xfer d)))"
  shows "0 < unat (rd32 hdr 4) \<and> unat (rd32 hdr 4) \<le> length (ld_ram s) \<and>
    rd32 hdr 0 = IMG_MAGIC \<and> crc32 (take (unat (rd32 hdr 4)) (ld_ram s')) = rd32 hdr 8"
  using assms
  by (auto simp: flashload_def Let_def unat_gt_0 not_less split: prod.splits if_splits)

lemma ldr_main_jump:
  assumes "ldr_main xfer d es ram = Jump ram'" "polls_ok es" "length ram \<le> 2 ^ 31"
  shows "\<exists>len crc. 0 < unat len \<and> crc32 (take (unat len) ram') = crc \<and>
    ((\<exists>s. netload es (ldr_boot ram) = (Some 1, s) \<and> ld_ram s = ram' \<and> len = img_len s \<and>
        crc = img_crc s \<and> next_off s = len \<and> unat len \<le> length ram) \<or>
     (\<exists>hdr. hdr = ptr_of (fst (cfgflash_read xfer FLASH_IMAGE_ADDR 12 (cfgflash_warmup xfer d))) \<and>
        rd32 hdr 0 = IMG_MAGIC \<and> rd32 hdr 4 = len \<and> rd32 hdr 8 = crc \<and> unat len \<le> length ram))"
proof -
  obtain ro s where nl: "netload es (ldr_boot ram) = (ro, s)" by fastforce
  have b: "ld_inv (ldr_boot ram)" "length (ld_ram (ldr_boot ram)) = length ram"
    by (simp_all add: ld_inv_def ldr_boot_def)
  have inv: "ld_inv s \<and> length (ld_ram s) = length ram"
    using netload_inv [OF b(1) assms(2) b(2) assms(3)] nl by simp
  obtain r where r: "ro = Some r" using assms(1) nl by (cases ro) (auto simp: ldr_main_def)
  show ?thesis
  proof (cases "r = 0")
    case False
    then have "ram' = ld_ram s" using assms(1) nl r by (simp add: ldr_main_def)
    moreover have "r = 1 \<and> next_off s = img_len s \<and> crc32 (take (unat (img_len s)) (ld_ram s)) = img_crc s \<and> started s"
      using netload_result [of es "ldr_boot ram" r s] nl r False by simp
    moreover have "0 < unat (img_len s)" "unat (img_len s) \<le> length ram"
      using inv calculation by (auto simp: ld_inv_def)
    ultimately show ?thesis using nl r by blast
  next
    case True
    obtain ok d' s' where fl: "flashload xfer d s = (ok, d', s')" by (cases "flashload xfer d s") auto
    then have ok: "ok \<noteq> 0" and ram': "ram' = ld_ram s'"
      using assms(1) nl r True by (auto simp: ldr_main_def split: if_splits)
    let ?h = "ptr_of (fst (cfgflash_read xfer FLASH_IMAGE_ADDR 12 (cfgflash_warmup xfer d)))"
    have "0 < unat (rd32 ?h 4)" "unat (rd32 ?h 4) \<le> length ram" "rd32 ?h 0 = IMG_MAGIC"
      "crc32 (take (unat (rd32 ?h 4)) ram') = rd32 ?h 8"
      using flashload_result [OF fl ok refl] inv ram' by simp_all
    then show ?thesis by blast
  qed
qed

lemma netload_honest:
  assumes "netload es (ldr_boot ram) = (Some r, s)" "r \<noteq> 0" "length ram \<le> 2 ^ 31"
    and "\<And>f len. Some (f, len) \<in> set es \<Longrightarrow> honest img (f, len)"
  shows "take (length img) (ld_ram s) = img"
proof -
  have "holds_part img (ldr_boot ram)"
    using assms(3) by (simp add: holds_part_def ld_inv_def ldr_boot_def)
  then have "holds_part img (snd (netload es (ldr_boot ram)))"
    by (rule netload_rule) (simp_all add: netload_frame_part assms(4))
  then show ?thesis
    using netload_result [OF assms(1)] assms(1,2) by (auto simp: holds_part_def)
qed

section \<open>Properties\<close>

text \<open>
  C3: the loader starts nothing it has not checked. When \<^theory_text>\<open>main\<close> jumps, the RAM it jumps
  to starts with a non-empty image whose CRC-32 is the one announced: by the START frame of
  a transfer that is complete, or by the header in flash.
\<close>

theorem loader_jumps_to_checked_image:
  assumes "ldr_main xfer d es ram = Jump ram'" "polls_ok es" "length ram \<le> 2 ^ 31"
  shows "\<exists>len crc. 0 < unat len \<and> crc32 (take (unat len) ram') = crc \<and>
    ((\<exists>s. netload es (ldr_boot ram) = (Some 1, s) \<and> ld_ram s = ram' \<and> len = img_len s \<and>
        crc = img_crc s \<and> next_off s = len \<and> unat len \<le> length ram) \<or>
     (\<exists>hdr. hdr = ptr_of (fst (cfgflash_read xfer FLASH_IMAGE_ADDR 12 (cfgflash_warmup xfer d))) \<and>
        rd32 hdr 0 = IMG_MAGIC \<and> rd32 hdr 4 = len \<and> rd32 hdr 8 = crc \<and> unat len \<le> length ram))"
  using assms by (rule ldr_main_jump)

theorem loader_jumps_to_checked_image_witness:
  "\<exists>ram' len. ldr_main nor_xfer \<lparr>nor_mem = (\<lambda>_. 0), nor_wel = False, nor_busy = 0\<rparr> (map nl_poll (host_session 2 [7, 8, 9])) (replicate 16 0) = Jump ram' \<and>
    0 < unat len \<and> unat (len :: u32) \<le> 16"
proof -
  let ?es = "map nl_poll (host_session 2 [7, 8, 9])"
  have ok: "polls_ok ?es"
    by (simp add: polls_ok_def host_session_def host_chunks.simps nl_poll_def nl_req_def)
  obtain s' where "netload ?es (ldr_boot (replicate 16 0)) = (Some 1, s')"
    using session_loads [of 2 "[7, 8, 9]" "replicate 16 0"] by auto
  then have j: "ldr_main nor_xfer \<lparr>nor_mem = (\<lambda>_. 0), nor_wel = False, nor_busy = 0\<rparr> ?es (replicate 16 0) = Jump (ld_ram s')"
    by (simp add: ldr_main_def)
  from loader_jumps_to_checked_image [OF j ok] obtain len :: u32 where "0 < unat len" "unat len \<le> 16"
    by auto
  with j show ?thesis by blast
qed

text \<open>
  Whatever frames arrive, in whatever order, the loader writes only inside the code RAM
  and keeps its next offset inside the announced image.
\<close>

theorem netload_writes_inside:
  assumes "polls_ok es" "length ram \<le> 2 ^ 31"
  shows "\<exists>s. s = snd (netload es (ldr_boot ram)) \<and> length (ld_ram s) = length ram \<and>
    unat (next_off s) \<le> unat (img_len s) \<and> unat (img_len s) \<le> length ram"
proof -
  have "ld_inv (ldr_boot ram)" "length (ld_ram (ldr_boot ram)) = length ram"
    by (simp_all add: ld_inv_def ldr_boot_def)
  from netload_inv [OF this(1) assms(1) this(2) assms(2)] show ?thesis by (auto simp: ld_inv_def)
qed

theorem netload_writes_inside_witness:
  "\<exists>s. s = snd (netload (map nl_poll (host_session 2 [1, 2, 3])) (ldr_boot (replicate 8 0))) \<and>
    length (ld_ram s) = length (replicate 8 (0 :: u8)) \<and>
    unat (next_off s) \<le> unat (img_len s) \<and> unat (img_len s) \<le> length (replicate 8 (0 :: u8))"
  by (rule netload_writes_inside)
    (simp_all add: polls_ok_def host_session_def host_chunks.simps nl_poll_def nl_req_def)

text \<open>
  Frames lost, repeated or reordered do no harm. If every frame of the host belongs to
  one image, a transfer that ends successfully has left that image in RAM, byte for byte.
\<close>

theorem netload_loads_the_image:
  assumes "netload es (ldr_boot ram) = (Some r, s)" "r \<noteq> 0" "length ram \<le> 2 ^ 31"
    and "\<forall>f len. Some (f, len) \<in> set es \<longrightarrow> honest img (f, len)"
  shows "take (length img) (ld_ram s) = img"
  using assms(1-3) by (rule netload_honest) (use assms(4) in blast)

lemma demo_honest:
  "Some (f, len) \<in> set (map nl_poll (host_session 2 [7, 8, 9])) \<Longrightarrow> honest [7, 8, 9] (f, len)"
  by (auto simp: host_session_def host_chunks.simps nl_poll_def honest_def nl_req_fields op_defs Let_def)
    (simp_all add: nl_req_def nl_plen_def NL_HDR_LEN_def NL_MAX_PAYLOAD_def bytes_at_def ptr_of_def
      nth_append upt_rec be16_def be32_def)

theorem netload_loads_the_image_witness:
  "\<exists>s. netload (map nl_poll (host_session 2 [7, 8, 9])) (ldr_boot (replicate 16 0)) = (Some 1, s) \<and>
    take (length [7, 8, 9 :: u8]) (ld_ram s) = [7, 8, 9]"
proof -
  obtain s where s: "netload (map nl_poll (host_session 2 [7, 8, 9])) (ldr_boot (replicate 16 0)) = (Some 1, s)"
    using session_loads [of 2 "[7, 8, 9]" "replicate 16 0"] by auto
  with netload_loads_the_image [OF s, of "[7, 8, 9]"] demo_honest show ?thesis by auto
qed

text \<open>
  A transfer completes. START, the chunks of any size up to 1024 bytes in order, and
  EXEC load any image that fits and end the loop with 1.
\<close>

theorem netload_completes:
  assumes "0 < n" "n \<le> 1024" "0 < length img" "length img \<le> length ram" "length ram \<le> 2 ^ 31"
  shows "\<exists>s'. netload (map nl_poll (host_session n img)) (ldr_boot ram) = (Some 1, s') \<and>
    take (length img) (ld_ram s') = img"
  using assms by (rule session_loads)

theorem netload_completes_witness:
  "\<exists>s'. netload (map nl_poll (host_session 2 [7, 8, 9])) (ldr_boot (replicate 16 0)) = (Some 1, s') \<and>
    take (length [7, 8, 9 :: u8]) (ld_ram s') = [7, 8, 9]"
  by (rule netload_completes) simp_all

text \<open>
  C38: the network window is open for exactly \<^theory_text>\<open>NETLOAD_WINDOW_SPINS\<close> polls and then closes. After \<open>w\<close>
  empty polls the loader still waits if \<open>w\<close> is at most four million and has given up if it is more,
  its RAM untouched, so that a board with no host on the wire turns to the flash; a host whose
  transfer begins with the very last poll of the window still loads its image, and one that
  begins a poll later loads nothing.
\<close>

theorem netload_window_closes:
  assumes "0 < n" "n \<le> 1024" "0 < length img" "length img \<le> length ram" "length ram \<le> 2 ^ 31"
  shows "\<exists>s t. netload (replicate w None) (ldr_boot ram) = (if w \<le> 4000000 then None else Some 0, s) \<and> ld_ram s = ram \<and>
    netload (replicate w None @ map nl_poll (host_session n img)) (ldr_boot ram) = (Some (if w < 4000000 then 1 else 0), t) \<and>
    (if w < 4000000 then take (length img) (ld_ram t) = img else ld_ram t = ram)"
proof -
  obtain W :: nat where W: "W = 4000000" by simp
  note idle = netload_idle [OF W, of w _ ram]
  have "\<exists>s. netload (replicate w None) (ldr_boot ram) = (if w \<le> W then None else Some 0, s) \<and> ld_ram s = ram"
    using idle [of "[]"] by (simp add: ldr_boot_def)
  moreover have "\<exists>t. netload (replicate w None @ map nl_poll (host_session n img)) (ldr_boot ram) = (Some (if w < W then 1 else 0), t) \<and>
      (if w < W then take (length img) (ld_ram t) = img else ld_ram t = ram)"
  proof (cases "w < W")
    case True
    then show ?thesis using session_loads_after [OF assms True [unfolded W]] by (simp add: idle)
  next
    case False
    obtain F Fs where h: "map nl_poll (host_session n img) = F # Fs" by (auto simp: host_session_def)
    have "netload (replicate w None @ F # Fs) (ldr_boot ram) = (Some 0, ldr_waited (Suc W) ram)"
      using False by (cases "w = W") (simp_all add: netload_idle [OF W] netload_shut [OF W] del: netload.simps of_nat_Suc)
    then show ?thesis using False by (simp add: h) (simp add: ldr_boot_def)
  qed
  ultimately show ?thesis unfolding W by blast
qed

theorem netload_window_closes_witness:
  "\<exists>s t. netload (replicate 3999999 None) (ldr_boot (replicate 16 0)) = (None, s) \<and>
    netload (replicate 3999999 None @ map nl_poll (host_session 2 [7, 8, 9])) (ldr_boot (replicate 16 0)) = (Some 1, t) \<and>
    take (length [7, 8, 9 :: u8]) (ld_ram t) = [7, 8, 9]"
proof -
  have "0 < length [7, 8, 9 :: u8]" "length [7, 8, 9 :: u8] \<le> length (replicate 16 (0 :: u8))" "length (replicate 16 (0 :: u8)) \<le> 2 ^ 31"
    by simp_all
  moreover have "(3999999 :: nat) \<le> 4000000" "(3999999 :: nat) < 4000000" by simp_all
  ultimately show ?thesis using netload_window_closes [of 2 "[7, 8, 9]" "replicate 16 0" 3999999]
    by (simp only: if_True) auto
qed

text \<open>
  The CRC that guards an image detects every corruption confined to four consecutive
  bytes.
\<close>

theorem crc32_detects_bursts:
  assumes "length xs = length ys" "length xs \<le> 4" "xs \<noteq> ys"
  shows "crc32 (pre @ xs @ post) \<noteq> crc32 (pre @ ys @ post)"
  using crc32_burst [OF assms(1,2)] assms(3) by blast

theorem crc32_detects_bursts_witness:
  "crc32 ([1, 2] @ [3, 4, 5, 6] @ [7]) \<noteq> crc32 ([1, 2] @ [3, 9, 9, 6] @ [7])"
  by (rule crc32_detects_bursts) simp_all

end
