(* ===== verification/Config.thy ===== *)
theory Config
  imports Cfgflash
begin

text \<open>
  The persistent configuration, \<^theory_text>\<open>firmware/config.c\<close> and \<^theory_text>\<open>firmware/config.h\<close>: the
  struct with its byte layout, its checksum, loading and saving through the flash driver.
\<close>

section \<open>Little-endian fields\<close>

definition le16 :: "u16 \<Rightarrow> u8 list" where
  "le16 v = [ucast v, ucast (drop_bit 8 v)]"

definition le32 :: "u32 \<Rightarrow> u8 list" where
  "le32 v = [ucast v, ucast (drop_bit 8 v), ucast (drop_bit 16 v), ucast (drop_bit 24 v)]"

definition le64 :: "u64 \<Rightarrow> u8 list" where
  "le64 v = le32 (ucast v) @ le32 (ucast (drop_bit 32 v))"

definition rdl16 :: "u8 list \<Rightarrow> nat \<Rightarrow> u16" where
  "rdl16 p i = ucast (p ! i) OR push_bit 8 (ucast (p ! (i + 1)))"

definition rdl32 :: "u8 list \<Rightarrow> nat \<Rightarrow> u32" where
  "rdl32 p i = ucast (p ! i) OR push_bit 8 (ucast (p ! (i + 1))) OR push_bit 16 (ucast (p ! (i + 2)))
     OR push_bit 24 (ucast (p ! (i + 3)))"

definition rdl64 :: "u8 list \<Rightarrow> nat \<Rightarrow> u64" where
  "rdl64 p i = ucast (rdl32 p i) OR push_bit 32 (ucast (rdl32 p (i + 4)))"

lemma length_le [simp]: "length (le16 v) = 2" "length (le32 w) = 4" "length (le64 x) = 8"
  by (simp_all add: le16_def le32_def le64_def)

lemma rdl16_at: "rdl16 (xs @ le16 v @ ys) (length xs) = v"
  unfolding rdl16_def le16_def by (rule bit_word_eqI) (auto simp: bit_simps nth_append)

lemma rdl32_at: "rdl32 (xs @ le32 v @ ys) (length xs) = v"
proof (rule bit_word_eqI)
  fix n assume "n < LENGTH(32)"
  then consider "n < 8" | "8 \<le> n" "n < 16" | "16 \<le> n" "n < 24" | "24 \<le> n" "n < 32"
    by fastforce
  then show "bit (rdl32 (xs @ le32 v @ ys) (length xs)) n = bit v n"
    unfolding rdl32_def le32_def
    by cases (auto simp: bit_simps nth_append nth_Cons' dest: byte_bit_bound)
qed

lemma rdl64_at: "rdl64 (xs @ le64 v @ ys) (length xs) = v"
proof -
  have 1: "rdl32 (xs @ le64 v @ ys) (length xs) = ucast v"
    using rdl32_at [of xs "ucast v" "le32 (ucast (drop_bit 32 v)) @ ys"] by (simp add: le64_def)
  have 2: "rdl32 (xs @ le64 v @ ys) (length xs + 4) = ucast (drop_bit 32 v)"
    using rdl32_at [of "xs @ le32 (ucast v)" "ucast (drop_bit 32 v)" ys] by (simp add: le64_def)
  show ?thesis
    unfolding rdl64_def 1 2 by (rule bit_word_eqI) (auto simp: bit_simps)
qed

section \<open>The struct\<close>

definition CFG_MAGIC :: u32 where "CFG_MAGIC = 0xCFA50701"
definition CFG_VERSION :: u16 where "CFG_VERSION = 4"
definition CFG_SIZE :: nat where "CFG_SIZE = 120"
definition CFG_FLASH_ADDR :: u32 where "CFG_FLASH_ADDR = 0xFFF000"

record cfg =
  cf_magic :: u32
  cf_version :: u16
  cf_csize :: u16
  cf_cs :: u8
  cf_crf_valid :: u8
  cf_pad1 :: "u8 list"
  cf_crf_stream_id :: "u8 list"
  cf_crf_dmac :: "u8 list"
  cf_pad2 :: "u8 list"
  cf_crf_talker_eid :: "u8 list"
  cf_osc_ip :: ip4
  cf_osc_prefix :: u8
  cf_pad3 :: "u8 list"
  cf_ptp_addend_valid :: u8
  cf_pad4 :: "u8 list"
  cf_ptp_addend_full :: u64
  cf_mclk_ppb :: u32
  cf_mclk_ppb_valid :: u8
  cf_reserved :: "u8 list"
  cf_crc :: u32

definition cfg_wf :: "cfg \<Rightarrow> bool" where
  "cfg_wf c \<longleftrightarrow> length (cf_pad1 c) = 2 \<and> length (cf_crf_stream_id c) = 8 \<and> length (cf_crf_dmac c) = 6 \<and>
     length (cf_pad2 c) = 2 \<and> length (cf_crf_talker_eid c) = 8 \<and> length (cf_pad3 c) = 3 \<and>
     length (cf_pad4 c) = 3 \<and> length (cf_reserved c) = 55"

text \<open>The struct in memory: the offsets of its fields on the target, 120 bytes in all.\<close>

definition cfg_body :: "cfg \<Rightarrow> u8 list" where
  "cfg_body c = le32 (cf_magic c) @ le16 (cf_version c) @ le16 (cf_csize c) @ [cf_cs c] @ [cf_crf_valid c] @ cf_pad1 c @
     cf_crf_stream_id c @ cf_crf_dmac c @ cf_pad2 c @ cf_crf_talker_eid c @ ip_bytes (cf_osc_ip c) @ [cf_osc_prefix c] @
     cf_pad3 c @ [cf_ptp_addend_valid c] @ cf_pad4 c @ le64 (cf_ptp_addend_full c) @ le32 (cf_mclk_ppb c) @
     [cf_mclk_ppb_valid c] @ cf_reserved c"

definition cfg_bytes :: "cfg \<Rightarrow> u8 list" where
  "cfg_bytes c = cfg_body c @ le32 (cf_crc c)"

definition slice :: "nat \<Rightarrow> nat \<Rightarrow> 'a list \<Rightarrow> 'a list" where
  "slice i n xs = take n (drop i xs)"

definition cfg_of_bytes :: "u8 list \<Rightarrow> cfg" where
  "cfg_of_bytes b = \<lparr>cf_magic = rdl32 b 0, cf_version = rdl16 b 4, cf_csize = rdl16 b 6, cf_cs = b ! 8,
     cf_crf_valid = b ! 9, cf_pad1 = slice 10 2 b, cf_crf_stream_id = slice 12 8 b, cf_crf_dmac = slice 20 6 b,
     cf_pad2 = slice 26 2 b, cf_crf_talker_eid = slice 28 8 b, cf_osc_ip = (b ! 36, b ! 37, b ! 38, b ! 39),
     cf_osc_prefix = b ! 40, cf_pad3 = slice 41 3 b, cf_ptp_addend_valid = b ! 44, cf_pad4 = slice 45 3 b,
     cf_ptp_addend_full = rdl64 b 48, cf_mclk_ppb = rdl32 b 56, cf_mclk_ppb_valid = b ! 60,
     cf_reserved = slice 61 55 b, cf_crc = rdl32 b 116\<rparr>"

section \<open>The operations\<close>

text \<open>\<^theory_text>\<open>cfg_crc\<close>: over every byte but the trailing word.\<close>

definition cfg_crc :: "cfg \<Rightarrow> u32" where
  "cfg_crc c = foldl (\<lambda>s b. s * 31 + ucast b) 0x1357BD13 (take (CFG_SIZE - 4) (cfg_bytes c))"

definition default_osc :: "cfg \<Rightarrow> cfg" where
  "default_osc c = c\<lparr>cf_osc_ip := (169, 254, 9, 200), cf_osc_prefix := 16\<rparr>"

definition cfg_defaults :: cfg where
  "cfg_defaults = default_osc ((cfg_of_bytes (replicate CFG_SIZE 0))
     \<lparr>cf_magic := CFG_MAGIC, cf_version := CFG_VERSION, cf_csize := of_nat CFG_SIZE, cf_cs := 0\<rparr>)"

definition cfg_accept :: "cfg \<Rightarrow> int \<times> cfg" where
  "cfg_accept t =
    (if cf_magic t = CFG_MAGIC \<and> cf_version t \<ge> 1 \<and> cf_version t \<le> CFG_VERSION \<and>
        cf_csize t = of_nat CFG_SIZE \<and> cf_crc t = cfg_crc t
     then (1, if cf_osc_prefix t \<noteq> 16 \<and> cf_osc_prefix t \<noteq> 24 then default_osc t else t)
     else (0, cfg_defaults))"

definition cfg_load :: "'d spi \<Rightarrow> 'd \<Rightarrow> int \<times> cfg \<times> 'd" where
  "cfg_load xfer d =
    (let (b, d) = cfgflash_read xfer CFG_FLASH_ADDR CFG_SIZE d; (r, g) = cfg_accept (cfg_of_bytes b) in
     (r, g, d))"

definition cfg_seal :: "cfg \<Rightarrow> cfg" where
  "cfg_seal g = (let g = g\<lparr>cf_magic := CFG_MAGIC, cf_version := CFG_VERSION, cf_csize := of_nat CFG_SIZE\<rparr> in
     g\<lparr>cf_crc := cfg_crc g\<rparr>)"

definition cfg_save :: "'d spi \<Rightarrow> cfg \<Rightarrow> 'd \<Rightarrow> cfg \<times> 'd" where
  "cfg_save xfer g d =
    (let g = cfg_seal g;
         d = cfgflash_erase_4k xfer CFG_FLASH_ADDR d;
         d = cfgflash_program xfer CFG_FLASH_ADDR (cfg_bytes g) d in
     (g, d))"

section \<open>The layout\<close>

lemma length_cfg_body: "cfg_wf c \<Longrightarrow> length (cfg_body c) = 116"
  by (simp add: cfg_wf_def cfg_body_def)

lemma length_cfg_bytes: "cfg_wf c \<Longrightarrow> length (cfg_bytes c) = CFG_SIZE"
  by (simp add: cfg_bytes_def length_cfg_body CFG_SIZE_def)

text \<open>Reading past a prefix, and at one.\<close>

lemma skip_prefix:
  "length xs \<le> i \<Longrightarrow> rdl16 (xs @ ys) i = rdl16 ys (i - length xs)"
  "length xs \<le> i \<Longrightarrow> rdl32 (xs @ ys) i = rdl32 ys (i - length xs)"
  "length xs \<le> i \<Longrightarrow> rdl64 (xs @ ys) i = rdl64 ys (i - length xs)"
  "length us \<le> i \<Longrightarrow> slice i n (us @ vs) = slice (i - length us) n vs"
proof -
  have n: "(xs @ ys) ! (length xs + k) = ys ! k" for k by simp
  show "length xs \<le> i \<Longrightarrow> rdl16 (xs @ ys) i = rdl16 ys (i - length xs)"
    "length xs \<le> i \<Longrightarrow> rdl32 (xs @ ys) i = rdl32 ys (i - length xs)"
    "length xs \<le> i \<Longrightarrow> rdl64 (xs @ ys) i = rdl64 ys (i - length xs)"
    by (auto simp: rdl16_def rdl32_def rdl64_def nth_append dest!: le_Suc_ex)
qed (simp add: slice_def)

lemma skip_one:
  "0 < i \<Longrightarrow> rdl16 (x # ys) i = rdl16 ys (i - 1)" "0 < i \<Longrightarrow> rdl32 (x # ys) i = rdl32 ys (i - 1)"
  "0 < i \<Longrightarrow> rdl64 (x # ys) i = rdl64 ys (i - 1)" "0 < i \<Longrightarrow> slice i n (u # vs) = slice (i - 1) n vs"
  using skip_prefix(1-3) [where xs = "[x]" and i = i and ys = ys] skip_prefix(4) [of "[u]" i n vs]
  by simp_all

lemma read_here:
  "rdl16 (le16 a @ ys) 0 = a" "rdl32 (le32 b @ ys) 0 = b" "rdl64 (le64 d @ ys) 0 = d"
  "rdl32 (le32 b) 0 = b" "length us = n \<Longrightarrow> slice 0 n (us @ vs) = us"
  using rdl16_at [of "[]" a ys] rdl32_at [of "[]" b ys] rdl32_at [of "[]" b "[]"] rdl64_at [of "[]" d ys]
  by (simp_all add: slice_def)

lemma cfg_of_bytes_cfg_bytes:
  assumes "cfg_wf c"
  shows "cfg_of_bytes (cfg_bytes c) = c"
proof -
  obtain a1 a2 a3 a4 where ip: "cf_osc_ip c = (a1, a2, a3, a4)" by (cases "cf_osc_ip c") auto
  show ?thesis
    using assms
    by (simp add: cfg_wf_def cfg_of_bytes_def cfg_bytes_def cfg_body_def skip_prefix skip_one read_here
        nth_append ip)
qed

text \<open>The other way round: 120 bytes are the struct they hold.\<close>

lemma le_slices:
  "i + 2 \<le> length b \<Longrightarrow> le16 (rdl16 b i) = slice i 2 b"
  "i + 4 \<le> length b \<Longrightarrow> le32 (rdl32 b i) = slice i 4 b"
proof -
  assume i: "i + 2 \<le> length b"
  have "slice i 2 b = [b ! i, b ! (i + 1)]"
    using i by (simp add: slice_def numeral_2_eq_2 take_Suc_conv_app_nth)
  moreover have "ucast (rdl16 b i) = b ! i" "ucast (drop_bit 8 (rdl16 b i)) = b ! (i + 1)"
    unfolding rdl16_def by (rule bit_word_eqI; auto simp: bit_simps dest: byte_bit_bound)+
  ultimately show "le16 (rdl16 b i) = slice i 2 b" by (simp add: le16_def)
next
  assume i: "i + 4 \<le> length b"
  have "slice i 4 b = [b ! i, b ! (i + 1), b ! (i + 2), b ! (i + 3)]"
    using i by (intro nth_equalityI) (auto simp: slice_def nth_Cons' less_Suc_eq numeral_eq_Suc)
  moreover have "ucast (rdl32 b i) = b ! i" "ucast (drop_bit 8 (rdl32 b i)) = b ! (i + 1)"
    "ucast (drop_bit 16 (rdl32 b i)) = b ! (i + 2)" "ucast (drop_bit 24 (rdl32 b i)) = b ! (i + 3)"
    unfolding rdl32_def by (rule bit_word_eqI; auto simp: bit_simps dest: byte_bit_bound)+
  ultimately show "le32 (rdl32 b i) = slice i 4 b" by (simp add: le32_def)
qed

lemma slice_join: "slice i n b @ slice (i + n) m b = slice i (n + m) b"
  by (simp only: slice_def take_add drop_drop add.commute [of n i])

lemma slice_join_at:
  "j = i + n \<Longrightarrow> slice i n b @ slice j m b @ r = slice i (n + m) b @ r"
  "j = i + n \<Longrightarrow> slice i n b @ slice j m b = slice i (n + m) b"
  using slice_join [of i n b m] by simp_all

lemma le64_slice: "i + 8 \<le> length b \<Longrightarrow> le64 (rdl64 b i) = slice i 8 b"
proof -
  assume i: "i + 8 \<le> length b"
  have "ucast (rdl64 b i) = rdl32 b i" "ucast (drop_bit 32 (rdl64 b i)) = rdl32 b (i + 4)"
    unfolding rdl64_def by (rule bit_word_eqI; auto simp: bit_simps dest: bit_imp_le_length)+
  then show ?thesis
    using i le_slices(2) [of i b] le_slices(2) [of "i + 4" b] slice_join [of i 4 b 4]
    by (simp add: le64_def)
qed

lemma slice_one: "i < length b \<Longrightarrow> [b ! i] = slice i 1 b"
  by (simp add: slice_def take_Suc_conv_app_nth)

lemma slice_four: "i + 4 \<le> length b \<Longrightarrow> ip_bytes (b ! i, b ! (i + 1), b ! (i + 2), b ! (i + 3)) = slice i 4 b"
  by (intro nth_equalityI) (auto simp: slice_def nth_Cons' less_Suc_eq numeral_eq_Suc)

lemma cfg_bytes_cfg_of_bytes:
  assumes "length b = CFG_SIZE"
  shows "cfg_bytes (cfg_of_bytes b) = b" "cfg_wf (cfg_of_bytes b)"
proof -
  have l: "length b = 120" using assms by (simp add: CFG_SIZE_def)
  have f: "le32 (rdl32 b 0) = slice 0 4 b" "le16 (rdl16 b 4) = slice 4 2 b" "le16 (rdl16 b 6) = slice 6 2 b"
    "[b ! 8] = slice 8 1 b" "[b ! 9] = slice 9 1 b"
    "ip_bytes (b ! 36, b ! 37, b ! 38, b ! 39) = slice 36 4 b" "[b ! 40] = slice 40 1 b"
    "[b ! 44] = slice 44 1 b" "le64 (rdl64 b 48) = slice 48 8 b" "le32 (rdl32 b 56) = slice 56 4 b"
    "[b ! 60] = slice 60 1 b" "le32 (rdl32 b 116) = slice 116 4 b"
    using le_slices [of _ b] le64_slice [of 48 b] slice_one [of _ b] slice_four [of 36 b] l by simp_all
  have "cfg_bytes (cfg_of_bytes b) = slice 0 120 b"
    unfolding cfg_bytes_def cfg_body_def cfg_of_bytes_def cfg.simps append_assoc f
    by (simp add: slice_join_at)
  then show "cfg_bytes (cfg_of_bytes b) = b" using l by (simp add: slice_def)
  show "cfg_wf (cfg_of_bytes b)" using l by (simp add: cfg_wf_def cfg_of_bytes_def slice_def)
qed

section \<open>The checksum\<close>

definition crc_step :: "u32 \<Rightarrow> u8 \<Rightarrow> u32" where
  "crc_step s b = s * 31 + ucast b"

lemma cfg_crc_body: "cfg_wf c \<Longrightarrow> cfg_crc c = foldl crc_step 0x1357BD13 (cfg_body c)"
  by (simp add: cfg_crc_def crc_step_def [abs_def] cfg_bytes_def length_cfg_body CFG_SIZE_def)

text \<open>31 is odd, so a step loses nothing of the running value.\<close>

lemma mult31_inject: "x * 31 = y * 31 \<Longrightarrow> x = (y :: u32)"
proof -
  assume "x * 31 = y * 31"
  then have "x * 31 * 3186588639 = y * 31 * 3186588639" by (rule arg_cong)
  then have "x * (31 * 3186588639) = y * (31 * 3186588639)" by (simp only: mult.assoc)
  moreover have "(31 :: u32) * 3186588639 = 1" by simp
  ultimately show ?thesis by (simp only: mult_1_right)
qed

lemma crc_step_inject: "crc_step s b = crc_step t b \<Longrightarrow> s = t"
  unfolding crc_step_def by (rule mult31_inject) simp

lemma crc_steps_inject: "foldl crc_step s bs = foldl crc_step t bs \<Longrightarrow> s = t"
  by (induction bs arbitrary: s t) (auto dest: crc_step_inject)

lemma crc_steps_byte:
  assumes "foldl crc_step s (pre @ x # post) = foldl crc_step s (pre @ y # post)"
  shows "x = y"
proof -
  have "crc_step (foldl crc_step s pre) x = crc_step (foldl crc_step s pre) y"
    using assms crc_steps_inject by simp
  then have "(ucast x :: u32) = ucast y" by (simp add: crc_step_def)
  then show ?thesis by (metis unat_byte_u32 word_unat_eq_iff)
qed

section \<open>Saving and loading\<close>

lemma cfg_seal_wf: "cfg_wf g \<Longrightarrow> cfg_wf (cfg_seal g)"
  by (simp add: cfg_seal_def Let_def cfg_wf_def)

lemma cfg_seal_valid:
  assumes "cfg_wf g"
  shows "cf_magic (cfg_seal g) = CFG_MAGIC \<and> cf_version (cfg_seal g) = CFG_VERSION \<and>
    cf_csize (cfg_seal g) = of_nat CFG_SIZE \<and> cf_crc (cfg_seal g) = cfg_crc (cfg_seal g)"
proof -
  have "cfg_crc (c\<lparr>cf_crc := x\<rparr>) = cfg_crc c" if "cfg_wf c" for c x
  proof -
    have "cfg_wf (c\<lparr>cf_crc := x\<rparr>)" using that by (simp add: cfg_wf_def)
    then show ?thesis using that by (simp add: cfg_crc_body) (simp add: cfg_body_def)
  qed
  note crc = this
  let ?g = "g\<lparr>cf_magic := CFG_MAGIC, cf_version := CFG_VERSION, cf_csize := of_nat CFG_SIZE\<rparr>"
  have "cfg_wf ?g" using assms by (simp add: cfg_wf_def)
  from crc [OF this, of "cfg_crc ?g"] show ?thesis by (simp add: cfg_seal_def Let_def)
qed

lemma cfg_accept_seal:
  assumes "cfg_wf g"
  shows "cfg_accept (cfg_seal g) = (1, if cf_osc_prefix g \<noteq> 16 \<and> cf_osc_prefix g \<noteq> 24
    then default_osc (cfg_seal g) else cfg_seal g)"
proof -
  have "cf_osc_prefix (cfg_seal g) = cf_osc_prefix g" by (simp add: cfg_seal_def Let_def)
  moreover have "(1 :: u16) \<le> CFG_VERSION" by (simp add: CFG_VERSION_def)
  ultimately show ?thesis using cfg_seal_valid [OF assms] by (simp add: cfg_accept_def)
qed

lemma cfg_addr:
  assumes "k < CFG_SIZE"
  shows "addr24 (CFG_FLASH_ADDR + of_nat k) = CFG_FLASH_ADDR + of_nat k \<and>
    drop_bit 12 (CFG_FLASH_ADDR + of_nat k) = drop_bit 12 CFG_FLASH_ADDR"
proof -
  have k: "unat (of_nat k :: u32) = k" using assms by (simp add: unat_of_nat CFG_SIZE_def)
  then have u: "unat (CFG_FLASH_ADDR + of_nat k) = 0xFFF000 + k"
    using assms by (simp add: CFG_FLASH_ADDR_def CFG_SIZE_def unat_word_ariths)
  have "addr24 a = take_bit 24 a" for a :: u32
    by (simp add: addr24_def take_bit_eq_mask mask_eq_exp_minus_1)
  then have "unat (addr24 (CFG_FLASH_ADDR + of_nat k)) = (0xFFF000 + k) mod 2 ^ 24"
    by (simp only: unat_take_bit u)
  then have "unat (addr24 (CFG_FLASH_ADDR + of_nat k)) = unat (CFG_FLASH_ADDR + of_nat k)"
    using assms by (simp only: u) (simp add: CFG_SIZE_def)
  moreover have "unat (drop_bit 12 (CFG_FLASH_ADDR + of_nat k)) = unat (drop_bit 12 CFG_FLASH_ADDR)"
    using assms by (simp only: unat_drop_bit u) (simp add: CFG_SIZE_def CFG_FLASH_ADDR_def)
  ultimately show ?thesis by (simp only: word_unat_eq_iff)
qed

context flash_device
begin

lemma cfg_roundtrip:
  assumes "busy d = 0" "cfg_wf g" "cfg_save xfer g d = (g', d')"
  shows "g' = cfg_seal g \<and> busy d' = 0 \<and> (\<exists>d''. cfg_load xfer d' =
    (1, if cf_osc_prefix g \<noteq> 16 \<and> cf_osc_prefix g \<noteq> 24 then default_osc g' else g', d''))"
proof -
  have g': "g' = cfg_seal g" and d': "d' = cfgflash_program xfer CFG_FLASH_ADDR (cfg_bytes g') (cfgflash_erase_4k xfer CFG_FLASH_ADDR d)"
    using assms(3) by (auto simp: cfg_save_def Let_def)
  have wf: "cfg_wf g'" using assms(2) by (simp add: g' cfg_seal_wf)
  have len: "length (cfg_bytes g') = CFG_SIZE" using wf by (rule length_cfg_bytes)
  have a0: "addr24 CFG_FLASH_ADDR = CFG_FLASH_ADDR"
    using cfg_addr [of 0] by (simp add: CFG_SIZE_def)
  have rd: "busy d' = 0 \<and> fst (cfgflash_read xfer CFG_FLASH_ADDR CFG_SIZE d') = cfg_bytes g'"
    using erase_program_read [OF assms(1) _ _ a0 d'] cfg_addr len by (simp add: CFG_SIZE_def)
  then show ?thesis
    using cfg_accept_seal [OF assms(2)] cfg_of_bytes_cfg_bytes [OF wf]
    by (auto simp: cfg_load_def split_beta g')
qed

end

section \<open>Properties\<close>

text \<open>
  C34: on any flash that keeps the laws of \<open>flash_device\<close>, what \<^theory_text>\<open>cfg_save\<close> writes
  \<^theory_text>\<open>cfg_load\<close> reads back and accepts, every field as it was, but for an OSC prefix that is
  neither 16 nor 24, which gets the default address.
\<close>

theorem cfg_save_load:
  assumes "flash_device xfer mem wel busy" "busy d = 0" "cfg_wf g" "cfg_save xfer g d = (g', d')"
  shows "g' = cfg_seal g \<and> (\<exists>d''. cfg_load xfer d' =
    (1, if cf_osc_prefix g \<noteq> 16 \<and> cf_osc_prefix g \<noteq> 24 then default_osc g' else g', d''))"
  using flash_device.cfg_roundtrip [OF assms] by blast

lemma cfg_defaults_wf: "cfg_wf cfg_defaults"
  by (simp add: cfg_defaults_def default_osc_def cfg_wf_def cfg_of_bytes_def slice_def CFG_SIZE_def)

theorem cfg_save_load_witness:
  "\<exists>g' d' d''. cfg_save nor_xfer cfg_defaults \<lparr>nor_mem = (\<lambda>_. 0), nor_wel = False, nor_busy = 0\<rparr> = (g', d') \<and>
    cfg_load nor_xfer d' = (1, g', d'')"
proof -
  let ?d = "\<lparr>nor_mem = (\<lambda>_. 0), nor_wel = False, nor_busy = 0\<rparr>"
  obtain g' d' where s: "cfg_save nor_xfer cfg_defaults ?d = (g', d')" by fastforce
  have "cf_osc_prefix cfg_defaults = 16" by (simp add: cfg_defaults_def default_osc_def)
  then show ?thesis
    using cfg_save_load [OF nor.flash_device_axioms _ cfg_defaults_wf s] s by auto
qed

lemma crc_body_byte:
  assumes "i < length l" "x \<noteq> l ! i"
  shows "foldl crc_step k (l[i := x]) \<noteq> foldl crc_step k l"
proof
  assume "foldl crc_step k (l[i := x]) = foldl crc_step k l"
  moreover have "l[i := x] = take i l @ x # drop (Suc i) l" using assms(1) by (simp add: upd_conv_take_nth_drop)
  moreover have "l = take i l @ l ! i # drop (Suc i) l" using assms(1) by (rule id_take_nth_drop)
  ultimately show False using crc_steps_byte [of k "take i l" x "drop (Suc i) l" "l ! i"] assms(2) by metis
qed

text \<open>A changed byte makes the stored checksum and the computed one differ, wherever it is.\<close>

lemma cfg_corrupt_crc:
  assumes "cfg_wf g" "i < CFG_SIZE" "x \<noteq> cfg_bytes (cfg_seal g) ! i"
  defines "t \<equiv> cfg_of_bytes ((cfg_bytes (cfg_seal g))[i := x])"
  shows "cf_crc t \<noteq> cfg_crc t"
proof -
  let ?g = "cfg_seal g" and ?b = "cfg_bytes (cfg_seal g)" and ?c = "(cfg_bytes (cfg_seal g))[i := x]"
  have wf: "cfg_wf ?g" using assms(1) by (rule cfg_seal_wf)
  have len: "length ?b = CFG_SIZE" using wf by (rule length_cfg_bytes)
  have t: "cfg_bytes t = ?c" unfolding t_def using cfg_bytes_cfg_of_bytes [of ?c] len by simp
  have ct: "cfg_crc t = foldl crc_step 0x1357BD13 (take 116 ?c)"
    and cg: "cf_crc ?g = foldl crc_step 0x1357BD13 (take 116 ?b)"
    using cfg_seal_valid [OF assms(1)] t
    by (simp_all add: cfg_crc_def crc_step_def [abs_def] CFG_SIZE_def)
  have rt: "cf_crc t = rdl32 ?c 116" and rg: "cf_crc ?g = rdl32 ?b 116"
    using cfg_of_bytes_cfg_bytes [OF wf] by (simp_all add: t_def cfg_of_bytes_def cfg.defs)
      (metis cfg.select_convs(20) cfg_of_bytes_def)
  show ?thesis
  proof (cases "i < 116")
    case True
    then have "cf_crc t = cf_crc ?g" unfolding rt rg rdl32_def by simp
    moreover have "cfg_crc t \<noteq> cf_crc ?g"
      using crc_body_byte [of i "take 116 ?b" x "0x1357BD13"] True assms(3) len ct cg
      by (simp add: take_update_swap CFG_SIZE_def)
    ultimately show ?thesis by simp
  next
    case False
    have "slice 116 4 ?c ! (i - 116) \<noteq> slice 116 4 ?b ! (i - 116)"
      using False assms(2,3) len by (simp add: slice_def CFG_SIZE_def)
    then have "slice 116 4 ?c \<noteq> slice 116 4 ?b" by metis
    then have "cf_crc t \<noteq> cf_crc ?g"
      using le_slices(2) [of 116 ?c] le_slices(2) [of 116 ?b] len by (auto simp: rt rg CFG_SIZE_def)
    moreover have "cfg_crc t = cf_crc ?g" using False ct cg by simp
    ultimately show ?thesis by simp
  qed
qed

text \<open>
  A stored configuration in which any one byte has changed is refused, and the defaults
  take its place.
\<close>

theorem cfg_corrupt_byte_defaults:
  assumes "cfg_wf g" "i < CFG_SIZE" "x \<noteq> cfg_bytes (cfg_seal g) ! i"
  shows "cfg_accept (cfg_of_bytes ((cfg_bytes (cfg_seal g))[i := x])) = (0, cfg_defaults)"
  using cfg_corrupt_crc [OF assms] by (simp add: cfg_accept_def)

theorem cfg_corrupt_byte_defaults_witness:
  "cfg_accept (cfg_of_bytes ((cfg_bytes (cfg_seal cfg_defaults))
      [36 := cfg_bytes (cfg_seal cfg_defaults) ! 36 + 1])) = (0, cfg_defaults)"
  by (rule cfg_corrupt_byte_defaults [OF cfg_defaults_wf]) (simp_all add: CFG_SIZE_def)

end
