(* ===== verification/Dante_Msg.thy ===== *)
theory Dante_Msg
  imports Prelude
begin

text \<open>
  The request/response framing of the control plane, \<^theory_text>\<open>firmware/dante_msg.c\<close>: a response
  under construction is a buffer and the number of bytes used. Its abstract value is the
  used prefix; every append refines appending to that prefix.
\<close>

section \<open>The builder\<close>

definition DANTE_HDR_LEN :: nat where "DANTE_HDR_LEN = 10"
definition DANTE_CODE_OK :: u16 where "DANTE_CODE_OK = 1"
definition DANTE_CODE_MORE :: u16 where "DANTE_CODE_MORE = 0x8112"

record dante_msg =
  m_buf :: "u8 list"
  m_len :: nat

definition dante_msg_begin :: "u8 list \<Rightarrow> ptr \<Rightarrow> dante_msg" where
  "dante_msg_begin buf req = \<lparr>m_buf = put 0 [req 0, req 1, 0, 0, req 4, req 5, req 6, req 7, 0, 0] buf,
     m_len = DANTE_HDR_LEN\<rparr>"

text \<open>Storing at \<^theory_text>\<open>m->len\<close> and advancing it, what every append does.\<close>

definition dante_msg_bytes :: "u8 list \<Rightarrow> dante_msg \<Rightarrow> dante_msg" where
  "dante_msg_bytes p m = m\<lparr>m_buf := put (m_len m) p (m_buf m), m_len := m_len m + length p\<rparr>"

definition dante_msg_u8 :: "u8 \<Rightarrow> dante_msg \<Rightarrow> dante_msg" where
  "dante_msg_u8 v m = m\<lparr>m_buf := put (m_len m) [v] (m_buf m), m_len := m_len m + 1\<rparr>"

definition dante_msg_u16 :: "u16 \<Rightarrow> dante_msg \<Rightarrow> dante_msg" where
  "dante_msg_u16 v m = m\<lparr>m_buf := put (m_len m) (be16 v) (m_buf m), m_len := m_len m + 2\<rparr>"

definition dante_msg_u32 :: "u32 \<Rightarrow> dante_msg \<Rightarrow> dante_msg" where
  "dante_msg_u32 v m = m\<lparr>m_buf := put (m_len m) (be32 v) (m_buf m), m_len := m_len m + 4\<rparr>"

definition dante_msg_zeros :: "nat \<Rightarrow> dante_msg \<Rightarrow> dante_msg" where
  "dante_msg_zeros n m = m\<lparr>m_buf := put (m_len m) (replicate n 0) (m_buf m), m_len := m_len m + n\<rparr>"

fun msg_copy :: "u8 list \<Rightarrow> dante_msg \<Rightarrow> dante_msg" where
  "msg_copy [] m = m"
| "msg_copy (c # s) m = msg_copy s (dante_msg_u8 c m)"

definition dante_msg_str :: "u8 list \<Rightarrow> dante_msg \<Rightarrow> u16 \<times> dante_msg" where
  "dante_msg_str s m = (of_nat (m_len m), dante_msg_u8 0 (msg_copy s m))"

definition dante_msg_patch_u16 :: "nat \<Rightarrow> u16 \<Rightarrow> dante_msg \<Rightarrow> dante_msg" where
  "dante_msg_patch_u16 at v m = m\<lparr>m_buf := put at (be16 v) (m_buf m)\<rparr>"

definition dante_msg_finish :: "u16 \<Rightarrow> dante_msg \<Rightarrow> nat \<times> dante_msg" where
  "dante_msg_finish opcode2 m =
    (let m = dante_msg_patch_u16 2 (of_nat (m_len m)) m; m = dante_msg_patch_u16 8 opcode2 m in
     (m_len m, m))"

text \<open>The request accessors.\<close>

definition dante_req_u16 :: "ptr \<Rightarrow> nat \<Rightarrow> u16" where
  "dante_req_u16 p off = push_bit 8 (ucast (p off)) OR ucast (p (off + 1))"

lemma dante_req_rd16: "dante_req_u16 p off = rd16 p off"
  by (simp add: dante_req_u16_def rd16_def)

section \<open>The abstract value\<close>

definition msg_view :: "dante_msg \<Rightarrow> u8 list" where
  "msg_view m = take (m_len m) (m_buf m)"

text \<open>Room for \<open>n\<close> more bytes.\<close>

definition msg_room :: "dante_msg \<Rightarrow> nat \<Rightarrow> bool" where
  "msg_room m n \<longleftrightarrow> m_len m + n \<le> length (m_buf m)"

lemma length_msg_view: "msg_room m n \<Longrightarrow> length (msg_view m) = m_len m"
  by (simp add: msg_room_def msg_view_def)

lemma view_put:
  "m_len m + length p \<le> length (m_buf m) \<Longrightarrow>
   take (m_len m + length p) (put (m_len m) p (m_buf m)) = msg_view m @ p"
  by (simp add: put_def msg_view_def)

lemma dante_msg_bytes_view:
  "msg_room m (length p + n) \<Longrightarrow> msg_view (dante_msg_bytes p m) = msg_view m @ p \<and>
     msg_room (dante_msg_bytes p m) n"
  using view_put [of m p] by (simp add: msg_room_def dante_msg_bytes_def msg_view_def)

text \<open>The other appends are that one.\<close>

lemma dante_msg_appends:
  "dante_msg_u8 v = dante_msg_bytes [v]" "dante_msg_u16 w = dante_msg_bytes (be16 w)"
  "dante_msg_u32 x = dante_msg_bytes (be32 x)" "dante_msg_zeros n = dante_msg_bytes (replicate n 0)"
  by (simp_all add: fun_eq_iff dante_msg_u8_def dante_msg_u16_def dante_msg_u32_def
      dante_msg_zeros_def dante_msg_bytes_def)

text \<open>A run of appends.\<close>

definition msg_appends :: "u8 list list \<Rightarrow> dante_msg \<Rightarrow> dante_msg" where
  "msg_appends ps m = foldl (\<lambda>m p. dante_msg_bytes p m) m ps"

lemma msg_appends_view:
  "msg_room m (length (concat ps) + n) \<Longrightarrow> msg_view (msg_appends ps m) = msg_view m @ concat ps \<and>
     msg_room (msg_appends ps m) n"
proof (induction ps arbitrary: m)
  case (Cons p ps)
  then have "msg_view (dante_msg_bytes p m) = msg_view m @ p \<and> msg_room (dante_msg_bytes p m) (length (concat ps) + n)"
    using dante_msg_bytes_view [of m p "length (concat ps) + n"] by (simp add: add.assoc)
  with Cons.IH [of "dante_msg_bytes p m"] show ?case by (simp add: msg_appends_def)
qed (simp add: msg_appends_def)

lemma msg_copy_view:
  "msg_room m (length s + n) \<Longrightarrow> msg_view (msg_copy s m) = msg_view m @ s \<and>
     msg_room (msg_copy s m) n \<and> m_len (msg_copy s m) = m_len m + length s"
proof (induction s arbitrary: m)
  case (Cons c s)
  then have "msg_view (dante_msg_u8 c m) = msg_view m @ [c] \<and> msg_room (dante_msg_u8 c m) (length s + n)"
    using dante_msg_bytes_view [of m "[c]" "length s + n"] by (simp add: dante_msg_appends)
  moreover have "m_len (dante_msg_u8 c m) = m_len m + 1" by (simp add: dante_msg_u8_def)
  ultimately show ?case using Cons.IH [of "dante_msg_u8 c m"] by simp
qed simp

lemma dante_msg_str_view:
  assumes "msg_room m (length s + 1 + n)" "dante_msg_str s m = (off, m')"
  shows "off = of_nat (m_len m)" "msg_view m' = msg_view m @ s @ [0]" "msg_room m' n"
proof -
  have "msg_view (msg_copy s m) = msg_view m @ s" "msg_room (msg_copy s m) (1 + n)"
    using msg_copy_view [of m s "1 + n"] assms(1) by simp_all
  then show "off = of_nat (m_len m)" "msg_view m' = msg_view m @ s @ [0]" "msg_room m' n"
    using assms(2) dante_msg_bytes_view [of "msg_copy s m" "[0]" n]
    by (auto simp: dante_msg_str_def dante_msg_appends)
qed

lemma dante_msg_begin_view:
  assumes "10 + n \<le> length buf"
  shows "msg_view (dante_msg_begin buf req) = [req 0, req 1, 0, 0, req 4, req 5, req 6, req 7, 0, 0]"
    and "msg_room (dante_msg_begin buf req) n"
  using assms by (simp_all add: dante_msg_begin_def msg_view_def msg_room_def put_0 DANTE_HDR_LEN_def)

lemma dante_msg_finish_view:
  assumes "msg_view m = h @ body" "length h = 10" "msg_room m 0" "dante_msg_finish op m = (n, m')"
  shows "n = 10 + length body" "msg_view m' = take 2 h @ be16 (of_nat n) @ take 4 (drop 4 h) @ be16 op @ body"
proof -
  have l: "m_len m = 10 + length body" using assms(1-3) length_msg_view [of m 0] by simp
  then show n: "n = 10 + length body"
    using assms(4) by (simp add: dante_msg_finish_def Let_def dante_msg_patch_u16_def)
  define r where "r = drop (m_len m) (m_buf m)"
  have b: "m_buf m = h @ body @ r"
    using assms(1) append_take_drop_id [of "m_len m" "m_buf m"] by (simp add: msg_view_def r_def)
  obtain h0 h1 h2 h3 h4 h5 h6 h7 h8 h9 where h: "h = [h0, h1, h2, h3, h4, h5, h6, h7, h8, h9]"
    using assms(2) by (auto simp: length_Suc_conv numeral_eq_Suc)
  have "put 8 (be16 op) (put 2 (be16 v) (h @ body @ r)) =
      ([h0, h1] @ be16 v @ [h4, h5, h6, h7] @ be16 op @ body) @ r" for v
    by (simp add: h be16_def put_skip_Cons put_0)
  moreover define x where "x = [h0, h1] @ be16 (of_nat (m_len m)) @ [h4, h5, h6, h7] @ be16 op @ body"
  ultimately have "msg_view m' = take (m_len m) (x @ r)"
    using assms(4) b by (auto simp: dante_msg_finish_def Let_def dante_msg_patch_u16_def msg_view_def)
  moreover have "length x = m_len m" using l by (simp add: x_def)
  ultimately have "msg_view m' = x" by simp
  then show "msg_view m' = take 2 h @ be16 (of_nat n) @ take 4 (drop 4 h) @ be16 op @ body"
    using l n by (simp add: h x_def)
qed

section \<open>Strings by offset\<close>

text \<open>The C string a descriptor refers to: the bytes from an offset up to the first zero.\<close>

definition cstr_at :: "u8 list \<Rightarrow> nat \<Rightarrow> u8 list" where
  "cstr_at bs off = takeWhile (\<lambda>c. c \<noteq> 0) (drop off bs)"

lemma cstr_at_mid:
  assumes "0 \<notin> set s"
  shows "cstr_at (pre @ s @ 0 # post) (length pre) = s"
proof -
  have "takeWhile (\<lambda>c. c \<noteq> 0) (s @ 0 # post) = s @ takeWhile (\<lambda>c. c \<noteq> 0) (0 # post)"
    by (rule takeWhile_append2) (use assms in auto)
  then show ?thesis by (simp add: cstr_at_def)
qed

section \<open>Property\<close>

text \<open>
  A string offset a response carries is absolute. Reading the finished response, the
  10-byte header included, at the offset \<^theory_text>\<open>dante_msg_str\<close> returned gives the string,
  whatever was appended after it.
\<close>

theorem dante_msg_string_offset:
  assumes "msg_view m = h @ body" "length h = 10" "0 \<notin> set str" "dante_msg_str str m = (off, m1)"
    and "msg_room m (length str + 1 + length (concat ps))" "m_len m < 65536"
    and "dante_msg_finish op (msg_appends ps m1) = (n, m')"
  shows "cstr_at (msg_view m') (unat off) = str"
proof -
  have s: "off = of_nat (m_len m)" "msg_view m1 = msg_view m @ str @ [0]" "msg_room m1 (length (concat ps) + 0)"
    using dante_msg_str_view [OF assms(5) assms(4)] by simp_all
  have a: "msg_view (msg_appends ps m1) = h @ body @ str @ 0 # concat ps" "msg_room (msg_appends ps m1) 0"
    using msg_appends_view [OF s(3)] s(2) assms(1) by simp_all
  obtain h' where h': "msg_view m' = h' @ body @ str @ 0 # concat ps" "length h' = 10"
    using dante_msg_finish_view [OF a(1) assms(2) a(2) assms(7)] assms(2) by auto
  have "m_len m = 10 + length body"
    using length_msg_view [OF assms(5)] assms(1,2) by simp
  then have "unat off = length (h' @ body)"
    using s(1) assms(6) h'(2) by (simp only: unat_of_nat) simp
  then show ?thesis
    using cstr_at_mid [OF assms(3), of "h' @ body" "concat ps"] h'(1) by simp
qed

theorem dante_msg_string_offset_witness:
  "\<exists>off m1 n m'. dante_msg_str [65, 66] (dante_msg_begin (replicate 64 0) (\<lambda>_. 7)) = (off, m1) \<and>
    dante_msg_finish DANTE_CODE_OK (msg_appends [[1, 2]] m1) = (n, m') \<and>
    cstr_at (msg_view m') (unat off) = [65, 66]"
proof -
  let ?m = "dante_msg_begin (replicate 64 0) (\<lambda>_. 7)"
  obtain off m1 where s: "dante_msg_str [65, 66] ?m = (off, m1)" by fastforce
  obtain n m' where f: "dante_msg_finish DANTE_CODE_OK (msg_appends [[1, 2]] m1) = (n, m')" by fastforce
  have v: "msg_view ?m = [7, 7, 0, 0, 7, 7, 7, 7, 0, 0] @ []" "msg_room ?m 54"
    using dante_msg_begin_view [of 54 "replicate 64 0" "\<lambda>_. 7"] by simp_all
  have "m_len ?m < 65536" by (simp add: dante_msg_begin_def DANTE_HDR_LEN_def)
  then have "cstr_at (msg_view m') (unat off) = [65, 66]"
    by (intro dante_msg_string_offset [OF v(1) _ _ s _ _ f]) (use v(2) in \<open>simp_all add: msg_room_def\<close>)
  with s f show ?thesis by blast
qed

end
