(* ===== verification/Dante_Dev.thy ===== *)
theory Dante_Dev
  imports Dante_Msg Cap_Serve
begin

text \<open>
  The identity of the device, \<^theory_text>\<open>firmware/dante_dev.c\<close>, and the CMC server that
  advertises it, \<^theory_text>\<open>firmware/dante_cmc.c\<close>. A C string is the list of its bytes up to the
  terminating NUL.
\<close>

section \<open>Identity\<close>

definition DANTE_MAX_NAME :: nat where "DANTE_MAX_NAME = 32"
definition DANTE_TX_CHANNELS :: nat where "DANTE_TX_CHANNELS = 48"
definition DANTE_PORT_CMC :: u16 where "DANTE_PORT_CMC = 8800"
definition DANTE_PORT_INFO_REQ :: u16 where "DANTE_PORT_INFO_REQ = 8700"

record dante_dev =
  dd_mac :: mac6
  device_id :: "u8 list"
  dd_name :: "u8 list"
  hostname :: "u8 list"
  process_id :: u16
  sample_rate :: u32
  bits_per_sample :: u8

text \<open>\<open>append_str\<close>: the string so far is \<open>dst\<close>, its length the position.\<close>

fun append_str :: "u8 list \<Rightarrow> nat \<Rightarrow> u8 list \<Rightarrow> u8 list" where
  "append_str dst maxlen [] = dst"
| "append_str dst maxlen (c # s) =
    (if length dst < maxlen - 1 then append_str (dst @ [c]) maxlen s else dst)"

definition hex_digit :: "u8 \<Rightarrow> u8" where
  "hex_digit v = map (\<lambda>c. of_nat c) [48, 49, 50, 51, 52, 53, 54, 55, 56, 57, 97, 98, 99, 100, 101, 102] ! unat v"

definition append_hex2 :: "u8 list \<Rightarrow> nat \<Rightarrow> u8 \<Rightarrow> u8 list" where
  "append_hex2 dst maxlen v =
    (if length dst < maxlen - 2 then dst @ [hex_digit (drop_bit 4 v), hex_digit (v AND 0xF)] else dst)"

text \<open>The bytes of \<^theory_text>\<open>"N-Series-Switchover"\<close>.\<close>

definition dev_name :: "u8 list" where
  "dev_name = [78, 45, 83, 101, 114, 105, 101, 115, 45, 83, 119, 105, 116, 99, 104, 111, 118, 101, 114]"

fun eui64 :: "mac6 \<Rightarrow> u8 list" where
  "eui64 (a, b, c, d, e, f) = [a, b, c, 0xFF, 0xFE, d, e, f]"

definition dante_dev_init :: "mac6 \<Rightarrow> dante_dev" where
  "dante_dev_init mac =
    (let name = append_str [] DANTE_MAX_NAME dev_name in
     \<lparr>dd_mac = mac, device_id = eui64 mac, dd_name = name, hostname = name, process_id = 0,
      sample_rate = 48000, bits_per_sample = 24\<rparr>)"

definition dante_tx_channel_name :: "u16 \<Rightarrow> nat \<Rightarrow> u8 list" where
  "dante_tx_channel_name index maxlen =
    (if maxlen < 4 then []
     else (if index \<ge> 10 then [of_nat (48 + (unat index div 10) mod 10)] else []) @
       [of_nat (48 + unat index mod 10)])"

section \<open>Names fit and tell channels apart\<close>

lemma append_str_short: "length dst \<le> maxlen - 1 \<Longrightarrow> length (append_str dst maxlen s) \<le> maxlen - 1"
  by (induction dst maxlen s rule: append_str.induct) auto

lemma append_str_whole:
  "length dst + length s \<le> maxlen - 1 \<Longrightarrow> append_str dst maxlen s = dst @ s"
  by (induction dst maxlen s rule: append_str.induct) auto

lemma dante_dev_init_name: "dd_name (dante_dev_init mac) = dev_name \<and> hostname (dante_dev_init mac) = dev_name"
  by (simp add: dante_dev_init_def Let_def append_str_whole dev_name_def DANTE_MAX_NAME_def)

lemma digit_inject:
  assumes "a < 10" "b < 10" "(of_nat (48 + a) :: u8) = of_nat (48 + b)"
  shows "a = b"
proof -
  have "unat (of_nat (48 + a) :: u8) = 48 + a" "unat (of_nat (48 + b) :: u8) = 48 + b"
    using assms(1,2) by (simp_all only: unat_of_nat) simp_all
  with assms(3) show ?thesis by (metis add_left_cancel)
qed

lemma tx_channel_name_inject:
  assumes "4 \<le> maxlen" "unat i < 100" "unat j < 100"
    and "dante_tx_channel_name i maxlen = dante_tx_channel_name j maxlen"
  shows "i = j"
proof -
  have ge: "10 \<le> k \<longleftrightarrow> 10 \<le> unat k" for k :: u16 by (simp add: word_le_nat_alt)
  have d: "unat k div 10 mod 10 = unat k div 10" if "unat k < 100" for k :: u16
    using that by (simp add: less_mult_imp_div_less)
  have e: "(10 \<le> i) = (10 \<le> j)" "(of_nat (48 + unat i mod 10) :: u8) = of_nat (48 + unat j mod 10)"
    using assms(1,4) by (auto simp: dante_tx_channel_name_def split: if_splits)
  have lo: "unat i mod 10 = unat j mod 10" using e(2) by (intro digit_inject) simp_all
  have hi: "unat i div 10 = unat j div 10"
  proof (cases "10 \<le> i")
    case True
    then have "(of_nat (48 + unat i div 10 mod 10) :: u8) = of_nat (48 + unat j div 10 mod 10)"
      using assms(1,4) e(1) by (simp add: dante_tx_channel_name_def)
    then have "unat i div 10 mod 10 = unat j div 10 mod 10" by (intro digit_inject) simp_all
    then show ?thesis using d assms(2,3) by simp
  next
    case False
    then show ?thesis using e(1) by (simp add: ge)
  qed
  show ?thesis
    using lo hi by (metis div_mult_mod_eq word_unat_eq_iff)
qed

section \<open>CMC\<close>

record cmc =
  cmc_rx_count :: u32
  cmc_tx_count :: u32

text \<open>The content of a DeviceAdvertisement.\<close>

definition cmc_advert :: "dante_dev \<Rightarrow> ip4 \<Rightarrow> dante_msg \<Rightarrow> dante_msg" where
  "cmc_advert g ip m =
    (let m = dante_msg_u16 (process_id g) m;
         m = dante_msg_bytes (device_id g) m;
         m = dante_msg_u16 1 m;
         m = dante_msg_u16 0 m;
         m = dante_msg_bytes (ip_bytes ip) m;
         m = dante_msg_u16 DANTE_PORT_INFO_REQ m in
     dante_msg_u16 0 m)"

definition cmc_rx :: "dante_dev \<Rightarrow> datagram \<Rightarrow> cmc \<Rightarrow> net \<Rightarrow> cmc \<times> net" where
  "cmc_rx g d c s =
    (let req = ptr_of (dg_payload d) in
     if length (dg_payload d) < DANTE_HDR_LEN then (c, s)
     else if dante_req_u16 req 8 \<noteq> 0 then (c, s)
     else if dante_req_u16 req 6 \<noteq> 0x1001 then (c, s)
     else
       let c = c\<lparr>cmc_rx_count := cmc_rx_count c + 1\<rparr>;
           m = dante_msg_begin (drop 42 (tx_buf s)) req;
           m = cmc_advert g (g_net_ip s) m;
           (total, m) = dante_msg_finish DANTE_CODE_OK m;
           (r, s) = net_udp_commit (dg_src d) (dg_sport d) DANTE_PORT_CMC total 0
             (payload_put 0 (msg_view m) s) in
       (if r = 0 then c\<lparr>cmc_tx_count := cmc_tx_count c + 1\<rparr> else c, s))"

definition dante_cmc_init :: "net \<Rightarrow> net" where
  "dante_cmc_init nt = snd (net_udp_bind DANTE_PORT_CMC (Some Cmc_Rx) nt)"

definition cmc_reply :: "dante_dev \<Rightarrow> ip4 \<Rightarrow> ptr \<Rightarrow> u8 list" where
  "cmc_reply g ip req = [req 0, req 1] @ be16 32 @ [req 4, req 5, req 6, req 7] @ be16 DANTE_CODE_OK @
     be16 (process_id g) @ device_id g @ be16 1 @ be16 0 @ ip_bytes ip @ be16 DANTE_PORT_INFO_REQ @ be16 0"

lemma cmc_advert_view:
  assumes "msg_room m 22" "length (device_id g) = 8"
  shows "msg_view (cmc_advert g ip m) = msg_view m @ be16 (process_id g) @ device_id g @ be16 1 @ be16 0 @
      ip_bytes ip @ be16 DANTE_PORT_INFO_REQ @ be16 0"
    and "msg_room (cmc_advert g ip m) 0"
proof -
  let ?ps = "[be16 (process_id g), device_id g, be16 1, be16 0, ip_bytes ip, be16 DANTE_PORT_INFO_REQ, be16 0]"
  have "cmc_advert g ip m = msg_appends ?ps m"
    by (simp add: cmc_advert_def Let_def dante_msg_appends msg_appends_def)
  moreover have "msg_room m (length (concat ?ps) + 0)" using assms by simp
  note msg_appends_view [OF this]
  ultimately show "msg_view (cmc_advert g ip m) = msg_view m @ be16 (process_id g) @ device_id g @ be16 1 @
      be16 0 @ ip_bytes ip @ be16 DANTE_PORT_INFO_REQ @ be16 0"
    "msg_room (cmc_advert g ip m) 0"
    by simp_all
qed

lemma cmc_rx_ok:
  assumes wf: "tx_wf s" and id: "length (device_id g) = 8" and req: "req = ptr_of (dg_payload d)"
    and len: "10 \<le> length (dg_payload d)" and op: "dante_req_u16 req 8 = 0" "dante_req_u16 req 6 = 0x1001"
    and arp: "net_arp_lookup (dg_src d) s = (Some m, s)"
  shows "\<exists>s' F. cmc_rx g d c s = (\<lparr>cmc_rx_count = cmc_rx_count c + 1, cmc_tx_count = cmc_tx_count c + 1\<rparr>, s') \<and>
    wire s' = wire s @ [F] \<and> carries (dg_sport d) F (cmc_reply g (g_net_ip s) req)"
proof -
  let ?start = "dante_msg_begin (drop 42 (tx_buf s)) req"
  let ?m = "cmc_advert g (g_net_ip s) ?start"
  let ?body = "be16 (process_id g) @ device_id g @ be16 1 @ be16 0 @ ip_bytes (g_net_ip s) @
      be16 DANTE_PORT_INFO_REQ @ be16 0"
  have "1442 \<le> length (tx_buf s)" using wf by (rule tx_buf_len)
  then have m0: "msg_view ?start = [req 0, req 1, 0, 0, req 4, req 5, req 6, req 7, 0, 0]" "msg_room ?start 22"
    using dante_msg_begin_view [of 22 "drop 42 (tx_buf s)" req] by simp_all
  obtain n m' where fin: "dante_msg_finish DANTE_CODE_OK ?m = (n, m')" by fastforce
  have v: "msg_view ?m = [req 0, req 1, 0, 0, req 4, req 5, req 6, req 7, 0, 0] @ ?body" "msg_room ?m 0"
    using cmc_advert_view [OF m0(2) id, of "g_net_ip s"] m0(1) by simp_all
  have n: "n = 32" and m': "msg_view m' = cmc_reply g (g_net_ip s) req"
    using dante_msg_finish_view [OF v(1) _ v(2) fin] id by (simp_all add: cmc_reply_def)
  let ?p = "cmc_reply g (g_net_ip s) req"
  have l: "length ?p = 32" using id by (simp add: cmc_reply_def)
  obtain s' where s': "net_udp_commit (dg_src d) (dg_sport d) DANTE_PORT_CMC 32 0 (payload_put 0 ?p s) = (0, s')"
      "wire s' = wire s @ [udp_frame m (dg_src d) (dg_sport d) DANTE_PORT_CMC 0 ?p s @
        take (18 - length ?p) (drop (42 + length ?p) (tx_buf s))]"
    using payload_commit_ok [OF wf _ arp, of ?p "dg_sport d" DANTE_PORT_CMC 0] l by auto
  have "cmc_rx g d c s = (\<lparr>cmc_rx_count = cmc_rx_count c + 1, cmc_tx_count = cmc_tx_count c + 1\<rparr>, s')"
    using len op fin n m' s'(1)
    by (simp add: cmc_rx_def Let_def req [symmetric] DANTE_HDR_LEN_def)
  then show ?thesis
    using s'(2) udp_frame_carries [of ?p "dg_sport d" m "dg_src d" DANTE_PORT_CMC 0 s "[]"] l by simp
qed

section \<open>Properties\<close>

text \<open>
  A CMC device advertisement request is answered with one datagram to its sender: the
  request's header echoed with the total length and the OK code, then the device identity
  the other services announce. Anything else is left alone.
\<close>

theorem cmc_answers_advertisement:
  assumes "tx_wf s" "net_arp_lookup (dg_src d) s = (Some m, s)"
    and "10 \<le> length (dg_payload d)" "rd16 (ptr_of (dg_payload d)) 8 = 0"
    and "rd16 (ptr_of (dg_payload d)) 6 = 0x1001"
  shows "\<exists>s' F. cmc_rx (dante_dev_init mac) d c s =
      (\<lparr>cmc_rx_count = cmc_rx_count c + 1, cmc_tx_count = cmc_tx_count c + 1\<rparr>, s') \<and>
    wire s' = wire s @ [F] \<and>
    carries (dg_sport d) F (cmc_reply (dante_dev_init mac) (g_net_ip s) (ptr_of (dg_payload d)))"
proof -
  have "length (device_id (dante_dev_init mac)) = 8"
    by (cases mac) (simp add: dante_dev_init_def Let_def)
  then show ?thesis
    using cmc_rx_ok [OF assms(1) _ refl assms(3) _ _ assms(2)] assms(4,5) by (simp add: dante_req_rd16)
qed

definition demo_cmc :: datagram where
  "demo_cmc = \<lparr>dg_fn = Cmc_Rx, dg_src = (224, 0, 0, 1), dg_dst = (224, 0, 0, 1), dg_sport = 5000,
     dg_payload = [0x12, 0, 0, 10, 0, 1, 0x10, 0x01, 0, 0]\<rparr>"

theorem cmc_answers_advertisement_witness:
  "\<exists>s' F. cmc_rx (dante_dev_init (1, 2, 3, 4, 5, 6)) demo_cmc \<lparr>cmc_rx_count = 0, cmc_tx_count = 0\<rparr>
      (net_boot (1, 2, 3, 4, 5, 6)) = (\<lparr>cmc_rx_count = 1, cmc_tx_count = 1\<rparr>, s') \<and>
    wire s' = wire (net_boot (1, 2, 3, 4, 5, 6)) @ [F] \<and>
    carries 5000 F (cmc_reply (dante_dev_init (1, 2, 3, 4, 5, 6)) (g_net_ip (net_boot (1, 2, 3, 4, 5, 6)))
      (ptr_of (dg_payload demo_cmc)))"
proof -
  let ?s = "net_boot (1, 2, 3, 4, 5, 6)"
  have "tx_wf ?s" using net_boot_inv [of "(1, 2, 3, 4, 5, 6)"] by (simp add: net_inv_def hw_ok_def)
  moreover have "net_arp_lookup (dg_src demo_cmc) ?s = (Some (net_mcast_mac (224, 0, 0, 1)), ?s)"
    by (simp add: net_arp_lookup_def demo_cmc_def)
  ultimately show ?thesis
    using cmc_answers_advertisement [of ?s demo_cmc "net_mcast_mac (224, 0, 0, 1)" "(1, 2, 3, 4, 5, 6)"
        "\<lparr>cmc_rx_count = 0, cmc_tx_count = 0\<rparr>"]
    by (simp add: demo_cmc_def rd16_def)
qed

text \<open>
  The transmit channels of the device have different names, each of one or two digits.
\<close>

theorem tx_channel_names_distinct:
  assumes "4 \<le> maxlen" "unat i \<le> DANTE_TX_CHANNELS" "unat j \<le> DANTE_TX_CHANNELS" "i \<noteq> j"
  shows "dante_tx_channel_name i maxlen \<noteq> dante_tx_channel_name j maxlen"
  using tx_channel_name_inject [of maxlen i j] assms by (auto simp: DANTE_TX_CHANNELS_def)

theorem tx_channel_names_distinct_witness: "dante_tx_channel_name 9 8 \<noteq> dante_tx_channel_name 19 8"
  by (rule tx_channel_names_distinct) (simp_all add: DANTE_TX_CHANNELS_def)

end
