(* ===== verification/Rx_Gate.thy ===== *)
theory Rx_Gate
  imports Prelude
begin

text \<open>
  The driver of the receive filter, \<^theory_text>\<open>firmware/rx_gate.c\<close>: its static variables, the
  registers it writes, and the arming that undoes itself unless it is committed.
\<close>

section \<open>State and operations\<close>

record rx_gate =
  s_enabled :: bool
  s_pending :: bool
  s_revert_at_ms :: u32
  csr_enable :: bool
  csr_local_mac :: "u32 \<times> u32"
  csr_spare0 :: "u32 \<times> u32"
  csr_spare1 :: "u32 \<times> u32"

text \<open>A MAC address as the high and low register words.\<close>

fun mac_words :: "mac6 \<Rightarrow> u32 \<times> u32" where
  "mac_words (a, b, c, d, e, f) =
     (push_bit 8 (ucast a) OR ucast b,
      push_bit 24 (ucast c) OR push_bit 16 (ucast d) OR push_bit 8 (ucast e) OR ucast f)"

definition rx_gate_init :: "mac6 \<Rightarrow> rx_gate \<Rightarrow> rx_gate" where
  "rx_gate_init mac s =
    s\<lparr>csr_local_mac := mac_words mac, csr_enable := True, s_enabled := True, s_pending := False\<rparr>"

definition rx_gate_set :: "bool \<Rightarrow> u32 \<Rightarrow> u32 \<Rightarrow> rx_gate \<Rightarrow> rx_gate" where
  "rx_gate_set on revert_ms now s =
    (let s = s\<lparr>csr_enable := on, s_enabled := on\<rparr> in
     if on \<and> revert_ms \<noteq> 0 then s\<lparr>s_pending := True, s_revert_at_ms := now + revert_ms\<rparr>
     else s\<lparr>s_pending := False\<rparr>)"

definition rx_gate_commit :: "rx_gate \<Rightarrow> rx_gate" where
  "rx_gate_commit s = (if s_pending s then s\<lparr>s_pending := False\<rparr> else s)"

definition rx_gate_poll :: "u32 \<Rightarrow> rx_gate \<Rightarrow> rx_gate" where
  "rx_gate_poll now s =
    (if \<not> s_pending s then s
     else if sint (now - s_revert_at_ms s) \<ge> 0
     then s\<lparr>s_pending := False, csr_enable := False, s_enabled := False\<rparr> else s)"

record rx_gate_status =
  st_enabled :: bool
  st_pending_revert :: bool
  st_revert_in_ms :: u32
  st_match :: u32
  st_nomatch :: u32
  st_discarded :: u32
  st_last_drop_mac :: mac6

text \<open>The counters and the last dropped address are registers the gateware keeps.\<close>

definition rx_gate_get_status :: "u32 \<Rightarrow> u32 \<times> u32 \<Rightarrow> u32 \<times> u32 \<times> u32 \<Rightarrow> rx_gate \<Rightarrow> rx_gate_status" where
  "rx_gate_get_status now last_drop counts s =
    (case (last_drop, counts) of ((hi, lo), (a, b, c)) \<Rightarrow>
     \<lparr>st_enabled = s_enabled s, st_pending_revert = s_pending s,
      st_revert_in_ms = (if s_pending s then
        (let left = s_revert_at_ms s - now in if sint left > 0 then left else 0) else 0),
      st_match = a, st_nomatch = b, st_discarded = c,
      st_last_drop_mac = (ucast (drop_bit 8 hi), ucast hi, ucast (drop_bit 24 lo), ucast (drop_bit 16 lo),
        ucast (drop_bit 8 lo), ucast lo)\<rparr>)"

definition rx_gate_add_mac :: "nat \<Rightarrow> mac6 option \<Rightarrow> rx_gate \<Rightarrow> int \<times> rx_gate" where
  "rx_gate_add_mac slot mac s =
    (let w = (case mac of None \<Rightarrow> (0, 0) | Some m \<Rightarrow> mac_words m) in
     if slot = 0 then (0, s\<lparr>csr_spare0 := w\<rparr>)
     else if slot = 1 then (0, s\<lparr>csr_spare1 := w\<rparr>)
     else (-1, s))"

section \<open>Invariant\<close>

datatype gate_event = Gate_Init mac6 | Gate_Set bool u32 u32 | Gate_Commit | Gate_Poll u32
  | Gate_Add nat "mac6 option"

fun gate_step :: "rx_gate \<Rightarrow> gate_event \<Rightarrow> rx_gate" where
  "gate_step s (Gate_Init m) = rx_gate_init m s"
| "gate_step s (Gate_Set on r now) = rx_gate_set on r now s"
| "gate_step s Gate_Commit = rx_gate_commit s"
| "gate_step s (Gate_Poll now) = rx_gate_poll now s"
| "gate_step s (Gate_Add k m) = snd (rx_gate_add_mac k m s)"

definition gate_inv :: "rx_gate \<Rightarrow> bool" where
  "gate_inv s \<longleftrightarrow> s_enabled s = csr_enable s \<and> (s_pending s \<longrightarrow> s_enabled s)"

interpretation gate: machine gate_step gate_inv
proof unfold_locales
  show "gate_inv s \<Longrightarrow> gate_inv (gate_step s e)" for s e
    by (cases e) (auto simp: gate_inv_def rx_gate_init_def rx_gate_set_def rx_gate_commit_def
        rx_gate_poll_def rx_gate_add_mac_def Let_def)
qed

section \<open>Properties\<close>

text \<open>
  An arming requested over the network is provisional. Until \<open>r\<close> milliseconds have
  passed a poll leaves the filter on, from then on the first poll turns it off, wherever
  the 32-bit clock wraps; a commit before that keeps it on for good.
\<close>

theorem rx_gate_auto_reverts:
  assumes "0 < unat r" "unat r \<le> 2 ^ 31" "unat (now - t0) < 2 ^ 31"
  shows "csr_enable (rx_gate_poll now (rx_gate_set True r t0 s)) = (unat (now - t0) < unat r) \<and>
    csr_enable (rx_gate_poll now (rx_gate_commit (rx_gate_set True r t0 s)))"
  using assms due_iff [OF assms(2,3)]
  by (auto simp: rx_gate_poll_def rx_gate_set_def rx_gate_commit_def Let_def)

definition demo_gate :: rx_gate where
  "demo_gate = \<lparr>s_enabled = False, s_pending = False, s_revert_at_ms = 0, csr_enable = False,
     csr_local_mac = (0, 0), csr_spare0 = (0, 0), csr_spare1 = (0, 0)\<rparr>"

theorem rx_gate_auto_reverts_witness:
  "csr_enable (rx_gate_poll 5 (rx_gate_set True 100 0xFFFFFFF0 demo_gate)) = (unat (5 - 0xFFFFFFF0 :: u32) < unat (100 :: u32)) \<and>
   csr_enable (rx_gate_poll 5 (rx_gate_commit (rx_gate_set True 100 0xFFFFFFF0 demo_gate)))"
  by (rule rx_gate_auto_reverts) simp_all

text \<open>
  Whatever is set, committed, polled or added, the state the firmware reports is the
  state of the filter, and nothing is pending on a filter that is off.
\<close>

theorem rx_gate_state_is_real:
  "\<exists>s. s = foldl gate_step (rx_gate_init mac s0) es \<and> s_enabled s = csr_enable s \<and>
    \<not> (s_pending s \<and> \<not> csr_enable s)"
proof -
  have "gate_inv (rx_gate_init mac s0)" by (simp add: gate_inv_def rx_gate_init_def)
  from gate.run_inv [OF this, of es] show ?thesis by (auto simp: gate_inv_def)
qed

end
