(* ===== verification/Telem.thy ===== *)
theory Telem
  imports Net_Rx
begin

text \<open>
  The telemetry ring, \<^theory_text>\<open>firmware/telem.c\<close>: records pushed on events, numbered, drained by
  the host at most sixteen at a time.
\<close>

section \<open>State and operations\<close>

definition TELEM_RING_RECS :: nat where "TELEM_RING_RECS = 96"
definition TELEM_REC_BYTES :: u32 where "TELEM_REC_BYTES = 28"
definition TELEM_MAX_PER_REPLY :: nat where "TELEM_MAX_PER_REPLY = 16"
definition TELEM_PORT :: u16 where "TELEM_PORT = 7779"
definition TELEM_T_EVENT :: u8 where "TELEM_T_EVENT = 3"

record telem_rec =
  tr_seq :: u32
  tr_t_ms :: u32
  tr_type :: u8
  tr_flags :: u8
  tr_aux :: u16
  tr_v :: "u32 \<times> u32 \<times> u32 \<times> u32"

record telem =
  ring :: "telem_rec list"
  next_seq :: u32
  dropped :: u32

text \<open>A push without its number and slot: type, flags, aux, the four values, the clock.\<close>

type_synonym telem_item = "u8 \<times> u8 \<times> u16 \<times> (u32 \<times> u32 \<times> u32 \<times> u32) \<times> u32"

definition telem_record :: "u32 \<Rightarrow> telem_item \<Rightarrow> telem_rec" where
  "telem_record sq x = (case x of (ty, fl, aux, v, now) \<Rightarrow>
     \<lparr>tr_seq = sq, tr_t_ms = now, tr_type = ty, tr_flags = fl, tr_aux = aux, tr_v = v\<rparr>)"

definition telem_push :: "telem \<Rightarrow> telem_item \<Rightarrow> telem" where
  "telem_push s x =
    (let k = unat (next_seq s mod of_nat TELEM_RING_RECS); r = ring s ! k;
         d = (if tr_seq r \<noteq> 0 \<and> next_seq s - tr_seq r \<ge> of_nat TELEM_RING_RECS
              then dropped s + 1 else dropped s) in
     s\<lparr>dropped := d, ring := (ring s)[k := telem_record (next_seq s) x], next_seq := next_seq s + 1\<rparr>)"

definition telem_event :: "u16 \<Rightarrow> u32 \<Rightarrow> u32 \<Rightarrow> u32 \<Rightarrow> telem \<Rightarrow> telem" where
  "telem_event event_id a b now s = telem_push s (TELEM_T_EVENT, 0, event_id, (a, b, 0, 0), now)"

definition telem0 :: telem where
  "telem0 = \<lparr>ring = replicate TELEM_RING_RECS (telem_record 0 (0, 0, 0, (0, 0, 0, 0), 0)),
     next_seq = 1, dropped = 0\<rparr>"

definition telem_bytes :: "telem_rec \<Rightarrow> u8 list" where
  "telem_bytes r = (case tr_v r of (a, b, c, d) \<Rightarrow>
     be32 (tr_seq r) @ be32 (tr_t_ms r) @
     be32 (push_bit 24 (ucast (tr_type r)) OR push_bit 16 (ucast (tr_flags r)) OR ucast (tr_aux r)) @
     be32 a @ be32 b @ be32 c @ be32 d)"

lemma want_step: "(w :: u32) < b \<Longrightarrow> unat (w + 1) = unat w + 1"
  using unat_u32_less [of b] by (simp add: unat_word_ariths word_less_nat_alt)

text \<open>The emission loop; \<open>n\<close> counts the records emitted.\<close>

function telem_emit :: "telem \<Rightarrow> u32 \<Rightarrow> nat \<Rightarrow> telem_rec list" where
  "telem_emit s want n =
    (if want < next_seq s \<and> n < TELEM_MAX_PER_REPLY then
       (let r = ring s ! unat (want mod of_nat TELEM_RING_RECS) in
        if tr_seq r \<noteq> want then telem_emit s (want + 1) n
        else r # telem_emit s (want + 1) (n + 1))
     else [])"
  by pat_completeness auto

termination
  by (relation "measure (\<lambda>(s, want, n). unat (next_seq s) - unat want)")
    (auto simp: want_step word_less_nat_alt)

declare telem_emit.simps [simp del]

definition telem_oldest :: "telem \<Rightarrow> u32" where
  "telem_oldest s = (if next_seq s > of_nat TELEM_RING_RECS then next_seq s - of_nat TELEM_RING_RECS else 1)"

definition telem_reply :: "u8 list \<Rightarrow> telem \<Rightarrow> u8 list" where
  "telem_reply req s =
    (let want = (if length req \<ge> 5 then rd32 (ptr_of req) 1 else 0);
         oldest = telem_oldest s;
         want = (if want < oldest then oldest else want) in
     be32 0x544C4D31 @ be32 TELEM_REC_BYTES @ be32 oldest @ be32 (next_seq s) @ be32 (dropped s) @
     concat (map telem_bytes (telem_emit s want 0)))"

definition telem_rx :: "ip4 \<Rightarrow> u16 \<Rightarrow> u8 list \<Rightarrow> telem \<Rightarrow> net \<Rightarrow> net" where
  "telem_rx src sport req s nt =
    (let p = telem_reply req s in
     snd (net_udp_commit src sport TELEM_PORT (length p) 0 (payload_put 0 p nt)))"

section \<open>The ring after any number of pushes\<close>

lemma rec_simps [simp]: "tr_seq (telem_record q x) = q"
  by (simp add: telem_record_def split: prod.split)

text \<open>The state after \<open>xs\<close>: which record each slot holds and what was counted.\<close>

definition telem_holds :: "telem_item list \<Rightarrow> telem \<Rightarrow> bool" where
  "telem_holds xs s \<longleftrightarrow> length (ring s) = 96 \<and> next_seq s = of_nat (length xs + 1) \<and>
     dropped s = of_nat (length xs - 96) \<and>
     (\<forall>q. length xs < q \<longrightarrow> q \<le> 96 \<longrightarrow> tr_seq (ring s ! (q mod 96)) = 0) \<and>
     (\<forall>q. 1 \<le> q \<longrightarrow> q \<le> length xs \<longrightarrow> length xs < q + 96 \<longrightarrow>
        ring s ! (q mod 96) = telem_record (of_nat q) (xs ! (q - 1)))"

lemma telem_slot:
  assumes "q < 2 ^ 32"
  shows "unat ((of_nat q :: u32) mod of_nat TELEM_RING_RECS) = q mod 96"
  using assms by (simp add: TELEM_RING_RECS_def unat_mod unat_of_nat)

lemma telem_push_dropped:
  assumes h: "telem_holds xs s" and n: "length xs + 1 < 2 ^ 32"
  shows "dropped (telem_push s x) = of_nat (length xs + 1 - 96)"
proof -
  let ?q = "length xs + 1"
  let ?r = "ring s ! (?q mod 96)"
  have ns: "next_seq s = of_nat ?q" using h by (simp add: telem_holds_def)
  have d: "dropped s = of_nat (length xs - 96)" using h by (simp add: telem_holds_def)
  have push: "dropped (telem_push s x) =
      (if tr_seq ?r \<noteq> 0 \<and> of_nat ?q - tr_seq ?r \<ge> of_nat TELEM_RING_RECS then dropped s + 1 else dropped s)"
    unfolding telem_push_def Let_def ns telem_slot [OF n] by simp
  show ?thesis
  proof (cases "?q \<le> 96")
    case True
    then have "tr_seq ?r = 0" using h by (simp add: telem_holds_def)
    then show ?thesis using push d True by simp
  next
    case False
    then have m: "(?q - 96) mod 96 = ?q mod 96" "1 \<le> ?q - 96" "?q - 96 \<le> length xs" "length xs < ?q - 96 + 96"
      using le_mod_geq [of 96 ?q] by simp_all
    have "\<And>q. 1 \<le> q \<Longrightarrow> q \<le> length xs \<Longrightarrow> length xs < q + 96 \<Longrightarrow>
        ring s ! (q mod 96) = telem_record (of_nat q) (xs ! (q - 1))"
      using h by (simp add: telem_holds_def)
    from this [OF m(2-4)] have r: "tr_seq ?r = of_nat (?q - 96)" by (simp only: m(1) rec_simps)
    have u: "unat (of_nat (?q - 96) :: u32) = ?q - 96" using n by (simp only: unat_of_nat) simp
    then have nz: "(of_nat (?q - 96) :: u32) \<noteq> 0" using m(2) by auto
    have "(of_nat (?q - 96 + 96) :: u32) = of_nat (?q - 96) + 96" by (simp only: of_nat_add) simp
    moreover have "?q - 96 + 96 = ?q" using False by simp
    ultimately have "(of_nat ?q :: u32) = of_nat (?q - 96) + 96" by (simp only:)
    then have "(of_nat ?q :: u32) - of_nat (?q - 96) = 96" by simp
    then have "dropped (telem_push s x) = dropped s + 1"
      using nz unfolding push r TELEM_RING_RECS_def by (simp only: if_True simp_thms) simp
    then show ?thesis using d False by (simp add: Suc_diff_le)
  qed
qed

lemma telem_push_holds:
  assumes h: "telem_holds xs s" and n: "length xs + 1 < 2 ^ 32"
  shows "telem_holds (xs @ [x]) (telem_push s x)"
proof -
  let ?q = "length xs + 1"
  have len: "length (ring s) = 96" and ns: "next_seq s = of_nat ?q"
    and empty: "\<And>q. length xs < q \<Longrightarrow> q \<le> 96 \<Longrightarrow> tr_seq (ring s ! (q mod 96)) = 0"
    and full: "\<And>q. 1 \<le> q \<Longrightarrow> q \<le> length xs \<Longrightarrow> length xs < q + 96 \<Longrightarrow>
        ring s ! (q mod 96) = telem_record (of_nat q) (xs ! (q - 1))"
    using h by (auto simp: telem_holds_def)
  have r': "ring (telem_push s x) = (ring s)[?q mod 96 := telem_record (of_nat ?q) x]"
    and ns': "next_seq (telem_push s x) = of_nat (?q + 1)"
    unfolding telem_push_def Let_def ns telem_slot [OF n] by simp_all
  have other: "p mod 96 \<noteq> ?q mod 96" if "p < ?q + 96" "?q < p + 96" "p \<noteq> ?q" for p
  proof
    assume "p mod 96 = ?q mod 96"
    then have "96 dvd (p - ?q)" "96 dvd (?q - p)"
      by (metis mod_eq_dvd_iff_nat nat_le_linear diff_is_0_eq' dvd_0_right)+
    then show False using that by (auto dest!: dvd_imp_le)
  qed
  have slot: "ring (telem_push s x) ! (p mod 96) =
      (if p = ?q then telem_record (of_nat ?q) x else ring s ! (p mod 96))"
    if "p < ?q + 96" "?q < p + 96" for p
    using other [OF that] len by (auto simp: r')
  show ?thesis
    unfolding telem_holds_def
  proof (intro conjI allI impI)
    show "length (ring (telem_push s x)) = 96" using len by (simp add: r')
    show "next_seq (telem_push s x) = of_nat (length (xs @ [x]) + 1)" using ns' by simp
    show "dropped (telem_push s x) = of_nat (length (xs @ [x]) - 96)"
      using telem_push_dropped [OF h n, of x] by simp
  next
    fix p assume "length (xs @ [x]) < p" "p \<le> 96"
    then show "tr_seq (ring (telem_push s x) ! (p mod 96)) = 0"
      using slot [of p] empty [of p] by simp
  next
    fix p assume p: "1 \<le> p" "p \<le> length (xs @ [x])" "length (xs @ [x]) < p + 96"
    then show "ring (telem_push s x) ! (p mod 96) = telem_record (of_nat p) ((xs @ [x]) ! (p - 1))"
      using slot [of p] full [of p] by (cases "p = ?q") (auto simp: nth_append)
  qed
qed

lemma telem_run_holds: "length xs + 1 < 2 ^ 32 \<Longrightarrow> telem_holds xs (foldl telem_push telem0 xs)"
proof (induction xs rule: rev_induct)
  case Nil
  then show ?case by (simp add: telem_holds_def telem0_def TELEM_RING_RECS_def)
next
  case (snoc x xs)
  then show ?case using telem_push_holds [of xs "foldl telem_push telem0 xs" x] by simp
qed

section \<open>A drain\<close>

lemma telem_emit_run:
  assumes h: "telem_holds xs s" and n: "length xs + 1 < 2 ^ 32"
  shows "1 \<le> w \<Longrightarrow> length xs < w + 96 \<Longrightarrow> w \<le> length xs + 1 \<Longrightarrow> e \<le> 16 \<Longrightarrow>
    telem_emit s (of_nat w) e =
      map (\<lambda>q. telem_record (of_nat q) (xs ! (q - 1))) [w..<min (length xs + 1) (w + (16 - e))]"
proof (induction "length xs + 1 - w" arbitrary: w e)
  case 0
  then have "w = length xs + 1" by simp
  then show ?case using h by (simp add: telem_emit.simps [of s] telem_holds_def)
next
  case (Suc m)
  have w: "unat (of_nat w :: u32) = w" "unat (of_nat (length xs + 1) :: u32) = length xs + 1"
    using Suc.prems n by (simp_all add: unat_of_nat del: of_nat_add of_nat_Suc)
  have lt: "(of_nat w :: u32) < next_seq s"
    using h Suc.hyps(2) w by (simp only: telem_holds_def word_less_nat_alt)
  have r: "ring s ! (w mod 96) = telem_record (of_nat w) (xs ! (w - 1))"
    using h Suc.prems Suc.hyps(2) by (simp add: telem_holds_def)
  have w32: "w < 2 ^ 32" using Suc.prems n by simp
  show ?case
  proof (cases "e < 16")
    case False
    then have "e = 16" using Suc.prems by simp
    then show ?thesis by (simp add: telem_emit.simps [of s] TELEM_MAX_PER_REPLY_def)
  next
    case True
    have "telem_emit s (of_nat w) e = telem_record (of_nat w) (xs ! (w - 1)) # telem_emit s (of_nat w + 1) (e + 1)"
      unfolding telem_emit.simps [of s "of_nat w" e] telem_slot [OF w32] Let_def
      using lt True r by (simp add: TELEM_MAX_PER_REPLY_def)
    also have "telem_emit s (of_nat w + 1) (e + 1) = telem_emit s (of_nat (w + 1)) (e + 1)"
      by (simp add: add.commute)
    also have "\<dots> = map (\<lambda>q. telem_record (of_nat q) (xs ! (q - 1)))
        [w + 1..<min (length xs + 1) (w + 1 + (16 - (e + 1)))]"
      using Suc.prems Suc.hyps(2) True by (intro Suc.hyps(1)) simp_all
    also have "w + 1 + (16 - (e + 1)) = w + (16 - e)" using True by simp
    finally have "telem_emit s (of_nat w) e = telem_record (of_nat w) (xs ! (w - 1)) #
        map (\<lambda>q. telem_record (of_nat q) (xs ! (q - 1))) [w + 1..<min (length xs + 1) (w + (16 - e))]" .
    moreover have "w < min (length xs + 1) (w + (16 - e))" using True Suc.hyps(2) by arith
    then have "[w..<min (length xs + 1) (w + (16 - e))] = w # [w + 1..<min (length xs + 1) (w + (16 - e))]"
      by (simp only: upt_conv_Cons Suc_eq_plus1)
    ultimately show ?thesis by (simp only: list.map)
  qed
qed

section \<open>Properties\<close>

text \<open>
  C37: after any number of pushes short of the wrap of the 32-bit counter, the ring holds the
  last 96 records, each under its own number; and the count of dropped records is the
  number of pushes beyond 96, whether the host had drained them or not.
\<close>

theorem telem_ring_holds:
  assumes "length xs < 4294967295" "1 \<le> q" "q \<le> length xs" "length xs < q + 96"
  shows "ring (foldl telem_push telem0 xs) ! (q mod 96) = telem_record (of_nat q) (xs ! (q - 1)) \<and>
    dropped (foldl telem_push telem0 xs) = of_nat (length xs - 96)"
  using telem_run_holds [of xs] assms by (simp add: telem_holds_def)

theorem telem_ring_holds_witness:
  "ring (foldl telem_push telem0 (replicate 100 (1, 2, 3, (4, 5, 6, 7), 8))) ! (100 mod 96) =
     telem_record (of_nat 100) (replicate 100 (1, 2, 3, (4, 5, 6, 7), 8) ! (100 - 1)) \<and>
   dropped (foldl telem_push telem0 (replicate 100 (1, 2, 3, (4, 5, 6, 7), 8))) =
     of_nat (length (replicate 100 (1 :: u8, 2 :: u8, 3 :: u16, (4 :: u32, 5 :: u32, 6 :: u32, 7 :: u32), 8 :: u32)) - 96)"
  by (rule telem_ring_holds) simp_all

text \<open>
  A drain asking for a record still in the ring gets it and the records after it, in
  order and without a gap, at most sixteen.
\<close>

theorem telem_drain_in_order:
  assumes "length xs < 4294967295" "1 \<le> w" "length xs < w + 96" "w \<le> length xs + 1"
  shows "telem_emit (foldl telem_push telem0 xs) (of_nat w) 0 =
    map (\<lambda>q. telem_record (of_nat q) (xs ! (q - 1))) [w..<min (length xs + 1) (w + 16)]"
  using telem_emit_run [OF telem_run_holds, of xs w 0] assms by simp

theorem telem_drain_in_order_witness:
  "telem_emit (foldl telem_push telem0 [(1, 2, 3, (4, 5, 6, 7), 8), (9, 2, 3, (4, 5, 6, 7), 8)]) (of_nat 2) 0 =
    map (\<lambda>q. telem_record (of_nat q) ([(1, 2, 3, (4, 5, 6, 7), 8), (9, 2, 3, (4, 5, 6, 7), 8)] ! (q - 1)))
      [2..<min (length [(1 :: u8, 2 :: u8, 3 :: u16, (4 :: u32, 5 :: u32, 6 :: u32, 7 :: u32), 8 :: u32),
        (9, 2, 3, (4, 5, 6, 7), 8)] + 1) (2 + 16)]"
  by (rule telem_drain_in_order) simp_all

end
