(* ===== verification/Dante_Tx.thy ===== *)
theory Dante_Tx
  imports Dante_Dev Telem
begin

text \<open>
  The audio talker, \<^theory_text>\<open>firmware/dante_tx.c\<close>: the table of flows, the packetizer contexts
  they are bound to, binding and releasing them. The media clock and \<^theory_text>\<open>dante_tx_poll\<close> are
  in theory Dante_Tx_Clock. The registers of the packetizer are fields of the state; what
  the code reads from it is an argument.
\<close>

section \<open>State\<close>

definition N_FLOWS :: nat where "N_FLOWS = 6"
definition DANTE_PORT_MEDIA :: u16 where "DANTE_PORT_MEDIA = 4321"
definition DANTE_TX_IP_TOS :: u8 where "DANTE_TX_IP_TOS = 0xB8"
definition DANTE_TX_IP_TTL :: u8 where "DANTE_TX_IP_TTL = 1"

record flow_slot =
  in_use :: bool
  peer :: ip4
  last_ms :: u32
  rebinds :: u32
  fl_dst :: ip4
  fl_dport :: u16
  fl_nslots :: u8
  fl_fpp :: u8
  fl_mcast :: bool
  ext_id :: u16
  fl_chans :: "u16 list"
  fl_dmac :: mac6

text \<open>The registers of one packetizer context.\<close>

record pkt_ctx =
  chmap_lo :: u32
  chmap_hi :: u32
  cx_dst_ip :: u32
  ip_csum :: u16
  udp_sport :: u16
  udp_dport :: u16
  dst_mac_hi :: u32
  dst_mac_lo :: u32
  flow_phase :: u32
  flow_cfg :: u32

record tx_stats =
  enables :: u32
  disables :: u32
  anchors :: u32
  st_trim_ppb :: int
  st_drift :: int

record tx =
  flows :: "flow_slot list"
  flow_ip :: "ip4 list"
  ctxs :: "pkt_ctx list"
  talker_on :: bool
  pkt_enable :: bool
  ts_offset_samples :: int
  ts_load :: "u32 \<times> u32"
  src_regs :: "u32 \<times> u32 \<times> u32 \<times> u8 \<times> u8"
  tx_stats :: tx_stats
  tx_telem :: telem
  mdns_announces :: nat
  last_eff :: u32
  lock_since :: u32
  was_locked :: bool
  seen_steps :: "u32 option"
  last_servo_ms :: u32
  trim_ppb :: int
  bad_streak :: nat
  g_mcast_fpp :: u16
  g_phase_adj :: u32
  g_fpp_max_accept :: u8
  g_fpp_clamp :: bool
  g_latency_ns :: u32
  g_latency_autoraise :: bool

definition log_event :: "u16 \<Rightarrow> u32 \<Rightarrow> u32 \<Rightarrow> u32 \<Rightarrow> tx \<Rightarrow> tx" where
  "log_event e a b now s = s\<lparr>tx_telem := telem_event e a b now (tx_telem s)\<rparr>"

definition mdns_announce :: "tx \<Rightarrow> tx" where
  "mdns_announce s = s\<lparr>mdns_announces := mdns_announces s + 1\<rparr>"

section \<open>Headers and pacing tables\<close>

fun ip_word :: "ip4 \<Rightarrow> u32" where
  "ip_word (a, b, c, d) = push_bit 24 (ucast a) OR push_bit 16 (ucast b) OR push_bit 8 (ucast c) OR ucast d"

fun mac_hi_word :: "mac6 \<Rightarrow> u32" where
  "mac_hi_word (a, b, c, d, e, f) = push_bit 8 (ucast a) OR ucast b"

fun mac_lo_word :: "mac6 \<Rightarrow> u32" where
  "mac_lo_word (a, b, c, d, e, f) =
     push_bit 24 (ucast c) OR push_bit 16 (ucast d) OR push_bit 8 (ucast e) OR ucast f"

fun ip_header_checksum :: "ip4 \<Rightarrow> ip4 \<Rightarrow> u16 \<Rightarrow> u8 \<Rightarrow> u8 \<Rightarrow> u16" where
  "ip_header_checksum (s0, s1, s2, s3) (d0, d1, d2, d3) total_len tos ttl =
    (let acc = 0 :: u32;
         acc = acc + ((0x4500 OR ucast tos) AND 0xFFFF);
         acc = acc + ucast total_len;
         acc = acc + (push_bit 8 (ucast ttl) OR 17);
         acc = acc + (push_bit 8 (ucast s0) OR ucast s1);
         acc = acc + (push_bit 8 (ucast s2) OR ucast s3);
         acc = acc + (push_bit 8 (ucast d0) OR ucast d1);
         acc = acc + (push_bit 8 (ucast d2) OR ucast d3) in
     ucast (NOT (csum_fold acc) AND 0xFFFF))"

definition k_fpp_table :: "u16 list" where
  "k_fpp_table = [8, 16, 24, 32, 60, 4, 2, 48]"

definition dante_tx_fpp_supported :: "tx \<Rightarrow> u16 \<Rightarrow> bool" where
  "dante_tx_fpp_supported s fpp =
    (if fpp > ucast (g_fpp_max_accept s) then False else fpp \<in> set k_fpp_table)"

definition dante_tx_fpp_index :: "u16 \<Rightarrow> nat" where
  "dante_tx_fpp_index fpp = (case List.find (\<lambda>i. k_fpp_table ! i = fpp) [0..<8] of Some i \<Rightarrow> i | None \<Rightarrow> 0)"

section \<open>Writing a context\<close>

text \<open>One slot of the channel map: the channel number less one with its valid bit, or zero.\<close>

definition chmap_entry :: "u16 list \<Rightarrow> u8 \<Rightarrow> nat \<Rightarrow> u32" where
  "chmap_entry chans nslots i =
    (if i < unat nslots \<and> chans ! i \<noteq> 0 \<and> unat (chans ! i) \<le> DANTE_TX_CHANNELS
     then (ucast (chans ! i - 1) AND 0x3F) OR 0x80 else 0)"

definition chmap_word :: "u16 list \<Rightarrow> u8 \<Rightarrow> nat \<Rightarrow> u32" where
  "chmap_word chans nslots base =
     foldl (\<lambda>w i. w OR push_bit (i * 8) (chmap_entry chans nslots (base + i))) 0 [0, 1, 2, 3]"

definition flow_cfg_word :: "u8 \<Rightarrow> u16 \<Rightarrow> u32" where
  "flow_cfg_word nslots fpp =
     (ucast nslots AND 0x0F) OR push_bit 4 (of_nat (dante_tx_fpp_index fpp) AND 0x7)"

text \<open>
  The seqlock around the phase seed: at most eight tries, \<open>rd k\<close> being the \<open>k\<close>-th read of
  the running sample counter.
\<close>

fun seed_phase :: "(nat \<Rightarrow> u32) \<Rightarrow> u32 \<Rightarrow> u32 \<Rightarrow> u32 \<Rightarrow> nat \<Rightarrow> nat \<Rightarrow> pkt_ctx \<Rightarrow> pkt_ctx" where
  "seed_phase rd adj fpp cfg k 0 c = c"
| "seed_phase rd adj fpp cfg k (Suc tries) c =
    (let s0 = rd k; c = c\<lparr>flow_phase := (s0 + adj) mod fpp, flow_cfg := cfg\<rparr> in
     if rd (k + 1) = s0 then c else seed_phase rd adj fpp cfg (k + 2) tries c)"

definition upd_ctx :: "nat \<Rightarrow> (pkt_ctx \<Rightarrow> pkt_ctx) \<Rightarrow> tx \<Rightarrow> tx" where
  "upd_ctx f g s = s\<lparr>ctxs := (ctxs s)[f := g (ctxs s ! f)]\<rparr>"

definition write_ctx ::
    "(nat \<Rightarrow> u32) \<Rightarrow> ip4 \<Rightarrow> nat \<Rightarrow> ip4 \<Rightarrow> mac6 \<Rightarrow> u16 \<Rightarrow> u16 list \<Rightarrow> u8 \<Rightarrow> u8 \<Rightarrow> tx \<Rightarrow> tx" where
  "write_ctx rd our_ip f dst dmac dport chans nslots fpp s =
    (let ip_total = of_nat (20 + 8 + 9 + unat nslots * unat fpp * 3);
         csum = ip_header_checksum our_ip dst ip_total DANTE_TX_IP_TOS DANTE_TX_IP_TTL;
         cfg = flow_cfg_word nslots (ucast fpp) in
     upd_ctx f (\<lambda>c. seed_phase rd (g_phase_adj s) (ucast fpp) cfg 0 8
       (c\<lparr>chmap_lo := chmap_word chans nslots 0, chmap_hi := chmap_word chans nslots 4,
          cx_dst_ip := ip_word dst, ip_csum := csum, udp_sport := DANTE_PORT_MEDIA,
          dst_mac_hi := mac_hi_word dmac, dst_mac_lo := mac_lo_word dmac, udp_dport := dport\<rparr>)) s)"

text \<open>\<^theory_text>\<open>bind_flow\<close>: the boot-time header of a bundle, with no slots.\<close>

fun mcast_dmac :: "ip4 \<Rightarrow> mac6" where
  "mcast_dmac (a, b, c, d) = (0x01, 0x00, 0x5E, b AND 0x7F, c, d)"

definition bind_flow :: "ip4 \<Rightarrow> nat \<Rightarrow> tx \<Rightarrow> tx" where
  "bind_flow our_ip f s =
    (let dip = flow_ip s ! f; dmac = mcast_dmac dip;
         csum = ip_header_checksum our_ip dip (20 + 8 + 9 + 16 * 8 * 3) DANTE_TX_IP_TOS DANTE_TX_IP_TTL in
     upd_ctx f (\<lambda>c. c\<lparr>cx_dst_ip := ip_word dip, ip_csum := csum, udp_sport := DANTE_PORT_MEDIA,
       dst_mac_hi := mac_hi_word dmac, dst_mac_lo := mac_lo_word dmac, udp_dport := DANTE_PORT_MEDIA,
       flow_cfg := 0\<rparr>) s)"

definition dante_tx_init :: "ip4 \<Rightarrow> mac6 \<Rightarrow> tx \<Rightarrow> tx" where
  "dante_tx_init our_ip mac s =
    (case mac of (m0, m1, m2, m3, m4, m5) \<Rightarrow>
     let s = s\<lparr>flow_ip := map (\<lambda>f. (239, 255, m4, m5 + of_nat f)) [0..<N_FLOWS],
               src_regs := (ip_word our_ip, mac_hi_word mac, mac_lo_word mac, DANTE_TX_IP_TOS, DANTE_TX_IP_TTL)\<rparr>;
         s = foldl (\<lambda>s f. bind_flow our_ip f s) s [0..<N_FLOWS] in
     s\<lparr>talker_on := False\<rparr>)"

section \<open>Releasing\<close>

definition TELEM_E_ANCHOR :: u16 where "TELEM_E_ANCHOR = 3"
definition TELEM_E_TALKER_ON :: u16 where "TELEM_E_TALKER_ON = 4"
definition TELEM_E_TALKER_OFF :: u16 where "TELEM_E_TALKER_OFF = 5"
definition TELEM_E_FLOW_BIND :: u16 where "TELEM_E_FLOW_BIND = 6"
definition TELEM_E_FLOW_UNBIND :: u16 where "TELEM_E_FLOW_UNBIND = 7"

definition upd_flow :: "nat \<Rightarrow> (flow_slot \<Rightarrow> flow_slot) \<Rightarrow> tx \<Rightarrow> tx" where
  "upd_flow f g s = s\<lparr>flows := (flows s)[f := g (flows s ! f)]\<rparr>"

definition dante_tx_unbind :: "nat \<Rightarrow> u32 \<Rightarrow> tx \<Rightarrow> int \<times> tx" where
  "dante_tx_unbind f now s =
    (if f \<ge> N_FLOWS \<or> \<not> in_use (flows s ! f) then (-1, s)
     else let s = upd_flow f (\<lambda>x. x\<lparr>in_use := False\<rparr>) s;
              s = upd_ctx f (\<lambda>c. c\<lparr>flow_cfg := 0\<rparr>) s in
     (0, log_event TELEM_E_FLOW_UNBIND (of_nat f) 0 now s))"

definition dante_tx_drop_all :: "u32 \<Rightarrow> tx \<Rightarrow> tx" where
  "dante_tx_drop_all now s =
     foldl (\<lambda>s f. if in_use (flows s ! f) then snd (dante_tx_unbind f now s) else s) s [0..<N_FLOWS]"

text \<open>\<^theory_text>\<open>dante_tx_expire\<close> returns at once; the rest of its body is never reached.\<close>

definition dante_tx_expire :: "tx \<Rightarrow> tx" where
  "dante_tx_expire s = s"

section \<open>Binding\<close>

definition first_slot :: "(flow_slot \<Rightarrow> bool) \<Rightarrow> tx \<Rightarrow> nat option" where
  "first_slot P s = List.find (\<lambda>i. P (flows s ! i)) [0..<N_FLOWS]"

definition same_socket :: "ip4 \<Rightarrow> ip4 \<Rightarrow> u16 \<Rightarrow> flow_slot \<Rightarrow> bool" where
  "same_socket p d port x \<longleftrightarrow> in_use x \<and> fl_dport x = port \<and> peer x = p \<and> fl_dst x = d"

text \<open>The victim scans: the last of the oldest unicast slots, or of all slots.\<close>

definition oldest_unicast :: "u32 \<Rightarrow> tx \<Rightarrow> nat option" where
  "oldest_unicast now s = fst (foldl (\<lambda>(f, oldest) i.
     if fl_mcast (flows s ! i) then (f, oldest)
     else let age = now - last_ms (flows s ! i) in
          if f = None \<or> age \<ge> oldest then (Some i, age) else (f, oldest)) (None, 0) [0..<N_FLOWS])"

definition oldest_any :: "(u32 \<Rightarrow> u32) \<Rightarrow> u32 \<Rightarrow> tx \<Rightarrow> nat" where
  "oldest_any cap_age now s = fst (foldl (\<lambda>(f, oldest) i.
     let age = cap_age (now - last_ms (flows s ! i)) in
     if age \<ge> oldest then (i, age) else (f, oldest)) (0, 0) [0..<N_FLOWS])"

definition choose_slot :: "ip4 \<Rightarrow> ip4 \<Rightarrow> u16 \<Rightarrow> u32 \<Rightarrow> tx \<Rightarrow> nat \<times> tx" where
  "choose_slot p d port now s =
    (case first_slot (same_socket p d port) s of
       Some f \<Rightarrow> (f, s)
     | None \<Rightarrow>
      (case first_slot (\<lambda>x. \<not> in_use x) s of
         Some f \<Rightarrow> (f, s)
       | None \<Rightarrow>
          let f = (case oldest_unicast now s of Some f \<Rightarrow> f | None \<Rightarrow> oldest_any id now s) in
          (f, upd_flow f (\<lambda>x. x\<lparr>in_use := False\<rparr>) s)))"

definition dante_tx_bind_unicast ::
    "(nat \<Rightarrow> u32) \<Rightarrow> u32 \<Rightarrow> ip4 \<Rightarrow> ip4 \<Rightarrow> u16 \<Rightarrow> u16 list \<Rightarrow> u8 \<Rightarrow> u8 \<Rightarrow> tx \<Rightarrow> net \<Rightarrow> int \<times> tx \<times> net" where
  "dante_tx_bind_unicast rd now p dst dport chans nslots fpp s nt =
    (case net_arp_lookup dst nt of
       (None, nt) \<Rightarrow> (-1, s, nt)
     | (Some dmac, nt) \<Rightarrow>
        (let (f, s) = choose_slot p dst dport now s;
             s = write_ctx rd (g_net_ip nt) f dst dmac dport chans nslots fpp s;
             s = (if \<not> in_use (flows s ! f) then
                    log_event TELEM_E_FLOW_BIND
                      (push_bit 24 (of_nat f) OR push_bit 8 (ucast nslots) OR ucast fpp) (ucast dport) now
                      (upd_flow f (\<lambda>x. x\<lparr>in_use := True, rebinds := rebinds x + 1, peer := p\<rparr>) s)
                  else s);
             s = upd_flow f (\<lambda>x. x\<lparr>fl_dst := dst, fl_dmac := dmac, fl_dport := dport, fl_nslots := nslots,
                   fl_fpp := fpp, fl_mcast := False,
                   fl_chans := map (\<lambda>i. if i < unat nslots then chans ! i else 0) [0..<8],
                   last_ms := now\<rparr>) s in
         (int f, s, nt)))"

definition dante_tx_bind_multicast ::
    "(nat \<Rightarrow> u32) \<Rightarrow> u32 \<Rightarrow> ip4 \<Rightarrow> u16 \<Rightarrow> u16 list \<Rightarrow> u8 \<Rightarrow> tx \<Rightarrow> int \<times> tx" where
  "dante_tx_bind_multicast rd now our_ip eid chans n s =
    (if n = 0 \<or> n > 8 then (-1, s)
     else
       let (f, s) = (case first_slot (\<lambda>x. in_use x \<and> fl_mcast x \<and> ext_id x = eid) s of
             Some f \<Rightarrow> (f, s)
           | None \<Rightarrow>
            (case first_slot (\<lambda>x. \<not> in_use x) s of
               Some f \<Rightarrow> (f, s)
             | None \<Rightarrow>
                let f = oldest_any (\<lambda>age. if age > 3600000 then 3600000 else age) now s in
                (f, snd (dante_tx_unbind f now s))));
           dip = flow_ip s ! f;
           s = write_ctx rd our_ip f dip (mcast_dmac dip) DANTE_PORT_MEDIA chans n (ucast (g_mcast_fpp s)) s;
           s = upd_flow f (\<lambda>x. x\<lparr>in_use := True, fl_dst := dip, fl_dport := DANTE_PORT_MEDIA\<rparr>) s;
           s = mdns_announce s;
           s = upd_flow f (\<lambda>x. x\<lparr>fl_nslots := n, fl_fpp := ucast (g_mcast_fpp s), fl_mcast := True, ext_id := eid,
                 fl_chans := map (\<lambda>i. if i < unat n then chans ! i else 0) [0..<8], last_ms := now\<rparr>) s in
       (int f, s))"

section \<open>Looking flows up\<close>

definition dante_tx_ctx_for_id :: "u16 \<Rightarrow> tx \<Rightarrow> int" where
  "dante_tx_ctx_for_id eid s =
    (case first_slot (\<lambda>x. in_use x \<and> ext_id x = eid) s of Some i \<Rightarrow> int i | None \<Rightarrow> -1)"

definition dante_tx_active :: "tx \<Rightarrow> nat" where
  "dante_tx_active s = foldl (\<lambda>n i. if in_use (flows s ! i) then n + 1 else n) 0 [0..<N_FLOWS]"

definition dante_tx_flow_info :: "nat \<Rightarrow> u32 \<Rightarrow> tx \<Rightarrow> bool \<times> u32 \<times> u32" where
  "dante_tx_flow_info f now s =
    (if f \<ge> N_FLOWS then (False, 0, 0)
     else let x = flows s ! f in
       (in_use x, if in_use x then now - last_ms x else 0, rebinds x))"

definition dante_tx_flow_desc :: "nat \<Rightarrow> tx \<Rightarrow> (ip4 \<times> u16 \<times> u8 \<times> u8 \<times> bool \<times> u16) option" where
  "dante_tx_flow_desc f s =
    (if f \<ge> N_FLOWS \<or> \<not> in_use (flows s ! f) then None
     else let x = flows s ! f in
       Some (fl_dst x, fl_dport x, fl_nslots x, fl_fpp x, fl_mcast x,
             if ext_id x \<noteq> 0 then ext_id x else of_nat (f + 1)))"

definition dante_tx_flow_chan :: "nat \<Rightarrow> nat \<Rightarrow> tx \<Rightarrow> u16" where
  "dante_tx_flow_chan f slot s = (if f \<ge> N_FLOWS \<or> slot \<ge> 8 then 0 else fl_chans (flows s ! f) ! slot)"

text \<open>The first multicast flow, in table order, with channel \<open>ch\<close> in one of its slots.\<close>

definition dante_tx_chan_bundle :: "u16 \<Rightarrow> tx \<Rightarrow> (u16 \<times> u8) option" where
  "dante_tx_chan_bundle ch s =
    (case first_slot (\<lambda>x. in_use x \<and> fl_mcast x \<and> (\<exists>c \<in> set [0..<unat (fl_nslots x)]. fl_chans x ! c = ch)) s of
       None \<Rightarrow> None
     | Some i \<Rightarrow>
        (let x = flows s ! i in
         case List.find (\<lambda>c. fl_chans x ! c = ch) [0..<unat (fl_nslots x)] of
           Some c \<Rightarrow> Some (ext_id x, of_nat (c + 1)) | None \<Rightarrow> None))"

definition dante_tx_mcast_by_id :: "u16 \<Rightarrow> tx \<Rightarrow> (ip4 \<times> u8) option" where
  "dante_tx_mcast_by_id eid s =
    (case first_slot (\<lambda>x. in_use x \<and> fl_mcast x \<and> ext_id x = eid) s of
       Some i \<Rightarrow> Some (fl_dst (flows s ! i), fl_nslots (flows s ! i)) | None \<Rightarrow> None)"

definition dante_tx_mcast_enum :: "nat \<Rightarrow> tx \<Rightarrow> u16 option" where
  "dante_tx_mcast_enum n s =
    (let ids = map ext_id (filter (\<lambda>x. in_use x \<and> fl_mcast x) (take N_FLOWS (flows s))) in
     if n < length ids then Some (ids ! n) else None)"

definition dante_tx_flow_mac :: "nat \<Rightarrow> tx \<Rightarrow> mac6" where
  "dante_tx_flow_mac f s = (if f < N_FLOWS then fl_dmac (flows s ! f) else (0, 0, 0, 0, 0, 0))"

section \<open>Latency\<close>

definition std_lat :: "u32 list" where
  "std_lat = [250000, 500000, 1000000, 2000000, 5000000]"

definition fpp_window :: "u8 \<Rightarrow> u32" where
  "fpp_window fpp = ucast (((ucast fpp :: u64) * 1000000000) div 48000)"

definition worst_window :: "tx \<Rightarrow> u32" where
  "worst_window s = foldl (\<lambda>w i. let x = flows s ! i in
     if \<not> in_use x \<or> fl_fpp x = 0 then w
     else let win = fpp_window (fl_fpp x) in if win > w then win else w) 0 [0..<N_FLOWS]"

definition dante_tx_latency_effective :: "tx \<Rightarrow> u32" where
  "dante_tx_latency_effective s =
    (if \<not> g_latency_autoraise s then g_latency_ns s
     else let worst = worst_window s;
              need = (case List.find (\<lambda>l. l > worst) std_lat of Some l \<Rightarrow> l | None \<Rightarrow> 5000000) in
     if need > g_latency_ns s then need else g_latency_ns s)"

section \<open>The IP checksum of a flow\<close>

text \<open>The header the packetizer sends, around its checksum field.\<close>

definition flow_ip_header :: "ip4 \<Rightarrow> ip4 \<Rightarrow> u16 \<Rightarrow> u8 \<Rightarrow> u8 \<Rightarrow> u16 \<Rightarrow> u8 list" where
  "flow_ip_header src dst len tos ttl c =
     ([0x45, tos] @ be16 len @ [0, 0, 0, 0, ttl, 17]) @ be16 c @ ip_bytes src @ ip_bytes dst"

lemma version_word: "(0x4500 OR ucast (tos :: u8) :: u32) AND 0xFFFF = push_bit 8 (ucast (0x45 :: u8)) OR ucast tos"
  by (rule bit_word_eqI) (auto simp: bit_simps and_low16 dest: bit_imp_le_length)

lemma ip_header_checksum_net:
  "ip_header_checksum src dst len tos ttl = net_checksum (flow_ip_header src dst len tos ttl 0) 0"
proof (cases src, cases dst)
  fix s0 s1 s2 s3 d0 d1 d2 d3
  assume [simp]: "src = (s0, s1, s2, s3)" "dst = (d0, d1, d2, d3)"
  have len: "push_bit 8 (ucast (ucast (drop_bit 8 len) :: u8)) OR ucast (ucast len :: u8) = (ucast len :: u32)"
    by (rule bit_word_eqI) (auto simp: bit_simps dest: bit_imp_le_length)
  have m: "(ucast (NOT w AND 0xFFFF) :: u16) = ucast (NOT w)" for w :: u32
    by (rule bit_word_eqI) (auto simp: bit_simps and_low16)
  show ?thesis
    by (simp add: flow_ip_header_def net_checksum_def be16_def Let_def version_word len m add.assoc)
qed

section \<open>The table of flows\<close>

lemma first_slot_Some:
  "first_slot P s = Some f \<Longrightarrow> f < N_FLOWS \<and> P (flows s ! f) \<and> (\<forall>j<f. \<not> P (flows s ! j))"
  by (auto simp: first_slot_def find_Some_iff)

lemma first_slot_None: "first_slot P s = None \<longleftrightarrow> (\<forall>i<N_FLOWS. \<not> P (flows s ! i))"
  by (auto simp: first_slot_def find_None_iff)

lemma first_slot_eq:
  assumes "\<And>i. i < N_FLOWS \<Longrightarrow> P (flows s ! i) \<longleftrightarrow> Q (flows t ! i)"
  shows "first_slot P s = first_slot Q t"
  unfolding first_slot_def by (rule find_cong) (auto simp: assms)

lemma first_slot_first:
  assumes "f < N_FLOWS" "P (flows s ! f)" "\<And>j. j < f \<Longrightarrow> \<not> P (flows s ! j)"
  shows "first_slot P s = Some f"
  using assms by (auto simp: first_slot_def find_Some_iff intro!: exI [of _ f])

lemma tx_frame [simp]:
  "flows (log_event e a b now s) = flows s" "ctxs (log_event e a b now s) = ctxs s"
  "g_phase_adj (log_event e a b now s) = g_phase_adj s"
  "flows (upd_ctx f c s) = flows s" "ctxs (upd_flow f g s) = ctxs s"
  "flows (write_ctx rd our f dst dmac dport chans n fpp s) = flows s"
  "flows (upd_flow f g s) = (flows s)[f := g (flows s ! f)]"
  "ctxs (upd_ctx f c s) = (ctxs s)[f := c (ctxs s ! f)]"
  "tx_telem (upd_flow f g s) = tx_telem s" "tx_telem (upd_ctx f c s) = tx_telem s"
  "tx_telem (write_ctx rd our f dst dmac dport chans n fpp s) = tx_telem s"
  "g_phase_adj (upd_flow f g s) = g_phase_adj s"
  by (simp_all add: log_event_def upd_ctx_def upd_flow_def write_ctx_def Let_def)

text \<open>The victim scans pick a slot of the table.\<close>

lemma oldest_any_less: "oldest_any w now s < N_FLOWS"
proof -
  have "\<forall>i \<in> set is. i < N_FLOWS \<Longrightarrow> fst a < N_FLOWS \<Longrightarrow>
    fst (foldl (\<lambda>(f, oldest) i. let age = w (now - last_ms (flows s ! i)) in
      if age \<ge> oldest then (i, age) else (f, oldest)) a is) < N_FLOWS" for a "is"
    by (induction "is" arbitrary: a) (auto simp: Let_def split: prod.splits)
  then show ?thesis unfolding oldest_any_def by (simp add: N_FLOWS_def)
qed

text \<open>The unicast scan ends on a unicast slot of the largest age, if there is one.\<close>

definition unicast_age :: "u32 \<Rightarrow> tx \<Rightarrow> nat \<Rightarrow> u32" where
  "unicast_age now s i = now - last_ms (flows s ! i)"

lemma oldest_unicast_scan:
  fixes s now
  defines "step \<equiv> (\<lambda>(f, oldest) i. if fl_mcast (flows s ! i) then (f, oldest)
     else let age = now - last_ms (flows s ! i) in
          if f = None \<or> age \<ge> oldest then (Some i, age) else (f, oldest))"
  shows "case foldl step (None, 0) [0..<n] of
      (None, _) \<Rightarrow> \<forall>i<n. fl_mcast (flows s ! i)
    | (Some f, age) \<Rightarrow> f < n \<and> \<not> fl_mcast (flows s ! f) \<and> age = unicast_age now s f \<and>
        (\<forall>i<n. \<not> fl_mcast (flows s ! i) \<longrightarrow> unicast_age now s i \<le> age)"
proof (induction n)
  case (Suc n)
  show ?case
  proof (cases "foldl step (None, 0) [0..<n]")
    case (Pair f age)
    with Suc show ?thesis
      by (cases f) (auto simp: step_def unicast_age_def Let_def less_Suc_eq)
  qed
qed simp

lemma oldest_unicast_None: "oldest_unicast now s = None \<Longrightarrow> i < N_FLOWS \<Longrightarrow> fl_mcast (flows s ! i)"
  using oldest_unicast_scan [where s = s and now = now and n = N_FLOWS]
  by (auto simp: oldest_unicast_def split: prod.splits option.splits)

lemma oldest_unicast_Some:
  "oldest_unicast now s = Some f \<Longrightarrow> f < N_FLOWS \<and> \<not> fl_mcast (flows s ! f) \<and>
    (\<forall>i<N_FLOWS. \<not> fl_mcast (flows s ! i) \<longrightarrow> unicast_age now s i \<le> unicast_age now s f)"
  using oldest_unicast_scan [where s = s and now = now and n = N_FLOWS]
  by (auto simp: oldest_unicast_def split: prod.splits option.splits)

text \<open>What \<open>choose_slot\<close> returns, and the part of the state it leaves alone.\<close>

definition victim :: "u32 \<Rightarrow> tx \<Rightarrow> nat" where
  "victim now s = (case oldest_unicast now s of Some f \<Rightarrow> f | None \<Rightarrow> oldest_any id now s)"

lemma victim_less: "victim now s < N_FLOWS"
  by (auto simp: victim_def oldest_any_less dest: oldest_unicast_Some split: option.split)

lemma choose_slot_cases:
  obtains
    (same) f where "first_slot (same_socket p d port) s = Some f" "choose_slot p d port now s = (f, s)"
  | (free) f where "first_slot (same_socket p d port) s = None" "first_slot (\<lambda>x. \<not> in_use x) s = Some f"
      "choose_slot p d port now s = (f, s)"
  | (full) "first_slot (same_socket p d port) s = None" "first_slot (\<lambda>x. \<not> in_use x) s = None"
      "choose_slot p d port now s = (victim now s, upd_flow (victim now s) (\<lambda>x. x\<lparr>in_use := False\<rparr>) s)"
  unfolding choose_slot_def victim_def by (cases "first_slot (same_socket p d port) s";
      cases "first_slot (\<lambda>x. \<not> in_use x) s") (auto simp: Let_def)

section \<open>What a bind does\<close>

definition table_wf :: "tx \<Rightarrow> bool" where
  "table_wf s \<longleftrightarrow> length (flows s) = N_FLOWS \<and> length (ctxs s) = N_FLOWS \<and> length (flow_ip s) = N_FLOWS"

text \<open>The slot as a bind leaves it, from the slot it found.\<close>

definition rebound ::
    "u32 \<Rightarrow> ip4 \<Rightarrow> ip4 \<Rightarrow> mac6 \<Rightarrow> u16 \<Rightarrow> u16 list \<Rightarrow> u8 \<Rightarrow> u8 \<Rightarrow> bool \<Rightarrow> flow_slot \<Rightarrow> flow_slot" where
  "rebound now p dst dmac dport chans n fpp fresh x =
     x\<lparr>in_use := True, rebinds := (if fresh then rebinds x + 1 else rebinds x),
       peer := (if fresh then p else peer x), fl_dst := dst, fl_dmac := dmac, fl_dport := dport,
       fl_nslots := n, fl_fpp := fpp, fl_mcast := False,
       fl_chans := map (\<lambda>i. if i < unat n then chans ! i else 0) [0..<8], last_ms := now\<rparr>"

text \<open>The context a bind writes, but for the phase.\<close>

definition ctx_serves :: "ip4 \<Rightarrow> ip4 \<Rightarrow> mac6 \<Rightarrow> u16 \<Rightarrow> u16 list \<Rightarrow> u8 \<Rightarrow> u8 \<Rightarrow> pkt_ctx \<Rightarrow> bool" where
  "ctx_serves our dst dmac dport chans n fpp c \<longleftrightarrow>
     cx_dst_ip c = ip_word dst \<and> udp_dport c = dport \<and> udp_sport c = DANTE_PORT_MEDIA \<and>
     dst_mac_hi c = mac_hi_word dmac \<and> dst_mac_lo c = mac_lo_word dmac \<and>
     chmap_lo c = chmap_word chans n 0 \<and> chmap_hi c = chmap_word chans n 4 \<and>
     ip_csum c = ip_header_checksum our dst (of_nat (37 + unat n * unat fpp * 3)) DANTE_TX_IP_TOS DANTE_TX_IP_TTL \<and>
     flow_cfg c = flow_cfg_word n (ucast fpp)"

lemma seed_phase_frame:
  "chmap_lo (seed_phase rd adj fpp cfg k t c) = chmap_lo c" "chmap_hi (seed_phase rd adj fpp cfg k t c) = chmap_hi c"
  "cx_dst_ip (seed_phase rd adj fpp cfg k t c) = cx_dst_ip c" "ip_csum (seed_phase rd adj fpp cfg k t c) = ip_csum c"
  "udp_sport (seed_phase rd adj fpp cfg k t c) = udp_sport c" "udp_dport (seed_phase rd adj fpp cfg k t c) = udp_dport c"
  "dst_mac_hi (seed_phase rd adj fpp cfg k t c) = dst_mac_hi c" "dst_mac_lo (seed_phase rd adj fpp cfg k t c) = dst_mac_lo c"
  by (induction rd adj fpp cfg k t c rule: seed_phase.induct) (simp_all add: Let_def)

lemma seed_phase_cfg: "0 < t \<Longrightarrow> flow_cfg (seed_phase rd adj fpp cfg k t c) = cfg"
proof (induction rd adj fpp cfg k t c rule: seed_phase.induct)
  case (2 rd adj fpp cfg k t c)
  then show ?case by (cases t) (auto simp: Let_def)
qed simp

lemma write_ctx_serves:
  "length (ctxs s) = N_FLOWS \<Longrightarrow> f < N_FLOWS \<Longrightarrow>
    ctx_serves our dst dmac dport chans n fpp (ctxs (write_ctx rd our f dst dmac dport chans n fpp s) ! f)"
  by (simp add: write_ctx_def ctx_serves_def Let_def seed_phase_frame seed_phase_cfg add.commute)

lemma write_ctx_other: "j \<noteq> f \<Longrightarrow> ctxs (write_ctx rd our f dst dmac dport chans n fpp s) ! j = ctxs s ! j"
  by (simp add: write_ctx_def Let_def)

text \<open>The whole of a bind whose destination is known, by the three ways a slot is found.\<close>

lemma bind_unicast_flows:
  assumes "length (flows s) = N_FLOWS" "net_arp_lookup dst nt = (Some m, nt')"
    and "dante_tx_bind_unicast rd now p dst dport chans n fpp s nt = (r, s', nt'')"
  obtains f fresh where "r = int f" "f < N_FLOWS" "nt'' = nt'"
    "flows s' = (flows s)[f := rebound now p dst m dport chans n fpp fresh (flows s ! f)]"
    "length (ctxs s') = length (ctxs s)" "\<And>j. j \<noteq> f \<Longrightarrow> ctxs s' ! j = ctxs s ! j"
    "length (ctxs s) = N_FLOWS \<Longrightarrow> ctx_serves (g_net_ip nt') dst m dport chans n fpp (ctxs s' ! f)"
    "first_slot (same_socket p dst dport) s = Some f \<and> \<not> fresh \<and> tx_telem s' = tx_telem s \<or>
     first_slot (same_socket p dst dport) s = None \<and> fresh \<and>
       (first_slot (\<lambda>x. \<not> in_use x) s = Some f \<or>
        first_slot (\<lambda>x. \<not> in_use x) s = None \<and> f = victim now s)"
proof -
  have len: "length (ctxs (write_ctx rd our f d dm dp c k q t)) = length (ctxs t)" for our f d dm dp c k q t
    by (simp add: write_ctx_def Let_def)
  show thesis
  proof (cases rule: choose_slot_cases [of p dst dport s now])
    case (same f)
    then have "f < N_FLOWS" "same_socket p dst dport (flows s ! f)" using first_slot_Some by blast+
    then show ?thesis
      using assms same
      by (intro that [of f False])
        (auto simp: dante_tx_bind_unicast_def Let_def rebound_def same_socket_def len write_ctx_other
          intro: write_ctx_serves intro!: arg_cong [where f = "list_update (flows s) f"] flow_slot.equality)
  next
    case (free f)
    then have "f < N_FLOWS" "\<not> in_use (flows s ! f)" using first_slot_Some by blast+
    then show ?thesis
      using assms free
      by (intro that [of f True])
        (auto simp: dante_tx_bind_unicast_def Let_def rebound_def len write_ctx_other write_ctx_serves)
  next
    case full
    then show ?thesis
      using assms victim_less [of now s]
      by (intro that [of "victim now s" True])
        (auto simp: dante_tx_bind_unicast_def Let_def rebound_def len write_ctx_other write_ctx_serves)
  qed
qed

section \<open>The table of flows as a keyed table\<close>

text \<open>
  The key is the socket a receiver asked for, the value what it asked for there. A bind
  fails only when the receiver's hardware address is unknown.
\<close>

definition flow_get :: "tx \<Rightarrow> ip4 \<times> ip4 \<times> u16 \<Rightarrow> (u8 \<times> u8) option" where
  "flow_get s k = (case k of (p, d, port) \<Rightarrow>
     map_option (\<lambda>f. (fl_nslots (flows s ! f), fl_fpp (flows s ! f))) (first_slot (same_socket p d port) s))"

definition flow_store ::
    "(nat \<Rightarrow> u32) \<Rightarrow> u32 \<Rightarrow> u16 list \<Rightarrow> net \<Rightarrow> tx \<Rightarrow> ip4 \<times> ip4 \<times> u16 \<Rightarrow> u8 \<times> u8 \<Rightarrow> tx option" where
  "flow_store rd now chans nt s k v = (case (k, v) of ((p, d, port), (n, fpp)) \<Rightarrow>
     case dante_tx_bind_unicast rd now p d port chans n fpp s nt of
       (r, s', nt') \<Rightarrow> if r < 0 then None else Some s')"

definition flow_evicts :: "u32 \<Rightarrow> tx \<Rightarrow> ip4 \<times> ip4 \<times> u16 \<Rightarrow> (ip4 \<times> ip4 \<times> u16) set" where
  "flow_evicts now s k = (case k of (p, d, port) \<Rightarrow>
     if first_slot (same_socket p d port) s \<noteq> None \<or> first_slot (\<lambda>x. \<not> in_use x) s \<noteq> None then {}
     else let x = flows s ! victim now s in {(peer x, fl_dst x, fl_dport x)})"

definition arp_known :: "net \<Rightarrow> ip4 \<Rightarrow> bool" where
  "arp_known nt d \<longleftrightarrow> fst (net_arp_lookup d nt) \<noteq> None"

lemma flow_store_Some:
  assumes "length (flows s) = N_FLOWS" "flow_store rd now chans nt s (p, d, port) (n, fpp) = Some s'"
  obtains f m fresh where "f < N_FLOWS" "flows s' = (flows s)[f := rebound now p d m port chans n fpp fresh (flows s ! f)]"
    "first_slot (same_socket p d port) s = Some f \<and> \<not> fresh \<or>
     first_slot (same_socket p d port) s = None \<and> fresh \<and>
       (first_slot (\<lambda>x. \<not> in_use x) s = Some f \<or> first_slot (\<lambda>x. \<not> in_use x) s = None \<and> f = victim now s)"
proof -
  obtain r nt'' where b: "dante_tx_bind_unicast rd now p d port chans n fpp s nt = (r, s', nt'')" "\<not> r < 0"
    using assms(2) by (auto simp: flow_store_def split: prod.splits if_splits)
  obtain m nt' where "net_arp_lookup d nt = (Some m, nt')"
    using b by (auto simp: dante_tx_bind_unicast_def split: prod.splits option.splits)
  with assms(1) b(1) show thesis
    by (elim bind_unicast_flows) (auto intro: that)
qed

lemma flow_store_get:
  assumes wf: "length (flows s) = N_FLOWS" and st: "flow_store rd now chans nt s k v = Some s'"
  shows "flow_get s' k = Some v"
    and "j \<noteq> k \<Longrightarrow> j \<notin> flow_evicts now s k \<Longrightarrow> flow_get s' j = flow_get s j"
    and "length (flows s') = N_FLOWS"
proof -
  obtain p d port n fpp where [simp]: "k = (p, d, port)" "v = (n, fpp)" by (cases k, cases v)
  from wf st obtain f m fresh where f: "f < N_FLOWS"
    and fl: "flows s' = (flows s)[f := rebound now p d m port chans n fpp fresh (flows s ! f)]"
    and how: "first_slot (same_socket p d port) s = Some f \<and> \<not> fresh \<or>
     first_slot (same_socket p d port) s = None \<and> fresh \<and>
       (first_slot (\<lambda>x. \<not> in_use x) s = Some f \<or> first_slot (\<lambda>x. \<not> in_use x) s = None \<and> f = victim now s)"
    by (auto elim: flow_store_Some)
  show "length (flows s') = N_FLOWS" using wf fl by simp
  have new: "same_socket p d port (flows s' ! f)"
    using f wf how fl by (auto simp: same_socket_def rebound_def dest: first_slot_Some)
  moreover have "\<not> same_socket p d port (flows s' ! i)" if "i < f" for i
    using that how f wf fl first_slot_None [of "same_socket p d port" s]
    by (auto dest: first_slot_Some simp: nth_list_update)
  ultimately have "first_slot (same_socket p d port) s' = Some f"
    using f by (intro first_slot_first)
  then show "flow_get s' k = Some v"
    using f wf fl by (simp add: flow_get_def rebound_def)
  show "flow_get s' j = flow_get s j" if j: "j \<noteq> k" "j \<notin> flow_evicts now s k"
  proof -
    obtain q e prt where [simp]: "j = (q, e, prt)" by (cases j)
    have "\<not> same_socket q e prt (flows s ! f)"
      using how j by (auto simp: same_socket_def flow_evicts_def Let_def dest!: first_slot_Some)
    moreover have "\<not> same_socket q e prt (flows s' ! f)"
      using new j by (auto simp: same_socket_def)
    ultimately have eq: "same_socket q e prt (flows s' ! i) = same_socket q e prt (flows s ! i)" for i
      using fl by (cases "i = f") auto
    then have fs: "first_slot (same_socket q e prt) s' = first_slot (same_socket q e prt) s"
      by (intro first_slot_eq)
    have "g \<noteq> f" if "first_slot (same_socket q e prt) s = Some g" for g
      using that \<open>\<not> same_socket q e prt (flows s ! f)\<close> first_slot_Some by blast
    with fs show ?thesis
      using fl by (cases "first_slot (same_socket q e prt) s") (auto simp: flow_get_def)
  qed
qed

lemma flow_store_total: "arp_known nt (fst (snd k)) \<Longrightarrow> flow_store rd now chans nt s k v \<noteq> None"
  by (auto simp: flow_store_def arp_known_def dante_tx_bind_unicast_def Let_def split: prod.splits option.splits)

interpretation flows: keyed_table flow_get "flow_store rd now chans nt" "flow_evicts now"
    "\<lambda>k. arp_known nt (fst (snd k))" "\<lambda>s. length (flows s) = N_FLOWS"
  for rd now chans nt
proof
  fix s :: tx and k :: "ip4 \<times> ip4 \<times> u16"
  assume "length (flows s) = N_FLOWS" "flow_get s k \<noteq> None"
  then show "flow_evicts now s k = {}" by (auto simp: flow_get_def flow_evicts_def split: prod.splits)
next
  fix s :: tx and k :: "ip4 \<times> ip4 \<times> u16" and v
  assume "arp_known nt (fst (snd k))"
  then show "flow_store rd now chans nt s k v \<noteq> None" by (rule flow_store_total)
qed (auto intro: flow_store_get)

section \<open>Properties\<close>

text \<open>
  The checksum the packetizer is given makes the header it sends verify: the header with
  that checksum in place sums to zero, whatever the addresses, length, TOS and TTL.
\<close>

theorem flow_header_verifies:
  "net_checksum (flow_ip_header src dst len tos ttl (ip_header_checksum src dst len tos ttl)) 0 = 0"
  unfolding ip_header_checksum_net flow_ip_header_def by (rule checksum_verifies) simp_all

text \<open>
  C10: a request whose hardware address is known binds one slot: the slot describes the
  request, its packetizer context serves it, and no other slot or context moves. A repeated
  request (same peer, destination and port) keeps the slot, its rebind count, and says
  nothing.
\<close>

theorem dante_tx_bind_unicast_exact:
  assumes "table_wf s" "net_arp_lookup dst nt = (Some m, nt')"
    and "dante_tx_bind_unicast rd now p dst dport chans n fpp s nt = (r, s', nt'')"
  shows "\<exists>f<N_FLOWS. r = int f \<and> same_socket p dst dport (flows s' ! f) \<and>
      dante_tx_flow_desc f s' = Some (dst, dport, n, fpp, False,
        if ext_id (flows s ! f) \<noteq> 0 then ext_id (flows s ! f) else of_nat (f + 1)) \<and>
      fl_chans (flows s' ! f) = map (\<lambda>i. if i < unat n then chans ! i else 0) [0..<8] \<and>
      ctx_serves (g_net_ip nt') dst m dport chans n fpp (ctxs s' ! f) \<and>
      (\<forall>j. j \<noteq> f \<longrightarrow> flows s' ! j = flows s ! j \<and> ctxs s' ! j = ctxs s ! j) \<and>
      (first_slot (same_socket p dst dport) s \<noteq> None \<longrightarrow>
        first_slot (same_socket p dst dport) s = Some f \<and>
        rebinds (flows s' ! f) = rebinds (flows s ! f) \<and> tx_telem s' = tx_telem s)"
proof -
  have wf: "length (flows s) = N_FLOWS" "length (ctxs s) = N_FLOWS"
    using assms(1) by (simp_all add: table_wf_def)
  from wf(1) assms(2,3) obtain f fresh where f: "r = int f" "f < N_FLOWS"
    and fl: "flows s' = (flows s)[f := rebound now p dst m dport chans n fpp fresh (flows s ! f)]"
    and cx: "\<And>j. j \<noteq> f \<Longrightarrow> ctxs s' ! j = ctxs s ! j"
      "ctx_serves (g_net_ip nt') dst m dport chans n fpp (ctxs s' ! f)"
    and how: "first_slot (same_socket p dst dport) s = Some f \<and> \<not> fresh \<and> tx_telem s' = tx_telem s \<or>
     first_slot (same_socket p dst dport) s = None \<and> fresh \<and>
       (first_slot (\<lambda>x. \<not> in_use x) s = Some f \<or>
        first_slot (\<lambda>x. \<not> in_use x) s = None \<and> f = victim now s)"
    by (rule bind_unicast_flows) (auto simp: wf)
  have new: "flows s' ! f = rebound now p dst m dport chans n fpp fresh (flows s ! f)"
    using fl f wf by simp
  have sock: "same_socket p dst dport (flows s' ! f)"
    using how by (auto simp: new rebound_def same_socket_def dest: first_slot_Some)
  show ?thesis
    using f cx how sock fl wf
    by (intro exI [of _ f]) (auto simp: dante_tx_flow_desc_def new rebound_def Let_def)
qed

definition demo_slot :: flow_slot where
  "demo_slot = \<lparr>in_use = False, peer = (0, 0, 0, 0), last_ms = 0, rebinds = 0, fl_dst = (0, 0, 0, 0),
     fl_dport = 0, fl_nslots = 0, fl_fpp = 0, fl_mcast = False, ext_id = 0, fl_chans = replicate 8 0,
     fl_dmac = (0, 0, 0, 0, 0, 0)\<rparr>"

definition demo_ctx :: pkt_ctx where
  "demo_ctx = \<lparr>chmap_lo = 0, chmap_hi = 0, cx_dst_ip = 0, ip_csum = 0, udp_sport = 0, udp_dport = 0,
     dst_mac_hi = 0, dst_mac_lo = 0, flow_phase = 0, flow_cfg = 0\<rparr>"

definition boot_tx :: tx where
  "boot_tx = \<lparr>flows = replicate 6 demo_slot, flow_ip = replicate 6 (239, 255, 0, 1), ctxs = replicate 6 demo_ctx,
     talker_on = False, pkt_enable = False, ts_offset_samples = 0, ts_load = (0, 0), src_regs = (0, 0, 0, 0, 0),
     tx_stats = \<lparr>enables = 0, disables = 0, anchors = 0, st_trim_ppb = 0, st_drift = 0\<rparr>,
     tx_telem = telem0, mdns_announces = 0, last_eff = 0, lock_since = 0, was_locked = False,
     seen_steps = None, last_servo_ms = 0, trim_ppb = 0, bad_streak = 0, g_mcast_fpp = 16, g_phase_adj = 2,
     g_fpp_max_accept = 60, g_fpp_clamp = False, g_latency_ns = 1000000, g_latency_autoraise = True\<rparr>"

lemma boot_tx_ok: "table_wf boot_tx"
  by (simp add: table_wf_def boot_tx_def N_FLOWS_def)

definition demo_net :: net where "demo_net = net_boot (0, 0x1D, 0xC1, 1, 2, 3)"

text \<open>A multicast destination needs no ARP entry, so any network state serves for a witness.\<close>

lemma mcast_known: "net_arp_lookup (239, 255, 0, 1) nt = (Some (1, 0, 0x5E, 0x7F, 0, 1), nt)"
  by (simp add: net_arp_lookup_def net_mcast_mac.simps)

theorem dante_tx_bind_unicast_exact_witness:
  "\<exists>f<N_FLOWS. fst (dante_tx_bind_unicast (\<lambda>_. 7) 100 (169, 254, 1, 2) (239, 255, 0, 1) 4400 [1, 2] 2 16
      boot_tx demo_net) = int f"
proof -
  obtain r s' nt where b: "dante_tx_bind_unicast (\<lambda>_. 7) 100 (169, 254, 1, 2) (239, 255, 0, 1) 4400 [1, 2] 2 16
      boot_tx demo_net = (r, s', nt)" by (metis prod_cases3)
  show ?thesis
    using dante_tx_bind_unicast_exact [OF boot_tx_ok mcast_known b] b by auto
qed

text \<open>
  One receiver can hold several flows: with a slot left free by the first, binding a
  second socket leaves the first bound with its slots and packet length, and both are found.
\<close>

theorem receiver_holds_two_flows:
  assumes "table_wf s" "arp_known nt d"
    and "flow_store rd now chans nt s (p, d, port1) v1 = Some s1" "port1 \<noteq> port2"
    and "first_slot (\<lambda>x. \<not> in_use x) s1 \<noteq> None"
  shows "\<exists>s2. flow_store rd now chans nt s1 (p, d, port2) v2 = Some s2 \<and>
    flow_get s2 (p, d, port1) = Some v1 \<and> flow_get s2 (p, d, port2) = Some v2"
proof -
  have wf: "length (flows s) = N_FLOWS" using assms(1) by (simp add: table_wf_def)
  have wf1: "length (flows s1) = N_FLOWS"
    by (rule flows.store_inv [OF wf _ assms(3)]) (simp add: assms(2))
  have g1: "flow_get s1 (p, d, port1) = Some v1"
    by (rule flows.get_same [OF wf _ assms(3)]) (simp add: assms(2))
  obtain s2 where s2: "flow_store rd now chans nt s1 (p, d, port2) v2 = Some s2"
    using flow_store_total [of nt "(p, d, port2)" rd now chans s1 v2] assms(2) by auto
  have "flow_get s2 (p, d, port2) = Some v2"
    by (rule flows.get_same [OF wf1 _ s2]) (simp add: assms(2))
  moreover have "flow_get s2 (p, d, port1) = flow_get s1 (p, d, port1)"
    by (rule flows.get_other [OF wf1 _ s2]) (use assms in \<open>auto simp: flow_evicts_def\<close>)
  ultimately show ?thesis using s2 g1 by auto
qed

text \<open>
  On a full table a new receiver takes a unicast slot whenever there is one, the one
  that has gone unrefreshed the longest; a multicast flow is given up only if all are multicast.
\<close>

theorem full_table_evicts_unicast:
  assumes "first_slot (\<lambda>x. \<not> in_use x) s = None" "first_slot (same_socket p dst dport) s = None"
    and "u < N_FLOWS" "\<not> fl_mcast (flows s ! u)"
    and "net_arp_lookup dst nt = (Some m, nt')" "table_wf s"
    and "dante_tx_bind_unicast rd now p dst dport chans n fpp s nt = (r, s', nt'')"
  shows "\<exists>f<N_FLOWS. r = int f \<and> \<not> fl_mcast (flows s ! f) \<and>
    now - last_ms (flows s ! u) \<le> now - last_ms (flows s ! f) \<and> (\<forall>j. j \<noteq> f \<longrightarrow> flows s' ! j = flows s ! j)"
proof -
  have wf: "length (flows s) = N_FLOWS" using assms(6) by (simp add: table_wf_def)
  obtain f where f: "oldest_unicast now s = Some f"
    using assms(3,4) oldest_unicast_None by (cases "oldest_unicast now s") auto
  then have v: "victim now s = f" by (simp add: victim_def)
  from wf assms(5,7) show ?thesis
  proof (rule bind_unicast_flows)
    fix g fresh
    assume g: "r = int g" "flows s' = (flows s)[g := rebound now p dst m dport chans n fpp fresh (flows s ! g)]"
      and "first_slot (same_socket p dst dport) s = Some g \<and> \<not> fresh \<and> tx_telem s' = tx_telem s \<or>
       first_slot (same_socket p dst dport) s = None \<and> fresh \<and>
       (first_slot (\<lambda>x. \<not> in_use x) s = Some g \<or>
        first_slot (\<lambda>x. \<not> in_use x) s = None \<and> g = victim now s)"
    then have "g = f" using assms(1,2) v by auto
    with g oldest_unicast_Some [OF f] assms(3,4) show ?thesis
      by (intro exI [of _ f]) (auto simp: unicast_age_def)
  qed
qed

lemma boot_flow_stored:
  assumes "flow_store rd now chans demo_net boot_tx (p, (239, 255, 0, 1), port) v = Some s1"
  shows "first_slot (\<lambda>x. \<not> in_use x) s1 \<noteq> None"
proof -
  have wf: "length (flows boot_tx) = N_FLOWS" using boot_tx_ok by (simp add: table_wf_def)
  obtain n fpp where [simp]: "v = (n, fpp)" by (cases v)
  from wf assms obtain f m fresh where fl: "flows s1 = (flows boot_tx)[f :=
      rebound now p (239, 255, 0, 1) m port chans n fpp fresh (flows boot_tx ! f)]"
    by (auto elim: flow_store_Some)
  define j where "j = (if f = 0 then 1 else 0 :: nat)"
  have "j < N_FLOWS" and "\<not> in_use (flows s1 ! j)"
    by (simp_all add: fl j_def N_FLOWS_def boot_tx_def demo_slot_def)
  then show ?thesis unfolding first_slot_None by blast
qed

theorem receiver_holds_two_flows_witness:
  "flow_store (\<lambda>_. 7) 100 [1, 2] demo_net
      (the (flow_store (\<lambda>_. 7) 100 [1, 2] demo_net boot_tx ((169, 254, 1, 2), (239, 255, 0, 1), 4400) (2, 16)))
      ((169, 254, 1, 2), (239, 255, 0, 1), 4401) (2, 16) \<noteq> None"
proof -
  have k: "arp_known demo_net (239, 255, 0, 1)" by (simp add: arp_known_def mcast_known)
  obtain s1 where s1: "flow_store (\<lambda>_. 7) 100 [1, 2] demo_net boot_tx
      ((169, 254, 1, 2), (239, 255, 0, 1), 4400) (2, 16) = Some s1"
    using flow_store_total [of demo_net "((169, 254, 1, 2), (239, 255, 0, 1), 4400)" "\<lambda>_. 7" 100 "[1, 2]" boot_tx "(2, 16)"]
      k by auto
  have ne: "(4400 :: u16) \<noteq> 4401" by simp
  show ?thesis
    using receiver_holds_two_flows [OF boot_tx_ok k s1 ne boot_flow_stored [OF s1], of "(2, 16)"] s1 by auto
qed

definition full_tx :: tx where
  "full_tx = boot_tx\<lparr>flows := replicate 6 (demo_slot\<lparr>in_use := True\<rparr>)\<rparr>"

theorem full_table_evicts_unicast_witness:
  "\<exists>f<N_FLOWS. fst (dante_tx_bind_unicast (\<lambda>_. 7) 100 (169, 254, 1, 2) (239, 255, 0, 1) 4400 [1, 2] 2 16
      full_tx demo_net) = int f"
proof -
  obtain r s' nt where b: "dante_tx_bind_unicast (\<lambda>_. 7) 100 (169, 254, 1, 2) (239, 255, 0, 1) 4400 [1, 2] 2 16
      full_tx demo_net = (r, s', nt)" by (metis prod_cases3)
  have fl: "flows full_tx ! i = demo_slot\<lparr>in_use := True\<rparr>" if "i < N_FLOWS" for i
    using that by (simp add: full_tx_def N_FLOWS_def)
  have nofree: "first_slot (\<lambda>x. \<not> in_use x) full_tx = None"
    and nosame: "first_slot (same_socket (169, 254, 1, 2) (239, 255, 0, 1) 4400) full_tx = None"
    unfolding first_slot_None by (simp_all add: fl same_socket_def demo_slot_def)
  have u: "(0 :: nat) < N_FLOWS" "\<not> fl_mcast (flows full_tx ! 0)"
    by (simp_all add: N_FLOWS_def full_tx_def demo_slot_def)
  have wf: "table_wf full_tx" by (simp add: table_wf_def full_tx_def boot_tx_def N_FLOWS_def)
  show ?thesis
    using full_table_evicts_unicast [OF nofree nosame u mcast_known wf b] b by auto
qed

text \<open>The seqlock: the phase seeded is that of one of the eight tries.\<close>

lemma seed_phase_try:
  assumes "0 < t"
  shows "\<exists>i<t. flow_phase (seed_phase rd adj fpp cfg k t c) = (rd (k + 2 * i) + adj) mod fpp \<and>
    (rd (k + 2 * i + 1) = rd (k + 2 * i) \<or> (\<forall>u<t. rd (k + 2 * u + 1) \<noteq> rd (k + 2 * u)))"
  using assms
proof (induction t arbitrary: k c)
  case (Suc t)
  show ?case
  proof (cases "rd (k + 1) = rd k")
    case True
    then show ?thesis by (intro exI [of _ 0]) (simp add: Let_def)
  next
    case no: False
    show ?thesis
    proof (cases "t = 0")
      case True
      with no show ?thesis by (simp add: Let_def)
    next
      case False
      then obtain i where "i < t"
        "flow_phase (seed_phase rd adj fpp cfg (k + 2) t (c\<lparr>flow_phase := (rd k + adj) mod fpp, flow_cfg := cfg\<rparr>)) =
          (rd (k + 2 + 2 * i) + adj) mod fpp"
        "rd (k + 2 + 2 * i + 1) = rd (k + 2 + 2 * i) \<or> (\<forall>u<t. rd (k + 2 + 2 * u + 1) \<noteq> rd (k + 2 + 2 * u))"
        using Suc.IH by blast
      with no show ?thesis
        by (intro exI [of _ "Suc i"]) (auto simp: Let_def less_Suc_eq_0_disj add.assoc)
    qed
  qed
qed simp

text \<open>
  The pacing phase a bind writes is below the packet length, and it is the phase of the
  sample counter at the instant the context was latched whenever one of the eight tries read
  the same counter before and after the latch.
\<close>

theorem write_ctx_phase:
  assumes "length (ctxs s) = N_FLOWS" "f < N_FLOWS" "0 < fpp" "j < 8" "rd (2 * j + 1) = rd (2 * j)"
  shows "\<exists>i<8. let ph = flow_phase (ctxs (write_ctx rd our f dst dmac dport chans n fpp s) ! f) in
    rd (2 * i + 1) = rd (2 * i) \<and> ph = (rd (2 * i) + g_phase_adj s) mod ucast fpp \<and> ph < ucast fpp"
proof -
  have "0 < (ucast fpp :: u32)" using assms(3) by (simp add: word_less_nat_alt)
  then have lt: "(w :: u32) mod ucast fpp < ucast fpp" for w by (rule word_mod_less_divisor)
  define c where "c = (ctxs s ! f)\<lparr>chmap_lo := chmap_word chans n 0, chmap_hi := chmap_word chans n 4,
    cx_dst_ip := ip_word dst,
    ip_csum := ip_header_checksum our dst (of_nat (20 + 8 + 9 + unat n * unat fpp * 3)) DANTE_TX_IP_TOS DANTE_TX_IP_TTL,
    udp_sport := DANTE_PORT_MEDIA, dst_mac_hi := mac_hi_word dmac, dst_mac_lo := mac_lo_word dmac, udp_dport := dport\<rparr>"
  have ph: "ctxs (write_ctx rd our f dst dmac dport chans n fpp s) ! f =
      seed_phase rd (g_phase_adj s) (ucast fpp) (flow_cfg_word n (ucast fpp)) 0 8 c"
    using assms(1,2) by (simp add: write_ctx_def Let_def c_def del: seed_phase.simps)
  obtain i where "i < 8" "flow_phase (seed_phase rd (g_phase_adj s) (ucast fpp) (flow_cfg_word n (ucast fpp)) 0 8 c) =
      (rd (2 * i) + g_phase_adj s) mod ucast fpp"
    "rd (2 * i + 1) = rd (2 * i) \<or> (\<forall>u<8. rd (2 * u + 1) \<noteq> rd (2 * u))"
    using seed_phase_try [of 8 rd "g_phase_adj s" "ucast fpp" "flow_cfg_word n (ucast fpp)" 0 c] by auto
  then show ?thesis
    using assms(4,5) lt by (intro exI [of _ i]) (auto simp: ph Let_def)
qed

theorem write_ctx_phase_witness:
  "\<exists>i<8. (7 :: u32) = 7 \<and> flow_phase (ctxs (write_ctx (\<lambda>_. 7) (0, 0, 0, 0) 0 (239, 255, 0, 1) (0, 0, 0, 0, 0, 0) 4321
      [1, 2] 2 16 boot_tx) ! 0) = (7 + g_phase_adj boot_tx) mod ucast (16 :: u8) \<and> i \<noteq> (8 :: nat)"
proof -
  have l: "length (ctxs boot_tx) = N_FLOWS" using boot_tx_ok by (simp add: table_wf_def)
  have f: "0 < N_FLOWS" by (simp add: N_FLOWS_def)
  show ?thesis
    using write_ctx_phase [OF l f, of 16 0 "\<lambda>_. 7" "(0, 0, 0, 0)" "(239, 255, 0, 1)" "(0, 0, 0, 0, 0, 0)" 4321 "[1, 2]" 2]
    by (auto simp: Let_def simp del: seed_phase.simps)
qed

lemma stale_after_rebind:
  assumes "length (flows u) = N_FLOWS" "f < N_FLOWS" "flows s' = (flows u)[f := rebound now p dst m dport chans n fpp fresh (flows u ! f)]"
    and "\<And>i. i \<noteq> f \<Longrightarrow> flows u ! i = flows s ! i" "ext_id (flows u ! f) = ext_id (flows s ! f)"
    and first: "first_slot (\<lambda>x. in_use x \<and> ext_id x = e) s = Some f"
    and only: "\<forall>i<N_FLOWS. fl_mcast (flows s ! i) \<and> ext_id (flows s ! i) = e \<longrightarrow> i = f"
  shows "\<not> fl_mcast (flows s' ! f) \<and> dante_tx_ctx_for_id e s' = int f \<and> dante_tx_mcast_by_id e s' = None"
proof -
  have new: "flows s' ! f = rebound now p dst m dport chans n fpp fresh (flows u ! f)"
    and old: "\<And>i. i \<noteq> f \<Longrightarrow> flows s' ! i = flows s ! i"
    using assms(1-4) by auto
  have "first_slot (\<lambda>x. in_use x \<and> ext_id x = e) s' = Some f"
    using first_slot_Some [OF first] new old assms(5)
    by (intro first_slot_first) (auto simp: rebound_def)
  moreover have "first_slot (\<lambda>x. in_use x \<and> fl_mcast x \<and> ext_id x = e) s' = None"
    unfolding first_slot_None
  proof (intro allI impI)
    fix i assume i: "i < N_FLOWS"
    show "\<not> (in_use (flows s' ! i) \<and> fl_mcast (flows s' ! i) \<and> ext_id (flows s' ! i) = e)"
      by (cases "i = f") (simp add: new rebound_def, use only i old in metis)
  qed
  ultimately show ?thesis
    using new by (simp add: dante_tx_ctx_for_id_def dante_tx_mcast_by_id_def rebound_def)
qed

text \<open>
  The flow id of a deleted multicast flow stays in its slot. When a unicast flow takes
  the slot, a lookup by that id finds the unicast flow, so a delete by id releases a flow
  nobody named, although no multicast flow has the id any more.
\<close>

theorem stale_id_finds_unicast:
  assumes "table_wf s" "dante_tx_ctx_for_id e s = int f" "f < N_FLOWS"
    and "\<forall>i<N_FLOWS. in_use (flows s ! i) \<and> (fl_mcast (flows s ! i) \<and> ext_id (flows s ! i) = e \<longrightarrow> i = f)"
    and "\<forall>i<N_FLOWS. \<not> same_socket p dst dport (flows s ! i)"
    and "net_arp_lookup dst nt = (Some m, nt')"
    and "dante_tx_bind_unicast rd now p dst dport chans n fpp (snd (dante_tx_unbind f now s)) nt = (r, s', nt'')"
  shows "r = int f \<and> \<not> fl_mcast (flows s' ! f) \<and> dante_tx_ctx_for_id e s' = int f \<and>
    dante_tx_mcast_by_id e s' = None"
proof -
  have used: "in_use (flows s ! i)" if "i < N_FLOWS" for i using assms(4) that by blast
  define u where "u = snd (dante_tx_unbind f now s)"
  have fu: "flows u = (flows s)[f := (flows s ! f)\<lparr>in_use := False\<rparr>]"
    using assms(3) used by (simp add: u_def dante_tx_unbind_def Let_def)
  have wf: "length (flows s) = N_FLOWS" "length (flows u) = N_FLOWS"
    using assms(1) by (simp_all add: table_wf_def fu)
  have first: "first_slot (\<lambda>x. in_use x \<and> ext_id x = e) s = Some f"
    using assms(2) by (auto simp: dante_tx_ctx_for_id_def split: option.splits)
  have free: "first_slot (\<lambda>x. \<not> in_use x) u = Some f"
    using assms(3) used wf fu by (intro first_slot_first) auto
  have same: "first_slot (same_socket p dst dport) u = None"
    using assms(3,5) wf fu unfolding first_slot_None by (auto simp: nth_list_update same_socket_def)
  from wf(2) assms(6) assms(7) [folded u_def] obtain g fresh where g: "r = int g"
    "flows s' = (flows u)[g := rebound now p dst m dport chans n fpp fresh (flows u ! g)]" "g = f"
    by (rule bind_unicast_flows) (use free same in auto)
  have only: "\<forall>i<N_FLOWS. fl_mcast (flows s ! i) \<and> ext_id (flows s ! i) = e \<longrightarrow> i = f"
    using assms(4) by blast
  have "\<not> fl_mcast (flows s' ! f) \<and> dante_tx_ctx_for_id e s' = int f \<and> dante_tx_mcast_by_id e s' = None"
    using g(2) fu wf assms(3) unfolding g(3)
    by (intro stale_after_rebind [OF wf(2) assms(3) _ _ _ first only, where fresh = fresh]) auto
  with g show ?thesis by simp
qed

definition mcast_tx :: tx where
  "mcast_tx = boot_tx\<lparr>flows := (demo_slot\<lparr>in_use := True, fl_mcast := True, ext_id := 32\<rparr>) #
     replicate 5 (demo_slot\<lparr>in_use := True\<rparr>)\<rparr>"

theorem stale_id_finds_unicast_witness:
  "fst (dante_tx_bind_unicast (\<lambda>_. 7) 100 (169, 254, 1, 2) (239, 255, 0, 1) 4400 [1, 2] 2 16
      (snd (dante_tx_unbind 0 100 mcast_tx)) demo_net) = int 0"
proof -
  obtain r s' nt where b: "dante_tx_bind_unicast (\<lambda>_. 7) 100 (169, 254, 1, 2) (239, 255, 0, 1) 4400 [1, 2] 2 16
      (snd (dante_tx_unbind 0 100 mcast_tx)) demo_net = (r, s', nt)" by (metis prod_cases3)
  have wf: "table_wf mcast_tx" by (simp add: table_wf_def mcast_tx_def boot_tx_def N_FLOWS_def)
  have id: "dante_tx_ctx_for_id 32 mcast_tx = int 0"
    by (simp add: dante_tx_ctx_for_id_def first_slot_def mcast_tx_def N_FLOWS_def upt_rec)
  have z: "0 < N_FLOWS" by (simp add: N_FLOWS_def)
  have fl: "flows mcast_tx ! i = (if i = 0 then demo_slot\<lparr>in_use := True, fl_mcast := True, ext_id := 32\<rparr>
      else demo_slot\<lparr>in_use := True\<rparr>)" if "i < N_FLOWS" for i
    using that by (auto simp: mcast_tx_def N_FLOWS_def nth_Cons')
  have a: "\<forall>i<N_FLOWS. in_use (flows mcast_tx ! i) \<and>
      (fl_mcast (flows mcast_tx ! i) \<and> ext_id (flows mcast_tx ! i) = 32 \<longrightarrow> i = 0)"
    by (auto simp: fl demo_slot_def)
  have n: "\<forall>i<N_FLOWS. \<not> same_socket (169, 254, 1, 2) (239, 255, 0, 1) 4400 (flows mcast_tx ! i)"
    by (auto simp: fl demo_slot_def same_socket_def)
  show ?thesis
    using stale_id_finds_unicast [OF wf id z a n mcast_known b] b by simp
qed

text \<open>The widest packet window among the bound flows.\<close>

definition counted :: "tx \<Rightarrow> nat \<Rightarrow> bool" where
  "counted s i \<longleftrightarrow> in_use (flows s ! i) \<and> fl_fpp (flows s ! i) \<noteq> 0"

lemma worst_window_scan:
  fixes s
  defines "step \<equiv> (\<lambda>w i. let x = flows s ! i in
     if \<not> in_use x \<or> fl_fpp x = 0 then w else let win = fpp_window (fl_fpp x) in if win > w then win else w)"
  shows "(\<forall>i<n. counted s i \<longrightarrow> fpp_window (fl_fpp (flows s ! i)) \<le> foldl step 0 [0..<n]) \<and>
    (foldl step 0 [0..<n] = 0 \<or> (\<exists>i<n. counted s i \<and> foldl step 0 [0..<n] = fpp_window (fl_fpp (flows s ! i))))"
proof (induction n)
  case (Suc n)
  then show ?case
    by (auto simp: step_def Let_def counted_def less_Suc_eq not_less word_le_0_iff)
qed simp

lemma worst_window_max:
  "i < N_FLOWS \<Longrightarrow> counted s i \<Longrightarrow> fpp_window (fl_fpp (flows s ! i)) \<le> worst_window s"
  "worst_window s = 0 \<or> (\<exists>i<N_FLOWS. counted s i \<and> worst_window s = fpp_window (fl_fpp (flows s ! i)))"
  using worst_window_scan [where s = s and n = N_FLOWS] unfolding worst_window_def by blast+

lemma unat_fpp_window: "unat (fpp_window fpp) = unat fpp * 1000000000 div 48000"
proof -
  have b: "unat fpp < 256" by (rule unat_u8_less)
  have "unat ((ucast fpp :: u64) * 1000000000) = unat fpp * 1000000000"
    using b by (subst unat_word_ariths) (simp add: unsigned_ucast_eq take_bit_eq_mod)
  then have "unat (((ucast fpp :: u64) * 1000000000) div 48000) = unat fpp * 1000000000 div 48000"
    by (simp add: unat_div)
  moreover have "unat fpp * 1000000000 div 48000 < 2 ^ 32"
    using b by (simp add: less_mult_imp_div_less)
  ultimately show ?thesis
    by (simp add: fpp_window_def unsigned_ucast_eq take_bit_eq_mod)
qed

lemma std_lat_above:
  "List.find (\<lambda>l. l > w) std_lat = None \<Longrightarrow> 5000000 \<le> w"
  "List.find (\<lambda>l. l > w) std_lat = Some l \<Longrightarrow> w < l \<and> l \<in> set std_lat \<and> (\<forall>k \<in> set std_lat. k < l \<longrightarrow> k \<le> w)"
  by (auto simp: std_lat_def not_less split: if_splits)

text \<open>
  With the automatic raise on, the advertised latency is never below the configured one,
  and is above the time every bound flow needs to fill a packet (any packet length under
  240); when it is raised, it is to a standard value, the lowest that no bound flow rules out.
\<close>

theorem latency_covers_bound_flows:
  assumes "g_latency_autoraise s" "\<forall>i<N_FLOWS. counted s i \<longrightarrow> fl_fpp (flows s ! i) < 240"
  shows "g_latency_ns s \<le> dante_tx_latency_effective s \<and>
    (\<forall>i<N_FLOWS. counted s i \<longrightarrow> fpp_window (fl_fpp (flows s ! i)) < dante_tx_latency_effective s) \<and>
    (dante_tx_latency_effective s \<noteq> g_latency_ns s \<longrightarrow> dante_tx_latency_effective s \<in> set std_lat \<and>
      (\<forall>l \<in> set std_lat. l < dante_tx_latency_effective s \<longrightarrow>
        (\<exists>i<N_FLOWS. counted s i \<and> l \<le> fpp_window (fl_fpp (flows s ! i)))))"
proof -
  have "worst_window s < 5000000"
    using worst_window_max(2) [of s]
  proof
    assume "\<exists>i<N_FLOWS. counted s i \<and> worst_window s = fpp_window (fl_fpp (flows s ! i))"
    then obtain i where i: "i < N_FLOWS" "counted s i" "worst_window s = fpp_window (fl_fpp (flows s ! i))" by blast
    then have "unat (fl_fpp (flows s ! i)) < 240" using assms(2) by (simp add: word_less_nat_alt)
    then have "unat (worst_window s) < 5000000" unfolding i unat_fpp_window by (simp add: less_mult_imp_div_less)
    then show ?thesis by (simp add: word_less_nat_alt)
  qed simp
  then obtain l where l: "List.find (\<lambda>l. l > worst_window s) std_lat = Some l"
    using std_lat_above(1) [of "worst_window s"] by (cases "List.find (\<lambda>l. l > worst_window s) std_lat") auto
  then have eff: "dante_tx_latency_effective s = (if l > g_latency_ns s then l else g_latency_ns s)"
    using assms(1) by (simp add: dante_tx_latency_effective_def Let_def)
  note a = std_lat_above(2) [OF l]
  have above: "fpp_window (fl_fpp (flows s ! i)) < dante_tx_latency_effective s" if "i < N_FLOWS" "counted s i" for i
  proof -
    have "fpp_window (fl_fpp (flows s ! i)) < l" using worst_window_max(1) [OF that] a by (meson le_less_trans)
    moreover have "l \<le> dante_tx_latency_effective s" by (simp add: eff not_less)
    ultimately show ?thesis by (meson less_le_trans)
  qed
  have least: "\<exists>i<N_FLOWS. counted s i \<and> k \<le> fpp_window (fl_fpp (flows s ! i))"
    if k: "k \<in> set std_lat" "k < l" for k
  proof -
    have "k \<le> worst_window s" "0 < k" using a k by (auto simp: std_lat_def)
    then show ?thesis using worst_window_max(2) [of s] by auto
  qed
  show ?thesis using above least a by (auto simp: eff)
qed

theorem latency_covers_bound_flows_witness:
  "fpp_window 60 < dante_tx_latency_effective (boot_tx\<lparr>flows := (demo_slot\<lparr>in_use := True, fl_fpp := 60\<rparr>) #
     replicate 5 demo_slot\<rparr>)"
proof -
  let ?s = "boot_tx\<lparr>flows := (demo_slot\<lparr>in_use := True, fl_fpp := 60\<rparr>) # replicate 5 demo_slot\<rparr>"
  have a: "g_latency_autoraise ?s" by (simp add: boot_tx_def)
  have fl: "fl_fpp (flows ?s ! i) < 240" if "i < N_FLOWS" for i
    using that by (auto simp: N_FLOWS_def nth_Cons' demo_slot_def)
  have z: "0 < N_FLOWS" "counted ?s 0" by (simp_all add: N_FLOWS_def counted_def)
  show ?thesis
    using latency_covers_bound_flows [OF a] fl z by fastforce
qed

end
