(* ===== verification/Dante_Tx_Clock.thy ===== *)
theory Dante_Tx_Clock
  imports Dante_Tx
begin

text \<open>
  The media clock side of \<^theory_text>\<open>firmware/dante_tx.c\<close>: anchoring the media clock to PTP,
  reseeding the pacing phases, reading the emitted timestamp, and \<^theory_text>\<open>dante_tx_poll\<close>
  with its parts in the order the code has them. What the poll reads from the PTP slave, the
  PTP clock and the packetizer is the record \<open>tx_view\<close>, fixed for the poll.
\<close>

section \<open>What the poll sees\<close>

record tx_view =
  vw_now :: u32
  vw_sec :: u64
  vw_ns :: u32
  vw_last_sec :: "nat \<Rightarrow> u32"
  vw_last_ts :: "nat \<Rightarrow> u32"
  vw_locked :: bool
  vw_phase_settled :: bool
  vw_path_delay :: int
  vw_steps :: u32
  vw_rate_ready :: bool

definition PTP_SETTLE_MS :: u32 where "PTP_SETTLE_MS = 4000"
definition PHASE_SETTLE_MAX_MS :: u32 where "PHASE_SETTLE_MAX_MS = 20000"
definition DANTE_TX_TS_OFFSET :: int where "DANTE_TX_TS_OFFSET = 0"
definition DANTE_TX_REANCHOR_SAMPLES :: int where "DANTE_TX_REANCHOR_SAMPLES = 8"

text \<open>Nanoseconds to samples, in 32-bit unsigned arithmetic.\<close>

definition ns_samples :: "u32 \<Rightarrow> u32" where
  "ns_samples ns = (ns * 3) div 62500"

definition ptp_samples :: "tx_view \<Rightarrow> int" where
  "ptp_samples v = uint (vw_sec v) * 48000 + uint (ns_samples (vw_ns v))"

text \<open>
  The seqlock of \<^theory_text>\<open>dante_tx_read_emitted\<close>: four tries, then whatever is there.
  Try \<open>i\<close> uses reads \<open>2i\<close> and \<open>2i+1\<close> of the seconds.
\<close>

fun read_emitted :: "(nat \<Rightarrow> u32) \<Rightarrow> (nat \<Rightarrow> u32) \<Rightarrow> nat \<Rightarrow> nat \<Rightarrow> u32 \<times> u32" where
  "read_emitted rs rt i 0 = (rs (2 * i), rt i)"
| "read_emitted rs rt i (Suc tries) =
    (if rs (2 * i) = rs (2 * i + 1) then (rs (2 * i), rt i) else read_emitted rs rt (i + 1) tries)"

definition dante_tx_read_emitted :: "tx_view \<Rightarrow> u32 \<times> u32" where
  "dante_tx_read_emitted v = read_emitted (vw_last_sec v) (vw_last_ts v) 0 4"

section \<open>Anchoring\<close>

definition reseed_flow :: "u32 \<Rightarrow> tx \<Rightarrow> nat \<Rightarrow> tx" where
  "reseed_flow sub s f =
    (let x = flows s ! f; fpp = ucast (fl_fpp x) :: u32 in
     if \<not> in_use x \<or> fl_fpp x = 0 then s
     else upd_ctx f (\<lambda>c. c\<lparr>flow_phase := (sub + g_phase_adj s + fpp - 1) mod fpp,
                           flow_cfg := flow_cfg_word (fl_nslots x) (ucast (fl_fpp x))\<rparr>) s)"

definition dante_tx_reseed_phases :: "u32 \<Rightarrow> tx \<Rightarrow> tx" where
  "dante_tx_reseed_phases sub s = foldl (reseed_flow sub) s [0..<N_FLOWS]"

text \<open>The offset is applied to the anchor, with one carry into the seconds.\<close>

definition anchor_point :: "u64 \<Rightarrow> u32 \<Rightarrow> int \<Rightarrow> u32 \<times> int" where
  "anchor_point seconds ns off =
    (let sub = to_i32 (uint (ns_samples ns)) + off; sec = ucast seconds :: u32 in
     if sub < 0 then (sec - 1, sub + 48000)
     else if sub \<ge> 48000 then (sec + 1, sub - 48000)
     else (sec, sub))"

definition ts_anchor :: "tx_view \<Rightarrow> tx \<Rightarrow> tx" where
  "ts_anchor v s =
    (let (sec, isub) = anchor_point (vw_sec v) (vw_ns v) (ts_offset_samples s);
         sub = of_int isub :: u32;
         s = dante_tx_reseed_phases sub (s\<lparr>ts_load := (sec, sub)\<rparr>);
         s = s\<lparr>tx_stats := (tx_stats s)\<lparr>anchors := anchors (tx_stats s) + 1\<rparr>\<rparr> in
     log_event TELEM_E_ANCHOR sec sub (vw_now v) s)"

definition dante_tx_set_ts_offset :: "int \<Rightarrow> tx_view \<Rightarrow> tx \<Rightarrow> tx" where
  "dante_tx_set_ts_offset off v s = ts_anchor v (s\<lparr>ts_offset_samples := off\<rparr>)"

text \<open>The smallest and largest packet length among the bound flows, 16 when there is none.\<close>

definition dante_tx_fpp_range :: "tx \<Rightarrow> u16 \<times> u16" where
  "dante_tx_fpp_range s =
    (let (lo, hi) = foldl (\<lambda>(lo, hi) i. let x = flows s ! i; fpp = ucast (fl_fpp x) :: u16 in
           if \<not> in_use x \<or> fl_fpp x = 0 then (lo, hi)
           else (if lo = 0 \<or> fpp < lo then fpp else lo, if fpp > hi then fpp else hi))
         (0, 0) [0..<N_FLOWS] in
     if lo = 0 then (16, 16) else (lo, hi))"

section \<open>The poll\<close>

text \<open>A changed effective latency is announced.\<close>

definition poll_announce :: "tx \<Rightarrow> tx" where
  "poll_announce s =
    (let eff = dante_tx_latency_effective s in
     if eff \<noteq> last_eff s then mdns_announce (s\<lparr>last_eff := eff\<rparr>) else s)"

definition poll_lock :: "tx_view \<Rightarrow> tx \<Rightarrow> tx" where
  "poll_lock v s =
     (if vw_locked v \<and> \<not> was_locked s then s\<lparr>lock_since := vw_now v\<rparr> else s)\<lparr>was_locked := vw_locked v\<rparr>"

definition settled :: "tx_view \<Rightarrow> tx \<Rightarrow> bool" where
  "settled v s \<longleftrightarrow>
     vw_locked v \<and>
     (vw_phase_settled v \<or> vw_now v - lock_since s \<ge> PHASE_SETTLE_MAX_MS) \<and>
     vw_path_delay v \<noteq> 0 \<and>
     vw_now v - lock_since s \<ge> PTP_SETTLE_MS"

text \<open>A later PTP step is followed by a new anchor while the talker is on.\<close>

definition poll_steps :: "tx_view \<Rightarrow> tx \<Rightarrow> tx" where
  "poll_steps v s =
    (let seen = (case seen_steps s of None \<Rightarrow> vw_steps v | Some n \<Rightarrow> n);
         s = s\<lparr>seen_steps := Some seen\<rparr> in
     if vw_steps v \<noteq> seen
     then let s = s\<lparr>seen_steps := Some (vw_steps v)\<rparr> in if talker_on s then ts_anchor v s else s
     else s)"

text \<open>The once a second drift measurement. Its trim is only recorded.\<close>

definition poll_servo :: "tx_view \<Rightarrow> tx \<Rightarrow> tx" where
  "poll_servo v s =
    (if talker_on s \<and> vw_locked v
     then let dt = vw_now v - last_servo_ms s in
       if dt \<ge> 1000 \<and> dt < 60000
       then let emit = uint (vw_last_sec v 0) * 48000 + uint (vw_last_ts v 0);
                err = to_i32 (emit - ptp_samples v);
                trim = clamp_sym 50000 (trim_ppb s - err * 20) in
            s\<lparr>last_servo_ms := vw_now v, trim_ppb := trim,
              tx_stats := (tx_stats s)\<lparr>st_trim_ppb := trim, st_drift := err\<rparr>\<rparr>
       else if dt \<ge> 60000 then s\<lparr>last_servo_ms := vw_now v\<rparr> else s
     else s)"

text \<open>The phase error against PTP and the band it may move in.\<close>

definition phase_err :: "tx_view \<Rightarrow> tx \<Rightarrow> int" where
  "phase_err v s =
    (let (esec, esub) = dante_tx_read_emitted v; (lo, hi) = dante_tx_fpp_range s in
     uint esec * 48000 + uint esub - ptp_samples v - DANTE_TX_TS_OFFSET + (uint lo - 1))"

definition phase_band :: "tx \<Rightarrow> int" where
  "phase_band s = (let (lo, hi) = dante_tx_fpp_range s in DANTE_TX_REANCHOR_SAMPLES + (uint hi - uint lo))"

definition poll_phase :: "tx_view \<Rightarrow> bool \<Rightarrow> tx \<Rightarrow> tx" where
  "poll_phase v want s =
    (if talker_on s \<and> want
     then let err = phase_err v s; band = phase_band s;
              s = s\<lparr>bad_streak := if err > band \<or> err < - band then bad_streak s + 1 else 0\<rparr> in
          if bad_streak s \<ge> 2 then ts_anchor v (s\<lparr>bad_streak := 0\<rparr>) else s
     else s)"

text \<open>The gate itself: the anchor comes before the enable.\<close>

definition poll_gate :: "tx_view \<Rightarrow> bool \<Rightarrow> tx \<Rightarrow> tx" where
  "poll_gate v want s =
    (if want = talker_on s then s
     else if want
     then let s = ts_anchor v s;
              s = s\<lparr>pkt_enable := True, talker_on := True,
                    tx_stats := (tx_stats s)\<lparr>enables := enables (tx_stats s) + 1\<rparr>\<rparr> in
          log_event TELEM_E_TALKER_ON (of_nat (dante_tx_active s)) 0 (vw_now v) s
     else let s = log_event TELEM_E_TALKER_OFF 0 0 (vw_now v) (s\<lparr>pkt_enable := False, talker_on := False\<rparr>) in
          s\<lparr>tx_stats := (tx_stats s)\<lparr>disables := disables (tx_stats s) + 1\<rparr>\<rparr>)"

definition dante_tx_poll :: "tx_view \<Rightarrow> tx \<Rightarrow> tx" where
  "dante_tx_poll v s =
    (let s = poll_announce s;
         s = poll_lock v s;
         settl = settled v s;
         s = poll_steps v s;
         want = (settl \<and> dante_tx_active s > 0 \<and> vw_rate_ready v);
         s = poll_servo v s;
         s = poll_phase v want s in
     poll_gate v want s)"

section \<open>What the parts leave alone\<close>

lemma tx_frame_more [simp]:
  "talker_on (log_event e a b now s) = talker_on s" "pkt_enable (log_event e a b now s) = pkt_enable s"
  "bad_streak (log_event e a b now s) = bad_streak s" "tx_stats (log_event e a b now s) = tx_stats s"
  "ts_load (log_event e a b now s) = ts_load s" "flow_ip (log_event e a b now s) = flow_ip s"
  "ts_offset_samples (log_event e a b now s) = ts_offset_samples s"
  "talker_on (upd_ctx f c s) = talker_on s" "pkt_enable (upd_ctx f c s) = pkt_enable s"
  "bad_streak (upd_ctx f c s) = bad_streak s" "tx_stats (upd_ctx f c s) = tx_stats s"
  "ts_load (upd_ctx f c s) = ts_load s" "flow_ip (upd_ctx f c s) = flow_ip s"
  "g_phase_adj (upd_ctx f c s) = g_phase_adj s" "ts_offset_samples (upd_ctx f c s) = ts_offset_samples s"
  "talker_on (upd_flow f g s) = talker_on s" "pkt_enable (upd_flow f g s) = pkt_enable s"
  "bad_streak (upd_flow f g s) = bad_streak s" "flow_ip (upd_flow f g s) = flow_ip s"
  "tx_stats (upd_flow f g s) = tx_stats s"
  by (simp_all add: log_event_def upd_ctx_def upd_flow_def)

lemma reseed_flow_frame [simp]:
  "flows (reseed_flow sub s f) = flows s" "talker_on (reseed_flow sub s f) = talker_on s"
  "pkt_enable (reseed_flow sub s f) = pkt_enable s" "bad_streak (reseed_flow sub s f) = bad_streak s"
  "tx_stats (reseed_flow sub s f) = tx_stats s" "ts_load (reseed_flow sub s f) = ts_load s"
  "flow_ip (reseed_flow sub s f) = flow_ip s" "length (ctxs (reseed_flow sub s f)) = length (ctxs s)"
  "g_phase_adj (reseed_flow sub s f) = g_phase_adj s" "ts_offset_samples (reseed_flow sub s f) = ts_offset_samples s"
  "j \<noteq> f \<Longrightarrow> ctxs (reseed_flow sub s f) ! j = ctxs s ! j"
  by (simp_all add: reseed_flow_def Let_def)

lemma reseed_frame [simp]:
  "flows (dante_tx_reseed_phases sub s) = flows s" "talker_on (dante_tx_reseed_phases sub s) = talker_on s"
  "pkt_enable (dante_tx_reseed_phases sub s) = pkt_enable s" "bad_streak (dante_tx_reseed_phases sub s) = bad_streak s"
  "tx_stats (dante_tx_reseed_phases sub s) = tx_stats s" "ts_load (dante_tx_reseed_phases sub s) = ts_load s"
  "flow_ip (dante_tx_reseed_phases sub s) = flow_ip s"
  "length (ctxs (dante_tx_reseed_phases sub s)) = length (ctxs s)"
  "ts_offset_samples (dante_tx_reseed_phases sub s) = ts_offset_samples s"
  by (simp_all add: dante_tx_reseed_phases_def N_FLOWS_def upt_rec)

text \<open>Every bound context gets the phase of the value the counter is about to adopt.\<close>

lemma reseed_ctx:
  assumes "length (ctxs s) = N_FLOWS" "f < N_FLOWS"
  shows "ctxs (dante_tx_reseed_phases sub s) ! f =
    (if counted s f
     then (ctxs s ! f)\<lparr>flow_phase := (sub + g_phase_adj s + ucast (fl_fpp (flows s ! f)) - 1) mod ucast (fl_fpp (flows s ! f)),
       flow_cfg := flow_cfg_word (fl_nslots (flows s ! f)) (ucast (fl_fpp (flows s ! f)))\<rparr>
     else ctxs s ! f)"
proof -
  have scan: "length (ctxs t) = N_FLOWS \<Longrightarrow> n \<le> N_FLOWS \<Longrightarrow> j < N_FLOWS \<Longrightarrow>
      ctxs (foldl (reseed_flow sub) t [0..<n]) ! j =
      (if j < n then ctxs (reseed_flow sub t j) ! j else ctxs t ! j) \<and>
      length (ctxs (foldl (reseed_flow sub) t [0..<n])) = N_FLOWS \<and>
      flows (foldl (reseed_flow sub) t [0..<n]) = flows t \<and>
      g_phase_adj (foldl (reseed_flow sub) t [0..<n]) = g_phase_adj t" for t n j
  proof (induction n)
    case (Suc n)
    then show ?case
      by (cases "j = n") (auto simp: reseed_flow_def Let_def)
  qed simp
  show ?thesis
    using scan [of s N_FLOWS f] assms
    by (auto simp: dante_tx_reseed_phases_def reseed_flow_def counted_def Let_def)
qed

lemma ts_anchor_frame [simp]:
  "flows (ts_anchor v s) = flows s" "talker_on (ts_anchor v s) = talker_on s"
  "pkt_enable (ts_anchor v s) = pkt_enable s" "bad_streak (ts_anchor v s) = bad_streak s"
  "flow_ip (ts_anchor v s) = flow_ip s" "length (ctxs (ts_anchor v s)) = length (ctxs s)"
  "anchors (tx_stats (ts_anchor v s)) = anchors (tx_stats s) + 1"
  "ts_offset_samples (ts_anchor v s) = ts_offset_samples s"
  by (simp_all add: ts_anchor_def Let_def split: prod.splits)

lemma ts_anchor_load:
  "ts_load (ts_anchor v s) = (let (sec, sub) = anchor_point (vw_sec v) (vw_ns v) (ts_offset_samples s) in (sec, of_int sub))"
  by (simp add: ts_anchor_def Let_def split: prod.splits)

text \<open>Reseeding reads the table, the adjustment and the contexts only.\<close>

lemma reseed_local:
  assumes "flows s = flows t" "g_phase_adj s = g_phase_adj t" "ctxs s = ctxs t"
  shows "ctxs (dante_tx_reseed_phases sub s) = ctxs (dante_tx_reseed_phases sub t)"
proof -
  have "flows a = flows b \<Longrightarrow> g_phase_adj a = g_phase_adj b \<Longrightarrow> ctxs a = ctxs b \<Longrightarrow>
      ctxs (foldl (reseed_flow sub) a is) = ctxs (foldl (reseed_flow sub) b is)" for a b "is"
  proof (induction "is" arbitrary: a b)
    case (Cons i "is")
    have "ctxs (reseed_flow sub a i) = ctxs (reseed_flow sub b i)"
      unfolding reseed_flow_def Let_def Cons.prems by (simp add: Cons.prems(3))
    then show ?case
      unfolding foldl_Cons by (intro Cons.IH) (simp_all only: reseed_flow_frame Cons.prems)
  qed simp
  then show ?thesis unfolding dante_tx_reseed_phases_def using assms .
qed

lemma ts_anchor_ctxs:
  "ctxs (ts_anchor v s) = ctxs (dante_tx_reseed_phases (snd (ts_load (ts_anchor v s))) s)"
proof -
  obtain sec sub where a: "anchor_point (vw_sec v) (vw_ns v) (ts_offset_samples s) = (sec, sub)"
    by (cases "anchor_point (vw_sec v) (vw_ns v) (ts_offset_samples s)")
  have "ctxs (ts_anchor v s) = ctxs (dante_tx_reseed_phases (of_int sub) (s\<lparr>ts_load := (sec, of_int sub)\<rparr>))"
    unfolding ts_anchor_def a Let_def by simp
  also have "\<dots> = ctxs (dante_tx_reseed_phases (of_int sub) s)"
    by (rule reseed_local) simp_all
  finally show ?thesis by (simp add: ts_anchor_load a)
qed

lemma poll_parts_frame [simp]:
  "flows (poll_announce s) = flows s" "talker_on (poll_announce s) = talker_on s"
  "pkt_enable (poll_announce s) = pkt_enable s" "bad_streak (poll_announce s) = bad_streak s"
  "flow_ip (poll_announce s) = flow_ip s" "ctxs (poll_announce s) = ctxs s"
  "lock_since (poll_announce s) = lock_since s" "was_locked (poll_announce s) = was_locked s"
  "flows (poll_lock v s) = flows s" "talker_on (poll_lock v s) = talker_on s"
  "pkt_enable (poll_lock v s) = pkt_enable s" "bad_streak (poll_lock v s) = bad_streak s"
  "flow_ip (poll_lock v s) = flow_ip s" "ctxs (poll_lock v s) = ctxs s"
  "flows (poll_steps v s) = flows s" "talker_on (poll_steps v s) = talker_on s"
  "pkt_enable (poll_steps v s) = pkt_enable s" "bad_streak (poll_steps v s) = bad_streak s"
  "flow_ip (poll_steps v s) = flow_ip s"
  "flows (poll_servo v s) = flows s" "talker_on (poll_servo v s) = talker_on s"
  "pkt_enable (poll_servo v s) = pkt_enable s" "bad_streak (poll_servo v s) = bad_streak s"
  "flow_ip (poll_servo v s) = flow_ip s" "ctxs (poll_servo v s) = ctxs s"
  "flows (poll_phase v w s) = flows s" "talker_on (poll_phase v w s) = talker_on s"
  "pkt_enable (poll_phase v w s) = pkt_enable s" "flow_ip (poll_phase v w s) = flow_ip s"
  "flows (poll_gate v w s) = flows s" "talker_on (poll_gate v w s) = w"
  "bad_streak (poll_gate v w s) = bad_streak s" "flow_ip (poll_gate v w s) = flow_ip s"
  by (auto simp: poll_announce_def poll_lock_def poll_steps_def poll_servo_def poll_phase_def poll_gate_def
      mdns_announce_def Let_def split: option.splits)

lemma poll_gate_enable: "pkt_enable s = talker_on s \<Longrightarrow> pkt_enable (poll_gate v w s) = w"
  by (simp add: poll_gate_def Let_def)

section \<open>Anchoring is exact\<close>

lemma unat_ns_samples: "unat ns < 1000000000 \<Longrightarrow> unat (ns_samples ns) = unat ns * 3 div 62500 \<and> unat (ns_samples ns) < 48000"
proof -
  assume ns: "unat ns < 1000000000"
  then have "unat (ns * 3) = unat ns * 3"
    by (subst unat_word_ariths) simp
  then have "unat (ns_samples ns) = unat ns * 3 div 62500"
    by (simp add: ns_samples_def unat_div)
  moreover have "unat ns * 3 div 62500 < 48000" using ns by (simp add: less_mult_imp_div_less)
  ultimately show ?thesis by simp
qed

lemma anchor_point_exact:
  assumes "unat ns < 1000000000" "- 48000 \<le> off" "off \<le> 48000"
    and "0 < uint (ucast s :: u32)" "uint (ucast s :: u32) < 2 ^ 32 - 1" "anchor_point s ns off = (sec, sub)"
  shows "0 \<le> sub \<and> sub < 48000 \<and>
    uint sec * 48000 + sub = uint (ucast s :: u32) * 48000 + int (unat ns * 3 div 62500) + off"
proof -
  let ?s = "ucast s :: u32"
  note n = unat_ns_samples [OF assms(1)]
  have u: "uint (ns_samples ns) = int (unat ns * 3 div 62500)" "uint (ns_samples ns) < 48000" "0 \<le> uint (ns_samples ns)"
    using n by (simp_all add: uint_nat)
  have top: "uint ?s < 4294967296" using uint_bounded [of ?s] by simp
  have down: "uint (?s - 1) = uint ?s - 1"
    using assms(4) top by (simp only: uint_word_ariths) (simp add: mod_pos_pos_trivial)
  have up: "uint (?s + 1) = uint ?s + 1"
    using assms(5) by (simp only: uint_word_ariths) (simp add: mod_pos_pos_trivial)
  have i: "to_i32 (uint (ns_samples ns)) = uint (ns_samples ns)" using u by simp
  define k where "k = uint (ns_samples ns)"
  have k: "k = int (unat ns * 3 div 62500)" "0 \<le> k" "k < 48000" using u by (simp_all add: k_def)
  have def: "(if k + off < 0 then (?s - 1, k + off + 48000)
      else if k + off \<ge> 48000 then (?s + 1, k + off - 48000) else (?s, k + off)) = (sec, sub)"
    using assms(6) unfolding anchor_point_def Let_def i k_def .
  consider "k + off < 0" "sec = ?s - 1" "sub = k + off + 48000"
    | "k + off \<ge> 48000" "sec = ?s + 1" "sub = k + off - 48000"
    | "0 \<le> k + off" "k + off < 48000" "sec = ?s" "sub = k + off"
    using def by (auto split: if_splits)
  then show ?thesis
    unfolding k(1) [symmetric] using assms(2,3) k(2,3)
    by cases (simp_all add: down up)
qed

text \<open>
  C9: an anchor loads the media clock with the PTP time in samples plus the offset, exactly,
  as seconds and a sample count below 48000 (for a nanosecond field below one second and an
  offset of at most a second either way), and leaves every bound context with the pacing
  phase that goes with the loaded count; the rest of each context is as it was.
\<close>

theorem ts_anchor_exact:
  assumes "unat (vw_ns v) < 1000000000" "- 48000 \<le> ts_offset_samples s" "ts_offset_samples s \<le> 48000"
    and "0 < uint (ucast (vw_sec v) :: u32)" "uint (ucast (vw_sec v) :: u32) < 2 ^ 32 - 1"
    and "table_wf s" "ts_load (ts_anchor v s) = (sec, sub)"
  shows "unat sub < 48000 \<and>
    uint sec * 48000 + uint sub = uint (ucast (vw_sec v) :: u32) * 48000 +
      int (unat (vw_ns v) * 3 div 62500) + ts_offset_samples s \<and>
    (\<forall>f<N_FLOWS. ctxs (ts_anchor v s) ! f = (if counted s f
      then (ctxs s ! f)\<lparr>flow_phase := (sub + g_phase_adj s + ucast (fl_fpp (flows s ! f)) - 1) mod ucast (fl_fpp (flows s ! f)),
        flow_cfg := flow_cfg_word (fl_nslots (flows s ! f)) (ucast (fl_fpp (flows s ! f)))\<rparr>
      else ctxs s ! f))"
proof -
  obtain a where a: "anchor_point (vw_sec v) (vw_ns v) (ts_offset_samples s) = (sec, a)" and sub: "sub = of_int a"
    using assms(7) by (auto simp: ts_anchor_load split: prod.splits)
  have e: "0 \<le> a" "a < 48000" "uint sec * 48000 + a = uint (ucast (vw_sec v) :: u32) * 48000 +
      int (unat (vw_ns v) * 3 div 62500) + ts_offset_samples s"
    using anchor_point_exact [OF assms(1-5) a] by blast+
  have "0 \<le> a" "a < 4294967296" using e by simp_all
  then have u: "uint sub = a" by (simp add: sub uint_word_of_int mod_pos_pos_trivial)
  have "unat sub < 48000" using u e(2) unat_eq_nat_uint [of sub] by linarith
  moreover have "ctxs (ts_anchor v s) ! f = ctxs (dante_tx_reseed_phases sub s) ! f" for f
    by (simp add: ts_anchor_ctxs assms(7))
  ultimately show ?thesis
    using e u assms(6) by (auto simp: reseed_ctx table_wf_def)
qed

definition demo_view :: tx_view where
  "demo_view = \<lparr>vw_now = 30000, vw_sec = 84625, vw_ns = 500000000, vw_last_sec = (\<lambda>_. 84625), vw_last_ts = (\<lambda>_. 23985),
     vw_locked = True, vw_phase_settled = True, vw_path_delay = 20500, vw_steps = 1, vw_rate_ready = True\<rparr>"

theorem ts_anchor_exact_witness:
  "unat (snd (ts_load (ts_anchor demo_view (boot_tx\<lparr>ts_offset_samples := -24001\<rparr>)))) < 48000"
proof -
  let ?s = "boot_tx\<lparr>ts_offset_samples := -24001\<rparr>"
  obtain sec sub where l: "ts_load (ts_anchor demo_view ?s) = (sec, sub)" by fastforce
  have n: "unat (vw_ns demo_view) < 1000000000" by (simp add: demo_view_def)
  have sec: "uint (ucast (vw_sec demo_view) :: u32) = 84625" by (simp add: demo_view_def)
  have wf: "table_wf ?s" using boot_tx_ok by (simp add: table_wf_def)
  show ?thesis
    using ts_anchor_exact [OF n _ _ _ _ wf l] l by (simp add: sec)
qed

section \<open>The talker gate\<close>

lemma active_iff: "0 < dante_tx_active s \<longleftrightarrow> (\<exists>i<N_FLOWS. in_use (flows s ! i))"
proof -
  have "foldl (\<lambda>n i. if in_use (flows s ! i) then n + 1 else n) a is = a + length (filter (\<lambda>i. in_use (flows s ! i)) is)"
    for a :: nat and "is" by (induction "is" arbitrary: a) auto
  then show ?thesis
    by (auto simp: dante_tx_active_def filter_empty_conv)
qed

lemma active_cong: "flows s = flows t \<Longrightarrow> dante_tx_active s = dante_tx_active t"
  by (simp add: dante_tx_active_def)

text \<open>The lock has held since an earlier poll, long enough, with the path delay measured.\<close>

definition lock_held :: "tx_view \<Rightarrow> tx \<Rightarrow> bool" where
  "lock_held v s \<longleftrightarrow> vw_locked v \<and> was_locked s \<and> vw_now v - lock_since s \<ge> PTP_SETTLE_MS \<and>
     (vw_phase_settled v \<or> vw_now v - lock_since s \<ge> PHASE_SETTLE_MAX_MS) \<and> vw_path_delay v \<noteq> 0"

lemma settled_poll: "settled v (poll_lock v (poll_announce s)) \<longleftrightarrow> lock_held v s"
  by (auto simp: settled_def poll_lock_def lock_held_def PTP_SETTLE_MS_def)

lemma poll_phase_streak: "bad_streak s < 2 \<Longrightarrow> bad_streak (poll_phase v w s) < 2"
  by (simp add: poll_phase_def Let_def)

lemma poll_gate_load: "w \<Longrightarrow> \<not> talker_on s \<Longrightarrow> ts_load (poll_gate v w s) = ts_load (ts_anchor v s)"
  by (simp add: poll_gate_def Let_def)

text \<open>
  C7: after a poll the packetizer is enabled exactly when the talker is on, and the talker is
  on exactly when the lock has held for four seconds since an earlier poll, the phase has
  settled or twenty seconds passed, the path delay is known, some flow is bound, and the
  media clock rate is ready. Nothing else turns it on, and a poll that finds any of these
  missing turns it off.
\<close>

theorem dante_tx_poll_gate:
  assumes "pkt_enable s = talker_on s"
  shows "pkt_enable (dante_tx_poll v s) = talker_on (dante_tx_poll v s) \<and>
    (talker_on (dante_tx_poll v s) \<longleftrightarrow>
      lock_held v s \<and> (\<exists>i<N_FLOWS. in_use (flows s ! i)) \<and> vw_rate_ready v)"
proof -
  let ?t = "poll_lock v (poll_announce s)"
  let ?w = "settled v ?t \<and> dante_tx_active (poll_steps v ?t) > 0 \<and> vw_rate_ready v"
  let ?u = "poll_phase v ?w (poll_servo v (poll_steps v ?t))"
  have p: "dante_tx_poll v s = poll_gate v ?w ?u" by (simp add: dante_tx_poll_def Let_def)
  have "pkt_enable ?u = talker_on ?u" using assms by simp
  moreover have "?w \<longleftrightarrow> lock_held v s \<and> (\<exists>i<N_FLOWS. in_use (flows s ! i)) \<and> vw_rate_ready v"
    by (simp add: settled_poll active_iff)
  ultimately show ?thesis
    unfolding p by (simp add: poll_gate_enable)
qed

theorem dante_tx_poll_gate_witness:
  "\<not> talker_on (dante_tx_poll demo_view boot_tx)"
proof -
  have "pkt_enable boot_tx = talker_on boot_tx" by (simp add: boot_tx_def)
  from dante_tx_poll_gate [OF this, of demo_view] show ?thesis
    by (simp add: lock_held_def boot_tx_def)
qed

section \<open>The phase guard and the runtime offset\<close>

lemma poll_phase_step:
  assumes "talker_on s" "\<bar>phase_err v s\<bar> > phase_band s"
  shows "poll_phase v True s = (if bad_streak s + 1 \<ge> 2 then ts_anchor v (s\<lparr>bad_streak := 0\<rparr>)
    else s\<lparr>bad_streak := bad_streak s + 1\<rparr>)"
proof -
  have c: "phase_err v s > phase_band s \<or> phase_err v s < - phase_band s" using assms(2) by linarith
  show ?thesis unfolding poll_phase_def Let_def by (simp add: c assms(1))
qed

lemma phase_cong:
  assumes "flows t = flows s"
  shows "phase_err v t = phase_err v s" "phase_band t = phase_band s"
proof -
  have r: "dante_tx_fpp_range t = dante_tx_fpp_range s"
    unfolding dante_tx_fpp_range_def assms by (rule refl)
  show "phase_err v t = phase_err v s" "phase_band t = phase_band s"
    unfolding phase_err_def phase_band_def r by (rule refl)+
qed

text \<open>
  The phase guard does not know the runtime offset. A media clock that is exactly where
  an anchor put it, emitting packets of the one bound length, is re-anchored at every second
  poll as soon as the offset set with \<^theory_text>\<open>dante_tx_set_ts_offset\<close> is more than eight samples,
  and never while it is not.
\<close>

theorem phase_guard_fights_offset:
  assumes "talker_on s" "bad_streak s = 0" "dante_tx_fpp_range s = (fpp, fpp)"
    and "\<And>v. v = va \<or> v = vb \<Longrightarrow> uint (fst (dante_tx_read_emitted v)) * 48000 + uint (snd (dante_tx_read_emitted v)) =
      ptp_samples v + ts_offset_samples s - (uint fpp - 1)"
  shows "if \<bar>ts_offset_samples s\<bar> > 8
    then anchors (tx_stats (poll_phase vb True (poll_phase va True s))) = anchors (tx_stats s) + 1
    else poll_phase vb True (poll_phase va True s) = s"
proof -
  have err: "phase_err v s = ts_offset_samples s" if "v = va \<or> v = vb" for v
    using assms(4) [OF that] by (cases "dante_tx_read_emitted v") (simp add: phase_err_def DANTE_TX_TS_OFFSET_def assms(3))
  have band: "phase_band s = 8"
    using assms(3) by (simp add: phase_band_def DANTE_TX_REANCHOR_SAMPLES_def)
  show ?thesis
  proof (cases "\<bar>ts_offset_samples s\<bar> > 8")
    case True
    have 1: "poll_phase va True s = s\<lparr>bad_streak := 1\<rparr>"
      using poll_phase_step [of s va] True assms(1,2) by (simp add: err band)
    have "poll_phase vb True (s\<lparr>bad_streak := 1\<rparr>) = ts_anchor vb (s\<lparr>bad_streak := 1\<rparr>\<lparr>bad_streak := 0\<rparr>)"
      using poll_phase_step [of "s\<lparr>bad_streak := 1\<rparr>" vb] True assms(1)
        phase_cong(1) [of "s\<lparr>bad_streak := 1\<rparr>" s vb] phase_cong(2) [of "s\<lparr>bad_streak := 1\<rparr>" s] err [of vb] band by simp
    with 1 True show ?thesis by simp
  next
    case False
    have "poll_phase v True s = s" if "v = va \<or> v = vb" for v
    proof -
      have c: "\<not> (phase_err v s > phase_band s \<or> phase_err v s < - phase_band s)"
        using False err [OF that] band by linarith
      have "s\<lparr>bad_streak := 0\<rparr> = s" by (rule tx.equality) (simp_all add: assms(2))
      then show ?thesis unfolding poll_phase_def Let_def by (simp add: c assms(2))
    qed
    with False show ?thesis by simp
  qed
qed

theorem phase_guard_fights_offset_witness:
  "anchors (tx_stats (poll_phase demo_view True (poll_phase demo_view True
     (boot_tx\<lparr>talker_on := True, ts_offset_samples := 0\<rparr>)))) =
   anchors (tx_stats (boot_tx\<lparr>talker_on := True, ts_offset_samples := 0\<rparr>)) \<and>
   anchors (tx_stats (poll_phase (demo_view\<lparr>vw_last_ts := (\<lambda>_. 24085)\<rparr>) True
     (poll_phase (demo_view\<lparr>vw_last_ts := (\<lambda>_. 24085)\<rparr>) True (boot_tx\<lparr>talker_on := True, ts_offset_samples := 100\<rparr>)))) =
   anchors (tx_stats (boot_tx\<lparr>talker_on := True, ts_offset_samples := 100\<rparr>)) + 1"
proof -
  let ?s = "\<lambda>k. boot_tx\<lparr>talker_on := True, ts_offset_samples := k\<rparr>"
  have r: "dante_tx_fpp_range (?s k) = (16, 16)" for k
    by (simp add: dante_tx_fpp_range_def N_FLOWS_def upt_rec boot_tx_def demo_slot_def)
  have e: "dante_tx_read_emitted (demo_view\<lparr>vw_last_ts := t\<rparr>) = (84625, t 0)" for t
    by (simp add: dante_tx_read_emitted_def demo_view_def numeral_eq_Suc)
  have p: "ptp_samples (demo_view\<lparr>vw_last_ts := t\<rparr>) = 84625 * 48000 + 24000" for t
    by (simp add: ptp_samples_def demo_view_def ns_samples_def)
  have g: "if \<bar>k\<bar> > 8 then anchors (tx_stats (poll_phase (demo_view\<lparr>vw_last_ts := (\<lambda>_. ts)\<rparr>) True
        (poll_phase (demo_view\<lparr>vw_last_ts := (\<lambda>_. ts)\<rparr>) True (?s k)))) = anchors (tx_stats (?s k)) + 1
      else poll_phase (demo_view\<lparr>vw_last_ts := (\<lambda>_. ts)\<rparr>) True
        (poll_phase (demo_view\<lparr>vw_last_ts := (\<lambda>_. ts)\<rparr>) True (?s k)) = ?s k" if "uint ts = 23985 + k" for k ts
    using phase_guard_fights_offset [where s = "?s k" and fpp = 16 and va = "demo_view\<lparr>vw_last_ts := (\<lambda>_. ts)\<rparr>"
        and vb = "demo_view\<lparr>vw_last_ts := (\<lambda>_. ts)\<rparr>"] r [of k] that
    by (simp add: e p boot_tx_def)
  have d: "demo_view\<lparr>vw_last_ts := (\<lambda>_. 23985)\<rparr> = demo_view" by (simp add: demo_view_def)
  from g [of 23985 0] g [of 24085 100] show ?thesis by (simp add: d)
qed

section \<open>The contexts mirror the table\<close>

text \<open>A bound slot and the context that sends it, a free slot and a silent context.\<close>

definition slot_mirrored :: "flow_slot \<Rightarrow> pkt_ctx \<Rightarrow> bool" where
  "slot_mirrored x c \<longleftrightarrow> (if in_use x
     then flow_cfg c = flow_cfg_word (fl_nslots x) (ucast (fl_fpp x)) \<and> cx_dst_ip c = ip_word (fl_dst x) \<and>
       udp_dport c = fl_dport x
     else flow_cfg c = 0)"

definition tx_inv :: "tx \<Rightarrow> bool" where
  "tx_inv s \<longleftrightarrow> table_wf s \<and> pkt_enable s = talker_on s \<and> bad_streak s < 2 \<and>
     (\<forall>f<N_FLOWS. slot_mirrored (flows s ! f) (ctxs s ! f))"

lemma tx_invI:
  assumes "tx_inv s" "f < N_FLOWS" "length (flows t) = N_FLOWS" "length (ctxs t) = N_FLOWS"
    and "flow_ip t = flow_ip s" "pkt_enable t = pkt_enable s" "talker_on t = talker_on s" "bad_streak t = bad_streak s"
    and "\<And>j. j \<noteq> f \<Longrightarrow> flows t ! j = flows s ! j \<and> ctxs t ! j = ctxs s ! j"
    and "slot_mirrored (flows t ! f) (ctxs t ! f)"
  shows "tx_inv t"
  using assms unfolding tx_inv_def table_wf_def by metis

lemma tx_inv_same:
  assumes "tx_inv s" "flows t = flows s" "ctxs t = ctxs s" "flow_ip t = flow_ip s"
    "pkt_enable t = talker_on t" "bad_streak t < 2"
  shows "tx_inv t"
  using assms by (simp add: tx_inv_def table_wf_def)

lemma ts_anchor_inv: "tx_inv s \<Longrightarrow> tx_inv (ts_anchor v s)"
  by (simp add: tx_inv_def table_wf_def ts_anchor_ctxs reseed_ctx slot_mirrored_def counted_def)

lemma write_ctx_flags [simp]:
  "talker_on (write_ctx rd our f dst dmac dport chans n fpp s) = talker_on s"
  "pkt_enable (write_ctx rd our f dst dmac dport chans n fpp s) = pkt_enable s"
  "bad_streak (write_ctx rd our f dst dmac dport chans n fpp s) = bad_streak s"
  "flow_ip (write_ctx rd our f dst dmac dport chans n fpp s) = flow_ip s"
  "length (ctxs (write_ctx rd our f dst dmac dport chans n fpp s)) = length (ctxs s)"
  by (simp_all add: write_ctx_def Let_def)

lemma bind_unicast_flags:
  assumes "dante_tx_bind_unicast rd now p dst dport chans n fpp s nt = (r, s', nt')"
  shows "talker_on s' = talker_on s \<and> pkt_enable s' = pkt_enable s \<and> bad_streak s' = bad_streak s \<and> flow_ip s' = flow_ip s"
proof (cases "net_arp_lookup dst nt")
  case (Pair m nt1)
  obtain f t where ft: "choose_slot p dst dport now s = (f, t)" by fastforce
  have "talker_on t = talker_on s \<and> pkt_enable t = pkt_enable s \<and> bad_streak t = bad_streak s \<and> flow_ip t = flow_ip s"
    by (cases rule: choose_slot_cases [of p dst dport s now]) (use ft in auto)
  with assms show ?thesis
    by (cases m) (auto simp: dante_tx_bind_unicast_def Let_def ft Pair split: if_splits)
qed

lemma bind_unicast_inv:
  assumes "tx_inv s" "dante_tx_bind_unicast rd now p dst dport chans n fpp s nt = (r, s', nt')"
  shows "tx_inv s'"
proof (cases "net_arp_lookup dst nt")
  case (Pair m nt1)
  note wf = assms(1) [unfolded tx_inv_def table_wf_def]
  show ?thesis
  proof (cases m)
    case None
    with Pair assms show ?thesis by (simp add: dante_tx_bind_unicast_def)
  next
    case (Some mac)
    have "length (flows s) = N_FLOWS" "net_arp_lookup dst nt = (Some mac, nt1)" using wf Pair Some by simp_all
    then show ?thesis using assms(2)
    proof (rule bind_unicast_flows)
      fix f fresh
      assume f: "f < N_FLOWS"
        "flows s' = (flows s)[f := rebound now p dst mac dport chans n fpp fresh (flows s ! f)]"
        "length (ctxs s') = length (ctxs s)" "\<And>j. j \<noteq> f \<Longrightarrow> ctxs s' ! j = ctxs s ! j"
        "length (ctxs s) = N_FLOWS \<Longrightarrow> ctx_serves (g_net_ip nt1) dst mac dport chans n fpp (ctxs s' ! f)"
      show ?thesis
        by (rule tx_invI [OF assms(1) f(1)])
          (use wf f bind_unicast_flags [OF assms(2)] in \<open>auto simp: slot_mirrored_def rebound_def ctx_serves_def\<close>)
    qed
  qed
qed

lemma unbind_inv: "tx_inv s \<Longrightarrow> tx_inv (snd (dante_tx_unbind f now s))"
proof (cases "f \<ge> N_FLOWS \<or> \<not> in_use (flows s ! f)")
  case False
  assume s: "tx_inv s"
  from False show ?thesis
    by (intro tx_invI [OF s, of f])
      (use s in \<open>auto simp: dante_tx_unbind_def Let_def tx_inv_def table_wf_def slot_mirrored_def\<close>)
qed (simp add: dante_tx_unbind_def)

lemma bind_multicast_inv:
  assumes "tx_inv s" "dante_tx_bind_multicast rd now our eid chans n s = (r, s')"
  shows "tx_inv s'"
proof (cases "n = 0 \<or> n > 8")
  case False
  obtain f t where ft: "(case first_slot (\<lambda>x. in_use x \<and> fl_mcast x \<and> ext_id x = eid) s of
             Some f \<Rightarrow> (f, s)
           | None \<Rightarrow>
            (case first_slot (\<lambda>x. \<not> in_use x) s of
               Some f \<Rightarrow> (f, s)
             | None \<Rightarrow>
                let f = oldest_any (\<lambda>age. if age > 3600000 then 3600000 else age) now s in
                (f, snd (dante_tx_unbind f now s)))) = (f, t)" by fastforce
  then have t: "tx_inv t" "f < N_FLOWS"
    using assms(1) unbind_inv [OF assms(1)] oldest_any_less
    by (auto simp: Let_def split: option.splits dest: first_slot_Some)
  let ?w = "write_ctx rd our f (flow_ip t ! f) (mcast_dmac (flow_ip t ! f)) DANTE_PORT_MEDIA chans n
    (ucast (g_mcast_fpp t)) t"
  have fpp: "g_mcast_fpp ?w = g_mcast_fpp t" by (simp add: write_ctx_def Let_def upd_ctx_def)
  have srv: "ctx_serves our (flow_ip t ! f) (mcast_dmac (flow_ip t ! f)) DANTE_PORT_MEDIA chans n
      (ucast (g_mcast_fpp t)) (ctxs ?w ! f)"
    using t by (intro write_ctx_serves) (simp_all add: tx_inv_def table_wf_def)
  from assms(2) False have s': "s' = upd_flow f (\<lambda>x. x\<lparr>fl_nslots := n, fl_fpp := ucast (g_mcast_fpp ?w), fl_mcast := True, ext_id := eid,
      fl_chans := map (\<lambda>i. if i < unat n then chans ! i else 0) [0..<8], last_ms := now\<rparr>)
      (mdns_announce (upd_flow f (\<lambda>x. x\<lparr>in_use := True, fl_dst := flow_ip t ! f, fl_dport := DANTE_PORT_MEDIA\<rparr>) ?w))"
    by (simp add: dante_tx_bind_multicast_def ft Let_def mdns_announce_def upd_flow_def)
  show ?thesis
    unfolding s'
    by (rule tx_invI [OF t]) (use t srv in \<open>auto simp: fpp tx_inv_def table_wf_def slot_mirrored_def ctx_serves_def
        mdns_announce_def write_ctx_other\<close>)
qed (use assms in \<open>simp add: dante_tx_bind_multicast_def\<close>)

lemma drop_all_inv: "tx_inv s \<Longrightarrow> tx_inv (dante_tx_drop_all now s)"
proof -
  have "tx_inv a \<Longrightarrow> tx_inv (foldl (\<lambda>s f. if in_use (flows s ! f) then snd (dante_tx_unbind f now s) else s) a is)"
    for a "is" by (induction "is" arbitrary: a) (auto intro: unbind_inv)
  then show "tx_inv s \<Longrightarrow> ?thesis" by (simp add: dante_tx_drop_all_def)
qed

lemma poll_inv: "tx_inv s \<Longrightarrow> tx_inv (dante_tx_poll v s)"
proof -
  assume "tx_inv s"
  then have "tx_inv (poll_announce s)" by (rule tx_inv_same) (use \<open>tx_inv s\<close> in \<open>simp_all add: tx_inv_def\<close>)
  then have t: "tx_inv (poll_lock v (poll_announce s))" by (rule tx_inv_same) (use \<open>tx_inv s\<close> in \<open>simp_all add: tx_inv_def\<close>)
  have seen: "tx_inv (s\<lparr>seen_steps := x\<rparr>)" if "tx_inv s" for x and s :: tx
    by (rule tx_inv_same [OF that]) (use that in \<open>simp_all add: tx_inv_def\<close>)
  have u: "tx_inv (poll_steps v (poll_lock v (poll_announce s)))"
    using t by (auto simp: poll_steps_def Let_def intro!: ts_anchor_inv seen)
  have w: "tx_inv (poll_servo v (poll_steps v (poll_lock v (poll_announce s))))"
    by (rule tx_inv_same [OF u]) (use \<open>tx_inv s\<close> in \<open>simp_all add: tx_inv_def\<close>)
  have ph: "tx_inv (poll_phase v b r)" if "tx_inv r" for b r
  proof -
    have "tx_inv (r\<lparr>bad_streak := k\<rparr>)" if "k < 2" for k
      by (rule tx_inv_same [OF \<open>tx_inv r\<close>]) (use \<open>tx_inv r\<close> that in \<open>simp_all add: tx_inv_def\<close>)
    then show ?thesis using that by (auto simp: poll_phase_def Let_def not_le intro!: ts_anchor_inv)
  qed
  have gate: "tx_inv (poll_gate v b r)" if r: "tx_inv r" for b r
  proof -
    have on: "tx_inv (ts_anchor v r)" by (rule ts_anchor_inv [OF r])
    have off: "pkt_enable (poll_gate v b r) = talker_on (poll_gate v b r)" using r by (simp add: poll_gate_enable tx_inv_def)
    show ?thesis
    proof (cases "b \<and> \<not> talker_on r")
      case True
      show ?thesis
        by (rule tx_inv_same [OF on]) (use True off r in \<open>auto simp: poll_gate_def Let_def log_event_def tx_inv_def\<close>)
    next
      case False
      show ?thesis
        by (rule tx_inv_same [OF r]) (use False off r in \<open>auto simp: poll_gate_def Let_def log_event_def tx_inv_def\<close>)
    qed
  qed
  show ?thesis unfolding dante_tx_poll_def Let_def by (intro gate ph w)
qed

text \<open>
  What may happen to the talker: a receiver's request, a controller creating or deleting a
  flow, a renegotiation, a change of the runtime offset, a poll, in any order and with any
  readings.
\<close>

inductive tx_step :: "tx \<Rightarrow> tx \<Rightarrow> bool" where
  Step_Unicast: "dante_tx_bind_unicast rd now p dst dport chans n fpp s nt = (r, s', nt') \<Longrightarrow> tx_step s s'"
| Step_Multicast: "dante_tx_bind_multicast rd now our eid chans n s = (r, s') \<Longrightarrow> tx_step s s'"
| Step_Unbind: "dante_tx_unbind f now s = (r, s') \<Longrightarrow> tx_step s s'"
| Step_Drop_All: "tx_step s (dante_tx_drop_all now s)"
| Step_Expire: "tx_step s (dante_tx_expire s)"
| Step_Offset: "tx_step s (dante_tx_set_ts_offset off v s)"
| Step_Poll: "tx_step s (dante_tx_poll v s)"

lemma tx_step_inv: "tx_step s t \<Longrightarrow> tx_inv s \<Longrightarrow> tx_inv t"
proof (induction rule: tx_step.induct)
  case (Step_Unbind f now s r s')
  with unbind_inv [OF Step_Unbind(2), of f now] show ?case by simp
next
  case (Step_Offset s off v)
  have "tx_inv (s\<lparr>ts_offset_samples := off\<rparr>)"
    by (rule tx_inv_same [OF Step_Offset]) (use Step_Offset in \<open>simp_all add: tx_inv_def\<close>)
  then show ?case by (simp add: dante_tx_set_ts_offset_def ts_anchor_inv)
qed (auto simp: dante_tx_expire_def intro: bind_unicast_inv bind_multicast_inv drop_all_inv poll_inv)

lemma tx_reach_inv: "tx_step\<^sup>*\<^sup>* s t \<Longrightarrow> tx_inv s \<Longrightarrow> tx_inv t"
  by (induction rule: rtranclp_induct) (auto intro: tx_step_inv)

text \<open>The memory \<^theory_text>\<open>dante_tx_init\<close> finds at boot: zeroed, every slot free.\<close>

definition tx_cold :: "tx \<Rightarrow> bool" where
  "tx_cold s \<longleftrightarrow> length (flows s) = N_FLOWS \<and> length (ctxs s) = N_FLOWS \<and> (\<forall>f<N_FLOWS. \<not> in_use (flows s ! f)) \<and>
     \<not> pkt_enable s \<and> bad_streak s = 0"

lemma bind_flows_ctxs:
  "n \<le> N_FLOWS \<Longrightarrow> length (ctxs s) = N_FLOWS \<Longrightarrow> j < n \<Longrightarrow>
    flow_cfg (ctxs (foldl (\<lambda>s f. bind_flow our f s) s [0..<n]) ! j) = 0"
  "length (ctxs (foldl (\<lambda>s f. bind_flow our f s) s is)) = length (ctxs s)"
  "flows (foldl (\<lambda>s f. bind_flow our f s) s is) = flows s"
  "flow_ip (foldl (\<lambda>s f. bind_flow our f s) s is) = flow_ip s"
  "pkt_enable (foldl (\<lambda>s f. bind_flow our f s) s is) = pkt_enable s"
  "bad_streak (foldl (\<lambda>s f. bind_flow our f s) s is) = bad_streak s"
proof -
  show l: "length (ctxs (foldl (\<lambda>s f. bind_flow our f s) s is)) = length (ctxs s)" for "is" :: "nat list"
    by (induction "is" arbitrary: s) (simp_all add: bind_flow_def Let_def)
  show "n \<le> N_FLOWS \<Longrightarrow> length (ctxs s) = N_FLOWS \<Longrightarrow> j < n \<Longrightarrow>
      flow_cfg (ctxs (foldl (\<lambda>s f. bind_flow our f s) s [0..<n]) ! j) = 0"
  proof (induction n)
    case (Suc n)
    then show ?case using l [of "[0..<n]"]
      by (cases "j = n") (auto simp: bind_flow_def Let_def)
  qed simp
  show "flows (foldl (\<lambda>s f. bind_flow our f s) s is) = flows s" "flow_ip (foldl (\<lambda>s f. bind_flow our f s) s is) = flow_ip s"
    "pkt_enable (foldl (\<lambda>s f. bind_flow our f s) s is) = pkt_enable s"
    "bad_streak (foldl (\<lambda>s f. bind_flow our f s) s is) = bad_streak s"
    by (induction "is" arbitrary: s) (simp_all add: bind_flow_def Let_def)
qed

lemma dante_tx_init_inv:
  assumes "tx_cold s"
  shows "tx_inv (dante_tx_init our mac s)"
proof (cases mac)
  case (fields m0 m1 m2 m3 m4 m5)
  note c = assms [unfolded tx_cold_def]
  show ?thesis
    using c by (simp add: dante_tx_init_def fields Let_def tx_inv_def table_wf_def bind_flows_ctxs slot_mirrored_def)
qed

text \<open>
  From boot, in any order of requests, deletions and polls, every bound slot's packetizer
  context has that slot's destination, port, slot count and packet length, every free slot's
  context is silent, and the packetizer is enabled exactly when the talker is on.
\<close>

theorem tx_contexts_mirror_table:
  assumes "tx_cold s" "tx_step\<^sup>*\<^sup>* (dante_tx_init our mac s) t" "f < N_FLOWS"
  shows "slot_mirrored (flows t ! f) (ctxs t ! f) \<and> pkt_enable t = talker_on t"
  using tx_reach_inv [OF assms(2) dante_tx_init_inv [OF assms(1)]] assms(3) by (simp add: tx_inv_def)

theorem tx_contexts_mirror_table_witness:
  "slot_mirrored
     (flows (dante_tx_poll demo_view (dante_tx_init (169, 254, 9, 200) (0, 0x1D, 0xC1, 1, 2, 3) boot_tx)) ! 3)
     (ctxs (dante_tx_poll demo_view (dante_tx_init (169, 254, 9, 200) (0, 0x1D, 0xC1, 1, 2, 3) boot_tx)) ! 3)"
proof -
  have c: "tx_cold boot_tx" by (auto simp: tx_cold_def boot_tx_def N_FLOWS_def demo_slot_def nth_Cons')
  have "3 < N_FLOWS" by (simp add: N_FLOWS_def)
  with tx_contexts_mirror_table [OF c r_into_rtranclp [where r = tx_step, OF Step_Poll]] show ?thesis by blast
qed

end
