(* ===== verification/Dante_Flows.thy ===== *)
theory Dante_Flows
  imports Dante_Tx Dante_Msg Net_Rx
begin

text \<open>
  The flow control server on port 4455, \<^theory_text>\<open>firmware/dante_flows.c\<close>: what a receiver's
  request asks for, whether it is granted, and the reply built in the shared transmit slot
  while the flow is bound.
\<close>

section \<open>The request\<close>

definition DANTE_PORT_FLOWS :: u16 where "DANTE_PORT_FLOWS = 4455"
definition OP_REQUEST_FLOW :: u16 where "OP_REQUEST_FLOW = 0x0100"

record flows_srv =
  fs_rx :: u32
  fs_tx :: u32
  fs_requests :: u32
  fs_accepted :: u32
  fs_rejected :: u32
  fs_unknown :: u32
  cookie :: u16

record flow_req =
  fq_rate :: u32
  fq_bits :: u32
  fq_nch :: u16
  fq_fpp :: u16
  fq_dport :: u16
  fq_dst :: ip4
  fq_chans :: "u16 list"

text \<open>
  The fields of a request of \<open>len\<close> bytes, its content at byte 10. The packet length follows
  the channel list and six unread bytes; the socket descriptor is at an absolute offset.
\<close>

definition flow_parse :: "ptr \<Rightarrow> nat \<Rightarrow> flow_req" where
  "flow_parse req len =
    (let c = (\<lambda>i. req (DANTE_HDR_LEN + i)); clen = len - DANTE_HDR_LEN;
         nch = rd16 c 12; rdo = unat (rd16 c 14); fo = 16 + unat nch * 2 + 6;
         desc = (DANTE_HDR_LEN \<le> rdo \<and> rdo + 8 \<le> len) in
     \<lparr>fq_rate = rd32 c 2, fq_bits = rd32 c 6, fq_nch = nch,
      fq_fpp = (if fo + 2 \<le> clen then rd16 c fo else 0),
      fq_dport = (if desc then rd16 req (rdo + 2) else 0),
      fq_dst = (if desc then ip_at req (rdo + 4) else (0, 0, 0, 0)),
      fq_chans = map (\<lambda>i. if 16 + i * 2 + 2 \<le> clen then rd16 c (16 + i * 2) else 0) [0..<unat nch]\<rparr>)"

text \<open>The response code of a request and the packet length it is granted.\<close>

definition flow_verdict :: "dante_dev \<Rightarrow> tx \<Rightarrow> flow_req \<Rightarrow> u16 \<times> u16" where
  "flow_verdict g s q =
    (if fq_rate q \<noteq> sample_rate g \<or> fq_bits q \<noteq> ucast (bits_per_sample g) then (0x0301, fq_fpp q)
     else
       let fpp = (if g_fpp_clamp s \<and> fq_fpp q > ucast (g_fpp_max_accept s)
                  then ucast (g_fpp_max_accept s) else fq_fpp q) in
       if \<not> dante_tx_fpp_supported s fpp \<or> (fpp = 2 \<and> fq_nch q AND 1 \<noteq> 0) then (0x0301, fpp)
       else if fq_nch q = 0 \<or> fq_nch q > 8 then (0x0315, fpp)
       else (DANTE_CODE_OK, fpp))"

section \<open>The handler\<close>

text \<open>
  The reply is a builder over the payload of slot \<open>k\<close>, the slot current when it was begun:
  \<open>msg_slot\<close> stores its buffer there, \<open>slot_msg\<close> is the builder on what the slot holds now.
\<close>

definition msg_slot :: "nat \<Rightarrow> dante_msg \<Rightarrow> net \<Rightarrow> net" where
  "msg_slot k m s = s\<lparr>tx_slots := (tx_slots s)[k := take 42 (tx_slots s ! k) @ m_buf m]\<rparr>"

definition slot_msg :: "nat \<Rightarrow> nat \<Rightarrow> net \<Rightarrow> dante_msg" where
  "slot_msg k n s = \<lparr>m_buf = drop 42 (tx_slots s ! k), m_len = n\<rparr>"

text \<open>A request within the rules: bind the flow, append its handle.\<close>

definition flow_grant ::
    "(nat \<Rightarrow> u32) \<Rightarrow> u32 \<Rightarrow> ip4 \<Rightarrow> flow_req \<Rightarrow> u16 \<Rightarrow> nat \<Rightarrow> flows_srv \<Rightarrow> tx \<Rightarrow> net \<Rightarrow>
     u16 \<times> nat \<times> flows_srv \<times> tx \<times> net" where
  "flow_grant rd now src q fpp k c s nt =
    (let (f, s, nt) = dante_tx_bind_unicast rd now src (fq_dst q) (fq_dport q) (fq_chans q)
           (ucast (fq_nch q)) (ucast fpp) s nt in
     if f < 0 then (0x0315, DANTE_HDR_LEN, c\<lparr>fs_rejected := fs_rejected c + 1\<rparr>, s, nt)
     else
       let c = c\<lparr>fs_accepted := fs_accepted c + 1, cookie := cookie c + 1\<rparr>;
           m = slot_msg k DANTE_HDR_LEN nt;
           m = dante_msg_u32 (of_int f) m;
           m = dante_msg_u16 (cookie c) m in
       (DANTE_CODE_OK, m_len m, c, s, msg_slot k m nt))"

definition flow_decide ::
    "(nat \<Rightarrow> u32) \<Rightarrow> u32 \<Rightarrow> dante_dev \<Rightarrow> ip4 \<Rightarrow> ptr \<Rightarrow> nat \<Rightarrow> nat \<Rightarrow> flows_srv \<Rightarrow> tx \<Rightarrow> net \<Rightarrow>
     u16 \<times> nat \<times> flows_srv \<times> tx \<times> net" where
  "flow_decide rd now g src req len k c s nt =
    (if dante_req_u16 req 6 = OP_REQUEST_FLOW \<and> len - DANTE_HDR_LEN > 16 then
       let q = flow_parse req len; c = c\<lparr>fs_requests := fs_requests c + 1\<rparr>;
           (code, fpp) = flow_verdict g s q in
       if code \<noteq> DANTE_CODE_OK
       then (code, DANTE_HDR_LEN, c\<lparr>fs_rejected := fs_rejected c + 1\<rparr>, s, nt)
       else flow_grant rd now src q fpp k c s nt
     else (0x0103, DANTE_HDR_LEN, c\<lparr>fs_unknown := fs_unknown c + 1\<rparr>, s, nt))"

text \<open>The diagnostic copy of the request, sent after the reply.\<close>

definition flow_mirror :: "ip4 \<Rightarrow> u16 \<Rightarrow> ip4 \<Rightarrow> u8 list \<Rightarrow> net \<Rightarrow> net" where
  "flow_mirror mirror code src fmir nt =
    (if mirror = (0, 0, 0, 0) then nt
     else let p = [0x46, 0x4C, 0x43, 0x31] @ be16 code @ ip_bytes src @ fmir in
       snd (net_udp_commit mirror 7780 DANTE_PORT_FLOWS (length p) 0 (payload_put 0 p nt)))"

definition flows_rx ::
    "(nat \<Rightarrow> u32) \<Rightarrow> u32 \<Rightarrow> dante_dev \<Rightarrow> ip4 \<Rightarrow> datagram \<Rightarrow> flows_srv \<Rightarrow> tx \<Rightarrow> net \<Rightarrow> flows_srv \<times> tx \<times> net" where
  "flows_rx rd now g mirror d c s nt =
    (let req = ptr_of (dg_payload d); len = length (dg_payload d) in
     if len < DANTE_HDR_LEN then (c, s, nt)
     else
       let c = c\<lparr>fs_rx := fs_rx c + 1\<rparr> in
       if dante_req_u16 req 8 \<noteq> 0 then (c, s, nt)
       else
         let k = txslot nt;
             nt = msg_slot k (dante_msg_begin (drop 42 (tx_buf nt)) req) nt;
             (code, n, c, s, nt) = flow_decide rd now g (dg_src d) req len k c s nt;
             (total, m) = dante_msg_finish code (slot_msg k n nt);
             nt = msg_slot k m nt;
             (r, nt) = net_udp_commit (dg_src d) (dg_sport d) DANTE_PORT_FLOWS total 0 nt;
             c = (if r = 0 then c\<lparr>fs_tx := fs_tx c + 1\<rparr> else c) in
         (c, s, flow_mirror mirror code (dg_src d) (take 160 (dg_payload d)) nt))"

definition dante_flows_init :: "udp_fn \<Rightarrow> net \<Rightarrow> net" where
  "dante_flows_init h nt = snd (net_udp_bind DANTE_PORT_FLOWS (Some h) nt)"

section \<open>The reply in its slot\<close>

lemma msg_slot_fields [simp]:
  "arp_cache (msg_slot k m s) = arp_cache s" "txslot (msg_slot k m s) = txslot s" "wire (msg_slot k m s) = wire s"
  "net_mac (msg_slot k m s) = net_mac s" "g_net_ip (msg_slot k m s) = g_net_ip s" "ip_ident (msg_slot k m s) = ip_ident s"
  by (simp_all add: msg_slot_def)

definition msg_fits :: "dante_msg \<Rightarrow> net \<Rightarrow> bool" where
  "msg_fits m s \<longleftrightarrow> 1400 \<le> length (m_buf m) \<and> m_len m \<le> 1400 \<and> tx_wf s"

lemma slot_length: "tx_wf s \<Longrightarrow> txslot s < length (tx_slots s) \<and> 1442 \<le> length (tx_slots s ! txslot s)"
  using tx_buf_len [of s] by (simp add: tx_wf_def tx_buf_def)

lemma msg_slot_wf:
  assumes "msg_fits m s"
  shows "tx_wf (msg_slot (txslot s) m s)"
proof -
  have "tx_wf s" "1400 \<le> length (m_buf m)" using assms by (simp_all add: msg_fits_def)
  with slot_length [OF this(1)] show ?thesis
    by (auto simp: tx_wf_def msg_slot_def min_def dest!: set_update_subset_insert [THEN subsetD])
qed

lemma msg_slot_buf: "tx_wf s \<Longrightarrow> tx_buf (msg_slot (txslot s) m s) = take 42 (tx_buf s) @ m_buf m"
  by (simp add: tx_buf_def msg_slot_def tx_wf_def)

lemma slot_msg_slot:
  assumes "tx_wf s" "k = txslot s"
  shows "slot_msg k n (msg_slot k m s) = m\<lparr>m_len := n\<rparr>"
proof -
  have "42 \<le> length (tx_slots s ! k)" "k < length (tx_slots s)"
    using slot_length [OF assms(1)] assms(2) by simp_all
  then show ?thesis by (simp add: slot_msg_def msg_slot_def)
qed

lemma msg_slot_twice:
  assumes "tx_wf s" "k = txslot s"
  shows "msg_slot k m (msg_slot k m' s) = msg_slot k m s"
proof -
  have "42 \<le> length (tx_slots s ! k)" "k < length (tx_slots s)"
    using slot_length [OF assms(1)] assms(2) by simp_all
  then show ?thesis by (simp add: msg_slot_def)
qed

text \<open>Committing a builder that is in the current slot sends its view.\<close>

lemma msg_commit:
  assumes fit: "msg_fits m s" and arp: "net_arp_lookup dst s = (Some dmac, s)" and k: "k = txslot s"
  shows "\<exists>s' F. net_udp_commit dst dport sport (m_len m) tos (msg_slot k m s) = (0, s') \<and>
     wire s' = wire s @ [F] \<and> carries dport F (msg_view m)"
proof -
  let ?t = "msg_slot k m s"
  have wf: "tx_wf ?t" "tx_wf s" using fit k by (simp_all add: msg_slot_wf) (simp add: msg_fits_def)
  have "net_arp_lookup dst ?t = (Some dmac, ?t)" using arp by (rule arp_lookup_tables) simp
  moreover have "take (m_len m) (drop 42 (tx_buf ?t)) = msg_view m"
    using wf fit tx_buf_len [of s] by (simp add: k msg_slot_buf msg_view_def)
  moreover have "length (msg_view m) \<le> 1400" "m_len m \<le> 1400" using fit by (auto simp: msg_view_def msg_fits_def)
  ultimately show ?thesis
    using udp_commit_ok [OF wf(1), of "m_len m" dst dmac dport sport tos] udp_frame_carries [of "msg_view m"]
    by fastforce
qed

text \<open>A reply: the request's header with the total length and the code, then the content.\<close>

definition flow_reply :: "ptr \<Rightarrow> u16 \<Rightarrow> u8 list \<Rightarrow> u8 list" where
  "flow_reply req code body = [req 0, req 1] @ be16 (of_nat (10 + length body)) @
     [req 4, req 5, req 6, req 7] @ be16 code @ body"

lemma builder_lengths [simp]:
  "length (m_buf (dante_msg_begin buf req)) = max 10 (length buf)" "m_len (dante_msg_begin buf req) = 10"
  "m_len (snd (dante_msg_finish op m)) = m_len m" "fst (dante_msg_finish op m) = m_len m"
  by (simp_all add: dante_msg_begin_def dante_msg_finish_def Let_def dante_msg_patch_u16_def DANTE_HDR_LEN_def put_def)

lemma reply_finish:
  assumes buf: "1400 \<le> length buf" and fin: "dante_msg_finish op (msg_appends ps (dante_msg_begin buf req)) = (n, m)"
    and len: "length (concat ps) \<le> 100"
  shows "n = 10 + length (concat ps)" "msg_view m = flow_reply req op (concat ps)" "m_len m = n"
proof -
  let ?h = "[req 0, req 1, 0, 0, req 4, req 5, req 6, req 7, 0, 0]"
  have b: "msg_view (dante_msg_begin buf req) = ?h" "msg_room (dante_msg_begin buf req) (length (concat ps) + 0)"
    using dante_msg_begin_view [of "length (concat ps) + 0" buf req] buf len by simp_all
  note a = msg_appends_view [OF b(2), unfolded b(1)]
  have h: "length ?h = 10" by simp
  note f = dante_msg_finish_view [OF a [THEN conjunct1] h a [THEN conjunct2] fin]
  show "n = 10 + length (concat ps)" by (rule f(1))
  then show "msg_view m = flow_reply req op (concat ps)" using f(2) by (simp add: flow_reply_def)
  show "m_len m = n" using fin by (metis builder_lengths(3,4) fst_conv snd_conv)
qed

lemma length_put_ge: "length buf \<le> length (put off bs buf)"
  by (simp add: put_def)

lemma appends_grow: "length (m_buf m) \<le> length (m_buf (msg_appends ps m))"
proof (induction ps arbitrary: m)
  case (Cons p ps)
  have "length (m_buf m) \<le> length (m_buf (dante_msg_bytes p m))"
    by (simp add: dante_msg_bytes_def length_put_ge)
  also have "\<dots> \<le> length (m_buf (msg_appends ps (dante_msg_bytes p m)))" by (rule Cons.IH)
  finally show ?case by (simp add: msg_appends_def)
qed (simp add: msg_appends_def)

lemma finish_grows: "length (m_buf m) \<le> length (m_buf (snd (dante_msg_finish op m)))"
  unfolding dante_msg_finish_def Let_def dante_msg_patch_u16_def
  by (auto intro: order_trans [OF length_put_ge length_put_ge])

lemma reply_sent:
  assumes wf: "tx_wf nt" and k: "k = txslot nt" and arp: "net_arp_lookup dst nt = (Some dmac, nt)"
    and fin: "dante_msg_finish op (msg_appends ps (dante_msg_begin (drop 42 (tx_buf nt)) req)) = (n, m)"
    and len: "length (concat ps) \<le> 100"
  shows "\<exists>s' F. net_udp_commit dst dport sport n tos (msg_slot k m nt) = (0, s') \<and>
     wire s' = wire nt @ [F] \<and> carries dport F (flow_reply req op (concat ps))"
proof -
  let ?m = "msg_appends ps (dante_msg_begin (drop 42 (tx_buf nt)) req)"
  have b: "1400 \<le> length (drop 42 (tx_buf nt))" using tx_buf_len [OF wf] by simp
  note r = reply_finish [OF b fin len]
  have "1400 \<le> length (m_buf (dante_msg_begin (drop 42 (tx_buf nt)) req))" using b by simp
  also have "\<dots> \<le> length (m_buf ?m)" by (rule appends_grow)
  also have "\<dots> \<le> length (m_buf m)" using finish_grows [of ?m op] fin by simp
  finally have "msg_fits m nt" using wf r(1,3) len by (simp add: msg_fits_def)
  from msg_commit [OF this arp k, of dport sport tos] show ?thesis using r(2,3) by simp
qed

section \<open>The configuration word\<close>

lemma and_low4: "(w :: u32) AND 0xF = take_bit 4 w"
  and and_low3: "(w :: u32) AND 0x7 = take_bit 3 w"
  using take_bit_eq_mask [of 4 w] take_bit_eq_mask [of 3 w] by (simp_all add: mask_numeral)

lemma cfg_fields:
  "((a AND 0xF) OR push_bit 4 (b AND 0x7)) AND 0xF = take_bit 4 (a :: u32)"
  "drop_bit 4 ((a AND 0xF) OR push_bit 4 (b AND 0x7)) = take_bit 3 (b :: u32)"
  unfolding and_low4 and_low3 by (auto intro!: bit_word_eqI simp: bit_simps)

lemma fpp_index: "fpp \<in> set k_fpp_table \<Longrightarrow> dante_tx_fpp_index fpp < 8 \<and> k_fpp_table ! dante_tx_fpp_index fpp = fpp"
  by (auto simp: dante_tx_fpp_index_def k_fpp_table_def upt_rec)

lemma flow_cfg_decodes:
  assumes "unat n \<le> 8" "fpp \<in> set k_fpp_table"
  shows "unat (flow_cfg_word (ucast (n :: u16)) fpp AND 0xF) = unat n"
    and "k_fpp_table ! unat (drop_bit 4 (flow_cfg_word (ucast n) fpp)) = fpp"
proof -
  have "unat (ucast n :: u8) = unat n" using assms(1) by (simp add: unsigned_ucast_eq unat_take_bit unsigned_take_bit_eq take_bit_nat_eq_self)
  then have "unat (take_bit 4 (ucast (ucast n :: u8) :: u32)) = unat n"
    using assms(1) by (simp add: unat_take_bit)
  then show "unat (flow_cfg_word (ucast n) fpp AND 0xF) = unat n"
    by (simp only: flow_cfg_word_def cfg_fields)
  have i: "dante_tx_fpp_index fpp < 8" using fpp_index [OF assms(2)] by simp
  then have "unat (of_nat (dante_tx_fpp_index fpp) :: u32) = dante_tx_fpp_index fpp"
    by (simp only: unat_of_nat) simp
  then have "unat (take_bit 3 (of_nat (dante_tx_fpp_index fpp) :: u32)) = dante_tx_fpp_index fpp"
    using i by (simp add: unat_take_bit)
  then show "k_fpp_table ! unat (drop_bit 4 (flow_cfg_word (ucast n) fpp)) = fpp"
    using fpp_index [OF assms(2)] by (simp only: flow_cfg_word_def cfg_fields)
qed

lemma even_low_bit: "(w :: u16) AND 1 = 0 \<longleftrightarrow> even (unat w)"
  by (simp add: and_one_eq even_iff_mod_2_eq_zero) (simp flip: unat_zero_iff add: unat_mod)

text \<open>Numbers of a granted flow.\<close>

lemma granted_numbers:
  assumes n: "n \<le> (8 :: nat)" and t: "fpp \<in> set k_fpp_table" and e: "fpp = 2 \<Longrightarrow> even n"
  shows "unat fpp dvd 48000" "4 dvd 3 * n * unat fpp" "20 + 8 + 9 + 3 * n * unat fpp \<le> 1500"
proof -
  have t: "fpp \<in> {8, 16, 24, 32, 60, 4, 2, 48}" using t by (simp add: k_fpp_table_def)
  show "unat fpp dvd 48000" using t by auto
  show "4 dvd 3 * n * unat fpp"
  proof (cases "fpp = 2")
    case True
    then show ?thesis using e by (auto elim!: evenE)
  next
    case False
    with t have "4 dvd unat fpp" by auto
    then show ?thesis by (rule dvd_mult)
  qed
  have "unat fpp \<le> 60" using t by auto
  with n have "n * unat fpp \<le> 8 * 60" by (rule mult_le_mono)
  then show "20 + 8 + 9 + 3 * n * unat fpp \<le> 1500" by simp
qed

section \<open>The handler by its verdict\<close>

lemma append_is: "m_len m = 10 \<Longrightarrow> dante_msg_u16 b (dante_msg_u32 a m) = msg_appends [be32 a, be16 b] m"
  by (simp add: dante_msg_appends msg_appends_def)

lemma no_append_is: "msg_appends [] m = m"
  by (simp add: msg_appends_def)

lemma begin_slot:
  assumes "tx_wf nt"
  shows "(dante_msg_begin (drop 42 (tx_buf nt)) req)\<lparr>m_len := DANTE_HDR_LEN\<rparr> =
      dante_msg_begin (drop 42 (tx_buf nt)) req"
  by (simp add: dante_msg_begin_def)

text \<open>Anything but a grant: an empty reply with its code, and the flow table as it was.\<close>

lemma flows_rx_plain:
  assumes wf: "tx_wf nt" and arp: "net_arp_lookup (dg_src d) nt = (Some dmac, nt)"
    and len: "10 \<le> length (dg_payload d)" and op2: "rd16 (ptr_of (dg_payload d)) 8 = 0"
    and dec: "\<And>k c t. flow_decide rd now g (dg_src d) (ptr_of (dg_payload d)) (length (dg_payload d)) k c s t =
        (code, DANTE_HDR_LEN, upd c, s, t)"
    and run: "flows_rx rd now g (0, 0, 0, 0) d c s nt = (c', s', nt')"
  shows "s' = s \<and> (\<exists>F. wire nt' = wire nt @ [F] \<and>
    carries (dg_sport d) F (flow_reply (ptr_of (dg_payload d)) code []))"
    and "c' = (upd (c\<lparr>fs_rx := fs_rx c + 1\<rparr>))\<lparr>fs_tx := fs_tx (upd (c\<lparr>fs_rx := fs_rx c + 1\<rparr>)) + 1\<rparr>"
proof -
  let ?req = "ptr_of (dg_payload d)" and ?k = "txslot nt"
  let ?b = "dante_msg_begin (drop 42 (tx_buf nt)) (ptr_of (dg_payload d))"
  have sl: "slot_msg ?k DANTE_HDR_LEN (msg_slot ?k ?b nt) = ?b"
    unfolding slot_msg_slot [OF wf refl] by (rule begin_slot [OF wf])
  have tw: "msg_slot ?k m (msg_slot ?k ?b nt) = msg_slot ?k m nt" for m
    by (rule msg_slot_twice [OF wf refl])
  obtain n m where fin: "dante_msg_finish code ?b = (n, m)" by fastforce
  obtain t F where t: "net_udp_commit (dg_src d) (dg_sport d) DANTE_PORT_FLOWS n 0 (msg_slot ?k m nt) = (0, t)"
      "wire t = wire nt @ [F]" "carries (dg_sport d) F (flow_reply ?req code [])"
    using reply_sent [OF wf refl arp, of code "[]" ?req n m] fin by (force simp: no_append_is)
  have "\<not> length (dg_payload d) < DANTE_HDR_LEN" using len by (simp add: DANTE_HDR_LEN_def)
  then have "(s', nt') = (s, t) \<and>
      c' = (upd (c\<lparr>fs_rx := fs_rx c + 1\<rparr>))\<lparr>fs_tx := fs_tx (upd (c\<lparr>fs_rx := fs_rx c + 1\<rparr>)) + 1\<rparr>"
    using run op2 unfolding flows_rx_def Let_def dec
    by (simp add: dante_req_rd16 sl tw fin t(1) flow_mirror_def split: if_splits)
  then show "s' = s \<and> (\<exists>F. wire nt' = wire nt @ [F] \<and> carries (dg_sport d) F (flow_reply ?req code []))"
    "c' = (upd (c\<lparr>fs_rx := fs_rx c + 1\<rparr>))\<lparr>fs_tx := fs_tx (upd (c\<lparr>fs_rx := fs_rx c + 1\<rparr>)) + 1\<rparr>"
    using t(2,3) by auto
qed

lemma flow_decide_refused:
  assumes "rd16 req 6 = OP_REQUEST_FLOW" "26 < len" "flow_verdict g s (flow_parse req len) = (code, fpp)"
    "code \<noteq> DANTE_CODE_OK"
  shows "flow_decide rd now g src req len k c s t = (code, DANTE_HDR_LEN,
    c\<lparr>fs_requests := fs_requests c + 1, fs_rejected := fs_rejected c + 1\<rparr>, s, t)"
proof -
  have "len - DANTE_HDR_LEN > 16" using assms(2) by (simp add: DANTE_HDR_LEN_def)
  then show ?thesis using assms(1,3,4) by (simp add: flow_decide_def dante_req_rd16 Let_def)
qed

lemma flow_decide_unknown:
  assumes "rd16 req 6 \<noteq> OP_REQUEST_FLOW \<or> len \<le> 26"
  shows "flow_decide rd now g src req len k c s t =
    (0x0103, DANTE_HDR_LEN, c\<lparr>fs_unknown := fs_unknown c + 1\<rparr>, s, t)"
  using assms by (auto simp: flow_decide_def dante_req_rd16 DANTE_HDR_LEN_def)

text \<open>A grant: the flow is bound and its handle is the content of the reply.\<close>

lemma bind_keeps_net:
  assumes "net_arp_lookup dst nt = (Some m, nt')"
    and "dante_tx_bind_unicast rd now p dst dport chans n fpp s nt = (r, s', nt'')"
  shows "nt'' = nt'"
  using assms by (auto simp: dante_tx_bind_unicast_def Let_def split: prod.splits)

lemma flow_decide_granted:
  assumes req: "rd16 req 6 = OP_REQUEST_FLOW" "26 < len"
    and q: "q = flow_parse req len" and v: "flow_verdict g s q = (DANTE_CODE_OK, fpp)"
    and arp: "net_arp_lookup (fq_dst q) t = (Some m, t)"
    and bind: "dante_tx_bind_unicast rd now src (fq_dst q) (fq_dport q) (fq_chans q) (ucast (fq_nch q)) (ucast fpp) s t =
      (int f, s', t)"
    and sl: "slot_msg k DANTE_HDR_LEN t = b" "m_len b = DANTE_HDR_LEN"
  shows "flow_decide rd now g src req len k c s t = (DANTE_CODE_OK, 16,
    c\<lparr>fs_requests := fs_requests c + 1, fs_accepted := fs_accepted c + 1, cookie := cookie c + 1\<rparr>, s',
    msg_slot k (msg_appends [be32 (of_nat f), be16 (cookie c + 1)] b) t)"
proof -
  have "len - DANTE_HDR_LEN > 16" using req(2) by (simp add: DANTE_HDR_LEN_def)
  moreover have "m_len b = 10" "of_int (int f) = (of_nat f :: u32)" using sl(2) by (simp_all add: DANTE_HDR_LEN_def)
  moreover have "m_len (msg_appends [be32 (of_nat f), be16 (cookie c + 1)] b) = 16"
    using \<open>m_len b = 10\<close> by (simp add: msg_appends_def dante_msg_bytes_def)
  ultimately show ?thesis
    using req(1) v bind sl(1)
    by (simp add: flow_decide_def flow_grant_def dante_req_rd16 Let_def q [symmetric] append_is)
qed

lemma flows_rx_granted:
  assumes wf: "tx_wf nt" and arp: "net_arp_lookup (dg_src d) nt = (Some dmac, nt)"
    and req: "req = ptr_of (dg_payload d)" "26 < length (dg_payload d)" "rd16 req 8 = 0" "rd16 req 6 = OP_REQUEST_FLOW"
    and q: "q = flow_parse req (length (dg_payload d))" and v: "flow_verdict g s q = (DANTE_CODE_OK, fpp)"
    and known: "net_arp_lookup (fq_dst q) nt = (Some m2, nt)" and ok: "table_wf s"
    and run: "flows_rx rd now g (0, 0, 0, 0) d c s nt = (c', s', nt')"
  obtains f t t2 F where "f < N_FLOWS" "net_arp_lookup (fq_dst q) t = (Some m2, t)" "g_net_ip t = g_net_ip nt"
    "dante_tx_bind_unicast rd now (dg_src d) (fq_dst q) (fq_dport q) (fq_chans q) (ucast (fq_nch q)) (ucast fpp) s t =
      (int f, s', t2)"
    "c' = c\<lparr>fs_rx := fs_rx c + 1, fs_requests := fs_requests c + 1, fs_accepted := fs_accepted c + 1,
       cookie := cookie c + 1, fs_tx := fs_tx c + 1\<rparr>"
    "wire nt' = wire nt @ [F]"
    "carries (dg_sport d) F (flow_reply req DANTE_CODE_OK (be32 (of_nat f) @ be16 (cookie c + 1)))"
proof -
  let ?k = "txslot nt" and ?b = "dante_msg_begin (drop 42 (tx_buf nt)) req"
  let ?t = "msg_slot ?k ?b nt" and ?ps = "\<lambda>f. [be32 (of_nat f), be16 (cookie c + 1)]"
  have sl: "slot_msg ?k DANTE_HDR_LEN ?t = ?b"
    unfolding slot_msg_slot [OF wf refl] by (rule begin_slot [OF wf])
  have arp2: "net_arp_lookup (fq_dst q) ?t = (Some m2, ?t)" using known by (rule arp_lookup_tables) simp
  obtain r s2 t2 where b: "dante_tx_bind_unicast rd now (dg_src d) (fq_dst q) (fq_dport q) (fq_chans q)
      (ucast (fq_nch q)) (ucast fpp) s ?t = (r, s2, t2)" by (metis prod_cases3)
  have t2: "t2 = ?t" using bind_keeps_net [OF arp2 b] .
  obtain f where f: "r = int f" "f < N_FLOWS"
    using bind_unicast_flows [OF _ arp2 b] ok by (metis table_wf_def)
  let ?m = "msg_appends (?ps f) ?b"
  have dec: "flow_decide rd now g (dg_src d) req (length (dg_payload d)) ?k (c\<lparr>fs_rx := fs_rx c + 1\<rparr>) s ?t =
     (DANTE_CODE_OK, 16, c\<lparr>fs_rx := fs_rx c + 1, fs_requests := fs_requests c + 1, fs_accepted := fs_accepted c + 1,
       cookie := cookie c + 1\<rparr>, s2, msg_slot ?k ?m ?t)"
    using flow_decide_granted [OF req(4,2) q v arp2 b [unfolded f t2] sl, of "c\<lparr>fs_rx := fs_rx c + 1\<rparr>"]
    by (simp add: DANTE_HDR_LEN_def)
  have l: "m_len ?m = 16" by (simp add: msg_appends_def dante_msg_bytes_def)
  have sl2: "slot_msg ?k 16 (msg_slot ?k ?m nt) = ?m"
    unfolding slot_msg_slot [OF wf refl] by (simp flip: l)
  obtain n m where fin: "dante_msg_finish DANTE_CODE_OK ?m = (n, m)" by fastforce
  obtain t3 F where t3: "net_udp_commit (dg_src d) (dg_sport d) DANTE_PORT_FLOWS n 0 (msg_slot ?k m nt) = (0, t3)"
      "wire t3 = wire nt @ [F]"
      "carries (dg_sport d) F (flow_reply req DANTE_CODE_OK (be32 (of_nat f) @ be16 (cookie c + 1)))"
    using reply_sent [OF wf refl arp fin] by force
  have "\<not> length (dg_payload d) < DANTE_HDR_LEN" using req(2) by (simp add: DANTE_HDR_LEN_def)
  then have "(s', nt') = (s2, t3)" "c' = c\<lparr>fs_rx := fs_rx c + 1, fs_requests := fs_requests c + 1,
      fs_accepted := fs_accepted c + 1, cookie := cookie c + 1, fs_tx := fs_tx c + 1\<rparr>"
    using run req(3) unfolding flows_rx_def Let_def req(1) [symmetric] dec
    by (auto simp: dante_req_rd16 sl2 msg_slot_twice [OF wf refl] fin t3(1) flow_mirror_def)
  with b f t2 t3 show thesis by (intro that [OF f(2) arp2]) simp_all
qed

section \<open>An ARP request in between\<close>

lemma tx_put_other: "j \<noteq> txslot s \<Longrightarrow> tx_slots (tx_put off bs s) ! j = tx_slots s ! j"
  by (simp add: tx_put_def)

lemma arp_request_slots:
  assumes "tx_wf s"
  shows "tx_wf (arp_send 1 ip None s)" "txslot (arp_send 1 ip None s) = (txslot s + 1) mod length (tx_slots s)"
    "j \<noteq> txslot s \<Longrightarrow> tx_slots (arp_send 1 ip None s) ! j = tx_slots s ! j"
    "arp_cache (arp_send 1 ip None s) = arp_cache s" "\<exists>A. wire (arp_send 1 ip None s) = wire s @ [A]"
  using assms
  by (simp_all add: arp_send_def Let_def tx_wf_put tx_wf_eth_send tx_put_other wire_eth_send)
    (simp add: eth_send_def Let_def)

text \<open>
  The destination is not in the cache: asking for it overwrites the slot the reply was begun
  in and moves on; the finished reply is still in the old slot, the commit takes the new one.
\<close>

lemma stale_commit:
  assumes wf: "tx_wf nt" and two: "2 \<le> length (tx_slots nt)" and k: "k = txslot nt"
    and arp: "net_arp_lookup src nt = (Some dmac, nt)" and len: "n \<le> 1400" "msg_fits b nt" "42 + 1400 \<le> length p"
    and t: "t = arp_send 1 ip None (bump arp_misses_update (msg_slot k b nt))"
  shows "\<exists>s' A F. net_udp_commit src dport sport n tos (t\<lparr>tx_slots := (tx_slots t)[k := p]\<rparr>) = (0, s') \<and>
     wire s' = wire nt @ [A, F] \<and>
     carries dport F (take n (drop 42 (tx_slots nt ! ((k + 1) mod length (tx_slots nt)))))"
proof -
  let ?b = "bump arp_misses_update (msg_slot k b nt)" and ?u = "t\<lparr>tx_slots := (tx_slots t)[k := p]\<rparr>"
  let ?k = "(k + 1) mod length (tx_slots nt)"
  have w: "tx_wf ?b" using msg_slot_wf [OF len(2)] k by simp
  note a = arp_request_slots [OF w, where ip = ip, folded t]
  have k': "txslot t = ?k" "?k \<noteq> k"
    using a(2) two slot_length [OF wf] k by (auto simp: msg_slot_def mod_Suc)
  have wu: "tx_wf ?u" using a(1) len(3) by (auto simp: tx_wf_def dest!: set_update_subset_insert [THEN subsetD])
  have buf: "tx_buf ?u = tx_slots nt ! ?k"
    using k' a(3) [where j = ?k] k by (simp add: tx_buf_def) (simp add: msg_slot_def)
  have "net_arp_lookup src ?u = (Some dmac, ?u)" using arp by (rule arp_lookup_tables) (simp add: a(4))
  from udp_commit_ok [OF wu len(1) this, of dport sport tos] obtain s' F where c:
    "net_udp_commit src dport sport n tos ?u = (0, s')"
    "wire s' = wire t @ [udp_frame dmac src dport sport tos (take n (drop 42 (tx_slots nt ! ?k))) ?u @ F]"
    unfolding buf by fastforce
  obtain A where "wire t = wire nt @ [A]" using a(5) by auto
  moreover have "length (take n (drop 42 (tx_slots nt ! ?k))) \<le> 1400" using len(1) by simp
  ultimately show ?thesis using c udp_frame_carries by fastforce
qed

text \<open>The slot a bind reports is the one that serves the socket.\<close>

lemma bind_socket:
  assumes "table_wf s" "net_arp_lookup dst nt = (Some m, nt')"
    and "dante_tx_bind_unicast rd now p dst dport chans n fpp s nt = (int f, s', nt'')"
  shows "same_socket p dst dport (flows s' ! f)"
proof -
  have wf: "length (flows s) = N_FLOWS" using assms(1) by (simp add: table_wf_def)
  from wf assms(2,3) show ?thesis
    by (rule bind_unicast_flows) (auto simp: wf rebound_def same_socket_def dest: first_slot_Some)
qed

lemma bind_is_store:
  assumes "dante_tx_bind_unicast rd now p dst dport chans n fpp s nt = (int f, s', nt')"
  shows "flow_store rd now chans nt s (p, dst, dport) (n, fpp) = Some s'"
  using assms by (simp add: flow_store_def)

lemma arp_miss_tables:
  assumes "net_arp_lookup a s = (None, u)" "arp_cache t = arp_cache s"
  shows "net_arp_lookup a t = (None, arp_send 1 a None (bump arp_misses_update t))"
  using assms by (auto simp: net_arp_lookup_def split: if_splits option.splits)

lemma flow_decide_miss:
  assumes "rd16 req 6 = OP_REQUEST_FLOW" "26 < len" "flow_verdict g s (flow_parse req len) = (DANTE_CODE_OK, fpp)"
    and "net_arp_lookup (fq_dst (flow_parse req len)) t = (None, u)"
  shows "flow_decide rd now g src req len k c s t = (0x0315, DANTE_HDR_LEN,
    c\<lparr>fs_requests := fs_requests c + 1, fs_rejected := fs_rejected c + 1\<rparr>, s, u)"
proof -
  have "len - DANTE_HDR_LEN > 16" using assms(2) by (simp add: DANTE_HDR_LEN_def)
  then show ?thesis
    using assms by (simp add: flow_decide_def dante_req_rd16 Let_def flow_grant_def dante_tx_bind_unicast_def)
qed

lemma flows_rx_miss:
  assumes wf: "tx_wf nt" and two: "2 \<le> length (tx_slots nt)"
    and arp: "net_arp_lookup (dg_src d) nt = (Some dmac, nt)"
    and req: "req = ptr_of (dg_payload d)" "26 < length (dg_payload d)" "rd16 req 8 = 0" "rd16 req 6 = OP_REQUEST_FLOW"
    and q: "q = flow_parse req (length (dg_payload d))" and v: "flow_verdict g s q = (DANTE_CODE_OK, fpp)"
    and miss: "net_arp_lookup (fq_dst q) nt = (None, u)"
    and run: "flows_rx rd now g (0, 0, 0, 0) d c s nt = (c', s', nt')"
  shows "s' = s \<and> (\<exists>A F. wire nt' = wire nt @ [A, F] \<and> carries (dg_sport d) F
    (take 10 (drop 42 (tx_slots nt ! ((txslot nt + 1) mod length (tx_slots nt))))))"
proof -
  let ?k = "txslot nt" and ?b = "dante_msg_begin (drop 42 (tx_buf nt)) req"
  define t where "t = arp_send 1 (fq_dst q) None (bump arp_misses_update (msg_slot ?k ?b nt))"
  have miss2: "net_arp_lookup (fq_dst q) (msg_slot ?k ?b nt) = (None, t)"
    unfolding t_def using miss by (rule arp_miss_tables) simp
  note dec = flow_decide_miss [OF req(4,2) v [unfolded q] miss2 [unfolded q]]
  have fit: "msg_fits ?b nt" using wf tx_buf_len [OF wf] by (simp add: msg_fits_def)
  have wt: "tx_wf t" "txslot (msg_slot ?k ?b nt) = ?k"
    unfolding t_def using msg_slot_wf [OF fit] by (simp_all add: arp_request_slots(1))
  obtain n m where fin: "dante_msg_finish 0x0315 (slot_msg ?k DANTE_HDR_LEN t) = (n, m)" by fastforce
  have "n = m_len (slot_msg ?k DANTE_HDR_LEN t)" using fin by (metis builder_lengths(4) fst_conv)
  then have n: "n = 10" by (simp add: slot_msg_def DANTE_HDR_LEN_def)
  have "length (tx_slots t) = length (tx_slots nt)"
    unfolding t_def by (simp add: arp_send_def Let_def) (simp add: msg_slot_def)
  then have "1442 \<le> length (tx_slots t ! ?k)" using wt slot_length [OF wf] by (simp add: tx_wf_def)
  moreover have "length (drop 42 (tx_slots t ! ?k)) \<le> length (m_buf m)"
    using finish_grows [of "slot_msg ?k DANTE_HDR_LEN t" "0x0315"] fin by (simp add: slot_msg_def)
  ultimately have "42 + 1400 \<le> length (take 42 (tx_slots t ! ?k) @ m_buf m)" by simp
  from stale_commit [OF wf two refl arp _ fit this t_def, of 10 "dg_sport d" DANTE_PORT_FLOWS 0] obtain t' A F
    where t': "net_udp_commit (dg_src d) (dg_sport d) DANTE_PORT_FLOWS 10 0 (msg_slot ?k m t) = (0, t')"
      "wire t' = wire nt @ [A, F]"
      "carries (dg_sport d) F (take 10 (drop 42 (tx_slots nt ! ((?k + 1) mod length (tx_slots nt)))))"
    unfolding msg_slot_def by auto
  have "\<not> length (dg_payload d) < DANTE_HDR_LEN" using req(2) by (simp add: DANTE_HDR_LEN_def)
  then have "s' = s" "nt' = t'"
    using run req(3) unfolding flows_rx_def Let_def req(1) [symmetric] dec
    by (auto simp: dante_req_rd16 fin t'(1) flow_mirror_def n)
  with t' show ?thesis by auto
qed

section \<open>A demonstration request\<close>

definition demo_dev :: dante_dev where "demo_dev = dante_dev_init (0, 0x1D, 0xC1, 1, 2, 3)"

definition flow_demo_net :: net where
  "flow_demo_net = arp_learn (169, 254, 1, 2) (2, 0, 0, 0, 0, 2) demo_net"

definition demo_flow_req :: "u16 \<Rightarrow> ip4 \<Rightarrow> datagram" where
  "demo_flow_req op dst = \<lparr>dg_fn = Flows_Rx, dg_src = (169, 254, 1, 2), dg_dst = (169, 254, 9, 200), dg_sport = 5001,
     dg_payload = [0x28, 0, 0, 44, 0, 1] @ be16 op @ [0, 0] @ [0, 0] @ be32 48000 @ be32 24 @ be16 1 @ be16 1 @
       be16 36 @ be16 3 @ [0, 0, 0, 0, 0, 0] @ be16 16 @ [8, 2] @ be16 4400 @ ip_bytes dst\<rparr>"

lemma flow_demo_known: "net_arp_lookup (169, 254, 1, 2) flow_demo_net = (Some (2, 0, 0, 0, 0, 2), flow_demo_net)"
  by (simp add: flow_demo_net_def arp_learn_def net_arp_lookup_def demo_net_def net_boot_def net_init_def
      arp_index_def ARP_CACHE_N_def upt_rec)

lemma flow_demo_unknown: "fst (net_arp_lookup (169, 254, 1, 3) flow_demo_net) = None"
  by (simp add: flow_demo_net_def arp_learn_def net_arp_lookup_def demo_net_def net_boot_def net_init_def
      arp_index_def ARP_CACHE_N_def upt_rec)

lemma flow_demo_wf: "tx_wf flow_demo_net" "length (tx_slots flow_demo_net) = 2" "txslot flow_demo_net = 0"
    "tx_slots flow_demo_net = replicate 2 (replicate 2048 0)"
  by (simp_all add: flow_demo_net_def arp_learn_def demo_net_def net_boot_def net_init_def
      arp_index_def ARP_CACHE_N_def upt_rec tx_wf_def)

lemma demo_flow_fields [simp]:
  "dg_src (demo_flow_req op dst) = (169, 254, 1, 2)" "dg_sport (demo_flow_req op dst) = 5001"
  "length (dg_payload (demo_flow_req op dst)) = 44"
  by (simp_all add: demo_flow_req_def)

lemma demo_flow_opcodes [simp]:
  "rd16 (ptr_of (dg_payload (demo_flow_req 0x100 dst))) 8 = 0"
  "rd16 (ptr_of (dg_payload (demo_flow_req 0x100 dst))) 6 = 0x100"
  "rd16 (ptr_of (dg_payload (demo_flow_req 0x102 dst))) 8 = 0"
  "rd16 (ptr_of (dg_payload (demo_flow_req 0x102 dst))) 6 = 0x102"
  by (simp_all add: demo_flow_req_def be16_def rd16_def ptr_of_def)

lemma demo_flow_parse: "flow_parse (ptr_of (dg_payload (demo_flow_req 0x100 (a, b, c, d)))) 44 =
   \<lparr>fq_rate = 48000, fq_bits = 24, fq_nch = 1, fq_fpp = 16, fq_dport = 4400, fq_dst = (a, b, c, d), fq_chans = [3]\<rparr>"
  by (simp add: flow_parse_def demo_flow_req_def be16_def be32_def rd16_def rd32_def ip_at_def ptr_of_def
      DANTE_HDR_LEN_def Let_def)

lemma demo_flow_verdict: "flow_verdict demo_dev boot_tx
    (flow_parse (ptr_of (dg_payload (demo_flow_req 0x100 (a, b, c, d)))) 44) = (DANTE_CODE_OK, 16)"
  by (simp add: flow_verdict_def demo_flow_parse demo_dev_def dante_dev_init_def Let_def boot_tx_def
      dante_tx_fpp_supported_def k_fpp_table_def)

definition flows_srv0 :: flows_srv where
  "flows_srv0 = \<lparr>fs_rx = 0, fs_tx = 0, fs_requests = 0, fs_accepted = 0, fs_rejected = 0, fs_unknown = 0, cookie = 0\<rparr>"

section \<open>Properties\<close>

text \<open>
  A request that is granted can be sent: it is for the device's own rate and width, it
  has one to eight slots, its packet length divides the media clock and is within what the
  device accepts, the audio payload is a whole number of 32-bit words and the datagram fits
  an Ethernet frame, and the context's configuration word encodes it without loss.
\<close>

theorem granted_flow_is_sendable:
  assumes "flow_verdict g s q = (DANTE_CODE_OK, fpp)"
  shows "fq_rate q = sample_rate g \<and> fq_bits q = ucast (bits_per_sample g) \<and>
    1 \<le> unat (fq_nch q) \<and> unat (fq_nch q) \<le> 8 \<and> fpp \<le> ucast (g_fpp_max_accept s) \<and>
    unat fpp dvd 48000 \<and> 4 dvd 3 * unat (fq_nch q) * unat fpp \<and>
    20 + 8 + 9 + 3 * unat (fq_nch q) * unat fpp \<le> 1500 \<and>
    unat (flow_cfg_word (ucast (fq_nch q)) fpp AND 0xF) = unat (fq_nch q) \<and>
    k_fpp_table ! unat (drop_bit 4 (flow_cfg_word (ucast (fq_nch q)) fpp)) = fpp"
proof -
  have v: "fq_rate q = sample_rate g" "fq_bits q = ucast (bits_per_sample g)"
    "dante_tx_fpp_supported s fpp" "\<not> (fpp = 2 \<and> fq_nch q AND 1 \<noteq> 0)" "fq_nch q \<noteq> 0" "\<not> fq_nch q > 8"
    using assms by (auto simp: flow_verdict_def DANTE_CODE_OK_def Let_def split: if_splits)
  have n: "unat (fq_nch q) \<le> 8" "unat (fq_nch q) \<noteq> 0"
    using v(5,6) by (simp_all add: word_less_nat_alt unat_eq_0)
  have t: "fpp \<le> ucast (g_fpp_max_accept s)" "fpp \<in> set k_fpp_table"
    using v(3) by (auto simp: dante_tx_fpp_supported_def split: if_splits)
  have "even (unat (fq_nch q))" if "fpp = 2" using v(4) that by (simp add: even_low_bit)
  then show ?thesis
    using n t v(1,2) granted_numbers [OF n(1) t(2)] flow_cfg_decodes [OF n(1) t(2)] by auto
qed

theorem granted_flow_is_sendable_witness:
  "flow_verdict demo_dev boot_tx (flow_parse (ptr_of (dg_payload (demo_flow_req 0x100 (239, 255, 0, 1)))) 44) =
     (DANTE_CODE_OK, 16) \<and>
   20 + 8 + 9 + 3 * unat (fq_nch (flow_parse (ptr_of (dg_payload (demo_flow_req 0x100 (239, 255, 0, 1)))) 44)) *
     unat (16 :: u16) \<le> 1500"
  using granted_flow_is_sendable [OF demo_flow_verdict] demo_flow_verdict by blast

text \<open>
  C11: a granted request, its sender and destination known to ARP, is answered with one
  datagram to the sender: the request's header with the OK code, then the slot the flow is
  bound in and the next cookie. Afterwards that slot serves the socket the request named,
  with the slots asked for and the packet length granted, and every other receiver's flow
  is kept, one evicted from a full table apart.
\<close>

theorem flow_request_granted:
  assumes "tx_wf nt" "net_arp_lookup (dg_src d) nt = (Some dmac, nt)"
    and "req = ptr_of (dg_payload d)" "26 < length (dg_payload d)" "rd16 req 8 = 0" "rd16 req 6 = OP_REQUEST_FLOW"
    and "q = flow_parse req (length (dg_payload d))" "flow_verdict g s q = (DANTE_CODE_OK, fpp)"
    and "net_arp_lookup (fq_dst q) nt = (Some m2, nt)" "table_wf s"
    and "flows_rx rd now g (0, 0, 0, 0) d c s nt = (c', s', nt')" "key = (dg_src d, fq_dst q, fq_dport q)"
  shows "\<exists>f<N_FLOWS. \<exists>F. wire nt' = wire nt @ [F] \<and>
      carries (dg_sport d) F (flow_reply req DANTE_CODE_OK (be32 (of_nat f) @ be16 (cookie c + 1))) \<and>
      same_socket (dg_src d) (fq_dst q) (fq_dport q) (flows s' ! f) \<and>
      flow_get s' key = Some (ucast (fq_nch q), ucast fpp) \<and>
      (\<forall>k. k \<noteq> key \<longrightarrow> k \<notin> flow_evicts now s key \<longrightarrow> flow_get s' k = flow_get s k) \<and>
      fs_accepted c' = fs_accepted c + 1 \<and> fs_rejected c' = fs_rejected c \<and> cookie c' = cookie c + 1"
proof -
  have wf: "length (flows s) = N_FLOWS" using assms(10) by (simp add: table_wf_def)
  obtain f t t2 F where f: "f < N_FLOWS" "net_arp_lookup (fq_dst q) t = (Some m2, t)"
    "dante_tx_bind_unicast rd now (dg_src d) (fq_dst q) (fq_dport q) (fq_chans q) (ucast (fq_nch q)) (ucast fpp) s t =
      (int f, s', t2)"
    "c' = c\<lparr>fs_rx := fs_rx c + 1, fs_requests := fs_requests c + 1, fs_accepted := fs_accepted c + 1,
       cookie := cookie c + 1, fs_tx := fs_tx c + 1\<rparr>"
    "wire nt' = wire nt @ [F]"
    "carries (dg_sport d) F (flow_reply req DANTE_CODE_OK (be32 (of_nat f) @ be16 (cookie c + 1)))"
    by (rule flows_rx_granted [OF assms(1-11)])
  note st = bind_is_store [OF f(3)]
  have "flow_get s' key = Some (ucast (fq_nch q), ucast fpp)"
    "\<forall>k. k \<noteq> key \<longrightarrow> k \<notin> flow_evicts now s key \<longrightarrow> flow_get s' k = flow_get s k"
    using flow_store_get [OF wf st] assms(12) by simp_all
  then show ?thesis using f bind_socket [OF assms(10) f(2,3)] by auto
qed

theorem flow_request_granted_witness:
  "\<exists>c' s' nt' F. flows_rx (\<lambda>_. 7) 100 demo_dev (0, 0, 0, 0) (demo_flow_req 0x100 (169, 254, 1, 2)) flows_srv0 boot_tx
      flow_demo_net = (c', s', nt') \<and> wire nt' = wire flow_demo_net @ [F] \<and>
    flow_get s' ((169, 254, 1, 2), (169, 254, 1, 2), 4400) = Some (1, 16) \<and> cookie c' = 1"
proof -
  let ?d = "demo_flow_req 0x100 (169, 254, 1, 2)"
  obtain c' s' nt' where run: "flows_rx (\<lambda>_. 7) 100 demo_dev (0, 0, 0, 0) ?d flows_srv0 boot_tx flow_demo_net =
      (c', s', nt')" by (metis prod_cases3)
  note q = demo_flow_parse [of 169 254 1 2]
  have src: "net_arp_lookup (dg_src ?d) flow_demo_net = (Some (2, 0, 0, 0, 0, 2), flow_demo_net)"
    using flow_demo_known by simp
  have dst: "net_arp_lookup (fq_dst (flow_parse (ptr_of (dg_payload ?d)) (length (dg_payload ?d)))) flow_demo_net =
      (Some (2, 0, 0, 0, 0, 2), flow_demo_net)"
    using flow_demo_known by (simp add: q)
  show ?thesis
    using flow_request_granted [OF flow_demo_wf(1) src refl _ _ _ refl _ dst boot_tx_ok run refl]
      demo_flow_verdict [of 169 254 1 2] run
    by (auto simp: OP_REQUEST_FLOW_def q flows_srv0_def)
qed

text \<open>
  A request that is not granted is still answered, and changes no flow: with the code of
  its refusal (0x0301 for a rate, width or packet length that does not fit, 0x0315 for a bad
  slot count), or with 0x0103 for an opcode the server does not know or a request too short.
\<close>

theorem flow_request_refused:
  assumes "tx_wf nt" "net_arp_lookup (dg_src d) nt = (Some dmac, nt)"
    and "req = ptr_of (dg_payload d)" "len = length (dg_payload d)" "10 \<le> len" "rd16 req 8 = 0"
    and "known = (rd16 req 6 = OP_REQUEST_FLOW \<and> 26 < len)"
    and "code = (if known then fst (flow_verdict g s (flow_parse req len)) else 0x0103)" "code \<noteq> DANTE_CODE_OK"
    and "flows_rx rd now g (0, 0, 0, 0) d c s nt = (c', s', nt')"
  shows "s' = s \<and> fs_accepted c' = fs_accepted c \<and> cookie c' = cookie c \<and>
    fs_rejected c' = fs_rejected c + (if known then 1 else 0) \<and>
    fs_unknown c' = fs_unknown c + (if known then 0 else 1) \<and>
    (\<exists>F. wire nt' = wire nt @ [F] \<and> carries (dg_sport d) F (flow_reply req code []))"
proof (cases known)
  case True
  obtain fpp where v: "flow_verdict g s (flow_parse req len) = (code, fpp)"
    using True assms(8) by (metis prod.collapse)
  have "flow_decide rd now g (dg_src d) (ptr_of (dg_payload d)) (length (dg_payload d)) k c s t =
      (code, DANTE_HDR_LEN, c\<lparr>fs_requests := fs_requests c + 1, fs_rejected := fs_rejected c + 1\<rparr>, s, t)" for k c t
    using flow_decide_refused [OF _ _ v assms(9)] True assms(3,4,7) by simp
  from flows_rx_plain [OF assms(1,2) _ _ this assms(10)] show ?thesis
    using True assms(3-6) by simp
next
  case False
  then have code: "code = 0x0103" using assms(8) by simp
  have "flow_decide rd now g (dg_src d) (ptr_of (dg_payload d)) (length (dg_payload d)) k c s t =
      (code, DANTE_HDR_LEN, c\<lparr>fs_unknown := fs_unknown c + 1\<rparr>, s, t)" for k c t
    using False assms(7) unfolding assms(3,4) [symmetric] code by (intro flow_decide_unknown) auto
  from flows_rx_plain [OF assms(1,2) _ _ this assms(10)] show ?thesis
    using False assms(3-6) by simp
qed

theorem flow_request_refused_witness:
  "\<exists>c' nt' F. flows_rx (\<lambda>_. 7) 100 demo_dev (0, 0, 0, 0) (demo_flow_req 0x102 (169, 254, 1, 2)) flows_srv0 boot_tx
      flow_demo_net = (c', boot_tx, nt') \<and> fs_unknown c' = 1 \<and> wire nt' = wire flow_demo_net @ [F] \<and>
    carries 5001 F (flow_reply (ptr_of (dg_payload (demo_flow_req 0x102 (169, 254, 1, 2)))) 0x0103 [])"
proof -
  let ?d = "demo_flow_req 0x102 (169, 254, 1, 2)"
  obtain c' s' nt' where run: "flows_rx (\<lambda>_. 7) 100 demo_dev (0, 0, 0, 0) ?d flows_srv0 boot_tx flow_demo_net =
      (c', s', nt')" by (metis prod_cases3)
  have src: "net_arp_lookup (dg_src ?d) flow_demo_net = (Some (2, 0, 0, 0, 0, 2), flow_demo_net)"
    using flow_demo_known by simp
  show ?thesis
    using flow_request_refused [OF flow_demo_wf(1) src refl refl _ _ refl refl _ run] run
    by (simp add: OP_REQUEST_FLOW_def DANTE_CODE_OK_def flows_srv0_def)
qed

text \<open>
  A granted request whose destination is not in the ARP cache is not answered with its
  refusal. The ARP request the bind sends overwrites the slot the reply was begun in and
  moves on to the next one, so the ten bytes the requester gets are whatever the next slot
  held where a payload goes.
\<close>

theorem flow_reply_lost_on_arp_miss:
  assumes "tx_wf nt" "2 \<le> length (tx_slots nt)" "net_arp_lookup (dg_src d) nt = (Some dmac, nt)"
    and "req = ptr_of (dg_payload d)" "26 < length (dg_payload d)" "rd16 req 8 = 0" "rd16 req 6 = OP_REQUEST_FLOW"
    and "q = flow_parse req (length (dg_payload d))" "flow_verdict g s q = (DANTE_CODE_OK, fpp)"
    and "net_arp_lookup (fq_dst q) nt = (None, u)"
    and "flows_rx rd now g (0, 0, 0, 0) d c s nt = (c', s', nt')"
  shows "s' = s \<and> (\<exists>A F. wire nt' = wire nt @ [A, F] \<and> carries (dg_sport d) F
    (take 10 (drop 42 (tx_slots nt ! ((txslot nt + 1) mod length (tx_slots nt))))))"
  by (rule flows_rx_miss [OF assms])

theorem flow_reply_lost_on_arp_miss_witness:
  "\<exists>c' nt' A F. flows_rx (\<lambda>_. 7) 100 demo_dev (0, 0, 0, 0) (demo_flow_req 0x100 (169, 254, 1, 3)) flows_srv0 boot_tx
      flow_demo_net = (c', boot_tx, nt') \<and> wire nt' = wire flow_demo_net @ [A, F] \<and> carries 5001 F (replicate 10 0)"
proof -
  let ?d = "demo_flow_req 0x100 (169, 254, 1, 3)"
  obtain c' s' nt' where run: "flows_rx (\<lambda>_. 7) 100 demo_dev (0, 0, 0, 0) ?d flows_srv0 boot_tx flow_demo_net =
      (c', s', nt')" by (metis prod_cases3)
  have src: "net_arp_lookup (dg_src ?d) flow_demo_net = (Some (2, 0, 0, 0, 0, 2), flow_demo_net)"
    using flow_demo_known by simp
  obtain u where dst: "net_arp_lookup (fq_dst (flow_parse (ptr_of (dg_payload ?d)) (length (dg_payload ?d))))
      flow_demo_net = (None, u)"
    using flow_demo_unknown by (cases "net_arp_lookup (169, 254, 1, 3) flow_demo_net") (simp add: demo_flow_parse)
  show ?thesis
    using flow_reply_lost_on_arp_miss [OF flow_demo_wf(1) _ src refl _ _ _ refl _ dst run]
      demo_flow_verdict [of 169 254 1 3] run flow_demo_wf(2-4)
    by (auto simp: OP_REQUEST_FLOW_def)
qed

end
