(* ===== verification/Mcr_Dante.thy ===== *)
theory Mcr_Dante
  imports Dante_Tx_Clock Config
begin

text \<open>
  The media clock, \<^theory_text>\<open>firmware/mcr_dante.c\<close>: the rate of the sample clock follows the
  PTP rate estimate at no more than 100 ppb a second, with an optional phase term, a guard
  that reverts it to nominal, and a warm start from the stored configuration. Signed
  quantities are integers; the increment register is a field of the state.
\<close>

section \<open>State\<close>

definition UPDATE_MS :: u32 where "UPDATE_MS = 1000"
definition SLEW_PPB :: int where "SLEW_PPB = 100"
definition MAX_PPB :: int where "MAX_PPB = 100000"
definition UNDERRUN_TRIP_PER_S :: u32 where "UNDERRUN_TRIP_PER_S = 4800"
definition RING_ACTIVE_LEVEL :: u16 where "RING_ACTIVE_LEVEL = 32"
definition NV_SAVE_MS :: u32 where "NV_SAVE_MS = 600000"
definition NV_SAVE_DELTA_PPB :: int where "NV_SAVE_DELTA_PPB = 200"
definition RATE_READY_PPB :: int where "RATE_READY_PPB = 250"
definition UNDERRUN_NO_SOURCE_PER_S :: u32 where "UNDERRUN_NO_SOURCE_PER_S = 24000"
definition TRIP_STREAK_S :: u32 where "TRIP_STREAK_S = 45"
definition PHASE_TARGET_SAMPLES :: int where "PHASE_TARGET_SAMPLES = -24"
definition PHASE_MAX_PPB :: int where "PHASE_MAX_PPB = 2000"
definition PHASE_KI :: int where "PHASE_KI = 10"
definition PHASE_I_SCALE :: int where "PHASE_I_SCALE = 1024"
definition PHASE_KP_NUM :: int where "PHASE_KP_NUM = 30"
definition PHASE_KP_DEN :: int where "PHASE_KP_DEN = 1"
definition PHASE_SETPOINT_SETTLE_MS :: u32 where "PHASE_SETPOINT_SETTLE_MS = 15000"
definition TELEM_E_MCLK_TRIP :: u16 where "TELEM_E_MCLK_TRIP = 8"
definition TELEM_E_MCLK_ARM :: u16 where "TELEM_E_MCLK_ARM = 9"
definition TELEM_E_MCLK_DISARM :: u16 where "TELEM_E_MCLK_DISARM = 10"

record mclk =
  base_inc :: u32
  applied_inc :: u32
  last_written_inc :: u32
  applied_ppb :: int
  target_ppb :: int
  mc_enabled :: bool
  last_update_ms :: u32
  nco_writes :: u32
  trips :: u32
  last_underrun :: u32
  underrun_per_s :: u32
  drift_samples :: int
  trip_streak :: u32
  phase_ppb :: int
  warm_started :: bool
  phase_setpoint :: int
  setpoint_valid :: bool
  setpoint_arm_ms :: u32
  seen_anchors :: u32
  phase_integ :: int
  last_nv_ms :: u32
  phase_enabled :: bool
  lvl_sum :: u32
  lvl_n :: u32
  lvl_min_cur :: u16
  lvl_max_cur :: u16
  lvl_min :: u16
  lvl_max :: u16
  lvl_avg :: u16
  nco_inc :: u32
  mc_telem :: telem

text \<open>
  What a poll reads besides the view of the talker's poll: the underrun counter, the number
  of anchors, whether the talker is on, and the PTP rate estimate.
\<close>

record mclk_view = tx_view +
  vm_underrun :: u32
  vm_anchors :: u32
  vm_talker :: bool
  vm_rate_ppb :: int

definition inc_for_ppb :: "u32 \<Rightarrow> int \<Rightarrow> u32" where
  "inc_for_ppb base ppb =
    (let inc = uint base + (uint base * ppb) sdiv 1000000000;
         inc = (if inc < 1 then 1 else inc);
         inc = (if inc > 0xFFFFFFFF then 0xFFFFFFFF else inc) in
     of_int inc)"

definition mcr_increment_write :: "u32 \<Rightarrow> mclk \<Rightarrow> mclk" where
  "mcr_increment_write inc s = s\<lparr>nco_inc := inc\<rparr>"

definition mc_event :: "u16 \<Rightarrow> int \<Rightarrow> int \<Rightarrow> u32 \<Rightarrow> mclk \<Rightarrow> mclk" where
  "mc_event e a b now s = s\<lparr>mc_telem := telem_event e (of_int a) (of_int b) now (mc_telem s)\<rparr>"

section \<open>Starting, sampling, arming\<close>

definition nominal_inc :: "u32 \<Rightarrow> u32 \<Rightarrow> u32" where
  "nominal_inc clk fs =
    (let n = push_bit 32 (ucast fs :: u64); inc = n div ucast clk in
     ucast (if n mod ucast clk > ucast (clk div 2) then inc + 1 else inc))"

definition mcr_dante_init :: "u32 \<Rightarrow> u32 \<Rightarrow> u32 \<Rightarrow> u32 \<Rightarrow> cfg \<Rightarrow> mclk \<Rightarrow> mclk" where
  "mcr_dante_init clk fs underrun now g s =
    (let base = nominal_inc clk fs;
         s = s\<lparr>base_inc := base, applied_ppb := 0, applied_inc := base, last_written_inc := base,
               mc_enabled := False, nco_writes := 0, trips := 0, last_underrun := underrun,
               last_update_ms := now\<rparr> in
     if cf_mclk_ppb_valid g \<noteq> 0 \<and> sint (cf_mclk_ppb g) < MAX_PPB \<and> sint (cf_mclk_ppb g) > - MAX_PPB then
       let s = s\<lparr>applied_ppb := sint (cf_mclk_ppb g)\<rparr>;
           s = s\<lparr>applied_inc := inc_for_ppb base (applied_ppb s)\<rparr>;
           s = s\<lparr>last_written_inc := applied_inc s\<rparr>;
           s = mcr_increment_write (applied_inc s) s in
       s\<lparr>warm_started := True, mc_enabled := True\<rparr>
     else mcr_increment_write base s)"

definition mcr_dante_level_sample :: "u32 \<Rightarrow> mclk \<Rightarrow> mclk" where
  "mcr_dante_level_sample level s =
    (let s = (if level < ucast (lvl_min_cur s) then s\<lparr>lvl_min_cur := ucast level\<rparr> else s);
         s = (if level > ucast (lvl_max_cur s) then s\<lparr>lvl_max_cur := ucast level\<rparr> else s) in
     s\<lparr>lvl_sum := lvl_sum s + level, lvl_n := lvl_n s + 1\<rparr>)"

definition mcr_dante_set_enabled :: "bool \<Rightarrow> u32 \<Rightarrow> mclk \<Rightarrow> mclk" where
  "mcr_dante_set_enabled on now s =
    (let s = s\<lparr>mc_enabled := on\<rparr> in
     if \<not> on then
       let s = s\<lparr>applied_ppb := 0, applied_inc := base_inc s, last_written_inc := base_inc s\<rparr>;
           s = mcr_increment_write (base_inc s) s;
           s = s\<lparr>nco_writes := nco_writes s + 1\<rparr> in
       mc_event TELEM_E_MCLK_DISARM (sint (base_inc s)) 0 now s
     else
       let s = s\<lparr>applied_inc := inc_for_ppb (base_inc s) (applied_ppb s)\<rparr>;
           s = s\<lparr>last_written_inc := applied_inc s\<rparr>;
           s = mcr_increment_write (applied_inc s) s in
       mc_event TELEM_E_MCLK_ARM (target_ppb s) SLEW_PPB now s)"

definition mcr_dante_set_phase_enabled :: "bool \<Rightarrow> mclk \<Rightarrow> mclk" where
  "mcr_dante_set_phase_enabled on s =
    (let s = s\<lparr>phase_enabled := on\<rparr> in if \<not> on then s\<lparr>phase_ppb := 0\<rparr> else s)"

section \<open>The poll\<close>

definition mc_levels :: "mclk \<Rightarrow> mclk" where
  "mc_levels s =
    (let s = (if lvl_n s \<noteq> 0 then s\<lparr>lvl_min := lvl_min_cur s, lvl_max := lvl_max_cur s,
                lvl_avg := ucast (lvl_sum s div lvl_n s)\<rparr> else s) in
     s\<lparr>lvl_min_cur := 0xFFFF, lvl_max_cur := 0, lvl_sum := 0, lvl_n := 0\<rparr>)"

definition mc_underrun :: "mclk_view \<Rightarrow> u32 \<Rightarrow> mclk \<Rightarrow> mclk" where
  "mc_underrun v elapsed s =
    (let u = vm_underrun v; du = u - last_underrun s in
     s\<lparr>last_underrun := u, underrun_per_s :=
       (if elapsed \<noteq> 0 then ucast ((ucast du * 1000 :: u64) div ucast elapsed) else 0)\<rparr>)"

definition mc_drift :: "mclk_view \<Rightarrow> mclk \<Rightarrow> mclk" where
  "mc_drift v s =
    (let (esec, esub) = dante_tx_read_emitted (tx_view.truncate v);
         emit = uint esec * 48000 + uint esub in
     s\<lparr>drift_samples := to_i32 (emit - ptp_samples (tx_view.truncate v))\<rparr>)"

text \<open>The guard's condition for one window.\<close>

definition mc_starved :: "mclk \<Rightarrow> bool" where
  "mc_starved s \<longleftrightarrow> mc_enabled s \<and> underrun_per_s s > UNDERRUN_TRIP_PER_S \<and>
     underrun_per_s s < UNDERRUN_NO_SOURCE_PER_S \<and> lvl_max s \<ge> RING_ACTIVE_LEVEL"

definition mc_guard :: "mclk \<Rightarrow> mclk" where
  "mc_guard s = s\<lparr>trip_streak := if mc_starved s then trip_streak s + 1 else 0\<rparr>"

definition mc_trip :: "u32 \<Rightarrow> mclk \<Rightarrow> mclk" where
  "mc_trip now s =
    (let s = s\<lparr>trip_streak := 0, trips := trips s + 1\<rparr>;
         s = mc_event TELEM_E_MCLK_TRIP (sint (underrun_per_s s)) (uint (lvl_min s)) now s in
     mcr_dante_set_enabled False now s)"

definition mc_setpoint :: "mclk_view \<Rightarrow> mclk \<Rightarrow> mclk" where
  "mc_setpoint v s =
    (let s = (if vm_anchors v \<noteq> seen_anchors s
              then s\<lparr>seen_anchors := vm_anchors v, setpoint_valid := False,
                     setpoint_arm_ms := vw_now v + PHASE_SETPOINT_SETTLE_MS, phase_integ := 0\<rparr> else s) in
     if \<not> setpoint_valid s \<and> vm_talker v \<and> vw_locked v \<and> 0 \<le> sint (vw_now v - setpoint_arm_ms s)
     then s\<lparr>phase_setpoint := PHASE_TARGET_SAMPLES, setpoint_valid := True\<rparr> else s)"

definition mc_phase :: "mclk_view \<Rightarrow> mclk \<Rightarrow> mclk" where
  "mc_phase v s =
    (if \<not> phase_enabled s \<or> \<not> setpoint_valid s \<or> \<not> vw_locked v then s\<lparr>phase_ppb := 0\<rparr>
     else
       let err = drift_samples s - phase_setpoint s in
       if err > 2400 \<or> err < -2400 then s\<lparr>phase_ppb := 0\<rparr>
       else
         let integ = clamp_sym (PHASE_MAX_PPB * PHASE_I_SCALE) (phase_integ s + (- err * PHASE_KI));
             p = (- (err * PHASE_KP_NUM)) sdiv PHASE_KP_DEN;
             i = to_i32 (integ sdiv PHASE_I_SCALE) in
         s\<lparr>phase_integ := integ, phase_ppb := clamp_sym PHASE_MAX_PPB (p + i)\<rparr>)"

definition mc_slew :: "mclk \<Rightarrow> mclk" where
  "mc_slew s =
    (let s = s\<lparr>applied_ppb := applied_ppb s + clamp_sym SLEW_PPB (target_ppb s - applied_ppb s)\<rparr>;
         s = s\<lparr>applied_inc := inc_for_ppb (base_inc s) (applied_ppb s)\<rparr> in
     if applied_inc s \<noteq> last_written_inc s then
       let s = s\<lparr>last_written_inc := applied_inc s\<rparr>; s = mcr_increment_write (applied_inc s) s in
       s\<lparr>nco_writes := nco_writes s + 1\<rparr>
     else s)"

text \<open>The converged rate goes to flash: at once when none is stored, else rarely.\<close>

definition mc_persist :: "'d spi \<Rightarrow> u32 \<Rightarrow> mclk \<times> cfg \<times> 'd \<Rightarrow> mclk \<times> cfg \<times> 'd" where
  "mc_persist xfer now = (\<lambda>(s, g, d).
     if applied_ppb s = target_ppb s \<and> (cf_mclk_ppb_valid g = 0 \<or> now - last_nv_ms s \<ge> NV_SAVE_MS) then
       let s = s\<lparr>last_nv_ms := now\<rparr>; delta = sint (cf_mclk_ppb g) - applied_ppb s in
       if cf_mclk_ppb_valid g = 0 \<or> delta > NV_SAVE_DELTA_PPB \<or> delta < - NV_SAVE_DELTA_PPB then
         let (g, d) = cfg_save xfer (g\<lparr>cf_mclk_ppb_valid := 1, cf_mclk_ppb := of_int (applied_ppb s)\<rparr>) d in
         (s, g, d)
       else (s, g, d)
     else (s, g, d))"

text \<open>What precedes the guard, and what follows it.\<close>

definition mc_measure :: "mclk_view \<Rightarrow> mclk \<Rightarrow> mclk" where
  "mc_measure v s =
    (let elapsed = vw_now v - last_update_ms s; s = s\<lparr>last_update_ms := vw_now v\<rparr> in
     mc_guard (mc_drift v (mc_underrun v elapsed (mc_levels s))))"

definition mc_target :: "mclk_view \<Rightarrow> mclk \<Rightarrow> mclk" where
  "mc_target v s =
    (let s = mc_phase v (mc_setpoint v s) in
     s\<lparr>target_ppb := clamp_sym MAX_PPB (vm_rate_ppb v + phase_ppb s)\<rparr>)"

definition mcr_dante_poll :: "'d spi \<Rightarrow> mclk_view \<Rightarrow> mclk \<times> cfg \<times> 'd \<Rightarrow> mclk \<times> cfg \<times> 'd" where
  "mcr_dante_poll xfer v = (\<lambda>(s, g, d).
     if vw_now v - last_update_ms s < UPDATE_MS then (s, g, d)
     else
       let s = mc_measure v s in
       if trip_streak s \<ge> TRIP_STREAK_S then (mc_trip (vw_now v) s, g, d)
       else
         let s = mc_target v s in
         if \<not> vw_locked v then (s, g, d)
         else if \<not> mc_enabled s then (s\<lparr>applied_ppb := 0, applied_inc := base_inc s\<rparr>, g, d)
         else mc_persist xfer (vw_now v) (mc_slew s, g, d))"

definition mcr_dante_rate_ready :: "bool \<Rightarrow> mclk \<Rightarrow> bool" where
  "mcr_dante_rate_ready locked s =
    (if \<not> mc_enabled s then True
     else if \<not> locked then False
     else let delta = target_ppb s - applied_ppb s in delta < RATE_READY_PPB \<and> delta > - RATE_READY_PPB)"

section \<open>The increment of a rate\<close>

lemma inc_for_ppb_0 [simp]: "0 < base \<Longrightarrow> inc_for_ppb base 0 = base"
proof -
  assume "0 < base"
  then have "1 \<le> uint base" by (simp add: word_less_def)
  moreover have "uint base \<le> 0xFFFFFFFF" using uint_bounded [of base] by simp
  ultimately show ?thesis by (simp add: inc_for_ppb_def)
qed

definition inc_int :: "u32 \<Rightarrow> int \<Rightarrow> int" where
  "inc_int base ppb = max 1 (min 0xFFFFFFFF (uint base + (uint base * ppb) sdiv 1000000000))"

lemma uint_inc_for_ppb: "uint (inc_for_ppb base ppb) = inc_int base ppb"
proof -
  let ?x = "uint base + (uint base * ppb) sdiv 1000000000"
  have "inc_for_ppb base ppb = of_int (inc_int base ppb)"
    by (auto simp: inc_for_ppb_def inc_int_def Let_def max_def min_def)
  moreover have "0 \<le> inc_int base ppb" "inc_int base ppb < 2 ^ 32" by (auto simp: inc_int_def)
  ultimately show ?thesis by (simp add: uint_word_of_int)
qed

text \<open>Division toward zero is Lipschitz up to one.\<close>

lemma sdiv_step:
  assumes "(0 :: int) < n" "a \<le> b" "b - a \<le> m * n"
  shows "a sdiv n \<le> b sdiv n" "b sdiv n - a sdiv n \<le> m"
proof -
  have s: "x sdiv n = (if 0 \<le> x then x div n else - ((- x) div n))" for x
    using assms(1) sdiv_nonneg [of x n] sdiv_nonneg [of "- x" n] sdiv_uminus [of "- x" n] by auto
  have d: "n * (x div n) \<le> x \<and> x < n * (x div n) + n" for x
    using assms(1) mult_div_mod_eq [of n x] pos_mod_sign [of n x] pos_mod_bound [of n x] by linarith
  have t: "if 0 \<le> x then x - n < n * (x sdiv n) \<and> n * (x sdiv n) \<le> x
      else x \<le> n * (x sdiv n) \<and> n * (x sdiv n) < x + n" for x
    using d [of x] d [of "- x"] by (auto simp: s)
  show "a sdiv n \<le> b sdiv n"
  proof (cases "0 \<le> a \<longleftrightarrow> 0 \<le> b")
    case True
    then show ?thesis using assms(1,2) by (auto simp: s zdiv_mono1)
  next
    case False
    with assms(2) have "n * (a sdiv n) < n" "- n < n * (b sdiv n)" "a < 0" "0 \<le> b"
      using t [of a] t [of b] by auto
    moreover have "b sdiv n = b div n" "a sdiv n = - ((- a) div n)" using \<open>a < 0\<close> \<open>0 \<le> b\<close> by (simp_all add: s)
    moreover have "0 \<le> b div n" "0 \<le> (- a) div n" using \<open>a < 0\<close> \<open>0 \<le> b\<close> assms(1) by (simp_all add: pos_imp_zdiv_nonneg_iff)
    ultimately show ?thesis by linarith
  qed
  have "n * (b sdiv n) - n * (a sdiv n) < m * n + n"
    using t [of a] t [of b] assms(2,3) by (auto split: if_splits)
  then have "n * (b sdiv n - a sdiv n) < n * (m + 1)" by (simp add: algebra_simps)
  then show "b sdiv n - a sdiv n \<le> m"
    using assms(1) by (simp add: mult_less_cancel_left_pos)
qed

lemma inc_step:
  assumes "\<bar>q - p\<bar> \<le> k" "uint base * k \<le> m * 1000000000"
  shows "\<bar>inc_int base q - inc_int base p\<bar> \<le> m"
proof -
  have le: "\<bar>inc_int base y - inc_int base x\<bar> \<le> m" if "x \<le> y" "y - x \<le> k" for x y
  proof -
    have "uint base * x \<le> uint base * y" using that(1) by (simp add: mult_left_mono)
    moreover have "uint base * (y - x) \<le> uint base * k" using that(2) by (simp add: mult_left_mono)
    then have "uint base * y - uint base * x \<le> m * 1000000000" using assms(2) by (simp add: right_diff_distrib)
    ultimately have "(uint base * x) sdiv 1000000000 \<le> (uint base * y) sdiv 1000000000"
      "(uint base * y) sdiv 1000000000 - (uint base * x) sdiv 1000000000 \<le> m"
      using sdiv_step [of 1000000000 "uint base * x" "uint base * y" m] by simp_all
    then show ?thesis by (auto simp: inc_int_def max_def min_def)
  qed
  show ?thesis
    using le [of p q] le [of q p] assms(1) by (cases "p \<le> q") auto
qed

section \<open>The register follows the applied rate\<close>

definition mc_inv :: "mclk \<Rightarrow> bool" where
  "mc_inv s \<longleftrightarrow> 0 < base_inc s \<and> nco_inc s = inc_for_ppb (base_inc s) (applied_ppb s) \<and>
     applied_inc s = nco_inc s \<and> last_written_inc s = nco_inc s \<and> \<bar>applied_ppb s\<bar> \<le> MAX_PPB \<and>
     \<bar>phase_integ s\<bar> \<le> PHASE_MAX_PPB * PHASE_I_SCALE \<and> \<bar>phase_ppb s\<bar> \<le> PHASE_MAX_PPB \<and>
     (\<not> mc_enabled s \<longrightarrow> applied_ppb s = 0)"

lemmas mclk_consts = SLEW_PPB_def MAX_PPB_def PHASE_MAX_PPB_def PHASE_I_SCALE_def

text \<open>The parts that measure leave everything the invariant speaks of alone.\<close>

definition clock_part :: "mclk \<Rightarrow> bool \<times> u32 \<times> u32 \<times> u32 \<times> u32 \<times> int" where
  "clock_part s = (mc_enabled s, base_inc s, nco_inc s, applied_inc s, last_written_inc s, applied_ppb s)"

lemma measure_frame:
  "clock_part (mc_measure v s) = clock_part s" "phase_integ (mc_measure v s) = phase_integ s"
  "phase_ppb (mc_measure v s) = phase_ppb s" "phase_enabled (mc_measure v s) = phase_enabled s"
  "setpoint_valid (mc_measure v s) = setpoint_valid s" "trips (mc_measure v s) = trips s"
  "last_update_ms (mc_measure v s) = vw_now v" "last_underrun (mc_measure v s) = vm_underrun v"
  "target_ppb (mc_measure v s) = target_ppb s" "last_nv_ms (mc_measure v s) = last_nv_ms s"
  by (simp_all add: mc_measure_def mc_guard_def mc_drift_def mc_underrun_def mc_levels_def Let_def
      clock_part_def split: prod.split)

lemma target_frame:
  "clock_part (mc_target v s) = clock_part s" "trip_streak (mc_target v s) = trip_streak s"
  "trips (mc_target v s) = trips s" "last_update_ms (mc_target v s) = last_update_ms s"
  "last_underrun (mc_target v s) = last_underrun s" "phase_enabled (mc_target v s) = phase_enabled s"
  "last_nv_ms (mc_target v s) = last_nv_ms s"
  by (simp_all add: mc_target_def mc_phase_def mc_setpoint_def Let_def clock_part_def)

lemma phase_bounded:
  assumes "\<bar>phase_integ s\<bar> \<le> PHASE_MAX_PPB * PHASE_I_SCALE"
  shows "\<bar>phase_integ (mc_target v s)\<bar> \<le> PHASE_MAX_PPB * PHASE_I_SCALE"
    "\<bar>phase_ppb (mc_target v s)\<bar> \<le> PHASE_MAX_PPB" "\<bar>target_ppb (mc_target v s)\<bar> \<le> MAX_PPB"
proof -
  have "\<bar>phase_integ (mc_setpoint v s)\<bar> \<le> PHASE_MAX_PPB * PHASE_I_SCALE"
    using assms by (auto simp: mc_setpoint_def Let_def mclk_consts)
  then show "\<bar>phase_integ (mc_target v s)\<bar> \<le> PHASE_MAX_PPB * PHASE_I_SCALE"
    "\<bar>phase_ppb (mc_target v s)\<bar> \<le> PHASE_MAX_PPB"
    using clamp_sym_abs_le [of "PHASE_MAX_PPB * PHASE_I_SCALE"] clamp_sym_abs_le [of PHASE_MAX_PPB]
    by (auto simp: mc_target_def mc_phase_def Let_def mclk_consts)
  show "\<bar>target_ppb (mc_target v s)\<bar> \<le> MAX_PPB"
    using clamp_sym_abs_le [of MAX_PPB] by (simp add: mc_target_def Let_def mclk_consts)
qed

text \<open>One slew step.\<close>

lemma slew_fields:
  "applied_ppb (mc_slew s) = applied_ppb s + clamp_sym SLEW_PPB (target_ppb s - applied_ppb s)"
  "base_inc (mc_slew s) = base_inc s" "mc_enabled (mc_slew s) = mc_enabled s"
  "target_ppb (mc_slew s) = target_ppb s" "phase_integ (mc_slew s) = phase_integ s"
  "phase_ppb (mc_slew s) = phase_ppb s" "trip_streak (mc_slew s) = trip_streak s" "trips (mc_slew s) = trips s"
  "last_update_ms (mc_slew s) = last_update_ms s" "last_underrun (mc_slew s) = last_underrun s"
  "phase_enabled (mc_slew s) = phase_enabled s" "last_nv_ms (mc_slew s) = last_nv_ms s"
  by (simp_all add: mc_slew_def mcr_increment_write_def Let_def)

lemma slew_inc:
  assumes "nco_inc s = last_written_inc s"
  shows "nco_inc (mc_slew s) = inc_for_ppb (base_inc s) (applied_ppb (mc_slew s))"
    "applied_inc (mc_slew s) = nco_inc (mc_slew s)" "last_written_inc (mc_slew s) = nco_inc (mc_slew s)"
  using assms by (simp_all add: mc_slew_def mcr_increment_write_def Let_def)

lemma slew_within:
  assumes "\<bar>applied_ppb s\<bar> \<le> m" "\<bar>target_ppb s\<bar> \<le> m"
  shows "\<bar>applied_ppb (mc_slew s)\<bar> \<le> m" "\<bar>applied_ppb (mc_slew s) - applied_ppb s\<bar> \<le> SLEW_PPB"
    "\<bar>target_ppb s - applied_ppb (mc_slew s)\<bar> = max 0 (\<bar>target_ppb s - applied_ppb s\<bar> - SLEW_PPB)"
  using assms by (auto simp: slew_fields clamp_sym_def SLEW_PPB_def Let_def)

lemma mc_inv_clock:
  assumes "mc_inv s" "clock_part t = clock_part s" "\<bar>phase_integ t\<bar> \<le> PHASE_MAX_PPB * PHASE_I_SCALE"
    "\<bar>phase_ppb t\<bar> \<le> PHASE_MAX_PPB"
  shows "mc_inv t"
  using assms by (simp add: mc_inv_def clock_part_def)

lemma mc_inv_slew: "mc_inv s \<Longrightarrow> \<bar>target_ppb s\<bar> \<le> MAX_PPB \<Longrightarrow> mc_enabled s \<Longrightarrow> mc_inv (mc_slew s)"
  using slew_within(1) [of s MAX_PPB] slew_inc [of s] by (simp add: mc_inv_def slew_fields)

lemma mc_inv_disarm: "mc_inv s \<Longrightarrow> mc_inv (mcr_dante_set_enabled False now s)"
  by (simp add: mc_inv_def mcr_dante_set_enabled_def mcr_increment_write_def mc_event_def Let_def mclk_consts)

lemma mc_inv_arm: "mc_inv s \<Longrightarrow> mc_inv (mcr_dante_set_enabled True now s)"
  by (auto simp: mc_inv_def mcr_dante_set_enabled_def mcr_increment_write_def mc_event_def Let_def)

lemma mc_inv_trip: "mc_inv s \<Longrightarrow> mc_inv (mc_trip now s)"
  unfolding mc_trip_def Let_def by (intro mc_inv_disarm) (simp add: mc_inv_def mc_event_def)

text \<open>Storing the rate touches only its own timer.\<close>

lemma persist_fst:
  "fst (mc_persist xfer now (s, g, d)) = s \<or> fst (mc_persist xfer now (s, g, d)) = s\<lparr>last_nv_ms := now\<rparr>"
  by (auto simp: mc_persist_def Let_def split: prod.split)

text \<open>A poll, by what it does to the clock.\<close>

lemma poll_cases:
  obtains (early) "vw_now v - last_update_ms s < UPDATE_MS" "mcr_dante_poll xfer v (s, g, d) = (s, g, d)"
  | (trip) "\<not> vw_now v - last_update_ms s < UPDATE_MS" "trip_streak (mc_measure v s) \<ge> TRIP_STREAK_S"
      "mcr_dante_poll xfer v (s, g, d) = (mc_trip (vw_now v) (mc_measure v s), g, d)"
  | (hold) "\<not> vw_now v - last_update_ms s < UPDATE_MS" "\<not> trip_streak (mc_measure v s) \<ge> TRIP_STREAK_S"
      "\<not> vw_locked v" "mcr_dante_poll xfer v (s, g, d) = (mc_target v (mc_measure v s), g, d)"
  | (dry) "\<not> vw_now v - last_update_ms s < UPDATE_MS" "\<not> trip_streak (mc_measure v s) \<ge> TRIP_STREAK_S"
      "vw_locked v" "\<not> mc_enabled s" "mcr_dante_poll xfer v (s, g, d) =
        ((mc_target v (mc_measure v s))\<lparr>applied_ppb := 0, applied_inc := base_inc s\<rparr>, g, d)"
  | (slew) "\<not> vw_now v - last_update_ms s < UPDATE_MS" "\<not> trip_streak (mc_measure v s) \<ge> TRIP_STREAK_S"
      "vw_locked v" "mc_enabled s"
      "mcr_dante_poll xfer v (s, g, d) = mc_persist xfer (vw_now v) (mc_slew (mc_target v (mc_measure v s)), g, d)"
proof -
  have "mc_enabled (mc_target v (mc_measure v s)) = mc_enabled s"
    "base_inc (mc_target v (mc_measure v s)) = base_inc s"
    using target_frame(1) [of v "mc_measure v s"] measure_frame(1) [of v s] by (simp_all add: clock_part_def)
  note e = this
  show thesis
  proof (cases "vw_now v - last_update_ms s < UPDATE_MS \<or> trip_streak (mc_measure v s) \<ge> TRIP_STREAK_S")
    case True
    then show ?thesis using early trip by (auto simp: mcr_dante_poll_def)
  next
    case False
    then show ?thesis
      using hold dry slew e by (cases "vw_locked v"; cases "mc_enabled s") (auto simp: mcr_dante_poll_def)
  qed
qed

lemma mc_inv_poll:
  assumes "mc_inv s" "mcr_dante_poll xfer v (s, g, d) = (s', g', d')"
  shows "mc_inv s'"
proof -
  have m: "mc_inv (mc_measure v s)"
    using assms(1) measure_frame(1-3) by (intro mc_inv_clock [OF assms(1)]) (simp_all add: mc_inv_def)
  have "\<bar>phase_integ (mc_measure v s)\<bar> \<le> PHASE_MAX_PPB * PHASE_I_SCALE" using m by (simp add: mc_inv_def)
  note b = phase_bounded [OF this, of v]
  then have t: "mc_inv (mc_target v (mc_measure v s))" "\<bar>target_ppb (mc_target v (mc_measure v s))\<bar> \<le> MAX_PPB"
    using mc_inv_clock [OF m target_frame(1)] by blast+
  have en: "mc_enabled (mc_target v (mc_measure v s)) = mc_enabled s"
    using target_frame(1) [of v "mc_measure v s"] measure_frame(1) [of v s] by (simp add: clock_part_def)
  show ?thesis
  proof (cases rule: poll_cases [of v s xfer g d])
    case trip
    then show ?thesis using assms(2) m mc_inv_trip by auto
  next
    case dry
    then have "applied_ppb (mc_target v (mc_measure v s)) = 0" using t(1) en by (simp add: mc_inv_def)
    moreover have "base_inc (mc_target v (mc_measure v s)) = base_inc s"
      using target_frame(1) [of v "mc_measure v s"] measure_frame(1) [of v s] by (simp add: clock_part_def)
    ultimately show ?thesis using dry assms(2) t(1) by (auto simp: mc_inv_def)
  next
    case slew
    then have "mc_inv (mc_slew (mc_target v (mc_measure v s)))" using t en by (intro mc_inv_slew) auto
    then have "mc_inv (fst (mc_persist xfer (vw_now v) (mc_slew (mc_target v (mc_measure v s)), g, d)))"
      using persist_fst [of xfer "vw_now v" "mc_slew (mc_target v (mc_measure v s))" g d]
      by (auto simp: mc_inv_def)
    then show ?thesis using slew(5) assms(2) by (metis fst_conv)
  qed (use assms t in auto)
qed

text \<open>The operations of the module as steps.\<close>

inductive mc_step :: "'d spi \<Rightarrow> mclk \<times> cfg \<times> 'd \<Rightarrow> mclk \<times> cfg \<times> 'd \<Rightarrow> bool" for xfer where
  poll: "mc_step xfer c (mcr_dante_poll xfer v c)"
| sample: "mc_step xfer (s, g, d) (mcr_dante_level_sample level s, g, d)"
| arm: "mc_step xfer (s, g, d) (mcr_dante_set_enabled on now s, g, d)"
| phase: "mc_step xfer (s, g, d) (mcr_dante_set_phase_enabled on s, g, d)"

inductive_cases mc_stepE: "mc_step xfer (s, g, d) c"

lemma mc_inv_step: "mc_step xfer (s, g, d) (s', g', d') \<Longrightarrow> mc_inv s \<Longrightarrow> mc_inv s'"
proof (erule mc_stepE)
  fix level assume "mc_inv s" "(s', g', d') = (mcr_dante_level_sample level s, g, d)"
  then show "mc_inv s'" by (auto simp: mc_inv_def mcr_dante_level_sample_def Let_def)
next
  fix on assume "mc_inv s" "(s', g', d') = (mcr_dante_set_phase_enabled on s, g, d)"
  then show "mc_inv s'" by (auto simp: mc_inv_def mcr_dante_set_phase_enabled_def Let_def mclk_consts)
next
  fix on now assume "mc_inv s" "(s', g', d') = (mcr_dante_set_enabled on now s, g, d)"
  then show "mc_inv s'" by (cases on) (auto intro: mc_inv_arm mc_inv_disarm)
next
  fix v assume "mc_inv s" "(s', g', d') = mcr_dante_poll xfer v (s, g, d)"
  then show "mc_inv s'" by (metis mc_inv_poll)
qed

lemma mc_inv_run: "(mc_step xfer)\<^sup>*\<^sup>* c c' \<Longrightarrow> mc_inv (fst c) \<Longrightarrow> mc_inv (fst c')"
proof (induction rule: rtranclp_induct)
  case (step b c)
  then show ?case using mc_inv_step [of xfer "fst b" "fst (snd b)" "snd (snd b)"] by (metis prod.collapse)
qed

lemma mc_inv_init:
  assumes "0 < nominal_inc clk fs" "phase_integ s = 0" "phase_ppb s = 0"
  shows "mc_inv (mcr_dante_init clk fs u now g s)"
  using assms by (auto simp: mcr_dante_init_def mcr_increment_write_def mc_inv_def Let_def mclk_consts)

section \<open>Runs of polls\<close>

definition mc_run :: "'d spi \<Rightarrow> mclk_view list \<Rightarrow> mclk \<times> cfg \<times> 'd \<Rightarrow> mclk \<times> cfg \<times> 'd" where
  "mc_run xfer vs c = foldl (\<lambda>c v. mcr_dante_poll xfer v c) c vs"

text \<open>Views at least an update period apart.\<close>

fun spaced :: "u32 \<Rightarrow> mclk_view list \<Rightarrow> bool" where
  "spaced t [] \<longleftrightarrow> True"
| "spaced t (v # vs) \<longleftrightarrow> vw_now v - t \<ge> UPDATE_MS \<and> spaced (vw_now v) vs"

text \<open>Views of a locked clock at a constant rate with no underrun.\<close>

definition steady :: "int \<Rightarrow> u32 \<Rightarrow> mclk_view \<Rightarrow> bool" where
  "steady r u v \<longleftrightarrow> vw_locked v \<and> vm_rate_ppb v = r \<and> vm_underrun v = u"

lemma steady_measure:
  assumes "vm_underrun v = last_underrun s"
  shows "trip_streak (mc_measure v s) = 0"
  using assms
  by (simp add: mc_measure_def mc_guard_def mc_starved_def mc_drift_def mc_underrun_def mc_levels_def Let_def
      UNDERRUN_TRIP_PER_S_def split: prod.split)

lemma persist_keeps:
  "mc_persist xfer now (s, g, d) = (s', g', d') \<Longrightarrow> applied_ppb s' = applied_ppb s \<and> target_ppb s' = target_ppb s \<and>
    mc_enabled s' = mc_enabled s \<and> last_update_ms s' = last_update_ms s \<and> last_underrun s' = last_underrun s \<and>
    phase_enabled s' = phase_enabled s \<and> trips s' = trips s \<and> trip_streak s' = trip_streak s \<and>
    base_inc s' = base_inc s \<and> nco_inc s' = nco_inc s"
  using persist_fst [of xfer now s g d] by auto

text \<open>One steady poll: the slew step towards the rate.\<close>

lemma steady_poll:
  assumes en: "mc_enabled s" "\<not> phase_enabled s" and due: "vw_now v - last_update_ms s \<ge> UPDATE_MS"
    and st: "steady r (last_underrun s) v" and r: "\<bar>r\<bar> \<le> MAX_PPB" and a: "\<bar>applied_ppb s\<bar> \<le> MAX_PPB"
    and poll: "mcr_dante_poll xfer v (s, g, d) = (s', g', d')"
  shows "mc_enabled s'" "\<not> phase_enabled s'" "last_update_ms s' = vw_now v" "last_underrun s' = last_underrun s"
    "\<bar>applied_ppb s'\<bar> \<le> MAX_PPB" "target_ppb s' = r"
    "\<bar>r - applied_ppb s'\<bar> = max 0 (\<bar>r - applied_ppb s\<bar> - SLEW_PPB)"
proof -
  let ?t = "mc_target v (mc_measure v s)"
  have v: "vw_locked v" "vm_rate_ppb v = r" "vm_underrun v = last_underrun s" using st by (simp_all add: steady_def)
  have no: "\<not> trip_streak (mc_measure v s) \<ge> TRIP_STREAK_S"
    using steady_measure [OF v(3)] by (simp add: TRIP_STREAK_S_def)
  have c: "mc_enabled ?t = mc_enabled s" "applied_ppb ?t = applied_ppb s"
    using target_frame(1) [of v "mc_measure v s"] measure_frame(1) [of v s] by (simp_all add: clock_part_def)
  have "\<not> phase_enabled (mc_setpoint v (mc_measure v s))"
    using en(2) measure_frame(4) [of v s] by (simp add: mc_setpoint_def Let_def)
  then have t: "target_ppb ?t = r"
    using v(2) r by (simp add: mc_target_def mc_phase_def clamp_sym_id)
  have "mc_persist xfer (vw_now v) (mc_slew ?t, g, d) = (s', g', d')"
    using poll by (cases rule: poll_cases [of v s xfer g d]) (use due no v en in auto)
  note k = persist_keeps [OF this]
  have w: "\<bar>applied_ppb (mc_slew ?t)\<bar> \<le> MAX_PPB"
    "\<bar>r - applied_ppb (mc_slew ?t)\<bar> = max 0 (\<bar>r - applied_ppb s\<bar> - SLEW_PPB)"
    using slew_within [of ?t MAX_PPB] a r t c by simp_all
  show "mc_enabled s'" "\<not> phase_enabled s'" "last_update_ms s' = vw_now v" "last_underrun s' = last_underrun s"
    "\<bar>applied_ppb s'\<bar> \<le> MAX_PPB" "target_ppb s' = r"
    "\<bar>r - applied_ppb s'\<bar> = max 0 (\<bar>r - applied_ppb s\<bar> - SLEW_PPB)"
    using k w t c en by (simp_all add: slew_fields(2-) target_frame measure_frame v(3))
qed

lemma steady_run:
  assumes "mc_enabled s" "\<not> phase_enabled s" "spaced (last_update_ms s) vs"
    "\<forall>v \<in> set vs. steady r (last_underrun s) v" "\<bar>r\<bar> \<le> MAX_PPB" "\<bar>applied_ppb s\<bar> \<le> MAX_PPB"
    "mc_run xfer vs (s, g, d) = (s', g', d')"
  shows "mc_enabled s' \<and> \<bar>r - applied_ppb s'\<bar> = max 0 (\<bar>r - applied_ppb s\<bar> - SLEW_PPB * int (length vs)) \<and>
    (vs \<noteq> [] \<longrightarrow> target_ppb s' = r)"
  using assms
proof (induction vs arbitrary: s g d)
  case (Cons v vs)
  obtain t h e where p: "mcr_dante_poll xfer v (s, g, d) = (t, h, e)" by (metis prod_cases3)
  have st: "steady r (last_underrun s) v" "vw_now v - last_update_ms s \<ge> UPDATE_MS" using Cons.prems by simp_all
  note q = steady_poll [OF Cons.prems(1,2) st(2,1) Cons.prems(5,6) p]
  have "mc_enabled s' \<and> \<bar>r - applied_ppb s'\<bar> = max 0 (\<bar>r - applied_ppb t\<bar> - SLEW_PPB * int (length vs)) \<and>
      (vs \<noteq> [] \<longrightarrow> target_ppb s' = r)"
    using Cons.prems p q by (intro Cons.IH [of t h e]) (simp_all add: mc_run_def)
  moreover have "vs = [] \<Longrightarrow> s' = t" using Cons.prems(7) p by (simp add: mc_run_def)
  ultimately show ?case using q(6,7) by (auto simp: algebra_simps SLEW_PPB_def max_def)
qed (simp add: mc_run_def)

text \<open>A run of polls, each closing a starved window.\<close>

fun starved_run :: "'d spi \<Rightarrow> mclk_view list \<Rightarrow> mclk \<times> cfg \<times> 'd \<Rightarrow> bool" where
  "starved_run xfer [] c \<longleftrightarrow> True"
| "starved_run xfer (v # vs) c \<longleftrightarrow> vw_now v - last_update_ms (fst c) \<ge> UPDATE_MS \<and>
     mc_starved (mc_measure v (fst c)) \<and> starved_run xfer vs (mcr_dante_poll xfer v c)"

lemma starved_streak: "mc_starved (mc_measure v s) \<Longrightarrow> trip_streak (mc_measure v s) = trip_streak s + 1"
  by (auto simp: mc_measure_def mc_guard_def mc_starved_def mc_drift_def mc_underrun_def mc_levels_def Let_def
      split: prod.splits)

lemma starved_poll:
  assumes "vw_now v - last_update_ms s \<ge> UPDATE_MS" "mc_starved (mc_measure v s)" "unat (trip_streak s) < 44"
    and poll: "mcr_dante_poll xfer v (s, g, d) = (s', g', d')"
  shows "unat (trip_streak s') = unat (trip_streak s) + 1" "trips s' = trips s" "mc_enabled s'" "base_inc s' = base_inc s"
proof -
  have c: "mc_enabled (mc_measure v s) = mc_enabled s" "base_inc (mc_measure v s) = base_inc s"
    "mc_enabled (mc_target v (mc_measure v s)) = mc_enabled s" "base_inc (mc_target v (mc_measure v s)) = base_inc s"
    using measure_frame(1) [of v s] target_frame(1) [of v "mc_measure v s"] by (simp_all add: clock_part_def)
  have en: "mc_enabled s" using assms(2) c by (simp add: mc_starved_def)
  have t: "unat (trip_streak (mc_measure v s)) = unat (trip_streak s) + 1"
    using assms(2,3) by (simp add: starved_streak unat_word_ariths)
  then have no: "\<not> trip_streak (mc_measure v s) \<ge> TRIP_STREAK_S"
    using assms(3) by (simp add: TRIP_STREAK_S_def word_le_nat_alt)
  have k: "(s', g', d') = (mc_target v (mc_measure v s), g, d) \<or>
      mc_persist xfer (vw_now v) (mc_slew (mc_target v (mc_measure v s)), g, d) = (s', g', d')"
    using poll by (cases rule: poll_cases [of v s xfer g d]) (use assms(1) no en in auto)
  show "unat (trip_streak s') = unat (trip_streak s) + 1" "trips s' = trips s" "mc_enabled s'" "base_inc s' = base_inc s"
    using k t en c by (auto dest: persist_keeps simp: target_frame measure_frame slew_fields)
qed

lemma starved_run_counts:
  assumes "starved_run xfer vs (s, g, d)" "unat (trip_streak s) + length vs \<le> 44" "mc_enabled s"
    "mc_run xfer vs (s, g, d) = (s', g', d')"
  shows "unat (trip_streak s') = unat (trip_streak s) + length vs \<and> trips s' = trips s \<and> mc_enabled s' \<and>
    base_inc s' = base_inc s"
  using assms
proof (induction vs arbitrary: s g d)
  case (Cons v vs)
  obtain t h e where p: "mcr_dante_poll xfer v (s, g, d) = (t, h, e)" by (metis prod_cases3)
  have "vw_now v - last_update_ms s \<ge> UPDATE_MS" "mc_starved (mc_measure v s)" "unat (trip_streak s) < 44"
    using Cons.prems by simp_all
  note q = starved_poll [OF this p]
  have "unat (trip_streak s') = unat (trip_streak t) + length vs \<and> trips s' = trips t \<and> mc_enabled s' \<and>
      base_inc s' = base_inc t"
    using Cons.prems p q by (intro Cons.IH [of t h e]) (simp_all add: mc_run_def)
  then show ?case using q by simp
qed (simp add: mc_run_def)

lemma starved_run_take: "starved_run xfer vs c \<Longrightarrow> starved_run xfer (take k vs) c"
proof (induction vs arbitrary: c k)
  case (Cons v vs)
  then show ?case by (cases k) auto
qed simp

lemma starved_run_last:
  "starved_run xfer (vs @ [v]) c \<Longrightarrow> vw_now v - last_update_ms (fst (mc_run xfer vs c)) \<ge> UPDATE_MS \<and>
     mc_starved (mc_measure v (fst (mc_run xfer vs c)))"
  by (induction vs arbitrary: c) (simp_all add: mc_run_def)

lemma trip_fields:
  "trips (mc_trip now s) = trips s + 1" "\<not> mc_enabled (mc_trip now s)" "nco_inc (mc_trip now s) = base_inc s"
  "applied_ppb (mc_trip now s) = 0"
  by (simp_all add: mc_trip_def mcr_dante_set_enabled_def mcr_increment_write_def mc_event_def Let_def)

lemma starved_trips:
  assumes "starved_run xfer vs (s, g, d)" "length vs = 45" "trip_streak s = 0" "mc_enabled s"
    "mc_run xfer vs (s, g, d) = (s', g', d')"
  shows "trips s' = trips s + 1 \<and> \<not> mc_enabled s' \<and> nco_inc s' = base_inc s"
proof -
  obtain us v where vs: "vs = us @ [v]" "length us = 44"
    using assms(2) by (cases vs rule: rev_cases) auto
  obtain t h e where u: "mc_run xfer us (s, g, d) = (t, h, e)" by (metis prod_cases3)
  have "starved_run xfer us (s, g, d)" using starved_run_take [OF assms(1), of 44] vs by simp
  then have t: "unat (trip_streak t) = 44" "trips t = trips s" "base_inc t = base_inc s"
    using starved_run_counts [OF _ _ assms(4) u] vs(2) assms(3) by simp_all
  have p: "mcr_dante_poll xfer v (t, h, e) = (s', g', d')" using assms(5) u by (simp add: vs(1) mc_run_def)
  have l: "vw_now v - last_update_ms t \<ge> UPDATE_MS" "mc_starved (mc_measure v t)"
    using starved_run_last [of xfer us v "(s, g, d)"] assms(1) u by (simp_all add: vs(1))
  have "unat (trip_streak (mc_measure v t)) = 45"
    using t(1) l(2) by (simp add: starved_streak unat_word_ariths)
  then have "trip_streak (mc_measure v t) \<ge> TRIP_STREAK_S" by (simp add: TRIP_STREAK_S_def word_le_nat_alt)
  then have "s' = mc_trip (vw_now v) (mc_measure v t)"
    using p l(1) by (cases rule: poll_cases [of v t xfer h e]) auto
  moreover have "base_inc (mc_measure v t) = base_inc t" using measure_frame(1) [of v t] by (simp add: clock_part_def)
  ultimately show ?thesis using t by (simp add: trip_fields measure_frame)
qed

text \<open>What a poll that stored something stored.\<close>

lemma poll_saves:
  assumes inv: "mc_inv s" and poll: "mcr_dante_poll xfer v (s, g, d) = (s', g', d')" and saved: "(g', d') \<noteq> (g, d)"
  shows "mc_enabled s' \<and> mc_inv s' \<and> base_inc s' = base_inc s \<and>
    cfg_save xfer (g\<lparr>cf_mclk_ppb_valid := 1, cf_mclk_ppb := of_int (applied_ppb s')\<rparr>) d = (g', d')"
proof -
  let ?t = "mc_slew (mc_target v (mc_measure v s))"
  have c: "mc_enabled (mc_target v (mc_measure v s)) = mc_enabled s" "base_inc (mc_target v (mc_measure v s)) = base_inc s"
    using measure_frame(1) [of v s] target_frame(1) [of v "mc_measure v s"] by (simp_all add: clock_part_def)
  have p: "mc_persist xfer (vw_now v) (?t, g, d) = (s', g', d')" "mc_enabled s"
    using poll saved by (cases rule: poll_cases [of v s xfer g d]; simp)+
  have "cfg_save xfer (g\<lparr>cf_mclk_ppb_valid := 1, cf_mclk_ppb := of_int (applied_ppb ?t)\<rparr>) d = (g', d')"
    using p(1) saved by (auto simp: mc_persist_def Let_def split: if_splits prod.splits)
  then show ?thesis
    using persist_keeps [OF p(1)] p(2) mc_inv_poll [OF inv poll] c by (simp add: slew_fields)
qed

lemma div_cover: "(x :: int) \<le> (x div 1000000000 + 1) * 1000000000"
  by presburger

text \<open>The stored rate as a word.\<close>

lemma rate_word: "\<bar>r\<bar> \<le> MAX_PPB \<Longrightarrow> sint (of_int r :: u32) = r"
  by (simp only: signed_of_int) (simp add: MAX_PPB_def signed_take_bit_int_eq_self abs_le_iff)

text \<open>A cold board stores its rate as soon as it has converged.\<close>

lemma first_save:
  assumes en: "mc_enabled s" "\<not> phase_enabled s" and due: "vw_now v - last_update_ms s \<ge> UPDATE_MS"
    and st: "steady r (last_underrun s) v" and r: "\<bar>r\<bar> \<le> MAX_PPB" and a: "\<bar>applied_ppb s\<bar> \<le> MAX_PPB"
    and near: "\<bar>r - applied_ppb s\<bar> \<le> SLEW_PPB" and cold: "cf_mclk_ppb_valid g = 0"
    and poll: "mcr_dante_poll xfer v (s, g, d) = (s', g', d')"
  shows "cf_mclk_ppb_valid g' = 1"
proof -
  let ?t = "mc_slew (mc_target v (mc_measure v s))"
  note q = steady_poll [OF en due st r a poll]
  have no: "\<not> trip_streak (mc_measure v s) \<ge> TRIP_STREAK_S"
    using steady_measure [of v s] st by (simp add: TRIP_STREAK_S_def steady_def)
  have p: "mc_persist xfer (vw_now v) (?t, g, d) = (s', g', d')"
    using poll by (cases rule: poll_cases [of v s xfer g d]) (use due no st en in \<open>auto simp: steady_def\<close>)
  have "applied_ppb s' = target_ppb s'" using q(6,7) near by simp
  then have "applied_ppb ?t = target_ppb ?t" using persist_keeps [OF p] by simp
  then show ?thesis
    using p cold by (auto simp: mc_persist_def cfg_save_def cfg_seal_def Let_def split: prod.splits)
qed

section \<open>A demonstration clock\<close>

definition mclk0 :: mclk where
  "mclk0 = \<lparr>base_inc = 0, applied_inc = 0, last_written_inc = 0, applied_ppb = 0, target_ppb = 0, mc_enabled = False,
     last_update_ms = 0, nco_writes = 0, trips = 0, last_underrun = 0, underrun_per_s = 0, drift_samples = 0,
     trip_streak = 0, phase_ppb = 0, warm_started = False, phase_setpoint = 0, setpoint_valid = False,
     setpoint_arm_ms = 0, seen_anchors = 0, phase_integ = 0, last_nv_ms = 0, phase_enabled = False, lvl_sum = 0,
     lvl_n = 0, lvl_min_cur = 0xFFFF, lvl_max_cur = 0, lvl_min = 0, lvl_max = 64, lvl_avg = 0, nco_inc = 0,
     mc_telem = telem0\<rparr>"

definition demo_mclk :: mclk where
  "demo_mclk = mcr_dante_set_enabled True 0 (mcr_dante_init 50000000 48000 0 0 cfg_defaults mclk0)"

definition demo_mview :: "bool \<Rightarrow> int \<Rightarrow> u32 \<Rightarrow> nat \<Rightarrow> mclk_view" where
  "demo_mview lk r u k = \<lparr>vw_now = of_nat (1000 * k), vw_sec = 0, vw_ns = 0, vw_last_sec = (\<lambda>_. 0), vw_last_ts = (\<lambda>_. 0),
     vw_locked = lk, vw_phase_settled = True, vw_path_delay = 1, vw_steps = 0, vw_rate_ready = True,
     vm_underrun = u, vm_anchors = 0, vm_talker = True, vm_rate_ppb = r\<rparr>"

lemma demo_inc: "nominal_inc 50000000 48000 = 4123169"
  by (simp add: nominal_inc_def)

lemma cold_defaults: "cf_mclk_ppb_valid cfg_defaults = 0"
  by (simp add: cfg_defaults_def default_osc_def cfg_of_bytes_def CFG_SIZE_def)

lemma demo_init: "mc_inv (mcr_dante_init 50000000 48000 0 0 cfg_defaults mclk0)"
  by (rule mc_inv_init) (simp_all add: demo_inc mclk0_def)

lemma demo_mclk_inv: "mc_inv demo_mclk"
  unfolding demo_mclk_def by (intro mc_inv_arm demo_init)

lemma demo_mclk_fields:
  "mc_enabled demo_mclk" "\<not> phase_enabled demo_mclk" "last_update_ms demo_mclk = 0" "last_underrun demo_mclk = 0"
  "applied_ppb demo_mclk = 0" "base_inc demo_mclk = 4123169" "trip_streak demo_mclk = 0" "lvl_n demo_mclk = 0"
  "lvl_max demo_mclk = 64"
  by (simp_all add: demo_mclk_def mcr_dante_set_enabled_def mcr_dante_init_def Let_def cold_defaults demo_inc
      mcr_increment_write_def mc_event_def mclk0_def)

lemma demo_steady: "steady r u (demo_mview True r u k)" "vw_now (demo_mview lk r u k) = of_nat (1000 * k)"
  by (simp_all add: steady_def demo_mview_def)

lemma measure_window:
  "mc_starved (mc_measure v s) \<longleftrightarrow> mc_enabled s \<and>
     (let du = vm_underrun v - last_underrun s; e = vw_now v - last_update_ms s;
          r = (if e \<noteq> 0 then ucast ((ucast du * 1000 :: u64) div ucast e) else 0) in
      r > UNDERRUN_TRIP_PER_S \<and> r < UNDERRUN_NO_SOURCE_PER_S) \<and>
     lvl_max (mc_measure v s) \<ge> RING_ACTIVE_LEVEL"
  "lvl_n (mc_measure v s) = 0"
  "lvl_max (mc_measure v s) = (if lvl_n s \<noteq> 0 then lvl_max_cur s else lvl_max s)"
  unfolding mc_measure_def mc_guard_def mc_starved_def mc_drift_def mc_underrun_def mc_levels_def Let_def
  by (simp_all split: prod.split)

text \<open>Ten thousand silent samples a second: starved windows while PTP is unlocked.\<close>

lemma demo_starved:
  "mc_enabled s \<Longrightarrow> lvl_n s = 0 \<Longrightarrow> lvl_max s = 64 \<Longrightarrow> last_update_ms s = of_nat (1000 * k) \<Longrightarrow>
   last_underrun s = of_nat (10000 * k) \<Longrightarrow> unat (trip_streak s) + n \<le> 45 \<Longrightarrow>
   starved_run xfer (map (\<lambda>i. demo_mview False 0 (of_nat (10000 * i)) i) [Suc k..<Suc k + n]) (s, g, d)"
proof (induction n arbitrary: k s g d)
  case (Suc n)
  let ?v = "demo_mview False 0 (of_nat (10000 * Suc k)) (Suc k)"
  have due: "vw_now ?v - last_update_ms s \<ge> UPDATE_MS"
    by (simp add: Suc.prems(4) demo_mview_def UPDATE_MS_def algebra_simps)
  have e: "vw_now ?v - last_update_ms s = 1000" "vm_underrun ?v - last_underrun s = 10000"
    by (simp_all add: Suc.prems(4,5) demo_mview_def algebra_simps)
  have st: "mc_starved (mc_measure ?v s)" and lv: "lvl_n (mc_measure ?v s) = 0" "lvl_max (mc_measure ?v s) = 64"
    unfolding measure_window e using Suc.prems(1-3)
    by (simp_all add: UNDERRUN_TRIP_PER_S_def UNDERRUN_NO_SOURCE_PER_S_def RING_ACTIVE_LEVEL_def)
  obtain t h e where p: "mcr_dante_poll xfer ?v (s, g, d) = (t, h, e)" by (metis prod_cases3)
  have rest: "starved_run xfer (map (\<lambda>i. demo_mview False 0 (of_nat (10000 * i)) i) [Suc (Suc k)..<Suc (Suc k) + n]) (t, h, e)"
  proof (cases n)
    case (Suc m)
    then have c: "unat (trip_streak s) < 44" using Suc.prems(6) by simp
    note q = starved_poll [OF due st c p]
    have "\<not> trip_streak (mc_measure ?v s) \<ge> TRIP_STREAK_S"
      using c starved_streak [OF st] by (simp add: TRIP_STREAK_S_def word_le_nat_alt unat_word_ariths)
    then have t: "t = mc_target ?v (mc_measure ?v s)"
      using p due by (cases rule: poll_cases [of ?v s xfer g d]) (auto simp: demo_mview_def)
    have "lvl_n t = 0" "lvl_max t = 64"
      using lv by (simp_all add: t mc_target_def mc_phase_def mc_setpoint_def Let_def)
    then show ?thesis
      using Suc.prems(6) q by (intro Suc.IH) (simp_all add: t target_frame measure_frame demo_mview_def)
  qed simp
  have cons: "[Suc k..<Suc k + Suc n] = Suc k # [Suc (Suc k)..<Suc (Suc k) + n]" by (simp only: upt_conv_Cons) simp
  show ?case unfolding cons list.map starved_run.simps p fst_conv using due st rest by blast
qed simp

section \<open>Properties\<close>

text \<open>
  From start, whatever the order of polls, level samples, arming and the phase switch,
  the increment register holds the increment of the applied rate, that rate is within 100
  ppm and the phase term within 2 ppm, and while the clock is not disciplined the register
  is at nominal.
\<close>

theorem nco_holds_applied_rate:
  assumes "0 < nominal_inc clk fs" "phase_integ s0 = 0" "phase_ppb s0 = 0"
    and "(mc_step xfer)\<^sup>*\<^sup>* (mcr_dante_init clk fs u now g0 s0, g0, d0) (s, g, d)"
  shows "nco_inc s = inc_for_ppb (base_inc s) (applied_ppb s) \<and> \<bar>applied_ppb s\<bar> \<le> MAX_PPB \<and>
    \<bar>phase_ppb s\<bar> \<le> PHASE_MAX_PPB \<and> (mc_enabled s \<or> nco_inc s = base_inc s)"
proof -
  have "mc_inv s" using mc_inv_run [OF assms(4)] mc_inv_init [OF assms(1-3)] by simp
  then show ?thesis by (auto simp: mc_inv_def)
qed

theorem nco_holds_applied_rate_witness:
  "nco_inc demo_mclk = inc_for_ppb (base_inc demo_mclk) (applied_ppb demo_mclk) \<and> mc_enabled demo_mclk"
proof -
  let ?i = "mcr_dante_init 50000000 48000 0 0 cfg_defaults mclk0"
  let ?d = "\<lparr>nor_mem = (\<lambda>_. 0), nor_wel = False, nor_busy = 0\<rparr>"
  have "mc_step nor_xfer (?i, cfg_defaults, ?d) (demo_mclk, cfg_defaults, ?d)"
    unfolding demo_mclk_def by (rule mc_step.arm)
  then have "(mc_step nor_xfer)\<^sup>*\<^sup>* (?i, cfg_defaults, ?d) (demo_mclk, cfg_defaults, ?d)" by (rule r_into_rtranclp)
  from nco_holds_applied_rate [OF _ _ _ this] show ?thesis
    using demo_mclk_fields(1) by (simp add: demo_inc mclk0_def)
qed

text \<open>
  C31: the rate of a clock that stays disciplined moves by at most 100 ppb in one operation,
  never past its target, and the increment register by at most one more than that rate's
  share of the nominal increment, so by at most one unit at 48 kHz.
\<close>

theorem slew_is_limited:
  assumes "mc_inv s" "mcr_dante_poll xfer v (s, g, d) = (s', g', d')" "mc_enabled s'"
  shows "\<bar>applied_ppb s' - applied_ppb s\<bar> \<le> SLEW_PPB \<and>
    \<bar>uint (nco_inc s') - uint (nco_inc s)\<bar> \<le> uint (base_inc s) * SLEW_PPB div 1000000000 + 1 \<and>
    (applied_ppb s' = applied_ppb s \<or>
     \<bar>target_ppb s' - applied_ppb s'\<bar> \<le> \<bar>target_ppb s' - applied_ppb s\<bar> - \<bar>applied_ppb s' - applied_ppb s\<bar>)"
proof -
  let ?t = "mc_target v (mc_measure v s)"
  have c: "mc_enabled ?t = mc_enabled s" "base_inc ?t = base_inc s" "applied_ppb ?t = applied_ppb s"
    "nco_inc ?t = nco_inc s"
    using measure_frame(1) [of v s] target_frame(1) [of v "mc_measure v s"] by (simp_all add: clock_part_def)
  have "applied_ppb s' = applied_ppb s \<and> base_inc s' = base_inc s \<or>
    mc_persist xfer (vw_now v) (mc_slew ?t, g, d) = (s', g', d')"
    using assms(2,3) c by (cases rule: poll_cases [of v s xfer g d]) (auto simp: trip_fields)
  then have a: "base_inc s' = base_inc s \<and> (applied_ppb s' = applied_ppb s \<or>
      applied_ppb s' = applied_ppb s + clamp_sym SLEW_PPB (target_ppb s' - applied_ppb s))"
    using c by (auto dest!: persist_keeps simp: slew_fields)
  then have step: "\<bar>applied_ppb s' - applied_ppb s\<bar> \<le> SLEW_PPB"
    using clamp_sym_abs_le [of SLEW_PPB] by (auto simp: SLEW_PPB_def)
  have "uint (base_inc s) * SLEW_PPB \<le> (uint (base_inc s) * SLEW_PPB div 1000000000 + 1) * 1000000000"
    by (rule div_cover)
  from inc_step [OF step this] have "\<bar>uint (nco_inc s') - uint (nco_inc s)\<bar> \<le> uint (base_inc s) * SLEW_PPB div 1000000000 + 1"
    using assms(1) mc_inv_poll [OF assms(1,2)] a by (simp add: mc_inv_def uint_inc_for_ppb)
  then show ?thesis using step a by (auto simp: clamp_sym_def SLEW_PPB_def Let_def)
qed

theorem slew_is_limited_witness:
  "\<exists>s' g' d'. mcr_dante_poll nor_xfer (demo_mview True (-4300) 0 1)
      (demo_mclk, cfg_defaults, \<lparr>nor_mem = (\<lambda>_. 0), nor_wel = False, nor_busy = 0\<rparr>) = (s', g', d') \<and>
    \<bar>applied_ppb s' - applied_ppb demo_mclk\<bar> \<le> SLEW_PPB \<and> \<bar>uint (nco_inc s') - uint (nco_inc demo_mclk)\<bar> \<le> 1"
proof -
  let ?c = "(demo_mclk, cfg_defaults, \<lparr>nor_mem = (\<lambda>_. 0), nor_wel = False, nor_busy = 0\<rparr>)"
  let ?v = "demo_mview True (-4300) 0 1"
  obtain s' g' d' where p: "mcr_dante_poll nor_xfer ?v ?c = (s', g', d')" by (metis prod_cases3)
  have "mc_enabled s'"
    by (rule steady_poll(1) [OF demo_mclk_fields(1,2) _ _ _ _ p, of "-4300"])
      (simp_all add: demo_mclk_fields demo_steady UPDATE_MS_def MAX_PPB_def)
  from slew_is_limited [OF demo_mclk_inv p this] p show ?thesis
    by (auto simp: demo_mclk_fields SLEW_PPB_def)
qed

text \<open>
  A disciplined clock converges: with PTP locked at a steady rate, no underrun and the
  phase term off, each due poll takes 100 ppb off the distance, so after as many polls as
  the distance needs the clock is fit to start a stream.
\<close>

theorem media_clock_converges:
  assumes "mc_enabled s" "\<not> phase_enabled s" "spaced (last_update_ms s) vs" "vs \<noteq> []"
    and "\<forall>v \<in> set vs. steady r (last_underrun s) v" "\<bar>r\<bar> \<le> MAX_PPB" "\<bar>applied_ppb s\<bar> \<le> MAX_PPB"
    and "\<bar>r - applied_ppb s\<bar> < RATE_READY_PPB + SLEW_PPB * int (length vs)"
    and "mc_run xfer vs (s, g, d) = (s', g', d')"
  shows "mcr_dante_rate_ready True s' \<and> mc_enabled s' \<and>
    \<bar>r - applied_ppb s'\<bar> = max 0 (\<bar>r - applied_ppb s\<bar> - SLEW_PPB * int (length vs))"
proof -
  have "mc_enabled s'" "\<bar>r - applied_ppb s'\<bar> = max 0 (\<bar>r - applied_ppb s\<bar> - SLEW_PPB * int (length vs))"
    "target_ppb s' = r"
    using steady_run [OF assms(1-3,5-7,9)] assms(4) by simp_all
  then show ?thesis
    using assms(8) by (auto simp: mcr_dante_rate_ready_def Let_def RATE_READY_PPB_def)
qed

theorem media_clock_converges_witness:
  "\<exists>s' g' d'. mc_run nor_xfer [demo_mview True (-440) 0 1, demo_mview True (-440) 0 2]
      (demo_mclk, cfg_defaults, \<lparr>nor_mem = (\<lambda>_. 0), nor_wel = False, nor_busy = 0\<rparr>) = (s', g', d') \<and>
    mcr_dante_rate_ready True s'"
proof -
  let ?c = "(demo_mclk, cfg_defaults, \<lparr>nor_mem = (\<lambda>_. 0), nor_wel = False, nor_busy = 0\<rparr>)"
  let ?vs = "[demo_mview True (-440) 0 1, demo_mview True (-440) 0 2]"
  obtain s' g' d' where p: "mc_run nor_xfer ?vs ?c = (s', g', d')" by (metis prod_cases3)
  have "spaced (last_update_ms demo_mclk) ?vs" by (simp add: demo_mclk_fields demo_steady UPDATE_MS_def)
  from media_clock_converges [OF demo_mclk_fields(1,2) this _ _ _ _ _ p, of "-440"] p show ?thesis
    by (auto simp: demo_mclk_fields demo_steady MAX_PPB_def SLEW_PPB_def RATE_READY_PPB_def)
qed

text \<open>
  C13: the guard is patient and certain: through forty-four starved windows in a row the clock
  stays disciplined, and the forty-fifth puts the increment register back to nominal.
\<close>

theorem guard_trips_at_45:
  assumes "starved_run xfer vs (s, g, d)" "length vs = 45" "trip_streak s = 0" "mc_enabled s"
    and "mc_run xfer vs (s, g, d) = (s', g', d')"
  shows "trips s' = trips s + 1 \<and> \<not> mc_enabled s' \<and> nco_inc s' = base_inc s \<and>
    trips (fst (mc_run xfer (take n (butlast vs)) (s, g, d))) = trips s \<and>
    mc_enabled (fst (mc_run xfer (take n (butlast vs)) (s, g, d)))"
proof -
  let ?us = "take n (butlast vs)"
  have "?us = take (min n 44) vs" using assms(2) by (simp add: butlast_conv_take)
  then have "starved_run xfer ?us (s, g, d)" using starved_run_take [OF assms(1)] by metis
  moreover have "length ?us \<le> 44" using assms(2) by simp
  moreover obtain t h e where "mc_run xfer ?us (s, g, d) = (t, h, e)" by (metis prod_cases3)
  ultimately show ?thesis
    using starved_run_counts [of xfer ?us s g d t h e] starved_trips [OF assms] assms(3,4) by simp
qed

definition drought :: "mclk_view list" where
  "drought = map (\<lambda>i. demo_mview False 0 (of_nat (10000 * i)) i) [Suc 0..<Suc 0 + 45]"

theorem guard_trips_at_45_witness:
  "\<exists>s' g' d'. mc_run nor_xfer drought
      (demo_mclk, cfg_defaults, \<lparr>nor_mem = (\<lambda>_. 0), nor_wel = False, nor_busy = 0\<rparr>) = (s', g', d') \<and>
    \<not> mc_enabled s' \<and> nco_inc s' = 4123169"
proof -
  let ?c = "(demo_mclk, cfg_defaults, \<lparr>nor_mem = (\<lambda>_. 0), nor_wel = False, nor_busy = 0\<rparr>)"
  obtain s' g' d' where p: "mc_run nor_xfer drought ?c = (s', g', d')" by (metis prod_cases3)
  have "starved_run nor_xfer drought ?c"
    unfolding drought_def by (rule demo_starved) (simp_all add: demo_mclk_fields)
  moreover have "length drought = 45" unfolding drought_def by (simp only: length_map length_upt)
  ultimately show ?thesis
    using guard_trips_at_45 [OF _ _ demo_mclk_fields(7,1) p, of 0] p by (auto simp: demo_mclk_fields(6))
qed

text \<open>
  The rate a poll stored is the rate the next boot starts on: on any flash that keeps the
  laws of \<open>flash_device\<close>, after a poll that changed the stored configuration, reading it back
  and starting gives the applied rate and the increment the poll left, already disciplined.
\<close>

theorem warm_start_resumes:
  assumes "flash_device xfer mem wel busy" "busy d = 0" "cfg_wf g" "mc_inv s" "base_inc s = nominal_inc clk fs"
    and "mcr_dante_poll xfer v (s, g, d) = (s', g', d')" "(g', d') \<noteq> (g, d)" "\<bar>applied_ppb s'\<bar> < MAX_PPB"
    and "cfg_load xfer d' = (r, g2, d2)"
  shows "r = 1 \<and> applied_ppb (mcr_dante_init clk fs u t g2 s2) = applied_ppb s' \<and>
    mc_enabled (mcr_dante_init clk fs u t g2 s2) \<and> nco_inc (mcr_dante_init clk fs u t g2 s2) = nco_inc s'"
proof -
  let ?g = "g\<lparr>cf_mclk_ppb_valid := 1, cf_mclk_ppb := of_int (applied_ppb s')\<rparr>"
  have p: "mc_inv s'" "base_inc s' = base_inc s" "cfg_save xfer ?g d = (g', d')"
    using poll_saves [OF assms(4,6,7)] by simp_all
  have wf: "cfg_wf ?g" using assms(3) by (simp add: cfg_wf_def)
  have l: "r = 1" "g2 = (if cf_osc_prefix ?g \<noteq> 16 \<and> cf_osc_prefix ?g \<noteq> 24 then default_osc g' else g')"
    and g': "g' = cfg_seal ?g"
    using flash_device.cfg_roundtrip [OF assms(1,2) wf p(3)] assms(9) by auto
  have "cf_mclk_ppb g2 = of_int (applied_ppb s')" "cf_mclk_ppb_valid g2 = 1"
    using l(2) by (simp_all add: g' cfg_seal_def default_osc_def Let_def)
  moreover have "sint (of_int (applied_ppb s') :: u32) = applied_ppb s'" using assms(8) by (simp add: rate_word)
  moreover have "nco_inc s' = inc_for_ppb (nominal_inc clk fs) (applied_ppb s')"
    using p(1,2) assms(5) by (simp add: mc_inv_def)
  moreover have "applied_ppb s' < MAX_PPB" "- MAX_PPB < applied_ppb s'" using assms(8) by linarith+
  ultimately show ?thesis
    using l(1) by (simp add: mcr_dante_init_def Let_def mcr_increment_write_def)
qed

theorem warm_start_resumes_witness:
  "\<exists>s' g' d' r g2 d2. mcr_dante_poll nor_xfer (demo_mview True (-80) 0 1)
      (demo_mclk, cfg_defaults, \<lparr>nor_mem = (\<lambda>_. 0), nor_wel = False, nor_busy = 0\<rparr>) = (s', g', d') \<and>
    cfg_load nor_xfer d' = (r, g2, d2) \<and> applied_ppb s' = -80 \<and>
    applied_ppb (mcr_dante_init 50000000 48000 0 0 g2 mclk0) = -80"
proof -
  let ?d = "\<lparr>nor_mem = (\<lambda>_. 0), nor_wel = False, nor_busy = 0\<rparr>"
  let ?c = "(demo_mclk, cfg_defaults, ?d)" and ?v = "demo_mview True (-80) 0 1"
  obtain s' g' d' where p: "mcr_dante_poll nor_xfer ?v ?c = (s', g', d')" by (metis prod_cases3)
  obtain r g2 d2 where l: "cfg_load nor_xfer d' = (r, g2, d2)" by (metis prod_cases3)
  have a: "\<bar>- 80 - applied_ppb s'\<bar> = 0"
    using steady_poll(7) [OF demo_mclk_fields(1,2) _ _ _ _ p, of "-80"]
    by (simp add: demo_mclk_fields demo_steady UPDATE_MS_def MAX_PPB_def SLEW_PPB_def)
  have "cf_mclk_ppb_valid g' = 1"
    by (rule first_save [OF demo_mclk_fields(1,2) _ _ _ _ _ cold_defaults p, of "-80"])
      (simp_all add: demo_mclk_fields demo_steady UPDATE_MS_def MAX_PPB_def SLEW_PPB_def)
  then have "(g', d') \<noteq> (cfg_defaults, ?d)" using cold_defaults by auto
  from warm_start_resumes [OF nor.flash_device_axioms _ cfg_defaults_wf demo_mclk_inv _ p this _ l, of 50000000 48000 0 0 mclk0]
  show ?thesis using a p l by (auto simp: demo_mclk_fields demo_inc MAX_PPB_def)
qed

end
