(* ===== verification/Tsu.thy ===== *)
theory Tsu
  imports Prelude
begin

text \<open>
  The time-stamp unit as \<^theory_text>\<open>firmware/gptp.c\<close> drives it: timestamps and their
  difference, the rate and offset registers, and the uptime clock that a step of the time
  must not move. What a read of the unit returns is an argument; what is written to it is a
  list of commands, in order.
\<close>

record tstamp =
  tsec :: u64
  tnsec :: u32

definition gptp_ts_diff_ns :: "tstamp \<Rightarrow> tstamp \<Rightarrow> int" where
  "gptp_ts_diff_ns a b =
    (let sec_diff = sint (tsec a) - sint (tsec b); ns_diff = uint (tnsec a) - uint (tnsec b) in
     sec_diff * 1000000000 + ns_diff)"

text \<open>The commands: a new rate in its two registers, an offset in its two, a new time.\<close>

datatype tsu_cmd = Set_Addend u32 u32 | Adjust_Offset u32 u32 | Step_Time u64 u32

record tsu =
  uptime_bias_ms :: int
  tsu_cmds :: "tsu_cmd list"

definition gptp_set_addend_full :: "u64 \<Rightarrow> tsu \<Rightarrow> tsu" where
  "gptp_set_addend_full a u =
     u\<lparr>tsu_cmds := tsu_cmds u @ [Set_Addend (ucast (drop_bit 20 a)) (ucast (a AND 0xFFFFF))]\<rparr>"

definition ts_ms :: "tstamp \<Rightarrow> int" where
  "ts_ms t = sint (tsec t) * 1000 + uint (tnsec t div 1000000)"

definition gptp_step_time :: "tstamp \<Rightarrow> tstamp \<Rightarrow> tsu \<Rightarrow> tsu" where
  "gptp_step_time before t u =
    (let jump_ms = ts_ms t - ts_ms before in
     u\<lparr>uptime_bias_ms := uptime_bias_ms u + jump_ms, tsu_cmds := tsu_cmds u @ [Step_Time (tsec t) (tnsec t)]\<rparr>)"

definition gptp_adjust_offset :: "int \<Rightarrow> tsu \<Rightarrow> tsu" where
  "gptp_adjust_offset off u =
    (let w = of_int off :: u64 in
     u\<lparr>tsu_cmds := tsu_cmds u @ [Adjust_Offset (ucast w) (ucast (drop_bit 32 w) AND 0x1FFFF)]\<rparr>)"

definition gptp_uptime_ms :: "tstamp \<Rightarrow> tsu \<Rightarrow> u32" where
  "gptp_uptime_ms t u = of_int (ts_ms t - uptime_bias_ms u)"

text \<open>Splitting a 52-bit rate over its registers loses nothing.\<close>

lemma addend_split:
  assumes "unat a < 2 ^ 52"
  shows "push_bit 20 (ucast (ucast (drop_bit 20 a) :: u32)) OR (ucast (ucast (a AND 0xFFFFF) :: u32) :: u64) = a"
proof (rule bit_word_eqI)
  fix n assume n: "n < LENGTH(64)"
  have m: "a AND 0xFFFFF = take_bit 20 a" by (simp add: take_bit_eq_mask mask_eq_exp_minus_1)
  have "\<not> bit a n" if "52 \<le> n"
  proof -
    have "take_bit 52 a = a" using assms by (simp add: word_unat_eq_iff unat_take_bit)
    then show ?thesis using that by (metis bit_take_bit_iff not_less)
  qed
  then show "bit (push_bit 20 (ucast (ucast (drop_bit 20 a) :: u32)) OR (ucast (ucast (a AND 0xFFFFF) :: u32) :: u64)) n = bit a n"
    using n by (cases "n < 20"; cases "n < 52") (auto simp: m bit_simps not_less)
qed

text \<open>A step of the time does not move the uptime clock.\<close>

lemma uptime_across_step: "gptp_uptime_ms t (gptp_step_time before t u) = gptp_uptime_ms before u"
  by (simp add: gptp_uptime_ms_def gptp_step_time_def Let_def)

end
