(* ===== verification/Ptpv1.thy ===== *)
theory Ptpv1
  imports Tsu Telem Config Net_Rx
begin

text \<open>
  The PTP slave, \<^theory_text>\<open>firmware/ptpv1.c\<close>: the servo from a resolved Sync to the rate of
  the time-stamp unit, the messages in and out, the poll and the warm start. 64-bit signed
  quantities are integers; what the handlers read from the clock is the record \<open>ptp_view\<close>.
\<close>

section \<open>State\<close>

definition PTP_EVENT_PORT :: u16 where "PTP_EVENT_PORT = 319"
definition PTP_GENERAL_PORT :: u16 where "PTP_GENERAL_PORT = 320"
definition CTRL_SYNC :: u8 where "CTRL_SYNC = 0"
definition CTRL_DELAY_REQ :: u8 where "CTRL_DELAY_REQ = 1"
definition CTRL_FOLLOWUP :: u8 where "CTRL_FOLLOWUP = 2"
definition CTRL_DELAY_RESP :: u8 where "CTRL_DELAY_RESP = 3"
definition PORT_TYPE_EVENT :: u8 where "PORT_TYPE_EVENT = 1"
definition HDR_LEN :: nat where "HDR_LEN = 40"
definition SYNC_BODY_LEN :: nat where "SYNC_BODY_LEN = 84"
definition FOLLOWUP_BODY_LEN :: nat where "FOLLOWUP_BODY_LEN = 12"
definition DELAY_RESP_BODY_LEN :: nat where "DELAY_RESP_BODY_LEN = 20"
definition FLAG_PTP_ASSIST :: u8 where "FLAG_PTP_ASSIST = 8"
definition DELAY_REQ_MS :: u32 where "DELAY_REQ_MS = 4000"
definition DELAY_REQ_FAST_MS :: u32 where "DELAY_REQ_FAST_MS = 1000"
definition SERVO_KP_NUM :: int where "SERVO_KP_NUM = 72"
definition SERVO_KP_DEN :: int where "SERVO_KP_DEN = 1000"
definition SERVO_KP_FAST_NUM :: int where "SERVO_KP_FAST_NUM = 200"
definition SERVO_KI_NUM :: int where "SERVO_KI_NUM = 900"
definition SERVO_KI_DEN :: int where "SERVO_KI_DEN = 1000000"
definition ACQ_WINDOW_NS :: int where "ACQ_WINDOW_NS = 8000000000"
definition PATH_DELAY_GRACE_MS :: u32 where "PATH_DELAY_GRACE_MS = 20000"
definition PD_MIN_SAMPLES :: u32 where "PD_MIN_SAMPLES = 4"
definition SERVO_INTEGRAL_MAX :: int where "SERVO_INTEGRAL_MAX = 100000000"
definition SERVO_STEP_NS :: int where "SERVO_STEP_NS = 1000000"
definition LOCK_THRESHOLD_NS :: int where "LOCK_THRESHOLD_NS = 2000"
definition UNLOCK_THRESHOLD_NS :: int where "UNLOCK_THRESHOLD_NS = 5000"
definition LOCK_STREAK :: u32 where "LOCK_STREAK = 8"
definition UNLOCK_STREAK :: int where "UNLOCK_STREAK = 4"
definition MEDIAN_N :: nat where "MEDIAN_N = 7"
definition DBG_N :: nat where "DBG_N = 8"
definition PROBE_N :: nat where "PROBE_N = 16"
definition PROBE_PORT :: u16 where "PROBE_PORT = 7777"
definition TELEM_T_PTP :: u8 where "TELEM_T_PTP = 1"
definition TELEM_F_LOCKED :: u8 where "TELEM_F_LOCKED = 1"
definition TELEM_F_OUTLIER :: u8 where "TELEM_F_OUTLIER = 2"
definition TELEM_E_PTP_LOCK :: u16 where "TELEM_E_PTP_LOCK = 1"
definition TELEM_E_PTP_UNLOCK :: u16 where "TELEM_E_PTP_UNLOCK = 2"
definition CONFIG_CLOCK_FREQUENCY :: int where "CONFIG_CLOCK_FREQUENCY = 50000000"
definition ptp_group :: ip4 where "ptp_group = (224, 0, 1, 129)"
definition dbg_group :: ip4 where "dbg_group = (224, 0, 0, 233)"

record ptp_view =
  pv_now :: u32
  pv_time :: tstamp
  pv_rx_ts :: tstamp
  pv_tx_ts :: tstamp

text \<open>The fields of \<^theory_text>\<open>g_ptpv1\<close>.\<close>

record ptpv1 =
  locked :: bool
  have_master :: bool
  master_uuid :: mac6
  master_port_id :: u16
  offset_ns :: int
  mean_path_delay_ns :: int
  rx_sync :: u32
  rx_followup :: u32
  rx_delay_resp :: u32
  rx_other :: u32
  tx_delay_req :: u32
  servo_updates :: u32
  base_addend_full :: int
  current_addend_full :: int
  rate_ppb :: int
  step_count :: u32
  phase_settled :: bool

text \<open>The module's own variables around them.\<close>

record ptp = ptpv1 +
  our_uuid :: mac6
  delay_req_seq :: u16
  next_delay_req_ms :: u32
  pt1 :: tstamp
  pt2 :: tstamp
  pt3 :: tstamp
  pt4 :: tstamp
  have_t1 :: bool
  have_t2 :: bool
  have_t3 :: bool
  pending_sync_seq :: u16
  awaiting_followup :: bool
  median_buf :: "int list"
  median_count :: nat
  median_pos :: nat
  rt_median_n :: nat
  rt_ki_num :: int
  rt_exact_integ :: bool
  freq_integral_num :: int
  freq_integral :: int
  unlock_streak :: int
  lock_streak :: u32
  acq_active :: bool
  acq_have_base :: bool
  acq_t1_0 :: tstamp
  acq_t2_0 :: tstamp
  last_t2_t1 :: int
  have_t2_t1 :: bool
  first_sync_ms :: u32
  pd_samples :: u32
  pd_step_done :: bool
  dbg_ring :: "(u32 \<times> u32 \<times> u32 \<times> u32) list"
  dbg_w :: nat
  next_dbg_ms :: u32
  probe_ring :: "(u32 \<times> u32 \<times> u32) list"
  probe_w :: nat
  dbg_dr :: "u32 \<times> u32 \<times> u32 \<times> u32 \<times> u32 \<times> u32 \<times> u32"
  dbg_last_d :: int
  dbg_last_t4t3 :: int
  pt_tsu :: tsu
  pt_telem :: telem

definition ptpv1_set_tuning :: "nat \<Rightarrow> int \<Rightarrow> bool \<Rightarrow> ptp \<Rightarrow> ptp" where
  "ptpv1_set_tuning n ki exact p =
    (let n = (if n < 1 then 1 else n); n = (if n > MEDIAN_N then MEDIAN_N else n) in
     p\<lparr>rt_median_n := n, rt_ki_num := ki, rt_exact_integ := exact, median_count := 0, median_pos := 0,
       freq_integral_num := freq_integral p * SERVO_KI_DEN\<rparr>)"

section \<open>The median filter\<close>

text \<open>
  The insertion sort of \<^theory_text>\<open>median_of\<close>: \<open>shift_in k\<close> is the inner loop, on the sorted
  prefix read from its right end.
\<close>

fun shift_in :: "int \<Rightarrow> int list \<Rightarrow> int list" where
  "shift_in k [] = [k]"
| "shift_in k (x # xs) = (if x > k then x # shift_in k xs else k # x # xs)"

definition insertion_sort :: "int list \<Rightarrow> int list" where
  "insertion_sort xs = rev (foldl (\<lambda>r k. shift_in k r) [] xs)"

definition median_of :: "int \<Rightarrow> ptp \<Rightarrow> int \<times> ptp" where
  "median_of v p =
    (let p = p\<lparr>median_buf := (median_buf p)[median_pos p := v]\<rparr>;
         p = p\<lparr>median_pos := (median_pos p + 1) mod rt_median_n p\<rparr>;
         p = (if median_count p < rt_median_n p then p\<lparr>median_count := median_count p + 1\<rparr> else p) in
     (insertion_sort (take (median_count p) (median_buf p)) ! (median_count p div 2), p))"

section \<open>The servo\<close>

abbreviation tsu_do :: "(tsu \<Rightarrow> tsu) \<Rightarrow> ptp \<Rightarrow> ptp" where
  "tsu_do f p \<equiv> p\<lparr>pt_tsu := f (pt_tsu p)\<rparr>"

text \<open>The target of an absolute step: the origin time plus the path delay, normalised.\<close>

fun carry_seconds :: "nat \<Rightarrow> int \<Rightarrow> u64 \<Rightarrow> int \<times> u64" where
  "carry_seconds 0 ns s = (ns, s)"
| "carry_seconds (Suc n) ns s = (if ns \<ge> 1000000000 then carry_seconds n (ns - 1000000000) (s + 1) else (ns, s))"

definition step_target :: "ptp \<Rightarrow> tstamp" where
  "step_target p =
    (let ns = uint (tnsec (pt1 p)) + mean_path_delay_ns p;
         (ns, s) = carry_seconds (nat (ns div 1000000000)) ns (tsec (pt1 p)) in
     \<lparr>tsec = s, tnsec = of_int ns\<rparr>)"

definition servo_step :: "ptp_view \<Rightarrow> ptp \<Rightarrow> ptp" where
  "servo_step v p =
    (let p = tsu_do (gptp_step_time (pv_time v) (step_target p)) p in
     p\<lparr>step_count := step_count p + 1, phase_settled := False, acq_active := True, acq_have_base := False,
       lock_streak := 0, locked := False, median_count := 0, median_pos := 0\<rparr>)"

text \<open>The rate of the unit, base plus a correction in ppb.\<close>

definition addend_of :: "int \<Rightarrow> int \<Rightarrow> int" where
  "addend_of base ppb = (let a = base + (ppb * base) sdiv 1000000000 in if a < 1 then 1 else a)"

definition set_rate :: "int \<Rightarrow> ptp \<Rightarrow> ptp" where
  "set_rate a p = tsu_do (gptp_set_addend_full (of_int a)) (p\<lparr>current_addend_full := a\<rparr>)"

definition servo_acquire :: "int \<Rightarrow> ptp \<Rightarrow> ptp" where
  "servo_acquire off p =
    (if \<not> acq_have_base p then p\<lparr>acq_t1_0 := pt1 p, acq_t2_0 := pt2 p, acq_have_base := True\<rparr>
     else
       let dm = gptp_ts_diff_ns (pt1 p) (acq_t1_0 p); dl = gptp_ts_diff_ns (pt2 p) (acq_t2_0 p) in
       if dm < ACQ_WINDOW_NS then p
       else
         let err_ppb = ((dl - dm) * 1000000000) sdiv dm;
             base = base_addend_full p;
             applied = (if base \<noteq> 0 then ((current_addend_full p - base) * 1000000000) sdiv base else 0);
             p = p\<lparr>freq_integral := clamp_sym SERVO_INTEGRAL_MAX (applied - err_ppb)\<rparr>;
             p = p\<lparr>freq_integral_num := freq_integral p * SERVO_KI_DEN\<rparr>;
             p = set_rate (addend_of base (freq_integral p)) p;
             p = tsu_do (gptp_adjust_offset (- off)) p in
         p\<lparr>acq_active := False, mean_path_delay_ns := 0, pd_samples := 0, pd_step_done := False,
           median_count := 0, median_pos := 0, lock_streak := 0\<rparr>)"

text \<open>The one residual phase step once the path delay is known.\<close>

definition servo_residual :: "int \<Rightarrow> ptp \<Rightarrow> ptp" where
  "servo_residual off p =
    (let p = tsu_do (gptp_adjust_offset (- off)) (p\<lparr>pd_step_done := True\<rparr>) in
     p\<lparr>step_count := step_count p + 1, phase_settled := True, median_count := 0, median_pos := 0, lock_streak := 0\<rparr>)"

definition servo_integrate :: "int \<Rightarrow> ptp \<Rightarrow> ptp" where
  "servo_integrate filtered p =
    (if filtered < 1000000 \<and> filtered > -1000000 then
       let p = (if rt_exact_integ p then
                  let p = p\<lparr>freq_integral_num := clamp_sym (SERVO_INTEGRAL_MAX * SERVO_KI_DEN)
                        (freq_integral_num p + (- filtered) * rt_ki_num p)\<rparr> in
                  p\<lparr>freq_integral := freq_integral_num p sdiv SERVO_KI_DEN\<rparr>
                else
                  let p = p\<lparr>freq_integral := freq_integral p + ((- filtered) * rt_ki_num p) sdiv SERVO_KI_DEN\<rparr> in
                  p\<lparr>freq_integral_num := freq_integral p * SERVO_KI_DEN\<rparr>) in
       p\<lparr>freq_integral := clamp_sym SERVO_INTEGRAL_MAX (freq_integral p)\<rparr>
     else p)"

definition pt_event :: "u16 \<Rightarrow> int \<Rightarrow> int \<Rightarrow> u32 \<Rightarrow> ptp \<Rightarrow> ptp" where
  "pt_event e a b now p = p\<lparr>pt_telem := telem_event e (of_int a) (of_int b) now (pt_telem p)\<rparr>"

definition pt_push :: "u8 \<Rightarrow> u16 \<Rightarrow> int \<times> int \<times> int \<times> int \<Rightarrow> u32 \<Rightarrow> ptp \<Rightarrow> ptp" where
  "pt_push flags aux vs now p = (case vs of (v0, v1, v2, v3) \<Rightarrow>
     p\<lparr>pt_telem := telem_push (pt_telem p)
       (TELEM_T_PTP, flags, aux, (of_int v0, of_int v1, of_int v2, of_int v3), now)\<rparr>)"

definition servo_apply :: "ptp_view \<Rightarrow> int \<Rightarrow> ptp \<Rightarrow> ptp" where
  "servo_apply v filtered p =
    (let kp_num = (if filtered > 1000 \<or> filtered < -1000 then SERVO_KP_FAST_NUM else SERVO_KP_NUM);
         pr = ((- filtered) * kp_num) sdiv SERVO_KP_DEN;
         p = set_rate (addend_of (base_addend_full p) (pr + freq_integral p)) p;
         p = p\<lparr>rate_ppb := to_i32 (freq_integral p)\<rparr> in
     pt_push (if locked p then TELEM_F_LOCKED else 0) (ucast (servo_updates p))
       (offset_ns p, filtered, mean_path_delay_ns p, rate_ppb p) (pv_now v) p)"

text \<open>Lock and unlock. The converged rate is stored on the lock edge.\<close>

definition store_addend :: "'d spi \<Rightarrow> ptp \<Rightarrow> cfg \<Rightarrow> 'd \<Rightarrow> cfg \<times> 'd" where
  "store_addend xfer p g d =
    (if cf_ptp_addend_valid g = 0 \<or> cf_ptp_addend_full g \<noteq> of_int (current_addend_full p)
     then cfg_save xfer (g\<lparr>cf_ptp_addend_valid := 1, cf_ptp_addend_full := of_int (current_addend_full p)\<rparr>) d
     else (g, d))"

definition delay_known :: "ptp_view \<Rightarrow> ptp \<Rightarrow> bool" where
  "delay_known v p \<longleftrightarrow> pd_samples p \<ge> PD_MIN_SAMPLES \<or>
     (first_sync_ms p \<noteq> 0 \<and> pv_now v - first_sync_ms p > PATH_DELAY_GRACE_MS)"

definition servo_lock :: "'d spi \<Rightarrow> ptp_view \<Rightarrow> int \<Rightarrow> ptp \<times> cfg \<times> 'd \<Rightarrow> ptp \<times> cfg \<times> 'd" where
  "servo_lock xfer v filtered = (\<lambda>(p, g, d).
     let a = \<bar>filtered\<bar> in
     if a < LOCK_THRESHOLD_NS \<and> delay_known v p then
       let p = p\<lparr>unlock_streak := 0, lock_streak := lock_streak p + 1\<rparr> in
       if lock_streak p \<ge> LOCK_STREAK \<and> \<not> locked p then
         let p = pt_event TELEM_E_PTP_LOCK filtered (mean_path_delay_ns p) (pv_now v) (p\<lparr>locked := True\<rparr>);
             (g, d) = store_addend xfer p g d in
         (p, g, d)
       else (p, g, d)
     else if a > UNLOCK_THRESHOLD_NS then
       let p = p\<lparr>lock_streak := 0, unlock_streak := unlock_streak p + 1\<rparr> in
       if unlock_streak p \<ge> UNLOCK_STREAK then
         (if locked p then pt_event TELEM_E_PTP_UNLOCK filtered (unlock_streak p) (pv_now v) (p\<lparr>locked := False\<rparr>)
          else p, g, d)
       else if locked p then
         (pt_push (TELEM_F_LOCKED OR TELEM_F_OUTLIER) (of_int (unlock_streak p)) (offset_ns p, filtered, 0, rate_ppb p)
            (pv_now v) p, g, d)
       else (p, g, d)
     else (p\<lparr>unlock_streak := 0\<rparr>, g, d))"

definition servo_update :: "'d spi \<Rightarrow> ptp_view \<Rightarrow> int \<Rightarrow> ptp \<times> cfg \<times> 'd \<Rightarrow> ptp \<times> cfg \<times> 'd" where
  "servo_update xfer v off = (\<lambda>(p, g, d).
     let p = p\<lparr>offset_ns := off, servo_updates := servo_updates p + 1\<rparr> in
     if off > SERVO_STEP_NS \<or> off < - SERVO_STEP_NS then (servo_step v p, g, d)
     else if acq_active p then (servo_acquire off p, g, d)
     else if \<not> pd_step_done p \<and> pd_samples p \<ge> PD_MIN_SAMPLES then (servo_residual off p, g, d)
     else
       let (filtered, p) = median_of off p; p = servo_integrate filtered p in
       if locked p \<and> \<bar>filtered\<bar> > UNLOCK_THRESHOLD_NS * 4 then (p, g, d)
       else servo_lock xfer v filtered (servo_apply v filtered p, g, d))"

definition try_compute_offset :: "'d spi \<Rightarrow> ptp_view \<Rightarrow> ptp \<times> cfg \<times> 'd \<Rightarrow> ptp \<times> cfg \<times> 'd" where
  "try_compute_offset xfer v = (\<lambda>(p, g, d).
     if \<not> have_t1 p \<or> \<not> have_t2 p then (p, g, d)
     else
       let p = p\<lparr>dbg_ring := (dbg_ring p)[dbg_w p :=
                 (ucast (tsec (pt1 p)), tnsec (pt1 p), ucast (tsec (pt2 p)), tnsec (pt2 p))],
               dbg_w := (dbg_w p + 1) mod DBG_N\<rparr>;
           p = p\<lparr>last_t2_t1 := gptp_ts_diff_ns (pt2 p) (pt1 p), have_t2_t1 := True\<rparr>;
           (p, g, d) = servo_update xfer v (last_t2_t1 p - mean_path_delay_ns p) (p, g, d) in
       (p\<lparr>have_t1 := False, have_t2 := False\<rparr>, g, d))"

section \<open>Messages out\<close>

definition put_header :: "mac6 \<Rightarrow> u8 \<Rightarrow> u8 \<Rightarrow> u16 \<Rightarrow> u8 list" where
  "put_header uuid control port_type seq =
    (let p = replicate HDR_LEN 0;
         p = put 0 (be16 1) p; p = put 2 (be16 1) p;
         p = put 4 [0x5F, 0x44, 0x46, 0x4C, 0x54] p;
         p = put 20 [port_type] p; p = put 21 [1] p;
         p = put 22 (mac_bytes uuid) p;
         p = put 28 (be16 1) p; p = put 30 (be16 seq) p in
     put 32 [control] p)"

definition send_delay_req :: "ptp_view \<Rightarrow> ptp \<Rightarrow> net \<Rightarrow> ptp \<times> net" where
  "send_delay_req v p nt =
    (let msg = put_header (our_uuid p) CTRL_DELAY_REQ PORT_TYPE_EVENT (delay_req_seq p) @ replicate SYNC_BODY_LEN 0;
         (r, nt) = net_udp_commit ptp_group PTP_EVENT_PORT PTP_EVENT_PORT (length msg) NET_TOS_PTP (payload_put 0 msg nt);
         p = (if r = 0 then p\<lparr>pt3 := pv_tx_ts v, have_t3 := True, tx_delay_req := tx_delay_req p + 1\<rparr> else p) in
     (p\<lparr>delay_req_seq := delay_req_seq p + 1\<rparr>, nt))"

section \<open>Messages in\<close>

definition header_ok :: "ptr \<Rightarrow> nat \<Rightarrow> bool" where
  "header_ok m len \<longleftrightarrow> \<not> len < HDR_LEN \<and> rd16 m 0 = 1 \<and>
     m 4 = 0x5F \<and> m 5 = 0x44 \<and> m 6 = 0x46 \<and> m 7 = 0x4C \<and> m 8 = 0x54"

text \<open>\<^theory_text>\<open>uuid_eq\<close>: the six differences or-ed together.\<close>

definition uuid_eq :: "mac6 \<Rightarrow> mac6 \<Rightarrow> bool" where
  "uuid_eq a b \<longleftrightarrow> foldl (\<lambda>diff (x, y). diff OR (x XOR y)) 0 (zip (mac_bytes a) (mac_bytes b)) = 0"

definition ts_at :: "ptr \<Rightarrow> nat \<Rightarrow> tstamp" where
  "ts_at m i = \<lparr>tsec = ucast (rd32 m i), tnsec = rd32 m (i + 4)\<rparr>"

definition rx_sync_msg :: "'d spi \<Rightarrow> ptp_view \<Rightarrow> ptr \<Rightarrow> nat \<Rightarrow> ptp \<times> cfg \<times> 'd \<Rightarrow> ptp \<times> cfg \<times> 'd" where
  "rx_sync_msg xfer v m len = (\<lambda>(p, g, d).
     if len - HDR_LEN < 8 then (p, g, d)
     else
       let p = p\<lparr>rx_sync := rx_sync p + 1, master_uuid := mac_at m 22, master_port_id := rd16 m 28, have_master := True\<rparr>;
           p = (if first_sync_ms p = 0 then p\<lparr>first_sync_ms := pv_now v\<rparr> else p);
           p = p\<lparr>pt2 := pv_rx_ts v, have_t2 := True\<rparr> in
       if m 35 AND FLAG_PTP_ASSIST \<noteq> 0 then
         (p\<lparr>pending_sync_seq := rd16 m 30, awaiting_followup := True, have_t1 := False\<rparr>, g, d)
       else try_compute_offset xfer v
         (p\<lparr>pt1 := ts_at m HDR_LEN, have_t1 := True, awaiting_followup := False\<rparr>, g, d))"

definition rx_followup_msg :: "'d spi \<Rightarrow> ptp_view \<Rightarrow> ptr \<Rightarrow> nat \<Rightarrow> ptp \<times> cfg \<times> 'd \<Rightarrow> ptp \<times> cfg \<times> 'd" where
  "rx_followup_msg xfer v m len = (\<lambda>(p, g, d).
     if len - HDR_LEN < FOLLOWUP_BODY_LEN then (p, g, d)
     else
       let p = p\<lparr>rx_followup := rx_followup p + 1\<rparr> in
       if \<not> awaiting_followup p then (p, g, d)
       else if rd16 m (HDR_LEN + 2) \<noteq> pending_sync_seq p then (p, g, d)
       else try_compute_offset xfer v
         (p\<lparr>pt1 := ts_at m (HDR_LEN + 4), have_t1 := True, awaiting_followup := False\<rparr>, g, d))"

text \<open>The path delay: a running mean of the first measurements, then a filter of an eighth.\<close>

definition path_delay_update :: "int \<Rightarrow> ptp \<Rightarrow> ptp" where
  "path_delay_update delay p =
    (if pd_samples p < PD_MIN_SAMPLES then
       let p = p\<lparr>pd_samples := pd_samples p + 1\<rparr> in
       p\<lparr>mean_path_delay_ns := mean_path_delay_ns p + (delay - mean_path_delay_ns p) sdiv uint (pd_samples p)\<rparr>
     else p\<lparr>mean_path_delay_ns := mean_path_delay_ns p + (delay - mean_path_delay_ns p) sdiv 8\<rparr>)"

abbreviation dbg_count :: "(u32 \<times> u32 \<times> u32 \<times> u32 \<times> u32 \<times> u32 \<times> u32 \<Rightarrow> u32 \<times> u32 \<times> u32 \<times> u32 \<times> u32 \<times> u32 \<times> u32) \<Rightarrow> ptp \<Rightarrow> ptp" where
  "dbg_count f p \<equiv> p\<lparr>dbg_dr := f (dbg_dr p)\<rparr>"

text \<open>A DelayResp that is ours.\<close>

definition matched_delay_resp :: "ptr \<Rightarrow> ptp \<Rightarrow> ptp" where
  "matched_delay_resp m p =
    (let p = p\<lparr>pt4 := ts_at m HDR_LEN\<rparr>; t4_t3 = gptp_ts_diff_ns (pt4 p) (pt3 p) in
     if \<not> have_t2_t1 p then p
     else
       let delay = (last_t2_t1 p + t4_t3) sdiv 2;
           p = p\<lparr>dbg_last_d := delay, dbg_last_t4t3 := t4_t3\<rparr>;
           p = (if delay < 0 then dbg_count (\<lambda>(a, b, c, e, n, x, k). (a, b, c, e, n + 1, x, k)) p else p);
           delay = (if delay < 0 then 0 else delay);
           p = (if delay \<ge> 10000000 then dbg_count (\<lambda>(a, b, c, e, n, x, k). (a, b, c, e, n, x + 1, k)) p else p);
           p = (if delay < 10000000 then
                  path_delay_update delay (dbg_count (\<lambda>(a, b, c, e, n, x, k). (a, b, c, e, n, x, k + 1)) p) else p) in
       p\<lparr>have_t3 := False\<rparr>)"

definition rx_delay_resp_msg :: "ptr \<Rightarrow> nat \<Rightarrow> ptp \<Rightarrow> ptp" where
  "rx_delay_resp_msg m len p =
    (if len - HDR_LEN < DELAY_RESP_BODY_LEN then p
     else
       let p = p\<lparr>rx_delay_resp := rx_delay_resp p + 1\<rparr> in
       if acq_active p then p
       else if \<not> uuid_eq (mac_at m (HDR_LEN + 10)) (our_uuid p) then dbg_count (\<lambda>(a, b, c, e, n, x, k). (a + 1, b, c, e, n, x, k)) p
       else if rd16 m (HDR_LEN + 16) \<noteq> 1 then dbg_count (\<lambda>(a, b, c, e, n, x, k). (a, b + 1, c, e, n, x, k)) p
       else if \<not> have_t3 p then dbg_count (\<lambda>(a, b, c, e, n, x, k). (a, b, c + 1, e, n, x, k)) p
       else if rd16 m (HDR_LEN + 18) \<noteq> delay_req_seq p - 1 then dbg_count (\<lambda>(a, b, c, e, n, x, k). (a, b, c, e + 1, n, x, k)) p
       else matched_delay_resp m p)"

definition ptpv1_rx :: "'d spi \<Rightarrow> ptp_view \<Rightarrow> datagram \<Rightarrow> ptp \<times> cfg \<times> 'd \<Rightarrow> ptp \<times> cfg \<times> 'd" where
  "ptpv1_rx xfer v dg = (\<lambda>(p, g, d).
     let m = ptr_of (dg_payload dg); len = length (dg_payload dg) in
     if \<not> header_ok m len then (p, g, d)
     else if uuid_eq (mac_at m 22) (our_uuid p) then (p, g, d)
     else if m 32 = CTRL_SYNC then rx_sync_msg xfer v m len (p, g, d)
     else if m 32 = CTRL_FOLLOWUP then rx_followup_msg xfer v m len (p, g, d)
     else if m 32 = CTRL_DELAY_RESP then (rx_delay_resp_msg m len p, g, d)
     else (p\<lparr>rx_other := rx_other p + 1\<rparr>, g, d))"

definition probe_rx :: "ptp_view \<Rightarrow> datagram \<Rightarrow> ptp \<Rightarrow> ptp" where
  "probe_rx v dg p =
    (if length (dg_payload dg) < 4 then p
     else p\<lparr>probe_ring := (probe_ring p)[probe_w p :=
              (rd32 (ptr_of (dg_payload dg)) 0, ucast (tsec (pv_rx_ts v)), tnsec (pv_rx_ts v))],
            probe_w := (probe_w p + 1) mod PROBE_N\<rparr>)"

section \<open>The poll\<close>

text \<open>The two diagnostic dumps: rings oldest first, big-endian.\<close>

definition dbg_bytes :: "ptp \<Rightarrow> u8 list" where
  "dbg_bytes p =
    (case dbg_dr p of (u, po, n3, sq, ng, bg, k) \<Rightarrow>
     concat (map (\<lambda>i. case dbg_ring p ! ((dbg_w p + i) mod DBG_N) of (a, b, c, e) \<Rightarrow> be32 a @ be32 b @ be32 c @ be32 e)
       [0..<DBG_N]) @
     be32 (rx_delay_resp p) @ be32 (u OR push_bit 16 po) @ be32 n3 @ be32 sq @ be32 (ng OR push_bit 16 bg) @ be32 k @
     be32 (of_int (dbg_last_d p sdiv 1000)) @ be32 (of_int (dbg_last_t4t3 p sdiv 1000)))"

definition probe_bytes :: "ptp \<Rightarrow> u8 list" where
  "probe_bytes p =
     concat (map (\<lambda>i. case probe_ring p ! ((probe_w p + i) mod PROBE_N) of (a, b, c) \<Rightarrow> be32 a @ be32 b @ be32 c)
       [0..<PROBE_N])"

definition ptp_dump :: "ptp_view \<Rightarrow> ptp \<Rightarrow> net \<Rightarrow> ptp \<times> net" where
  "ptp_dump v p nt =
    (if next_dbg_ms p = 0 \<or> 0 \<le> sint (pv_now v - next_dbg_ms p) then
       let p = p\<lparr>next_dbg_ms := pv_now v + 1000\<rparr>;
           (_, nt) = net_udp_commit dbg_group 9999 9999 (length (dbg_bytes p)) 0 (payload_put 0 (dbg_bytes p) nt);
           (_, nt) = net_udp_commit dbg_group 9998 9998 (length (probe_bytes p)) 0 (payload_put 0 (probe_bytes p) nt) in
       (p, nt)
     else (p, nt))"

definition ptpv1_poll :: "ptp_view \<Rightarrow> ptp \<Rightarrow> net \<Rightarrow> ptp \<times> net" where
  "ptpv1_poll v p nt =
    (let (p, nt) =
       (if next_delay_req_ms p = 0 \<or> 0 \<le> sint (pv_now v - next_delay_req_ms p) then
          let (p, nt) = (if have_master p then send_delay_req v p nt else (p, nt)) in
          (p\<lparr>next_delay_req_ms := pv_now v +
             (if pd_samples p \<ge> PD_MIN_SAMPLES then DELAY_REQ_MS else DELAY_REQ_FAST_MS)\<rparr>, nt)
        else (p, nt)) in
     ptp_dump v p nt)"

section \<open>Start\<close>

definition nominal_addend :: int where
  "nominal_addend = (2 ^ 52 + CONFIG_CLOCK_FREQUENCY div 2) div CONFIG_CLOCK_FREQUENCY"

definition warm_addend :: "cfg \<Rightarrow> int option" where
  "warm_addend g =
    (if cf_ptp_addend_valid g \<noteq> 0 \<and> cf_ptp_addend_full g \<noteq> 0 then
       let warm = sint (cf_ptp_addend_full g); lim = nominal_addend sdiv 5000 in
       if warm > nominal_addend - lim \<and> warm < nominal_addend + lim then Some warm else None
     else None)"

text \<open>\<^theory_text>\<open>ptpv1_init\<close>, the servo part: \<open>p\<close> holds the static variables, \<open>g_ptpv1\<close> is cleared.\<close>

definition ptpv1_start :: "mac6 \<Rightarrow> cfg \<Rightarrow> ptp \<Rightarrow> ptp" where
  "ptpv1_start mac g p =
    (let p = p\<lparr>our_uuid := mac, locked := False, have_master := False, master_uuid := (0, 0, 0, 0, 0, 0),
               master_port_id := 0, offset_ns := 0, mean_path_delay_ns := 0, rx_sync := 0, rx_followup := 0,
               rx_delay_resp := 0, rx_other := 0, tx_delay_req := 0, servo_updates := 0,
               base_addend_full := nominal_addend, current_addend_full := nominal_addend, rate_ppb := 0,
               step_count := 0, phase_settled := False, acq_active := True, acq_have_base := False\<rparr> in
     case warm_addend g of None \<Rightarrow> p
     | Some warm \<Rightarrow>
         let p = p\<lparr>freq_integral := ((warm - nominal_addend) * 1000000000) sdiv nominal_addend\<rparr>;
             p = p\<lparr>freq_integral_num := freq_integral p * SERVO_KI_DEN, rate_ppb := to_i32 (freq_integral p)\<rparr>;
             p = set_rate warm p in
         p\<lparr>acq_active := False\<rparr>)"

definition ptpv1_init :: "mac6 \<Rightarrow> cfg \<Rightarrow> ptp \<Rightarrow> net \<Rightarrow> ptp \<times> net" where
  "ptpv1_init mac g p nt =
    (let nt = snd (net_udp_bind PTP_EVENT_PORT (Some Ptpv1_Rx) nt);
         nt = snd (net_udp_bind PTP_GENERAL_PORT (Some Ptpv1_Rx) nt);
         nt = snd (net_udp_bind PROBE_PORT (Some Probe_Rx) nt) in
     (ptpv1_start mac g p, snd (net_igmp_join ptp_group nt)))"

end
