(* ===== verification/Ptpv1_Servo.thy ===== *)
theory Ptpv1_Servo
  imports Ptpv1 "HOL-Library.Multiset"
begin

text \<open>
  What the PTP slave of theory Ptpv1 guarantees: the median filter, the bounds of the servo,
  which messages steer the clock, when it locks and what it keeps for the next boot.
\<close>

section \<open>The median filter\<close>

lemma set_shift_in [simp]: "set (shift_in k xs) = insert k (set xs)"
  by (induction xs) auto

lemma shift_in_desc: "sorted_wrt (\<ge>) xs \<Longrightarrow> sorted_wrt (\<ge>) (shift_in k xs)"
  by (induction xs) (auto simp: not_less)

lemma mset_shift_in: "mset (shift_in k xs) = add_mset k (mset xs)"
  by (induction xs) simp_all

lemma insertion_desc:
  "sorted_wrt (\<ge>) r \<Longrightarrow> sorted_wrt (\<ge>) (foldl (\<lambda>r k. shift_in k r) r xs) \<and>
     mset (foldl (\<lambda>r k. shift_in k r) r xs) = mset r + mset xs"
  by (induction xs arbitrary: r) (simp_all add: shift_in_desc mset_shift_in)

lemma insertion_sort_is_sort: "insertion_sort xs = sort xs"
proof (rule properties_for_sort [symmetric])
  have s: "sorted_wrt (\<ge>) (foldl (\<lambda>r k. shift_in k r) [] xs)" "mset (foldl (\<lambda>r k. shift_in k r) [] xs) = mset xs"
    using insertion_desc [of "[]" xs] by simp_all
  show "mset (insertion_sort xs) = mset xs" using s(2) by (simp add: insertion_sort_def)
  show "sorted (insertion_sort xs)" using s(1) by (simp add: insertion_sort_def sorted_wrt_rev)
qed

text \<open>The middle of a list of which more than half lies in a band lies in that band.\<close>

lemma sorted_prefix_count:
  assumes "sorted ys" "i < length ys" "ys ! i < lo"
  shows "Suc i \<le> length (filter (\<lambda>x. x < lo) ys)"
proof -
  have "x < lo" if "x \<in> set (take (Suc i) ys)" for x
  proof -
    from that [unfolded in_set_conv_nth] obtain j where "j < length (take (Suc i) ys)" "take (Suc i) ys ! j = x" by blast
    then have "x = ys ! j" "j \<le> i" by auto
    then show ?thesis using assms sorted_nth_mono [OF assms(1), of j i] by simp
  qed
  then have "filter (\<lambda>x. x < lo) (take (Suc i) ys) = take (Suc i) ys" by (simp add: filter_id_conv)
  moreover have "length (filter (\<lambda>x. x < lo) (take (Suc i) ys)) \<le> length (filter (\<lambda>x. x < lo) ys)"
    by (metis append_take_drop_id filter_append le_add1 length_append)
  ultimately show ?thesis using assms(2) by simp
qed

lemma sorted_suffix_count:
  assumes "sorted ys" "i < length ys" "hi < ys ! i"
  shows "length ys - i \<le> length (filter (\<lambda>x. hi < x) ys)"
proof -
  have "hi < x" if "x \<in> set (drop i ys)" for x
  proof -
    from that [unfolded in_set_conv_nth] obtain j where "j < length (drop i ys)" "drop i ys ! j = x" by blast
    then have "x = ys ! (i + j)" "i + j < length ys" by auto
    then show ?thesis using assms(3) sorted_nth_mono [OF assms(1), of i "i + j"] by simp
  qed
  then have "filter (\<lambda>x. hi < x) (drop i ys) = drop i ys" by (simp add: filter_id_conv)
  moreover have "length (filter (\<lambda>x. hi < x) (drop i ys)) \<le> length (filter (\<lambda>x. hi < x) ys)"
    by (metis append_take_drop_id filter_append le_add2 length_append)
  ultimately show ?thesis by simp
qed

lemma middle_in_band:
  assumes "xs \<noteq> []" "length xs < 2 * length (filter (\<lambda>x. lo \<le> x \<and> x \<le> hi) xs)"
  shows "lo \<le> sort xs ! (length xs div 2) \<and> sort xs ! (length xs div 2) \<le> (hi :: int)"
proof -
  let ?ys = "sort xs" and ?i = "length xs div 2"
  have i: "?i < length ?ys" using assms(1) by (simp add: Euclidean_Rings.div_less_dividend)
  have f: "length (filter P ?ys) = length (filter P xs)" for P
    by (metis mset_filter mset_sort size_mset)
  have part: "length (filter (\<lambda>x. lo \<le> x \<and> x \<le> hi) xs) + length (filter (\<lambda>x. x < lo) xs) \<le> length xs"
    "length (filter (\<lambda>x. lo \<le> x \<and> x \<le> hi) xs) + length (filter (\<lambda>x. hi < x) xs) \<le> length xs"
    by (induction xs) auto
  have "\<not> ?ys ! ?i < lo" using sorted_prefix_count [of ?ys ?i lo] i f part(1) assms(2) by auto
  moreover have "\<not> hi < ?ys ! ?i" using sorted_suffix_count [of ?ys ?i hi] i f part(2) assms(2) by auto
  ultimately show ?thesis by auto
qed

text \<open>The window of the filter: the offsets held, oldest not first.\<close>

definition window :: "ptp \<Rightarrow> int list" where
  "window p = take (median_count p) (median_buf p)"

definition window_wf :: "ptp \<Rightarrow> bool" where
  "window_wf p \<longleftrightarrow> length (median_buf p) = MEDIAN_N \<and> 1 \<le> rt_median_n p \<and> rt_median_n p \<le> MEDIAN_N \<and>
     median_count p \<le> rt_median_n p \<and> median_pos p < rt_median_n p \<and>
     (median_count p < rt_median_n p \<longrightarrow> median_pos p = median_count p)"

lemma length_window: "window_wf p \<Longrightarrow> length (window p) = median_count p"
  by (simp add: window_wf_def window_def)

lemma median_of_state:
  "median_of v p = (f, r) \<Longrightarrow> r = p\<lparr>median_buf := (median_buf p)[median_pos p := v],
     median_pos := (median_pos p + 1) mod rt_median_n p,
     median_count := (if median_count p < rt_median_n p then median_count p + 1 else median_count p)\<rparr>"
  by (auto simp: median_of_def Let_def)

lemma median_of_window:
  assumes wf: "window_wf p" and m: "median_of v p = (f, p')"
  shows "window_wf p'" "window p' = (if median_count p < rt_median_n p then window p @ [v] else (window p)[median_pos p := v])"
    "f = sort (window p') ! (length (window p') div 2)" "window p' \<noteq> []" "set (window p') \<subseteq> insert v (set (window p))"
proof -
  have p': "p' = p\<lparr>median_buf := (median_buf p)[median_pos p := v], median_pos := (median_pos p + 1) mod rt_median_n p,
      median_count := (if median_count p < rt_median_n p then median_count p + 1 else median_count p)\<rparr>"
    using m by (rule median_of_state)
  show wf': "window_wf p'" using wf by (auto simp: p' window_wf_def)
  show w: "window p' = (if median_count p < rt_median_n p then window p @ [v] else (window p)[median_pos p := v])"
  proof (cases "median_count p < rt_median_n p")
    case True
    then have "median_pos p = median_count p" "median_count p < length (median_buf p)" using wf by (auto simp: window_wf_def)
    then show ?thesis using True by (simp add: p' window_def take_Suc_conv_app_nth)
  next
    case False
    then show ?thesis using wf by (simp add: p' window_def take_update_swap)
  qed
  have "f = insertion_sort (window p') ! (median_count p' div 2)"
    using m by (auto simp: median_of_def Let_def window_def)
  then show "f = sort (window p') ! (length (window p') div 2)"
    by (simp add: insertion_sort_is_sort length_window [OF wf'])
  have "0 < median_count p'" using wf by (auto simp: p' window_wf_def)
  then show "window p' \<noteq> []" using length_window [OF wf'] by auto
  show "set (window p') \<subseteq> insert v (set (window p))"
    unfolding w using set_update_subset_insert [of "window p" "median_pos p" v] by (auto split: if_splits)
qed

text \<open>A band all of the window keeps to.\<close>

lemma median_in_band:
  assumes "window_wf p" "median_of v p = (f, p')" "\<forall>x \<in> set (window p'). \<bar>x\<bar> \<le> m"
  shows "\<bar>f\<bar> \<le> m"
proof -
  have "f \<in> set (window p')"
    using median_of_window(3,4) [OF assms(1,2)] nth_mem [of "length (window p') div 2" "sort (window p')"]
    by (simp add: Euclidean_Rings.div_less_dividend)
  then show ?thesis using assms(3) by simp
qed

section \<open>Bounds of the servo\<close>

definition servo_wf :: "ptp \<Rightarrow> bool" where
  "servo_wf p \<longleftrightarrow> window_wf p \<and> (\<forall>x \<in> set (window p). \<bar>x\<bar> \<le> SERVO_STEP_NS) \<and>
     \<bar>freq_integral p\<bar> \<le> SERVO_INTEGRAL_MAX \<and> \<bar>freq_integral_num p\<bar> \<le> 3000000000000000 \<and>
     \<bar>rt_ki_num p\<bar> \<le> 2147483648 \<and>
     0 \<le> mean_path_delay_ns p \<and> mean_path_delay_ns p < 10000000 \<and> base_addend_full p = nominal_addend \<and>
     80000000 \<le> current_addend_full p \<and> current_addend_full p \<le> 100000000"

lemmas servo_consts = SERVO_STEP_NS_def SERVO_INTEGRAL_MAX_def SERVO_KI_DEN_def MEDIAN_N_def

lemma nominal_addend_value: "nominal_addend = 90071993"
  by (simp add: nominal_addend_def CONFIG_CLOCK_FREQUENCY_def)

lemma addend_of_bounds:
  assumes "\<bar>ppb\<bar> \<le> 100200000"
  shows "80000000 \<le> addend_of nominal_addend ppb" "addend_of nominal_addend ppb \<le> 100000000"
proof -
  have "\<bar>ppb * 90071993\<bar> \<le> 100200000 * 90071993" using assms by (simp add: abs_mult mult_right_mono)
  then have "\<bar>(ppb * 90071993) sdiv 1000000000\<bar> \<le> (100200000 * 90071993) div 1000000000"
    using zdiv_mono1 [of "\<bar>ppb * 90071993\<bar>" "100200000 * 90071993" 1000000000]
    by (auto simp: signed_divide_int_def abs_mult sgn_if split: if_splits)
  then have "\<bar>(ppb * 90071993) sdiv 1000000000\<bar> \<le> 9025213" by simp
  then show "80000000 \<le> addend_of nominal_addend ppb" "addend_of nominal_addend ppb \<le> 100000000"
    by (auto simp: addend_of_def nominal_addend_value Let_def)
qed

lemma set_rate_fields [simp]:
  "window (set_rate a p) = window p" "window_wf (set_rate a p) = window_wf p" "freq_integral (set_rate a p) = freq_integral p"
  "freq_integral_num (set_rate a p) = freq_integral_num p" "mean_path_delay_ns (set_rate a p) = mean_path_delay_ns p"
  "base_addend_full (set_rate a p) = base_addend_full p" "current_addend_full (set_rate a p) = a"
  "locked (set_rate a p) = locked p"
  by (simp_all add: set_rate_def window_def window_wf_def)

text \<open>The fields the invariant depends on.\<close>

definition servo_part :: "ptp \<Rightarrow> int list \<times> nat \<times> nat \<times> nat \<times> int \<times> int \<times> int \<times> int \<times> int \<times> int" where
  "servo_part p = (median_buf p, median_count p, median_pos p, rt_median_n p, rt_ki_num p, freq_integral p, freq_integral_num p,
     mean_path_delay_ns p, base_addend_full p, current_addend_full p)"

lemma servo_wf_cong: "servo_part q = servo_part p \<Longrightarrow> servo_wf p \<Longrightarrow> servo_wf q"
  by (simp add: servo_part_def servo_wf_def window_wf_def window_def)

lemma sdiv_abs_le: "(0 :: int) < b \<Longrightarrow> \<bar>a\<bar> \<le> m * b \<Longrightarrow> \<bar>a sdiv b\<bar> \<le> m"
  using zdiv_mono1 [of "\<bar>a\<bar>" "m * b" b] pos_imp_zdiv_nonneg_iff [of b "\<bar>a\<bar>"]
  by (auto simp: signed_divide_int_def abs_mult sgn_if split: if_splits)

lemma window_empty [simp]: "median_count p = 0 \<Longrightarrow> window p = []"
  by (simp add: window_def)

lemma servo_step_wf: "servo_wf p \<Longrightarrow> servo_wf (servo_step v p)"
  by (auto simp: servo_wf_def window_wf_def servo_step_def Let_def)

lemma servo_residual_wf: "servo_wf p \<Longrightarrow> servo_wf (servo_residual off p)"
  by (auto simp: servo_wf_def window_wf_def servo_residual_def Let_def)

lemma servo_acquire_wf:
  assumes "servo_wf p"
  shows "servo_wf (servo_acquire off p)"
proof -
  have "servo_wf (servo_acquire off p) \<or> servo_part (servo_acquire off p) = servo_part p"
  proof (cases "acq_have_base p \<and> \<not> gptp_ts_diff_ns (pt1 p) (acq_t1_0 p) < ACQ_WINDOW_NS")
    case False
    then show ?thesis by (auto simp: servo_acquire_def Let_def servo_part_def)
  next
    case True
    define k where "k = clamp_sym SERVO_INTEGRAL_MAX ((if base_addend_full p \<noteq> 0
        then ((current_addend_full p - base_addend_full p) * 1000000000) sdiv base_addend_full p else 0) -
      ((gptp_ts_diff_ns (pt2 p) (acq_t2_0 p) - gptp_ts_diff_ns (pt1 p) (acq_t1_0 p)) * 1000000000) sdiv
        gptp_ts_diff_ns (pt1 p) (acq_t1_0 p))"
    have k: "\<bar>k\<bar> \<le> SERVO_INTEGRAL_MAX" unfolding k_def by (rule clamp_sym_abs_le) (simp add: servo_consts)
    then have "\<bar>k\<bar> \<le> 100200000" by (simp add: servo_consts)
    note b = addend_of_bounds [OF this]
    have "servo_part (servo_acquire off p) =
        (median_buf p, 0, 0, rt_median_n p, rt_ki_num p, k, k * SERVO_KI_DEN, 0, base_addend_full p, addend_of (base_addend_full p) k)"
      using True unfolding k_def by (simp add: servo_acquire_def Let_def servo_part_def set_rate_def)
    then show ?thesis
      using assms k b by (auto simp: servo_part_def servo_wf_def window_wf_def window_def servo_consts abs_mult)
  qed
  then show ?thesis using servo_wf_cong assms by blast
qed

lemma servo_integrate_wf:
  assumes "servo_wf p"
  shows "servo_wf (servo_integrate f p)"
proof -
  have m: "0 \<le> SERVO_INTEGRAL_MAX * SERVO_KI_DEN" "0 \<le> SERVO_INTEGRAL_MAX" by (simp_all add: servo_consts)
  let ?x = "clamp_sym (SERVO_INTEGRAL_MAX * SERVO_KI_DEN) (freq_integral_num p + (- f) * rt_ki_num p)"
  let ?y = "freq_integral p + ((- f) * rt_ki_num p) sdiv SERVO_KI_DEN"
  have upd: "servo_wf (p\<lparr>freq_integral_num := x, freq_integral := clamp_sym SERVO_INTEGRAL_MAX y\<rparr>)"
    if "\<bar>x\<bar> \<le> 3000000000000000" for x y
    using assms that clamp_sym_abs_le [OF m(2)] by (simp add: servo_wf_def window_wf_def window_def)
  show ?thesis
  proof (cases "f < 1000000 \<and> f > -1000000")
    case f: True
    have x: "\<bar>?x\<bar> \<le> 3000000000000000" using clamp_sym_abs_le [OF m(1)] by (rule order_trans) (simp add: servo_consts)
    have "\<bar>(- f) * rt_ki_num p\<bar> \<le> 1000000 * 2147483648"
      using f assms unfolding abs_mult by (intro mult_mono) (auto simp: servo_wf_def)
    then have "\<bar>((- f) * rt_ki_num p) sdiv SERVO_KI_DEN\<bar> \<le> 2147483648"
      by (intro sdiv_abs_le) (simp_all add: SERVO_KI_DEN_def)
    moreover have "\<bar>freq_integral p\<bar> \<le> 100000000" using assms by (simp add: servo_wf_def servo_consts)
    ultimately have "\<bar>?y\<bar> \<le> 2247483648" by linarith
    then have y: "\<bar>?y * SERVO_KI_DEN\<bar> \<le> 3000000000000000" by (simp add: SERVO_KI_DEN_def abs_mult)
    have "servo_integrate f p = (if rt_exact_integ p
        then p\<lparr>freq_integral_num := ?x, freq_integral := clamp_sym SERVO_INTEGRAL_MAX (?x sdiv SERVO_KI_DEN)\<rparr>
        else p\<lparr>freq_integral_num := ?y * SERVO_KI_DEN, freq_integral := clamp_sym SERVO_INTEGRAL_MAX ?y\<rparr>)"
      using f unfolding servo_integrate_def Let_def by simp
    then show ?thesis using upd [OF x] upd [OF y] by (simp split: if_splits)
  next
    case False
    then have "servo_integrate f p = p" unfolding servo_integrate_def by (rule if_not_P)
    then show ?thesis using assms by simp
  qed
qed

lemma servo_apply_wf:
  assumes "servo_wf p" "\<bar>f\<bar> \<le> SERVO_STEP_NS"
  shows "servo_wf (servo_apply v f p)" "locked (servo_apply v f p) = locked p" "pd_samples (servo_apply v f p) = pd_samples p"
    "first_sync_ms (servo_apply v f p) = first_sync_ms p" "lock_streak (servo_apply v f p) = lock_streak p"
    "unlock_streak (servo_apply v f p) = unlock_streak p" "acq_active (servo_apply v f p) = acq_active p"
    "pd_step_done (servo_apply v f p) = pd_step_done p" "window (servo_apply v f p) = window p"
proof -
  let ?kp = "if f > 1000 \<or> f < -1000 then SERVO_KP_FAST_NUM else SERVO_KP_NUM"
  have "\<bar>(- f) * ?kp\<bar> \<le> 1000000 * 200"
    using assms(2) unfolding abs_mult
    by (intro mult_mono) (auto simp: SERVO_KP_FAST_NUM_def SERVO_KP_NUM_def servo_consts)
  then have "\<bar>((- f) * ?kp) sdiv SERVO_KP_DEN\<bar> \<le> 200000" by (intro sdiv_abs_le) (simp_all add: SERVO_KP_DEN_def)
  moreover have "\<bar>freq_integral p\<bar> \<le> 100000000" using assms by (simp add: servo_wf_def servo_consts)
  ultimately have "\<bar>((- f) * ?kp) sdiv SERVO_KP_DEN + freq_integral p\<bar> \<le> 100200000" by linarith
  note b = addend_of_bounds [OF this]
  have part: "servo_part (servo_apply v f p) = servo_part (p\<lparr>current_addend_full :=
      addend_of (base_addend_full p) (((- f) * ?kp) sdiv SERVO_KP_DEN + freq_integral p)\<rparr>)"
    by (simp add: servo_apply_def Let_def pt_push_def set_rate_def servo_part_def)
  show "servo_wf (servo_apply v f p)"
    using b assms(1) by (intro servo_wf_cong [OF part]) (simp add: servo_wf_def window_wf_def window_def)
qed (simp_all add: servo_apply_def Let_def pt_push_def set_rate_def window_def)

lemma servo_lock_part:
  "servo_lock xfer v f (p, g, d) = (p', g', d') \<Longrightarrow> servo_part p' = servo_part p"
  by (auto simp: servo_lock_def Let_def servo_part_def pt_event_def pt_push_def split: if_splits prod.splits)

text \<open>The four ways through \<^theory_text>\<open>servo_update\<close>, on the state with the offset recorded.\<close>

definition recorded :: "int \<Rightarrow> ptp \<Rightarrow> ptp" where
  "recorded off p = p\<lparr>offset_ns := off, servo_updates := servo_updates p + 1\<rparr>"

lemma recorded_fields [simp]:
  "window (recorded off p) = window p" "window_wf (recorded off p) = window_wf p" "servo_part (recorded off p) = servo_part p"
  "locked (recorded off p) = locked p" "lock_streak (recorded off p) = lock_streak p"
  "unlock_streak (recorded off p) = unlock_streak p" "pd_samples (recorded off p) = pd_samples p"
  "median_count (recorded off p) = median_count p" "median_pos (recorded off p) = median_pos p"
  "rt_median_n (recorded off p) = rt_median_n p" "first_sync_ms (recorded off p) = first_sync_ms p"
  "acq_active (recorded off p) = acq_active p" "pd_step_done (recorded off p) = pd_step_done p"
  "pt_tsu (recorded off p) = pt_tsu p" "current_addend_full (recorded off p) = current_addend_full p"
  by (simp_all add: recorded_def window_def window_wf_def servo_part_def)

definition tracking :: "ptp \<Rightarrow> bool" where
  "tracking p \<longleftrightarrow> \<not> acq_active p \<and> (pd_step_done p \<or> \<not> pd_samples p \<ge> PD_MIN_SAMPLES)"

lemma servo_update_paths:
  "servo_update xfer v off (p, g, d) =
    (if \<bar>off\<bar> > SERVO_STEP_NS then (servo_step v (recorded off p), g, d)
     else if acq_active p then (servo_acquire off (recorded off p), g, d)
     else if \<not> tracking p then (servo_residual off (recorded off p), g, d)
     else case median_of off (recorded off p) of (f, r) \<Rightarrow>
       if locked p \<and> \<bar>f\<bar> > UNLOCK_THRESHOLD_NS * 4 then (servo_integrate f r, g, d)
       else servo_lock xfer v f (servo_apply v f (servo_integrate f r), g, d))"
proof -
  have s: "off > SERVO_STEP_NS \<or> off < - SERVO_STEP_NS \<longleftrightarrow> \<bar>off\<bar> > SERVO_STEP_NS" by (auto simp: SERVO_STEP_NS_def)
  have l: "locked (servo_integrate f r) = locked p" if "median_of off (recorded off p) = (f, r)" for f r
    using median_of_state [OF that] by (simp add: servo_integrate_def recorded_def Let_def)
  show ?thesis
    unfolding servo_update_def Let_def s prod.case recorded_def [symmetric]
    by (cases "median_of off (recorded off p)") (auto simp: l tracking_def)
qed

lemma median_in_step:
  assumes "servo_wf p" "\<bar>off\<bar> \<le> SERVO_STEP_NS" "median_of off (recorded off p) = (f, r)"
  shows "\<bar>f\<bar> \<le> SERVO_STEP_NS" "servo_wf r"
proof -
  let ?q = "recorded off p"
  have w: "window_wf ?q" "\<forall>x \<in> set (window ?q). \<bar>x\<bar> \<le> SERVO_STEP_NS" using assms(1) by (simp_all add: servo_wf_def)
  note mw = median_of_window [OF w(1) assms(3)]
  have in_band: "\<forall>x \<in> set (window r). \<bar>x\<bar> \<le> SERVO_STEP_NS" using mw(5) w(2) assms(2) by auto
  then show "\<bar>f\<bar> \<le> SERVO_STEP_NS" by (rule median_in_band [OF w(1) assms(3)])
  show "servo_wf r"
    using assms(1) mw(1) in_band by (simp add: servo_wf_def) (simp add: median_of_state [OF assms(3)] recorded_def)
qed

lemma servo_update_wf:
  assumes wf: "servo_wf p" and up: "servo_update xfer v off (p, g, d) = (p', g', d')"
  shows "servo_wf p'"
proof -
  have q: "servo_wf (recorded off p)" using wf by (rule servo_wf_cong [rotated]) simp
  obtain f r where m: "median_of off (recorded off p) = (f, r)" by fastforce
  show ?thesis
  proof (cases "\<bar>off\<bar> > SERVO_STEP_NS \<or> acq_active p \<or> \<not> tracking p")
    case True
    then show ?thesis
      using up q servo_step_wf servo_acquire_wf servo_residual_wf by (auto simp: servo_update_paths split: if_splits)
  next
    case False
    then have "\<bar>off\<bar> \<le> SERVO_STEP_NS" by simp
    note b = median_in_step [OF wf this m]
    have i: "servo_wf (servo_integrate f r)" using b(2) by (rule servo_integrate_wf)
    show ?thesis
      using False up i servo_wf_cong [OF servo_lock_part servo_apply_wf(1) [OF i b(1)]]
      by (auto simp: servo_update_paths m split: if_splits)
  qed
qed

section \<open>The handlers keep the bounds\<close>

lemma try_compute_wf:
  assumes "servo_wf p" "try_compute_offset xfer v (p, g, d) = (p', g', d')"
  shows "servo_wf p'"
proof (cases "have_t1 p \<and> have_t2 p")
  case True
  let ?q = "p\<lparr>dbg_ring := (dbg_ring p)[dbg_w p :=
      (ucast (tsec (pt1 p)), tnsec (pt1 p), ucast (tsec (pt2 p)), tnsec (pt2 p))],
    dbg_w := (dbg_w p + 1) mod DBG_N, last_t2_t1 := gptp_ts_diff_ns (pt2 p) (pt1 p), have_t2_t1 := True\<rparr>"
  obtain r h e where u: "servo_update xfer v (last_t2_t1 ?q - mean_path_delay_ns ?q) (?q, g, d) = (r, h, e)"
    by (metis prod_cases3)
  have "servo_wf ?q" using assms(1) by (rule servo_wf_cong [rotated]) (simp add: servo_part_def)
  then have "servo_wf r" using u by (rule servo_update_wf)
  then have "servo_wf (r\<lparr>have_t1 := False, have_t2 := False\<rparr>)"
    by (rule servo_wf_cong [rotated]) (simp add: servo_part_def)
  then show ?thesis using assms(2) True u by (auto simp: try_compute_offset_def Let_def)
qed (use assms in \<open>auto simp: try_compute_offset_def\<close>)

text \<open>A filter step stays between what it had and what it was given.\<close>

lemma filter_step:
  assumes "0 < (n :: int)" "0 \<le> m" "m < k" "0 \<le> x" "x < k"
  shows "0 \<le> m + (x - m) sdiv n \<and> m + (x - m) sdiv n < k"
proof -
  have b: "\<bar>(x - m) sdiv n\<bar> \<le> \<bar>x - m\<bar>" using assms(1) by (rule sdiv_bounds)
  show ?thesis
  proof (cases "m \<le> x")
    case True
    then have "0 \<le> (x - m) sdiv n" using assms(1) by (simp add: sdiv_nonneg pos_imp_zdiv_nonneg_iff)
    then show ?thesis using b assms True by auto
  next
    case False
    then have "(x - m) sdiv n = - ((m - x) sdiv n)" using sdiv_uminus [of "m - x" n] by simp
    moreover have "0 \<le> (m - x) sdiv n" using assms(1) False by (simp add: sdiv_nonneg pos_imp_zdiv_nonneg_iff)
    ultimately show ?thesis using b assms False by auto
  qed
qed

lemma path_delay_wf:
  assumes "servo_wf p" "0 \<le> x" "x < 10000000"
  shows "servo_wf (path_delay_update x p)"
proof -
  have m: "0 \<le> mean_path_delay_ns p" "mean_path_delay_ns p < 10000000" using assms(1) by (simp_all add: servo_wf_def)
  obtain n q where n: "0 < n" "servo_part q = servo_part p"
      "path_delay_update x p = q\<lparr>mean_path_delay_ns := mean_path_delay_ns p + (x - mean_path_delay_ns p) sdiv n\<rparr>"
  proof (cases "pd_samples p < PD_MIN_SAMPLES")
    case True
    then have "unat (pd_samples p) < 4" by (simp add: PD_MIN_SAMPLES_def word_less_nat_alt)
    then have "unat (pd_samples p + 1) = unat (pd_samples p) + 1" by (simp add: unat_word_ariths)
    then have pos: "0 < uint (pd_samples p + 1)" by (simp only: uint_nat)
    show ?thesis
      by (rule that [OF pos, of "p\<lparr>pd_samples := pd_samples p + 1\<rparr>"])
        (simp_all add: path_delay_update_def servo_part_def True)
  next
    case False
    show ?thesis by (rule that [of 8 p]) (simp_all add: path_delay_update_def False)
  qed
  have "servo_wf q" using n(2) assms(1) by (rule servo_wf_cong)
  moreover have "mean_path_delay_ns q = mean_path_delay_ns p" using n(2) by (simp add: servo_part_def)
  ultimately show ?thesis
    unfolding n(3) using filter_step [OF n(1) m assms(2,3)] by (simp add: servo_wf_def window_wf_def window_def)
qed

lemma matched_wf:
  assumes "servo_wf p"
  shows "servo_wf (matched_delay_resp m p)"
proof (cases "have_t2_t1 p")
  case True
  let ?x = "(last_t2_t1 p + gptp_ts_diff_ns (ts_at m HDR_LEN) (pt3 p)) sdiv 2"
  let ?y = "if ?x < 0 then 0 else ?x"
  have "\<exists>q. servo_part q = servo_part p \<and> matched_delay_resp m p =
      (if ?y < 10000000 then path_delay_update ?y q else q)\<lparr>have_t3 := False\<rparr>"
    using True by (cases "?x < 0"; cases "?x \<ge> 10000000")
      (simp_all add: matched_delay_resp_def Let_def, (rule exI, rule conjI [rotated], rule refl, simp add: servo_part_def)+)
  then obtain q where q: "servo_part q = servo_part p" "matched_delay_resp m p =
      (if ?y < 10000000 then path_delay_update ?y q else q)\<lparr>have_t3 := False\<rparr>" by blast
  have "servo_wf q" using q(1) assms by (rule servo_wf_cong)
  then have "servo_wf (if ?y < 10000000 then path_delay_update ?y q else q)" using path_delay_wf by simp
  then show ?thesis unfolding q(2) by (rule servo_wf_cong [rotated]) (simp add: servo_part_def)
next
  case False
  then show ?thesis
    using assms by (auto simp: matched_delay_resp_def Let_def servo_part_def intro: servo_wf_cong [rotated])
qed

lemma delay_resp_wf:
  assumes "servo_wf p"
  shows "servo_wf (rx_delay_resp_msg m len p)"
proof -
  have c: "servo_wf q" if "servo_part q = servo_part p" for q using assms that by (rule servo_wf_cong [rotated])
  have "servo_wf (matched_delay_resp m (p\<lparr>rx_delay_resp := rx_delay_resp p + 1\<rparr>))"
    by (rule matched_wf, rule c) (simp add: servo_part_def)
  then show ?thesis
    using assms by (auto simp: rx_delay_resp_msg_def Let_def servo_part_def intro: c)
qed

lemma part_wf: "servo_wf p \<Longrightarrow> servo_part q = servo_part p \<Longrightarrow> servo_wf q"
  by (rule servo_wf_cong)

lemma rx_sync_wf:
  assumes "servo_wf p" "rx_sync_msg xfer v m len (p, g, d) = (p', g', d')"
  shows "servo_wf p'"
proof -
  have t: "servo_wf p'" if "servo_part q = servo_part p" "try_compute_offset xfer v (q, g, d) = (p', g', d')" for q
    using try_compute_wf [OF part_wf [OF assms(1) that(1)] that(2)] .
  show ?thesis
    using assms(2) by (auto simp: rx_sync_msg_def Let_def servo_part_def split: if_splits intro: assms(1) part_wf [OF assms(1)] t [rotated])
qed

lemma rx_followup_wf:
  assumes "servo_wf p" "rx_followup_msg xfer v m len (p, g, d) = (p', g', d')"
  shows "servo_wf p'"
proof -
  have t: "servo_wf p'" if "servo_part q = servo_part p" "try_compute_offset xfer v (q, g, d) = (p', g', d')" for q
    using try_compute_wf [OF part_wf [OF assms(1) that(1)] that(2)] .
  show ?thesis
    using assms(2) by (auto simp: rx_followup_msg_def Let_def servo_part_def split: if_splits intro: assms(1) part_wf [OF assms(1)] t [rotated])
qed

lemma ptpv1_rx_wf:
  assumes "servo_wf p" "ptpv1_rx xfer v dg (p, g, d) = (p', g', d')"
  shows "servo_wf p'"
proof -
  let ?m = "ptr_of (dg_payload dg)" and ?len = "length (dg_payload dg)"
  consider "p' = p" | "rx_sync_msg xfer v ?m ?len (p, g, d) = (p', g', d')"
    | "rx_followup_msg xfer v ?m ?len (p, g, d) = (p', g', d')" | "p' = rx_delay_resp_msg ?m ?len p"
    | "p' = p\<lparr>rx_other := rx_other p + 1\<rparr>"
    using assms(2) unfolding ptpv1_rx_def Let_def prod.case by (metis fst_conv)
  then show ?thesis
  proof cases
    case 2
    with assms(1) show ?thesis by (rule rx_sync_wf)
  next
    case 3
    with assms(1) show ?thesis by (rule rx_followup_wf)
  next
    case 4
    then show ?thesis using delay_resp_wf [OF assms(1)] by simp
  next
    case 5
    then show ?thesis using part_wf [OF assms(1)] by (simp add: servo_part_def)
  qed (use assms in simp)
qed

lemma poll_part: "servo_part (fst (ptpv1_poll v p nt)) = servo_part p"
proof -
  have s: "servo_part (fst (send_delay_req v q n)) = servo_part q" for q n
    by (simp add: send_delay_req_def Let_def split_beta servo_part_def)
  have u: "servo_part (fst (ptp_dump v q n)) = servo_part q" for q n
    by (simp add: ptp_dump_def Let_def split_beta servo_part_def)
  have k: "servo_part (q\<lparr>next_delay_req_ms := t\<rparr>) = servo_part q" for q t by (simp add: servo_part_def)
  show ?thesis unfolding ptpv1_poll_def Let_def by (simp add: split_beta s u k)
qed

text \<open>The module's operations as steps.\<close>

inductive ptp_step :: "'d spi \<Rightarrow> ptp \<times> cfg \<times> 'd \<Rightarrow> ptp \<times> cfg \<times> 'd \<Rightarrow> bool" for xfer where
  rx: "ptp_step xfer c (ptpv1_rx xfer v dg c)"
| probe: "ptp_step xfer (p, g, d) (probe_rx v dg p, g, d)"
| poll: "ptp_step xfer (p, g, d) (fst (ptpv1_poll v p nt), g, d)"
| tune: "\<bar>ki\<bar> \<le> 2147483648 \<Longrightarrow> ptp_step xfer (p, g, d) (ptpv1_set_tuning n ki exact p, g, d)"

inductive_cases ptp_stepE: "ptp_step xfer (p, g, d) c"

lemma tuning_wf: "servo_wf p \<Longrightarrow> \<bar>ki\<bar> \<le> 2147483648 \<Longrightarrow> servo_wf (ptpv1_set_tuning n ki exact p)"
  by (auto simp: servo_wf_def window_wf_def ptpv1_set_tuning_def Let_def servo_consts abs_mult)

lemma ptp_step_wf: "ptp_step xfer (p, g, d) (p', g', d') \<Longrightarrow> servo_wf p \<Longrightarrow> servo_wf p'"
proof (erule ptp_stepE)
  fix v dg assume "servo_wf p" "(p', g', d') = ptpv1_rx xfer v dg (p, g, d)"
  then show "servo_wf p'" by (metis ptpv1_rx_wf)
next
  fix v dg assume "servo_wf p" "(p', g', d') = (probe_rx v dg p, g, d)"
  then show "servo_wf p'" by (auto simp: probe_rx_def servo_part_def intro: part_wf)
next
  fix v nt assume "servo_wf p" "(p', g', d') = (fst (ptpv1_poll v p nt), g, d)"
  then show "servo_wf p'" using part_wf [OF _ poll_part] by blast
next
  fix ki n exact assume "servo_wf p" "\<bar>ki\<bar> \<le> 2147483648" "(p', g', d') = (ptpv1_set_tuning n ki exact p, g, d)"
  then show "servo_wf p'" using tuning_wf by blast
qed

lemma ptp_run_wf: "(ptp_step xfer)\<^sup>*\<^sup>* c c' \<Longrightarrow> servo_wf (fst c) \<Longrightarrow> servo_wf (fst c')"
proof (induction rule: rtranclp_induct)
  case (step b c)
  then show ?case using ptp_step_wf [of xfer "fst b" "fst (snd b)" "snd (snd b)"] by (metis prod.collapse)
qed

text \<open>What a warm start seeds.\<close>

lemma warm_addend_Some: "warm_addend g = Some w \<Longrightarrow> \<bar>w - nominal_addend\<bar> < 18014 \<and> w = sint (cf_ptp_addend_full g)"
  by (auto simp: warm_addend_def Let_def nominal_addend_value signed_divide_int_def split: if_splits)

lemma trunc_there_and_back:
  fixes x :: int
  assumes "\<bar>x\<bar> < 18014"
  defines "k \<equiv> (x * 1000000000) sdiv 90071993"
  shows "\<bar>k\<bar> \<le> 200000" "\<bar>(k * 90071993) sdiv 1000000000 - x\<bar> \<le> 1"
proof -
  show "\<bar>k\<bar> \<le> 200000"
    unfolding k_def by (rule sdiv_abs_le) (use assms(1) in \<open>auto simp: abs_mult\<close>)
  define y where "y = \<bar>x\<bar> * 1000000000 div 90071993"
  have k: "k = sgn x * y" by (simp add: k_def y_def signed_divide_int_def sgn_mult abs_mult)
  have y0: "0 \<le> y" by (simp add: y_def pos_imp_zdiv_nonneg_iff)
  have "z div 90071993 * 90071993 \<le> z" "z < z div 90071993 * 90071993 + 90071993" for z :: int
    using mult_div_mod_eq [of 90071993 z] pos_mod_bound [of 90071993 z] pos_mod_sign [of 90071993 z] by linarith+
  then have d: "y * 90071993 \<le> \<bar>x\<bar> * 1000000000" "\<bar>x\<bar> * 1000000000 < y * 90071993 + 90071993" unfolding y_def by blast+
  then have d: "y * 90071993 \<le> \<bar>x\<bar> * 1000000000" "(\<bar>x\<bar> - 1) * 1000000000 \<le> y * 90071993" by simp_all
  have q: "(y * 90071993) div 1000000000 \<le> \<bar>x\<bar>" "\<bar>x\<bar> - 1 \<le> (y * 90071993) div 1000000000"
    using zdiv_mono1 [OF d(1), of 1000000000] zdiv_mono1 [OF d(2), of 1000000000] by simp_all
  have "(k * 90071993) sdiv 1000000000 = sgn x * ((y * 90071993) div 1000000000)"
  proof (cases "0 \<le> x")
    case True
    then show ?thesis using y0 by (cases "x = 0") (simp_all add: k sdiv_nonneg y_def)
  next
    case False
    then show ?thesis using y0 sdiv_uminus [of "y * 90071993" 1000000000] by (simp add: k sdiv_nonneg)
  qed
  then show "\<bar>(k * 90071993) sdiv 1000000000 - x\<bar> \<le> 1" using q by (auto simp: sgn_if)
qed

lemma warm_integral:
  assumes "\<bar>w - nominal_addend\<bar> < 18014"
  shows "\<bar>((w - nominal_addend) * 1000000000) sdiv nominal_addend\<bar> \<le> 200000"
    "\<bar>addend_of nominal_addend (((w - nominal_addend) * 1000000000) sdiv nominal_addend) - w\<bar> \<le> 1"
proof -
  define x where "x = w - nominal_addend"
  have x: "\<bar>x\<bar> < 18014" "w = 90071993 + x" using assms by (simp_all add: x_def nominal_addend_value)
  note t = trunc_there_and_back [OF x(1)]
  show "\<bar>((w - nominal_addend) * 1000000000) sdiv nominal_addend\<bar> \<le> 200000"
    using t(1) unfolding x_def [symmetric] by (simp only: nominal_addend_value)
  have "\<bar>addend_of 90071993 ((x * 1000000000) sdiv 90071993) - w\<bar> \<le> 1"
    using t(2) x unfolding addend_of_def Let_def by auto
  then show "\<bar>addend_of nominal_addend (((w - nominal_addend) * 1000000000) sdiv nominal_addend) - w\<bar> \<le> 1"
    unfolding x_def [symmetric] by (simp only: nominal_addend_value)
qed

lemma start_wf:
  assumes "window_wf p" "median_count p = 0" "freq_integral p = 0" "freq_integral_num p = 0" "\<bar>rt_ki_num p\<bar> \<le> 2147483648"
  shows "servo_wf (ptpv1_start mac g p)"
proof (cases "warm_addend g")
  case None
  then show ?thesis
    using assms by (auto simp: ptpv1_start_def servo_wf_def window_wf_def Let_def servo_consts nominal_addend_value)
next
  case (Some w)
  have w: "\<bar>w - nominal_addend\<bar> < 18014" using warm_addend_Some [OF Some] by blast
  show ?thesis
    using Some assms w warm_integral(1) [OF w]
    by (auto simp: ptpv1_start_def servo_wf_def window_wf_def window_def Let_def servo_consts set_rate_def abs_mult
        nominal_addend_value)
qed

end
