(* ===== verification/Ptpv1_Claims.thy ===== *)
theory Ptpv1_Claims
  imports Ptpv1_Servo Cap_Serve
begin

text \<open>
  Locking, losing lock and warm start of the PTP slave, over runs of servo updates; which
  messages steer the clock; the DelayReq on the wire; and the properties.
\<close>

section \<open>What an update leaves alone\<close>

definition mode_part :: "ptp \<Rightarrow> bool \<times> bool \<times> u32 \<times> u32" where
  "mode_part p = (acq_active p, pd_step_done p, pd_samples p, first_sync_ms p)"

lemma integrate_frame:
  "mode_part (servo_integrate f p) = mode_part p" "window (servo_integrate f p) = window p"
  "window_wf (servo_integrate f p) = window_wf p" "locked (servo_integrate f p) = locked p"
  "lock_streak (servo_integrate f p) = lock_streak p" "unlock_streak (servo_integrate f p) = unlock_streak p"
  "pt_tsu (servo_integrate f p) = pt_tsu p" "current_addend_full (servo_integrate f p) = current_addend_full p"
  by (simp_all add: servo_integrate_def mode_part_def window_def window_wf_def Let_def)

lemma apply_frame:
  "mode_part (servo_apply v f p) = mode_part p" "window (servo_apply v f p) = window p"
  "window_wf (servo_apply v f p) = window_wf p" "locked (servo_apply v f p) = locked p"
  "lock_streak (servo_apply v f p) = lock_streak p" "unlock_streak (servo_apply v f p) = unlock_streak p"
  by (simp_all add: servo_apply_def Let_def pt_push_def set_rate_def mode_part_def window_def window_wf_def)

lemma median_frame:
  assumes "median_of off (recorded off p) = (f, r)"
  shows "mode_part r = mode_part p" "locked r = locked p" "lock_streak r = lock_streak p"
    "unlock_streak r = unlock_streak p" "pt_tsu r = pt_tsu p" "current_addend_full r = current_addend_full p"
  using median_of_state [OF assms] by (simp_all add: mode_part_def recorded_def)

lemma lock_frame:
  assumes "servo_lock xfer v f (p, g, d) = (p', g', d')"
  shows "mode_part p' = mode_part p \<and> window p' = window p \<and> window_wf p' = window_wf p \<and>
    current_addend_full p' = current_addend_full p"
  using servo_lock_part [OF assms] assms
  by (auto simp: servo_lock_def Let_def servo_part_def mode_part_def window_def window_wf_def pt_event_def pt_push_def
      split: if_splits prod.splits)

lemma tracking_mode: "mode_part q = mode_part p \<Longrightarrow> tracking q = tracking p"
  by (simp add: mode_part_def tracking_def)

text \<open>An update while tracking.\<close>

lemma tracking_update:
  assumes "tracking p" "\<bar>off\<bar> \<le> SERVO_STEP_NS" "window_wf p" "servo_update xfer v off (p, g, d) = (p', g', d')"
  obtains f r where "median_of off (recorded off p) = (f, r)" "f \<in> set (window r)"
    "set (window r) \<subseteq> insert off (set (window p))" "window p' = window r" "window_wf p'"
    "mode_part p' = mode_part p"
    "locked p \<and> \<bar>f\<bar> > UNLOCK_THRESHOLD_NS * 4 \<and> (p', g', d') = (servo_integrate f r, g, d) \<or>
     \<not> (locked p \<and> \<bar>f\<bar> > UNLOCK_THRESHOLD_NS * 4) \<and>
       servo_lock xfer v f (servo_apply v f (servo_integrate f r), g, d) = (p', g', d')"
proof -
  obtain f r where m: "median_of off (recorded off p) = (f, r)" by fastforce
  have w: "window_wf (recorded off p)" using assms(3) by simp
  note mw = median_of_window [OF w m]
  have "f \<in> set (window r)"
    using mw(3,4) nth_mem [of "length (window r) div 2" "sort (window r)"] by (simp add: Euclidean_Rings.div_less_dividend)
  moreover have b: "locked p \<and> \<bar>f\<bar> > UNLOCK_THRESHOLD_NS * 4 \<and> (p', g', d') = (servo_integrate f r, g, d) \<or>
     \<not> (locked p \<and> \<bar>f\<bar> > UNLOCK_THRESHOLD_NS * 4) \<and>
       servo_lock xfer v f (servo_apply v f (servo_integrate f r), g, d) = (p', g', d')"
    using assms(1,2,4) unfolding servo_update_paths m by (auto simp: tracking_def split: if_splits)
  moreover have "window p' = window r \<and> window_wf p' \<and> mode_part p' = mode_part p"
    using b lock_frame [of xfer v f "servo_apply v f (servo_integrate f r)" g d p' g' d'] mw(1) median_frame(1) [OF m]
    by (auto simp: integrate_frame apply_frame)
  ultimately show thesis using m mw(5) by (intro that [of f r]) simp_all
qed

section \<open>Runs of updates\<close>

definition servo_run :: "'d spi \<Rightarrow> (ptp_view \<times> int) list \<Rightarrow> ptp \<times> cfg \<times> 'd \<Rightarrow> ptp \<times> cfg \<times> 'd" where
  "servo_run xfer us c = foldl (\<lambda>c (v, off). servo_update xfer v off c) c us"

lemma servo_run_simps [simp]:
  "servo_run xfer [] c = c" "servo_run xfer ((v, off) # us) c = servo_run xfer us (servo_update xfer v off c)"
  by (simp_all add: servo_run_def)

lemma servo_run_snoc: "servo_run xfer (us @ [(v, off)]) c = servo_update xfer v off (servo_run xfer us c)"
  by (simp add: servo_run_def)

text \<open>No update locks before the eighth good sample.\<close>

lemma lock_streak_step:
  assumes "\<not> locked p" "unat (lock_streak p) < 7" "servo_update xfer v off (p, g, d) = (p', g', d')"
  shows "\<not> locked p' \<and> unat (lock_streak p') \<le> unat (lock_streak p) + 1"
proof -
  have l: "\<not> locked q' \<and> unat (lock_streak q') \<le> unat (lock_streak q) + 1"
    if "\<not> locked q" "unat (lock_streak q) < 7" "servo_lock xfer v f (q, g, d) = (q', g', d')" for q f q'
  proof -
    have u: "unat (lock_streak q + 1) = unat (lock_streak q) + 1" using that(2) by (simp add: unat_word_ariths)
    then have "\<not> lock_streak q + 1 \<ge> LOCK_STREAK" using that(2) by (simp add: LOCK_STREAK_def word_le_nat_alt)
    then show ?thesis
      using that(1,3) u by (auto simp: servo_lock_def Let_def split: if_splits)
  qed
  obtain f r where m: "median_of off (recorded off p) = (f, r)" by fastforce
  show ?thesis
  proof (cases "\<bar>off\<bar> > SERVO_STEP_NS \<or> acq_active p \<or> \<not> tracking p")
    case True
    then show ?thesis
      using assms by (auto simp: servo_update_paths servo_step_def servo_acquire_def servo_residual_def Let_def
          set_rate_def split: if_splits)
  next
    case False
    then have "servo_lock xfer v f (servo_apply v f (servo_integrate f r), g, d) = (p', g', d')"
      using assms(1,3) by (simp add: servo_update_paths m)
    from l [OF _ _ this] show ?thesis
      using assms(1,2) median_frame(2,3) [OF m] by (simp add: apply_frame integrate_frame)
  qed
qed

lemma lock_streak_run:
  assumes "\<not> locked p" "unat (lock_streak p) + length us \<le> 7" "servo_run xfer us (p, g, d) = (p', g', d')"
  shows "\<not> locked p' \<and> unat (lock_streak p') \<le> unat (lock_streak p) + length us"
  using assms
proof (induction us arbitrary: p g d)
  case (Cons u us)
  obtain v off where [simp]: "u = (v, off)" by fastforce
  obtain q h e where q: "servo_update xfer v off (p, g, d) = (q, h, e)" by (metis prod_cases3)
  have s: "\<not> locked q \<and> unat (lock_streak q) \<le> unat (lock_streak p) + 1"
    using Cons.prems(1,2) by (intro lock_streak_step [OF _ _ q]) simp_all
  have "\<not> locked p' \<and> unat (lock_streak p') \<le> unat (lock_streak q) + length us"
    using Cons.prems q s by (intro Cons.IH [of q h e]) simp_all
  then show ?case using s by simp
qed simp

text \<open>A good sample counts, with the path delay known.\<close>

lemma store_addend_cong:
  "current_addend_full p = current_addend_full q \<Longrightarrow> store_addend xfer p g d = store_addend xfer q g d"
  by (simp add: store_addend_def)

lemma lock_good:
  assumes "\<bar>f\<bar> < LOCK_THRESHOLD_NS" "delay_known v q"
  shows "servo_lock xfer v f (q, g, d) =
    (let t = q\<lparr>unlock_streak := 0, lock_streak := lock_streak q + 1\<rparr> in
     if lock_streak q + 1 \<ge> LOCK_STREAK \<and> \<not> locked q
     then (pt_event TELEM_E_PTP_LOCK f (mean_path_delay_ns q) (pv_now v) (t\<lparr>locked := True\<rparr>), store_addend xfer q g d)
     else (t, g, d))"
proof -
  have "store_addend xfer (pt_event TELEM_E_PTP_LOCK f m n (q\<lparr>unlock_streak := 0, lock_streak := k, locked := True\<rparr>)) g d =
      store_addend xfer q g d" for k m n
    by (rule store_addend_cong) (simp add: pt_event_def)
  then show ?thesis using assms by (simp add: servo_lock_def Let_def split: prod.split)
qed

definition settled_servo :: "ptp \<Rightarrow> bool" where
  "settled_servo p \<longleftrightarrow> \<not> acq_active p \<and> pd_step_done p \<and> pd_samples p \<ge> PD_MIN_SAMPLES \<and> window_wf p \<and>
     (\<forall>x \<in> set (window p). \<bar>x\<bar> < LOCK_THRESHOLD_NS)"

lemma good_step:
  assumes "settled_servo p" "\<bar>off\<bar> < LOCK_THRESHOLD_NS" "unat (lock_streak p) < 100"
    and "servo_update xfer v off (p, g, d) = (p', g', d')"
  shows "settled_servo p'" "unat (lock_streak p') = unat (lock_streak p) + 1"
    "locked p' \<longleftrightarrow> locked p \<or> unat (lock_streak p') \<ge> 8"
    "\<not> locked p \<Longrightarrow> locked p' \<Longrightarrow> cf_ptp_addend_valid g' \<noteq> 0 \<and> cf_ptp_addend_full g' = of_int (current_addend_full p')"
proof -
  have pre: "tracking p" "\<bar>off\<bar> \<le> SERVO_STEP_NS" "window_wf p"
    using assms(1,2) by (auto simp: settled_servo_def tracking_def LOCK_THRESHOLD_NS_def SERVO_STEP_NS_def)
  obtain f r where t: "median_of off (recorded off p) = (f, r)" "f \<in> set (window r)"
    "set (window r) \<subseteq> insert off (set (window p))" "window p' = window r" "window_wf p'" "mode_part p' = mode_part p"
    "locked p \<and> \<bar>f\<bar> > UNLOCK_THRESHOLD_NS * 4 \<and> (p', g', d') = (servo_integrate f r, g, d) \<or>
     \<not> (locked p \<and> \<bar>f\<bar> > UNLOCK_THRESHOLD_NS * 4) \<and>
       servo_lock xfer v f (servo_apply v f (servo_integrate f r), g, d) = (p', g', d')"
    by (rule tracking_update [OF pre assms(4)])
  have w: "\<forall>x \<in> set (window r). \<bar>x\<bar> < LOCK_THRESHOLD_NS" using assms(1,2) t(3) by (auto simp: settled_servo_def)
  then have f: "\<bar>f\<bar> < LOCK_THRESHOLD_NS" using t(2) by blast
  then have "\<not> \<bar>f\<bar> > UNLOCK_THRESHOLD_NS * 4" by (simp add: LOCK_THRESHOLD_NS_def UNLOCK_THRESHOLD_NS_def)
  then have l: "servo_lock xfer v f (servo_apply v f (servo_integrate f r), g, d) = (p', g', d')" using t(7) by blast
  let ?q = "servo_apply v f (servo_integrate f r)"
  have k: "lock_streak ?q = lock_streak p" "locked ?q = locked p" "mode_part ?q = mode_part p"
    using median_frame [OF t(1)] by (simp_all add: apply_frame integrate_frame)
  have dk: "delay_known v ?q" using assms(1) k(3) by (simp add: delay_known_def settled_servo_def mode_part_def)
  have u: "unat (lock_streak p + 1) = unat (lock_streak p) + 1" using assms(3) by (simp add: unat_word_ariths)
  have c: "lock_streak p + 1 \<ge> LOCK_STREAK \<longleftrightarrow> unat (lock_streak p) + 1 \<ge> 8"
    by (simp add: LOCK_STREAK_def word_le_nat_alt u)
  show "settled_servo p'" using assms(1) t(4-6) w by (simp add: settled_servo_def mode_part_def)
  have b: "lock_streak p' = lock_streak p + 1 \<and> (locked p' \<longleftrightarrow> locked p \<or> lock_streak p + 1 \<ge> LOCK_STREAK) \<and>
      (\<not> locked p \<longrightarrow> locked p' \<longrightarrow> store_addend xfer p' g d = (g', d'))"
  proof (cases "lock_streak p + 1 \<ge> LOCK_STREAK \<and> \<not> locked p")
    case True
    then have "p' = pt_event TELEM_E_PTP_LOCK f (mean_path_delay_ns ?q) (pv_now v)
        (?q\<lparr>unlock_streak := 0, lock_streak := lock_streak p + 1, locked := True\<rparr>)" "store_addend xfer ?q g d = (g', d')"
      using l unfolding lock_good [OF f dk] by (simp_all add: k Let_def)
    moreover from this(1) have "store_addend xfer p' g d = store_addend xfer ?q g d"
      by (intro store_addend_cong) (simp add: pt_event_def)
    ultimately show ?thesis using True by (simp add: pt_event_def)
  next
    case False
    then have "p' = ?q\<lparr>unlock_streak := 0, lock_streak := lock_streak p + 1\<rparr>"
      using l unfolding lock_good [OF f dk] by (auto simp add: k Let_def)
    then show ?thesis using False k by auto
  qed
  then show "unat (lock_streak p') = unat (lock_streak p) + 1" "locked p' \<longleftrightarrow> locked p \<or> unat (lock_streak p') \<ge> 8"
    using u c by auto
  assume "\<not> locked p" "locked p'"
  with b have "store_addend xfer p' g d = (g', d')" by blast
  then show "cf_ptp_addend_valid g' \<noteq> 0 \<and> cf_ptp_addend_full g' = of_int (current_addend_full p')"
    by (auto simp: store_addend_def cfg_save_def cfg_seal_def Let_def split: if_splits)
qed

lemma good_run:
  assumes "settled_servo p" "\<forall>(v, off) \<in> set us. \<bar>off\<bar> < LOCK_THRESHOLD_NS" "unat (lock_streak p) + length us \<le> 100"
    "servo_run xfer us (p, g, d) = (p', g', d')"
  shows "settled_servo p' \<and> unat (lock_streak p') = unat (lock_streak p) + length us \<and>
    (locked p' \<longleftrightarrow> locked p \<or> (us \<noteq> [] \<and> unat (lock_streak p) + length us \<ge> 8))"
  using assms
proof (induction us arbitrary: p g d)
  case (Cons u us)
  obtain v off where [simp]: "u = (v, off)" by fastforce
  obtain q h e where q: "servo_update xfer v off (p, g, d) = (q, h, e)" by (metis prod_cases3)
  have "\<bar>off\<bar> < LOCK_THRESHOLD_NS" "unat (lock_streak p) < 100" using Cons.prems(2,3) by simp_all
  note s = good_step(1-3) [OF Cons.prems(1) this q]
  have "settled_servo p' \<and> unat (lock_streak p') = unat (lock_streak q) + length us \<and>
      (locked p' \<longleftrightarrow> locked q \<or> (us \<noteq> [] \<and> unat (lock_streak q) + length us \<ge> 8))"
    using Cons.prems q s by (intro Cons.IH [of q h e]) simp_all
  then show ?case using s by auto
qed simp

section \<open>A locked servo and a far offset\<close>

definition far :: "int \<Rightarrow> bool" where
  "far x \<longleftrightarrow> 4 * UNLOCK_THRESHOLD_NS < \<bar>x\<bar> \<and> \<bar>x\<bar> \<le> SERVO_STEP_NS"

lemma far_step:
  assumes "tracking p" "window_wf p" "locked p" "\<forall>x \<in> set (window p). \<bar>x\<bar> < LOCK_THRESHOLD_NS \<or> far x" "far off"
    and "servo_update xfer v off (p, g, d) = (p', g', d')"
  shows "tracking p' \<and> window_wf p' \<and> locked p' \<and> (\<forall>x \<in> set (window p'). \<bar>x\<bar> < LOCK_THRESHOLD_NS \<or> far x)"
    "\<forall>x \<in> set (window p). far x \<Longrightarrow> (\<forall>x \<in> set (window p'). far x) \<and> pt_tsu p' = pt_tsu p \<and>
      current_addend_full p' = current_addend_full p \<and> unlock_streak p' = unlock_streak p"
proof -
  have "\<bar>off\<bar> \<le> SERVO_STEP_NS" using assms(5) by (simp add: far_def)
  from assms(1) this assms(2,6) obtain f r where t: "median_of off (recorded off p) = (f, r)" "f \<in> set (window r)"
    "set (window r) \<subseteq> insert off (set (window p))" "window p' = window r" "window_wf p'" "mode_part p' = mode_part p"
    "locked p \<and> \<bar>f\<bar> > UNLOCK_THRESHOLD_NS * 4 \<and> (p', g', d') = (servo_integrate f r, g, d) \<or>
     \<not> (locked p \<and> \<bar>f\<bar> > UNLOCK_THRESHOLD_NS * 4) \<and>
       servo_lock xfer v f (servo_apply v f (servo_integrate f r), g, d) = (p', g', d')"
    by (rule tracking_update)
  have w: "\<forall>x \<in> set (window r). \<bar>x\<bar> < LOCK_THRESHOLD_NS \<or> far x" using t(3) assms(4,5) by auto
  have l: "locked p'"
  proof (cases "far f")
    case True
    then have "p' = servo_integrate f r" using t(7) assms(3) by (auto simp: far_def UNLOCK_THRESHOLD_NS_def)
    then show ?thesis using median_frame(2) [OF t(1)] assms(3) by (simp add: integrate_frame)
  next
    case False
    then have f: "\<bar>f\<bar> < LOCK_THRESHOLD_NS" using w t(2) by blast
    then have sl: "servo_lock xfer v f (servo_apply v f (servo_integrate f r), g, d) = (p', g', d')"
      using t(7) by (auto simp: LOCK_THRESHOLD_NS_def UNLOCK_THRESHOLD_NS_def)
    have q: "locked (servo_apply v f (servo_integrate f r))"
      using median_frame(2) [OF t(1)] assms(3) by (simp add: integrate_frame apply_frame)
    have "\<not> \<bar>f\<bar> > UNLOCK_THRESHOLD_NS" using f by (simp add: LOCK_THRESHOLD_NS_def UNLOCK_THRESHOLD_NS_def)
    then show ?thesis using sl q by (auto simp: servo_lock_def Let_def split: if_splits)
  qed
  have "tracking p'" using tracking_mode [OF t(6)] assms(1) by blast
  then show "tracking p' \<and> window_wf p' \<and> locked p' \<and> (\<forall>x \<in> set (window p'). \<bar>x\<bar> < LOCK_THRESHOLD_NS \<or> far x)"
    unfolding t(4) using t(5) l w by blast
  assume a: "\<forall>x \<in> set (window p). far x"
  then have far: "\<forall>x \<in> set (window r). far x" using t(3) assms(5) by auto
  then have "p' = servo_integrate f r" using t(2,7) assms(3) by (auto simp: far_def UNLOCK_THRESHOLD_NS_def)
  then show "(\<forall>x \<in> set (window p'). far x) \<and> pt_tsu p' = pt_tsu p \<and>
      current_addend_full p' = current_addend_full p \<and> unlock_streak p' = unlock_streak p"
    using far t(4) median_frame [OF t(1)] by (simp add: integrate_frame)
qed

lemma far_run:
  assumes "tracking p" "window_wf p" "locked p" "\<forall>x \<in> set (window p). \<bar>x\<bar> < LOCK_THRESHOLD_NS \<or> far x"
    "\<forall>(v, off) \<in> set us. far off" "servo_run xfer us (p, g, d) = (p', g', d')"
  shows "locked p' \<and> ((\<forall>x \<in> set (window p). far x) \<longrightarrow> pt_tsu p' = pt_tsu p \<and>
      current_addend_full p' = current_addend_full p \<and> unlock_streak p' = unlock_streak p)"
  using assms
proof (induction us arbitrary: p g d)
  case (Cons u us)
  obtain v off where [simp]: "u = (v, off)" by fastforce
  obtain q h e where q: "servo_update xfer v off (p, g, d) = (q, h, e)" by (metis prod_cases3)
  have "far off" using Cons.prems(5) by simp
  note s = far_step [OF Cons.prems(1-4) this q]
  have "locked p' \<and> ((\<forall>x \<in> set (window q). far x) \<longrightarrow> pt_tsu p' = pt_tsu q \<and>
      current_addend_full p' = current_addend_full q \<and> unlock_streak p' = unlock_streak q)"
    using Cons.prems(5,6) q s(1) by (intro Cons.IH [of q h e]) auto
  then show ?case using s(2) by auto
qed simp

section \<open>Which messages steer\<close>

lemma uuid_eq_iff: "uuid_eq a b \<longleftrightarrow> a = b"
proof (cases a, cases b)
  fix a0 a1 a2 a3 a4 a5 b0 b1 b2 b3 b4 b5
  assume "a = (a0, a1, a2, a3, a4, a5)" "b = (b0, b1, b2, b3, b4, b5)"
  moreover have "x XOR y = 0 \<longleftrightarrow> x = y" for x y :: u8
    by (auto simp: bit_eq_iff bit_simps)
  ultimately show ?thesis by (simp add: uuid_eq_def or_eq_0_iff)
qed

lemma delay_resp_tsu: "pt_tsu (rx_delay_resp_msg m len p) = pt_tsu p"
proof -
  have u: "pt_tsu (path_delay_update x q) = pt_tsu q" for x q by (simp add: path_delay_update_def Let_def)
  have "pt_tsu (matched_delay_resp m q) = pt_tsu q" for q
    unfolding matched_delay_resp_def Let_def by (auto simp: u)
  then show ?thesis unfolding rx_delay_resp_msg_def Let_def by (auto split: if_splits)
qed

lemma try_compute_tsu:
  "try_compute_offset xfer v (p, g, d) = (p', g', d') \<Longrightarrow> pt_tsu p' \<noteq> pt_tsu p \<Longrightarrow> have_t1 p \<and> have_t2 p"
  by (cases "have_t1 p \<and> have_t2 p") (auto simp: try_compute_offset_def)

lemma step_moves: "gptp_step_time before t u \<noteq> u"
proof -
  have "tsu_cmds (gptp_step_time before t u) \<noteq> tsu_cmds u" by (simp add: gptp_step_time_def Let_def)
  then show ?thesis by metis
qed

lemma far_steps:
  assumes "have_t1 p" "have_t2 p" "SERVO_STEP_NS < \<bar>gptp_ts_diff_ns (pt2 p) (pt1 p) - mean_path_delay_ns p\<bar>"
    and "try_compute_offset xfer v (p, g, d) = (p', g', d')"
  shows "pt_tsu p' \<noteq> pt_tsu p"
  using assms by (auto simp: try_compute_offset_def servo_update_paths servo_step_def step_moves recorded_def Let_def)

lemma sync_tsu:
  assumes "rx_sync_msg xfer v m len (p, g, d) = (p', g', d')" "pt_tsu p' \<noteq> pt_tsu p"
  shows "m 35 AND FLAG_PTP_ASSIST = 0"
  using assms by (auto simp: rx_sync_msg_def Let_def split: if_splits)

text \<open>A Sync that carries its own time goes to the servo with both times held.\<close>

lemma one_step_sync:
  assumes "m 35 AND FLAG_PTP_ASSIST = 0" "48 \<le> len" "rx_sync_msg xfer v m len (p, g, d) = (p', g', d')"
  obtains q where "try_compute_offset xfer v (q, g, d) = (p', g', d')" "have_t1 q" "have_t2 q"
    "pt1 q = ts_at m HDR_LEN" "pt2 q = pv_rx_ts v" "mean_path_delay_ns q = mean_path_delay_ns p" "pt_tsu q = pt_tsu p"
proof -
  have "\<not> len - HDR_LEN < 8" using assms(2) by (simp add: HDR_LEN_def)
  then show thesis
    using assms(1,3) by (cases "first_sync_ms p = 0") (auto simp: rx_sync_msg_def Let_def intro: that)
qed

lemma followup_tsu:
  assumes "rx_followup_msg xfer v m len (p, g, d) = (p', g', d')" "pt_tsu p' \<noteq> pt_tsu p"
  shows "awaiting_followup p \<and> rd16 m (HDR_LEN + 2) = pending_sync_seq p \<and> have_t2 p"
proof -
  let ?q = "p\<lparr>rx_followup := rx_followup p + 1, pt1 := ts_at m (HDR_LEN + 4), have_t1 := True, awaiting_followup := False\<rparr>"
  have "awaiting_followup p \<and> rd16 m (HDR_LEN + 2) = pending_sync_seq p \<and>
      try_compute_offset xfer v (?q, g, d) = (p', g', d')"
    using assms by (auto simp: rx_followup_msg_def Let_def split: if_splits)
  moreover from this have "have_t1 ?q \<and> have_t2 ?q" using assms(2) by (intro try_compute_tsu) auto
  ultimately show ?thesis by simp
qed

section \<open>The DelayReq on the wire\<close>

definition delay_req_msg :: "ptp \<Rightarrow> u8 list" where
  "delay_req_msg p = put_header (our_uuid p) CTRL_DELAY_REQ PORT_TYPE_EVENT (delay_req_seq p) @ replicate SYNC_BODY_LEN 0"

lemma put_header_bytes:
  "put_header (a, b, c, e, f, k) ctrl typ seq =
    [0, 1, 0, 1, 0x5F, 0x44, 0x46, 0x4C, 0x54, 0, 0, 0, 0, 0, 0, 0, 0, 0, 0, 0, typ, 1, a, b, c, e, f, k, 0, 1] @
    be16 seq @ [ctrl, 0, 0, 0, 0, 0, 0, 0]"
proof -
  have z: "replicate HDR_LEN (0 :: u8) = [0, 0, 0, 0, 0, 0, 0, 0, 0, 0, 0, 0, 0, 0, 0, 0, 0, 0, 0, 0, 0, 0, 0, 0, 0, 0, 0, 0, 0,
      0, 0, 0, 0, 0, 0, 0, 0, 0, 0, 0]"
    by (simp add: HDR_LEN_def numeral_eq_Suc)
  show ?thesis by (simp add: put_header_def z Let_def be16_def put_skip_Cons put_0)
qed

lemma delay_req_fields:
  "length (delay_req_msg p) = 124" "header_ok (ptr_of (delay_req_msg p)) 124" "ptr_of (delay_req_msg p) 32 = CTRL_DELAY_REQ"
  "mac_at (ptr_of (delay_req_msg p)) 22 = our_uuid p" "rd16 (ptr_of (delay_req_msg p)) 28 = 1"
  "rd16 (ptr_of (delay_req_msg p)) 30 = delay_req_seq p"
proof -
  obtain a b c e f k where u: "our_uuid p = (a, b, c, e, f, k)" by (cases "our_uuid p") auto
  have l: "delay_req_msg p = [0, 1, 0, 1, 0x5F, 0x44, 0x46, 0x4C, 0x54, 0, 0, 0, 0, 0, 0, 0, 0, 0, 0, 0, PORT_TYPE_EVENT, 1, a, b, c, e, f, k, 0, 1] @
      be16 (delay_req_seq p) @ [CTRL_DELAY_REQ, 0, 0, 0, 0, 0, 0, 0] @ replicate 84 0"
    by (simp only: delay_req_msg_def u put_header_bytes SYNC_BODY_LEN_def append_assoc)
  show "length (delay_req_msg p) = 124" by (simp add: l)
  show "header_ok (ptr_of (delay_req_msg p)) 124" "ptr_of (delay_req_msg p) 32 = CTRL_DELAY_REQ"
    "mac_at (ptr_of (delay_req_msg p)) 22 = our_uuid p" "rd16 (ptr_of (delay_req_msg p)) 28 = 1"
    by (simp_all add: l header_ok_def HDR_LEN_def ptr_of_def rd16_def mac_at_def u be16_def)
  show "rd16 (ptr_of (delay_req_msg p)) 30 = delay_req_seq p"
    by (rule rd16_be16) (simp_all add: l ptr_of_def be16_def)
qed

lemma send_delay_req_ok:
  assumes "tx_wf nt" "send_delay_req v p nt = (p', nt')"
  shows "\<exists>F. wire nt' = wire nt @ [F] \<and> carries PTP_EVENT_PORT F (delay_req_msg p)"
    "p' = p\<lparr>pt3 := pv_tx_ts v, have_t3 := True, tx_delay_req := tx_delay_req p + 1, delay_req_seq := delay_req_seq p + 1\<rparr>"
proof -
  have arp: "net_arp_lookup ptp_group nt = (Some (net_mcast_mac ptp_group), nt)"
    by (simp add: net_arp_lookup_def ptp_group_def)
  obtain s' where c: "net_udp_commit ptp_group PTP_EVENT_PORT PTP_EVENT_PORT (length (delay_req_msg p)) NET_TOS_PTP
      (payload_put 0 (delay_req_msg p) nt) = (0, s')" "\<exists>F. wire s' = wire nt @ [F] \<and> carries PTP_EVENT_PORT F (delay_req_msg p)"
    using payload_commit_ok [OF assms(1) _ arp, of "delay_req_msg p" PTP_EVENT_PORT PTP_EVENT_PORT NET_TOS_PTP]
      udp_frame_carries [of "delay_req_msg p"] by (fastforce simp: delay_req_fields(1))
  then show "\<exists>F. wire nt' = wire nt @ [F] \<and> carries PTP_EVENT_PORT F (delay_req_msg p)"
    "p' = p\<lparr>pt3 := pv_tx_ts v, have_t3 := True, tx_delay_req := tx_delay_req p + 1, delay_req_seq := delay_req_seq p + 1\<rparr>"
    using assms(2) unfolding send_delay_req_def Let_def delay_req_msg_def [symmetric] by auto
qed

section \<open>A rate stored at lock\<close>


section \<open>A response that echoes the request\<close>

lemma first_delay:
  assumes "pd_samples p = 0" "mean_path_delay_ns p = 0"
  shows "mean_path_delay_ns (path_delay_update x p) = x"
  using assms by (simp add: path_delay_update_def PD_MIN_SAMPLES_def)

lemma matched_first:
  assumes "have_t2_t1 p" "pd_samples p = 0" "mean_path_delay_ns p = 0"
    and "x = (last_t2_t1 p + gptp_ts_diff_ns (ts_at m HDR_LEN) (pt3 p)) sdiv 2" "0 \<le> x" "x < 10000000"
  shows "mean_path_delay_ns (matched_delay_resp m p) = x" "\<not> have_t3 (matched_delay_resp m p)"
  using assms by (simp_all add: matched_delay_resp_def Let_def first_delay)

section \<open>A demonstration slave\<close>

definition ptp0 :: ptp where
  "ptp0 = \<lparr>locked = False, have_master = False, master_uuid = (0, 0, 0, 0, 0, 0), master_port_id = 0, offset_ns = 0,
     mean_path_delay_ns = 0, rx_sync = 0, rx_followup = 0, rx_delay_resp = 0, rx_other = 0, tx_delay_req = 0,
     servo_updates = 0, base_addend_full = 0, current_addend_full = 0, rate_ppb = 0, step_count = 0,
     phase_settled = False, our_uuid = (0, 0, 0, 0, 0, 0), delay_req_seq = 0, next_delay_req_ms = 0,
     pt1 = \<lparr>tsec = 0, tnsec = 0\<rparr>, pt2 = \<lparr>tsec = 0, tnsec = 0\<rparr>, pt3 = \<lparr>tsec = 0, tnsec = 0\<rparr>,
     pt4 = \<lparr>tsec = 0, tnsec = 0\<rparr>, have_t1 = False, have_t2 = False, have_t3 = False, pending_sync_seq = 0,
     awaiting_followup = False, median_buf = replicate 7 0, median_count = 0, median_pos = 0, rt_median_n = 7,
     rt_ki_num = 900, rt_exact_integ = True, freq_integral_num = 0, freq_integral = 0, unlock_streak = 0,
     lock_streak = 0, acq_active = False, acq_have_base = False, acq_t1_0 = \<lparr>tsec = 0, tnsec = 0\<rparr>,
     acq_t2_0 = \<lparr>tsec = 0, tnsec = 0\<rparr>, last_t2_t1 = 0, have_t2_t1 = False, first_sync_ms = 0, pd_samples = 0,
     pd_step_done = False, dbg_ring = replicate 8 (0, 0, 0, 0), dbg_w = 0, next_dbg_ms = 0,
     probe_ring = replicate 16 (0, 0, 0), probe_w = 0, dbg_dr = (0, 0, 0, 0, 0, 0, 0), dbg_last_d = 0,
     dbg_last_t4t3 = 0, pt_tsu = \<lparr>uptime_bias_ms = 0, tsu_cmds = []\<rparr>, pt_telem = telem0\<rparr>"

definition demo_ptp :: ptp where
  "demo_ptp = ptpv1_start (2, 0, 0, 0, 0, 9) cfg_defaults ptp0"

text \<open>The slave once acquisition and the residual step are behind it.\<close>

definition demo_settled :: ptp where
  "demo_settled = demo_ptp\<lparr>acq_active := False, pd_step_done := True, pd_samples := 4\<rparr>"

definition demo_pview :: ptp_view where
  "demo_pview = \<lparr>pv_now = 1000, pv_time = \<lparr>tsec = 100, tnsec = 0\<rparr>, pv_rx_ts = \<lparr>tsec = 100, tnsec = 700\<rparr>,
     pv_tx_ts = \<lparr>tsec = 100, tnsec = 900\<rparr>\<rparr>"

lemma cold_addend: "warm_addend cfg_defaults = None" "cf_ptp_addend_valid cfg_defaults = 0"
proof -
  show c: "cf_ptp_addend_valid cfg_defaults = 0"
    by (simp add: cfg_defaults_def default_osc_def cfg_of_bytes_def CFG_SIZE_def)
  then show "warm_addend cfg_defaults = None" by (simp add: warm_addend_def)
qed

lemma demo_ptp_fields:
  "median_buf demo_ptp = replicate 7 0" "median_count demo_ptp = 0" "median_pos demo_ptp = 0" "rt_median_n demo_ptp = 7"
  "locked demo_ptp = False" "lock_streak demo_ptp = 0" "freq_integral demo_ptp = 0" "current_addend_full demo_ptp = nominal_addend"
  "base_addend_full demo_ptp = nominal_addend" "have_t2 demo_ptp = False" "acq_active demo_ptp = True"
  "our_uuid demo_ptp = (2, 0, 0, 0, 0, 9)" "pt_tsu demo_ptp = \<lparr>uptime_bias_ms = 0, tsu_cmds = []\<rparr>"
  "mean_path_delay_ns demo_ptp = 0" "freq_integral_num demo_ptp = 0" "rt_ki_num demo_ptp = 900" "pd_samples demo_ptp = 0"
  by (simp_all add: demo_ptp_def ptpv1_start_def cold_addend ptp0_def Let_def)

lemma demo_settled_ok: "settled_servo demo_settled" "\<not> locked demo_settled" "lock_streak demo_settled = 0"
    "tracking demo_settled" "window_wf demo_settled" "window demo_settled = []"
  by (simp_all add: demo_settled_def settled_servo_def window_wf_def window_def demo_ptp_fields PD_MIN_SAMPLES_def
      MEDIAN_N_def tracking_def)

section \<open>Properties\<close>

text \<open>
  C5: from start, whatever messages come and however the servo is tuned, its numbers stay in
  bounds: the path delay below 10 ms and never negative, the rate estimate within ten per
  cent, the rate of the clock positive and within its registers, and the accumulator far
  inside its 64 bits.
\<close>

theorem servo_stays_in_bounds:
  assumes "window_wf p0" "median_count p0 = 0" "freq_integral p0 = 0" "freq_integral_num p0 = 0" "\<bar>rt_ki_num p0\<bar> \<le> 2147483648"
    and "(ptp_step xfer)\<^sup>*\<^sup>* (ptpv1_start mac g0 p0, g0, d0) (p, g, d)"
  shows "0 \<le> mean_path_delay_ns p \<and> mean_path_delay_ns p < 10000000 \<and> \<bar>freq_integral p\<bar> \<le> 100000000 \<and>
    \<bar>freq_integral_num p\<bar> < 2 ^ 63 \<and> 80000000 \<le> current_addend_full p \<and> current_addend_full p \<le> 100000000"
proof -
  have "servo_wf p" using ptp_run_wf [OF assms(6)] start_wf [OF assms(1-5)] by simp
  then show ?thesis by (simp add: servo_wf_def servo_consts)
qed

theorem servo_stays_in_bounds_witness:
  "0 \<le> mean_path_delay_ns (probe_rx demo_pview \<lparr>dg_fn = Probe_Rx, dg_src = (0, 0, 0, 0), dg_dst = (0, 0, 0, 0),
     dg_sport = 0, dg_payload = [0, 0, 0, 1]\<rparr> demo_ptp)"
proof -
  let ?d = "\<lparr>nor_mem = (\<lambda>_. 0), nor_wel = False, nor_busy = 0\<rparr>"
  let ?dg = "\<lparr>dg_fn = Probe_Rx, dg_src = (0, 0, 0, 0), dg_dst = (0, 0, 0, 0), dg_sport = 0, dg_payload = [0, 0, 0, 1]\<rparr>"
  have "(ptp_step nor_xfer)\<^sup>*\<^sup>* (ptpv1_start (2, 0, 0, 0, 0, 9) cfg_defaults ptp0, cfg_defaults, ?d)
      (probe_rx demo_pview ?dg demo_ptp, cfg_defaults, ?d)"
    unfolding demo_ptp_def by (rule r_into_rtranclp [where r = "ptp_step nor_xfer", OF ptp_step.probe])
  from servo_stays_in_bounds [OF _ _ _ _ _ this] show ?thesis
    by (simp add: ptp0_def window_wf_def MEDIAN_N_def)
qed

text \<open>
  C39: the filter gives the middle of its window in sorted order, so while more than half of
  the window lies in a band the filtered offset does, however wild the rest.
\<close>

theorem median_rejects_outliers:
  assumes "window_wf p" "median_of v p = (f, p')"
    and "length (window p') < 2 * length (filter (\<lambda>x. lo \<le> x \<and> x \<le> hi) (window p'))"
  shows "f = sort (window p') ! (length (window p') div 2) \<and> lo \<le> f \<and> f \<le> hi"
  using median_of_window(3,4) [OF assms(1,2)] middle_in_band [OF _ assms(3)] by simp

theorem median_rejects_outliers_witness:
  "\<exists>f p'. median_of 40 (demo_ptp\<lparr>median_buf := [50, 900000, 45, -800000, 0, 0, 0], median_count := 4, median_pos := 4\<rparr>) =
      (f, p') \<and> 40 \<le> f \<and> f \<le> 50"
proof -
  let ?p = "demo_ptp\<lparr>median_buf := [50, 900000, 45, -800000, 0, 0, 0], median_count := 4, median_pos := 4\<rparr>"
  obtain f p' where m: "median_of 40 ?p = (f, p')" by fastforce
  have wf: "window_wf ?p" by (simp add: window_wf_def demo_ptp_fields MEDIAN_N_def)
  have "window p' = [50, 900000, 45, -800000, 40]"
    using median_of_window(2) [OF wf m] by (simp add: demo_ptp_fields window_def)
  then show ?thesis using median_rejects_outliers [OF wf m, of 40 50] m by simp
qed

text \<open>
  C6: lock takes eight good samples: no run of fewer than eight updates locks an unlocked
  servo that had none, whatever the offsets; eight offsets below 2 us, the path delay being
  known, do lock it, and the rate it locked on is the one stored.
\<close>

theorem lock_takes_eight:
  assumes "settled_servo p" "\<not> locked p" "lock_streak p = 0" "length us \<le> 7" "length ws = 8"
    and "\<forall>(v, off) \<in> set ws. \<bar>off\<bar> < LOCK_THRESHOLD_NS" "servo_run xfer ws (p, g, d) = (p', g', d')"
  shows "\<not> locked (fst (servo_run xfer us (p, g, d))) \<and> locked p' \<and>
    cf_ptp_addend_valid g' \<noteq> 0 \<and> cf_ptp_addend_full g' = of_int (current_addend_full p')"
proof -
  obtain q h e where u: "servo_run xfer us (p, g, d) = (q, h, e)" by (metis prod_cases3)
  have short: "\<not> locked q" using lock_streak_run [OF assms(2) _ u] assms(3,4) by simp
  obtain vs v off where ws: "ws = vs @ [(v, off)]" "length vs = 7"
    using assms(5) by (cases ws rule: rev_cases) auto
  obtain r k m where r: "servo_run xfer vs (p, g, d) = (r, k, m)" by (metis prod_cases3)
  have g: "\<forall>(v, off) \<in> set vs. \<bar>off\<bar> < LOCK_THRESHOLD_NS" "\<bar>off\<bar> < LOCK_THRESHOLD_NS" using assms(6) by (auto simp: ws(1))
  have s: "settled_servo r" "unat (lock_streak r) = 7" "\<not> locked r"
    using good_run [OF assms(1) g(1) _ r] assms(2,3) ws(2) by simp_all
  have "servo_update xfer v off (r, k, m) = (p', g', d')" using assms(7) r by (simp add: ws(1) servo_run_snoc)
  from good_step [OF s(1) g(2) _ this] show ?thesis using s short u by simp
qed

theorem lock_takes_eight_witness:
  "\<exists>p' g' d'. servo_run nor_xfer (replicate 8 (demo_pview, 150))
      (demo_settled, cfg_defaults, \<lparr>nor_mem = (\<lambda>_. 0), nor_wel = False, nor_busy = 0\<rparr>) = (p', g', d') \<and> locked p' \<and>
    \<not> locked (fst (servo_run nor_xfer (replicate 7 (demo_pview, 150))
      (demo_settled, cfg_defaults, \<lparr>nor_mem = (\<lambda>_. 0), nor_wel = False, nor_busy = 0\<rparr>)))"
proof -
  let ?c = "(demo_settled, cfg_defaults, \<lparr>nor_mem = (\<lambda>_. 0), nor_wel = False, nor_busy = 0\<rparr>)"
  obtain p' g' d' where r: "servo_run nor_xfer (replicate 8 (demo_pview, 150)) ?c = (p', g', d')" by (metis prod_cases3)
  from lock_takes_eight [OF demo_settled_ok(1-3) _ _ _ r, of "replicate 7 (demo_pview, 150)"] r show ?thesis
    by (auto simp: LOCK_THRESHOLD_NS_def)
qed

text \<open>
  C40: a locked servo is deaf to a large lasting error. Once locked, however many offsets
  beyond four times the unlock threshold follow (20 us to the 1 ms step), it stays locked;
  and when they fill the filter it no longer steers, nor counts towards losing lock.
\<close>

theorem locked_servo_is_deaf:
  assumes "tracking p" "window_wf p" "locked p" "\<forall>x \<in> set (window p). \<bar>x\<bar> < LOCK_THRESHOLD_NS \<or> far x"
    and "\<forall>(v, off) \<in> set us. far off" "servo_run xfer us (p, g, d) = (p', g', d')"
  shows "locked p' \<and> (\<not> (\<forall>x \<in> set (window p). far x) \<or> (pt_tsu p' = pt_tsu p \<and>
      current_addend_full p' = current_addend_full p \<and> unlock_streak p' = unlock_streak p))"
  using far_run [OF assms] by blast

theorem locked_servo_is_deaf_witness:
  "\<exists>p' g' d'. servo_run nor_xfer (replicate 1000 (demo_pview, 100000)) (demo_settled\<lparr>locked := True\<rparr>, cfg_defaults,
      \<lparr>nor_mem = (\<lambda>_. 0), nor_wel = False, nor_busy = 0\<rparr>) = (p', g', d') \<and> locked p'"
proof -
  let ?p = "demo_settled\<lparr>locked := True\<rparr>"
  let ?c = "(?p, cfg_defaults, \<lparr>nor_mem = (\<lambda>_. 0), nor_wel = False, nor_busy = 0\<rparr>)"
  obtain p' g' d' where r: "servo_run nor_xfer (replicate 1000 (demo_pview, 100000)) ?c = (p', g', d')" by (metis prod_cases3)
  have w: "tracking ?p" "window_wf ?p" "locked ?p" "window ?p = []"
    using demo_settled_ok by (simp_all add: tracking_def window_wf_def window_def)
  have "\<forall>(v, off) \<in> set (replicate 1000 (demo_pview, 100000 :: int)). far off"
    by (simp add: set_replicate_conv_if far_def UNLOCK_THRESHOLD_NS_def SERVO_STEP_NS_def)
  from locked_servo_is_deaf [OF w(1-3) _ this r] w(4) r show ?thesis by auto
qed

text \<open>
  C8: the clock is steered only by a Sync that carries its own time, or by a FollowUp that
  answers the two-step Sync whose arrival time is held, from a peer other than the device
  itself: any other datagram leaves the rate, the phase and the uptime of the clock alone.
\<close>

theorem only_paired_sync_steers:
  assumes "ptpv1_rx xfer v dg (p, g, d) = (p', g', d')" "m = ptr_of (dg_payload dg)" "pt_tsu p' \<noteq> pt_tsu p"
  shows "header_ok m (length (dg_payload dg)) \<and> mac_at m 22 \<noteq> our_uuid p \<and>
    (m 32 = CTRL_SYNC \<and> m 35 AND FLAG_PTP_ASSIST = 0 \<or>
     m 32 = CTRL_FOLLOWUP \<and> awaiting_followup p \<and> have_t2 p \<and> rd16 m (HDR_LEN + 2) = pending_sync_seq p)"
proof -
  let ?len = "length (dg_payload dg)"
  have "header_ok m ?len \<and> \<not> uuid_eq (mac_at m 22) (our_uuid p) \<and>
      (m 32 = CTRL_SYNC \<and> rx_sync_msg xfer v m ?len (p, g, d) = (p', g', d') \<or>
       m 32 = CTRL_FOLLOWUP \<and> rx_followup_msg xfer v m ?len (p, g, d) = (p', g', d'))"
    using assms(1,3) unfolding ptpv1_rx_def Let_def prod.case assms(2) [symmetric]
    by (auto simp: delay_resp_tsu split: if_splits)
  then show ?thesis using sync_tsu [OF _ assms(3)] followup_tsu [OF _ assms(3)] by (metis uuid_eq_iff)
qed

text \<open>A Sync that carries its own time, far from ours: the clock is stepped.\<close>

definition demo_sync :: datagram where
  "demo_sync = \<lparr>dg_fn = Ptpv1_Rx, dg_src = (169, 254, 1, 2), dg_dst = ptp_group, dg_sport = 319,
     dg_payload = put_header (2, 0, 0, 0, 0, 7) CTRL_SYNC PORT_TYPE_EVENT 5 @ be32 6000 @ be32 0 @ replicate 76 0\<rparr>"

lemma demo_sync_bytes: "dg_payload demo_sync =
    [0, 1, 0, 1, 0x5F, 0x44, 0x46, 0x4C, 0x54, 0, 0, 0, 0, 0, 0, 0, 0, 0, 0, 0, 1, 1, 2, 0, 0, 0, 0, 7, 0, 1, 0, 5, 0, 0, 0, 0,
     0, 0, 0, 0, 0, 0, 0x17, 0x70, 0, 0, 0, 0] @ replicate 76 0"
  by (simp add: demo_sync_def put_header_bytes be16_def be32_def CTRL_SYNC_def PORT_TYPE_EVENT_def)

lemma demo_sync_steps:
  assumes "ptpv1_rx xfer demo_pview demo_sync (demo_ptp, g, d) = (p', g', d')"
  shows "pt_tsu p' \<noteq> pt_tsu demo_ptp"
proof -
  let ?m = "ptr_of (dg_payload demo_sync)"
  have m: "header_ok ?m 124" "?m 32 = CTRL_SYNC" "?m 35 AND FLAG_PTP_ASSIST = 0" "mac_at ?m 22 = (2, 0, 0, 0, 0, 7)"
    "ts_at ?m 40 = \<lparr>tsec = 6000, tnsec = 0\<rparr>" "length (dg_payload demo_sync) = 124"
    by (simp_all add: demo_sync_bytes header_ok_def HDR_LEN_def ptr_of_def rd16_def rd32_def mac_at_def CTRL_SYNC_def ts_at_def)
  have far: "gptp_ts_diff_ns \<lparr>tsec = 100, tnsec = 700\<rparr> \<lparr>tsec = 6000, tnsec = 0\<rparr> = -5899999999300"
    by (simp add: gptp_ts_diff_ns_def)
  have "rx_sync_msg xfer demo_pview ?m 124 (demo_ptp, g, d) = (p', g', d')"
    using assms unfolding ptpv1_rx_def Let_def prod.case m(6) by (simp add: m uuid_eq_iff demo_ptp_fields)
  from m(3) _ this obtain q where q: "try_compute_offset xfer demo_pview (q, g, d) = (p', g', d')" "have_t1 q" "have_t2 q"
    "pt1 q = ts_at ?m HDR_LEN" "pt2 q = pv_rx_ts demo_pview" "mean_path_delay_ns q = mean_path_delay_ns demo_ptp"
    "pt_tsu q = pt_tsu demo_ptp" by (rule one_step_sync) simp
  have "gptp_ts_diff_ns (pt2 q) (pt1 q) - mean_path_delay_ns q = -5899999999300"
    using m(5) far by (simp add: q HDR_LEN_def demo_ptp_fields) (simp add: demo_pview_def)
  then have "SERVO_STEP_NS < \<bar>gptp_ts_diff_ns (pt2 q) (pt1 q) - mean_path_delay_ns q\<bar>" by (simp add: SERVO_STEP_NS_def)
  from far_steps [OF q(2,3) this q(1)] show ?thesis by (simp add: q(7))
qed

theorem only_paired_sync_steers_witness:
  "\<exists>p' g' d'. ptpv1_rx nor_xfer demo_pview demo_sync (demo_ptp, cfg_defaults,
      \<lparr>nor_mem = (\<lambda>_. 0), nor_wel = False, nor_busy = 0\<rparr>) = (p', g', d') \<and> pt_tsu p' \<noteq> pt_tsu demo_ptp \<and>
    mac_at (ptr_of (dg_payload demo_sync)) 22 \<noteq> our_uuid demo_ptp"
proof -
  let ?c = "(demo_ptp, cfg_defaults, \<lparr>nor_mem = (\<lambda>_. 0), nor_wel = False, nor_busy = 0\<rparr>)"
  obtain p' g' d' where r: "ptpv1_rx nor_xfer demo_pview demo_sync ?c = (p', g', d')" by (metis prod_cases3)
  from only_paired_sync_steers [OF r refl demo_sync_steps [OF r]] demo_sync_steps [OF r] r show ?thesis by auto
qed






text \<open>
  The DelayReq exchange: the request the slave sends is a PTPv1 event message of 124
  bytes to port 319 that its own header check accepts, and the first response that echoes its
  sender, port and sequence sets the path delay to half of the two halves measured.
\<close>

theorem delay_exchange_measures:
  assumes "tx_wf nt" "send_delay_req v p nt = (p1, nt')" "msg = ptr_of (delay_req_msg p)"
    and "60 \<le> len" "mac_at m 50 = mac_at msg 22" "rd16 m 56 = rd16 msg 28" "rd16 m 58 = rd16 msg 30"
    and "\<not> acq_active p" "have_t2_t1 p" "pd_samples p = 0" "mean_path_delay_ns p = 0"
    and "x = (last_t2_t1 p + gptp_ts_diff_ns (ts_at m HDR_LEN) (pv_tx_ts v)) sdiv 2" "0 \<le> x" "x < 10000000"
  shows "(\<exists>F. wire nt' = wire nt @ [F] \<and> carries PTP_EVENT_PORT F (delay_req_msg p)) \<and> header_ok msg 124 \<and>
    mean_path_delay_ns (rx_delay_resp_msg m len p1) = x \<and> \<not> have_t3 (rx_delay_resp_msg m len p1)"
proof -
  note s = send_delay_req_ok [OF assms(1,2)]
  let ?q = "p1\<lparr>rx_delay_resp := rx_delay_resp p1 + 1\<rparr>"
  have "rx_delay_resp_msg m len p1 = matched_delay_resp m ?q"
    using assms(4-8) unfolding rx_delay_resp_msg_def Let_def
    by (simp add: s(2) assms(3) delay_req_fields HDR_LEN_def DELAY_RESP_BODY_LEN_def uuid_eq_iff)
  moreover have "mean_path_delay_ns (matched_delay_resp m ?q) = x" "\<not> have_t3 (matched_delay_resp m ?q)"
    by (rule matched_first; use assms(9-14) in \<open>simp add: s(2)\<close>)+
  ultimately show ?thesis using s(1) delay_req_fields(2) [of p] by (simp add: assms(3))
qed

text \<open>A response whose two halves are 2000 and 1000 ns.\<close>

definition demo_resp :: "u8 list" where
  "demo_resp = replicate 40 0 @ [0, 0, 0, 100, 0, 0, 7, 0x6C, 0, 0, 2, 0, 0, 0, 0, 9, 0, 1, 0, 0]"

theorem delay_exchange_measures_witness:
  "\<exists>p1 nt'. send_delay_req demo_pview (demo_ptp\<lparr>acq_active := False, have_t2_t1 := True, last_t2_t1 := 2000\<rparr>)
      (net_boot (2, 0, 0, 0, 0, 9)) = (p1, nt') \<and> mean_path_delay_ns (rx_delay_resp_msg (ptr_of demo_resp) 60 p1) = 1500"
proof -
  let ?p = "demo_ptp\<lparr>acq_active := False, have_t2_t1 := True, last_t2_t1 := 2000\<rparr>"
  let ?n = "net_boot (2, 0, 0, 0, 0, 9)"
  obtain p1 nt' where s: "send_delay_req demo_pview ?p ?n = (p1, nt')" by fastforce
  have wf: "tx_wf ?n" using net_boot_inv [of "(2, 0, 0, 0, 0, 9)"] by (simp add: net_inv_def hw_ok_def)
  have q: "delay_req_seq demo_ptp = 0" by (simp add: demo_ptp_def ptpv1_start_def cold_addend ptp0_def Let_def)
  have f: "mac_at (ptr_of demo_resp) 50 = mac_at (ptr_of (delay_req_msg ?p)) 22"
    "rd16 (ptr_of demo_resp) 56 = rd16 (ptr_of (delay_req_msg ?p)) 28"
    "rd16 (ptr_of demo_resp) 58 = rd16 (ptr_of (delay_req_msg ?p)) 30"
    unfolding delay_req_fields by (simp_all add: demo_ptp_fields q demo_resp_def ptr_of_def mac_at_def rd16_def nth_append)
  have x: "1500 = (last_t2_t1 ?p + gptp_ts_diff_ns (ts_at (ptr_of demo_resp) HDR_LEN) (pv_tx_ts demo_pview)) sdiv 2"
    by (simp add: ts_at_def HDR_LEN_def demo_resp_def ptr_of_def rd32_def demo_pview_def gptp_ts_diff_ns_def signed_divide_int_def nth_append)
  from delay_exchange_measures [OF wf s refl _ f _ _ _ _ x] s show ?thesis
    by (auto simp: demo_ptp_fields)
qed

end
