(* ===== verification/Mdns.thy ===== *)
theory Mdns
  imports Dante_Flows
begin

text \<open>
  The mDNS responder, \<^theory_text>\<open>firmware/mdns.c\<close>: names on the wire and their compression, the
  records of the device, of its channels and of its multicast flows, the response to a query,
  and the announcements. A C string is the list of its bytes; a message under construction is
  the list of the bytes written, with the cache of names written so far.
\<close>

section \<open>Constants\<close>

definition MDNS_PORT :: u16 where "MDNS_PORT = 5353"
definition MDNS_TTL :: u32 where "MDNS_TTL = 4500"
definition MDNS_TTL_TXT :: u32 where "MDNS_TTL_TXT = 120"
definition MDNS_TTL_A :: u32 where "MDNS_TTL_A = 120"
definition DNS_T_A :: u16 where "DNS_T_A = 1"
definition DNS_T_PTR :: u16 where "DNS_T_PTR = 12"
definition DNS_T_TXT :: u16 where "DNS_T_TXT = 16"
definition DNS_T_SRV :: u16 where "DNS_T_SRV = 33"
definition DNS_T_ANY :: u16 where "DNS_T_ANY = 255"
definition DNS_C_IN :: u16 where "DNS_C_IN = 1"
definition DNS_C_IN_FLUSH :: u16 where "DNS_C_IN_FLUSH = 0x8001"
definition MDNS_SPLIT_BYTES :: nat where "MDNS_SPLIT_BYTES = 900"
definition MDNS_INST_MAX :: nat where "MDNS_INST_MAX = 112"
definition NC_MAX :: nat where "NC_MAX = 10"
definition NC_NAME :: nat where "NC_NAME = 96"
definition DANTE_PORT_ARC :: u16 where "DANTE_PORT_ARC = 4440"
definition mdns_group :: ip4 where "mdns_group = (224, 0, 0, 251)"

definition ascii :: "string \<Rightarrow> u8 list" where
  "ascii = map of_char"

section \<open>Names\<close>

definition lc :: "u8 \<Rightarrow> u8" where
  "lc c = (if 65 \<le> c \<and> c \<le> 90 then c + 32 else c)"

text \<open>
  Reading a name of a message of \<open>len\<close> bytes from \<open>off\<close> into a buffer of \<open>outlen\<close> bytes.
  \<open>next\<close> is where the record goes on once a pointer has been followed, 0 before that.
  \<open>None\<close> is the C function's 0.
\<close>

definition out_dot :: "nat \<Rightarrow> u8 list \<Rightarrow> u8 list" where
  "out_dot outlen out = (if out \<noteq> [] \<and> length out < outlen - 1 then out @ [46] else out)"

definition out_label :: "nat \<Rightarrow> u8 list \<Rightarrow> u8 list \<Rightarrow> u8 list" where
  "out_label outlen l out = out @ take (outlen - 1 - length out) (map lc l)"

function name_loop :: "ptr \<Rightarrow> nat \<Rightarrow> nat \<Rightarrow> nat \<Rightarrow> nat \<Rightarrow> nat \<Rightarrow> u8 list \<Rightarrow> (nat \<times> u8 list) option" where
  "name_loop m len outlen off next jumps out =
    (if \<not> off < len then Some (if next \<noteq> 0 then next else off + 1, out)
     else
       let l = m off in
       if l = 0 then Some (if next \<noteq> 0 then next else off + 1, out)
       else if l AND 0xC0 = 0xC0 then
         (if off + 1 \<ge> len then None
          else if jumps + 1 > 8 then None
          else name_loop m len outlen (unat (push_bit 8 (ucast (l AND 0x3F)) OR ucast (m (off + 1)) :: u16))
            (if next = 0 then off + 2 else next) (jumps + 1) out)
       else if l AND 0xC0 \<noteq> 0 then None
       else if off + 1 + unat l > len then None
       else name_loop m len outlen (off + 1 + unat l) next jumps
         (out_label outlen (bytes_at m (off + 1) (unat l)) (out_dot outlen out)))"
  by pat_completeness auto
termination
  by (relation "measures [\<lambda>(m, len, outlen, off, next, jumps, out). 9 - jumps,
      \<lambda>(m, len, outlen, off, next, jumps, out). len - off]") auto

declare name_loop.simps [simp del]

definition name_decode :: "ptr \<Rightarrow> nat \<Rightarrow> nat \<Rightarrow> nat \<Rightarrow> (nat \<times> u8 list) option" where
  "name_decode m len off outlen = name_loop m len outlen off 0 0 []"

text \<open>The cache of names already written.\<close>

type_synonym ncache = "(u8 list \<times> nat) list"

definition nc_find :: "ncache \<Rightarrow> u8 list \<Rightarrow> nat option" where
  "nc_find c name = map_option snd (List.find (\<lambda>e. fst e = name) c)"

definition nc_add :: "u8 list \<Rightarrow> nat \<Rightarrow> ncache \<Rightarrow> ncache" where
  "nc_add name off c = (if length c \<ge> NC_MAX \<or> off > 0x3FFF then c else c @ [(take (NC_NAME - 1) name, off)])"

definition nc_ptr :: "nat \<Rightarrow> u8 list" where
  "nc_ptr off = [of_nat (0xC0 + (off div 256) mod 64), of_nat (off mod 256)]"

text \<open>The first label of a dotted name and what follows its dot.\<close>

definition label_of :: "u8 list \<Rightarrow> u8 list" where
  "label_of name = takeWhile (\<lambda>c. c \<noteq> 46) name"

definition after_label :: "u8 list \<Rightarrow> u8 list" where
  "after_label name = drop 1 (dropWhile (\<lambda>c. c \<noteq> 46) name)"

definition put_label :: "u8 list \<Rightarrow> u8 list" where
  "put_label name = (let l = min 63 (length (label_of name)) in of_nat l # take l name)"

lemma after_label_shorter: "name \<noteq> [] \<Longrightarrow> length (after_label name) < length name"
  using length_dropWhile_le [of "\<lambda>c. c \<noteq> 46" name] by (cases name) (auto simp: after_label_def)

function put_labels :: "bool \<Rightarrow> u8 list \<Rightarrow> ncache \<Rightarrow> u8 list \<Rightarrow> u8 list \<times> ncache" where
  "put_labels first p c cur =
    (if cur = [] then (p @ [0], c)
     else case if first then None else nc_find c cur of
       Some off \<Rightarrow> (p @ nc_ptr off, c)
     | None \<Rightarrow>
        put_labels False (p @ put_label cur) (if first then c else nc_add cur (length p) c) (after_label cur))"
  by pat_completeness auto
termination
  by (relation "measure (\<lambda>(first, p, c, cur). length cur)") (auto simp: after_label_shorter)

declare put_labels.simps [simp del]

definition name_put :: "u8 list \<Rightarrow> u8 list \<times> ncache \<Rightarrow> u8 list \<times> ncache" where
  "name_put name = (\<lambda>(p, c).
    case nc_find c name of
      Some off \<Rightarrow> (p @ nc_ptr off, c)
    | None \<Rightarrow> put_labels True p (nc_add name (length p) c) name)"

section \<open>The identity the responder serves\<close>

record mdns =
  announce_left :: u8
  announce_next_ms :: u32
  n_host :: "u8 list"
  n_arc_svc :: "u8 list"
  n_cmc_svc :: "u8 list"
  n_chan_svc :: "u8 list"
  n_bund_svc :: "u8 list"
  n_arc_inst :: "u8 list"
  n_cmc_inst :: "u8 list"
  lcq_host :: "u8 list"
  lcq_arc_inst :: "u8 list"
  lcq_cmc_inst :: "u8 list"
  want_idx :: nat
  chan_resweep :: nat
  chan_ptr_start :: nat
  md_rx_queries :: u32
  md_rx_ignored :: u32
  md_tx_responses :: u32
  md_tx_announce :: u32

definition n_services :: "u8 list" where
  "n_services = ascii ''_services._dns-sd._udp.local''"

definition cat2 :: "nat \<Rightarrow> u8 list \<Rightarrow> u8 list \<Rightarrow> u8 list" where
  "cat2 maxlen a b = take (maxlen - 1) (a @ b)"

section \<open>Text records\<close>

definition txt_put :: "u8 list \<Rightarrow> u8 list" where
  "txt_put s = (let l = min 255 (length s) in of_nat l # take l s)"

definition txt_put_hexid :: "dante_dev \<Rightarrow> u8 list" where
  "txt_put_hexid g = txt_put (ascii ''id='' @
     concat (map (\<lambda>b. [hex_digit (drop_bit 4 b), hex_digit (b AND 0xF)]) (take 8 (device_id g))))"

definition build_txt_arc :: "u8 list" where
  "build_txt_arc = concat (map (\<lambda>s. txt_put (ascii s))
     [''arcp_vers=2.8.9'', ''arcp_min=0.2.4'', ''router_vers=4.4.0'', ''router_info=N-Series AoIP'',
      ''mf=N-Series'', ''model=_00000000000000ff''])"

definition build_txt_cmc :: "dante_dev \<Rightarrow> u8 list" where
  "build_txt_cmc g = txt_put_hexid g @ concat (map (\<lambda>s. txt_put (ascii s))
     [''process=0'', ''cmcp_vers=1.2.0'', ''cmcp_min=1.0.0'', ''server_vers=4.1.0'', ''channels=0x6000004d'',
      ''mf=N-Series'', ''model=_00000000000000ff''])"

text \<open>Decimal digits, least significant first, and a key with a number.\<close>

definition dig :: "nat \<Rightarrow> u8" where
  "dig d = of_nat (48 + d)"

fun num_rev :: "nat \<Rightarrow> u8 list" where
  "num_rev v = (if v = 0 then [] else dig (v mod 10) # num_rev (v div 10))"

declare num_rev.simps [simp del]

definition txt_put_kv_u :: "string \<Rightarrow> nat \<Rightarrow> u8 list" where
  "txt_put_kv_u k v = txt_put (take 30 (ascii k) @ (if v = 0 then [dig 0] else rev (num_rev v)))"

section \<open>Channels and bundles\<close>

definition inst_name :: "dante_dev \<Rightarrow> nat \<Rightarrow> u8 list \<Rightarrow> u8 list \<Rightarrow> u8 list" where
  "inst_name g maxlen label svc = take (maxlen - 1) (label @ [64] @ dd_name g @ [46] @ svc)"

definition chan_inst :: "dante_dev \<Rightarrow> mdns \<Rightarrow> nat \<Rightarrow> u8 list" where
  "chan_inst g md ch = inst_name g MDNS_INST_MAX (dante_tx_channel_name (of_nat ch) DANTE_MAX_NAME) (n_chan_svc md)"

definition bund_label :: "nat \<Rightarrow> u8 list" where
  "bund_label b = (if b \<ge> 100 then [dig ((b div 100) mod 10)] else []) @
     (if b \<ge> 10 then [dig ((b div 10) mod 10)] else []) @ [dig (b mod 10)]"

definition bund_inst :: "dante_dev \<Rightarrow> mdns \<Rightarrow> nat \<Rightarrow> u8 list" where
  "bund_inst g md b = inst_name g MDNS_INST_MAX (bund_label b) (n_bund_svc md)"

text \<open>The key of a channel that a multicast flow carries: the flow and the position in it.\<close>

definition bundle_key :: "u16 \<Rightarrow> u8 \<Rightarrow> u8 list" where
  "bundle_key bid bpos = ascii ''b.'' @ (if bid \<ge> 10 then [dig ((unat bid div 10) mod 10)] else []) @
     [dig (unat bid mod 10)] @ ascii ''='' @ [48 + bpos]"

definition build_txt_chan :: "tx \<Rightarrow> u8 \<Rightarrow> nat \<Rightarrow> u8 list" where
  "build_txt_chan s adv ch =
     txt_put (ascii ''txtvers=2'') @ txt_put (ascii ''dbcp1=0x1200'') @ txt_put_kv_u ''id='' ch @
     txt_put (ascii ''dbcp=0x1004'') @ txt_put (ascii ''rate=48000'') @ txt_put (ascii ''en=24'') @
     txt_put (ascii ''pcm=3 4'') @ txt_put (ascii ''enc=24'') @
     txt_put_kv_u ''latency_ns='' (unat (dante_tx_latency_effective s)) @
     txt_put (ascii ''fpp='' @ (if adv \<ge> 10 then [dig (unat adv div 10)] else []) @ [dig (unat adv mod 10)] @ ascii '',2'') @
     txt_put_kv_u ''nchan='' 8 @
     (case dante_tx_chan_bundle (of_nat ch) s of None \<Rightarrow> [] | Some (bid, bpos) \<Rightarrow> txt_put (bundle_key bid bpos)) @
     txt_put (ascii ''at2'')"

definition octet_str :: "u8 \<Rightarrow> u8 list" where
  "octet_str v = (if v \<ge> 100 then [dig (unat v div 100)] else []) @
     (if v \<ge> 10 then [dig ((unat v div 10) mod 10)] else []) @ [dig (unat v mod 10)]"

fun dotted :: "ip4 \<Rightarrow> u8 list" where
  "dotted (a, b, c, d) = octet_str a @ [46] @ octet_str b @ [46] @ octet_str c @ [46] @ octet_str d"

definition build_txt_bund :: "tx \<Rightarrow> nat \<Rightarrow> u8 list" where
  "build_txt_bund s b =
    (let (ip, ns) = (case dante_tx_mcast_by_id (of_nat b) s of None \<Rightarrow> ((0, 0, 0, 0), 8) | Some r \<Rightarrow> r) in
     txt_put (ascii ''txtvers=1'') @ txt_put_kv_u ''id='' b @ txt_put_kv_u ''nchan='' (unat ns) @
     txt_put_kv_u ''latency_ns='' (unat (dante_tx_latency_effective s)) @
     txt_put_kv_u ''fpp='' (unat (g_mcast_fpp s)) @
     txt_put (ascii ''rate=48000'') @ txt_put (ascii ''enc=24'') @ txt_put (ascii ''at2'') @
     txt_put (ascii ''a.0='' @ dotted ip) @ txt_put (ascii ''p.0=4321''))"

section \<open>Records\<close>

definition put_rr_head :: "u8 list \<Rightarrow> u16 \<Rightarrow> u16 \<Rightarrow> u32 \<Rightarrow> u8 list \<times> ncache \<Rightarrow> u8 list \<times> ncache" where
  "put_rr_head name typ cls ttl w =
    (let (p, c) = name_put name w in (p @ be16 typ @ be16 cls @ be32 ttl, c))"

text \<open>Leaving room for the length of the data and filling it in.\<close>

definition rd_open :: "u8 list \<times> ncache \<Rightarrow> u8 list \<times> ncache" where
  "rd_open = (\<lambda>(p, c). (p @ [0, 0], c))"

definition rd_close :: "nat \<Rightarrow> u8 list \<times> ncache \<Rightarrow> u8 list \<times> ncache" where
  "rd_close lp = (\<lambda>(p, c). (put lp (be16 (of_nat (length p - (lp + 2)))) p, c))"

definition put_a :: "mdns \<Rightarrow> ip4 \<Rightarrow> u8 list \<times> ncache \<Rightarrow> u8 list \<times> ncache" where
  "put_a md ip w =
    (let (p, c) = put_rr_head (n_host md) DNS_T_A DNS_C_IN_FLUSH MDNS_TTL_A w in (p @ [0, 4] @ ip_bytes ip, c))"

definition put_ptr :: "u8 list \<Rightarrow> u8 list \<Rightarrow> u8 list \<times> ncache \<Rightarrow> u8 list \<times> ncache" where
  "put_ptr svc inst w =
    (let w = put_rr_head svc DNS_T_PTR DNS_C_IN MDNS_TTL w in
     rd_close (length (fst w)) (name_put inst (rd_open w)))"

definition put_srv :: "mdns \<Rightarrow> u8 list \<Rightarrow> u16 \<Rightarrow> u8 list \<times> ncache \<Rightarrow> u8 list \<times> ncache" where
  "put_srv md inst port w =
    (let w = put_rr_head inst DNS_T_SRV DNS_C_IN_FLUSH MDNS_TTL_A w; lp = length (fst w);
         (p, c) = rd_open w in
     rd_close lp (name_put (n_host md) (p @ [0, 0, 0, 0] @ be16 port, c)))"

definition put_txt :: "u8 list \<Rightarrow> u8 list \<Rightarrow> u8 list \<times> ncache \<Rightarrow> u8 list \<times> ncache" where
  "put_txt inst txt w =
    (let w = put_rr_head inst DNS_T_TXT DNS_C_IN_FLUSH MDNS_TTL_TXT w; lp = length (fst w);
         (p, c) = rd_open w in
     rd_close lp (p @ txt, c))"

section \<open>Matching a question\<close>

fun ieq :: "u8 list \<Rightarrow> u8 list \<Rightarrow> bool" where
  "ieq (a # as) (b # bs) = (if lc a = lc b then ieq as bs else False)"
| "ieq [] [] = True"
| "ieq _ _ = False"

definition has_suffix :: "u8 list \<Rightarrow> u8 list \<Rightarrow> bool" where
  "has_suffix q suf = (if length q < length suf then False else ieq (drop (length q - length suf) q) suf)"

definition match_chan_inst :: "dante_dev \<Rightarrow> mdns \<Rightarrow> u8 list \<Rightarrow> nat option" where
  "match_chan_inst g md q =
    (if \<not> has_suffix q (ascii ''._netaudio-chan._udp.local'') then None
     else List.find (\<lambda>c. ieq q (chan_inst g md c)) [1..<DANTE_TX_CHANNELS + 1])"

text \<open>The flows are tried in the order \<^theory_text>\<open>dante_tx_mcast_enum\<close> numbers them.\<close>

definition bundle_ids :: "tx \<Rightarrow> nat list" where
  "bundle_ids s = map (\<lambda>i. case dante_tx_mcast_enum i s of Some b \<Rightarrow> unat b | None \<Rightarrow> 0)
     (takeWhile (\<lambda>i. dante_tx_mcast_enum i s \<noteq> None) [0..<N_FLOWS + 1])"

definition match_bund_inst :: "dante_dev \<Rightarrow> mdns \<Rightarrow> tx \<Rightarrow> u8 list \<Rightarrow> nat option" where
  "match_bund_inst g md s q =
    (if \<not> has_suffix q (ascii ''._netaudio-bund._udp.local'') then None
     else List.find (\<lambda>b. ieq q (bund_inst g md b)) (bundle_ids s))"

section \<open>The response\<close>

definition W_ARC_PTR :: u32 where "W_ARC_PTR = 1"
definition W_ARC_SRV :: u32 where "W_ARC_SRV = 2"
definition W_ARC_TXT :: u32 where "W_ARC_TXT = 4"
definition W_CMC_PTR :: u32 where "W_CMC_PTR = 8"
definition W_CMC_SRV :: u32 where "W_CMC_SRV = 16"
definition W_CMC_TXT :: u32 where "W_CMC_TXT = 32"
definition W_A :: u32 where "W_A = 64"
definition W_SERVICES :: u32 where "W_SERVICES = 128"
definition W_CHAN_PTR :: u32 where "W_CHAN_PTR = 256"
definition W_BUND_PTR :: u32 where "W_BUND_PTR = 512"
definition W_CHAN_ONE :: u32 where "W_CHAN_ONE = 1024"
definition W_BUND_ONE :: u32 where "W_BUND_ONE = 2048"

text \<open>A record is added when it is wanted; the second component counts the answers.\<close>

definition answer_if :: "bool \<Rightarrow> (u8 list \<times> ncache \<Rightarrow> u8 list \<times> ncache) \<Rightarrow>
    (u8 list \<times> ncache) \<times> u16 \<Rightarrow> (u8 list \<times> ncache) \<times> u16" where
  "answer_if b f = (\<lambda>(w, n). if b then (f w, n + 1) else (w, n))"

text \<open>The channels, from a cursor that moves with every record, until the message is long enough.\<close>

fun chan_ptrs :: "dante_dev \<Rightarrow> mdns \<Rightarrow> nat list \<Rightarrow> nat \<Rightarrow> (u8 list \<times> ncache) \<times> u16 \<Rightarrow>
    nat \<times> (u8 list \<times> ncache) \<times> u16" where
  "chan_ptrs g md [] start a = (start, a)"
| "chan_ptrs g md (i # is) start a =
    (if \<not> length (fst (fst a)) < MDNS_SPLIT_BYTES then (start, a)
     else let c = (start + i) mod DANTE_TX_CHANNELS + 1 in
       chan_ptrs g md is c (answer_if True (put_ptr (n_chan_svc md) (chan_inst g md c)) a))"

definition mdns_header :: "u8 list" where
  "mdns_header = [0, 0, 0x84, 0, 0, 0, 0, 0, 0, 0, 0, 0]"

text \<open>The fixed records of the device.\<close>

definition put_services :: "dante_dev \<Rightarrow> mdns \<Rightarrow> u32 \<Rightarrow> (u8 list \<times> ncache) \<times> u16 \<Rightarrow> (u8 list \<times> ncache) \<times> u16" where
  "put_services g md want a =
    (let a = answer_if (want AND W_SERVICES \<noteq> 0) (put_ptr n_services (n_arc_svc md)) a;
         a = answer_if (want AND W_SERVICES \<noteq> 0) (put_ptr n_services (n_cmc_svc md)) a;
         a = answer_if (want AND W_ARC_PTR \<noteq> 0) (put_ptr (n_arc_svc md) (n_arc_inst md)) a;
         a = answer_if (want AND W_ARC_SRV \<noteq> 0) (put_srv md (n_arc_inst md) DANTE_PORT_ARC) a;
         a = answer_if (want AND W_ARC_TXT \<noteq> 0) (put_txt (n_arc_inst md) build_txt_arc) a;
         a = answer_if (want AND W_CMC_PTR \<noteq> 0) (put_ptr (n_cmc_svc md) (n_cmc_inst md)) a;
         a = answer_if (want AND W_CMC_SRV \<noteq> 0) (put_srv md (n_cmc_inst md) DANTE_PORT_CMC) a in
     answer_if (want AND W_CMC_TXT \<noteq> 0) (put_txt (n_cmc_inst md) (build_txt_cmc g)) a)"

text \<open>One channel or bundle: the SRV answers, its TXT is additional.\<close>

definition put_one :: "mdns \<Rightarrow> bool \<Rightarrow> u8 list \<Rightarrow> u16 \<Rightarrow> u8 list \<Rightarrow>
    (u8 list \<times> ncache) \<times> u16 \<times> u16 \<Rightarrow> (u8 list \<times> ncache) \<times> u16 \<times> u16" where
  "put_one md b inst port txt = (\<lambda>(w, n, x).
    if b then (put_txt inst txt (put_srv md inst port w), n + 1, x + 1) else (w, n, x))"

text \<open>The message for a set of wanted records and the cursor it leaves.\<close>

definition mdns_message :: "dante_dev \<Rightarrow> tx \<Rightarrow> u8 \<Rightarrow> ip4 \<Rightarrow> u32 \<Rightarrow> mdns \<Rightarrow> u8 list \<times> nat" where
  "mdns_message g s adv ip want md =
    (let a = put_services g md want ((mdns_header, []), 0);
         (start, a) = (if want AND W_CHAN_PTR \<noteq> 0 then chan_ptrs g md [0..<DANTE_TX_CHANNELS] (chan_ptr_start md) a
                       else (chan_ptr_start md, a));
         a = (if want AND W_BUND_PTR \<noteq> 0
              then foldl (\<lambda>a b. answer_if True (put_ptr (n_bund_svc md) (bund_inst g md b)) a) a (bundle_ids s) else a);
         (w, n) = a;
         (w, n, x) = put_one md (want AND W_CHAN_ONE \<noteq> 0) (chan_inst g md (want_idx md)) DANTE_PORT_FLOWS
           (build_txt_chan s adv (want_idx md)) (w, n, 0);
         (w, n, x) = put_one md (want AND W_BUND_ONE \<noteq> 0) (bund_inst g md (want_idx md)) DANTE_PORT_MEDIA
           (build_txt_bund s (want_idx md)) (w, n, x);
         (w, x) = answer_if (want AND W_A \<noteq> 0) (put_a md ip) (w, x) in
     (put 10 (be16 x) (put 6 (be16 n) (fst w)), start))"

definition send_response :: "dante_dev \<Rightarrow> tx \<Rightarrow> u8 \<Rightarrow> u32 \<Rightarrow> mdns \<Rightarrow> net \<Rightarrow> mdns \<times> net" where
  "send_response g s adv want md nt =
    (if want = 0 then (md, nt)
     else
       let (p, start) = mdns_message g s adv (g_net_ip nt) want md;
           (r, nt) = net_udp_commit mdns_group MDNS_PORT MDNS_PORT (length p) 0 (payload_put 0 p nt);
           md = md\<lparr>chan_ptr_start := start\<rparr> in
       (if r = 0 then md\<lparr>md_tx_responses := md_tx_responses md + 1\<rparr> else md, nt))"

section \<open>Questions\<close>

text \<open>A decoded name ends at its first NUL when it is compared.\<close>

definition cstr :: "u8 list \<Rightarrow> u8 list" where
  "cstr = takeWhile (\<lambda>c. c \<noteq> 0)"

text \<open>What one question adds to the wanted records.\<close>

definition mdns_question :: "dante_dev \<Rightarrow> tx \<Rightarrow> u8 list \<Rightarrow> u16 \<Rightarrow> mdns \<Rightarrow> u32 \<times> mdns" where
  "mdns_question g s q qtype md =
    (let any = (qtype = DNS_T_ANY);
         is = (\<lambda>t. any \<or> qtype = t) in
     if q = n_services then (W_SERVICES, md)
     else if q = n_arc_svc md then (if is DNS_T_PTR then W_ARC_PTR OR W_ARC_SRV OR W_ARC_TXT OR W_A else 0, md)
     else if q = n_cmc_svc md then (if is DNS_T_PTR then W_CMC_PTR OR W_CMC_SRV OR W_CMC_TXT OR W_A else 0, md)
     else if q = lcq_arc_inst md then
       ((if is DNS_T_SRV then W_ARC_SRV OR W_A else 0) OR (if is DNS_T_TXT then W_ARC_TXT else 0), md)
     else if q = lcq_cmc_inst md then
       ((if is DNS_T_SRV then W_CMC_SRV OR W_A else 0) OR (if is DNS_T_TXT then W_CMC_TXT else 0), md)
     else if q = n_chan_svc md then (if is DNS_T_PTR then W_CHAN_PTR OR W_A else 0, md)
     else if q = n_bund_svc md then (if is DNS_T_PTR then W_BUND_PTR OR W_A else 0, md)
     else case match_chan_inst g md q of
       Some c \<Rightarrow> (if is DNS_T_SRV \<or> qtype = DNS_T_TXT then W_CHAN_ONE OR W_A else 0, md\<lparr>want_idx := c\<rparr>)
     | None \<Rightarrow> (case match_bund_inst g md s q of
         Some b \<Rightarrow> (if is DNS_T_SRV \<or> qtype = DNS_T_TXT then W_BUND_ONE OR W_A else 0, md\<lparr>want_idx := b\<rparr>)
       | None \<Rightarrow>
           if q = lcq_host md then (if is DNS_T_A then W_A else 0, md)
           else (0, md\<lparr>md_rx_ignored := md_rx_ignored md + 1\<rparr>)))"

text \<open>The questions of a query; \<open>None\<close> for the wanted set is the early return.\<close>

fun mdns_questions :: "dante_dev \<Rightarrow> tx \<Rightarrow> ptr \<Rightarrow> nat \<Rightarrow> nat \<Rightarrow> nat \<Rightarrow> u32 \<Rightarrow> mdns \<Rightarrow> u32 option \<times> mdns" where
  "mdns_questions g s m len 0 off want md = (Some want, md)"
| "mdns_questions g s m len (Suc k) off want md =
    (if \<not> off < len then (Some want, md)
     else case name_decode m len off 128 of
       None \<Rightarrow> (None, md)
     | Some (off, q) \<Rightarrow>
         if off + 4 > len then (None, md)
         else let (w, md) = mdns_question g s (cstr q) (rd16 m off) md in
           mdns_questions g s m len k (off + 4) (want OR w) md)"

definition mdns_rx :: "dante_dev \<Rightarrow> tx \<Rightarrow> u8 \<Rightarrow> datagram \<Rightarrow> mdns \<Rightarrow> net \<Rightarrow> mdns \<times> net" where
  "mdns_rx g s adv d md nt =
    (let m = ptr_of (dg_payload d); len = length (dg_payload d) in
     if len < 12 then (md, nt)
     else if rd16 m 2 AND 0x8000 \<noteq> 0 then (md, nt)
     else if rd16 m 4 = 0 then (md, nt)
     else
       let md = md\<lparr>md_rx_queries := md_rx_queries md + 1\<rparr> in
       case mdns_questions g s m len (unat (rd16 m 4)) 12 0 md of
         (None, md) \<Rightarrow> (md, nt)
       | (Some want, md) \<Rightarrow> send_response g s adv want md nt)"

section \<open>Lifecycle\<close>

definition mdns_announce_md :: "mdns \<Rightarrow> mdns" where
  "mdns_announce_md md = md\<lparr>announce_left := 3, announce_next_ms := 0, chan_resweep := DANTE_TX_CHANNELS\<rparr>"

definition mdns_poll :: "dante_dev \<Rightarrow> tx \<Rightarrow> u8 \<Rightarrow> u32 \<Rightarrow> mdns \<Rightarrow> net \<Rightarrow> mdns \<times> net" where
  "mdns_poll g s adv now md nt =
    (let (md, nt) = (if chan_resweep md \<noteq> 0 then
           let md = md\<lparr>want_idx := DANTE_TX_CHANNELS - chan_resweep md + 1\<rparr>;
               (md, nt) = send_response g s adv W_CHAN_ONE md nt in
           (md\<lparr>chan_resweep := chan_resweep md - 1\<rparr>, nt)
         else (md, nt)) in
     if announce_left md = 0 then (md, nt)
     else if announce_next_ms md \<noteq> 0 \<and> sint (now - announce_next_ms md) < 0 then (md, nt)
     else
       let (md, nt) = send_response g s adv (W_ARC_PTR OR W_ARC_SRV OR W_ARC_TXT OR W_CMC_PTR OR W_CMC_SRV OR
             W_CMC_TXT OR W_A) md nt in
       (md\<lparr>md_tx_announce := md_tx_announce md + 1, announce_left := announce_left md - 1,
           announce_next_ms := now + 1000\<rparr>, nt))"

text \<open>The names built at start, over whatever the variables held.\<close>

definition mdns_names :: "dante_dev \<Rightarrow> mdns \<Rightarrow> mdns" where
  "mdns_names g md =
    (let md = md\<lparr>n_host := cat2 (DANTE_MAX_NAME + 8) (hostname g) (ascii ''.local''),
           n_arc_svc := cat2 48 (ascii ''_netaudio-arc._udp'') (ascii ''.local''),
           n_cmc_svc := cat2 48 (ascii ''_netaudio-cmc._udp'') (ascii ''.local''),
           n_chan_svc := cat2 48 (ascii ''_netaudio-chan._udp'') (ascii ''.local''),
           n_bund_svc := cat2 48 (ascii ''_netaudio-bund._udp'') (ascii ''.local''),
           n_arc_inst := cat2 (DANTE_MAX_NAME + 48) (dd_name g) (ascii ''._netaudio-arc._udp.local''),
           n_cmc_inst := cat2 (DANTE_MAX_NAME + 48) (dd_name g) (ascii ''._netaudio-cmc._udp.local'')\<rparr> in
     md\<lparr>lcq_host := map lc (n_host md), lcq_arc_inst := map lc (n_arc_inst md), lcq_cmc_inst := map lc (n_cmc_inst md)\<rparr>)"

definition mdns_init :: "dante_dev \<Rightarrow> mdns \<Rightarrow> net \<Rightarrow> mdns \<times> net" where
  "mdns_init g md nt =
    (let md = mdns_names g md;
         nt = snd (net_udp_bind MDNS_PORT (Some Mdns_Rx) nt) in
     (mdns_announce_md md, snd (net_igmp_join mdns_group nt)))"

end
