(* ===== verification/Mdns_Names.thy ===== *)
theory Mdns_Names
  imports Mdns
begin

text \<open>
  The two sides of a DNS name: what \<^theory_text>\<open>name_put\<close> writes, pointers into the earlier
  part of the message included, \<^theory_text>\<open>name_decode\<close> reads back in lower case.
\<close>

section \<open>What a name on the wire is\<close>

text \<open>
  \<open>name_at m len off ls j\<close>: at \<open>off\<close> of a message of \<open>len\<close> bytes there is a name with the
  labels \<open>ls\<close>, through \<open>j\<close> pointers, and the message goes on at \<open>e\<close>.
\<close>

inductive name_at :: "ptr \<Rightarrow> nat \<Rightarrow> nat \<Rightarrow> u8 list list \<Rightarrow> nat \<Rightarrow> nat \<Rightarrow> bool" for m len where
  stop: "off < len \<Longrightarrow> m off = 0 \<Longrightarrow> name_at m len off [] 0 (off + 1)"
| label: "name_at m len (off + 1 + length l) ls j e \<Longrightarrow> l \<noteq> [] \<Longrightarrow> length l \<le> 63 \<Longrightarrow> off + 1 + length l \<le> len \<Longrightarrow>
    m off = of_nat (length l) \<Longrightarrow> bytes_at m (off + 1) (length l) = l \<Longrightarrow> name_at m len off (l # ls) j e"
| jump: "name_at m len to ls j e \<Longrightarrow> to < 16384 \<Longrightarrow> off + 1 < len \<Longrightarrow> m off = of_nat (0xC0 + to div 256) \<Longrightarrow>
    m (off + 1) = of_nat (to mod 256) \<Longrightarrow> name_at m len off ls (Suc j) (off + 2)"

text \<open>A longer message that starts with the same bytes holds the same names.\<close>

lemma name_at_mono:
  assumes "name_at m len off ls j e" "len \<le> len'" "\<And>i. i < len \<Longrightarrow> m' i = m i"
  shows "name_at m' len' off ls j e"
  using assms
proof (induction)
  case (label off l ls j e)
  have "bytes_at m' (off + 1) (length l) = bytes_at m (off + 1) (length l)"
    using label.hyps label.prems by (intro bytes_at_cong) auto
  then show ?case using label by (intro name_at.label) auto
next
  case (stop off)
  then show ?case by (intro name_at.stop) simp_all
next
  case (jump to ls j e off)
  then show ?case by (intro name_at.jump) simp_all
qed

text \<open>The dotted text a decoder appends for a list of labels.\<close>

definition join_labels :: "u8 list \<Rightarrow> u8 list list \<Rightarrow> u8 list" where
  "join_labels out ls = foldl (\<lambda>o' l. (if o' = [] then [] else o' @ [46]) @ map lc l) out ls"

lemma join_labels_simps [simp]:
  "join_labels out [] = out"
  "join_labels out (l # ls) = join_labels ((if out = [] then [] else out @ [46]) @ map lc l) ls"
  by (simp_all add: join_labels_def)

lemma join_labels_length: "length out \<le> length (join_labels out ls)"
proof (induction ls arbitrary: out)
  case (Cons l ls)
  show ?case using Cons.IH [of "(if out = [] then [] else out @ [46]) @ map lc l"] by (auto split: if_splits)
qed simp

section \<open>Decoding\<close>

text \<open>The top two bits of a byte tell a label from a pointer.\<close>

lemma top_bits: "(l :: u8) AND 0xC0 = push_bit 6 (drop_bit 6 l)"
proof (rule bit_word_eqI)
  fix n assume "n < LENGTH(8)"
  then consider "n = 0" | "n = 1" | "n = 2" | "n = 3" | "n = 4" | "n = 5" | "n = 6" | "n = 7" by fastforce
  then show "bit (l AND 0xC0) n = bit (push_bit 6 (drop_bit 6 l)) n" by cases (simp_all add: bit_simps)
qed

lemma low_bits: "(l :: u8) AND 0x3F = take_bit 6 l"
proof -
  have "(mask 6 :: u8) = 0x3F" by (simp add: mask_eq_exp_minus_1)
  then show ?thesis by (simp add: take_bit_eq_mask)
qed

lemma label_byte:
  assumes "0 < n" "n \<le> (63 :: nat)" "l = (of_nat n :: u8)"
  shows "l \<noteq> 0" "l AND 0xC0 \<noteq> 0xC0" "l AND 0xC0 = 0" "unat l = n"
proof -
  show u: "unat l = n" using assms by (simp add: unat_of_nat)
  then show "l \<noteq> 0" using assms(1) by auto
  have "unat (drop_bit 6 l) = 0" using u assms(2) by (simp add: unat_drop_bit)
  then have "drop_bit 6 l = 0" by (simp add: unat_zero_iff)
  then show "l AND 0xC0 = 0" "l AND 0xC0 \<noteq> 0xC0" by (simp_all add: top_bits)
qed

lemma jump_bytes:
  assumes "to < 16384" "a = (of_nat (0xC0 + to div 256) :: u8)" "b = (of_nat (to mod 256) :: u8)"
  shows "a \<noteq> 0" "a AND 0xC0 = 0xC0" "unat (push_bit 8 (ucast (a AND 0x3F)) OR ucast b :: u16) = to"
proof -
  have q: "to div 256 < 64" using assms(1) by (simp add: less_mult_imp_div_less)
  have ua: "unat a = 192 + to div 256" and ub: "unat b = to mod 256"
    unfolding assms(2,3) unat_of_nat using q by simp_all
  show "a \<noteq> 0" using ua by auto
  have "unat (drop_bit 6 a) = 3" using ua q by (simp add: unat_drop_bit)
  then have "drop_bit 6 a = 3" by (simp add: word_unat_eq_iff)
  then show "a AND 0xC0 = 0xC0" by (simp add: top_bits)
  have "(192 + n) mod 64 = n" if "n < 64" for n :: nat using mod_mult_self3 [of 3 64 n] that by simp
  then have "(192 + to div 256) mod 64 = to div 256" using q by blast
  then have x: "unat (a AND 0x3F) = to div 256" by (simp only: low_bits unat_take_bit ua) simp
  have "unat (push_bit 8 (ucast (a AND 0x3F)) OR ucast b :: u16) = 256 * unat (a AND 0x3F) + unat b"
    using unat_rd16 [of "\<lambda>i. if i = 0 then a AND 0x3F else b" 0] by (simp add: rd16_def)
  then show "unat (push_bit 8 (ucast (a AND 0x3F)) OR ucast b :: u16) = to"
    by (simp only: x ub mult_div_mod_eq)
qed

text \<open>Decoding follows a name of at most eight pointers to its end.\<close>

lemma name_loop_at:
  assumes "name_at m len off ls j e" "jumps + j \<le> 8" "length (join_labels out ls) < outlen"
  shows "name_loop m len outlen off nxt jumps out = Some (if nxt \<noteq> 0 then nxt else e, join_labels out ls)"
  using assms
proof (induction arbitrary: jumps out nxt)
  case (stop off)
  then show ?case by (subst name_loop.simps) auto
next
  case (label off l ls j e)
  let ?out = "(if out = [] then [] else out @ [46]) @ map lc l"
  have b: "m off \<noteq> 0" "m off AND 0xC0 \<noteq> 0xC0" "m off AND 0xC0 = 0" "unat (m off) = length l"
    using label_byte [of "length l" "m off"] label.hyps by auto
  have "length ?out < outlen" using label.prems(2) join_labels_length [of ?out ls] by simp
  then have o: "out_label outlen l (out_dot outlen out) = ?out"
    using label.hyps(2) by (cases "out = []") (auto simp: out_label_def out_dot_def)
  have "off < len" using label.hyps(4) by simp
  then have "name_loop m len outlen off nxt jumps out = name_loop m len outlen (off + 1 + length l) nxt jumps ?out"
    using b label.hyps o by (subst name_loop.simps) (simp add: Let_def)
  then show ?case using label.IH [of jumps ?out nxt] label.prems by simp
next
  case (jump to ls j e off)
  note b = jump_bytes [OF jump.hyps(2,4,5)]
  let ?nxt = "if nxt = 0 then off + 2 else nxt"
  have "name_loop m len outlen off nxt jumps out = name_loop m len outlen to ?nxt (jumps + 1) out"
    using b jump.hyps(3) jump.prems(1) by (subst name_loop.simps) (simp add: Let_def)
  then show ?case using jump.IH [of "jumps + 1" out ?nxt] jump.prems by simp
qed

section \<open>Encoding\<close>

text \<open>A dotted name the protocol can carry: labels of 1 to 63 bytes.\<close>

function labels_of :: "u8 list \<Rightarrow> u8 list list" where
  "labels_of name = (if name = [] then [] else label_of name # labels_of (after_label name))"
  by pat_completeness auto
termination
  by (relation "measure length") (auto simp: after_label_shorter)

declare labels_of.simps [simp del]

text \<open>Every cached name is in the message, at most \<open>k\<close> pointers deep.\<close>

definition cached :: "nat \<Rightarrow> u8 list \<Rightarrow> u8 list \<times> nat \<Rightarrow> bool" where
  "cached k p x \<longleftrightarrow> snd x < 16384 \<and> (\<exists>j e. j \<le> k \<and> name_at (ptr_of p) (length p) (snd x) (labels_of (fst x)) j e)"

definition cache_ok :: "nat \<Rightarrow> u8 list \<Rightarrow> ncache \<Rightarrow> bool" where
  "cache_ok k p c \<longleftrightarrow> (\<forall>x \<in> set c. cached k p x)"

lemma name_at_append:
  "name_at (ptr_of p) (length p) off ls j e \<Longrightarrow> name_at (ptr_of (p @ q)) (length (p @ q)) off ls j e"
  by (erule name_at_mono) (simp_all add: ptr_of_def nth_append)

lemma cached_append: "cached k p x \<Longrightarrow> cached k (p @ q) x"
  unfolding cached_def using name_at_append by blast

lemma cached_mono: "cached k p x \<Longrightarrow> k \<le> k' \<Longrightarrow> cached k' p x"
  unfolding cached_def using order_trans by blast

lemma nc_find_Some: "nc_find c name = Some off \<Longrightarrow> (name, off) \<in> set c"
  by (auto simp: nc_find_def find_Some_iff) (metis nth_mem prod.collapse snd_conv)


definition good_name :: "u8 list \<Rightarrow> bool" where
  "good_name name \<longleftrightarrow> length name < NC_NAME \<and> (\<forall>l \<in> set (labels_of name). l \<noteq> [] \<and> length l \<le> 63)"

lemma labels_of_Cons: "name \<noteq> [] \<Longrightarrow> labels_of name = label_of name # labels_of (after_label name)"
  by (subst labels_of.simps) simp

lemma labels_of_Nil [simp]: "labels_of [] = []"
  by (subst labels_of.simps) simp

lemma take_label: "take (length (label_of name)) name = label_of name"
  unfolding label_of_def by (metis takeWhile_eq_take)

lemma put_label_whole: "length (label_of name) \<le> 63 \<Longrightarrow> put_label name = of_nat (length (label_of name)) # label_of name"
  by (simp add: put_label_def Let_def min_def take_label)

text \<open>A written label extends the name after it; a pointer is the name it points to.\<close>

lemma name_at_label:
  assumes "name_at (ptr_of (p @ of_nat (length l) # l @ r)) n (length p + 1 + length l) ls j e"
    and "n = length (p @ of_nat (length l) # l @ r)" "l \<noteq> []" "length l \<le> 63"
  shows "name_at (ptr_of (p @ of_nat (length l) # l @ r)) n (length p) (l # ls) j e"
proof (rule name_at.label)
  show "ptr_of (p @ of_nat (length l) # l @ r) (length p) = of_nat (length l)" by (rule ptr_of_at)
  show "bytes_at (ptr_of (p @ of_nat (length l) # l @ r)) (length p + 1) (length l) = l"
    by (subst bytes_at_ptr_of) simp_all
qed (use assms in \<open>simp_all\<close>)

lemma name_at_ptr:
  assumes "name_at (ptr_of p) (length p) to ls j e" "to < 16384"
  shows "name_at (ptr_of (p @ nc_ptr to)) (length (p @ nc_ptr to)) (length p) ls (Suc j) (length p + 2)"
proof (rule name_at.jump)
  show "name_at (ptr_of (p @ nc_ptr to)) (length (p @ nc_ptr to)) to ls j e" using assms(1) by (rule name_at_append)
  have "to div 256 mod 64 = to div 256" using assms(2) by (simp add: less_mult_imp_div_less)
  then show "ptr_of (p @ nc_ptr to) (length p) = of_nat (0xC0 + to div 256)"
    "ptr_of (p @ nc_ptr to) (length p + 1) = of_nat (to mod 256)"
    by (simp_all add: ptr_of_def nc_ptr_def nth_append)
qed (use assms(2) in \<open>simp_all add: nc_ptr_def\<close>)


definition name_ok :: "u8 list \<Rightarrow> u8 list \<Rightarrow> u8 list \<Rightarrow> nat \<Rightarrow> bool" where
  "name_ok p p' name k \<longleftrightarrow> (\<exists>q. p' = p @ q) \<and>
     (\<exists>j. j \<le> k \<and> name_at (ptr_of p') (length p') (length p) (labels_of name) j (length p'))"

lemma name_ok_cached: "name_ok p p' name k \<Longrightarrow> length p < 16384 \<Longrightarrow> cached k p' (name, length p)"
  by (auto simp: name_ok_def cached_def)

lemma nc_add_new:
  assumes "length name < NC_NAME"
  shows "\<exists>new. nc_add name off c = c @ new \<and> set new \<subseteq> {(name, off)} \<and> (new \<noteq> [] \<longrightarrow> off < 16384)"
  using assms by (auto simp: nc_add_def)

lemma put_labels_reads:
  assumes "put_labels first p c cur = (p', c')" "good_name cur"
    and "\<And>x. x \<in> set c \<Longrightarrow> cached k p x \<and> k < K \<or> length cur < length (fst x) \<or> (first \<and> length cur = length (fst x))"
  shows "name_ok p p' cur (K) \<and> (\<exists>new. c' = c @ new \<and> (\<forall>x \<in> set new. cached (K) p' x))"
  using assms
proof (induction "length cur" arbitrary: first p c cur rule: less_induct)
  case less
  show ?case
  proof (cases "cur = []")
    case True
    then have "p' = p @ [0]" "c' = c" using less.prems(1) by (simp_all add: put_labels.simps)
    moreover have "name_at (ptr_of (p @ [0])) (length (p @ [0])) (length p) [] 0 (length p + 1)"
      by (rule name_at.stop) (simp_all add: ptr_of_def)
    ultimately show ?thesis by (auto simp: name_ok_def True)
  next
    case ne: False
    note ls = labels_of_Cons [OF ne]
    show ?thesis
    proof (cases "if first then None else nc_find c cur")
      case (Some to)
      then have "\<not> first" "(cur, to) \<in> set c" by (auto split: if_splits dest: nc_find_Some)
      then have "cached k p (cur, to)" and K: "k < K" using less.prems(3) by fastforce+
      then obtain j e where n: "j \<le> k" "name_at (ptr_of p) (length p) to (labels_of cur) j e" "to < 16384"
        by (auto simp: cached_def)
      have "p' = p @ nc_ptr to" "c' = c" using less.prems(1) ne Some by (simp_all add: put_labels.simps)
      moreover have "length (p @ nc_ptr to) = length p + 2" by (simp add: nc_ptr_def)
      ultimately show ?thesis using name_at_ptr [OF n(2,3)] n(1) K
        by (auto simp: name_ok_def intro!: exI [of _ "Suc j"])
    next
      case None
      let ?p = "p @ put_label cur" and ?c = "if first then c else nc_add cur (length p) c"
      have good: "good_name (after_label cur)" "label_of cur \<noteq> []" "length (label_of cur) \<le> 63"
        using less.prems(2) after_label_shorter [OF ne] by (auto simp: good_name_def ls)
      obtain add where add: "?c = c @ add" "set add \<subseteq> {(cur, length p)}" "add \<noteq> [] \<longrightarrow> length p < 16384"
      proof (cases first)
        case True then show thesis by (intro that [of "[]"]) simp_all
      next
        case False then show thesis using nc_add_new [of cur "length p" c] less.prems(2) that by (auto simp: good_name_def)
      qed
      have r: "put_labels False ?p ?c (after_label cur) = (p', c')"
        using less.prems(1) ne None by (subst (asm) put_labels.simps) simp
      have "cached k ?p x \<and> k < K \<or> length (after_label cur) < length (fst x) \<or> (False \<and> length (after_label cur) = length (fst x))"
        if "x \<in> set ?c" for x
        using that less.prems(3) [of x] cached_append [of k p x] add(1,2) after_label_shorter [OF ne] by fastforce
      from less.hyps [OF after_label_shorter [OF ne] r good(1) this]
      obtain new q j where h: "c' = ?c @ new" "\<forall>x \<in> set new. cached (K) p' x" "p' = ?p @ q" "j \<le> K"
        "name_at (ptr_of p') (length p') (length ?p) (labels_of (after_label cur)) j (length p')"
        by (auto simp: name_ok_def)
      have w: "p' = p @ of_nat (length (label_of cur)) # label_of cur @ q" using h(3) good(3) by (simp add: put_label_whole)
      have "name_at (ptr_of p') (length p') (length p) (labels_of cur) j (length p')"
        unfolding ls using h(5) good(2,3) by (simp add: w put_label_whole name_at_label)
      then have ok: "name_ok p p' cur (K)" using h(4) w by (auto simp: name_ok_def)
      then have "\<forall>x \<in> set add. cached (K) p' x"
        using add(2,3) name_ok_cached [OF ok] by (cases "add = []") auto
      then show ?thesis using ok h(1,2) add(1) by auto
    qed
  qed
qed

text \<open>
  A name put after a cache whose entries are at most \<open>k\<close> pointers deep is at most one deeper,
  and so are the entries it adds; after an empty cache there is no pointer at all.
\<close>

lemma name_put_reads:
  assumes "name_put name (p, c) = (p', c')" "good_name name" "\<And>x. x \<in> set c \<Longrightarrow> cached k p x \<and> k < K"
  shows "name_ok p p' name K \<and> (\<exists>new. c' = c @ new \<and> (\<forall>x \<in> set new. cached K p' x))"
proof (cases "nc_find c name")
  case (Some to)
  then have "cached k p (name, to)" "k < K" using assms(3) nc_find_Some by fastforce+
  then obtain j e where n: "j \<le> k" "name_at (ptr_of p) (length p) to (labels_of name) j e" "to < 16384" "k < K"
    by (auto simp: cached_def)
  have e: "p' = p @ nc_ptr to" "c' = c" using assms(1) Some by (simp_all add: name_put_def)
  moreover have "length (p @ nc_ptr to) = length p + 2" by (simp add: nc_ptr_def)
  ultimately have "name_ok p p' name K" using name_at_ptr [OF n(2,3)] n(1,4)
    by (auto simp: name_ok_def intro!: exI [of _ "Suc j"])
  then show ?thesis by (simp add: e(2))
next
  case None
  obtain add where add: "nc_add name (length p) c = c @ add" "set add \<subseteq> {(name, length p)}" "add \<noteq> [] \<longrightarrow> length p < 16384"
    using nc_add_new [of name "length p" c] assms(2) by (auto simp: good_name_def)
  have "put_labels True p (c @ add) name = (p', c')" using assms(1) None add(1) by (simp add: name_put_def)
  from put_labels_reads [OF this assms(2), of k K]
  have r: "name_ok p p' name K" "\<exists>new. c' = (c @ add) @ new \<and> (\<forall>x \<in> set new. cached K p' x)"
    using assms(3) add(2) by force+
  have "\<forall>x \<in> set add. cached K p' x"
    using add(2,3) name_ok_cached [OF r(1)] by (cases "add = []") auto
  then show ?thesis using r by auto
qed

section \<open>Messages as sequences of names and data\<close>

text \<open>The cache stays within its slots.\<close>

lemma put_labels_small: "length c \<le> NC_MAX \<Longrightarrow> length (snd (put_labels first p c cur)) \<le> NC_MAX"
proof (induction first p c cur rule: put_labels.induct)
  case (1 first p c cur)
  have "length (nc_add cur n c) \<le> NC_MAX" for n using "1.prems" by (simp add: nc_add_def)
  then show ?case
    using "1.IH" "1.prems" by (subst put_labels.simps) (auto split: option.splits)
qed

lemma name_put_small: "length (snd w) \<le> NC_MAX \<Longrightarrow> length (snd (name_put name w)) \<le> NC_MAX"
  by (cases w) (auto simp: name_put_def nc_add_def intro!: put_labels_small split: option.splits)

text \<open>A first name leaves all its tails in the cache.\<close>

lemma nc_find_longer: "\<forall>x \<in> set c. length cur < length (fst x) \<Longrightarrow> nc_find c cur = None"
  by (auto simp: nc_find_def find_None_iff)

lemma put_labels_grow:
  assumes "good_name cur" "\<forall>x \<in> set c. length cur < length (fst x) \<or> (first \<and> length cur = length (fst x))"
    and "cur \<noteq> [] \<Longrightarrow> length p + length cur < 16384" "length c \<le> NC_MAX"
  shows "min NC_MAX (length c + length (labels_of cur) - (if first then 1 else 0)) \<le> length (snd (put_labels first p c cur))"
  using assms
proof (induction "length cur" arbitrary: first p c cur rule: less_induct)
  case less
  show ?case
  proof (cases "cur = []")
    case True
    then show ?thesis by (simp add: put_labels.simps)
  next
    case ne: False
    note sh = after_label_shorter [OF ne] and ls = labels_of_Cons [OF ne]
    let ?c = "if first then c else nc_add cur (length p) c"
    have none: "(if first then None else nc_find c cur) = None" using less.prems(2) nc_find_longer by auto
    have g: "good_name (after_label cur)" "length (label_of cur) \<le> 63"
      using less.prems(1) sh by (auto simp: good_name_def ls)
    have lp: "length (p @ put_label cur) + length (after_label cur) < 16384" if "after_label cur \<noteq> []"
    proof -
      have "length (label_of cur) + length (dropWhile (\<lambda>c. c \<noteq> 46) cur) = length cur"
        unfolding label_of_def by (metis length_append takeWhile_dropWhile_id)
      moreover have "dropWhile (\<lambda>c. c \<noteq> 46) cur \<noteq> []" using that by (metis after_label_def drop_Nil)
      ultimately show ?thesis
        using less.prems(3) ne g(2) by (cases "dropWhile (\<lambda>c. c \<noteq> 46) cur") (auto simp: put_label_whole after_label_def)
    qed
    have "length ?c \<ge> min NC_MAX (length c + (if first then 0 else 1))" "length ?c \<le> NC_MAX"
      using less.prems(3,4) ne by (auto simp: nc_add_def)
    moreover have "\<forall>x \<in> set ?c. length (after_label cur) < length (fst x) \<or> (False \<and> length (after_label cur) = length (fst x))"
    proof
      fix x assume x: "x \<in> set ?c"
      have "take (NC_NAME - 1) cur = cur" using less.prems(1) by (simp add: good_name_def NC_NAME_def)
      with x have "x \<in> set c \<or> fst x = cur" by (auto simp: nc_add_def split: if_splits)
      then show "length (after_label cur) < length (fst x) \<or> (False \<and> length (after_label cur) = length (fst x))"
        using less.prems(2) sh by (elim disjE) (fastforce dest: bspec)+
    qed
    note less.hyps [OF sh g(1) this lp]
    ultimately have "min NC_MAX (length ?c + length (labels_of (after_label cur))) \<le>
        length (snd (put_labels False (p @ put_label cur) ?c (after_label cur)))" by simp
    moreover have "put_labels first p c cur = put_labels False (p @ put_label cur) ?c (after_label cur)"
      using none ne by (subst put_labels.simps) simp
    moreover have "min NC_MAX (n + m + k) \<le> min NC_MAX (n' + k)" if "min NC_MAX (n + m) \<le> n'" for n m k n' :: nat
      using that by arith
    note this [OF \<open>length ?c \<ge> min NC_MAX (length c + (if first then 0 else 1))\<close>, of "length (labels_of (after_label cur))"]
    moreover have "length c + length (labels_of cur) - (if first then 1 else 0) =
        length c + (if first then 0 else 1) + length (labels_of (after_label cur))" by (simp add: ls)
    ultimately show ?thesis by (simp only:)
  qed
qed

text \<open>Pieces of a message: names go through the cache, other bytes are appended.\<close>

datatype piece = Name "u8 list" | Raw "u8 list"

fun write_piece :: "piece \<Rightarrow> u8 list \<times> ncache \<Rightarrow> u8 list \<times> ncache" where
  "write_piece (Name name) w = name_put name w"
| "write_piece (Raw bs) (p, c) = (p @ bs, c)"

definition writes :: "piece list \<Rightarrow> u8 list \<times> ncache \<Rightarrow> u8 list \<times> ncache" where
  "writes xs w = foldl (\<lambda>w x. write_piece x w) w xs"

lemma writes_simps [simp]:
  "writes [] w = w" "writes (x # xs) w = writes xs (write_piece x w)"
  "writes (xs @ ys) w = writes ys (writes xs w)"
  by (simp_all add: writes_def)

text \<open>
  The entry of rank \<open>i\<close> is at most \<open>i - 2\<close> pointers deep once there are three, so that every
  name is within the eight pointers the decoder follows.
\<close>

definition depth_ok :: "u8 list \<Rightarrow> ncache \<Rightarrow> bool" where
  "depth_ok p c \<longleftrightarrow> 3 \<le> length c \<and> length c \<le> NC_MAX \<and> (\<forall>i < length c. cached (i - 2) p (c ! i))"

lemma name_ok_mono: "name_ok p p' name k \<Longrightarrow> k \<le> k' \<Longrightarrow> name_ok p p' name k'"
  unfolding name_ok_def using order_trans by blast

lemma depth_first:
  assumes "name_put name (p, []) = (p', c')" "good_name name" "3 \<le> length (labels_of name)" "length p + length name < 16384"
  shows "depth_ok p' c' \<and> name_ok p p' name 0"
proof -
  have c: "nc_add name (length p) [] = [(name, length p)]" using assms(2,4) by (simp add: nc_add_def good_name_def NC_MAX_def NC_NAME_def)
  have r: "name_ok p p' name 0 \<and> (\<exists>new. c' = [] @ new \<and> (\<forall>x \<in> set new. cached 0 p' x))"
    by (rule name_put_reads [OF assms(1,2)]) simp
  have "min NC_MAX (length [(name, length p)] + length (labels_of name) - (if True then 1 else 0)) \<le>
      length (snd (put_labels True p [(name, length p)] name))"
    by (rule put_labels_grow) (use assms in \<open>simp_all add: NC_MAX_def\<close>)
  moreover have "c' = snd (put_labels True p [(name, length p)] name)"
    using assms(1) c by (simp add: name_put_def nc_find_def)
  ultimately have "3 \<le> length c'" using assms(3) by (simp add: NC_MAX_def)
  moreover have "length c' \<le> NC_MAX" using name_put_small [of "(p, [])" name] assms(1) by simp
  ultimately show ?thesis using r cached_mono [OF _ le0] by (auto simp: depth_ok_def)
qed

lemma depth_next:
  assumes "name_put name (p, c) = (p', c')" "good_name name" "depth_ok p c"
  shows "depth_ok p' c' \<and> name_ok p p' name 8"
proof -
  have d: "3 \<le> length c" "length c \<le> NC_MAX" "\<And>i. i < length c \<Longrightarrow> cached (i - 2) p (c ! i)"
    using assms(3) by (auto simp: depth_ok_def)
  have "cached (length c - 3) p x \<and> length c - 3 < length c - 2" if x: "x \<in> set c" for x
  proof -
    obtain i where "i < length c" "x = c ! i" using x by (auto simp: in_set_conv_nth)
    then show ?thesis using d(1) cached_mono [OF d(3) [of i], of "length c - 3"] by auto
  qed
  from name_put_reads [OF assms(1,2) this]
  obtain new where n: "name_ok p p' name (length c - 2)" "c' = c @ new" "\<forall>x \<in> set new. cached (length c - 2) p' x" by auto
  obtain q where q: "p' = p @ q" using n(1) by (auto simp: name_ok_def)
  have "cached (i - 2) p' (c' ! i)" if i: "i < length c'" for i
  proof (cases "i < length c")
    case True
    then show ?thesis using cached_append [OF d(3)] by (simp add: n(2) q nth_append)
  next
    case False
    then have "c' ! i \<in> set new" using i by (simp add: n(2) nth_append)
    then show ?thesis using n(3) cached_mono [of "length c - 2" p' "c' ! i" "i - 2"] False by simp
  qed
  moreover have "length c' \<le> NC_MAX" using name_put_small [of "(p, c)" name] assms(1) d(2) by simp
  moreover have "length c - 2 \<le> 8" using d(2) by (simp add: NC_MAX_def)
  ultimately show ?thesis using n(1,2) d(1) name_ok_mono by (auto simp: depth_ok_def)
qed

lemma depth_writes:
  assumes "depth_ok p c" "\<forall>nm. Name nm \<in> set xs \<longrightarrow> good_name nm" "writes xs (p, c) = (p', c')"
  shows "depth_ok p' c' \<and> (\<exists>q. p' = p @ q)"
  using assms
proof (induction xs arbitrary: p c)
  case (Cons x xs)
  obtain p1 c1 where w: "write_piece x (p, c) = (p1, c1)" by fastforce
  have "depth_ok p1 c1 \<and> (\<exists>q. p1 = p @ q)"
  proof (cases x)
    case (Name nm)
    then have "depth_ok p1 c1 \<and> name_ok p p1 nm 8" using w Cons.prems(1,2) by (intro depth_next) auto
    then show ?thesis by (auto simp: name_ok_def)
  next
    case (Raw bs)
    then show ?thesis using w Cons.prems(1) by (auto simp: depth_ok_def cached_append)
  qed
  moreover have "depth_ok p' c' \<and> (\<exists>q. p' = p1 @ q)" using Cons.prems calculation w by (intro Cons.IH) auto
  ultimately show ?case by auto
qed simp


section \<open>Reading a name back\<close>

lemma lc_dot [simp]: "lc 46 = 46"
  by (simp add: lc_def)

lemma dropWhile_label: "dropWhile (\<lambda>c. c \<noteq> 46) name = [] \<or> dropWhile (\<lambda>c. c \<noteq> 46) name = 46 # after_label name"
  by (cases "dropWhile (\<lambda>c. c \<noteq> 46) name") (auto simp: after_label_def dest: dropWhile_eq_Cons_conv [THEN iffD1])

lemma join_labels_of:
  assumes "good_name name" "name \<noteq> []" "last name \<noteq> 46"
  shows "join_labels out (labels_of name) = (if out = [] then [] else out @ [46]) @ map lc name"
  using assms
proof (induction "length name" arbitrary: name out rule: less_induct)
  case less
  note ls = labels_of_Cons [OF less.prems(2)] and sh = after_label_shorter [OF less.prems(2)]
  have g: "good_name (after_label name)" "label_of name \<noteq> []" using less.prems(1) sh by (auto simp: good_name_def ls)
  have n: "name = label_of name @ dropWhile (\<lambda>c. c \<noteq> 46) name" by (simp add: label_of_def)
  let ?out = "(if out = [] then [] else out @ [46]) @ map lc (label_of name)"
  show ?case
  proof (cases "dropWhile (\<lambda>c. c \<noteq> 46) name = []")
    case True
    then have "label_of name = name" using n by (metis append_Nil2)
    moreover have "after_label name = []" using True unfolding after_label_def by (simp only: drop_Nil)
    ultimately show ?thesis by (simp add: ls)
  next
    case False
    then have d: "dropWhile (\<lambda>c. c \<noteq> 46) name = 46 # after_label name" using dropWhile_label by blast
    with n have n': "name = label_of name @ 46 # after_label name" by simp
    have ne: "after_label name \<noteq> []" using less.prems(3) n' by (metis last_snoc)
    have "last (after_label name) \<noteq> 46" using less.prems(3) n' ne by (metis last_ConsR last_appendR list.distinct(1))
    from less.hyps [OF sh g(1) ne this, of ?out] g(2)
    have "join_labels out (labels_of name) = (?out @ [46]) @ map lc (after_label name)" by (simp add: ls)
    moreover have "map lc name = map lc (label_of name) @ 46 # map lc (after_label name)"
      using n' by (metis (no_types, lifting) lc_dot list.simps(9) map_append)
    ultimately show ?thesis by simp
  qed
qed

text \<open>At \<open>off\<close> of the message \<open>p\<close> a resolver reads \<open>name\<close>, and goes on at \<open>e\<close>.\<close>

definition reads_name :: "u8 list \<Rightarrow> nat \<Rightarrow> u8 list \<Rightarrow> nat \<Rightarrow> bool" where
  "reads_name p off name e \<longleftrightarrow> name_decode (ptr_of p) (length p) off 128 = Some (e, map lc name)"

lemma name_ok_reads:
  assumes "name_ok p p' name 8" "good_name name" "name \<noteq> []" "last name \<noteq> 46"
  shows "reads_name (p' @ q) (length p) name (length p')"
proof -
  obtain j where j: "j \<le> 8" "name_at (ptr_of p') (length p') (length p) (labels_of name) j (length p')"
    using assms(1) by (auto simp: name_ok_def)
  have n: "join_labels [] (labels_of name) = map lc name" using join_labels_of [OF assms(2-4), of "[]"] by simp
  then have "length (join_labels [] (labels_of name)) < 128" using assms(2) by (simp add: good_name_def NC_NAME_def)
  from name_loop_at [OF name_at_append [OF j(2)] _ this, of 0 q 0] j(1)
  show ?thesis by (simp add: reads_name_def name_decode_def n)
qed


section \<open>Records as pieces\<close>

text \<open>What a name adds depends on the length of the message so far, not on its bytes.\<close>

lemma put_labels_prefix:
  "length p1 = length p2 \<Longrightarrow> \<exists>q c'. put_labels first p1 c cur = (p1 @ q, c') \<and> put_labels first p2 c cur = (p2 @ q, c')"
proof (induction first p1 c cur arbitrary: p2 rule: put_labels.induct)
  case (1 first p c cur)
  show ?case
  proof (cases "cur = []")
    case True
    then show ?thesis by (auto simp: put_labels.simps)
  next
    case ne: False
    show ?thesis
    proof (cases "if first then None else nc_find c cur")
      case (Some to)
      then show ?thesis using ne by (auto simp: put_labels.simps)
    next
      case None
      have "length (p @ put_label cur) = length (p2 @ put_label cur)" using 1(2) by simp
      from 1(1) [OF ne None this] obtain q c' where
        "put_labels False (p @ put_label cur) (if first then c else nc_add cur (length p) c) (after_label cur) =
           ((p @ put_label cur) @ q, c')"
        "put_labels False (p2 @ put_label cur) (if first then c else nc_add cur (length p) c) (after_label cur) =
           ((p2 @ put_label cur) @ q, c')" by blast
      moreover have "put_labels first p c cur =
          put_labels False (p @ put_label cur) (if first then c else nc_add cur (length p) c) (after_label cur)"
        using ne None by (subst put_labels.simps) simp
      moreover have "put_labels first p2 c cur =
          put_labels False (p2 @ put_label cur) (if first then c else nc_add cur (length p) c) (after_label cur)"
        using ne None 1(2) by (subst put_labels.simps) simp
      ultimately show ?thesis by (metis append_assoc)
    qed
  qed
qed

lemma name_put_prefix:
  "length p1 = length p2 \<Longrightarrow> \<exists>q c'. name_put name (p1, c) = (p1 @ q, c') \<and> name_put name (p2, c) = (p2 @ q, c')"
  using put_labels_prefix [of p1 p2 True _ name]
  by (cases "nc_find c name") (auto simp: name_put_def)

lemma writes_prefix:
  "length p1 = length p2 \<Longrightarrow> \<exists>q c'. writes xs (p1, c) = (p1 @ q, c') \<and> writes xs (p2, c) = (p2 @ q, c')"
proof (induction xs arbitrary: p1 p2 c)
  case (Cons x xs)
  obtain q c' where q: "write_piece x (p1, c) = (p1 @ q, c')" "write_piece x (p2, c) = (p2 @ q, c')"
  proof (cases x)
    case (Name nm)
    then show thesis using name_put_prefix [OF Cons.prems, of nm c] that by auto
  next
    case (Raw bs)
    then show thesis using that [of bs c] by simp
  qed
  with Cons.IH [of "p1 @ q" "p2 @ q" c'] Cons.prems show ?case by fastforce
qed simp

text \<open>The length field of a record is filled in at the end; that is the same as writing it at once.\<close>

lemma rd_close_writes:
  "\<exists>n. rd_close (length p) (writes xs (rd_open (p, c))) = writes (Raw (be16 n) # xs) (p, c)"
proof -
  let ?f = "\<lambda>n. p @ be16 n"
  obtain q c' where w: "writes xs (p @ [0, 0], c) = ((p @ [0, 0]) @ q, c')" by (metis writes_prefix)
  define n where "n = (of_nat (length ((p @ [0, 0]) @ q) - (length p + 2)) :: u16)"
  have "writes xs (?f n, c) = (?f n @ q, c')"
    using writes_prefix [of "p @ [0, 0]" "?f n" xs c] w by auto
  moreover have "put (length p) (be16 n) ((p @ [0, 0]) @ q) = ?f n @ q" by (simp add: put_def)
  ultimately show ?thesis using w by (intro exI [of _ n]) (simp add: rd_close_def rd_open_def n_def)
qed

definition rr_head :: "u8 list \<Rightarrow> u16 \<Rightarrow> u16 \<Rightarrow> u32 \<Rightarrow> piece list" where
  "rr_head name typ cls ttl = [Name name, Raw (be16 typ @ be16 cls @ be32 ttl)]"

lemma put_rr_head_writes: "put_rr_head name typ cls ttl w = writes (rr_head name typ cls ttl) w"
  by (cases "name_put name w") (simp add: put_rr_head_def rr_head_def)

text \<open>The pieces of each record; the length of the data is the field given.\<close>

definition ptr_pieces :: "u16 \<Rightarrow> u8 list \<Rightarrow> u8 list \<Rightarrow> piece list" where
  "ptr_pieces n svc inst = rr_head svc DNS_T_PTR DNS_C_IN MDNS_TTL @ [Raw (be16 n), Name inst]"

definition srv_pieces :: "u16 \<Rightarrow> mdns \<Rightarrow> u8 list \<Rightarrow> u16 \<Rightarrow> piece list" where
  "srv_pieces n md inst port = rr_head inst DNS_T_SRV DNS_C_IN_FLUSH MDNS_TTL_A @
     [Raw (be16 n), Raw ([0, 0, 0, 0] @ be16 port), Name (n_host md)]"

definition txt_pieces :: "u16 \<Rightarrow> u8 list \<Rightarrow> u8 list \<Rightarrow> piece list" where
  "txt_pieces n inst txt = rr_head inst DNS_T_TXT DNS_C_IN_FLUSH MDNS_TTL_TXT @ [Raw (be16 n), Raw txt]"

definition a_pieces :: "mdns \<Rightarrow> ip4 \<Rightarrow> piece list" where
  "a_pieces md ip = rr_head (n_host md) DNS_T_A DNS_C_IN_FLUSH MDNS_TTL_A @ [Raw ([0, 4] @ ip_bytes ip)]"

lemma close_pieces:
  assumes "w' = writes hs w"
  shows "\<exists>n. rd_close (length (fst w')) (writes xs (rd_open w')) = writes (hs @ Raw (be16 n) # xs) w"
  using rd_close_writes [of "fst w'" xs "snd w'"] by (simp add: assms)

lemma put_ptr_writes: "\<exists>n. put_ptr svc inst w = writes (ptr_pieces n svc inst) w"
  using close_pieces [OF put_rr_head_writes [of svc DNS_T_PTR DNS_C_IN MDNS_TTL w], of "[Name inst]"]
  by (simp add: put_ptr_def ptr_pieces_def Let_def)

lemma put_srv_writes: "\<exists>n. put_srv md inst port w = writes (srv_pieces n md inst port) w"
  using close_pieces [OF put_rr_head_writes [of inst DNS_T_SRV DNS_C_IN_FLUSH MDNS_TTL_A w],
      of "[Raw ([0, 0, 0, 0] @ be16 port), Name (n_host md)]"]
  by (auto simp: put_srv_def srv_pieces_def Let_def split: prod.splits)

lemma put_txt_writes: "\<exists>n. put_txt inst txt w = writes (txt_pieces n inst txt) w"
  using close_pieces [OF put_rr_head_writes [of inst DNS_T_TXT DNS_C_IN_FLUSH MDNS_TTL_TXT w], of "[Raw txt]"]
  by (auto simp: put_txt_def txt_pieces_def Let_def split: prod.splits)

lemma put_a_writes: "put_a md ip w = writes (a_pieces md ip) w"
  by (simp add: put_a_def a_pieces_def put_rr_head_writes split: prod.splits)

end
