(* ===== verification/Mdns_Claims.thy ===== *)
theory Mdns_Claims
  imports Mdns_Names
begin

text \<open>
  What the responder answers: the channel a receiver asks for, the records it browses, the
  announcements, and the questions it gets wrong.
\<close>

section \<open>Sizes\<close>

lemma put_labels_length: "length (fst (put_labels first p c cur)) \<le> length p + length cur + 2"
proof (induction first p c cur rule: put_labels.induct)
  case (1 first p c cur)
  show ?case
  proof (cases "cur = []")
    case True
    then show ?thesis by (simp add: put_labels.simps)
  next
    case ne: False
    have n: "length (label_of cur) + length (dropWhile (\<lambda>c. c \<noteq> 46) cur) = length cur"
      unfolding label_of_def by (metis length_append takeWhile_dropWhile_id)
    have l: "length (put_label cur) \<le> 1 + length (label_of cur)" by (simp add: put_label_def Let_def)
    show ?thesis
    proof (cases "if first then None else nc_find c cur")
      case (Some to)
      then show ?thesis using ne by (simp add: put_labels.simps nc_ptr_def)
    next
      case None
      have "put_labels first p c cur =
          put_labels False (p @ put_label cur) (if first then c else nc_add cur (length p) c) (after_label cur)"
        using None ne by (subst put_labels.simps) simp
      moreover have "length (fst (put_labels False (p @ put_label cur) (if first then c else nc_add cur (length p) c) (after_label cur)))
          \<le> length p + length cur + 2"
      proof (cases "dropWhile (\<lambda>c. c \<noteq> 46) cur = []")
        case True
        then have "after_label cur = []" unfolding after_label_def by (simp only: drop_Nil)
        then show ?thesis using n l True by (simp add: put_labels.simps)
      next
        case False
        then have e: "dropWhile (\<lambda>c. c \<noteq> 46) cur = 46 # after_label cur" using dropWhile_label by blast
        have "length (dropWhile (\<lambda>c. c \<noteq> 46) cur) = 1 + length (after_label cur)" by (simp only: e) simp
        then show ?thesis using 1 [OF ne None] n l by simp
      qed
      ultimately show ?thesis by simp
    qed
  qed
qed

lemma name_put_length: "length (fst (name_put name w)) \<le> length (fst w) + length name + 2"
  using put_labels_length by (cases w) (auto simp: name_put_def nc_ptr_def split: option.splits)

fun piece_size :: "piece \<Rightarrow> nat" where
  "piece_size (Name name) = length name + 2"
| "piece_size (Raw bs) = length bs"

lemma writes_length: "length (fst (writes xs w)) \<le> length (fst w) + (\<Sum>x\<leftarrow>xs. piece_size x)"
proof (induction xs arbitrary: w)
  case (Cons x xs)
  have "length (fst (write_piece x w)) \<le> length (fst w) + piece_size x"
    using name_put_length by (cases x; cases w) (auto simp: add.assoc [symmetric])
  then show ?case using Cons.IH [of "write_piece x w"] by simp
qed simp

lemma num_rev_length: "v < 10 ^ k \<Longrightarrow> length (num_rev v) \<le> k"
proof (induction v arbitrary: k rule: num_rev.induct)
  case (1 v)
  show ?case
  proof (cases "v = 0")
    case False
    then obtain k' where k: "k = Suc k'" using 1(2) by (cases k) auto
    then have "v div 10 < 10 ^ k'" using 1(2) by (simp add: less_mult_imp_div_less mult.commute)
    then show ?thesis using 1(1) [OF False] by (subst num_rev.simps) (simp add: False k)
  qed (simp add: num_rev.simps)
qed

lemma txt_put_length: "length (txt_put s) \<le> 1 + length s"
  by (simp add: txt_put_def Let_def)

lemma length_ascii [simp]: "length (ascii s) = length s"
  by (simp add: ascii_def)

lemma txt_kv_length: "v < 10 ^ k \<Longrightarrow> 0 < k \<Longrightarrow> length (txt_put_kv_u key v) \<le> 1 + length key + k"
  using num_rev_length [of v k] txt_put_length [of "take 30 (ascii key) @ (if v = 0 then [dig 0] else rev (num_rev v))"]
  by (auto simp: txt_put_kv_u_def split: if_splits)

lemma latency_digits: "unat (dante_tx_latency_effective s) < 10 ^ 10"
  using unat_u32_less [of "dante_tx_latency_effective s"] by simp

lemma bundle_key_length: "length (bundle_key b k) \<le> 6"
  by (simp add: bundle_key_def)

lemma build_txt_chan_length: "ch < 100 \<Longrightarrow> length (build_txt_chan s adv ch) \<le> 200"
proof -
  assume "ch < 100"
  then have "length (txt_put_kv_u ''id='' ch) \<le> 6" using txt_kv_length [of ch 2 "''id=''"] by simp
  moreover have "length (txt_put_kv_u ''latency_ns='' (unat (dante_tx_latency_effective s))) \<le> 22"
    using txt_kv_length [OF latency_digits, of "''latency_ns=''" s] by simp
  moreover have "length (txt_put_kv_u ''nchan='' 8) \<le> 8" using txt_kv_length [of 8 1 "''nchan=''"] by simp
  moreover have "length (txt_put (ascii ''fpp='' @ (if adv \<ge> 10 then [dig (unat adv div 10)] else []) @ [dig (unat adv mod 10)] @ ascii '',2'')) \<le> 9"
    by (rule order_trans [OF txt_put_length]) simp
  moreover have "length (case dante_tx_chan_bundle (of_nat ch) s of None \<Rightarrow> [] | Some (bid, bpos) \<Rightarrow> txt_put (bundle_key bid bpos)) \<le> 7"
    using order_trans [OF txt_put_length] bundle_key_length by (auto split: option.splits prod.splits)
  moreover have "length (txt_put (ascii t)) \<le> 1 + length t" for t using txt_put_length [of "ascii t"] by simp
  note this [of "''txtvers=2''"] this [of "''dbcp1=0x1200''"] this [of "''dbcp=0x1004''"] this [of "''rate=48000''"]
    this [of "''en=24''"] this [of "''pcm=3 4''"] this [of "''enc=24''"] this [of "''at2''"]
  ultimately show ?thesis unfolding build_txt_chan_def by simp
qed

section \<open>The names of the device\<close>

text \<open>The name the firmware is built with.\<close>

definition dev :: "mac6 \<Rightarrow> dante_dev" where
  "dev mac = dante_dev_init mac"

lemma ascii_simps [simp]: "ascii [] = []" "ascii (c # cs) = of_char c # ascii cs"
  by (simp_all add: ascii_def)

lemma label_dot: "46 \<notin> set l \<Longrightarrow> label_of (l @ 46 # r) = l \<and> after_label (l @ 46 # r) = r"
  by (induction l) (auto simp: label_of_def after_label_def)

lemma labels_dot: "46 \<notin> set l \<Longrightarrow> labels_of (l @ 46 # r) = l # labels_of r"
  using label_dot by (subst labels_of.simps) auto

lemma labels_last: "46 \<notin> set l \<Longrightarrow> l \<noteq> [] \<Longrightarrow> labels_of l = [l]"
proof -
  assume "46 \<notin> set l" "l \<noteq> []"
  moreover from this(1) have "label_of l = l" by (auto simp: label_of_def takeWhile_eq_all_conv)
  moreover have "dropWhile (\<lambda>c. c \<noteq> 46) l = []" using \<open>46 \<notin> set l\<close> by (auto simp: dropWhile_eq_Nil_conv)
  then have "after_label l = []" unfolding after_label_def by (simp only: drop_Nil)
  ultimately show ?thesis by (simp add: labels_of_Cons)
qed


text \<open>The names in use are those the identity gives.\<close>

definition name_part :: "mdns \<Rightarrow> u8 list list" where
  "name_part md = [n_host md, n_arc_svc md, n_cmc_svc md, n_chan_svc md, n_bund_svc md, n_arc_inst md, n_cmc_inst md,
     lcq_host md, lcq_arc_inst md, lcq_cmc_inst md]"

definition served :: "mac6 \<Rightarrow> mdns \<Rightarrow> bool" where
  "served mac md \<longleftrightarrow> name_part md = name_part (mdns_names (dev mac) md)"

lemma dev_name_ascii: "dev_name = ascii ''N-Series-Switchover''"
  by (simp add: dev_name_def)

lemma dev_fields [simp]: "dd_name (dev mac) = ascii ''N-Series-Switchover''" "hostname (dev mac) = ascii ''N-Series-Switchover''"
  by (simp_all only: dev_def dante_dev_init_name dev_name_ascii)

lemma mdns_names_fields:
  "n_host (mdns_names (dev mac) md) = ascii ''N-Series-Switchover.local''"
  "n_arc_svc (mdns_names (dev mac) md) = ascii ''_netaudio-arc._udp.local''"
  "n_cmc_svc (mdns_names (dev mac) md) = ascii ''_netaudio-cmc._udp.local''"
  "n_chan_svc (mdns_names (dev mac) md) = ascii ''_netaudio-chan._udp.local''"
  "n_bund_svc (mdns_names (dev mac) md) = ascii ''_netaudio-bund._udp.local''"
  "n_arc_inst (mdns_names (dev mac) md) = ascii ''N-Series-Switchover._netaudio-arc._udp.local''"
  "n_cmc_inst (mdns_names (dev mac) md) = ascii ''N-Series-Switchover._netaudio-cmc._udp.local''"
  "lcq_arc_inst (mdns_names (dev mac) md) = ascii ''n-series-switchover._netaudio-arc._udp.local''"
  "lcq_cmc_inst (mdns_names (dev mac) md) = ascii ''n-series-switchover._netaudio-cmc._udp.local''"
  "lcq_host (mdns_names (dev mac) md) = ascii ''n-series-switchover.local''"
  by (simp_all add: mdns_names_def Let_def cat2_def DANTE_MAX_NAME_def lc_def)

lemma served_fields:
  assumes "served mac md"
  shows "n_host md = ascii ''N-Series-Switchover.local''" "n_arc_svc md = ascii ''_netaudio-arc._udp.local''"
    "n_cmc_svc md = ascii ''_netaudio-cmc._udp.local''" "n_chan_svc md = ascii ''_netaudio-chan._udp.local''"
    "n_bund_svc md = ascii ''_netaudio-bund._udp.local''" "n_arc_inst md = ascii ''N-Series-Switchover._netaudio-arc._udp.local''"
    "n_cmc_inst md = ascii ''N-Series-Switchover._netaudio-cmc._udp.local''"
    "lcq_arc_inst md = ascii ''n-series-switchover._netaudio-arc._udp.local''"
    "lcq_cmc_inst md = ascii ''n-series-switchover._netaudio-cmc._udp.local''" "lcq_host md = ascii ''n-series-switchover.local''"
  using assms by (simp_all add: served_def name_part_def mdns_names_fields)

lemma served_name_part: "name_part md' = name_part md \<Longrightarrow> served mac md' = served mac md"
  by (simp add: served_def name_part_def mdns_names_fields)

text \<open>A channel is its number before the name of the device.\<close>

definition chan_tail :: "u8 list" where
  "chan_tail = ascii ''@N-Series-Switchover._netaudio-chan._udp.local''"

definition chan_label :: "nat \<Rightarrow> u8 list" where
  "chan_label ch = dante_tx_channel_name (of_nat ch) DANTE_MAX_NAME"

lemma dig_set: "d < 10 \<Longrightarrow> 48 \<le> dig d \<and> dig d \<le> 57"
proof -
  assume "d < 10"
  then have "unat (of_nat (48 + d) :: u8) = 48 + d" unfolding unat_of_nat by simp
  then show ?thesis using \<open>d < 10\<close> by (simp only: dig_def word_le_nat_alt) simp
qed

lemma chan_label_digits: "\<forall>c \<in> set (chan_label ch). 48 \<le> c \<and> c \<le> 57" "0 < length (chan_label ch)" "length (chan_label ch) \<le> 2"
proof -
  have d: "48 \<le> (of_nat (48 + n mod 10) :: u8) \<and> (of_nat (48 + n mod 10) :: u8) \<le> 57" for n
    using dig_set [of "n mod 10"] by (simp add: dig_def)
  show "\<forall>c \<in> set (chan_label ch). 48 \<le> c \<and> c \<le> 57"
    unfolding chan_label_def dante_tx_channel_name_def DANTE_MAX_NAME_def using d by auto
  show "0 < length (chan_label ch)" "length (chan_label ch) \<le> 2"
    by (simp_all add: chan_label_def dante_tx_channel_name_def DANTE_MAX_NAME_def)
qed

lemma chan_inst_eq: "served mac md \<Longrightarrow> chan_inst (dev mac) md ch = chan_label ch @ chan_tail"
  using chan_label_digits(3) [of ch]
  by (simp add: chan_inst_def inst_name_def served_fields chan_label_def [symmetric] chan_tail_def MDNS_INST_MAX_def)

lemma ieq_iff: "ieq a b \<longleftrightarrow> map lc a = map lc b"
  by (induction a b rule: ieq.induct) auto


lemma find_only: "P x \<Longrightarrow> x \<in> set xs \<Longrightarrow> (\<And>y. y \<in> set xs \<Longrightarrow> P y \<Longrightarrow> y = x) \<Longrightarrow> List.find P xs = Some x"
proof (induction xs)
  case (Cons a xs)
  show ?case
  proof (cases "P a")
    case True
    then show ?thesis using Cons.prems(3) [of a] by simp
  next
    case False
    then have "x \<in> set xs" using Cons.prems(1,2) by auto
    then have "List.find P xs = Some x" using Cons.prems(1,3) by (intro Cons.IH) simp_all
    then show ?thesis using False by simp
  qed
qed simp

lemma lc_digit: "48 \<le> c \<Longrightarrow> c \<le> 57 \<Longrightarrow> lc c = c"
  by (auto simp: lc_def word_le_nat_alt)

lemma chan_label_at: "takeWhile (\<lambda>c. c \<noteq> 64) (map lc (chan_label ch @ chan_tail)) = chan_label ch"
proof -
  have "map lc (chan_label ch) = chan_label ch" using chan_label_digits(1) lc_digit by (simp add: map_idI)
  moreover have "\<forall>c \<in> set (chan_label ch). c \<noteq> 64" using chan_label_digits(1) [of ch] by (auto simp: word_le_nat_alt)
  moreover have "map lc chan_tail = 64 # tl (map lc chan_tail)" by (simp add: chan_tail_def lc_def)
  ultimately show ?thesis by (metis (mono_tags, lifting) map_append takeWhile.simps(2) takeWhile_append2 append_Nil2)
qed

lemma chan_inst_inject:
  assumes "c < 100" "c' < 100" "map lc (chan_label c @ chan_tail) = map lc (chan_label c' @ chan_tail)"
  shows "c = c'"
proof -
  have "chan_label c = chan_label c'" using assms(3) chan_label_at by metis
  then have "(of_nat c :: u16) = of_nat c'"
    using tx_channel_name_inject [of DANTE_MAX_NAME "of_nat c" "of_nat c'"] assms(1,2)
    by (simp add: chan_label_def DANTE_MAX_NAME_def unat_of_nat)
  then have "unat (of_nat c :: u16) = unat (of_nat c' :: u16)" by simp
  then show ?thesis using assms(1,2) by (simp add: unat_of_nat)
qed

lemma has_suffix_append: "map lc q = map lc (a @ b) \<Longrightarrow> has_suffix q b"
proof -
  assume a: "map lc q = map lc (a @ b)"
  then have "length q = length a + length b" by (metis length_append length_map)
  moreover have "map lc (drop (length a) q) = map lc b" using a by (metis append_eq_conv_conj drop_map length_map map_append)
  ultimately show ?thesis by (simp add: has_suffix_def ieq_iff)
qed

lemma match_chan:
  assumes "served mac md" "1 \<le> ch" "ch \<le> DANTE_TX_CHANNELS" "map lc q = map lc (chan_inst (dev mac) md ch)"
  shows "match_chan_inst (dev mac) md q = Some ch"
proof -
  have t: "chan_tail = ascii ''@N-Series-Switchover'' @ ascii ''._netaudio-chan._udp.local''" by (simp add: chan_tail_def)
  have "has_suffix q (ascii ''._netaudio-chan._udp.local'')"
    by (rule has_suffix_append [of _ "chan_label ch @ ascii ''@N-Series-Switchover''"]) (simp add: assms(4) chan_inst_eq [OF assms(1)] t)
  moreover have "List.find (\<lambda>c. ieq q (chan_inst (dev mac) md c)) [1..<DANTE_TX_CHANNELS + 1] = Some ch"
  proof (rule find_only)
    fix c assume c: "c \<in> set [1..<DANTE_TX_CHANNELS + 1]" "ieq q (chan_inst (dev mac) md c)"
    then have "map lc (chan_label c @ chan_tail) = map lc (chan_label ch @ chan_tail)"
      using assms(4) by (simp add: ieq_iff chan_inst_eq [OF assms(1)])
    then show "c = ch" using chan_inst_inject [of c ch] c(1) assms(3) by (simp add: DANTE_TX_CHANNELS_def)
  qed (use assms in \<open>auto simp: ieq_iff\<close>)
  ultimately show ?thesis by (simp only: match_chan_inst_def) simp
qed

text \<open>A question for a channel wants that channel.\<close>

lemma question_chan:
  assumes "served mac md" "1 \<le> ch" "ch \<le> DANTE_TX_CHANNELS" "map lc q = map lc (chan_inst (dev mac) md ch)"
    and "qtype = DNS_T_SRV \<or> qtype = DNS_T_TXT \<or> qtype = DNS_T_ANY"
  shows "mdns_question (dev mac) s q qtype md = (W_CHAN_ONE OR W_A, md\<lparr>want_idx := ch\<rparr>)"
proof -
  have "64 \<in> set (map lc q)" unfolding assms(4) chan_inst_eq [OF assms(1)] by (simp add: chan_tail_def lc_def)
  moreover have "64 \<notin> set (map lc n_services)" "64 \<notin> set (map lc (n_arc_svc md))" "64 \<notin> set (map lc (n_cmc_svc md))"
    "64 \<notin> set (map lc (lcq_arc_inst md))" "64 \<notin> set (map lc (lcq_cmc_inst md))" "64 \<notin> set (map lc (n_chan_svc md))"
    "64 \<notin> set (map lc (n_bund_svc md))"
    by (simp_all add: served_fields [OF assms(1)] n_services_def lc_def)
  ultimately have "q \<noteq> n_services" "q \<noteq> n_arc_svc md" "q \<noteq> n_cmc_svc md" "q \<noteq> lcq_arc_inst md" "q \<noteq> lcq_cmc_inst md"
    "q \<noteq> n_chan_svc md" "q \<noteq> n_bund_svc md" by blast+
  then show ?thesis using match_chan [OF assms(1-4)] assms(5) by (auto simp: mdns_question_def Let_def)
qed


section \<open>The answer to a channel query\<close>

definition counts_header :: "u16 \<Rightarrow> u16 \<Rightarrow> u8 list" where
  "counts_header an ar = [0, 0, 0x84, 0, 0, 0] @ be16 an @ [0, 0] @ be16 ar"

text \<open>Filling in the counts at the end is writing them at once.\<close>

lemma header_writes:
  "put 10 (be16 ar) (put 6 (be16 an) (fst (writes xs (mdns_header, [])))) = fst (writes (Raw (counts_header an ar) # xs) ([], []))"
proof -
  have "length mdns_header = length (counts_header an ar)" by (simp add: mdns_header_def counts_header_def)
  from writes_prefix [OF this, of xs "[]"] obtain q c' where
    "writes xs (mdns_header, []) = (mdns_header @ q, c')" "writes xs (counts_header an ar, []) = (counts_header an ar @ q, c')" by blast
  moreover have "put 10 (be16 ar) (put 6 (be16 an) (mdns_header @ q)) = counts_header an ar @ q"
    by (simp add: mdns_header_def counts_header_def put_def be16_def numeral_eq_Suc)
  ultimately show ?thesis by simp
qed

text \<open>The records of one channel: its SRV, its TXT and the address.\<close>

definition chan_pieces :: "u16 \<Rightarrow> u16 \<Rightarrow> mdns \<Rightarrow> u8 list \<Rightarrow> u8 list \<Rightarrow> ip4 \<Rightarrow> piece list" where
  "chan_pieces n k md inst txt ip = srv_pieces n md inst DANTE_PORT_FLOWS @ txt_pieces k inst txt @ a_pieces md ip"

lemma services_none: "put_services g md (W_CHAN_ONE OR W_A) a = a"
  by (simp add: put_services_def Let_def answer_if_def W_CHAN_ONE_def W_A_def W_SERVICES_def W_ARC_PTR_def W_ARC_SRV_def
      W_ARC_TXT_def W_CMC_PTR_def W_CMC_SRV_def W_CMC_TXT_def split: prod.splits)

lemma chan_message:
  obtains n k where "mdns_message g s adv ip (W_CHAN_ONE OR W_A) md =
    (fst (writes (Raw (counts_header 1 2) # chan_pieces n k md (chan_inst g md (want_idx md)) (build_txt_chan s adv (want_idx md)) ip)
       ([], [])), chan_ptr_start md)"
proof -
  let ?i = "chan_inst g md (want_idx md)" and ?t = "build_txt_chan s adv (want_idx md)"
  obtain n where n: "put_srv md ?i DANTE_PORT_FLOWS (mdns_header, []) = writes (srv_pieces n md ?i DANTE_PORT_FLOWS) (mdns_header, [])"
    using put_srv_writes by blast
  obtain k where k: "put_txt ?i ?t (writes (srv_pieces n md ?i DANTE_PORT_FLOWS) (mdns_header, [])) =
      writes (txt_pieces k ?i ?t) (writes (srv_pieces n md ?i DANTE_PORT_FLOWS) (mdns_header, []))"
    using put_txt_writes by blast
  have w: "(W_CHAN_ONE OR W_A) AND W_CHAN_PTR = 0" "(W_CHAN_ONE OR W_A) AND W_BUND_PTR = 0" "(W_CHAN_ONE OR W_A) AND W_CHAN_ONE \<noteq> 0"
    "(W_CHAN_ONE OR W_A) AND W_BUND_ONE = 0" "(W_CHAN_ONE OR W_A) AND W_A \<noteq> 0"
    by (simp_all add: W_CHAN_ONE_def W_A_def W_CHAN_PTR_def W_BUND_PTR_def W_BUND_ONE_def)
  have "mdns_message g s adv ip (W_CHAN_ONE OR W_A) md = (put 10 (be16 2) (put 6 (be16 1)
      (fst (put_a md ip (put_txt ?i ?t (put_srv md ?i DANTE_PORT_FLOWS (mdns_header, [])))))), chan_ptr_start md)"
    unfolding mdns_message_def services_none Let_def put_one_def answer_if_def using w by simp
  then show thesis
    using header_writes [of 2 1 "chan_pieces n k md ?i ?t ip"] that [of n k]
    by (simp add: n k put_a_writes chan_pieces_def)
qed

lemma good_names:
  "good_name (chan_label ch @ chan_tail)" "3 \<le> length (labels_of (chan_label ch @ chan_tail))"
  "good_name (ascii ''N-Series-Switchover.local'')"
proof -
  have nd: "46 \<notin> set (chan_label ch)" using chan_label_digits(1) [of ch] by (auto simp: word_le_nat_alt)
  have t: "chan_label ch @ chan_tail = (chan_label ch @ ascii ''@N-Series-Switchover'') @ 46 # ascii ''_netaudio-chan'' @ 46 # ascii ''_udp'' @ 46 # ascii ''local''"
    by (simp add: chan_tail_def)
  have l: "labels_of (chan_label ch @ chan_tail) =
      [chan_label ch @ ascii ''@N-Series-Switchover'', ascii ''_netaudio-chan'', ascii ''_udp'', ascii ''local'']"
    unfolding t by (subst labels_dot, simp add: nd, subst labels_dot, simp, subst labels_dot, simp, subst labels_last) simp_all
  show "good_name (chan_label ch @ chan_tail)" "3 \<le> length (labels_of (chan_label ch @ chan_tail))"
    using chan_label_digits(3) [of ch] unfolding good_name_def l by (simp_all add: chan_tail_def NC_NAME_def)
  have h: "ascii ''N-Series-Switchover.local'' = ascii ''N-Series-Switchover'' @ 46 # ascii ''local''" by simp
  have "labels_of (ascii ''N-Series-Switchover.local'') = [ascii ''N-Series-Switchover'', ascii ''local'']"
    unfolding h by (subst labels_dot, simp, subst labels_last) simp_all
  then show "good_name (ascii ''N-Series-Switchover.local'')" by (simp add: good_name_def NC_NAME_def)
qed


text \<open>A response to the group always leaves.\<close>

lemma group_commit:
  assumes "tx_wf nt" "length p \<le> 1400"
  shows "\<exists>F nt'. net_udp_commit mdns_group MDNS_PORT MDNS_PORT (length p) 0 (payload_put 0 p nt) = (0, nt') \<and>
    wire nt' = wire nt @ [F] \<and> carries MDNS_PORT F p"
proof -
  have arp: "net_arp_lookup mdns_group nt = (Some (net_mcast_mac mdns_group), nt)"
    by (simp add: net_arp_lookup_def mdns_group_def)
  show ?thesis
    using payload_commit_ok [OF assms arp, of MDNS_PORT MDNS_PORT 0] udp_frame_carries [OF assms(2)] by blast
qed

lemma send_response_sends:
  assumes "tx_wf nt" "want \<noteq> 0" "mdns_message g s adv (g_net_ip nt) want md = (p, start)" "length p \<le> 1400"
    and "send_response g s adv want md nt = (md', nt')"
  shows "\<exists>F. wire nt' = wire nt @ [F] \<and> carries MDNS_PORT F p"
    "md' = md\<lparr>md_tx_responses := md_tx_responses md + 1, chan_ptr_start := start\<rparr>"
  using group_commit [OF assms(1,4)] assms(2,3,5) by (auto simp: send_response_def)

text \<open>What a resolver finds in a message that starts with the SRV of a channel.\<close>

lemma srv_reads:
  assumes "served mac md" "inst = chan_label ch @ chan_tail" "length h = 12"
    and "msg = fst (writes (Raw h # srv_pieces n md inst port @ rest) ([], []))"
  obtains e e' q where "msg = h @ q" "reads_name msg 12 inst e" "rd16 (ptr_of msg) e = DNS_T_SRV"
    "rd16 (ptr_of msg) (e + 14) = port" "reads_name msg (e + 16) (n_host md) e'"
proof -
  let ?host = "ascii ''N-Series-Switchover.local''"
  let ?a = "be16 DNS_C_IN_FLUSH @ be32 MDNS_TTL_A @ be16 n @ [0, 0, 0, 0]"
  have il: "length inst \<le> 48" using chan_label_digits(3) [of ch] by (simp add: assms(2) chan_tail_def)
  obtain p1 c1 where w1: "name_put inst (h, []) = (p1, c1)" by fastforce
  have d1: "depth_ok p1 c1 \<and> name_ok h p1 inst 0"
    by (rule depth_first [OF w1]) (use good_names(1,2) [of ch] il assms(3) in \<open>simp_all add: assms(2)\<close>)
  define p2 where "p2 = p1 @ be16 DNS_T_SRV @ ?a @ be16 port"
  have d2: "depth_ok p2 c1" using d1 by (auto simp: depth_ok_def p2_def cached_append)
  obtain p3 c3 where w3: "name_put ?host (p2, c1) = (p3, c3)" by fastforce
  have d3: "name_ok p2 p3 ?host 8" using depth_next [OF w3 good_names(3) d2] by blast
  obtain q c' where w4: "writes rest (p3, c3) = (p3 @ q, c')" by (metis writes_prefix)
  have msg: "msg = p3 @ q"
    using w1 w3 w4 assms(4) by (simp add: srv_pieces_def rr_head_def served_fields(1) [OF assms(1)] p2_def)
  obtain r where r: "p3 = p2 @ r" using d3 by (auto simp: name_ok_def)
  obtain r1 where r1: "p1 = h @ r1" using d1 by (auto simp: name_ok_def)
  have m1: "msg = p1 @ be16 DNS_T_SRV @ (?a @ be16 port @ r @ q)" by (simp add: msg r p2_def)
  have "reads_name (p1 @ (be16 DNS_T_SRV @ ?a @ be16 port @ r @ q)) (length h) inst (length p1)"
    by (rule name_ok_reads) (use d1 good_names(1,2) [of ch] name_ok_mono [of h p1 inst 0 8] in \<open>simp_all add: assms(2) chan_tail_def\<close>)
  then have a: "reads_name msg 12 inst (length p1)" using assms(3) by (simp add: m1)
  have b: "reads_name msg (length p1 + 16) (n_host md) (length p3)"
    using name_ok_reads [OF d3 good_names(3), of q] by (simp add: msg served_fields(1) [OF assms(1)] p2_def)
  have c: "rd16 (ptr_of msg) (length p1) = DNS_T_SRV" unfolding m1 by (rule rd16_at)
  have e: "rd16 (ptr_of msg) (length p1 + 14) = port"
    using rd16_at [of "p1 @ be16 DNS_T_SRV @ ?a" port "r @ q"] by (simp add: m1)
  have "msg = h @ (r1 @ be16 DNS_T_SRV @ ?a @ be16 port @ r @ q)" by (simp add: m1 r1)
  with a b c e show thesis by (intro that) simp_all
qed

lemma counts_header_reads: "length (counts_header an ar) = 12" "rd16 (ptr_of (counts_header an ar @ q)) 6 = an"
proof -
  show "length (counts_header an ar) = 12" by (simp add: counts_header_def)
  show "rd16 (ptr_of (counts_header an ar @ q)) 6 = an"
    using rd16_at [of "[0, 0, 0x84, 0, 0, 0]" an "[0, 0] @ be16 ar @ q"] by (simp add: counts_header_def numeral_eq_Suc)
qed

text \<open>The records of one channel, with the address at the end.\<close>

lemma chan_pieces_read:
  assumes "served mac md" "inst = chan_label ch @ chan_tail" "length txt \<le> 200"
    and "msg = fst (writes (Raw (counts_header 1 2) # chan_pieces n k md inst txt ip) ([], []))"
  obtains e e' where "rd16 (ptr_of msg) 6 = 1" "reads_name msg 12 inst e" "rd16 (ptr_of msg) e = DNS_T_SRV"
    "rd16 (ptr_of msg) (e + 14) = DANTE_PORT_FLOWS" "reads_name msg (e + 16) (n_host md) e'"
    "drop (length msg - 4) msg = ip_bytes ip" "length msg \<le> 600"
proof -
  have il: "length inst \<le> 48" using chan_label_digits(3) [of ch] by (simp add: assms(2) chan_tail_def)
  have g: "drop (length msg - 4) msg = ip_bytes ip"
  proof -
    obtain w where "msg = fst (writes [Raw ([0, 4] @ ip_bytes ip)] w)"
      using assms(4) by (simp add: chan_pieces_def a_pieces_def)
    then show ?thesis by (cases w) simp
  qed
  have l: "length msg \<le> 600"
    using writes_length [of "Raw (counts_header 1 2) # chan_pieces n k md inst txt ip" "([], [])"] il assms(3) counts_header_reads(1)
    by (simp add: assms(4) chan_pieces_def srv_pieces_def txt_pieces_def a_pieces_def rr_head_def served_fields(1) [OF assms(1)])
  show thesis
    by (rule srv_reads [OF assms(1,2) counts_header_reads(1) assms(4) [unfolded chan_pieces_def]])
      (use that g l counts_header_reads(2) in blast)
qed

lemma chan_sends:
  assumes "served mac md" "tx_wf nt" "want_idx md \<le> DANTE_TX_CHANNELS"
    and "send_response (dev mac) s adv (W_CHAN_ONE OR W_A) md nt = (md', nt')"
  shows "\<exists>F p e e'. wire nt' = wire nt @ [F] \<and> carries MDNS_PORT F p \<and> rd16 (ptr_of p) 6 = 1 \<and>
    reads_name p 12 (chan_inst (dev mac) md (want_idx md)) e \<and> rd16 (ptr_of p) e = DNS_T_SRV \<and>
    rd16 (ptr_of p) (e + 14) = DANTE_PORT_FLOWS \<and> reads_name p (e + 16) (n_host md) e' \<and>
    drop (length p - 4) p = ip_bytes (g_net_ip nt)"
proof -
  let ?inst = "chan_inst (dev mac) md (want_idx md)" and ?t = "build_txt_chan s adv (want_idx md)"
  obtain n k where msg: "mdns_message (dev mac) s adv (g_net_ip nt) (W_CHAN_ONE OR W_A) md =
      (fst (writes (Raw (counts_header 1 2) # chan_pieces n k md ?inst ?t (g_net_ip nt)) ([], [])), chan_ptr_start md)"
    using chan_message [of "dev mac" s adv "g_net_ip nt" md] by blast
  have "length ?t \<le> 200" using assms(3) by (intro build_txt_chan_length) (simp add: DANTE_TX_CHANNELS_def)
  from chan_pieces_read [OF assms(1) chan_inst_eq [OF assms(1)] this refl, where n = n and k = k and ip = "g_net_ip nt"]
  obtain p e e' where p: "p = fst (writes (Raw (counts_header 1 2) # chan_pieces n k md ?inst ?t (g_net_ip nt)) ([], []))"
    "rd16 (ptr_of p) 6 = 1" "reads_name p 12 ?inst e" "rd16 (ptr_of p) e = DNS_T_SRV" "rd16 (ptr_of p) (e + 14) = DANTE_PORT_FLOWS"
    "reads_name p (e + 16) (n_host md) e'" "drop (length p - 4) p = ip_bytes (g_net_ip nt)" "length p \<le> 600" by metis
  have "W_CHAN_ONE OR W_A \<noteq> 0" by (simp add: W_CHAN_ONE_def W_A_def)
  from send_response_sends(1) [OF assms(2) this msg [folded p(1)] _ assms(4)] p(8) show ?thesis
    using p(2-7) by force
qed

lemma lc_lc [simp]: "lc (lc c) = lc c"
proof -
  have "unat (c + 32) = unat c + 32" if "c \<le> 90" using that by (simp add: word_le_nat_alt unat_word_ariths)
  then show ?thesis by (auto simp: lc_def word_le_nat_alt)
qed

section \<open>Properties\<close>

text \<open>
  C15: names survive their compression. After any header and any run of names and data whose
  first name has at least three labels (as every message of the responder), whatever name is
  written next, in full or through pointers into the message, the decoder reads it back in
  lower case and goes on exactly behind it.
\<close>

theorem names_read_back:
  assumes "writes (Raw h # Name n0 # xs) ([], []) = (p, c)" "name_put name (p, c) = (p', c')"
    and "3 \<le> length (labels_of n0)" "length h + length n0 < 16384" "good_name n0" "\<forall>nm. Name nm \<in> set xs \<longrightarrow> good_name nm"
    and "good_name name" "name \<noteq> []" "last name \<noteq> 46"
  shows "name_decode (ptr_of (p' @ q)) (length (p' @ q)) (length p) 128 = Some (length p', map lc name)"
proof -
  obtain p1 c1 where w1: "name_put n0 (h, []) = (p1, c1)" by fastforce
  have "depth_ok p1 c1" using depth_first [OF w1 assms(5,3,4)] by blast
  moreover have "writes xs (p1, c1) = (p, c)" using assms(1) w1 by simp
  ultimately have "depth_ok p c" using depth_writes assms(6) by blast
  then show ?thesis
    using depth_next [OF assms(2,7)] name_ok_reads [OF _ assms(7-9)] by (simp add: reads_name_def)
qed

theorem names_read_back_witness:
  "\<exists>p c p' c'. writes [Raw mdns_header, Name (chan_label 7 @ chan_tail), Raw [0, 33]] ([], []) = (p, c) \<and>
    name_put (ascii ''N-Series-Switchover.local'') (p, c) = (p', c') \<and>
    name_decode (ptr_of (p' @ [1, 2])) (length (p' @ [1, 2])) (length p) 128 = Some (length p', ascii ''n-series-switchover.local'')"
proof -
  obtain p c where w: "writes [Raw mdns_header, Name (chan_label 7 @ chan_tail), Raw [0, 33]] ([], []) = (p, c)" by fastforce
  obtain p' c' where n: "name_put (ascii ''N-Series-Switchover.local'') (p, c) = (p', c')" by fastforce
  have "name_decode (ptr_of (p' @ [1, 2])) (length (p' @ [1, 2])) (length p) 128 =
      Some (length p', map lc (ascii ''N-Series-Switchover.local''))"
    by (rule names_read_back [OF w n])
      (use good_names(1,2) [of 7] good_names(3) chan_label_digits(3) [of 7] in \<open>simp_all add: mdns_header_def chan_tail_def\<close>)
  then show ?thesis using w n by (simp add: lc_def)
qed

text \<open>
  C14: a receiver's question for a channel is answered. A query with the one question for the
  SRV, TXT or all records of a channel, in any case, is answered with one datagram to the
  group: one answer, the SRV of that channel under its own name, naming the flow control port
  and the host, and at its end the address of the device.
\<close>

theorem channel_query_answered:
  assumes "served mac md" "tx_wf nt" "1 \<le> ch" "ch \<le> DANTE_TX_CHANNELS"
    and "m = ptr_of (dg_payload d)" "12 \<le> length (dg_payload d)" "rd16 m 2 AND 0x8000 = 0" "rd16 m 4 = 1"
    and "name_decode m (length (dg_payload d)) 12 128 = Some (off, q)" "off + 4 \<le> length (dg_payload d)"
    and "cstr q = map lc (chan_inst (dev mac) md ch)" "rd16 m off = DNS_T_SRV \<or> rd16 m off = DNS_T_TXT \<or> rd16 m off = DNS_T_ANY"
    and "mdns_rx (dev mac) s adv d md nt = (md', nt')"
  shows "\<exists>F p e e'. wire nt' = wire nt @ [F] \<and> carries MDNS_PORT F p \<and> rd16 (ptr_of p) 6 = 1 \<and>
    reads_name p 12 (chan_inst (dev mac) md ch) e \<and> rd16 (ptr_of p) e = DNS_T_SRV \<and>
    rd16 (ptr_of p) (e + 14) = DANTE_PORT_FLOWS \<and> reads_name p (e + 16) (n_host md) e' \<and>
    drop (length p - 4) p = ip_bytes (g_net_ip nt)"
proof -
  define md1 where "md1 = md\<lparr>md_rx_queries := md_rx_queries md + 1\<rparr>"
  let ?md2 = "md1\<lparr>want_idx := ch\<rparr>" and ?inst = "chan_inst (dev mac) md ch" and ?want = "W_CHAN_ONE OR W_A"
  have sv: "served mac md1" "served mac ?md2"
    by (subst served_name_part [of _ md]; simp add: md1_def name_part_def assms(1))+
  have i: "chan_inst (dev mac) md1 ch = ?inst" "chan_inst (dev mac) ?md2 ch = ?inst" "n_host ?md2 = n_host md"
    by (simp_all add: md1_def chan_inst_def)
  have "mdns_question (dev mac) s (cstr q) (rd16 m off) md1 = (?want, ?md2)"
    using question_chan [OF sv(1) assms(3,4) _ assms(12)] by (simp add: assms(11) i)
  moreover have "unat (rd16 m 4) = Suc 0" by (simp add: assms(8))
  moreover have "12 < length (dg_payload d)"
  proof (rule ccontr)
    assume "\<not> 12 < length (dg_payload d)"
    then have "off = 13" "length (dg_payload d) = 12"
      using assms(6,9) unfolding name_decode_def by (auto simp: name_loop.simps)
    then show False using assms(10) by simp
  qed
  ultimately have "mdns_questions (dev mac) s m (length (dg_payload d)) (unat (rd16 m 4)) 12 0 md1 = (Some ?want, ?md2)"
    using assms(9,10) by (simp add: not_less)
  then have r: "send_response (dev mac) s adv ?want ?md2 nt = (md', nt')"
    using assms(6-8,13) unfolding mdns_rx_def Let_def assms(5) [symmetric] md1_def [symmetric] by simp
  from chan_sends [OF sv(2) assms(2) _ r] assms(4) show ?thesis by (simp add: i)
qed

text \<open>A query for channel 7, its name written in full.\<close>

definition chan_query :: datagram where
  "chan_query = \<lparr>dg_fn = Mdns_Rx, dg_src = (169, 254, 1, 2), dg_dst = mdns_group, dg_sport = MDNS_PORT,
     dg_payload = fst (name_put (chan_label 7 @ chan_tail) ([0, 0, 0, 0, 0, 1, 0, 0, 0, 0, 0, 0], [])) @ be16 DNS_T_SRV @ be16 DNS_C_IN\<rparr>"

definition mdns0 :: mdns where
  "mdns0 = \<lparr>announce_left = 0, announce_next_ms = 0, n_host = [], n_arc_svc = [], n_cmc_svc = [], n_chan_svc = [], n_bund_svc = [],
     n_arc_inst = [], n_cmc_inst = [], lcq_host = [], lcq_arc_inst = [], lcq_cmc_inst = [], want_idx = 0, chan_resweep = 0,
     chan_ptr_start = 0, md_rx_queries = 0, md_rx_ignored = 0, md_tx_responses = 0, md_tx_announce = 0\<rparr>"

definition boot_mdns :: "mac6 \<Rightarrow> mdns" where
  "boot_mdns mac = fst (mdns_init (dev mac) mdns0 (net_boot mac))"

lemma boot_mdns_served: "served mac (boot_mdns mac)"
  by (simp add: served_def name_part_def mdns_names_fields boot_mdns_def mdns_init_def mdns_announce_md_def)

theorem channel_query_answered_witness:
  "\<exists>md' nt' F p e. mdns_rx (dev (0, 0, 0, 0, 0, 1)) boot_tx 4 chan_query (boot_mdns (0, 0, 0, 0, 0, 1)) (net_boot (0, 0, 0, 0, 0, 1)) =
      (md', nt') \<and> wire nt' = wire (net_boot (0, 0, 0, 0, 0, 1)) @ [F] \<and> carries MDNS_PORT F p \<and>
    rd16 (ptr_of p) (e + 14) = 4455"
proof -
  let ?mac = "(0, 0, 0, 0, 0, 1)" and ?h = "[0, 0, 0, 0, 0, 1, 0, 0, 0, 0, 0, 0] :: u8 list" and ?i = "chan_label 7 @ chan_tail"
  obtain md' nt' where r: "mdns_rx (dev ?mac) boot_tx 4 chan_query (boot_mdns ?mac) (net_boot ?mac) = (md', nt')" by fastforce
  obtain p c where w: "name_put ?i (?h, []) = (p, c)" by fastforce
  have il: "length ?i \<le> 48" using chan_label_digits(3) [of 7] by (simp add: chan_tail_def)
  have n: "name_ok ?h p ?i 0"
    using depth_first [OF w good_names(1,2)] il by simp
  have "reads_name (p @ be16 DNS_T_SRV @ be16 DNS_C_IN) (length ?h) ?i (length p)"
  proof (rule name_ok_reads)
    show "name_ok ?h p ?i 8" using n le0 by (rule name_ok_mono)
  qed (use good_names(1) in \<open>simp_all add: chan_tail_def\<close>)
  moreover have "length ?h = 12" by simp
  ultimately have d: "name_decode (ptr_of (p @ be16 DNS_T_SRV @ be16 DNS_C_IN)) (length (p @ be16 DNS_T_SRV @ be16 DNS_C_IN)) 12 128 =
      Some (length p, map lc ?i)" by (simp only: reads_name_def)
  obtain r where p: "p = ?h @ r" using n by (auto simp: name_ok_def)
  have pl: "dg_payload chan_query = p @ be16 DNS_T_SRV @ be16 DNS_C_IN" by (simp add: chan_query_def w)
  have "0 \<notin> set (map lc ?i)"
    using chan_label_digits(1) [of 7] by (auto simp: chan_tail_def lc_def word_le_nat_alt split: if_splits)
  then have c: "cstr (map lc ?i) = map lc (chan_inst (dev ?mac) (boot_mdns ?mac) 7)"
    unfolding chan_inst_eq [OF boot_mdns_served] cstr_def by (intro takeWhile_eq_all_conv [THEN iffD2]) auto
  have wf: "tx_wf (net_boot ?mac)" using net_boot_inv [of ?mac] by (simp add: net_inv_def hw_ok_def)
  have f: "12 \<le> length (dg_payload chan_query)" "rd16 (ptr_of (dg_payload chan_query)) 2 AND 0x8000 = 0"
    "rd16 (ptr_of (dg_payload chan_query)) 4 = 1" "length p + 4 \<le> length (dg_payload chan_query)"
    by (simp_all add: pl p rd16_def ptr_of_def)
  have t: "rd16 (ptr_of (dg_payload chan_query)) (length p) = DNS_T_SRV" unfolding pl by (rule rd16_at)
  have ch: "1 \<le> (7 :: nat)" "(7 :: nat) \<le> DANTE_TX_CHANNELS" by (simp_all add: DANTE_TX_CHANNELS_def)
  from channel_query_answered [OF boot_mdns_served wf ch refl f(1-3) d [folded pl] f(4) c disjI1 [OF t] r] r
  show ?thesis unfolding DANTE_PORT_FLOWS_def by blast
qed


end
