(* ===== verification/Mdns_Browse.thy ===== *)
theory Mdns_Browse
  imports Mdns_Claims
begin

text \<open>
  Browsing the channels: which of them a response lists, and the cursor it leaves.
\<close>

section \<open>The cursor\<close>

text \<open>The channel of record \<open>k\<close> of a response that starts with the cursor at \<open>start\<close>.\<close>

fun cursor :: "nat \<Rightarrow> nat \<Rightarrow> nat" where
  "cursor start 0 = start"
| "cursor start (Suc k) = (cursor start k + k) mod DANTE_TX_CHANNELS + 1"

declare cursor.simps [simp del]

definition browse_list :: "nat \<Rightarrow> nat list" where
  "browse_list start = map (cursor start) [1..<25]"

text \<open>The records of the first seven are the ones that stay in the cache of names.\<close>

definition fresh :: "nat \<Rightarrow> nat \<Rightarrow> bool" where
  "fresh start k \<longleftrightarrow> cursor start (Suc k) \<notin> set (map (cursor start) [1..<min k 7 + 1])"

lemma browse_facts:
  assumes "start \<le> 48" "start mod 12 = 0"
  shows "k < 24 \<Longrightarrow> fresh start k" "c \<in> set (browse_list start) \<Longrightarrow> c mod 3 \<noteq> 2" "cursor start 24 mod 12 = 0" "cursor start 24 \<le> 48"
proof -
  have "start \<in> {0, 12, 24, 36, 48}" using assms by simp presburger
  moreover have "list_all (\<lambda>st. list_all (fresh st) [0..<24] \<and> list_all (\<lambda>c. c mod 3 \<noteq> 2) (browse_list st) \<and>
      cursor st 24 mod 12 = 0 \<and> cursor st 24 \<le> 48) [0, 12, 24, 36, 48]"
    by code_simp
  ultimately have a: "list_all (fresh start) [0..<24]" "list_all (\<lambda>c. c mod 3 \<noteq> 2) (browse_list start)"
    "cursor start 24 mod 12 = 0" "cursor start 24 \<le> 48" by auto
  show "k < 24 \<Longrightarrow> fresh start k" "c \<in> set (browse_list start) \<Longrightarrow> c mod 3 \<noteq> 2"
    using a(1,2) by (simp_all add: list_all_iff)
  show "cursor start 24 mod 12 = 0" "cursor start 24 \<le> 48" using a by simp_all
qed


section \<open>One record\<close>

abbreviation svc_name :: "u8 list" where
  "svc_name \<equiv> ascii ''_netaudio-chan._udp.local''"

abbreviation chan_name :: "nat \<Rightarrow> u8 list" where
  "chan_name ch \<equiv> chan_label ch @ chan_tail"

definition nc_has :: "ncache \<Rightarrow> u8 list \<Rightarrow> bool" where
  "nc_has c name \<longleftrightarrow> name \<in> fst ` set c"

lemma nc_find_has: "nc_find c name = None \<longleftrightarrow> \<not> nc_has c name"
  unfolding nc_find_def nc_has_def map_option_is_None find_None_iff by force

lemma nc_find_append: "nc_find c name = Some off \<Longrightarrow> nc_find (c @ d) name = Some off"
  by (induction c) (auto simp: nc_find_def)

lemma chan_split: "chan_name ch = (chan_label ch @ ascii ''@N-Series-Switchover'') @ 46 # svc_name"
  by (simp add: chan_tail_def)

lemma chan_label_no_dot: "46 \<notin> set (chan_label ch @ ascii ''@N-Series-Switchover'')"
  using chan_label_digits(1) [of ch] by (auto simp: word_le_nat_alt)

text \<open>A channel not written yet, its owner cached: its own label and a pointer.\<close>

lemma channel_name:
  assumes "nc_find c svc_name = Some off" "\<not> nc_has c (chan_name ch)" "length q < 16370"
    and "w = rd_close (length q) (name_put (chan_name ch) (rd_open (q, c)))"
  shows "length (fst w) = length q + 25 + length (chan_label ch)"
    "snd w = (if length c \<ge> NC_MAX then c else c @ [(chan_name ch, length q + 2)])"
proof -
  let ?n = "length q + 2" and ?l = "chan_label ch @ ascii ''@N-Series-Switchover''"
  have ll: "length ?l = 20 + length (chan_label ch)" by simp
  have l63: "length ?l \<le> 63" using chan_label_digits(3) [of ch] by simp
  have e: "label_of (chan_name ch) = ?l" "after_label (chan_name ch) = svc_name"
    using label_dot [OF chan_label_no_dot [of ch], of svc_name] by (simp_all only: chan_split)
  have find: "nc_find (nc_add (chan_name ch) ?n c) svc_name = Some off"
    using nc_find_append [OF assms(1)] assms(1) by (simp add: nc_add_def del: ascii_simps)
  have ne: "chan_name ch \<noteq> []" "svc_name \<noteq> []" by (simp_all add: chan_tail_def)
  have none: "nc_find c (chan_name ch) = None" using assms(2) nc_find_has by blast
  have "put_labels True (q @ [0, 0]) (nc_add (chan_name ch) ?n c) (chan_name ch) =
      put_labels False ((q @ [0, 0]) @ put_label (chan_name ch)) (nc_add (chan_name ch) ?n c) svc_name"
    by (subst put_labels.simps) (simp only: if_True if_False ne(1) option.case e(2) simp_thms)
  also have "\<dots> = ((q @ [0, 0]) @ put_label (chan_name ch) @ nc_ptr off, nc_add (chan_name ch) ?n c)"
    using ne(2) find by (subst put_labels.simps) (simp del: ascii_simps)
  finally have n: "name_put (chan_name ch) (q @ [0, 0], c) =
      ((q @ [0, 0]) @ put_label (chan_name ch) @ nc_ptr off, nc_add (chan_name ch) ?n c)"
    using none by (simp add: name_put_def)
  have w: "w = rd_close (length q) ((q @ [0, 0]) @ put_label (chan_name ch) @ nc_ptr off, nc_add (chan_name ch) ?n c)"
    using n by (simp add: assms(4) rd_open_def)
  have pl: "length (put_label (chan_name ch)) = 21 + length (chan_label ch)"
    using put_label_whole [of "chan_name ch"] l63 ll unfolding e(1) by simp
  show "length (fst w) = length q + 25 + length (chan_label ch)"
    unfolding w rd_close_def prod.case fst_conv by (subst length_put) (simp_all add: pl nc_ptr_def)
  have "take (NC_NAME - 1) (chan_name ch) = chan_name ch"
    using chan_label_digits(3) [of ch] by (simp add: NC_NAME_def chan_tail_def)
  then show "snd w = (if length c \<ge> NC_MAX then c else c @ [(chan_name ch, length q + 2)])"
    unfolding w rd_close_def nc_add_def using assms(3) by simp
qed

text \<open>A record whose owner is cached.\<close>

lemma channel_record:
  assumes "nc_has c svc_name" "\<not> nc_has c (chan_name ch)" "length p < 16360" "w = put_ptr svc_name (chan_name ch) (p, c)"
  shows "length (fst w) = length p + 35 + length (chan_label ch)"
    "snd w = (if length c \<ge> NC_MAX then c else c @ [(chan_name ch, length p + 12)])"
proof -
  obtain off where o: "nc_find c svc_name = Some off" using assms(1) nc_find_has by (metis not_Some_eq)
  define q where "q = p @ nc_ptr off @ be16 DNS_T_PTR @ be16 DNS_C_IN @ be32 MDNS_TTL"
  have ql: "length q = length p + 10" by (simp add: q_def nc_ptr_def)
  have "put_rr_head svc_name DNS_T_PTR DNS_C_IN MDNS_TTL (p, c) = (q, c)"
    using o by (simp add: put_rr_head_def name_put_def q_def del: ascii_simps)
  then have "w = rd_close (length q) (name_put (chan_name ch) (rd_open (q, c)))" by (simp add: assms(4) put_ptr_def del: ascii_simps)
  from channel_name [OF o assms(2) _ this] show "length (fst w) = length p + 35 + length (chan_label ch)"
    "snd w = (if length c \<ge> NC_MAX then c else c @ [(chan_name ch, length p + 12)])"
    using assms(3) ql by simp_all
qed

text \<open>The first record writes its owner in full.\<close>

lemma first_owner:
  "name_put svc_name (mdns_header, []) = (mdns_header @ [14] @ ascii ''_netaudio-chan'' @ [4] @ ascii ''_udp'' @ [5] @ ascii ''local'' @ [0],
     [(svc_name, 12), (ascii ''_udp.local'', 27), (ascii ''local'', 32)])"
  by (simp add: name_put_def put_labels.simps nc_find_def nc_add_def label_of_def after_label_def put_label_def mdns_header_def
      NC_MAX_def NC_NAME_def)

lemma first_record:
  assumes "w = put_ptr svc_name (chan_name ch) (mdns_header, [])"
  shows "length (fst w) = 72 + length (chan_label ch)"
    "map fst (snd w) = [svc_name, ascii ''_udp.local'', ascii ''local'', chan_name ch]"
proof -
  let ?c = "[(svc_name, 12 :: nat), (ascii ''_udp.local'', 27), (ascii ''local'', 32)]"
  define q where "q = (mdns_header @ [14] @ ascii ''_netaudio-chan'' @ [4] @ ascii ''_udp'' @ [5] @ ascii ''local'' @ [0]) @
    be16 DNS_T_PTR @ be16 DNS_C_IN @ be32 MDNS_TTL"
  have ql: "length q = 47" by (simp add: q_def mdns_header_def)
  have "put_rr_head svc_name DNS_T_PTR DNS_C_IN MDNS_TTL (mdns_header, []) = (q, ?c)"
    unfolding put_rr_head_def first_owner q_def by simp
  then have w: "w = rd_close (length q) (name_put (chan_name ch) (rd_open (q, ?c)))" by (simp add: assms put_ptr_def del: ascii_simps)
  have o: "nc_find ?c svc_name = Some 12" by (simp add: nc_find_def)
  have h: "\<not> nc_has ?c (chan_name ch)"
  proof
    assume "nc_has ?c (chan_name ch)"
    then have "64 \<in> set svc_name \<or> 64 \<in> set (ascii ''_udp.local'') \<or> 64 \<in> set (ascii ''local'')"
      unfolding nc_has_def by (auto simp: chan_tail_def)
    then show False by simp
  qed
  from channel_name [OF o h _ w] show "length (fst w) = 72 + length (chan_label ch)"
    "map fst (snd w) = [svc_name, ascii ''_udp.local'', ascii ''local'', chan_name ch]"
    using ql by (simp_all add: NC_MAX_def del: ascii_simps)
qed

section \<open>A response\<close>

text \<open>The records written for the first \<open>k\<close> channels, and how many.\<close>

fun browse_acc :: "nat \<Rightarrow> nat \<Rightarrow> (u8 list \<times> ncache) \<times> u16" where
  "browse_acc start 0 = ((mdns_header, []), 0)"
| "browse_acc start (Suc k) = answer_if True (put_ptr svc_name (chan_name (cursor start (Suc k)))) (browse_acc start k)"

text \<open>After the first record the owner is cached, with the channels of the first seven.\<close>

definition browse_inv :: "nat \<Rightarrow> nat \<Rightarrow> bool" where
  "browse_inv start k \<longleftrightarrow> (case browse_acc start k of ((p, c), n) \<Rightarrow>
     37 + 36 * k \<le> length p \<and> length p \<le> 37 + 37 * k \<and> n = of_nat k \<and> length c = 3 + min k 7 \<and> nc_has c svc_name \<and>
     (\<forall>ch < 100. nc_has c (chan_name ch) \<longrightarrow> ch \<in> set (map (cursor start) [1..<min k 7 + 1])))"

lemma chan_name_inject: "ch < 100 \<Longrightarrow> ch' < 100 \<Longrightarrow> chan_name ch = chan_name ch' \<longleftrightarrow> ch = ch'"
  using chan_inst_inject [of ch ch'] by (auto dest: arg_cong [of _ _ "map lc"])

lemma cursor_range: "1 \<le> cursor start (Suc k) \<and> cursor start (Suc k) < 49"
  by (simp add: cursor.simps DANTE_TX_CHANNELS_def less_Suc_eq_le)

lemma browse_first: "browse_inv start 1"
proof -
  let ?ch = "cursor start 1"
  define w where "w = put_ptr svc_name (chan_name ?ch) (mdns_header, [])"
  have b: "browse_acc start 1 = (w, 1)" by (simp add: answer_if_def w_def del: ascii_simps)
  note r = first_record [OF w_def]
  have f: "fst ` set (snd w) = {svc_name, ascii ''_udp.local'', ascii ''local'', chan_name ?ch}"
  proof -
    have "fst ` set (snd w) = set (map fst (snd w))" by (simp only: set_map)
    then show ?thesis unfolding r(2) by (simp only: list.set)
  qed
  have "ch = ?ch" if ch: "ch < 100" "nc_has (snd w) (chan_name ch)" for ch
  proof -
    have "64 \<in> set (chan_name ch)" by (simp add: chan_tail_def)
    moreover have "64 \<notin> set svc_name" "64 \<notin> set (ascii ''_udp.local'')" "64 \<notin> set (ascii ''local'')" by simp_all
    ultimately have "chan_name ch = chan_name ?ch" using ch(2) unfolding nc_has_def f by (elim insertE) (simp_all only: empty_iff)
    then show ?thesis using chan_name_inject [OF ch(1), of ?ch] cursor_range [of start 0] by simp
  qed
  moreover have "length (map fst (snd w)) = 4" unfolding r(2) by (simp del: ascii_simps)
  then have "length (snd w) = 4" by simp
  moreover have "nc_has (snd w) svc_name" unfolding nc_has_def f by blast
  moreover have "1 \<le> length (chan_label ?ch)" "length (chan_label ?ch) \<le> 2" using chan_label_digits(2,3) [of ?ch] by linarith+
  ultimately show ?thesis using r(1) unfolding browse_inv_def b by (cases w) auto
qed

lemma browse_next:
  assumes "browse_inv start k" "1 \<le> k" "k < 24" "fresh start k"
  shows "browse_inv start (Suc k)"
proof -
  obtain p c n where a: "browse_acc start k = ((p, c), n)" by (metis prod.collapse)
  let ?ch = "cursor start (Suc k)" and ?seen = "\<lambda>k. set (map (cursor start) [1..<min k 7 + 1])"
  have i: "37 + 36 * k \<le> length p" "length p \<le> 37 + 37 * k" "n = of_nat k" "length c = 3 + min k 7" "nc_has c svc_name"
    "\<And>ch. ch < 100 \<Longrightarrow> nc_has c (chan_name ch) \<Longrightarrow> ch \<in> ?seen k"
    using assms(1) by (auto simp: browse_inv_def a)
  have "\<not> nc_has c (chan_name ?ch)"
    using i(6) [of ?ch] assms(4) cursor_range [of start k] by (auto simp: fresh_def)
  note r = channel_record [OF i(5) this _ refl, of p]
  let ?w = "put_ptr svc_name (chan_name ?ch) (p, c)"
  have l: "length (fst ?w) = length p + 35 + length (chan_label ?ch)"
    "snd ?w = (if length c \<ge> NC_MAX then c else c @ [(chan_name ?ch, length p + 12)])" using r i(2) assms(3) by simp_all
  have b: "browse_acc start (Suc k) = (?w, of_nat (Suc k))" by (simp add: a answer_if_def i(3) add.commute)
  have cl: "1 \<le> length (chan_label ?ch)" "length (chan_label ?ch) \<le> 2" using chan_label_digits(2,3) [of ?ch] by linarith+
  have "nc_has (snd ?w) svc_name" using i(5) unfolding l(2) nc_has_def by auto
  moreover have "length (snd ?w) = 3 + min (Suc k) 7" unfolding l(2) using i(4) by (auto simp: NC_MAX_def)
  moreover have "ch \<in> ?seen (Suc k)" if ch: "ch < 100" "nc_has (snd ?w) (chan_name ch)" for ch
  proof (cases "nc_has c (chan_name ch)")
    case True
    then show ?thesis using i(6) [OF ch(1)] by auto
  next
    case False
    then have "length c < NC_MAX" "chan_name ch = chan_name ?ch"
      using ch(2) unfolding l(2) nc_has_def by (auto split: if_splits)
    then have "k < 7" "ch = ?ch"
      using i(4) chan_name_inject [OF ch(1), of ?ch] cursor_range [of start k] by (auto simp: NC_MAX_def)
    then show ?thesis by (auto)
  qed
  ultimately show ?thesis
    using i(1,2) cl l(1) unfolding browse_inv_def b by (cases ?w) auto
qed


lemma browse_inv_all: "start \<le> 48 \<Longrightarrow> start mod 12 = 0 \<Longrightarrow> k < 24 \<Longrightarrow> browse_inv start (Suc k)"
proof (induction k)
  case 0
  show ?case using browse_first by simp
next
  case (Suc k)
  show ?case by (rule browse_next) (use Suc browse_facts(1) [of start "Suc k"] in simp_all)
qed

lemma chan_ptrs_step:
  assumes "served mac md" "i < 48" "length (fst (fst a)) < MDNS_SPLIT_BYTES"
  shows "chan_ptrs (dev mac) md [i..<48] (cursor start i) a =
    chan_ptrs (dev mac) md [Suc i..<48] (cursor start (Suc i))
      (answer_if True (put_ptr svc_name (chan_name (cursor start (Suc i)))) a)"
  using assms(3) chan_inst_eq [OF assms(1)] served_fields(4) [OF assms(1)]
  by (simp add: upt_conv_Cons [OF assms(2)] cursor.simps del: ascii_simps)

lemma chan_ptrs_runs:
  assumes "served mac md" "start \<le> 48" "start mod 12 = 0" "k \<le> 24"
  shows "chan_ptrs (dev mac) md [0..<48] start ((mdns_header, []), 0) =
    chan_ptrs (dev mac) md [k..<48] (cursor start k) (browse_acc start k)"
  using assms(4)
proof (induction k)
  case 0
  show ?case by (simp add: cursor.simps)
next
  case (Suc k)
  have "length (fst (fst (browse_acc start k))) < MDNS_SPLIT_BYTES"
  proof (cases k)
    case 0
    then show ?thesis by (simp add: mdns_header_def MDNS_SPLIT_BYTES_def)
  next
    case (Suc j)
    have "browse_inv start k" unfolding Suc using Suc.prems Suc assms(2,3) by (intro browse_inv_all) simp_all
    then show ?thesis using Suc.prems unfolding browse_inv_def by (auto simp: MDNS_SPLIT_BYTES_def)
  qed
  from chan_ptrs_step [OF assms(1) _ this, of k start] Suc show ?case by simp
qed

text \<open>A browse response lists exactly 24 channels.\<close>

lemma chan_ptrs_browse:
  assumes "served mac md" "start \<le> 48" "start mod 12 = 0"
  shows "chan_ptrs (dev mac) md [0..<48] start ((mdns_header, []), 0) = (cursor start 24, browse_acc start 24)"
proof -
  have "browse_inv start (Suc 23)" using assms(2,3) by (intro browse_inv_all) simp_all
  then have "\<not> length (fst (fst (browse_acc start 24))) < MDNS_SPLIT_BYTES"
    unfolding browse_inv_def by (auto simp: MDNS_SPLIT_BYTES_def)
  then have "chan_ptrs (dev mac) md (24 # [25..<48]) (cursor start 24) (browse_acc start 24) = (cursor start 24, browse_acc start 24)"
    by (simp del: browse_acc.simps)
  moreover have "[24..<48] = 24 # [25..<48 :: nat]" by (simp add: upt_conv_Cons)
  ultimately show ?thesis using chan_ptrs_runs [OF assms, of 24] by (simp only: order_refl)
qed

text \<open>The pieces of a browse response: one PTR for each channel of the list.\<close>

definition browse_pieces :: "nat list \<Rightarrow> u16 list \<Rightarrow> piece list" where
  "browse_pieces chs ns = concat (map2 (\<lambda>ch n. ptr_pieces n svc_name (chan_name ch)) chs ns)"

lemma browse_pieces_snoc:
  "length ns = length chs \<Longrightarrow> browse_pieces (chs @ [ch]) (ns @ [n]) = browse_pieces chs ns @ ptr_pieces n svc_name (chan_name ch)"
  by (simp add: browse_pieces_def del: ascii_simps)

lemma writes_append: "writes (xs @ ys) w = writes ys (writes xs w)"
  by (simp add: writes_def)

lemma browse_acc_writes:
  "\<exists>ns. length ns = k \<and> fst (browse_acc start k) =
     writes (browse_pieces (map (cursor start) [1..<k + 1]) ns) (mdns_header, [])"
proof (induction k)
  case 0
  show ?case by (simp add: browse_pieces_def)
next
  case (Suc k)
  let ?ch = "cursor start (Suc k)" and ?chs = "map (cursor start) [1..<k + 1]"
  obtain ns where ns: "length ns = k" "fst (browse_acc start k) = writes (browse_pieces ?chs ns) (mdns_header, [])"
    using Suc.IH by blast
  obtain n where "put_ptr svc_name (chan_name ?ch) (fst (browse_acc start k)) =
      writes (ptr_pieces n svc_name (chan_name ?ch)) (fst (browse_acc start k))" using put_ptr_writes by blast
  then have "fst (browse_acc start (Suc k)) = writes (browse_pieces (?chs @ [?ch]) (ns @ [n])) (mdns_header, [])"
    using ns by (simp only: browse_acc.simps answer_if_def split_beta if_True fst_conv browse_pieces_snoc length_map length_upt writes_append add_diff_cancel_right')
  moreover have "map (cursor start) [1..<Suc k + 1] = ?chs @ [?ch]" by simp
  moreover have "length (ns @ [n]) = Suc k" using ns by simp
  ultimately show ?case by metis
qed

lemma services_none_browse: "put_services g md (W_CHAN_PTR OR W_A) a = a"
  by (simp add: put_services_def Let_def answer_if_def W_CHAN_PTR_def W_A_def W_SERVICES_def W_ARC_PTR_def W_ARC_SRV_def
      W_ARC_TXT_def W_CMC_PTR_def W_CMC_SRV_def W_CMC_TXT_def split: prod.splits)

lemma browse_message:
  assumes "served mac md" "chan_ptr_start md \<le> 48" "chan_ptr_start md mod 12 = 0"
  obtains ns where "length ns = 24" "mdns_message (dev mac) s adv ip (W_CHAN_PTR OR W_A) md =
    (fst (writes (Raw (counts_header 24 1) # browse_pieces (browse_list (chan_ptr_start md)) ns @ a_pieces md ip) ([], [])),
     cursor (chan_ptr_start md) 24)"
    "length (fst (mdns_message (dev mac) s adv ip (W_CHAN_PTR OR W_A) md)) \<le> 1400"
proof -
  let ?st = "chan_ptr_start md"
  obtain ns where ns: "length ns = 24" "fst (browse_acc ?st 24) = writes (browse_pieces (browse_list ?st) ns) (mdns_header, [])"
    using browse_acc_writes [of 24 ?st] by (auto simp: browse_list_def)
  have w: "(W_CHAN_PTR OR W_A) AND W_CHAN_PTR \<noteq> 0" "(W_CHAN_PTR OR W_A) AND W_BUND_PTR = 0" "(W_CHAN_PTR OR W_A) AND W_CHAN_ONE = 0"
    "(W_CHAN_PTR OR W_A) AND W_BUND_ONE = 0" "(W_CHAN_PTR OR W_A) AND W_A \<noteq> 0"
    by (simp_all add: W_CHAN_ONE_def W_A_def W_CHAN_PTR_def W_BUND_PTR_def W_BUND_ONE_def)
  have n: "snd (browse_acc ?st 24) = 24"
    using browse_inv_all [OF assms(2,3), of 23] by (auto simp: browse_inv_def split: prod.splits simp del: browse_acc.simps)
  have c: "chan_ptrs (dev mac) md [0..<DANTE_TX_CHANNELS] ?st ((mdns_header, []), 0) = (cursor ?st 24, browse_acc ?st 24)"
    using chan_ptrs_browse [OF assms] by (simp only: DANTE_TX_CHANNELS_def)
  have m: "mdns_message (dev mac) s adv ip (W_CHAN_PTR OR W_A) md =
      (put 10 (be16 1) (put 6 (be16 24) (fst (put_a md ip (fst (browse_acc ?st 24))))), cursor ?st 24)"
    unfolding mdns_message_def services_none_browse Let_def put_one_def answer_if_def c
    using w n by (simp add: split_beta del: browse_acc.simps)
  have b: "12 \<le> length (fst (fst (browse_acc ?st 24)))" "length (fst (fst (browse_acc ?st 24))) \<le> 925"
    using browse_inv_all [OF assms(2,3), of 23] by (auto simp: browse_inv_def split: prod.splits simp del: browse_acc.simps)
  have "length (fst (put_a md ip (fst (browse_acc ?st 24)))) \<le> 1400"
    using writes_length [of "a_pieces md ip" "fst (browse_acc ?st 24)"] b(2)
    by (simp add: put_a_writes a_pieces_def rr_head_def served_fields(1) [OF assms(1)] del: browse_acc.simps)
  moreover have "length (put i xs p) \<le> 1400" if "length p \<le> 1400" "i + length xs \<le> 12" for i and xs p :: "u8 list"
    using that by (auto simp: put_def)
  ultimately have "length (fst (mdns_message (dev mac) s adv ip (W_CHAN_PTR OR W_A) md)) \<le> 1400"
    unfolding m fst_conv by simp
  then show thesis
    using that [OF ns(1)] header_writes [of 1 24 "browse_pieces (browse_list ?st) ns @ a_pieces md ip"] m
    by (simp only: ns(2) put_a_writes writes_append)
qed

section \<open>The key of a bundle\<close>

text \<open>
  The text record of a channel names the multicast flow that carries it exactly when the
  number of the flow has at most two digits; from 100 on the key drops the hundreds, while the
  name of the bundle it is resolved to has them.
\<close>

theorem bundle_key_names_bundle:
  "takeWhile (\<lambda>c. c \<noteq> 61) (drop 2 (bundle_key bid bpos)) = bund_label (unat bid) \<longleftrightarrow> unat bid < 100"
proof -
  have d: "dig d \<noteq> 61" if "d < 10" for d using dig_set [OF that] by (auto simp: word_le_nat_alt)
  have w: "bid \<ge> 10 \<longleftrightarrow> unat bid \<ge> 10" by (simp add: word_le_nat_alt)
  have k: "takeWhile (\<lambda>c. c \<noteq> 61) (drop 2 (bundle_key bid bpos)) =
      (if unat bid \<ge> 10 then [dig ((unat bid div 10) mod 10)] else []) @ [dig (unat bid mod 10)]"
    unfolding bundle_key_def w by (simp add: d)
  show ?thesis unfolding k by (auto simp: bund_label_def)
qed

end
