(* ===== verification/Mdns_Announce.thy ===== *)
theory Mdns_Announce
  imports Mdns_Browse
begin

text \<open>
  The announcements: an announcement publishes every channel again, one in each poll; and the
  question of a query that is forgotten.
\<close>

section \<open>What sending keeps\<close>

lemma tx_wf_put_any: "tx_wf s \<Longrightarrow> tx_wf (tx_put off bs s)"
  using tx_buf_len [of s] order_trans [OF _ length_put_ge, of 1442 "tx_buf s" off bs]
  by (auto simp: tx_wf_def tx_put_def dest!: set_update_subset_insert [THEN subsetD])

lemma group_commit_keeps:
  assumes "tx_wf nt" "net_udp_commit mdns_group MDNS_PORT MDNS_PORT n 0 nt = (r, nt')"
  shows "tx_wf nt' \<and> (\<exists>fs. wire nt' = wire nt @ fs)"
proof -
  have arp: "net_arp_lookup mdns_group nt = (Some (net_mcast_mac mdns_group), nt)"
    by (simp add: net_arp_lookup_def mdns_group_def)
  show ?thesis
    using assms unfolding net_udp_commit_def arp
    by (auto simp: Let_def tx_wf_put_any tx_wf_eth_send wire_eth_send tx_put_other NET_TOS_AUDIO_def split: if_splits)
qed

lemma send_response_keeps:
  assumes "tx_wf nt" "send_response g s adv want md nt = (md', nt')"
  shows "tx_wf nt'" "\<exists>fs. wire nt' = wire nt @ fs" "name_part md' = name_part md" "chan_resweep md' = chan_resweep md"
proof -
  let ?m = "mdns_message g s adv (g_net_ip nt) want md"
  let ?nt = "payload_put 0 (fst ?m) nt"
  obtain r nt1 where c: "net_udp_commit mdns_group MDNS_PORT MDNS_PORT (length (fst ?m)) 0 ?nt = (r, nt1)" by fastforce
  have "tx_wf ?nt" "wire ?nt = wire nt" using assms(1) by (simp_all add: payload_put_def tx_wf_put_any)
  then have k: "tx_wf nt1" "\<exists>fs. wire nt1 = wire nt @ fs" using group_commit_keeps [OF _ c] by simp_all
  have e: "want = 0 \<and> md' = md \<and> nt' = nt \<or> nt' = nt1 \<and> name_part md' = name_part md \<and> chan_resweep md' = chan_resweep md"
    using assms(2) c by (auto simp: send_response_def split_beta Let_def name_part_def split: if_splits)
  then show "tx_wf nt'" "name_part md' = name_part md" "chan_resweep md' = chan_resweep md" using k(1) assms(1) by auto
  show "\<exists>fs. wire nt' = wire nt @ fs" using e k(2) by auto
qed

section \<open>One channel published\<close>

lemma services_none_one: "put_services g md W_CHAN_ONE a = a"
  by (simp add: put_services_def Let_def answer_if_def W_CHAN_ONE_def W_SERVICES_def W_ARC_PTR_def W_ARC_SRV_def
      W_ARC_TXT_def W_CMC_PTR_def W_CMC_SRV_def W_CMC_TXT_def split: prod.splits)

lemma one_message:
  obtains n k where "mdns_message g s adv ip W_CHAN_ONE md =
    (fst (writes (Raw (counts_header 1 1) # srv_pieces n md (chan_inst g md (want_idx md)) DANTE_PORT_FLOWS @
        txt_pieces k (chan_inst g md (want_idx md)) (build_txt_chan s adv (want_idx md))) ([], [])), chan_ptr_start md)"
proof -
  let ?i = "chan_inst g md (want_idx md)" and ?t = "build_txt_chan s adv (want_idx md)"
  obtain n where n: "put_srv md ?i DANTE_PORT_FLOWS (mdns_header, []) = writes (srv_pieces n md ?i DANTE_PORT_FLOWS) (mdns_header, [])"
    using put_srv_writes by blast
  obtain k where k: "put_txt ?i ?t (writes (srv_pieces n md ?i DANTE_PORT_FLOWS) (mdns_header, [])) =
      writes (txt_pieces k ?i ?t) (writes (srv_pieces n md ?i DANTE_PORT_FLOWS) (mdns_header, []))"
    using put_txt_writes by blast
  have w: "W_CHAN_ONE AND W_CHAN_PTR = 0" "W_CHAN_ONE AND W_BUND_PTR = 0" "W_CHAN_ONE AND W_CHAN_ONE \<noteq> 0"
    "W_CHAN_ONE AND W_BUND_ONE = 0" "W_CHAN_ONE AND W_A = 0"
    by (simp_all add: W_CHAN_ONE_def W_A_def W_CHAN_PTR_def W_BUND_PTR_def W_BUND_ONE_def)
  have "mdns_message g s adv ip W_CHAN_ONE md = (put 10 (be16 1) (put 6 (be16 1)
      (fst (put_txt ?i ?t (put_srv md ?i DANTE_PORT_FLOWS (mdns_header, []))))), chan_ptr_start md)"
    unfolding mdns_message_def services_none_one Let_def put_one_def answer_if_def using w by simp
  then show thesis
    using header_writes [of 1 1 "srv_pieces n md ?i DANTE_PORT_FLOWS @ txt_pieces k ?i ?t"] that [of n k]
    by (simp only: n k writes_append)
qed

text \<open>A frame on the wire that answers for a channel: its SRV, with the port and the host.\<close>

definition announced :: "mac6 \<Rightarrow> mdns \<Rightarrow> nat \<Rightarrow> net \<Rightarrow> bool" where
  "announced mac md ch nt \<longleftrightarrow> (\<exists>F p e e'. F \<in> set (wire nt) \<and> carries MDNS_PORT F p \<and> rd16 (ptr_of p) 6 = 1 \<and>
     reads_name p 12 (chan_inst (dev mac) md ch) e \<and> rd16 (ptr_of p) e = DNS_T_SRV \<and>
     rd16 (ptr_of p) (e + 14) = DANTE_PORT_FLOWS \<and> reads_name p (e + 16) (n_host md) e')"

lemma announced_later: "announced mac md ch nt \<Longrightarrow> wire nt' = wire nt @ fs \<Longrightarrow> announced mac md ch nt'"
  by (auto simp: announced_def)

lemma announced_same: "served mac md \<Longrightarrow> served mac md' \<Longrightarrow> announced mac md ch nt = announced mac md' ch nt"
  unfolding announced_def by (simp only: chan_inst_eq served_fields(1))

lemma one_announces:
  assumes "served mac md" "tx_wf nt" "want_idx md < 100" "send_response (dev mac) s adv W_CHAN_ONE md nt = (md', nt')"
  shows "announced mac md (want_idx md) nt'"
proof -
  let ?i = "chan_inst (dev mac) md (want_idx md)" and ?t = "build_txt_chan s adv (want_idx md)"
  have ie: "?i = chan_label (want_idx md) @ chan_tail" by (rule chan_inst_eq [OF assms(1)])
  have il: "length ?i \<le> 48" using chan_label_digits(3) [of "want_idx md"] by (simp add: ie chan_tail_def)
  obtain n k where msg: "mdns_message (dev mac) s adv (g_net_ip nt) W_CHAN_ONE md =
    (fst (writes (Raw (counts_header 1 1) # srv_pieces n md ?i DANTE_PORT_FLOWS @ txt_pieces k ?i ?t) ([], [])), chan_ptr_start md)"
    using one_message by blast
  define p where "p = fst (writes (Raw (counts_header 1 1) # srv_pieces n md ?i DANTE_PORT_FLOWS @ txt_pieces k ?i ?t) ([], []))"
  have "length p \<le> 1400"
    using writes_length [of "Raw (counts_header 1 1) # srv_pieces n md ?i DANTE_PORT_FLOWS @ txt_pieces k ?i ?t" "([], [])"]
      il build_txt_chan_length [OF assms(3), of s adv] counts_header_reads(1)
    by (simp add: p_def srv_pieces_def txt_pieces_def rr_head_def served_fields(1) [OF assms(1)])
  moreover have "W_CHAN_ONE \<noteq> 0" by (simp add: W_CHAN_ONE_def)
  ultimately obtain F where F: "wire nt' = wire nt @ [F]" "carries MDNS_PORT F p"
    using send_response_sends(1) [OF assms(2) _ msg [folded p_def] _ assms(4)] by blast
  from srv_reads [OF assms(1) ie counts_header_reads(1) p_def] obtain e e' q where "p = counts_header 1 1 @ q"
    "reads_name p 12 ?i e" "rd16 (ptr_of p) e = DNS_T_SRV" "rd16 (ptr_of p) (e + 14) = DANTE_PORT_FLOWS"
    "reads_name p (e + 16) (n_host md) e'" .
  moreover from this(1) have "rd16 (ptr_of p) 6 = 1" using counts_header_reads(2) [of 1 1 q] by (simp only:)
  moreover have "F \<in> set (wire nt')" by (simp add: F(1))
  ultimately show ?thesis using F(2) unfolding announced_def by blast
qed

section \<open>All of them\<close>

text \<open>Polls one after the other, each with the state of the talker, the advertised size and the time then.\<close>

fun mdns_polls :: "dante_dev \<Rightarrow> (tx \<times> u8 \<times> u32) list \<Rightarrow> mdns \<Rightarrow> net \<Rightarrow> mdns \<times> net" where
  "mdns_polls g [] md nt = (md, nt)"
| "mdns_polls g ((s, adv, now) # xs) md nt = (let (md, nt) = mdns_poll g s adv now md nt in mdns_polls g xs md nt)"

lemma poll_announces:
  assumes "served mac md" "tx_wf nt" "chan_resweep md \<noteq> 0" "chan_resweep md \<le> DANTE_TX_CHANNELS"
    and "mdns_poll (dev mac) s adv now md nt = (md', nt')"
  shows "tx_wf nt'" "served mac md'" "\<exists>fs. wire nt' = wire nt @ fs" "chan_resweep md' = chan_resweep md - 1"
    "announced mac md (DANTE_TX_CHANNELS - chan_resweep md + 1) nt'"
proof -
  let ?md = "md\<lparr>want_idx := DANTE_TX_CHANNELS - chan_resweep md + 1\<rparr>"
  let ?all = "W_ARC_PTR OR W_ARC_SRV OR W_ARC_TXT OR W_CMC_PTR OR W_CMC_SRV OR W_CMC_TXT OR W_A"
  obtain md1 nt1 where r: "send_response (dev mac) s adv W_CHAN_ONE ?md nt = (md1, nt1)" by fastforce
  let ?md1 = "md1\<lparr>chan_resweep := chan_resweep md1 - 1\<rparr>"
  obtain md2 nt2 where r2: "send_response (dev mac) s adv ?all ?md1 nt1 = (md2, nt2)" by fastforce
  have sv: "served mac ?md" by (subst served_name_part [of _ md]) (simp_all add: name_part_def assms(1))
  note k = send_response_keeps [OF assms(2) r]
  note k2 = send_response_keeps [OF k(1) r2]
  have np: "name_part ?md1 = name_part md" using k(3) by (simp add: name_part_def)
  have "announced mac ?md (want_idx ?md) nt1"
    by (rule one_announces [OF sv assms(2) _ r]) (use assms(3) in \<open>simp add: DANTE_TX_CHANNELS_def\<close>)
  then have a: "announced mac md (DANTE_TX_CHANNELS - chan_resweep md + 1) nt1" using announced_same [OF sv assms(1)] by simp
  have "mdns_poll (dev mac) s adv now md nt =
      (if announce_left ?md1 = 0 then (?md1, nt1)
       else if announce_next_ms ?md1 \<noteq> 0 \<and> sint (now - announce_next_ms ?md1) < 0 then (?md1, nt1)
       else (md2\<lparr>md_tx_announce := md_tx_announce md2 + 1, announce_left := announce_left md2 - 1,
           announce_next_ms := now + 1000\<rparr>, nt2))"
    unfolding mdns_poll_def Let_def using assms(3) by (simp only: r r2 prod.case if_True simp_thms not_False_eq_True)
  then have e: "md' = ?md1 \<and> nt' = nt1 \<or>
      nt' = nt2 \<and> name_part md' = name_part md2 \<and> chan_resweep md' = chan_resweep md2"
    using assms(5) by (auto simp: name_part_def split: if_splits)
  show "tx_wf nt'" using e k(1) k2(1) by auto
  have "name_part md' = name_part md" using e np k2(3) by auto
  then show "served mac md'" using assms(1) served_name_part by metis
  show "chan_resweep md' = chan_resweep md - 1" using e k(4) k2(4) by auto
  show "\<exists>fs. wire nt' = wire nt @ fs" using e k(2) k2(2) by auto
  show "announced mac md (DANTE_TX_CHANNELS - chan_resweep md + 1) nt'" using e a announced_later k2(2) by metis
qed

lemma polls_announce:
  assumes "served mac md" "tx_wf nt" "length xs \<le> chan_resweep md" "chan_resweep md \<le> DANTE_TX_CHANNELS"
    and "mdns_polls (dev mac) xs md nt = (md', nt')"
  shows "chan_resweep md' = chan_resweep md - length xs \<and> (\<exists>fs. wire nt' = wire nt @ fs) \<and>
    (\<forall>ch. DANTE_TX_CHANNELS - chan_resweep md < ch \<longrightarrow> ch \<le> DANTE_TX_CHANNELS - chan_resweep md + length xs \<longrightarrow> announced mac md ch nt')"
  using assms
proof (induction xs arbitrary: md nt)
  case (Cons x xs)
  obtain s adv now where x: "x = (s, adv, now)" by (metis prod.collapse)
  obtain md1 nt1 where r: "mdns_poll (dev mac) s adv now md nt = (md1, nt1)" by fastforce
  have nz: "chan_resweep md \<noteq> 0" using Cons.prems(3) by auto
  note p = poll_announces [OF Cons.prems(1,2) nz Cons.prems(4) r]
  have rest: "mdns_polls (dev mac) xs md1 nt1 = (md', nt')" using Cons.prems(5) by (simp add: x r)
  have ih: "chan_resweep md' = chan_resweep md1 - length xs" "\<exists>fs. wire nt' = wire nt1 @ fs"
    "\<And>ch. DANTE_TX_CHANNELS - chan_resweep md1 < ch \<Longrightarrow> ch \<le> DANTE_TX_CHANNELS - chan_resweep md1 + length xs \<Longrightarrow> announced mac md1 ch nt'"
    using Cons.IH [OF p(2,1) _ _ rest] Cons.prems(3,4) p(4) by auto
  have "announced mac md ch nt'"
    if "DANTE_TX_CHANNELS - chan_resweep md < ch" "ch \<le> DANTE_TX_CHANNELS - chan_resweep md + length (x # xs)" for ch
  proof (cases "ch = DANTE_TX_CHANNELS - chan_resweep md + 1")
    case True
    then show ?thesis using p(5) ih(2) announced_later by metis
  next
    case False
    then have "announced mac md1 ch nt'" using that nz Cons.prems(4) p(4) by (intro ih(3)) auto
    then show ?thesis using announced_same [OF Cons.prems(1) p(2)] by simp
  qed
  moreover have "\<exists>fs. wire nt' = wire nt @ fs" using p(3) ih(2) by auto
  ultimately show ?case using ih(1) p(4) by simp
qed simp

section \<open>Properties\<close>

text \<open>
  C27: an announcement publishes every channel again. Within the 48 polls after it, whatever
  the talker and the clock do meanwhile, every one of the 48 channels has been answered for on
  the wire with its SRV, its flow control port and the host, and the sweep is over.
\<close>

theorem announce_republishes:
  assumes "served mac md" "tx_wf nt" "length xs = DANTE_TX_CHANNELS"
    and "mdns_polls (dev mac) xs (mdns_announce_md md) nt = (md', nt')"
  shows "chan_resweep md' = 0 \<and> (\<forall>ch \<in> {1..DANTE_TX_CHANNELS}. announced mac md ch nt')"
proof -
  have sv: "served mac (mdns_announce_md md)"
    by (subst served_name_part [of _ md]) (simp_all add: name_part_def mdns_announce_md_def assms(1))
  from polls_announce [OF sv assms(2) _ _ assms(4)] assms(3)
  show ?thesis using announced_same [OF assms(1) sv] by (simp add: mdns_announce_md_def)
qed

theorem announce_republishes_witness:
  "\<exists>md' nt'. mdns_polls (dev (0, 0, 0, 0, 0, 1)) (replicate 48 (boot_tx, 4, 1000)) (mdns_announce_md (boot_mdns (0, 0, 0, 0, 0, 1)))
      (net_boot (0, 0, 0, 0, 0, 1)) = (md', nt') \<and> announced (0, 0, 0, 0, 0, 1) (boot_mdns (0, 0, 0, 0, 0, 1)) 48 nt'"
proof -
  let ?mac = "(0, 0, 0, 0, 0, 1)"
  obtain md' nt' where r: "mdns_polls (dev ?mac) (replicate 48 (boot_tx, 4, 1000)) (mdns_announce_md (boot_mdns ?mac))
      (net_boot ?mac) = (md', nt')" by fastforce
  have wf: "tx_wf (net_boot ?mac)" using net_boot_inv [of ?mac] by (simp add: net_inv_def hw_ok_def)
  have "length (replicate 48 (boot_tx, 4 :: u8, 1000 :: u32)) = DANTE_TX_CHANNELS" by (simp add: DANTE_TX_CHANNELS_def)
  from announce_republishes [OF boot_mdns_served wf this r] show ?thesis using r by (auto simp: DANTE_TX_CHANNELS_def)
qed

text \<open>
  The first of two questions is forgotten. A query with two questions for channels gets
  one answer, for the second channel: the channel wanted is one variable, and the second
  question overwrites it.
\<close>

theorem two_channels_one_answer:
  assumes "served mac md" "tx_wf nt" "c1 \<in> {1..DANTE_TX_CHANNELS}" "c2 \<in> {1..DANTE_TX_CHANNELS}"
    and "m = ptr_of (dg_payload d)" "len = length (dg_payload d)" "12 < len" "rd16 m 2 AND 0x8000 = 0" "rd16 m 4 = 2"
    and "name_decode m len 12 128 = Some (off1, q1)" "off1 + 4 < len" "cstr q1 = map lc (chan_inst (dev mac) md c1)"
    and "name_decode m len (off1 + 4) 128 = Some (off2, q2)" "off2 + 4 \<le> len" "cstr q2 = map lc (chan_inst (dev mac) md c2)"
    and "rd16 m off1 = DNS_T_SRV" "rd16 m off2 = DNS_T_SRV"
    and "mdns_rx (dev mac) s adv d md nt = (md', nt')"
  shows "\<exists>F p e. wire nt' = wire nt @ [F] \<and> carries MDNS_PORT F p \<and> rd16 (ptr_of p) 6 = 1 \<and>
    reads_name p 12 (chan_inst (dev mac) md c2) e"
proof -
  define md1 where "md1 = md\<lparr>md_rx_queries := md_rx_queries md + 1\<rparr>"
  let ?want = "W_CHAN_ONE OR W_A" and ?mda = "md1\<lparr>want_idx := c1\<rparr>" and ?mdb = "md1\<lparr>want_idx := c2\<rparr>"
  have sv: "served mac md1" "served mac ?mda" "served mac ?mdb"
    by (subst served_name_part [of _ md]; simp add: md1_def name_part_def assms(1))+
  have i: "chan_inst (dev mac) md1 c = chan_inst (dev mac) md c" "chan_inst (dev mac) ?mda c = chan_inst (dev mac) md c"
    "chan_inst (dev mac) ?mdb c = chan_inst (dev mac) md c" for c by (simp_all add: md1_def chan_inst_def)
  have q1: "mdns_question (dev mac) s (cstr q1) (rd16 m off1) md1 = (?want, ?mda)"
    using question_chan [OF sv(1)] assms(3) by (simp add: assms(12,16) i)
  have q2: "mdns_question (dev mac) s (cstr q2) (rd16 m off2) ?mda = (?want, ?mdb)"
    using question_chan [OF sv(2)] assms(4) by (simp add: assms(15,17) i)
  have "unat (rd16 m 4) = Suc (Suc 0)" by (simp add: assms(9))
  then have "mdns_questions (dev mac) s m len (unat (rd16 m 4)) 12 0 md1 = (Some ?want, ?mdb)"
    using assms(7,10,11,13,14) q1 q2 by (simp add: not_less)
  then have r: "send_response (dev mac) s adv ?want ?mdb nt = (md', nt')"
    using assms(7-9,18) unfolding mdns_rx_def Let_def assms(5,6) [symmetric] md1_def [symmetric] by simp
  from chan_sends [OF sv(3) assms(2) _ r] assms(4) show ?thesis unfolding i by auto
qed

text \<open>Questions for channels 7 and 9, both names written in full.\<close>

lemma full_question:
  assumes "length h < 16000"
  shows "\<exists>r. length r \<le> 50 \<and> (\<forall>q. name_decode (ptr_of (h @ r @ q)) (length (h @ r @ q)) (length h) 128 = Some (length (h @ r), map lc (chan_name ch)))"
proof -
  have il: "length (chan_name ch) \<le> 48" using chan_label_digits(3) [of ch] by (simp add: chan_tail_def)
  obtain p c where w: "name_put (chan_name ch) (h, []) = (p, c)" by fastforce
  have n: "name_ok h p (chan_name ch) 0" using depth_first [OF w good_names(1,2)] il assms by simp
  obtain r where p: "p = h @ r" using n by (auto simp: name_ok_def)
  have "reads_name (p @ q) (length h) (chan_name ch) (length p)" for q
  proof (rule name_ok_reads)
    show "name_ok h p (chan_name ch) 8" using n le0 by (rule name_ok_mono)
  qed (use good_names(1) in \<open>simp_all add: chan_tail_def\<close>)
  moreover have "length r \<le> 50" using name_put_length [of "chan_name ch" "(h, [])"] il by (simp add: w p)
  ultimately show ?thesis by (intro exI [of _ r]) (simp add: p reads_name_def)
qed

definition two_head :: "u8 list" where
  "two_head = [0, 0, 0, 0, 0, 2, 0, 0, 0, 0, 0, 0]"

definition two_query :: "u8 list \<Rightarrow> u8 list \<Rightarrow> datagram" where
  "two_query r1 r2 = \<lparr>dg_fn = Mdns_Rx, dg_src = (169, 254, 1, 2), dg_dst = mdns_group, dg_sport = MDNS_PORT,
     dg_payload = (two_head @ r1 @ be16 DNS_T_SRV @ be16 DNS_C_IN) @ r2 @ be16 DNS_T_SRV @ be16 DNS_C_IN\<rparr>"

lemma chan_name_cstr: "served mac md \<Longrightarrow> cstr (map lc (chan_name ch)) = map lc (chan_inst (dev mac) md ch)"
proof -
  assume "served mac md"
  moreover have "0 \<notin> set (map lc (chan_name ch))"
    using chan_label_digits(1) [of ch] by (auto simp: chan_tail_def lc_def word_le_nat_alt split: if_splits)
  ultimately show ?thesis unfolding chan_inst_eq [OF \<open>served mac md\<close>] cstr_def by (intro takeWhile_eq_all_conv [THEN iffD2]) auto
qed

theorem two_channels_one_answer_witness:
  "\<exists>r1 r2 md' nt' F p e. mdns_rx (dev (0, 0, 0, 0, 0, 1)) boot_tx 4 (two_query r1 r2) (boot_mdns (0, 0, 0, 0, 0, 1))
      (net_boot (0, 0, 0, 0, 0, 1)) = (md', nt') \<and> wire nt' = wire (net_boot (0, 0, 0, 0, 0, 1)) @ [F] \<and> carries MDNS_PORT F p \<and>
    reads_name p 12 (chan_inst (dev (0, 0, 0, 0, 0, 1)) (boot_mdns (0, 0, 0, 0, 0, 1)) 9) e"
proof -
  let ?mac = "(0, 0, 0, 0, 0, 1)" and ?t = "be16 DNS_T_SRV @ be16 DNS_C_IN"
  have hl: "length two_head = 12" by (simp add: two_head_def)
  obtain r1 where r1: "length r1 \<le> 50" "\<forall>q. name_decode (ptr_of (two_head @ r1 @ q)) (length (two_head @ r1 @ q)) (length two_head) 128 =
      Some (length (two_head @ r1), map lc (chan_name 7))" using full_question [of two_head 7] hl by auto
  let ?h = "two_head @ r1 @ ?t"
  obtain r2 where r2: "\<forall>q. name_decode (ptr_of (?h @ r2 @ q)) (length (?h @ r2 @ q)) (length ?h) 128 =
      Some (length (?h @ r2), map lc (chan_name 9))" using full_question [of ?h 9] hl r1(1) by auto
  let ?d = "two_query r1 r2"
  obtain md' nt' where r: "mdns_rx (dev ?mac) boot_tx 4 ?d (boot_mdns ?mac) (net_boot ?mac) = (md', nt')" by fastforce
  have pl: "dg_payload ?d = two_head @ r1 @ ?t @ r2 @ ?t" by (simp add: two_query_def)
  let ?m = "ptr_of (dg_payload ?d)" and ?n = "length (dg_payload ?d)"
  have n1: "name_decode ?m ?n 12 128 = Some (12 + length r1, map lc (chan_name 7))"
    using r1(2) [rule_format, of "?t @ r2 @ ?t"] hl by (simp add: pl)
  have n2: "name_decode ?m ?n (12 + length r1 + 4) 128 = Some (16 + length r1 + length r2, map lc (chan_name 9))"
    using r2 [rule_format, of ?t] hl by (simp add: pl add.commute)
  have f: "12 < ?n" "rd16 ?m 2 AND 0x8000 = 0" "rd16 ?m 4 = 2" "12 + length r1 + 4 < ?n" "16 + length r1 + length r2 + 4 \<le> ?n"
    by (simp_all add: pl two_head_def rd16_def ptr_of_def)
  have t: "rd16 ?m (12 + length r1) = DNS_T_SRV" "rd16 ?m (16 + length r1 + length r2) = DNS_T_SRV"
    using rd16_at [of "two_head @ r1" DNS_T_SRV "be16 DNS_C_IN @ r2 @ ?t"] rd16_at [of "two_head @ r1 @ ?t @ r2" DNS_T_SRV "be16 DNS_C_IN"] hl
    by (simp_all add: pl add.assoc)
  have wf: "tx_wf (net_boot ?mac)" using net_boot_inv [of ?mac] by (simp add: net_inv_def hw_ok_def)
  have c: "7 \<in> {1..DANTE_TX_CHANNELS}" "9 \<in> {1..DANTE_TX_CHANNELS}" by (simp_all add: DANTE_TX_CHANNELS_def)
  from two_channels_one_answer [OF boot_mdns_served wf c refl refl f(1-3) n1 f(4) chan_name_cstr [OF boot_mdns_served] n2 f(5)
      chan_name_cstr [OF boot_mdns_served] t r] r
  show ?thesis by blast
qed

end
