(* ===== verification/Mdns_Browsing.thy ===== *)
theory Mdns_Browsing
  imports Mdns_Announce
begin

text \<open>
  Browsing over time: the states the responder reaches from start-up while no query mixes the
  question for the channels with another, and the third of the channels it never lists in them.
\<close>

section \<open>What a query asks for\<close>

text \<open>The set of records \<^theory_text>\<open>mdns_rx\<close> finds wanted, if it answers at all.\<close>

definition asked :: "dante_dev \<Rightarrow> tx \<Rightarrow> datagram \<Rightarrow> mdns \<Rightarrow> u32 option" where
  "asked g s d md =
    (let m = ptr_of (dg_payload d); len = length (dg_payload d) in
     if len < 12 \<or> rd16 m 2 AND 0x8000 \<noteq> 0 \<or> rd16 m 4 = 0 then None
     else fst (mdns_questions g s m len (unat (rd16 m 4)) 12 0 (md\<lparr>md_rx_queries := md_rx_queries md + 1\<rparr>)))"

abbreviation W_BROWSE :: u32 where "W_BROWSE \<equiv> W_CHAN_PTR OR W_A"

text \<open>A query for the channels asks for nothing else.\<close>

definition unmixed :: "u32 option \<Rightarrow> bool" where
  "unmixed want \<longleftrightarrow> (\<forall>w. want = Some w \<longrightarrow> w = W_BROWSE \<or> w AND W_CHAN_PTR = 0)"

section \<open>Reachable states\<close>

text \<open>
  The responder between start-up and now: polls and announcements at any time, queries of any
  kind that do not mix, and anything the rest of the firmware does to the network.
\<close>

inductive browsed :: "mac6 \<Rightarrow> mdns \<Rightarrow> net \<Rightarrow> bool" for mac where
  start: "mdns_init (dev mac) md nt = (md', nt') \<Longrightarrow> net_inv nt \<Longrightarrow> chan_ptr_start md = 0 \<Longrightarrow> browsed mac md' nt'"
| poll: "browsed mac md nt \<Longrightarrow> mdns_poll (dev mac) s adv now md nt = (md', nt') \<Longrightarrow> browsed mac md' nt'"
| announce: "browsed mac md nt \<Longrightarrow> browsed mac (mdns_announce_md md) nt"
| query: "browsed mac md nt \<Longrightarrow> unmixed (asked (dev mac) s d md) \<Longrightarrow> mdns_rx (dev mac) s adv d md nt = (md', nt') \<Longrightarrow>
    browsed mac md' nt'"
| other: "browsed mac md nt \<Longrightarrow> tx_wf nt' \<Longrightarrow> browsed mac md nt'"

definition browse_ok :: "mac6 \<Rightarrow> mdns \<Rightarrow> bool" where
  "browse_ok mac md \<longleftrightarrow> served mac md \<and> chan_ptr_start md \<le> 48 \<and> chan_ptr_start md mod 12 = 0"

lemma browse_ok_same: "name_part md' = name_part md \<Longrightarrow> chan_ptr_start md' = chan_ptr_start md \<Longrightarrow> browse_ok mac md' = browse_ok mac md"
  unfolding browse_ok_def by (simp add: served_name_part [of md' md])

text \<open>The questions leave the names and the cursor alone.\<close>

lemma question_keeps:
  "name_part (snd (mdns_question g s q qtype md)) = name_part md \<and> chan_ptr_start (snd (mdns_question g s q qtype md)) = chan_ptr_start md"
  by (auto simp: mdns_question_def Let_def name_part_def split: option.splits)

lemma questions_keep:
  "name_part (snd (mdns_questions g s m len k off want md)) = name_part md \<and>
   chan_ptr_start (snd (mdns_questions g s m len k off want md)) = chan_ptr_start md"
proof (induction k arbitrary: off want md)
  case (Suc k)
  have q: "mdns_question g s q qt md = (w, md1) \<Longrightarrow> name_part md1 = name_part md \<and> chan_ptr_start md1 = chan_ptr_start md" for q qt w md1
    using question_keeps by (metis snd_conv)
  show ?case using Suc.IH q by (auto simp: Let_def split: option.split prod.split)
qed simp

text \<open>Only the question for the channels moves the cursor.\<close>

lemma message_cursor: "want AND W_CHAN_PTR = 0 \<Longrightarrow> snd (mdns_message g s adv ip want md) = chan_ptr_start md"
  by (simp add: mdns_message_def Let_def split_beta)

lemma send_cursor:
  assumes "send_response g s adv want md nt = (md', nt')" "want AND W_CHAN_PTR = 0"
  shows "chan_ptr_start md' = chan_ptr_start md"
  using assms message_cursor [OF assms(2)] by (auto simp: send_response_def Let_def split_beta split: if_splits)

lemma browse_sends:
  assumes ok: "browse_ok mac md" and wf: "tx_wf nt" and r: "send_response (dev mac) s adv W_BROWSE md nt = (md', nt')"
  obtains F p ns where "wire nt' = wire nt @ [F]" "carries MDNS_PORT F p" "length ns = 24"
    "p = fst (writes (Raw (counts_header 24 1) # browse_pieces (browse_list (chan_ptr_start md)) ns @ a_pieces md (g_net_ip nt)) ([], []))"
    "chan_ptr_start md' = cursor (chan_ptr_start md) 24"
proof -
  note o = ok [unfolded browse_ok_def]
  obtain p where p: "mdns_message (dev mac) s adv (g_net_ip nt) W_BROWSE md = (p, cursor (chan_ptr_start md) 24)" "length p \<le> 1400"
    and ns: "\<exists>ns. length ns = 24 \<and>
      p = fst (writes (Raw (counts_header 24 1) # browse_pieces (browse_list (chan_ptr_start md)) ns @ a_pieces md (g_net_ip nt)) ([], []))"
    using browse_message [of mac md s adv "g_net_ip nt"] o by (metis fst_conv)
  have "W_BROWSE \<noteq> 0" by (simp add: W_CHAN_PTR_def W_A_def)
  note f = send_response_sends [OF wf this p r]
  have "chan_ptr_start md' = cursor (chan_ptr_start md) 24" by (simp add: f(2))
  with f(1) ns show thesis using that by blast
qed

lemma send_ok:
  assumes ok: "browse_ok mac md" and wf: "tx_wf nt" and r: "send_response (dev mac) s adv want md nt = (md', nt')"
    and w: "want = W_BROWSE \<or> want AND W_CHAN_PTR = 0"
  shows "browse_ok mac md'"
proof (cases "want = W_BROWSE")
  case True
  note o = ok [unfolded browse_ok_def]
  have "chan_ptr_start md' = cursor (chan_ptr_start md) 24" using browse_sends [OF ok wf r [unfolded True]] by metis
  moreover have "served mac md'" using served_name_part [OF send_response_keeps(3) [OF wf r]] o by simp
  ultimately show ?thesis using browse_facts(3,4) [of "chan_ptr_start md"] o unfolding browse_ok_def by simp
next
  case False
  then show ?thesis using w browse_ok_same [OF send_response_keeps(3) [OF wf r] send_cursor [OF r]] ok by simp
qed

lemma rx_asked:
  assumes "mdns_rx g s adv d md nt = (md', nt')"
  shows "(\<exists>md1. name_part md1 = name_part md \<and> chan_ptr_start md1 = chan_ptr_start md \<and>
    (case asked g s d md of None \<Rightarrow> md' = md1 \<and> nt' = nt | Some want \<Rightarrow> send_response g s adv want md1 nt = (md', nt')))"
proof -
  let ?m = "ptr_of (dg_payload d)" and ?n = "length (dg_payload d)" and ?md = "md\<lparr>md_rx_queries := md_rx_queries md + 1\<rparr>"
  obtain want md1 where q: "mdns_questions g s ?m ?n (unat (rd16 ?m 4)) 12 0 ?md = (want, md1)" by fastforce
  have k: "name_part md1 = name_part md" "chan_ptr_start md1 = chan_ptr_start md"
    using questions_keep [of g s ?m ?n "unat (rd16 ?m 4)" 12 0 ?md] by (simp_all add: q name_part_def)
  show ?thesis
  proof (cases "?n < 12 \<or> rd16 ?m 2 AND 0x8000 \<noteq> 0 \<or> rd16 ?m 4 = 0")
    case True
    then have "mdns_rx g s adv d md nt = (md, nt)" "asked g s d md = None"
      unfolding mdns_rx_def asked_def Let_def by auto
    then show ?thesis using assms by (intro exI [of _ md]) simp
  next
    case False
    then have "mdns_rx g s adv d md nt = (case want of None \<Rightarrow> (md1, nt) | Some want \<Rightarrow> send_response g s adv want md1 nt)"
        "asked g s d md = want"
      unfolding mdns_rx_def asked_def Let_def by (simp_all add: q split: option.split)
    then show ?thesis using assms k by (intro exI [of _ md1]) (simp split: option.splits)
  qed
qed

lemma poll_ok:
  assumes "browse_ok mac md" "tx_wf nt" "mdns_poll (dev mac) s adv now md nt = (md', nt')"
  shows "browse_ok mac md' \<and> tx_wf nt'"
proof -
  have one: "W_CHAN_ONE AND W_CHAN_PTR = 0" by (simp add: W_CHAN_ONE_def W_CHAN_PTR_def)
  have all: "(W_ARC_PTR OR W_ARC_SRV OR W_ARC_TXT OR W_CMC_PTR OR W_CMC_SRV OR W_CMC_TXT OR W_A) AND W_CHAN_PTR = 0"
    by (simp add: W_CHAN_PTR_def W_ARC_PTR_def W_ARC_SRV_def W_ARC_TXT_def W_CMC_PTR_def W_CMC_SRV_def W_CMC_TXT_def W_A_def)
  have snd_ok: "browse_ok mac m' \<and> tx_wf n'" if "send_response (dev mac) s adv want m n = (m', n')" "browse_ok mac m" "tx_wf n"
    "want AND W_CHAN_PTR = 0" for want m n m' n'
    using send_ok [OF that(2,3,1)] send_response_keeps(1) [OF that(3,1)] that(4) by blast
  have upd: "browse_ok mac (m\<lparr>want_idx := i\<rparr>) = browse_ok mac m" "browse_ok mac (m\<lparr>chan_resweep := j\<rparr>) = browse_ok mac m"
    "browse_ok mac (m\<lparr>md_tx_announce := a, announce_left := b, announce_next_ms := c\<rparr>) = browse_ok mac m" for m i j a b c
    by (rule browse_ok_same; simp add: name_part_def)+
  show ?thesis
    using assms snd_ok [OF _ _ _ one] snd_ok [OF _ _ _ all]
    by (auto simp: mdns_poll_def Let_def upd split: if_splits prod.splits)
qed

lemma browsed_ok: "browsed mac md nt \<Longrightarrow> browse_ok mac md \<and> tx_wf nt"
proof (induction rule: browsed.induct)
  case (start md nt md' nt')
  have "net_inv (snd (net_udp_bind MDNS_PORT (Some Mdns_Rx) nt))"
    by (rule net_udp_bind_net_inv [OF start(2)]) (simp add: MDNS_PORT_def)
  then have "net_inv (snd (net_igmp_join mdns_group (snd (net_udp_bind MDNS_PORT (Some Mdns_Rx) nt))))"
    by (rule net_igmp_join_net_inv)
  then have "net_inv nt'" using start(1) by (auto simp: mdns_init_def)
  moreover have "browse_ok mac md'"
    using start(1,3) by (auto simp: mdns_init_def Let_def browse_ok_def served_def name_part_def mdns_names_fields mdns_announce_md_def mdns_names_def)
  ultimately show ?case by (simp add: net_inv_def hw_ok_def)
next
  case (announce md nt)
  have "browse_ok mac (mdns_announce_md md) = browse_ok mac md"
    by (rule browse_ok_same) (simp_all add: name_part_def mdns_announce_md_def)
  with announce.IH show ?case by simp
next
  case (query md nt s d adv md' nt')
  obtain md1 where m: "name_part md1 = name_part md" "chan_ptr_start md1 = chan_ptr_start md"
    "case asked (dev mac) s d md of None \<Rightarrow> md' = md1 \<and> nt' = nt | Some want \<Rightarrow> send_response (dev mac) s adv want md1 nt = (md', nt')"
    using rx_asked [OF query(3)] by blast
  have ok: "browse_ok mac md1" using browse_ok_same [OF m(1,2)] query.IH by simp
  show ?case
  proof (cases "asked (dev mac) s d md")
    case None
    then show ?thesis using m(3) ok query.IH by simp
  next
    case (Some want)
    then have r: "send_response (dev mac) s adv want md1 nt = (md', nt')" and w: "want = W_BROWSE \<or> want AND W_CHAN_PTR = 0"
      using m(3) query(2) by (simp_all add: unmixed_def)
    have wf: "tx_wf nt" using query.IH by simp
    show ?thesis using send_ok [OF ok wf r w] send_response_keeps(1) [OF wf r] by simp
  qed
qed (use poll_ok in blast)+

section \<open>Properties\<close>

text \<open>
  C35: a browser that asks only for the channels never sees a third of them. From start-up, through
  any polls, announcements and queries as long as no query mixes the question for the channels with
  another, each query for the channels is answered with one datagram that lists 24 of them, and
  none has a number that leaves 2 modulo 3: the cursor moves by the index of the loop as well as by
  one, and each answer leaves it at a multiple of twelve. (A query that asks for services as well
  leaves it elsewhere, and the answers after it list others.)
\<close>

theorem browse_never_lists_a_third:
  assumes "browsed mac md nt" "asked (dev mac) s d md = Some W_BROWSE" "mdns_rx (dev mac) s adv d md nt = (md', nt')"
  shows "\<exists>F p chs ns. wire nt' = wire nt @ [F] \<and> carries MDNS_PORT F p \<and> length chs = 24 \<and> length ns = 24 \<and>
    p = fst (writes (Raw (counts_header 24 1) # browse_pieces chs ns @ a_pieces md (g_net_ip nt)) ([], [])) \<and>
    (\<forall>c \<in> set chs. c mod 3 \<noteq> 2)"
proof -
  obtain md1 where m: "name_part md1 = name_part md" "chan_ptr_start md1 = chan_ptr_start md"
    "send_response (dev mac) s adv W_BROWSE md1 nt = (md', nt')" using rx_asked [OF assms(3)] assms(2) by auto
  have o: "browse_ok mac md1" "tx_wf nt" using browsed_ok [OF assms(1)] browse_ok_same [OF m(1,2)] by simp_all
  have a: "a_pieces md1 ip = a_pieces md ip" for ip using m(1) by (simp add: a_pieces_def name_part_def)
  obtain F p ns where f: "wire nt' = wire nt @ [F]" "carries MDNS_PORT F p" "length ns = 24"
    "p = fst (writes (Raw (counts_header 24 1) # browse_pieces (browse_list (chan_ptr_start md1)) ns @ a_pieces md (g_net_ip nt)) ([], []))"
    using browse_sends [OF o m(3)] a by metis
  have "\<forall>c \<in> set (browse_list (chan_ptr_start md1)). c mod 3 \<noteq> 2" "length (browse_list (chan_ptr_start md1)) = 24"
    using browse_facts(2) o(1) by (auto simp: browse_ok_def browse_list_def)
  with f show ?thesis by blast
qed

text \<open>The query a browser sends.\<close>

definition browse_query :: datagram where
  "browse_query = \<lparr>dg_fn = Mdns_Rx, dg_src = (169, 254, 1, 2), dg_dst = mdns_group, dg_sport = MDNS_PORT,
     dg_payload = [0, 0, 0, 0, 0, 1, 0, 0, 0, 0, 0, 0] @ [14] @ ascii ''_netaudio-chan'' @ [4] @ ascii ''_udp'' @ [5] @ ascii ''local'' @ [0] @
       be16 DNS_T_PTR @ be16 DNS_C_IN\<rparr>"

lemma browse_query_name: "name_decode (ptr_of (dg_payload browse_query)) 43 12 128 = Some (39, svc_name)"
  by code_simp

lemma browse_query_asks:
  assumes "served mac md"
  shows "asked (dev mac) s browse_query md = Some W_BROWSE"
proof -
  let ?d = "dg_payload browse_query" and ?md = "md\<lparr>md_rx_queries := md_rx_queries md + 1\<rparr>"
  have sv: "served mac ?md" by (subst served_name_part [of _ md]) (simp_all add: name_part_def assms)
  have n: "unat (rd16 (ptr_of ?d) 4) = Suc 0" "rd16 (ptr_of ?d) 4 \<noteq> 0" "rd16 (ptr_of ?d) 2 = 0" "length ?d = 43" "rd16 (ptr_of ?d) 39 = DNS_T_PTR"
    by (simp_all add: browse_query_def rd16_def ptr_of_def be16_def DNS_T_PTR_def)
  have c: "cstr svc_name = svc_name" by (simp add: cstr_def)
  have "mdns_question (dev mac) s svc_name DNS_T_PTR ?md = (W_BROWSE, ?md)"
    by (simp add: mdns_question_def Let_def served_fields [OF sv] n_services_def)
  then show ?thesis using n browse_query_name c unfolding asked_def Let_def n(1) by simp
qed

theorem browse_never_lists_a_third_witness:
  "\<exists>md nt md' nt' F p chs ns. mdns_init (dev (0, 0, 0, 0, 0, 1)) mdns0 (net_boot (0, 0, 0, 0, 0, 1)) = (md, nt) \<and>
    mdns_rx (dev (0, 0, 0, 0, 0, 1)) boot_tx 4 browse_query md nt = (md', nt') \<and> wire nt' = wire nt @ [F] \<and> carries MDNS_PORT F p \<and>
    length chs = 24 \<and> p = fst (writes (Raw (counts_header 24 1) # browse_pieces chs ns @ a_pieces md (g_net_ip nt)) ([], [])) \<and>
    (\<forall>c \<in> set chs. c mod 3 \<noteq> 2)"
proof -
  let ?mac = "(0, 0, 0, 0, 0, 1)"
  obtain md nt where i: "mdns_init (dev ?mac) mdns0 (net_boot ?mac) = (md, nt)" by fastforce
  obtain md' nt' where r: "mdns_rx (dev ?mac) boot_tx 4 browse_query md nt = (md', nt')" by fastforce
  have b: "browsed ?mac md nt" by (rule browsed.start [OF i net_boot_inv]) (simp add: mdns0_def)
  then have "served ?mac md" using browsed_ok by (auto simp: browse_ok_def)
  from browse_never_lists_a_third [OF b browse_query_asks [OF this] r] i r show ?thesis by blast
qed

end
