(* ===== verification/Dante_Arc.thy ===== *)
theory Dante_Arc
  imports Mdns
begin

text \<open>
  The ARC server on port 4440, \<^theory_text>\<open>firmware/dante_arc.c\<close>: the channel and flow lists a
  controller browses, page by page, the property table, subscriptions, the multicast flows it
  creates and deletes, and the latency it sets.
\<close>

section \<open>State\<close>

definition DANTE_RX_CHANNELS :: nat where "DANTE_RX_CHANNELS = 2"
definition DANTE_MAX_SUBNAME :: nat where "DANTE_MAX_SUBNAME = 32"
definition SUB_STATUS_PENDING :: u32 where "SUB_STATUS_PENDING = 1"
definition PACKET_SIZE_SOFT_LIMIT :: nat where "PACKET_SIZE_SOFT_LIMIT = 800"
definition MAX_CHANNELS_IN_FLOW :: u16 where "MAX_CHANNELS_IN_FLOW = 8"
definition MAX_TX_FLOWS :: u16 where "MAX_TX_FLOWS = 32"
definition MAX_RX_FLOWS :: u16 where "MAX_RX_FLOWS = 32"

definition OP_CHANNELS_AND_FLOWS_COUNT :: u16 where "OP_CHANNELS_AND_FLOWS_COUNT = 0x1000"
definition OP_GET_DEVICE_NAME :: u16 where "OP_GET_DEVICE_NAME = 0x1002"
definition OP_GET_DEVICE_NAMES :: u16 where "OP_GET_DEVICE_NAMES = 0x1003"
definition OP_UNKNOWN_1100 :: u16 where "OP_UNKNOWN_1100 = 0x1100"
definition OP_UNKNOWN_1102 :: u16 where "OP_UNKNOWN_1102 = 0x1102"
definition OP_GET_TX_CHANNELS :: u16 where "OP_GET_TX_CHANNELS = 0x2000"
definition OP_GET_TX_FRIENDLY_NAMES :: u16 where "OP_GET_TX_FRIENDLY_NAMES = 0x2010"
definition OP_QUERY_TX_FLOWS :: u16 where "OP_QUERY_TX_FLOWS = 0x2200"
definition OP_UNKNOWN_2320 :: u16 where "OP_UNKNOWN_2320 = 0x2320"
definition OP_GET_RX_CHANNELS :: u16 where "OP_GET_RX_CHANNELS = 0x3000"
definition OP_QUERY_RX_FLOWS :: u16 where "OP_QUERY_RX_FLOWS = 0x3200"
definition OP_UNKNOWN_3300 :: u16 where "OP_UNKNOWN_3300 = 0x3300"

record arc =
  sub_tx_name :: "u8 list list"
  sub_tx_host :: "u8 list list"
  arc_body :: "u8 list"
  g_arc_mirror_ip :: ip4
  g_router_vers :: u16
  g_arcp_vers :: u16
  g_dev_flags0 :: u8
  g_dev_flags2 :: u8
  ar_rx :: u32
  ar_tx :: u32
  ar_unknown :: u32

definition arc_1100_body :: "u8 list" where
  "arc_1100_body = [
    0x24, 0x1F, 0x80, 0x20, 0, 0x9C, 0x80, 0x21, 0, 0xA0, 0, 0x22, 0, 0x01, 0, 0x23, 0, 0x18, 0, 0x24, 0,
    0x01, 0x80, 0x60, 0, 0xB0, 0, 0x62, 0, 0x01, 0, 0x63, 0, 0x01, 0x02, 0x01, 0, 0x01, 0x82, 0x04, 0, 0xB4,
    0x82, 0x05, 0, 0xB8, 0x02, 0x0A, 0, 0, 0x02, 0x0B, 0, 0, 0x02, 0x10, 0, 0, 0x02, 0x11, 0, 0, 0x02, 0x12,
    0, 0x30, 0x02, 0x13, 0, 0, 0x02, 0x14, 0, 0, 0x02, 0x22, 0x13, 0x8C, 0x83, 0x01, 0, 0xBC, 0x83, 0x06, 0,
    0xC0, 0x83, 0x02, 0, 0xC4, 0x83, 0x21, 0, 0xC8, 0x03, 0x10, 0, 0x10, 0x03, 0x11, 0, 0x10, 0x03, 0x12, 0,
    0x30, 0x03, 0x03, 0, 0x02, 0x83, 0xF0, 0, 0xCC, 0x06, 0x01, 0, 0, 0x03, 0x09, 0, 0x03, 0x02, 0x09, 0,
    0x01, 0, 0, 0, 0, 0, 0, 0, 0, 0, 0, 0, 0, 0, 0, 0, 0, 0, 0, 0, 0, 0, 0, 0xBB, 0x80, 0, 0, 0, 0, 0, 0, 0,
    0, 0, 0, 0, 0, 0, 0, 0, 0, 0xEF, 0x45, 0, 0, 0, 0x0F, 0x42, 0x40, 0, 0x07, 0xA1, 0x20, 0, 0x07, 0xA1,
    0x20, 0, 0x03, 0xD0, 0x90, 0x01, 0x35, 0xF1, 0xB4, 0, 0x1E, 0x84, 0x80, 0, 0, 0, 0x05, 0, 0, 0, 0]"

definition arc_1102_body :: "u8 list" where
  "arc_1102_body = [
    0, 0x1F, 0x80, 0x20, 0, 0x01, 0x80, 0x21, 0, 0x03, 0, 0x22, 0, 0x03, 0, 0x23, 0, 0x03, 0, 0x24, 0, 0x01,
    0x80, 0x60, 0, 0x03, 0, 0x62, 0, 0x03, 0, 0x63, 0, 0x01, 0x02, 0x01, 0, 0x03, 0x82, 0x04, 0, 0x03, 0x82,
    0x05, 0, 0x03, 0x02, 0x0A, 0, 0x01, 0x02, 0x0B, 0, 0x01, 0x02, 0x10, 0, 0x03, 0x02, 0x11, 0, 0x03, 0x02,
    0x12, 0, 0x03, 0x02, 0x13, 0, 0x01, 0x02, 0x14, 0, 0x01, 0x02, 0x22, 0, 0x03, 0x83, 0x01, 0, 0x03, 0x83,
    0x06, 0, 0x01, 0x83, 0x02, 0, 0x01, 0x83, 0x21, 0, 0x01, 0x03, 0x10, 0, 0x01, 0x03, 0x11, 0, 0x01, 0x03,
    0x12, 0, 0x01, 0x03, 0x03, 0, 0x03, 0x83, 0xF0, 0, 0x01, 0x06, 0x01, 0, 0x01, 0x03, 0x09, 0, 0x01, 0x02,
    0x09, 0, 0x01]"

text \<open>The values the variables of the file start with.\<close>

definition arc0 :: arc where
  "arc0 = \<lparr>sub_tx_name = [[], []], sub_tx_host = [[], []], arc_body = arc_1100_body, g_arc_mirror_ip = (0, 0, 0, 0),
     g_router_vers = 0x0404, g_arcp_vers = 0x280C, g_dev_flags0 = 0, g_dev_flags2 = push_bit 4 1 OR push_bit 5 1,
     ar_rx = 0, ar_tx = 0, ar_unknown = 0\<rparr>"

text \<open>A string of the request, at an absolute offset; a C string ends at its first NUL.\<close>

definition sub_copy :: "ptr \<Rightarrow> nat \<Rightarrow> u16 \<Rightarrow> u8 list" where
  "sub_copy req len off =
    (if off = 0 \<or> unat off \<ge> len then []
     else take (DANTE_MAX_SUBNAME - 1) (takeWhile (\<lambda>c. c \<noteq> 0) (bytes_at req (unat off) (len - unat off))))"

section \<open>The property table\<close>

text \<open>The first of the entries that lie inside the table whose key is \<open>key\<close>.\<close>

definition key_entry :: "u16 \<Rightarrow> u8 list \<Rightarrow> nat option" where
  "key_entry key body = List.find (\<lambda>i. rd16 (ptr_of body) (2 + i * 4) = key)
     (takeWhile (\<lambda>i. 2 + i * 4 + 4 \<le> length body) [0..<unat (body ! 1)])"

definition arc_1100_patch :: "u16 \<Rightarrow> u16 \<Rightarrow> u8 list \<Rightarrow> int \<times> u8 list" where
  "arc_1100_patch key val body =
    (if key AND 0x8000 \<noteq> 0 then (-1, body)
     else case key_entry key body of
       None \<Rightarrow> (-1, body) | Some i \<Rightarrow> (0, put (2 + i * 4 + 2) (be16 val) body))"

definition arc_1100_patch_u32 :: "u16 \<Rightarrow> u32 \<Rightarrow> u8 list \<Rightarrow> int \<times> u8 list" where
  "arc_1100_patch_u32 key val body =
    (case key_entry key body of
       None \<Rightarrow> (-1, body)
     | Some i \<Rightarrow>
        (let off = unat (rd16 (ptr_of body) (2 + i * 4 + 2)) in
         if off < DANTE_HDR_LEN then (-1, body)
         else if off - DANTE_HDR_LEN + 4 > length body then (-1, body)
         else (0, put (off - DANTE_HDR_LEN) (be32 val) body)))"

definition dante_arc_patch_1100 :: "u16 \<Rightarrow> u16 \<Rightarrow> arc \<Rightarrow> int \<times> arc" where
  "dante_arc_patch_1100 key val a = (let (r, b) = arc_1100_patch key val (arc_body a) in (r, a\<lparr>arc_body := b\<rparr>))"

definition dante_arc_patch_1100_u32 :: "u16 \<Rightarrow> u32 \<Rightarrow> arc \<Rightarrow> int \<times> arc" where
  "dante_arc_patch_1100_u32 key val a = (let (r, b) = arc_1100_patch_u32 key val (arc_body a) in (r, a\<lparr>arc_body := b\<rparr>))"

section \<open>Pages\<close>

definition put_common_descriptor :: "dante_dev \<Rightarrow> dante_msg \<Rightarrow> u16 \<times> dante_msg" where
  "put_common_descriptor g m =
    (let off = of_nat (m_len m);
         m = dante_msg_u32 (sample_rate g) m;
         m = dante_msg_u8 1 m;
         m = dante_msg_u8 1 m;
         m = dante_msg_u16 (ucast (bits_per_sample g)) m;
         m = dante_msg_u16 0x400 m;
         m = dante_msg_u16 (ucast (bits_per_sample g)) m;
         m = dante_msg_u16 (ucast (bits_per_sample g)) m;
         m = dante_msg_u16 0xE m in
     (off, m))"

record page =
  items_at :: nat
  item_size :: nat
  pg_space :: nat
  pg_actual :: nat

definition page_begin :: "nat \<Rightarrow> nat \<Rightarrow> dante_msg \<Rightarrow> page \<times> dante_msg" where
  "page_begin sz sp m =
    (let sp = (if sp > 255 then 255 else sp);
         m = dante_msg_u8 (of_nat sp) m;
         m = dante_msg_u8 0 m;
         pg = \<lparr>items_at = m_len m, item_size = sz, pg_space = sp, pg_actual = 0\<rparr> in
     (pg, dante_msg_zeros (sz * sp) m))"

text \<open>The place of the next item.\<close>

definition page_slot :: "page \<Rightarrow> nat" where
  "page_slot pg = items_at pg + pg_actual pg * item_size pg"

definition page_end :: "page \<Rightarrow> dante_msg \<Rightarrow> dante_msg" where
  "page_end pg m = m\<lparr>m_buf := put (items_at pg - 1) [of_nat (pg_actual pg)] (m_buf m)\<rparr>"

definition put_u16_at :: "nat \<Rightarrow> nat \<Rightarrow> u16 \<Rightarrow> dante_msg \<Rightarrow> dante_msg" where
  "put_u16_at base off v m = m\<lparr>m_buf := put (base + off) (be16 v) (m_buf m)\<rparr>"

definition page_start :: "ptr \<Rightarrow> nat \<Rightarrow> nat" where
  "page_start c clen = (let start = (if clen \<ge> 4 then dante_req_u16 c 2 else 1) in if start = 0 then 1 else unat start)"

definition page_code :: "nat \<Rightarrow> nat \<Rightarrow> u16" where
  "page_code idx n = (if idx \<le> n then DANTE_CODE_MORE else DANTE_CODE_OK)"

section \<open>The channel lists\<close>

text \<open>One transmit channel: the common descriptor before the first, its name, its item.\<close>

definition tx_channel_item :: "dante_dev \<Rightarrow> nat \<Rightarrow> u16 \<Rightarrow> page \<Rightarrow> dante_msg \<Rightarrow> u16 \<times> dante_msg" where
  "tx_channel_item g idx common pg m =
    (let (common, m) = (if common = 0 then put_common_descriptor g m else (common, m));
         (name_off, m) = dante_msg_str (dante_tx_channel_name (of_nat idx) 8) m;
         sl = page_slot pg;
         m = put_u16_at sl 0 (of_nat idx) m;
         m = put_u16_at sl 2 7 m;
         m = put_u16_at sl 4 common m in
     (common, put_u16_at sl 6 name_off m))"

function tx_channels :: "dante_dev \<Rightarrow> nat \<Rightarrow> u16 \<Rightarrow> page \<Rightarrow> dante_msg \<Rightarrow> nat \<times> page \<times> dante_msg" where
  "tx_channels g idx common pg m =
    (if \<not> (idx \<le> DANTE_TX_CHANNELS \<and> pg_actual pg < pg_space pg) then (idx, pg, m)
     else
       let (common, m) = tx_channel_item g idx common pg m;
           pg = pg\<lparr>pg_actual := pg_actual pg + 1\<rparr> in
       if m_len m \<ge> PACKET_SIZE_SOFT_LIMIT then (idx + 1, pg, m)
       else tx_channels g (idx + 1) common pg m)"
  by pat_completeness auto
termination
  by (relation "measure (\<lambda>(g, idx, common, pg, m). DANTE_TX_CHANNELS + 1 - idx)") auto

declare tx_channels.simps [simp del]

definition arc_tx_channels :: "dante_dev \<Rightarrow> ptr \<Rightarrow> nat \<Rightarrow> dante_msg \<Rightarrow> u16 \<times> dante_msg" where
  "arc_tx_channels g c clen m =
    (let (pg, m) = page_begin 8 32 m;
         (idx, pg, m) = tx_channels g (page_start c clen) 0 pg m in
     (page_code idx DANTE_TX_CHANNELS, page_end pg m))"

definition friendly_item :: "nat \<Rightarrow> bool \<Rightarrow> page \<Rightarrow> dante_msg \<Rightarrow> dante_msg" where
  "friendly_item idx wrote_pad pg m =
    (let m = (if wrote_pad then m else dante_msg_u32 0 m);
         (name_off, m) = dante_msg_str (dante_tx_channel_name (of_nat idx) 8) m;
         sl = page_slot pg;
         m = put_u16_at sl 0 (of_nat idx) m;
         m = put_u16_at sl 2 (of_nat idx) m in
     put_u16_at sl 4 name_off m)"

function friendly_names :: "nat \<Rightarrow> bool \<Rightarrow> page \<Rightarrow> dante_msg \<Rightarrow> nat \<times> page \<times> dante_msg" where
  "friendly_names idx wrote_pad pg m =
    (if \<not> (idx \<le> DANTE_TX_CHANNELS \<and> pg_actual pg < pg_space pg) then (idx, pg, m)
     else
       let m = friendly_item idx wrote_pad pg m;
           pg = pg\<lparr>pg_actual := pg_actual pg + 1\<rparr> in
       if m_len m \<ge> PACKET_SIZE_SOFT_LIMIT then (idx + 1, pg, m)
       else friendly_names (idx + 1) True pg m)"
  by pat_completeness auto
termination
  by (relation "measure (\<lambda>(idx, wrote_pad, pg, m). DANTE_TX_CHANNELS + 1 - idx)") auto

declare friendly_names.simps [simp del]

definition arc_friendly_names :: "ptr \<Rightarrow> nat \<Rightarrow> dante_msg \<Rightarrow> u16 \<times> dante_msg" where
  "arc_friendly_names c clen m =
    (let (pg, m) = page_begin 6 32 m;
         (idx, pg, m) = friendly_names (page_start c clen) False pg m in
     (page_code idx DANTE_TX_CHANNELS, page_end pg m))"

text \<open>One receive channel: its own name, then what it is subscribed to, if anything.\<close>

definition rx_channel_item :: "dante_dev \<Rightarrow> arc \<Rightarrow> nat \<Rightarrow> u16 \<Rightarrow> page \<Rightarrow> dante_msg \<Rightarrow> u16 \<times> dante_msg" where
  "rx_channel_item g a idx common pg m =
    (let (common, m) = (if common = 0 then put_common_descriptor g m else (common, m));
         (name_off, m) = dante_msg_str (ascii ''Rx'' @ [of_nat (48 + idx)]) m;
         sl = page_slot pg;
         m = put_u16_at sl 0 (of_nat idx) m;
         m = put_u16_at sl 2 6 m;
         m = put_u16_at sl 4 common m;
         name = sub_tx_name a ! (idx - 1);
         host = sub_tx_host a ! (idx - 1);
         (tx_off, host_off, status, m) =
           (if name \<noteq> [] then
              let (t, m) = dante_msg_str name m;
                  (h, m) = (if host \<noteq> [] then dante_msg_str host m else (0, m)) in
              (t, h, SUB_STATUS_PENDING, m)
            else (0, 0, 0, m));
         m = put_u16_at sl 6 tx_off m;
         m = put_u16_at sl 8 host_off m;
         m = put_u16_at sl 10 name_off m;
         m = put_u16_at sl 12 (ucast (drop_bit 16 status)) m;
         m = put_u16_at sl 14 (ucast status) m;
         m = put_u16_at sl 16 0 m in
     (common, put_u16_at sl 18 0 m))"

function rx_channels :: "dante_dev \<Rightarrow> arc \<Rightarrow> nat \<Rightarrow> u16 \<Rightarrow> page \<Rightarrow> dante_msg \<Rightarrow> nat \<times> page \<times> dante_msg" where
  "rx_channels g a idx common pg m =
    (if \<not> (idx \<le> DANTE_RX_CHANNELS \<and> pg_actual pg < pg_space pg) then (idx, pg, m)
     else
       let (common, m) = rx_channel_item g a idx common pg m;
           pg = pg\<lparr>pg_actual := pg_actual pg + 1\<rparr> in
       if m_len m \<ge> PACKET_SIZE_SOFT_LIMIT then (idx + 1, pg, m)
       else rx_channels g a (idx + 1) common pg m)"
  by pat_completeness auto
termination
  by (relation "measure (\<lambda>(g, a, idx, common, pg, m). DANTE_RX_CHANNELS + 1 - idx)") auto

declare rx_channels.simps [simp del]

definition arc_rx_channels :: "dante_dev \<Rightarrow> arc \<Rightarrow> ptr \<Rightarrow> nat \<Rightarrow> dante_msg \<Rightarrow> u16 \<times> dante_msg" where
  "arc_rx_channels g a c clen m =
    (let (pg, m) = page_begin 20 DANTE_RX_CHANNELS m;
         (idx, pg, m) = rx_channels g a (page_start c clen) 0 pg m in
     (page_code idx DANTE_RX_CHANNELS, page_end pg m))"

section \<open>The transmit flows\<close>

text \<open>Decimal digits from the highest non-zero one, at least the last.\<close>

fun lead_digits :: "nat list \<Rightarrow> bool \<Rightarrow> nat \<Rightarrow> u8 list" where
  "lead_digits [] lead v = []"
| "lead_digits (q # qs) lead v =
    (let x = (v div q) mod 10 in
     if x \<noteq> 0 \<or> lead \<or> q = 1 then dig x # lead_digits qs True v else lead_digits qs lead v)"

definition flow_name :: "dante_dev \<Rightarrow> nat \<Rightarrow> u8 list" where
  "flow_name g f = (if f \<ge> 10 then [dig (f div 10)] else []) @ [dig (f mod 10)] @ [95] @
     lead_digits [10000, 1000, 100, 10, 1] False (unat (process_id g))"

function align4 :: "dante_msg \<Rightarrow> dante_msg" where
  "align4 m = (if m_len m mod 4 \<noteq> 0 then align4 (dante_msg_u8 0 m) else m)"
  by pat_completeness auto
termination
proof (relation "measure (\<lambda>m. (4 - m_len m mod 4) mod 4)")
  fix m :: dante_msg assume "m_len m mod 4 \<noteq> 0"
  then have "m_len m mod 4 \<in> {1, 2, 3}" by auto
  moreover have "(m_len m + 1) mod 4 = (m_len m mod 4 + 1) mod 4" by (simp add: mod_Suc)
  ultimately have "(4 - (m_len m + 1) mod 4) mod 4 < (4 - m_len m mod 4) mod 4" by auto
  then show "(dante_msg_u8 0 m, m) \<in> measure (\<lambda>m. (4 - m_len m mod 4) mod 4)" by (simp add: dante_msg_u8_def)
qed simp

declare align4.simps [simp del]

text \<open>What one flow adds: its name, socket, names block and descriptor; the offset of the descriptor.\<close>

definition flow_blobs :: "dante_dev \<Rightarrow> tx \<Rightarrow> nat \<Rightarrow> ip4 \<times> u16 \<times> u8 \<times> u8 \<times> bool \<times> u16 \<Rightarrow> dante_msg \<Rightarrow> u16 \<times> dante_msg" where
  "flow_blobs g s f = (\<lambda>(dip, dport, ns, fp, mc, ext) m.
    let (name_off, m) = dante_msg_str (flow_name g f) m;
        m = align4 m;
        sock_off = of_nat (m_len m);
        m = dante_msg_u16 0x8002 m;
        m = dante_msg_u16 dport m;
        m = dante_msg_bytes (ip_bytes dip) m;
        names_off = of_nat (m_len m);
        m = dante_msg_u16 0x0A00 m;
        m = dante_msg_u16 1 m;
        m = dante_msg_u16 0 m;
        m = dante_msg_u16 0 m;
        m = dante_msg_u16 0x0010 m;
        m = dante_msg_u16 name_off m;
        m = dante_msg_u32 (dante_tx_latency_effective s) m;
        m = dante_msg_u32 0 m;
        descr_off = of_nat (m_len m);
        m = dante_msg_u16 ext m;
        m = dante_msg_u16 (if mc then 2 else 0x11) m;
        m = dante_msg_u32 (sample_rate g) m;
        m = dante_msg_u16 0 m;
        m = dante_msg_u16 (ucast (bits_per_sample g)) m;
        m = dante_msg_u16 1 m;
        m = dante_msg_u16 (ucast ns) m;
        m = dante_msg_u16 sock_off m;
        m = foldl (\<lambda>m c. dante_msg_u16 (dante_tx_flow_chan (f - 1) c s) m) m [0..<unat ns] in
    (descr_off, dante_msg_u16 names_off m))"

function tx_flows :: "dante_dev \<Rightarrow> tx \<Rightarrow> nat \<Rightarrow> page \<Rightarrow> dante_msg \<Rightarrow> nat \<times> page \<times> dante_msg" where
  "tx_flows g s f pg m =
    (if \<not> (f \<le> N_FLOWS \<and> pg_actual pg < pg_space pg) then (f, pg, m)
     else case dante_tx_flow_desc (f - 1) s of
       None \<Rightarrow> tx_flows g s (f + 1) pg m
     | Some d \<Rightarrow>
        (let (descr_off, m) = flow_blobs g s f d m;
             m = put_u16_at (page_slot pg) 0 descr_off m;
             pg = pg\<lparr>pg_actual := pg_actual pg + 1\<rparr> in
         if m_len m \<ge> PACKET_SIZE_SOFT_LIMIT then (f + 1, pg, m) else tx_flows g s (f + 1) pg m))"
  by pat_completeness auto
termination
  by (relation "measure (\<lambda>(g, s, f, pg, m). N_FLOWS + 1 - f)") auto

declare tx_flows.simps [simp del]

definition arc_tx_flows :: "dante_dev \<Rightarrow> tx \<Rightarrow> ptr \<Rightarrow> nat \<Rightarrow> dante_msg \<Rightarrow> u16 \<times> dante_msg" where
  "arc_tx_flows g s c clen m =
    (let (pg, m) = page_begin 2 N_FLOWS m;
         (f, pg, m) = tx_flows g s (page_start c clen) pg m in
     (page_code f N_FLOWS, page_end pg m))"

section \<open>Multicast flows\<close>

text \<open>The items of a create request: those bound, the code, the flow table.\<close>

fun mcast_create ::
    "(nat \<Rightarrow> u32) \<Rightarrow> u32 \<Rightarrow> ip4 \<Rightarrow> ptr \<Rightarrow> nat \<Rightarrow> nat list \<Rightarrow> u16 list \<Rightarrow> u16 \<Rightarrow> tx \<Rightarrow> u16 list \<times> u16 \<times> tx" where
  "mcast_create rd now ip c clen [] acc code s = (acc, code, s)"
| "mcast_create rd now ip c clen (i # is) acc code s =
    (if length acc \<ge> 8 \<or> 2 + i * 2 + 2 > clen then (acc, code, s)
     else
       let off = unat (dante_req_u16 c (2 + i * 2)); d = off - DANTE_HDR_LEN in
       if off < DANTE_HDR_LEN \<or> d + 16 > clen then mcast_create rd now ip c clen is acc code s
       else
         let fid = dante_req_u16 c d; ftyp = dante_req_u16 c (d + 2); nch = dante_req_u16 c (d + 14) in
         if ftyp \<noteq> 2 \<or> fid = 0 then mcast_create rd now ip c clen is acc code s
         else if nch = 0 \<or> nch > 8 \<or> d + 16 + 2 * unat nch > clen then mcast_create rd now ip c clen is acc code s
         else
           let chans = map (\<lambda>k. dante_req_u16 c (d + 16 + 2 * k)) [0..<unat nch];
               (f, s) = dante_tx_bind_multicast rd now ip fid chans (ucast nch) s in
           if f < 0 then mcast_create rd now ip c clen is acc 0x0315 s
           else mcast_create rd now ip c clen is (acc @ [fid]) code s)"

definition arc_mcast_create ::
    "(nat \<Rightarrow> u32) \<Rightarrow> u32 \<Rightarrow> ip4 \<Rightarrow> ptr \<Rightarrow> nat \<Rightarrow> tx \<Rightarrow> dante_msg \<Rightarrow> u16 \<times> dante_msg \<times> tx" where
  "arc_mcast_create rd now ip c clen s m =
    (let nitems = (if clen \<ge> 2 then unat (c 1) else 0);
         (acc, code, s) = mcast_create rd now ip c clen [0..<nitems] [] DANTE_CODE_OK s in
     if acc = [] then (if code = DANTE_CODE_OK then 0x0022 else code, m, s)
     else
       let m = dante_msg_u16 (of_nat (length acc)) m;
           m = dante_msg_u16 0 m in
       (code, foldl (\<lambda>m fid. dante_msg_u16 fid m) m acc, s))"

definition mcast_delete :: "u32 \<Rightarrow> tx \<Rightarrow> u16 \<Rightarrow> tx" where
  "mcast_delete now s fid =
    (if fid = 0 then s
     else let ctx = dante_tx_ctx_for_id fid s in
       if ctx \<ge> 0 then snd (dante_tx_unbind (nat ctx) now s) else s)"

definition arc_mcast_delete :: "u32 \<Rightarrow> ptr \<Rightarrow> nat \<Rightarrow> tx \<Rightarrow> tx" where
  "arc_mcast_delete now c clen s =
     foldl (mcast_delete now) s (map (\<lambda>k. dante_req_u16 c (2 * k)) [0..<clen div 2])"

section \<open>The other requests\<close>

definition arc_counts :: "arc \<Rightarrow> dante_msg \<Rightarrow> dante_msg" where
  "arc_counts a m =
    (let m = dante_msg_u8 (g_dev_flags0 a) m;
         m = dante_msg_u8 (g_dev_flags2 a) m;
         m = dante_msg_u16 (of_nat DANTE_TX_CHANNELS) m;
         m = dante_msg_u16 (of_nat DANTE_RX_CHANNELS) m;
         m = dante_msg_u16 4 m;
         m = dante_msg_u16 MAX_CHANNELS_IN_FLOW m;
         m = dante_msg_u16 8 m;
         m = dante_msg_u16 MAX_TX_FLOWS m;
         m = dante_msg_u16 MAX_RX_FLOWS m;
         m = dante_msg_u16 (of_nat (DANTE_TX_CHANNELS + DANTE_RX_CHANNELS)) m;
         m = dante_msg_u16 1 m;
         m = dante_msg_u16 1 m in
     foldl (\<lambda>m i. dante_msg_u16 0 m) m [0..<6 :: nat])"

definition arc_device_names :: "dante_dev \<Rightarrow> arc \<Rightarrow> dante_msg \<Rightarrow> dante_msg" where
  "arc_device_names g a m =
    (let head = m_len m;
         m = dante_msg_zeros 48 m;
         m = dante_msg_zeros 2 m;
         friendly = of_nat (m_len m);
         m = dante_msg_bytes (take 31 (dd_name g)) m;
         m = dante_msg_zeros (32 - length (take 31 (dd_name g))) m;
         factory = of_nat (m_len m);
         m = dante_msg_bytes (take 31 (hostname g)) m;
         m = dante_msg_zeros (32 - length (take 31 (hostname g))) m;
         (board, m) = dante_msg_str (ascii ''N-Series AoIP'') m;
         (revision, m) = dante_msg_str (ascii '':705'') m;
         m = put_u16_at head 0 0x001C m;
         m = put_u16_at head 2 0x001C m;
         m = put_u16_at head 4 0x0028 m;
         m = put_u16_at head 6 board m;
         m = put_u16_at head 8 revision m;
         m = put_u16_at head 18 0x0500 m;
         m = put_u16_at head 20 friendly m;
         m = put_u16_at head 22 factory m;
         m = put_u16_at head 24 friendly m;
         m = put_u16_at head 30 0x0A0A m;
         m = put_u16_at head 34 (g_router_vers a) m;
         m = put_u16_at head 38 (g_arcp_vers a) m;
         m = put_u16_at head 40 0x0204 m;
         m = put_u16_at head 42 0x1200 m in
     put_u16_at head 44 0x1004 m)"

text \<open>A page without items.\<close>

definition empty_page :: "dante_msg \<Rightarrow> dante_msg" where
  "empty_page m = (let (pg, m) = page_begin 8 0 m in page_end pg m)"

definition arc_3300 :: "dante_msg \<Rightarrow> dante_msg" where
  "arc_3300 m = dante_msg_u16 0x38FF (dante_msg_u16 0x38FE (dante_msg_u16 0x38FD (dante_msg_u16 0x3800 m)))"

definition arc_properties :: "tx \<Rightarrow> arc \<Rightarrow> dante_msg \<Rightarrow> dante_msg \<times> arc" where
  "arc_properties s a m =
    (let b = snd (arc_1100_patch_u32 0x8205 (g_latency_ns s) (arc_body a));
         b = snd (arc_1100_patch_u32 0x8301 (g_latency_ns s) b) in
     (dante_msg_bytes b m, a\<lparr>arc_body := b\<rparr>))"

definition arc_subscribe :: "ptr \<Rightarrow> nat \<Rightarrow> arc \<Rightarrow> arc" where
  "arc_subscribe req len a =
    (let c = (\<lambda>i. req (DANTE_HDR_LEN + i)) in
     if len - DANTE_HDR_LEN \<ge> 8 then
       let ch = unat (dante_req_u16 c 2) in
       if ch \<ge> 1 \<and> ch \<le> DANTE_RX_CHANNELS then
         a\<lparr>sub_tx_name := (sub_tx_name a)[ch - 1 := sub_copy req len (dante_req_u16 c 4)],
           sub_tx_host := (sub_tx_host a)[ch - 1 := sub_copy req len (dante_req_u16 c 6)]\<rparr>
       else a
     else a)"

definition arc_set_latency :: "u32 \<Rightarrow> ptr \<Rightarrow> nat \<Rightarrow> tx \<Rightarrow> dante_msg \<Rightarrow> u16 \<times> dante_msg \<times> tx" where
  "arc_set_latency now c clen s m =
    (if clen < 30 then (0x22, m, s)
     else
       let x = rd32 c 22; y = rd32 c 26 in
       if x \<noteq> y \<or> x < 100000 \<or> x > 40000000 then (0x22, m, s)
       else
         let changed = (x \<noteq> g_latency_ns s);
             s = mdns_announce (s\<lparr>g_latency_ns := x\<rparr>);
             s = (if changed then dante_tx_drop_all now s else s) in
         (DANTE_CODE_OK, dante_msg_bytes (bytes_at c 0 clen) m, s))"

section \<open>The handler\<close>

definition arc_dispatch ::
    "(nat \<Rightarrow> u32) \<Rightarrow> u32 \<Rightarrow> dante_dev \<Rightarrow> ip4 \<Rightarrow> ptr \<Rightarrow> nat \<Rightarrow> arc \<Rightarrow> tx \<Rightarrow> dante_msg \<Rightarrow> u16 \<times> dante_msg \<times> arc \<times> tx" where
  "arc_dispatch rd now g ip req len a s m =
    (let op = dante_req_u16 req 6; c = (\<lambda>i. req (DANTE_HDR_LEN + i)); clen = len - DANTE_HDR_LEN;
         page = (\<lambda>(code, m). (code, m, a, s)); ok = (\<lambda>m. (DANTE_CODE_OK, m, a, s));
         flow = (\<lambda>(code, m, s). (code, m, a, s)) in
     if op = OP_CHANNELS_AND_FLOWS_COUNT then ok (arc_counts a m)
     else if op = OP_GET_DEVICE_NAME then ok (snd (dante_msg_str (dd_name g) m))
     else if op = OP_GET_DEVICE_NAMES then ok (arc_device_names g a m)
     else if op = OP_GET_TX_CHANNELS then page (arc_tx_channels g c clen m)
     else if op = OP_GET_TX_FRIENDLY_NAMES then page (arc_friendly_names c clen m)
     else if op = OP_GET_RX_CHANNELS then page (arc_rx_channels g a c clen m)
     else if op = OP_QUERY_TX_FLOWS then page (arc_tx_flows g s c clen m)
     else if op = 0x2201 then flow (arc_mcast_create rd now ip c clen s m)
     else if op = 0x2202 then (DANTE_CODE_OK, m, a, arc_mcast_delete now c clen s)
     else if op = OP_QUERY_RX_FLOWS then ok (empty_page m)
     else if op = OP_UNKNOWN_3300 then ok (arc_3300 m)
     else if op = OP_UNKNOWN_1100 then (let (m, a) = arc_properties s a m in (DANTE_CODE_OK, m, a, s))
     else if op = OP_UNKNOWN_1102 then ok (dante_msg_bytes arc_1102_body m)
     else if op = 0x3010 then (DANTE_CODE_OK, m, arc_subscribe req len a, s)
     else if op = 0x3014 then ok m
     else if op = OP_UNKNOWN_2320 then (0x30, m, a, s)
     else if op = 0x2204 then ok (empty_page m)
     else if op = 0x4100 then (0x30, m, a, s)
     else if op = 0x2032 then ok (dante_msg_u16 0 m)
     else if op = 0x1101 then flow (arc_set_latency now c clen s m)
     else (0x22, m, a\<lparr>ar_unknown := ar_unknown a + 1\<rparr>, s))"

text \<open>The diagnostic copy of the request, sent after the reply.\<close>

definition arc_mirror :: "ip4 \<Rightarrow> u16 \<Rightarrow> ip4 \<Rightarrow> u8 list \<Rightarrow> net \<Rightarrow> net" where
  "arc_mirror mirror code src mir nt =
    (if mirror = (0, 0, 0, 0) then nt
     else let p = [0x41, 0x52, 0x43, 0x31] @ be16 code @ ip_bytes src @ mir in
       snd (net_udp_commit mirror 7780 DANTE_PORT_ARC (length p) 0 (payload_put 0 p nt)))"

definition arc_rx ::
    "(nat \<Rightarrow> u32) \<Rightarrow> u32 \<Rightarrow> dante_dev \<Rightarrow> datagram \<Rightarrow> arc \<Rightarrow> tx \<Rightarrow> net \<Rightarrow> arc \<times> tx \<times> net" where
  "arc_rx rd now g d a s nt =
    (let req = ptr_of (dg_payload d); len = length (dg_payload d) in
     if len < DANTE_HDR_LEN then (a, s, nt)
     else if dante_req_u16 req 8 \<noteq> 0 then (a, s, nt)
     else
       let a = a\<lparr>ar_rx := ar_rx a + 1\<rparr>;
           m = dante_msg_begin (drop 42 (tx_buf nt)) req;
           (code, m, a, s) = arc_dispatch rd now g (g_net_ip nt) req len a s m;
           (total, m) = dante_msg_finish code m;
           nt = msg_slot (txslot nt) m nt;
           (r, nt) = net_udp_commit (dg_src d) (dg_sport d) DANTE_PORT_ARC total 0 nt;
           a = (if r = 0 then a\<lparr>ar_tx := ar_tx a + 1\<rparr> else a) in
         (a, s, arc_mirror (g_arc_mirror_ip a) code (dg_src d) (take 96 (dg_payload d)) nt))"

definition dante_arc_init :: "net \<Rightarrow> net" where
  "dante_arc_init nt = snd (net_udp_bind DANTE_PORT_ARC (Some Arc_Rx) nt)"

end
