(* ===== verification/Dante_Arc_View.thy ===== *)
theory Dante_Arc_View
  imports Dante_Arc
begin

text \<open>
  Responses of the ARC server as lists of bytes: what a builder holds after each append and
  each store into a page, that the header of the request survives every handler, and how long
  a response can get.
\<close>

section \<open>What a builder holds\<close>

definition built :: "dante_msg \<Rightarrow> u8 list \<Rightarrow> bool" where
  "built m v \<longleftrightarrow> m_len m = length v \<and> take (length v) (m_buf m) = v \<and> length v \<le> length (m_buf m) \<and> 1400 \<le> length (m_buf m)"

lemma builtE:
  assumes "built m v"
  obtains r where "m_buf m = v @ r" "m_len m = length v" "1400 \<le> length (v @ r)"
  using assms append_take_drop_id [of "length v" "m_buf m"] that [of "drop (length v) (m_buf m)"]
  by (auto simp: built_def)

lemma built_bytes: "built m v \<Longrightarrow> built (dante_msg_bytes p m) (v @ p)"
  by (elim builtE) (auto simp: built_def dante_msg_bytes_def put_def)

lemma built_appends:
  "built m v \<Longrightarrow> built (dante_msg_u8 b m) (v @ [b])" "built m v \<Longrightarrow> built (dante_msg_u16 w m) (v @ be16 w)"
  "built m v \<Longrightarrow> built (dante_msg_u32 x m) (v @ be32 x)" "built m v \<Longrightarrow> built (dante_msg_zeros n m) (v @ replicate n 0)"
  by (simp_all add: dante_msg_appends built_bytes)

lemma built_copy: "built m v \<Longrightarrow> built (msg_copy s m) (v @ s)"
proof (induction s arbitrary: m v)
  case (Cons c s)
  then show ?case using Cons.IH [OF built_appends(1) [OF Cons.prems]] by simp
qed simp

lemma built_str:
  assumes "built m v" "dante_msg_str s m = (off, m')"
  shows "off = of_nat (length v)" "built m' (v @ s @ [0])"
proof -
  have "built (dante_msg_u8 0 (msg_copy s m)) ((v @ s) @ [0])" by (rule built_appends(1), rule built_copy, rule assms(1))
  then show "off = of_nat (length v)" "built m' (v @ s @ [0])"
    using assms by (auto simp: dante_msg_str_def built_def)
qed

lemma built_slot:
  assumes "built m v" "base + off + 2 \<le> length v"
  shows "built (put_u16_at base off x m) (put (base + off) (be16 x) v)"
proof (rule builtE [OF assms(1)])
  fix r assume r: "m_buf m = v @ r" "m_len m = length v" "1400 \<le> length (v @ r)"
  have "put (base + off) (be16 x) (v @ r) = put (base + off) (be16 x) v @ r"
    using assms(2) by (intro put_inside) simp
  moreover have "length (put (base + off) (be16 x) v) = length v" using assms(2) by (intro length_put) simp
  ultimately show ?thesis using r by (simp add: built_def put_u16_at_def)
qed

lemma built_begin:
  "1400 \<le> length buf \<Longrightarrow> built (dante_msg_begin buf req) [req 0, req 1, 0, 0, req 4, req 5, req 6, req 7, 0, 0]"
  by (simp add: built_def dante_msg_begin_def put_0 DANTE_HDR_LEN_def)

lemma built_finish:
  assumes "built m ([req 0, req 1, 0, 0, req 4, req 5, req 6, req 7, 0, 0] @ body)" "dante_msg_finish code m = (n, m')"
  shows "n = 10 + length body" "built m' (flow_reply req code body)"
proof -
  let ?v = "[req 0, req 1, 0, 0, req 4, req 5, req 6, req 7, 0, 0] @ body"
  obtain r where r: "m_buf m = ?v @ r" "m_len m = length ?v" "1400 \<le> length (?v @ r)" by (rule builtE [OF assms(1)])
  show n: "n = 10 + length body"
    using assms(2) r(2) by (simp add: dante_msg_finish_def Let_def dante_msg_patch_u16_def)
  have "m_buf m' = flow_reply req code body @ r"
    using assms(2) r(1,2) by (auto simp: dante_msg_finish_def Let_def dante_msg_patch_u16_def flow_reply_def be16_def put_skip_Cons put_0)
  moreover have "m_len m' = length (flow_reply req code body)"
    using assms(2) r(2) by (auto simp: dante_msg_finish_def Let_def dante_msg_patch_u16_def flow_reply_def)
  ultimately show "built m' (flow_reply req code body)"
    using r(3) by (simp add: built_def flow_reply_def)
qed

text \<open>A response built in the current slot is sent as it was built.\<close>

lemma built_sent:
  assumes "built m v" "length v \<le> 1400" "tx_wf nt" "net_arp_lookup dst nt = (Some dmac, nt)"
  shows "\<exists>s' F. net_udp_commit dst dport sport (length v) tos (msg_slot (txslot nt) m nt) = (0, s') \<and>
     wire s' = wire nt @ [F] \<and> carries dport F v"
proof -
  have "m_len m = length v" "msg_view m = v" using assms(1) by (simp_all add: built_def msg_view_def)
  moreover have "msg_fits m nt" using assms(1-3) by (simp add: built_def msg_fits_def)
  ultimately show ?thesis using msg_commit [OF _ assms(4) refl, of m dport sport tos] by simp
qed

section \<open>The header survives\<close>

definition opened :: "u8 list \<Rightarrow> dante_msg \<Rightarrow> bool" where
  "opened h m \<longleftrightarrow> 10 \<le> m_len m \<and> m_len m \<le> length (m_buf m) \<and> 1400 \<le> length (m_buf m) \<and> take 10 (m_buf m) = h"

lemma opened_bytes [simp]: "opened h m \<Longrightarrow> opened h (dante_msg_bytes p m)"
  by (auto simp: opened_def dante_msg_bytes_def take_put) (auto simp: put_def)

lemma opened_appends [simp]:
  "opened h m \<Longrightarrow> opened h (dante_msg_u8 b m)" "opened h m \<Longrightarrow> opened h (dante_msg_u16 w m)"
  "opened h m \<Longrightarrow> opened h (dante_msg_u32 x m)" "opened h m \<Longrightarrow> opened h (dante_msg_zeros n m)"
  by (simp_all add: dante_msg_appends)

lemma opened_copy: "opened h m \<Longrightarrow> opened h (msg_copy s m)"
  by (induction s arbitrary: m) simp_all

lemma opened_str [simp]: "opened h m \<Longrightarrow> opened h (snd (dante_msg_str s m))"
  by (simp add: dante_msg_str_def opened_copy)

lemma opened_slot [simp]: "opened h m \<Longrightarrow> 10 \<le> base \<Longrightarrow> opened h (put_u16_at base off x m)"
  by (auto simp: opened_def put_u16_at_def take_put) (auto simp: put_def)

lemma opened_end [simp]: "opened h m \<Longrightarrow> 11 \<le> items_at pg \<Longrightarrow> opened h (page_end pg m)"
  by (auto simp: opened_def page_end_def take_put) (auto simp: put_def)

lemma m_len_simps [simp]:
  "m_len (dante_msg_bytes p m) = m_len m + length p" "m_len (dante_msg_u8 b m) = m_len m + 1"
  "m_len (dante_msg_u16 w m) = m_len m + 2" "m_len (dante_msg_u32 x m) = m_len m + 4"
  "m_len (dante_msg_zeros n m) = m_len m + n" "m_len (put_u16_at base off w m) = m_len m" "m_len (page_end pg m) = m_len m"
  by (simp_all add: dante_msg_appends dante_msg_bytes_def put_u16_at_def page_end_def)

lemma m_len_str [simp]: "m_len (snd (dante_msg_str s m)) = m_len m + length s + 1"
proof -
  have "m_len (msg_copy s m) = m_len m + length s" by (induction s arbitrary: m) simp_all
  then show ?thesis by (simp add: dante_msg_str_def)
qed

text \<open>A handler keeps the header and adds at most \<open>n\<close> bytes.\<close>

definition grown :: "nat \<Rightarrow> dante_msg \<Rightarrow> dante_msg \<Rightarrow> bool" where
  "grown n m m' \<longleftrightarrow> (\<forall>h. opened h m \<longrightarrow> opened h m') \<and> m_len m' \<le> m_len m + n"

lemma opened_common [simp]:
  "opened h m \<Longrightarrow> opened h (snd (put_common_descriptor g m))" "m_len (snd (put_common_descriptor g m)) = m_len m + 16"
  by (simp_all add: put_common_descriptor_def)

lemma channel_name_short: "length (dante_tx_channel_name i n) \<le> 2"
  by (simp add: dante_tx_channel_name_def)

lemma page_begin_facts:
  "items_at (fst (page_begin sz sp m)) = m_len m + 2" "pg_actual (fst (page_begin sz sp m)) = 0"
  "opened h m \<Longrightarrow> opened h (snd (page_begin sz sp m))" "sp \<le> 255 \<Longrightarrow> m_len (snd (page_begin sz sp m)) = m_len m + 2 + sz * sp"
  "item_size (fst (page_begin sz sp m)) = sz" "sp \<le> 255 \<Longrightarrow> pg_space (fst (page_begin sz sp m)) = sp"
  by (simp_all add: page_begin_def Let_def)

section \<open>How long a response gets\<close>

lemma slot_after: "12 \<le> items_at pg \<Longrightarrow> 10 \<le> page_slot pg"
  by (simp add: page_slot_def)

lemma tx_channel_item_grows:
  assumes "opened h m" "12 \<le> items_at pg" "tx_channel_item g idx common pg m = (common', m')"
  shows "opened h m'" "m_len m' \<le> m_len m + 19"
  using assms channel_name_short [of "of_nat idx" 8] slot_after [of pg]
  by (auto simp: tx_channel_item_def Let_def split_beta)

lemma tx_channels_grow:
  assumes "opened h m" "12 \<le> items_at pg" "m_len m < 800" "tx_channels g idx common pg m = (i, pg', m')"
  shows "opened h m' \<and> m_len m' \<le> 820 \<and> items_at pg' = items_at pg"
  using assms
proof (induction g idx common pg m rule: tx_channels.induct)
  case (1 g idx common pg m)
  obtain common' m1 where it: "tx_channel_item g idx common pg m = (common', m1)" by fastforce
  note t = tx_channel_item_grows [OF 1(2,3) it]
  show ?case
    using 1(2-4) 1(5) [unfolded tx_channels.simps [of g idx common pg m] it Let_def prod.case] t 1(1) [OF _ it [symmetric] refl]
    by (auto simp: PACKET_SIZE_SOFT_LIMIT_def split: if_splits)
qed

lemma friendly_item_grows:
  assumes "opened h m" "12 \<le> items_at pg"
  shows "opened h (friendly_item idx b pg m)" "m_len (friendly_item idx b pg m) \<le> m_len m + 7"
  using assms channel_name_short [of "of_nat idx" 8] slot_after [of pg]
  by (auto simp: friendly_item_def Let_def split_beta)

lemma friendly_names_grow:
  assumes "opened h m" "12 \<le> items_at pg" "m_len m < 800" "friendly_names idx b pg m = (i, pg', m')"
  shows "opened h m' \<and> m_len m' \<le> 820 \<and> items_at pg' = items_at pg"
  using assms
proof (induction idx b pg m rule: friendly_names.induct)
  case (1 idx b pg m)
  note t = friendly_item_grows [OF 1(2,3), of idx b]
  show ?case
    using 1(2-4) 1(5) [unfolded friendly_names.simps [of idx b pg m] Let_def prod.case] t 1(1) [OF _ refl refl]
    by (auto simp: PACKET_SIZE_SOFT_LIMIT_def split: if_splits)
qed

text \<open>The strings a controller stored have at most 31 bytes.\<close>

definition arc_wf :: "arc \<Rightarrow> bool" where
  "arc_wf a \<longleftrightarrow> length (sub_tx_name a) = 2 \<and> length (sub_tx_host a) = 2 \<and> (\<forall>s \<in> set (sub_tx_name a). length s \<le> 31) \<and>
     (\<forall>s \<in> set (sub_tx_host a). length s \<le> 31) \<and> length (arc_body a) = 202"

lemma rx_channel_item_grows:
  assumes "arc_wf a" "idx = 1 \<or> idx = 2" "opened h m" "12 \<le> items_at pg" "rx_channel_item g a idx common pg m = (common', m')"
  shows "opened h m'" "m_len m' \<le> m_len m + 84"
proof -
  have l: "length (sub_tx_name a ! (idx - 1)) \<le> 31" "length (sub_tx_host a ! (idx - 1)) \<le> 31"
    using assms(1,2) by (auto simp: arc_wf_def)
  show "opened h m'" "m_len m' \<le> m_len m + 84"
    using assms(3-5) l slot_after [of pg] by (auto simp: rx_channel_item_def Let_def split_beta ascii_def)
qed

lemma rx_channels_grow:
  assumes "arc_wf a" "1 \<le> idx" "opened h m" "12 \<le> items_at pg" "m_len m < 800" "rx_channels g a idx common pg m = (i, pg', m')"
  shows "opened h m' \<and> m_len m' \<le> 890 \<and> items_at pg' = items_at pg"
  using assms
proof (induction g a idx common pg m rule: rx_channels.induct)
  case (1 g a idx common pg m)
  obtain common' m1 where it: "rx_channel_item g a idx common pg m = (common', m1)" by fastforce
  show ?case
  proof (cases "idx \<le> DANTE_RX_CHANNELS \<and> pg_actual pg < pg_space pg")
    case True
    then have "idx = 1 \<or> idx = 2" using 1(3) by (auto simp: DANTE_RX_CHANNELS_def)
    note t = rx_channel_item_grows [OF 1(2) this 1(4,5) it]
    show ?thesis
      using 1(2-6) 1(7) [unfolded rx_channels.simps [of g a idx common pg m] it Let_def prod.case] t True 1(1) [OF _ it [symmetric] refl]
      by (auto simp: PACKET_SIZE_SOFT_LIMIT_def split: if_splits)
  next
    case False
    then show ?thesis using 1(4,6,7) by (subst (asm) rx_channels.simps) auto
  qed
qed

lemma lead_digits_length: "length (lead_digits qs lead v) \<le> length qs"
  by (induction qs lead v rule: lead_digits.induct) (auto simp: Let_def)

lemma align4_grows: "opened h m \<Longrightarrow> opened h (align4 m)" "m_len (align4 m) \<le> m_len m + 3"
proof -
  have "m_len (align4 m) = m_len m + (4 - m_len m mod 4) mod 4 \<and> (opened h m \<longrightarrow> opened h (align4 m))" for h
  proof (induction m rule: align4.induct)
    case (1 m)
    show ?case
    proof (cases "m_len m mod 4 = 0")
      case False
      have e: "(m_len m + 1) mod 4 = (m_len m mod 4 + 1) mod 4" by (simp add: mod_Suc)
      have r: "m_len m mod 4 \<in> {1, 2, 3}" using False by auto
      have "align4 m = align4 (dante_msg_u8 0 m)" using False by (subst align4.simps) simp
      then show ?thesis using 1 [OF False] r e by auto
    qed (simp add: align4.simps)
  qed
  then show "opened h m \<Longrightarrow> opened h (align4 m)" "m_len (align4 m) \<le> m_len m + 3" by simp_all
qed

lemma chans_grow:
  "opened h m \<Longrightarrow> opened h (foldl (\<lambda>m c. dante_msg_u16 (f c) m) m cs)"
  "m_len (foldl (\<lambda>m c. dante_msg_u16 (f c) m) m cs) = m_len m + 2 * length cs"
  by (induction cs arbitrary: m) simp_all

lemma flow_blobs_grow:
  assumes "opened h m" "f < 100" "flow_blobs g s f d m = (off, m')"
  shows "opened h m'" "m_len m' \<le> m_len m + 572"
proof -
  obtain dip dport ns fp mc ext where d: "d = (dip, dport, ns, fp, mc, ext)" by (metis prod_cases6)
  have n: "length (flow_name g f) \<le> 8"
    using lead_digits_length [of "[10000, 1000, 100, 10, 1]" False "unat (process_id g)"] by (auto simp: flow_name_def)
  have u: "unat ns < 256" by (rule unat_u8_less)
  show "opened h m'"
    using assms(1,3) by (auto simp: d flow_blobs_def Let_def split_beta intro!: opened_appends chans_grow(1) align4_grows(1) opened_bytes opened_str)
  show "m_len m' \<le> m_len m + 572"
    using assms(3) n u align4_grows(2) [of "snd (dante_msg_str (flow_name g f) m)"]
    by (auto simp: d flow_blobs_def Let_def split_beta chans_grow(2))
qed

lemma tx_flows_grow:
  assumes "opened h m" "12 \<le> items_at pg" "m_len m < 800" "tx_flows g s f pg m = (i, pg', m')"
  shows "opened h m' \<and> m_len m' \<le> 1371 \<and> items_at pg' = items_at pg"
  using assms
proof (induction g s f pg m rule: tx_flows.induct)
  case (1 g s f pg m)
  show ?case
  proof (cases "f \<le> N_FLOWS \<and> pg_actual pg < pg_space pg")
    case False
    then show ?thesis using 1(3-6) by (subst (asm) tx_flows.simps) auto
  next
    case True
    show ?thesis
    proof (cases "dante_tx_flow_desc (f - 1) s")
      case None
      then have "tx_flows g s f pg m = tx_flows g s (f + 1) pg m" using True by (subst tx_flows.simps) simp
      then show ?thesis using 1(1) [OF _ None] 1(3-6) True by auto
    next
      case (Some d)
      obtain off m1 where b: "flow_blobs g s f d m = (off, m1)" by fastforce
      have "f < 100" using True by (simp add: N_FLOWS_def)
      note t = flow_blobs_grow [OF 1(3) this b]
      show ?thesis
        using 1(3-5) 1(6) [unfolded tx_flows.simps [of g s f pg m] Some option.case b Let_def prod.case] t True slot_after [OF 1(4)]
          1(2) [OF _ Some b [symmetric] refl refl]
        by (auto simp: PACKET_SIZE_SOFT_LIMIT_def split: if_splits)
    qed
  qed
qed

section \<open>Every handler\<close>

lemma page_head:
  assumes "page_begin sz sp m = (pg, m')" "sp \<le> 255" "opened h m" "m_len m = 10"
  shows "opened h m'" "12 \<le> items_at pg" "m_len m' = 12 + sz * sp"
  using assms by (auto simp: page_begin_def Let_def)

lemma pages_grow:
  assumes "opened h m" "m_len m = 10"
  shows "arc_tx_channels g c clen m = (code, m1) \<Longrightarrow> opened h m1 \<and> m_len m1 \<le> 1390"
    "arc_friendly_names c clen m = (code, m1) \<Longrightarrow> opened h m1 \<and> m_len m1 \<le> 1390"
    "arc_wf a \<Longrightarrow> arc_rx_channels g a c clen m = (code, m1) \<Longrightarrow> opened h m1 \<and> m_len m1 \<le> 1390"
    "arc_tx_flows g s c clen m = (code, m1) \<Longrightarrow> opened h m1 \<and> m_len m1 \<le> 1390"
proof -
  have st: "1 \<le> page_start c clen" by (auto simp: page_start_def Let_def unat_gt_0 [symmetric] Suc_le_eq)
  obtain pg m0 where b: "page_begin 8 32 m = (pg, m0)" by fastforce
  note p = page_head [OF b _ assms]
  obtain i pg' m2 where t: "tx_channels g (page_start c clen) 0 pg m0 = (i, pg', m2)" by (metis prod_cases3)
  show "arc_tx_channels g c clen m = (code, m1) \<Longrightarrow> opened h m1 \<and> m_len m1 \<le> 1390"
    using tx_channels_grow [OF p(1,2) _ t] p by (auto simp: arc_tx_channels_def b t Let_def)
next
  obtain pg m0 where b: "page_begin 6 32 m = (pg, m0)" by fastforce
  note p = page_head [OF b _ assms]
  obtain i pg' m2 where t: "friendly_names (page_start c clen) False pg m0 = (i, pg', m2)" by (metis prod_cases3)
  show "arc_friendly_names c clen m = (code, m1) \<Longrightarrow> opened h m1 \<and> m_len m1 \<le> 1390"
    using friendly_names_grow [OF p(1,2) _ t] p by (auto simp: arc_friendly_names_def b t Let_def)
next
  have st: "1 \<le> page_start c clen" by (auto simp: page_start_def Let_def unat_gt_0 [symmetric] Suc_le_eq)
  obtain pg m0 where b: "page_begin 20 2 m = (pg, m0)" by fastforce
  note p = page_head [OF b _ assms]
  obtain i pg' m2 where t: "rx_channels g a (page_start c clen) 0 pg m0 = (i, pg', m2)" by (metis prod_cases3)
  show "arc_wf a \<Longrightarrow> arc_rx_channels g a c clen m = (code, m1) \<Longrightarrow> opened h m1 \<and> m_len m1 \<le> 1390"
    using rx_channels_grow [OF _ st p(1,2) _ t] p by (auto simp: arc_rx_channels_def b t Let_def DANTE_RX_CHANNELS_def)
next
  obtain pg m0 where b: "page_begin 2 6 m = (pg, m0)" by fastforce
  note p = page_head [OF b _ assms]
  obtain i pg' m2 where t: "tx_flows g s (page_start c clen) pg m0 = (i, pg', m2)" by (metis prod_cases3)
  show "arc_tx_flows g s c clen m = (code, m1) \<Longrightarrow> opened h m1 \<and> m_len m1 \<le> 1390"
    using tx_flows_grow [OF p(1,2) _ t] p by (auto simp: arc_tx_flows_def b t Let_def N_FLOWS_def)
qed

lemma mcast_create_few:
  "mcast_create rd now ip c clen is acc code s = (acc', code', s') \<Longrightarrow> length acc \<le> 8 \<Longrightarrow> length acc' \<le> 8"
proof (induction "is" arbitrary: acc code s)
  case (Cons i "is")
  let ?d = "unat (dante_req_u16 c (2 + i * 2)) - DANTE_HDR_LEN"
  obtain f s1 where b: "dante_tx_bind_multicast rd now ip (dante_req_u16 c ?d)
      (map (\<lambda>k. dante_req_u16 c (?d + 16 + 2 * k)) [0..<unat (dante_req_u16 c (?d + 14))]) (ucast (dante_req_u16 c (?d + 14))) s = (f, s1)"
    by fastforce
  from Cons.prems(1) [unfolded mcast_create.simps Let_def b prod.case] Cons.prems(2) show ?case
    using Cons.IH [of "acc @ [dante_req_u16 c ?d]"] by (auto split: if_splits intro: Cons.IH)
qed simp

lemma others_grow:
  assumes "opened h m" "m_len m = 10"
  shows "opened h (arc_counts a m) \<and> m_len (arc_counts a m) \<le> 1390"
    "opened h (arc_device_names g a m) \<and> m_len (arc_device_names g a m) \<le> 1390"
    "opened h (empty_page m) \<and> m_len (empty_page m) \<le> 1390"
    "opened h (arc_3300 m) \<and> m_len (arc_3300 m) \<le> 1390"
    "arc_mcast_create rd now ip c clen s m = (code, m1, s') \<Longrightarrow> opened h m1 \<and> m_len m1 \<le> 1390"
    "arc_set_latency now c clen s m = (code, m2, s2) \<Longrightarrow> opened h m2 \<and> m_len m2 \<le> 10 + clen"
proof -
  show "opened h (arc_counts a m) \<and> m_len (arc_counts a m) \<le> 1390"
    unfolding arc_counts_def Let_def using assms by (simp add: chans_grow [where f = "\<lambda>_. 0"])
  show "opened h (arc_device_names g a m) \<and> m_len (arc_device_names g a m) \<le> 1390"
    unfolding arc_device_names_def Let_def split_beta using assms by (simp add: ascii_def)
  have "11 \<le> items_at (fst (page_begin 8 0 m))" using page_begin_facts(1) assms(2) by simp
  then show "opened h (empty_page m) \<and> m_len (empty_page m) \<le> 1390"
    using assms by (simp add: empty_page_def page_begin_def Let_def)
  show "opened h (arc_3300 m) \<and> m_len (arc_3300 m) \<le> 1390" using assms by (simp add: arc_3300_def)
  show "arc_set_latency now c clen s m = (code, m2, s2) \<Longrightarrow> opened h m2 \<and> m_len m2 \<le> 10 + clen"
    using assms by (auto simp: arc_set_latency_def Let_def split: if_splits)
  show "arc_mcast_create rd now ip c clen s m = (code, m1, s') \<Longrightarrow> opened h m1 \<and> m_len m1 \<le> 1390"
  proof -
    obtain acc k s1 where r: "mcast_create rd now ip c clen [0..<(if clen \<ge> 2 then unat (c 1) else 0)] [] DANTE_CODE_OK s = (acc, k, s1)"
      by (metis prod_cases3)
    have "length acc \<le> 8" using mcast_create_few [OF r] by simp
    then show "arc_mcast_create rd now ip c clen s m = (code, m1, s') \<Longrightarrow> ?thesis"
      using assms by (auto simp: arc_mcast_create_def r Let_def chans_grow [where f = "\<lambda>x. x"] split: if_splits)
  qed
qed

end
