(* ===== verification/Dante_Arc_Claims.thy ===== *)
theory Dante_Arc_Claims
  imports Dante_Arc_View
begin

text \<open>
  What the ARC server answers: every request, the pages of channels, what a receive channel is
  subscribed to, and the latency it was set to.
\<close>

section \<open>Every request is answered\<close>

lemma length_sub_copy: "length (sub_copy req len off) \<le> 31"
  by (simp add: sub_copy_def DANTE_MAX_SUBNAME_def)

lemma set_list_update_in: "x \<in> set (xs[i := y]) \<Longrightarrow> x = y \<or> x \<in> set xs"
  using set_update_subset_insert [of xs i y] by auto

lemma arc_subscribe_wf: "arc_wf a \<Longrightarrow> arc_wf (arc_subscribe req len a)"
  using length_sub_copy
  by (auto simp: arc_subscribe_def arc_wf_def Let_def dest!: set_list_update_in)

lemma patch_u32_length: "length (snd (arc_1100_patch_u32 key v b)) = length b"
  by (auto simp: arc_1100_patch_u32_def Let_def split: option.splits)

lemma arc_properties_facts:
  assumes "arc_properties s a m = (m', a')" "arc_wf a" "opened h m" "m_len m = 10"
  shows "opened h m'" "m_len m' \<le> 1390" "arc_wf a'"
  using assms by (auto simp: arc_properties_def Let_def patch_u32_length arc_wf_def)

lemma mcast_create_code:
  "mcast_create rd now ip c clen is acc code s = (acc', code', s') \<Longrightarrow> code \<noteq> 0 \<Longrightarrow> code' \<noteq> 0"
proof (induction "is" arbitrary: acc code s)
  case (Cons i "is")
  let ?d = "unat (dante_req_u16 c (2 + i * 2)) - DANTE_HDR_LEN"
  obtain f s1 where b: "dante_tx_bind_multicast rd now ip (dante_req_u16 c ?d)
      (map (\<lambda>k. dante_req_u16 c (?d + 16 + 2 * k)) [0..<unat (dante_req_u16 c (?d + 14))]) (ucast (dante_req_u16 c (?d + 14))) s = (f, s1)"
    by fastforce
  from Cons.prems(1) [unfolded mcast_create.simps Let_def b prod.case] Cons.prems(2) show ?case
    using Cons.IH [of acc code s] Cons.IH [of acc "0x0315" s1] Cons.IH [of "acc @ [dante_req_u16 c ?d]" code s1]
    by (simp split: if_splits)
qed simp

lemma codes:
  "page_code i n \<noteq> 0" "arc_set_latency now c clen s m = (code, m', s') \<Longrightarrow> code \<noteq> 0"
  "arc_mcast_create rd now ip c clen s m = (code, m', s') \<Longrightarrow> code \<noteq> 0"
proof -
  show "page_code i n \<noteq> 0" by (simp add: page_code_def DANTE_CODE_OK_def DANTE_CODE_MORE_def)
  show "arc_set_latency now c clen s m = (code, m', s') \<Longrightarrow> code \<noteq> 0"
    by (auto simp: arc_set_latency_def Let_def DANTE_CODE_OK_def split: if_splits)
  obtain acc k s1 where r: "mcast_create rd now ip c clen [0..<(if clen \<ge> 2 then unat (c 1) else 0)] [] DANTE_CODE_OK s = (acc, k, s1)"
    by (metis prod_cases3)
  have "k \<noteq> 0" using mcast_create_code [OF r] by (simp add: DANTE_CODE_OK_def)
  then show "arc_mcast_create rd now ip c clen s m = (code, m', s') \<Longrightarrow> code \<noteq> 0"
    by (auto simp: arc_mcast_create_def r Let_def split: if_splits)
qed

lemma page_codes:
  "arc_tx_channels g c clen m = (code, m') \<Longrightarrow> code \<noteq> 0" "arc_friendly_names c clen m = (code, m') \<Longrightarrow> code \<noteq> 0"
  "arc_rx_channels g a c clen m = (code, m') \<Longrightarrow> code \<noteq> 0" "arc_tx_flows g s c clen m = (code, m') \<Longrightarrow> code \<noteq> 0"
  using codes(1)
  by (auto simp: arc_tx_channels_def arc_friendly_names_def arc_rx_channels_def arc_tx_flows_def split: prod.splits)

text \<open>A response so far: its header, a bound of its length, its code.\<close>

definition answer_ok :: "nat \<Rightarrow> u8 list \<Rightarrow> u16 \<times> dante_msg \<times> arc \<times> tx \<Rightarrow> bool" where
  "answer_ok n h = (\<lambda>(code, m, a, s). opened h m \<and> m_len m \<le> n \<and> code \<noteq> 0 \<and> arc_wf a)"

lemma answer_page:
  assumes "\<And>code m. r = (code, m) \<Longrightarrow> code \<noteq> 0" "\<And>code m. r = (code, m) \<Longrightarrow> opened h m \<and> m_len m \<le> 1390" "arc_wf a" "1400 \<le> n"
  shows "answer_ok n h (case r of (code, m) \<Rightarrow> (code, m, a, s))"
proof (cases r)
  case (Pair code m)
  with assms(1) [OF Pair] assms(2) [OF Pair] assms(3,4) show ?thesis by (simp add: answer_ok_def)
qed

lemma answer_flow:
  assumes "\<And>code m s. r = (code, m, s) \<Longrightarrow> code \<noteq> 0" "\<And>code m s. r = (code, m, s) \<Longrightarrow> opened h m \<and> m_len m \<le> n" "arc_wf a"
  shows "answer_ok n h (case r of (code, m, s) \<Rightarrow> (code, m, a, s))"
  using assms by (cases r) (auto simp: answer_ok_def)

lemma answer_plain: "opened h m \<and> m_len m \<le> 1390 \<Longrightarrow> arc_wf a \<Longrightarrow> code \<noteq> 0 \<Longrightarrow> 1400 \<le> n \<Longrightarrow> answer_ok n h (code, m, a, s)"
  by (simp add: answer_ok_def)

lemma answer_ite: "answer_ok n h x \<Longrightarrow> answer_ok n h y \<Longrightarrow> answer_ok n h (if b then x else y)"
  by simp

lemma dispatch_ok:
  assumes o: "opened h m" "m_len m = 10" and a: "arc_wf a" and len: "len \<le> n" "1400 \<le> n" and name: "length (dd_name g) \<le> 31"
  shows "answer_ok n h (arc_dispatch rd now g ip req len a s m)"
proof -
  have p: "answer_ok n h (let (m, a) = arc_properties s a m in (DANTE_CODE_OK, m, a, s))"
  proof (cases "arc_properties s a m")
    case (Pair m' a')
    then show ?thesis using arc_properties_facts [OF Pair a o] len(2) by (simp add: answer_ok_def DANTE_CODE_OK_def)
  qed
  have n: "opened h (snd (dante_msg_str (dd_name g) m)) \<and> m_len (snd (dante_msg_str (dd_name g) m)) \<le> 1390"
    using o name by simp
  have b: "opened h (dante_msg_bytes arc_1102_body m) \<and> m_len (dante_msg_bytes arc_1102_body m) \<le> 1390"
    using o by (simp add: arc_1102_body_def)
  have z: "opened h (dante_msg_u16 0 m) \<and> m_len (dante_msg_u16 0 m) \<le> 1390" "opened h m \<and> m_len m \<le> 1390" using o by simp_all
  have u: "arc_wf (a\<lparr>ar_unknown := x\<rparr>)" for x using a by (simp add: arc_wf_def)
  note pg = pages_grow [OF o] and ot = others_grow [OF o]
  have k: "10 + (len - DANTE_HDR_LEN) \<le> n" using len by (simp add: DANTE_HDR_LEN_def)
  have l: "answer_ok n h (case arc_set_latency now c (len - DANTE_HDR_LEN) s m of (code, m, s) \<Rightarrow> (code, m, a, s))" for c
  proof (intro answer_flow a)
    fix code m' s' assume r: "arc_set_latency now c (len - DANTE_HDR_LEN) s m = (code, m', s')"
    show "opened h m' \<and> m_len m' \<le> n" using ot(6) [OF r] k by simp
  qed (rule codes)
  have cr: "answer_ok n h (case arc_mcast_create rd now ip c k s m of (code, m, s) \<Rightarrow> (code, m, a, s))" for c k
  proof (intro answer_flow a)
    fix code m' s' assume r: "arc_mcast_create rd now ip c k s m = (code, m', s')"
    show "opened h m' \<and> m_len m' \<le> n" using ot(5) [OF r] len by simp
  qed (rule codes)
  have pages: "answer_ok n h (case arc_tx_channels g c k m of (code, m) \<Rightarrow> (code, m, a, s))"
    "answer_ok n h (case arc_friendly_names c k m of (code, m) \<Rightarrow> (code, m, a, s))"
    "answer_ok n h (case arc_rx_channels g a c k m of (code, m) \<Rightarrow> (code, m, a, s))"
    "answer_ok n h (case arc_tx_flows g s c k m of (code, m) \<Rightarrow> (code, m, a, s))" for c k
    by (rule answer_page [OF page_codes(1) pg(1) a len(2)] answer_page [OF page_codes(2) pg(2) a len(2)]
        answer_page [OF page_codes(3) pg(3) [OF a] a len(2)] answer_page [OF page_codes(4) pg(4) a len(2)]; assumption)+
  have c1: "DANTE_CODE_OK \<noteq> 0" "(0x30 :: u16) \<noteq> 0" "(0x22 :: u16) \<noteq> 0" by (simp_all add: DANTE_CODE_OK_def)
  note plain = answer_plain [OF ot(1) a c1(1) len(2)] answer_plain [OF ot(2) a c1(1) len(2)] answer_plain [OF ot(3) a c1(1) len(2)]
    answer_plain [OF ot(4) a c1(1) len(2)] answer_plain [OF n a c1(1) len(2)] answer_plain [OF b a c1(1) len(2)] answer_plain [OF z(1) a c1(1) len(2)]
    answer_plain [OF z(2) a c1(1) len(2)] answer_plain [OF z(2) arc_subscribe_wf [OF a] c1(1) len(2)] answer_plain [OF z(2) a c1(2) len(2)]
    answer_plain [OF z(2) u c1(3) len(2)]
  show ?thesis
    unfolding arc_dispatch_def Let_def by (intro answer_ite; rule plain pages l cr p [unfolded Let_def])
qed

text \<open>The handler, once the response is built: it is sent, and counted.\<close>

lemma opened_begin: "1400 \<le> length buf \<Longrightarrow>
    opened [req 0, req 1, 0, 0, req 4, req 5, req 6, req 7, 0, 0] (dante_msg_begin buf req) \<and> m_len (dante_msg_begin buf req) = 10"
  by (simp add: opened_def dante_msg_begin_def put_0 DANTE_HDR_LEN_def)

lemma opened_built:
  assumes "opened h m" "length h = 10"
  shows "\<exists>body. built m (h @ body)"
proof -
  have "take (m_len m) (m_buf m) = h @ drop 10 (take (m_len m) (m_buf m))"
    using assms append_take_drop_id [of 10 "take (m_len m) (m_buf m)"] by (simp add: opened_def min_def)
  then show ?thesis using assms by (intro exI [of _ "drop 10 (take (m_len m) (m_buf m))"]) (auto simp: built_def opened_def)
qed

lemma arc_rx_sends:
  assumes "tx_wf nt" "net_arp_lookup (dg_src d) nt = (Some dmac, nt)" "g_arc_mirror_ip a = (0, 0, 0, 0)"
    and "req = ptr_of (dg_payload d)" "10 \<le> length (dg_payload d)" "rd16 req 8 = 0"
    and "arc_dispatch rd now g (g_net_ip nt) req (length (dg_payload d)) (a\<lparr>ar_rx := ar_rx a + 1\<rparr>) s
      (dante_msg_begin (drop 42 (tx_buf nt)) req) = (code, m, a1, s')"
    and "built m ([req 0, req 1, 0, 0, req 4, req 5, req 6, req 7, 0, 0] @ body)" "length body \<le> 1390"
    and "g_arc_mirror_ip a1 = g_arc_mirror_ip a" "arc_rx rd now g d a s nt = (a', s'', nt')"
  shows "s'' = s'" "a' = a1\<lparr>ar_tx := ar_tx a1 + 1\<rparr>"
    "\<exists>F. wire nt' = wire nt @ [F] \<and> carries (dg_sport d) F (flow_reply req code body)"
proof -
  obtain n m2 where f: "dante_msg_finish code m = (n, m2)" by fastforce
  note b = built_finish [OF assms(8) f]
  have n: "n = length (flow_reply req code body)" using b(1) by (simp add: flow_reply_def)
  have l: "length (flow_reply req code body) \<le> 1400" using assms(9) by (simp add: flow_reply_def)
  obtain s3 F where c: "net_udp_commit (dg_src d) (dg_sport d) DANTE_PORT_ARC n 0 (msg_slot (txslot nt) m2 nt) = (0, s3)"
    "wire s3 = wire nt @ [F]" "carries (dg_sport d) F (flow_reply req code body)"
    using built_sent [OF b(2) l assms(1,2), of "dg_sport d" DANTE_PORT_ARC 0] unfolding n by blast
  have o: "\<not> length (dg_payload d) < DANTE_HDR_LEN" "dante_req_u16 req 8 = 0"
    using assms(5,6) by (simp_all add: DANTE_HDR_LEN_def dante_req_rd16)
  have "arc_rx rd now g d a s nt = (a1\<lparr>ar_tx := ar_tx a1 + 1\<rparr>, s', s3)"
    unfolding arc_rx_def Let_def assms(4) [symmetric] using o
    by (simp add: assms(7) f c(1) arc_mirror_def assms(3,10))
  with assms(11) c show "s'' = s'" "a' = a1\<lparr>ar_tx := ar_tx a1 + 1\<rparr>"
    "\<exists>F. wire nt' = wire nt @ [F] \<and> carries (dg_sport d) F (flow_reply req code body)" by auto
qed

lemma dispatch_mirror:
  "arc_dispatch rd now g ip req len a s m = (code, m', a', s') \<Longrightarrow> g_arc_mirror_ip a' = g_arc_mirror_ip a"
  by (simp add: arc_dispatch_def Let_def arc_properties_def arc_subscribe_def split: if_splits prod.splits; auto)

lemma dispatch_counts:
  "arc_dispatch rd now g ip req len a s m = (code, m', a', s') \<Longrightarrow> ar_tx a' = ar_tx a"
  by (simp add: arc_dispatch_def Let_def arc_properties_def arc_subscribe_def split: if_splits prod.splits; auto)

text \<open>A device and a request for its own examples.\<close>

definition arc_request :: "u16 \<Rightarrow> u8 list \<Rightarrow> datagram" where
  "arc_request op content = \<lparr>dg_fn = Arc_Rx, dg_src = (224, 0, 0, 1), dg_dst = (169, 254, 1, 2), dg_sport = 5001,
     dg_payload = [0x28, 0x09] @ be16 (of_nat (10 + length content)) @ [0x12, 0x34] @ be16 op @ [0, 0] @ content\<rparr>"

lemma arc_request_fields:
  "10 \<le> length (dg_payload (arc_request op c))" "rd16 (ptr_of (dg_payload (arc_request op c))) 8 = 0"
  "rd16 (ptr_of (dg_payload (arc_request op c))) 6 = op" "length (dg_payload (arc_request op c)) = 10 + length c"
  "dg_sport (arc_request op c) = 5001"
  using rd16_at [of "[0x28, 0x09] @ be16 (of_nat (10 + length c)) @ [0x12, 0x34]" op "[0, 0] @ c"]
  by (simp_all add: arc_request_def rd16_def ptr_of_def be16_def)

lemma arc_request_known: "net_arp_lookup (dg_src (arc_request op c)) nt = (Some (net_mcast_mac (224, 0, 0, 1)), nt)"
  by (simp add: net_arp_lookup_def arc_request_def)

lemma demo_net_wf: "tx_wf demo_net"
  using net_boot_inv [of "(0, 0x1D, 0xC1, 1, 2, 3)"] by (simp add: demo_net_def net_inv_def hw_ok_def)

lemma arc0_wf: "arc_wf arc0"
  by (simp add: arc_wf_def arc0_def arc_1100_body_def)

section \<open>Properties\<close>

text \<open>
  C16: every request is answered. Whatever its opcode and content, a request of up to 1400
  bytes from a known neighbour is answered with exactly one datagram to its sender: the
  header of the request with the length of the answer and a non-zero code, and a body that
  fits; and the server stays well formed, so that the next request is answered too.
\<close>

theorem arc_answers_every_request:
  assumes "tx_wf nt" "net_arp_lookup (dg_src d) nt = (Some dmac, nt)" "arc_wf a" "g_arc_mirror_ip a = (0, 0, 0, 0)"
    and "length (dd_name g) \<le> 31" "10 \<le> length (dg_payload d)" "length (dg_payload d) \<le> 1400"
    and "rd16 (ptr_of (dg_payload d)) 8 = 0" "arc_rx rd now g d a s nt = (a', s', nt')"
  shows "arc_wf a' \<and> ar_tx a' = ar_tx a + 1 \<and> (\<exists>F code body. wire nt' = wire nt @ [F] \<and> code \<noteq> 0 \<and>
    length body \<le> 1390 \<and> carries (dg_sport d) F (flow_reply (ptr_of (dg_payload d)) code body))"
proof -
  let ?req = "ptr_of (dg_payload d)" and ?a = "a\<lparr>ar_rx := ar_rx a + 1\<rparr>"
  let ?h = "[?req 0, ?req 1, 0, 0, ?req 4, ?req 5, ?req 6, ?req 7, 0, 0]"
  obtain code m a1 s1 where r: "arc_dispatch rd now g (g_net_ip nt) ?req (length (dg_payload d)) ?a s
      (dante_msg_begin (drop 42 (tx_buf nt)) ?req) = (code, m, a1, s1)" by (metis prod_cases4)
  have "1400 \<le> length (drop 42 (tx_buf nt))" using tx_buf_len [OF assms(1)] by simp
  note o = opened_begin [OF this, of ?req]
  have "arc_wf ?a" using assms(3) by (simp add: arc_wf_def)
  from dispatch_ok [OF conjunct1 [OF o] conjunct2 [OF o] this assms(7) order_refl assms(5), of rd now "g_net_ip nt" ?req s]
  have k: "opened ?h m" "m_len m \<le> 1400" "code \<noteq> 0" "arc_wf a1" by (simp_all add: r answer_ok_def)
  obtain body where b: "built m (?h @ body)" using opened_built [OF k(1)] by auto
  have l: "length body \<le> 1390" using b k(2) by (simp add: built_def)
  have "g_arc_mirror_ip a1 = g_arc_mirror_ip a" using dispatch_mirror [OF r] by simp
  note x = arc_rx_sends [OF assms(1,2,4) refl assms(6,8) r b l this assms(9)]
  have "arc_wf a'" "ar_tx a' = ar_tx a + 1" using x(2) k(4) dispatch_counts [OF r] by (simp_all add: arc_wf_def)
  then show ?thesis using x(3) k(3) l by blast
qed

theorem arc_answers_every_request_witness:
  "\<exists>a' s' nt' F code body. arc_rx (\<lambda>_. 0) 5 (dante_dev_init (0, 0, 0, 0, 0, 1)) (arc_request 0x7777 [1, 2, 3]) arc0 boot_tx demo_net = (a', s', nt') \<and>
    wire nt' = wire demo_net @ [F] \<and> carries 5001 F (flow_reply (ptr_of (dg_payload (arc_request 0x7777 [1, 2, 3]))) code body)"
proof -
  let ?d = "arc_request 0x7777 [1, 2, 3]" and ?g = "dante_dev_init (0, 0, 0, 0, 0, 1)"
  obtain a' s' nt' where r: "arc_rx (\<lambda>_. 0) 5 ?g ?d arc0 boot_tx demo_net = (a', s', nt')" by (metis prod_cases3)
  have "g_arc_mirror_ip arc0 = (0, 0, 0, 0)" "length (dd_name ?g) \<le> 31" "length (dg_payload ?d) \<le> 1400"
    by (simp_all add: arc0_def dev_name_def dante_dev_init_name arc_request_fields)
  from arc_answers_every_request [OF demo_net_wf arc_request_known arc0_wf this(1,2) arc_request_fields(1) this(3) arc_request_fields(2) r] r
  show ?thesis unfolding arc_request_fields(5) by blast
qed

end
