(* ===== verification/Dante_Arc_Pages.thy ===== *)
theory Dante_Arc_Pages
  imports Dante_Arc_Claims
begin

text \<open>
  The pages of the ARC server read back: the channels a page lists, and the subscription of a
  receive channel.
\<close>

section \<open>The items of a page\<close>

definition chan_name8 :: "nat \<Rightarrow> u8 list" where
  "chan_name8 i = dante_tx_channel_name (of_nat i) 8"

definition chan_names :: "nat list \<Rightarrow> u8 list" where
  "chan_names is = concat (map (\<lambda>i. chan_name8 i @ [0]) is)"

text \<open>The items of some channels, the first of their names at \<open>off\<close>.\<close>

fun chan_items :: "u16 \<Rightarrow> nat \<Rightarrow> nat list \<Rightarrow> u8 list" where
  "chan_items common off [] = []"
| "chan_items common off (i # is) =
     (be16 (of_nat i) @ be16 7 @ be16 common @ be16 (of_nat off)) @ chan_items common (off + length (chan_name8 i @ [0])) is"

lemma chan_items_append:
  "chan_items common off (xs @ ys) = chan_items common off xs @ chan_items common (off + length (chan_names xs)) ys"
  by (induction common off xs rule: chan_items.induct) (simp_all add: chan_names_def add.assoc)

lemma length_chan_items [simp]: "length (chan_items common off is) = 8 * length is"
  by (induction common off "is" rule: chan_items.induct) simp_all

lemma length_chan_names: "length (chan_names is) \<le> 3 * length is"
proof (induction "is")
  case (Cons i "is")
  then show ?case using channel_name_short [of "of_nat i" 8] by (simp add: chan_names_def chan_name8_def)
qed (simp add: chan_names_def)

text \<open>Filling the first free item.\<close>

lemma item8:
  "length A = sl \<Longrightarrow> put (sl + 6) (be16 z) (put (sl + 4) (be16 y) (put (sl + 2) (be16 x) (put (sl + 0) (be16 w) (A @ replicate 8 0 @ B)))) =
     A @ (be16 w @ be16 x @ be16 y @ be16 z) @ B"
  by (simp add: numeral_eq_Suc be16_def put_skip put_skip_Cons put_0)

lemma tx_channel_item_built:
  assumes "built m (A @ replicate 8 0 @ B)" "length A = page_slot pg" "common \<noteq> 0"
    and "tx_channel_item g i common pg m = (common', m')"
  shows "common' = common"
    "built m' (A @ chan_items common (length (A @ replicate 8 (0 :: u8) @ B)) [i] @ B @ chan_names [i])"
proof -
  let ?v = "A @ replicate 8 0 @ B"
  obtain off m1 where s: "dante_msg_str (chan_name8 i) m = (off, m1)" by fastforce
  note b = built_str [OF assms(1) s]
  let ?w = "?v @ chan_name8 i @ [0]" and ?sl = "page_slot pg"
  have r: "common' = common"
    "m' = put_u16_at ?sl 6 off (put_u16_at ?sl 4 common (put_u16_at ?sl 2 7 (put_u16_at ?sl 0 (of_nat i) m1)))"
    using assms(3,4) s by (auto simp: tx_channel_item_def chan_name8_def Let_def)
  show "common' = common" by (rule r(1))
  have l: "?sl + 8 \<le> length ?w" using assms(2) by simp
  have "built m' (put (?sl + 6) (be16 off) (put (?sl + 4) (be16 common) (put (?sl + 2) (be16 7) (put (?sl + 0) (be16 (of_nat i)) ?w))))"
    unfolding r(2) using b(2) l by (intro built_slot) simp_all
  then show "built m' (A @ chan_items common (length ?v) [i] @ B @ chan_names [i])"
    using item8 [OF assms(2), of off common 7 "of_nat i" "B @ chan_name8 i @ [0]"] b(1) by (simp add: chan_names_def del: replicate.simps)
qed

text \<open>The loop over the channels, up to the last channel or the last item.\<close>

lemma tx_channels_built:
  assumes "built m (A @ replicate (8 * n) 0 @ B)" "length A = page_slot pg" "item_size pg = 8" "common \<noteq> 0"
    and "idx + n \<le> 49" "pg_actual pg + n \<le> pg_space pg" "idx + n = 49 \<or> pg_actual pg + n = pg_space pg"
    and "length A + 8 * n + length B + 3 * n < 800"
  shows "\<exists>m'. tx_channels g idx common pg m = (idx + n, pg\<lparr>pg_actual := pg_actual pg + n\<rparr>, m') \<and>
    built m' (A @ chan_items common (length A + 8 * n + length B) [idx..<idx + n] @ B @ chan_names [idx..<idx + n])"
  using assms
proof (induction n arbitrary: idx pg m A B)
  case 0
  then have "tx_channels g idx common pg m = (idx, pg, m)" by (subst tx_channels.simps) (auto simp: DANTE_TX_CHANNELS_def)
  then show ?case using 0 by (simp add: chan_names_def)
next
  case (Suc n)
  let ?Z = "replicate (8 * n) (0 :: u8)" and ?off = "length A + 8 * Suc n + length B" and ?pg = "pg\<lparr>pg_actual := pg_actual pg + 1\<rparr>"
  obtain c' m1 where it: "tx_channel_item g idx common pg m = (c', m1)" by fastforce
  have "replicate (8 * Suc n) (0 :: u8) = replicate 8 0 @ ?Z" by (simp add: replicate_add [symmetric])
  then have "built m (A @ replicate 8 0 @ ?Z @ B)" using Suc.prems(1) by simp
  note t = tx_channel_item_built [OF this Suc.prems(2,4) it]
  let ?A = "A @ chan_items common ?off [idx]" and ?B = "B @ chan_names [idx]"
  have ln: "length (A @ replicate 8 (0 :: u8) @ ?Z @ B) = ?off" by simp
  have b: "built m1 (?A @ ?Z @ ?B)" using t(2) unfolding ln by (simp only: append_assoc)
  have nm: "length (chan_names [idx]) \<le> 3" using length_chan_names [of "[idx]"] by simp
  have l: "\<not> m_len m1 \<ge> PACKET_SIZE_SOFT_LIMIT"
    using b nm Suc.prems(8) by (simp add: built_def PACKET_SIZE_SOFT_LIMIT_def)
  have "idx \<le> DANTE_TX_CHANNELS \<and> pg_actual pg < pg_space pg" using Suc.prems(5,6) by (simp add: DANTE_TX_CHANNELS_def)
  then have step: "tx_channels g idx common pg m = tx_channels g (idx + 1) common ?pg m1"
    using l t(1) by (subst tx_channels.simps) (simp add: it)
  have "length ?A = page_slot ?pg" using Suc.prems(2,3) by (simp add: page_slot_def)
  moreover have "length ?A + 8 * n + length ?B + 3 * n < 800" using Suc.prems(8) nm by simp
  ultimately obtain m' where m': "tx_channels g (idx + 1) common ?pg m1 = (idx + 1 + n, ?pg\<lparr>pg_actual := pg_actual ?pg + n\<rparr>, m')"
    "built m' (?A @ chan_items common (length ?A + 8 * n + length ?B) [idx + 1..<idx + 1 + n] @ ?B @ chan_names [idx + 1..<idx + 1 + n])"
    using Suc.IH [OF b _ _ Suc.prems(4), of ?pg "idx + 1"] Suc.prems(3,5-7) by auto
  have u: "[idx..<idx + Suc n] = [idx] @ [idx + 1..<idx + 1 + n]" by (simp add: upt_conv_Cons)
  have "chan_names [idx..<idx + Suc n] = chan_names [idx] @ chan_names [idx + 1..<idx + 1 + n]"
    unfolding u by (simp add: chan_names_def)
  moreover have "chan_items common ?off [idx..<idx + Suc n] =
      chan_items common ?off [idx] @ chan_items common (length ?A + 8 * n + length ?B) [idx + 1..<idx + 1 + n]"
    unfolding u chan_items_append by (simp add: add.assoc add.left_commute)
  ultimately show ?case using m' step by (intro exI [of _ m']) simp
qed

text \<open>A whole page: the common descriptor goes in before the first item.\<close>

definition common_bytes :: "dante_dev \<Rightarrow> u8 list" where
  "common_bytes g = be32 (sample_rate g) @ [1, 1] @ be16 (ucast (bits_per_sample g)) @ be16 0x400 @
     be16 (ucast (bits_per_sample g)) @ be16 (ucast (bits_per_sample g)) @ be16 0xE"

lemma common_built:
  "built m v \<Longrightarrow> put_common_descriptor g m = (common, m') \<Longrightarrow> common = of_nat (length v) \<and> built m' (v @ common_bytes g)"
proof -
  let ?b = "be16 (ucast (bits_per_sample g))"
  assume v: "built m v" and r: "put_common_descriptor g m = (common, m')"
  have "m_len m = length v" using v by (simp add: built_def)
  moreover have "m' = dante_msg_bytes (be16 0xE) (dante_msg_bytes ?b (dante_msg_bytes ?b (dante_msg_bytes (be16 0x400) (dante_msg_bytes ?b
      (dante_msg_bytes [1] (dante_msg_bytes [1] (dante_msg_bytes (be32 (sample_rate g)) m)))))))"
    using r by (auto simp: put_common_descriptor_def Let_def dante_msg_appends)
  then have "built m' ((((((((v @ be32 (sample_rate g)) @ [1]) @ [1]) @ ?b) @ be16 0x400) @ ?b) @ ?b) @ be16 0xE)"
    using v by (simp only: built_bytes)
  ultimately show "common = of_nat (length v) \<and> built m' (v @ common_bytes g)"
    using r by (auto simp: put_common_descriptor_def Let_def common_bytes_def)
qed

lemma first_item:
  assumes "put_common_descriptor g m = (common, m1)" "common \<noteq> 0" "idx \<le> DANTE_TX_CHANNELS" "pg_actual pg < pg_space pg"
  shows "tx_channels g idx 0 pg m = tx_channels g idx common pg m1"
proof -
  have "tx_channel_item g idx 0 pg m = tx_channel_item g idx common pg m1"
    using assms(1,2) by (simp add: tx_channel_item_def)
  then show ?thesis using assms(3,4) by (subst (1 2) tx_channels.simps) simp
qed

lemma begin_built:
  assumes "built m v" "page_begin sz sp m = (pg, m')" "sp \<le> 255"
  shows "built m' (v @ [of_nat sp, 0] @ replicate (sz * sp) 0)"
    "pg = \<lparr>items_at = length v + 2, item_size = sz, pg_space = sp, pg_actual = 0\<rparr>"
proof -
  have "m' = dante_msg_bytes (replicate (sz * sp) 0) (dante_msg_bytes [0] (dante_msg_bytes [of_nat sp] m))"
    using assms(2,3) by (auto simp: page_begin_def Let_def dante_msg_appends)
  then have "built m' (((v @ [of_nat sp]) @ [0]) @ replicate (sz * sp) 0)" using assms(1) by (simp only: built_bytes)
  then show "built m' (v @ [of_nat sp, 0] @ replicate (sz * sp) 0)" by simp
  show "pg = \<lparr>items_at = length v + 2, item_size = sz, pg_space = sp, pg_actual = 0\<rparr>"
    using assms by (auto simp: page_begin_def Let_def built_def)
qed

lemma end_built:
  assumes "built m (v @ [x, y] @ w)" "items_at pg = length v + 2"
  shows "built (page_end pg m) (v @ [x, of_nat (pg_actual pg)] @ w)"
proof (rule builtE [OF assms(1)])
  fix r assume r: "m_buf m = (v @ [x, y] @ w) @ r" "m_len m = length (v @ [x, y] @ w)" "1400 \<le> length ((v @ [x, y] @ w) @ r)"
  have "m_buf (page_end pg m) = (v @ [x, of_nat (pg_actual pg)] @ w) @ r"
    by (simp add: page_end_def r(1) assms(2) put_skip put_skip_Cons put_0)
  then show ?thesis using r(2,3) by (simp add: built_def)
qed

definition page_count :: "nat \<Rightarrow> nat" where
  "page_count start = min 32 (49 - start)"

lemma tx_page_built:
  assumes "built m h" "length h = 10" "start = page_start c clen" "start \<le> 48" "n = page_count start" "is = [start..<start + n]"
    and "arc_tx_channels g c clen m = (code, m')"
  shows "code = (if start + 32 \<le> 48 then DANTE_CODE_MORE else DANTE_CODE_OK)"
    "built m' (h @ [32, of_nat n] @ chan_items 268 284 is @ replicate (8 * (32 - n)) 0 @ common_bytes g @ chan_names is)"
proof -
  have st: "1 \<le> start" using assms(3) by (auto simp: page_start_def Let_def unat_gt_0 [symmetric] Suc_le_eq)
  have n: "1 \<le> n" "n \<le> 32" "start + n \<le> 49" "start + n = 49 \<or> n = 32" using assms(4) by (auto simp: assms(5) page_count_def)
  obtain pg m0 where b: "page_begin 8 32 m = (pg, m0)" by fastforce
  have pg: "pg = \<lparr>items_at = 12, item_size = 8, pg_space = 32, pg_actual = 0\<rparr>"
    using begin_built(2) [OF assms(1) b] assms(2) by simp
  have m0: "built m0 (h @ [32, 0] @ replicate 256 0)" using begin_built(1) [OF assms(1) b] by simp
  obtain common m1 where c: "put_common_descriptor g m0 = (common, m1)" by fastforce
  have m1: "common = 268" "built m1 ((h @ [32, 0] @ replicate 256 0) @ common_bytes g)"
    using common_built [OF m0 c] assms(2) by simp_all
  let ?A = "h @ [32, 0]" and ?B = "replicate (8 * (32 - n)) 0 @ common_bytes g"
  have z: "replicate 256 (0 :: u8) = replicate (8 * n) 0 @ replicate (8 * (32 - n)) 0"
    using n(2) by (simp add: replicate_add [symmetric])
  have cl: "length (common_bytes g) = 16" by (simp add: common_bytes_def)
  have off: "length ?A + 8 * n + length ?B = 284" using n(2) assms(2) cl by simp
  have v: "built m1 (?A @ replicate (8 * n) 0 @ ?B)" using m1(2) unfolding z by simp
  have "length ?A = page_slot pg" by (simp add: page_slot_def pg assms(2))
  from tx_channels_built [OF v this, of common start g] obtain m2 where
    m2: "tx_channels g start common pg m1 = (start + n, pg\<lparr>pg_actual := n\<rparr>, m2)"
      "built m2 (?A @ chan_items common 284 is @ ?B @ chan_names is)"
    using n off m1(1) by (auto simp: pg assms(6))
  have "tx_channels g start 0 pg m0 = tx_channels g start common pg m1"
    using m1(1) assms(4) by (intro first_item [OF c]) (simp_all add: pg DANTE_TX_CHANNELS_def)
  then have r: "code = page_code (start + n) DANTE_TX_CHANNELS" "m' = page_end (pg\<lparr>pg_actual := n\<rparr>) m2"
    using assms(7) m2(1) by (simp_all add: arc_tx_channels_def b assms(3) [symmetric])
  show "code = (if start + 32 \<le> 48 then DANTE_CODE_MORE else DANTE_CODE_OK)"
    using n(3) assms(4) unfolding r(1) by (auto simp: page_code_def DANTE_TX_CHANNELS_def assms(5) page_count_def)
  have "built m2 (h @ [32, 0] @ (chan_items 268 284 is @ ?B @ chan_names is))" using m2(2) m1(1) by simp
  from end_built [OF this, of "pg\<lparr>pg_actual := n\<rparr>"]
  show "built m' (h @ [32, of_nat n] @ chan_items 268 284 is @ replicate (8 * (32 - n)) 0 @ common_bytes g @ chan_names is)"
    unfolding r(2) by (simp add: pg assms(2))
qed

text \<open>Reading an item and its name back.\<close>

lemma chan_name8_no_nul: "0 \<notin> set (chan_name8 i)"
proof -
  have "(of_nat (48 + d mod 10) :: u8) \<noteq> 0" for d
  proof
    assume "(of_nat (48 + d mod 10) :: u8) = 0"
    moreover have "unat (of_nat (48 + d mod 10) :: u8) = 48 + d mod 10" unfolding unat_of_nat by simp
    ultimately show False by (simp only: unat_0)
  qed
  from this [of "unat (of_nat i :: u16) div 10"] this [of "unat (of_nat i :: u16)"] show ?thesis
    by (auto simp: chan_name8_def dante_tx_channel_name_def)
qed

lemma chan_items_read:
  assumes "p = P @ chan_items common off is @ W @ chan_names is" "length P + 8 * length is + length W = off" "off < 600"
    and "j < length is" "length is \<le> 48"
  shows "rd16 (ptr_of p) (length P + 8 * j) = of_nat (is ! j)"
    "cstr_at p (unat (rd16 (ptr_of p) (length P + 8 * j + 6))) = chan_name8 (is ! j)"
proof -
  let ?xs = "take j is" and ?i = "is ! j" and ?ys = "drop (Suc j) is"
  let ?o = "off + length (chan_names ?xs)"
  have s: "is = ?xs @ ?i # ?ys" using assms(4) by (rule id_take_nth_drop)
  have it: "chan_items common off is = chan_items common off ?xs @ chan_items common ?o (?i # ?ys)"
    by (subst s) (rule chan_items_append)
  have nm: "chan_names is = chan_names ?xs @ (chan_name8 ?i @ [0]) @ chan_names ?ys"
    by (subst s) (simp add: chan_names_def)
  obtain Q where p: "p = (P @ chan_items common off ?xs) @ be16 (of_nat ?i) @ be16 7 @ be16 common @ be16 (of_nat ?o) @ Q"
    using assms(1) unfolding it by auto
  have l: "length (P @ chan_items common off ?xs) = length P + 8 * j" using assms(4) by simp
  show "rd16 (ptr_of p) (length P + 8 * j) = of_nat ?i" unfolding p l [symmetric] by (rule rd16_at)
  let ?X = "P @ chan_items common off is @ W @ chan_names ?xs"
  have r: "rd16 (ptr_of p) (length P + 8 * j + 6) = of_nat ?o"
    using rd16_at [of "(P @ chan_items common off ?xs) @ be16 (of_nat ?i) @ be16 7 @ be16 common" "of_nat ?o" Q] l by (simp add: p add.assoc)
  have "?o < 65536" using assms(3,4,5) length_chan_names [of ?xs] by simp
  then have u: "unat (of_nat ?o :: u16) = ?o" by (simp only: unat_of_nat) simp
  have pe: "p = ?X @ chan_name8 ?i @ 0 # chan_names ?ys"
    unfolding assms(1) using nm by (simp only: append_assoc append.simps)
  have le: "length ?X = ?o" using assms(2) by simp
  have "cstr_at p (length ?X) = chan_name8 ?i" unfolding pe by (rule cstr_at_mid [OF chan_name8_no_nul])
  then show "cstr_at p (unat (rd16 (ptr_of p) (length P + 8 * j + 6))) = chan_name8 ?i" by (simp only: r u le)
qed

section \<open>The channels a page lists\<close>

text \<open>
  C22: a page of transmit channels can be read back. A request for the channels from \<open>start\<close>
  on is answered with one datagram whose items are the next channels in order, 32 or as many
  as there are left; each item has the number of its channel and the offset, from the start
  of the message, of its name; and the code says whether more remain.
\<close>

theorem channel_page:
  assumes "tx_wf nt" "net_arp_lookup (dg_src d) nt = (Some dmac, nt)" "g_arc_mirror_ip a = (0, 0, 0, 0)"
    and "req = ptr_of (dg_payload d)" "10 \<le> length (dg_payload d)" "rd16 req 8 = 0" "rd16 req 6 = OP_GET_TX_CHANNELS"
    and "start = page_start (\<lambda>i. req (10 + i)) (length (dg_payload d) - 10)" "start \<le> DANTE_TX_CHANNELS" "n = min 32 (49 - start)"
    and "arc_rx rd now g d a s nt = (a', s', nt')"
  shows "\<exists>F p. wire nt' = wire nt @ [F] \<and> carries (dg_sport d) F p \<and>
    rd16 (ptr_of p) 8 = (if start + n \<le> DANTE_TX_CHANNELS then DANTE_CODE_MORE else DANTE_CODE_OK) \<and> p ! 11 = of_nat n \<and>
    (\<forall>j<n. rd16 (ptr_of p) (12 + 8 * j) = of_nat (start + j) \<and>
      cstr_at p (unat (rd16 (ptr_of p) (12 + 8 * j + 6))) = dante_tx_channel_name (of_nat (start + j)) 8)"
proof -
  let ?a = "a\<lparr>ar_rx := ar_rx a + 1\<rparr>" and ?h = "[req 0, req 1, 0, 0, req 4, req 5, req 6, req 7, 0, 0]"
  let ?is = "[start..<start + n]" and ?W = "replicate (8 * (32 - n)) 0 @ common_bytes g"
  have s48: "start \<le> 48" using assms(9) by (simp add: DANTE_TX_CHANNELS_def)
  have st: "1 \<le> start" using assms(8) by (auto simp: page_start_def Let_def unat_gt_0 [symmetric] Suc_le_eq)
  have n: "n = page_count start" "n \<le> 32" "start + n \<le> 49" using s48 by (auto simp: assms(10) page_count_def)
  have m: "built (dante_msg_begin (drop 42 (tx_buf nt)) req) ?h"
    using tx_buf_len [OF assms(1)] by (intro built_begin) simp
  obtain code m' where r: "arc_tx_channels g (\<lambda>i. req (10 + i)) (length (dg_payload d) - 10) (dante_msg_begin (drop 42 (tx_buf nt)) req) = (code, m')"
    by fastforce
  note t = tx_page_built [OF m _ assms(8) s48 n(1) refl r]
  let ?body = "[32, of_nat n] @ chan_items 268 284 ?is @ ?W @ chan_names ?is"
  have b: "built m' (?h @ ?body)" using t(2) by simp
  have "arc_dispatch rd now g (g_net_ip nt) req (length (dg_payload d)) ?a s (dante_msg_begin (drop 42 (tx_buf nt)) req) = (code, m', ?a, s)"
    using assms(7) r by (simp add: arc_dispatch_def Let_def dante_req_rd16 OP_GET_TX_CHANNELS_def OP_CHANNELS_AND_FLOWS_COUNT_def
        OP_GET_DEVICE_NAME_def OP_GET_DEVICE_NAMES_def DANTE_HDR_LEN_def)
  moreover have "length ?body \<le> 1390" using n(2) length_chan_names [of ?is] by (simp add: common_bytes_def)
  ultimately obtain F where F: "wire nt' = wire nt @ [F]" "carries (dg_sport d) F (flow_reply req code ?body)"
    using arc_rx_sends(3) [OF assms(1-6) _ b _ _ assms(11)] by auto
  let ?p = "flow_reply req code ?body" and ?P = "[req 0, req 1] @ be16 (of_nat (10 + length ?body)) @ [req 4, req 5, req 6, req 7] @ be16 code @ [32, of_nat n]"
  have p: "?p = ?P @ chan_items 268 284 ?is @ ?W @ chan_names ?is" by (simp add: flow_reply_def)
  have l: "length ?P = 12" "length ?P + 8 * length ?is + length ?W = 284" using n(2) by (simp_all add: common_bytes_def)
  have "rd16 (ptr_of ?p) 8 = code"
    using rd16_at [of "[req 0, req 1] @ be16 (of_nat (10 + length ?body)) @ [req 4, req 5, req 6, req 7]" code ?body] by (simp add: flow_reply_def)
  moreover have "?p ! 11 = of_nat n" by (simp add: flow_reply_def be16_def nth_append)
  moreover have "rd16 (ptr_of ?p) (12 + 8 * j) = of_nat (start + j) \<and>
      cstr_at ?p (unat (rd16 (ptr_of ?p) (12 + 8 * j + 6))) = dante_tx_channel_name (of_nat (start + j)) 8" if "j < n" for j
    using chan_items_read [OF p l(2), of j] that n(2,3) st unfolding l(1) by (simp add: chan_name8_def)
  moreover have "code = (if start + n \<le> DANTE_TX_CHANNELS then DANTE_CODE_MORE else DANTE_CODE_OK)"
    using t(1) s48 by (auto simp: DANTE_TX_CHANNELS_def assms(10))
  ultimately show ?thesis using F by blast
qed

theorem channel_page_witness:
  "\<exists>a' s' nt' F p. arc_rx (\<lambda>_. 0) 5 (dante_dev_init (0, 0, 0, 0, 0, 1)) (arc_request OP_GET_TX_CHANNELS [0, 1, 0, 33]) arc0 boot_tx demo_net =
      (a', s', nt') \<and> wire nt' = wire demo_net @ [F] \<and> carries 5001 F p \<and> rd16 (ptr_of p) 8 = DANTE_CODE_OK \<and> p ! 11 = 16 \<and>
    cstr_at p (unat (rd16 (ptr_of p) (12 + 8 * 15 + 6))) = [52, 56]"
proof -
  let ?d = "arc_request OP_GET_TX_CHANNELS [0, 1, 0, 33]" and ?g = "dante_dev_init (0, 0, 0, 0, 0, 1)"
  obtain a' s' nt' where r: "arc_rx (\<lambda>_. 0) 5 ?g ?d arc0 boot_tx demo_net = (a', s', nt')" by (metis prod_cases3)
  have m: "g_arc_mirror_ip arc0 = (0, 0, 0, 0)" by (simp add: arc0_def)
  have st: "33 = page_start (\<lambda>i. ptr_of (dg_payload ?d) (10 + i)) (length (dg_payload ?d) - 10)"
    by (simp add: page_start_def dante_req_rd16 rd16_def arc_request_def ptr_of_def be16_def)
  have k: "33 \<le> DANTE_TX_CHANNELS" "16 = min 32 (49 - 33 :: nat)" by (simp_all add: DANTE_TX_CHANNELS_def)
  have name: "dante_tx_channel_name (of_nat (33 + 15)) 8 = [52, 56]" by (simp add: dante_tx_channel_name_def)
  from channel_page [OF demo_net_wf arc_request_known m refl arc_request_fields(1-3) st k r] r obtain F p where
    "wire nt' = wire demo_net @ [F]" "carries 5001 F p" "rd16 (ptr_of p) 8 = DANTE_CODE_OK" "p ! 11 = of_nat 16"
    "\<And>j. j < 16 \<Longrightarrow> cstr_at p (unat (rd16 (ptr_of p) (12 + 8 * j + 6))) = dante_tx_channel_name (of_nat (33 + j)) 8"
    by (auto simp: arc_request_fields(5) DANTE_TX_CHANNELS_def)
  moreover from this(5) [of 15] have "cstr_at p (unat (rd16 (ptr_of p) (12 + 8 * 15 + 6))) = [52, 56]"
    unfolding name by simp
  ultimately show ?thesis using r by auto
qed

end
