(* ===== verification/Dante_Arc_Settings.thy ===== *)
theory Dante_Arc_Settings
  imports Dante_Arc_Pages
begin

text \<open>
  What a controller sets at the ARC server and reads back: the latency, the subscription of a
  receive channel, and the identifiers of the flows.
\<close>

section \<open>The property table over time\<close>

text \<open>The eight bytes from 174 on hold the two current latencies; the rest is constant.\<close>

definition body_ok :: "u8 list \<Rightarrow> bool" where
  "body_ok b \<longleftrightarrow> length b = 202 \<and> take 174 b = take 174 arc_1100_body \<and> drop 182 b = drop 182 arc_1100_body"

lemma arc_1100_length: "length arc_1100_body = 202"
  by (simp add: arc_1100_body_def)

text \<open>Searching the table looks at its first 126 bytes only.\<close>

lemma body_nth: "body_ok b \<Longrightarrow> i < 174 \<Longrightarrow> b ! i = arc_1100_body ! i"
proof -
  assume "body_ok b" "i < 174"
  then have "take 174 b ! i = take 174 arc_1100_body ! i" by (simp add: body_ok_def)
  then show ?thesis using \<open>i < 174\<close> by simp
qed

lemma body_rd16: "body_ok b \<Longrightarrow> i < 173 \<Longrightarrow> rd16 (ptr_of b) i = rd16 (ptr_of arc_1100_body) i"
  by (rule rd16_cong) (simp_all add: ptr_of_def body_nth arc_1100_length, simp_all add: body_ok_def)

lemma find_cong: "(\<And>x. x \<in> set xs \<Longrightarrow> P x = Q x) \<Longrightarrow> List.find P xs = List.find Q xs"
  by (induction xs) auto

lemma body_key:
  assumes "body_ok b"
  shows "key_entry key b = key_entry key arc_1100_body"
proof -
  have c: "b ! 1 = arc_1100_body ! 1" "unat (arc_1100_body ! 1) = 31" using body_nth [OF assms] by (simp_all add: arc_1100_body_def)
  have t: "takeWhile (\<lambda>i. 2 + i * 4 + 4 \<le> (202 :: nat)) [0..<31] = [0..<31]" by (simp add: takeWhile_eq_all_conv)
  have l: "length b = 202" using assms by (simp add: body_ok_def)
  show ?thesis
    unfolding key_entry_def c l arc_1100_length t by (rule find_cong) (simp add: body_rd16 [OF assms])
qed

lemma keys:
  "key_entry 0x8205 arc_1100_body = Some 10" "key_entry 0x8301 arc_1100_body = Some 19" "key_entry 0x8306 arc_1100_body = Some 20"
  "rd16 (ptr_of arc_1100_body) 44 = 184" "rd16 (ptr_of arc_1100_body) 80 = 188" "rd16 (ptr_of arc_1100_body) 84 = 192"
  "rd32 (ptr_of arc_1100_body) 182 = 250000"
  by code_simp+

text \<open>Setting a current latency.\<close>

lemma patch_current:
  assumes "body_ok b"
  shows "arc_1100_patch_u32 0x8205 v b = (0, put 174 (be32 v) b)" "arc_1100_patch_u32 0x8301 v b = (0, put 178 (be32 v) b)"
    "body_ok (put 174 (be32 v) b)" "body_ok (put 178 (be32 v) b)"
proof -
  have l: "length b = 202" using assms by (simp add: body_ok_def)
  show "arc_1100_patch_u32 0x8205 v b = (0, put 174 (be32 v) b)" "arc_1100_patch_u32 0x8301 v b = (0, put 178 (be32 v) b)"
    using keys l by (simp_all add: arc_1100_patch_u32_def body_key [OF assms] body_rd16 [OF assms] DANTE_HDR_LEN_def)
  show "body_ok (put 174 (be32 v) b)" "body_ok (put 178 (be32 v) b)"
    using assms l by (simp_all add: body_ok_def take_put drop_put)
qed

text \<open>The current latencies as a reply to a property request carries them.\<close>

definition current_body :: "u32 \<Rightarrow> u8 list \<Rightarrow> u8 list" where
  "current_body v b = put 178 (be32 v) (put 174 (be32 v) b)"

lemma properties_body:
  assumes "body_ok (arc_body a)"
  shows "arc_properties s a m = (dante_msg_bytes (current_body (g_latency_ns s) (arc_body a)) m, a\<lparr>arc_body := current_body (g_latency_ns s) (arc_body a)\<rparr>)"
    "body_ok (current_body v (arc_body a))"
  using patch_current(1,3) [OF assms] patch_current(2,4) [OF patch_current(3) [OF assms]]
  by (simp_all add: arc_properties_def current_body_def Let_def)

lemma subscribe_body: "arc_body (arc_subscribe req len a) = arc_body a"
  by (simp add: arc_subscribe_def Let_def)

lemma dispatch_body:
  assumes "body_ok (arc_body a)" "arc_dispatch rd now g ip req len a s m = (code, m', a', s')"
  shows "body_ok (arc_body a')"
proof -
  have p: "body_ok (arc_body a')" if "arc_properties s a m = (m', a')" for m' a'
    using that properties_body(1) [OF assms(1), of s m] properties_body(2) [OF assms(1)] by auto
  show ?thesis
    using assms by (simp add: arc_dispatch_def Let_def split: if_splits prod.splits; auto simp: subscribe_body intro: p)
qed

lemma arc_rx_body: "body_ok (arc_body a) \<Longrightarrow> arc_rx rd now g d a s nt = (a', s', nt') \<Longrightarrow> body_ok (arc_body a')"
proof -
  assume a: "body_ok (arc_body a)" and r: "arc_rx rd now g d a s nt = (a', s', nt')"
  let ?req = "ptr_of (dg_payload d)" and ?a = "a\<lparr>ar_rx := ar_rx a + 1\<rparr>"
  obtain code m a1 s1 where p: "arc_dispatch rd now g (g_net_ip nt) ?req (length (dg_payload d)) ?a s
      (dante_msg_begin (drop 42 (tx_buf nt)) ?req) = (code, m, a1, s1)" by (metis prod_cases4)
  have "body_ok (arc_body ?a)" using a by simp
  then have "body_ok (arc_body a1)" using p by (rule dispatch_body)
  moreover have "a' = a \<or> arc_body a' = arc_body a1"
    using r unfolding arc_rx_def Let_def p prod.case by (auto simp: split_beta split: if_splits)
  ultimately show ?thesis using a by auto
qed

text \<open>Every state of the server that requests alone can lead to.\<close>

inductive arc_reach :: "arc \<Rightarrow> bool" where
  Arc_Boot: "arc_reach arc0"
| Arc_Request: "arc_reach a \<Longrightarrow> arc_rx rd now g d a s nt = (a', s', nt') \<Longrightarrow> arc_reach a'"

lemma arc_reach_body: "arc_reach a \<Longrightarrow> body_ok (arc_body a)"
proof (induction rule: arc_reach.induct)
  case Arc_Boot
  show ?case by (simp add: arc0_def body_ok_def arc_1100_length)
qed (rule arc_rx_body)

lemma current_body_parts:
  assumes "body_ok b"
  shows "current_body v b = take 174 arc_1100_body @ be32 v @ be32 v @ drop 182 arc_1100_body"
proof -
  have b: "length b = 202" "take 174 b = take 174 arc_1100_body" "drop 182 b = drop 182 arc_1100_body"
    using assms by (simp_all add: body_ok_def)
  show ?thesis unfolding b(2,3) [symmetric] current_body_def put_def using b(1) by simp
qed

section \<open>Setting the latency\<close>

lemma unbind_keeps:
  assumes "length (flows s) = N_FLOWS" "f < N_FLOWS" "in_use (flows s ! f)"
  shows "flows (snd (dante_tx_unbind f now s)) = (flows s)[f := (flows s ! f)\<lparr>in_use := False\<rparr>]"
    "g_latency_ns (snd (dante_tx_unbind f now s)) = g_latency_ns s" "mdns_announces (snd (dante_tx_unbind f now s)) = mdns_announces s"
  using assms by (simp_all add: dante_tx_unbind_def upd_flow_def upd_ctx_def log_event_def)

lemma drop_all_frees:
  assumes "length (flows s) = N_FLOWS"
  shows "(\<forall>i<N_FLOWS. \<not> in_use (flows (dante_tx_drop_all now s) ! i)) \<and> g_latency_ns (dante_tx_drop_all now s) = g_latency_ns s \<and>
    mdns_announces (dante_tx_drop_all now s) = mdns_announces s"
proof -
  define step where "step = (\<lambda>s f. if in_use (flows s ! f) then snd (dante_tx_unbind f now s) else s)"
  have "length (flows (foldl step s [0..<n])) = N_FLOWS \<and> (\<forall>i<n. \<not> in_use (flows (foldl step s [0..<n]) ! i)) \<and>
      g_latency_ns (foldl step s [0..<n]) = g_latency_ns s \<and> mdns_announces (foldl step s [0..<n]) = mdns_announces s"
    if "n \<le> N_FLOWS" for n
    using that
  proof (induction n)
    case (Suc n)
    let ?t = "foldl step s [0..<n]"
    have ih: "length (flows ?t) = N_FLOWS" "\<forall>i<n. \<not> in_use (flows ?t ! i)" "g_latency_ns ?t = g_latency_ns s"
      "mdns_announces ?t = mdns_announces s" using Suc by auto
    have e: "foldl step s [0..<Suc n] = step ?t n" by simp
    show ?case
    proof (cases "in_use (flows ?t ! n)")
      case True
      have "n < N_FLOWS" using Suc.prems by simp
      note u = unbind_keeps [OF ih(1) this True, of now]
      show ?thesis unfolding e using ih u Suc.prems by (auto simp: step_def nth_list_update less_Suc_eq)
    next
      case False
      then show ?thesis unfolding e using ih by (auto simp: step_def less_Suc_eq)
    qed
  qed (simp add: assms)
  then show ?thesis by (simp add: dante_tx_drop_all_def step_def [symmetric])
qed

lemma payload_content: "10 \<le> length xs \<Longrightarrow> bytes_at (\<lambda>i. ptr_of xs (10 + i)) 0 (length xs - 10) = drop 10 xs"
  by (intro nth_equalityI) (auto simp: bytes_at_def ptr_of_def less_diff_conv add.commute)

section \<open>Properties\<close>

text \<open>The value of a key of a reply to a property request, as a controller looks it up.\<close>

definition reply_value :: "u8 list \<Rightarrow> u16 \<Rightarrow> u32 option" where
  "reply_value p key = (case key_entry key (drop 10 p) of
     None \<Rightarrow> None | Some i \<Rightarrow> Some (rd32 (ptr_of p) (unat (rd16 (ptr_of (drop 10 p)) (2 + i * 4 + 2)))))"

lemma reply_value_current:
  assumes "length h = 10" "body_ok b" "p = h @ current_body v b"
  shows "reply_value p 0x8205 = Some v" "reply_value p 0x8301 = Some v" "reply_value p 0x8306 = Some 250000"
proof -
  have d: "drop 10 p = current_body v b" using assms(1,3) by simp
  have ok: "body_ok (current_body v b)"
    using patch_current(4) [OF patch_current(3) [OF assms(2)]] by (simp add: current_body_def)
  have l: "length (take 174 arc_1100_body) = 174" by (simp add: arc_1100_length)
  note parts = current_body_parts [OF assms(2), of v]
  have p: "p = (h @ take 174 arc_1100_body) @ be32 v @ be32 v @ drop 182 arc_1100_body" using assms(3) parts by simp
  have "rd32 (ptr_of p) 184 = v"
    using rd32_at [of "h @ take 174 arc_1100_body" v "be32 v @ drop 182 arc_1100_body"] l assms(1) unfolding p by simp
  moreover have "rd32 (ptr_of p) 188 = v"
    using rd32_at [of "(h @ take 174 arc_1100_body) @ be32 v" v "drop 182 arc_1100_body"] l assms(1) unfolding p by simp
  moreover have "rd32 (ptr_of p) 192 = rd32 (ptr_of arc_1100_body) 182"
  proof -
    have n: "p ! (192 + k) = arc_1100_body ! (182 + k)" "192 + k < length p" if "k < 20" for k
    proof -
      have "length ((h @ take 174 arc_1100_body) @ be32 v @ be32 v) = 192" using l assms(1) by simp
      then show "p ! (192 + k) = arc_1100_body ! (182 + k)"
        using that unfolding p append_assoc [symmetric] by (subst nth_append) (simp add: arc_1100_length)
      show "192 + k < length p" using that l assms(1) by (simp add: p arc_1100_length)
    qed
    show ?thesis using n [of 0] n [of 1] n [of 2] n [of 3] by (simp add: rd32_def ptr_of_def arc_1100_length)
  qed
  ultimately show "reply_value p 0x8205 = Some v" "reply_value p 0x8301 = Some v" "reply_value p 0x8306 = Some 250000"
    unfolding reply_value_def d body_key [OF ok] keys option.case by (simp_all add: body_rd16 [OF ok] keys)
qed

text \<open>
  C25: the property table follows the latency. In every state that requests can lead the
  server to, a property request is answered with the table whose two current values are the
  configured latency of that moment, and whose minimum is still a quarter of a millisecond.
\<close>

theorem properties_follow_latency:
  assumes "arc_reach a" "tx_wf nt" "net_arp_lookup (dg_src d) nt = (Some dmac, nt)" "g_arc_mirror_ip a = (0, 0, 0, 0)"
    and "req = ptr_of (dg_payload d)" "10 \<le> length (dg_payload d)" "rd16 req 8 = 0" "rd16 req 6 = OP_UNKNOWN_1100"
    and "arc_rx rd now g d a s nt = (a', s', nt')"
  shows "s' = s \<and> (\<exists>F p. wire nt' = wire nt @ [F] \<and> carries (dg_sport d) F p \<and> rd16 (ptr_of p) 8 = DANTE_CODE_OK \<and>
    reply_value p 0x8205 = Some (g_latency_ns s) \<and> reply_value p 0x8301 = Some (g_latency_ns s) \<and> reply_value p 0x8306 = Some 250000)"
proof -
  let ?a = "a\<lparr>ar_rx := ar_rx a + 1\<rparr>" and ?h = "[req 0, req 1, 0, 0, req 4, req 5, req 6, req 7, 0, 0]"
  let ?b = "current_body (g_latency_ns s) (arc_body a)" and ?m = "dante_msg_begin (drop 42 (tx_buf nt)) req"
  have ok: "body_ok (arc_body ?a)" "body_ok (arc_body a)" using arc_reach_body [OF assms(1)] by simp_all
  have m: "built ?m ?h" using tx_buf_len [OF assms(2)] by (intro built_begin) simp
  have b: "built (dante_msg_bytes ?b ?m) (?h @ ?b)" using m by (rule built_bytes)
  have l: "length ?b = 202" using properties_body(2) [OF ok(2)] by (simp add: body_ok_def)
  have "arc_dispatch rd now g (g_net_ip nt) req (length (dg_payload d)) ?a s ?m =
      (DANTE_CODE_OK, dante_msg_bytes ?b ?m, ?a\<lparr>arc_body := ?b\<rparr>, s)"
    using assms(8) properties_body(1) [OF ok(1), of s ?m]
    by (simp add: arc_dispatch_def Let_def dante_req_rd16 OP_GET_TX_CHANNELS_def OP_CHANNELS_AND_FLOWS_COUNT_def OP_GET_DEVICE_NAME_def
        OP_GET_DEVICE_NAMES_def OP_GET_TX_FRIENDLY_NAMES_def OP_GET_RX_CHANNELS_def OP_QUERY_TX_FLOWS_def OP_QUERY_RX_FLOWS_def
        OP_UNKNOWN_3300_def OP_UNKNOWN_1100_def)
  note x = arc_rx_sends [OF assms(2-7) this b _ _ assms(9)]
  let ?p = "flow_reply req DANTE_CODE_OK ?b"
  let ?H = "[req 0, req 1] @ be16 (of_nat (10 + length ?b)) @ [req 4, req 5, req 6, req 7] @ be16 DANTE_CODE_OK"
  have p: "?p = ?H @ ?b" "length ?H = 10" by (simp_all add: flow_reply_def)
  have "rd16 (ptr_of ?p) 8 = DANTE_CODE_OK"
    using rd16_at [of "[req 0, req 1] @ be16 (of_nat (10 + length ?b)) @ [req 4, req 5, req 6, req 7]" DANTE_CODE_OK ?b] by (simp add: flow_reply_def)
  then show ?thesis
    using x(1,3) l reply_value_current [OF p(2) ok(2) p(1)] by auto
qed

theorem properties_follow_latency_witness:
  "\<exists>a' s' nt' F p. arc_rx (\<lambda>_. 0) 5 (dante_dev_init (0, 0, 0, 0, 0, 1)) (arc_request OP_UNKNOWN_1100 []) arc0 boot_tx demo_net = (a', s', nt') \<and>
    wire nt' = wire demo_net @ [F] \<and> carries 5001 F p \<and> reply_value p 0x8301 = Some (g_latency_ns boot_tx)"
proof -
  let ?d = "arc_request OP_UNKNOWN_1100 []" and ?g = "dante_dev_init (0, 0, 0, 0, 0, 1)"
  obtain a' s' nt' where r: "arc_rx (\<lambda>_. 0) 5 ?g ?d arc0 boot_tx demo_net = (a', s', nt')" by (metis prod_cases3)
  have m: "g_arc_mirror_ip arc0 = (0, 0, 0, 0)" by (simp add: arc0_def)
  from properties_follow_latency [OF Arc_Boot demo_net_wf arc_request_known m refl arc_request_fields(1-3) r] r
  show ?thesis unfolding arc_request_fields(5) by blast
qed

text \<open>A request to set the latency: long enough, both copies equal, within 0.1 to 40 ms.\<close>

definition latency_request :: "datagram \<Rightarrow> u32 \<Rightarrow> bool" where
  "latency_request d x \<longleftrightarrow> 40 \<le> length (dg_payload d) \<and> rd32 (ptr_of (dg_payload d)) 32 = x \<and>
     rd32 (ptr_of (dg_payload d)) 36 = x \<and> 100000 \<le> x \<and> x \<le> 40000000"

text \<open>
  C24: a controller's latency takes effect at once. A well-formed request makes its value the
  configured latency, has the channels announced again, releases every flow exactly when the
  value is a new one, so that receivers ask again, and is answered with its own content; a
  request that is not well formed changes nothing and is refused.
\<close>

theorem latency_is_set:
  assumes "length (flows s) = N_FLOWS" "tx_wf nt" "net_arp_lookup (dg_src d) nt = (Some dmac, nt)" "g_arc_mirror_ip a = (0, 0, 0, 0)"
    and "req = ptr_of (dg_payload d)" "10 \<le> length (dg_payload d)" "length (dg_payload d) \<le> 1400" "rd16 req 8 = 0" "rd16 req 6 = 0x1101"
    and "arc_rx rd now g d a s nt = (a', s', nt')" "x = rd32 req 32"
  shows "\<exists>F code body. wire nt' = wire nt @ [F] \<and> carries (dg_sport d) F (flow_reply req code body) \<and>
    (if latency_request d x then code = DANTE_CODE_OK \<and> body = drop 10 (dg_payload d) \<and> g_latency_ns s' = x \<and>
        mdns_announces s' = mdns_announces s + 1 \<and>
        (if x = g_latency_ns s then flows s' = flows s else \<forall>i<N_FLOWS. \<not> in_use (flows s' ! i))
     else code = 0x22 \<and> body = [] \<and> s' = s)"
proof -
  let ?a = "a\<lparr>ar_rx := ar_rx a + 1\<rparr>" and ?h = "[req 0, req 1, 0, 0, req 4, req 5, req 6, req 7, 0, 0]"
  let ?m = "dante_msg_begin (drop 42 (tx_buf nt)) req" and ?c = "\<lambda>i. req (10 + i)" and ?k = "length (dg_payload d) - 10"
  have m: "built ?m ?h" using tx_buf_len [OF assms(2)] by (intro built_begin) simp
  have r: "rd32 ?c 22 = rd32 req 32" "rd32 ?c 26 = rd32 req 36" by (simp_all add: rd32_def)
  obtain code m' s1 where t: "arc_set_latency now ?c ?k s ?m = (code, m', s1)" by (metis prod_cases3)
  have dp: "arc_dispatch rd now g (g_net_ip nt) req (length (dg_payload d)) ?a s ?m = (code, m', ?a, s1)"
    using assms(9) t
    by (simp add: arc_dispatch_def Let_def dante_req_rd16 OP_GET_TX_CHANNELS_def OP_CHANNELS_AND_FLOWS_COUNT_def OP_GET_DEVICE_NAME_def
        OP_GET_DEVICE_NAMES_def OP_GET_TX_FRIENDLY_NAMES_def OP_GET_RX_CHANNELS_def OP_QUERY_TX_FLOWS_def OP_QUERY_RX_FLOWS_def
        OP_UNKNOWN_3300_def OP_UNKNOWN_1100_def OP_UNKNOWN_1102_def OP_UNKNOWN_2320_def DANTE_HDR_LEN_def)
  have lr: "latency_request d x \<longleftrightarrow> \<not> ?k < 30 \<and> x = rd32 req 36 \<and> \<not> x < 100000 \<and> \<not> x > 40000000"
    using assms(6) by (auto simp: latency_request_def assms(5,11) not_less)
  show ?thesis
  proof (cases "latency_request d x")
    case True
    let ?s = "mdns_announce (s\<lparr>g_latency_ns := x\<rparr>)" and ?body = "drop 10 (dg_payload d)"
    have "bytes_at ?c 0 ?k = ?body" using payload_content [OF assms(6)] assms(5) by simp
    then have e: "code = DANTE_CODE_OK" "m' = dante_msg_bytes ?body ?m" "s1 = (if x \<noteq> g_latency_ns s then dante_tx_drop_all now ?s else ?s)"
      using t True unfolding lr by (auto simp: arc_set_latency_def Let_def r assms(11) [symmetric])
    have b: "built m' (?h @ ?body)" unfolding e(2) using m by (rule built_bytes)
    have l: "length ?body \<le> 1390" using assms(7) by simp
    note x = arc_rx_sends [OF assms(2-6,8) dp b l _ assms(10), simplified]
    have "length (flows ?s) = N_FLOWS" using assms(1) by (simp add: mdns_announce_def)
    from drop_all_frees [OF this, of now] have "g_latency_ns s1 = x" "mdns_announces s1 = mdns_announces s + 1"
      "if x = g_latency_ns s then flows s1 = flows s else \<forall>i<N_FLOWS. \<not> in_use (flows s1 ! i)"
      by (auto simp: e(3) mdns_announce_def)
    then show ?thesis using x(1,3) e(1) True by auto
  next
    case False
    have e: "code = 0x22" "m' = ?m" "s1 = s"
      using t False unfolding lr by (auto simp: arc_set_latency_def Let_def r assms(11) [symmetric] split: if_splits)
    have "built m' (?h @ [])" unfolding e(2) using m by simp
    note x = arc_rx_sends [OF assms(2-6,8) dp this _ _ assms(10), simplified]
    show ?thesis using x(1,3) e(1,3) False by auto
  qed
qed

definition latency_content :: "u8 list" where
  "latency_content = replicate 22 0 @ be32 500000 @ be32 500000"

theorem latency_is_set_witness:
  "\<exists>a' s' nt' F body. arc_rx (\<lambda>_. 0) 5 (dante_dev_init (0, 0, 0, 0, 0, 1)) (arc_request 0x1101 latency_content) arc0 boot_tx demo_net =
      (a', s', nt') \<and> wire nt' = wire demo_net @ [F] \<and> g_latency_ns s' = 500000"
proof -
  let ?d = "arc_request 0x1101 latency_content" and ?g = "dante_dev_init (0, 0, 0, 0, 0, 1)"
  obtain a' s' nt' where r: "arc_rx (\<lambda>_. 0) 5 ?g ?d arc0 boot_tx demo_net = (a', s', nt')" by (metis prod_cases3)
  have m: "g_arc_mirror_ip arc0 = (0, 0, 0, 0)" by (simp add: arc0_def)
  have w: "length (flows boot_tx) = N_FLOWS" by (simp add: boot_tx_def N_FLOWS_def)
  have l: "length (dg_payload ?d) \<le> 1400" by (simp add: arc_request_fields latency_content_def)
  let ?H = "([0x28, 0x09] @ be16 40 @ [0x12, 0x34] @ be16 0x1101 @ [0, 0]) @ replicate 22 0"
  have pl: "dg_payload ?d = ?H @ be32 500000 @ be32 500000" by (simp add: arc_request_def latency_content_def del: replicate.simps)
  have "length ?H = 32" by simp
  then have v: "rd32 (ptr_of (dg_payload ?d)) 32 = 500000" "rd32 (ptr_of (dg_payload ?d)) 36 = 500000"
    using rd32_at [of ?H 500000 "be32 500000"] rd32_at [of "?H @ be32 500000" 500000 "[]"] unfolding pl by simp_all
  have "40 \<le> length (dg_payload ?d)" by (simp add: pl)
  then have v2: "latency_request ?d 500000" by (simp add: latency_request_def v)
  from latency_is_set [OF w demo_net_wf arc_request_known m refl arc_request_fields(1) l arc_request_fields(2,3) r v(1) [symmetric]] v2 r
  show ?thesis by auto
qed

end
