(* ===== verification/Dante_Arc_Subs.thy ===== *)
theory Dante_Arc_Subs
  imports Dante_Arc_Settings
begin

text \<open>
  The subscription of a receive channel: what a controller stores is what the list of receive
  channels reports; and the identifiers under which flows are listed.
\<close>

section \<open>The item of a receive channel\<close>

definition rx_label :: "nat \<Rightarrow> u8 list" where
  "rx_label idx = ascii ''Rx'' @ [of_nat (48 + idx)]"

text \<open>The strings of a subscription, and the fields that refer to them when they start at \<open>k\<close>.\<close>

definition sub_strings :: "u8 list \<Rightarrow> u8 list \<Rightarrow> u8 list" where
  "sub_strings name host = (if name = [] then [] else name @ [0] @ (if host = [] then [] else host @ [0]))"

definition sub_fields :: "nat \<Rightarrow> u8 list \<Rightarrow> u8 list \<Rightarrow> u16 \<times> u16 \<times> u32" where
  "sub_fields k name host = (if name = [] then (0, 0, 0)
     else (of_nat k, if host = [] then 0 else of_nat (k + length name + 1), SUB_STATUS_PENDING))"

definition rx_item :: "nat \<Rightarrow> u16 \<Rightarrow> nat \<Rightarrow> u8 list \<Rightarrow> u8 list \<Rightarrow> u8 list" where
  "rx_item idx common off name host =
    (case sub_fields (off + 4) name host of (t, h, status) \<Rightarrow>
       be16 (of_nat idx) @ be16 6 @ be16 common @ be16 t @ be16 h @ be16 (of_nat off) @
       be16 (ucast (drop_bit 16 status)) @ be16 (ucast status) @ be16 0 @ be16 0)"

lemma length_rx_item [simp]: "length (rx_item idx common off name host) = 20"
  by (simp add: rx_item_def split: prod.splits)

lemma length_rx_label [simp]: "length (rx_label idx) = 3"
  by (simp add: rx_label_def ascii_def)

lemma puts3:
  "length A = sl \<Longrightarrow> put (sl + 4) (be16 y) (put (sl + 2) (be16 x) (put (sl + 0) (be16 w) (A @ replicate 20 0 @ B))) =
     A @ (be16 w @ be16 x @ be16 y) @ replicate 14 0 @ B"
  by (simp add: numeral_eq_Suc be16_def put_skip put_skip_Cons put_0)

lemma puts7:
  "length A = sl \<Longrightarrow> length X = 6 \<Longrightarrow>
   put (sl + 18) (be16 x7) (put (sl + 16) (be16 x6) (put (sl + 14) (be16 x5) (put (sl + 12) (be16 x4) (put (sl + 10) (be16 x3)
     (put (sl + 8) (be16 x2) (put (sl + 6) (be16 x1) (A @ X @ replicate 14 0 @ B))))))) =
     A @ X @ (be16 x1 @ be16 x2 @ be16 x3 @ be16 x4 @ be16 x5 @ be16 x6 @ be16 x7) @ B"
  by (simp add: numeral_eq_Suc be16_def put_skip put_skip_Cons put_0)

lemma sub_built:
  assumes "built m v"
    and "r = (if name \<noteq> [] then
       let (t, m) = dante_msg_str name m; (h, m) = (if host \<noteq> [] then dante_msg_str host m else (0, m)) in (t, h, SUB_STATUS_PENDING, m)
     else (0, 0, 0, m))"
  shows "\<exists>t h status m'. r = (t, h, status, m') \<and> (t, h, status) = sub_fields (length v) name host \<and> built m' (v @ sub_strings name host)"
proof (cases "name = []")
  case True
  then show ?thesis using assms by (simp add: sub_fields_def sub_strings_def)
next
  case False
  obtain t m1 where s: "dante_msg_str name m = (t, m1)" by fastforce
  note b = built_str [OF assms(1) s]
  show ?thesis
  proof (cases "host = []")
    case True
    then show ?thesis using False s b assms(2) by (simp add: sub_fields_def sub_strings_def)
  next
    case h: False
    obtain u m2 where s2: "dante_msg_str host m1 = (u, m2)" by fastforce
    from built_str [OF b(2) s2] show ?thesis using False h s s2 b(1) assms(2) by (simp add: sub_fields_def sub_strings_def)
  qed
qed

lemma rx_channel_item_built:
  assumes "built m (A @ replicate 20 0 @ B)" "length A = page_slot pg" "common \<noteq> 0"
    and "rx_channel_item g a idx common pg m = (common', m')" "name = sub_tx_name a ! (idx - 1)" "host = sub_tx_host a ! (idx - 1)"
  shows "common' = common" "built m' (A @ rx_item idx common (length A + 20 + length B) name host @ B @ rx_label idx @ [0] @ sub_strings name host)"
proof -
  let ?sl = "page_slot pg" and ?X = "be16 (of_nat idx) @ be16 6 @ be16 common"
  obtain off m1 where s: "dante_msg_str (rx_label idx) m = (off, m1)" by fastforce
  note b = built_str [OF assms(1) s]
  let ?m2 = "put_u16_at ?sl 4 common (put_u16_at ?sl 2 6 (put_u16_at ?sl 0 (of_nat idx) m1))"
  have "built ?m2 (put (?sl + 4) (be16 common) (put (?sl + 2) (be16 6) (put (?sl + 0) (be16 (of_nat idx)) ((A @ replicate 20 0 @ B) @ rx_label idx @ [0]))))"
    using b(2) assms(2) by (intro built_slot) simp_all
  then have m2: "built ?m2 (A @ ?X @ replicate 14 0 @ B @ rx_label idx @ [0])"
    using puts3 [OF assms(2), of common 6 "of_nat idx" "B @ rx_label idx @ [0]"] by (simp del: replicate.simps)
  define r where "r = (if name \<noteq> [] then
       let (t, m) = dante_msg_str name ?m2; (h, m) = (if host \<noteq> [] then dante_msg_str host m else (0, m)) in (t, h, SUB_STATUS_PENDING, m)
     else (0, 0, 0, ?m2))"
  obtain t h status m3 where r: "r = (t, h, status, m3)" "(t, h, status) = sub_fields (length A + 20 + length B + 4) name host"
    "built m3 ((A @ ?X @ replicate 14 0 @ B @ rx_label idx @ [0]) @ sub_strings name host)"
    using sub_built [OF m2 r_def] by (auto simp: add.assoc)
  let ?w = "(A @ ?X @ replicate 14 0 @ B @ rx_label idx @ [0]) @ sub_strings name host"
  note r1 = r(1) [unfolded r_def assms(5,6) Let_def]
  have "rx_channel_item g a idx common pg m = (common, put_u16_at ?sl 18 0 (put_u16_at ?sl 16 0 (put_u16_at ?sl 14 (ucast status)
      (put_u16_at ?sl 12 (ucast (drop_bit 16 status)) (put_u16_at ?sl 10 off (put_u16_at ?sl 8 h (put_u16_at ?sl 6 t m3)))))))"
    unfolding rx_channel_item_def Let_def rx_label_def [symmetric] by (simp only: assms(3) if_False s prod.case r1)
  then have e: "common' = common" "m' = put_u16_at ?sl 18 0 (put_u16_at ?sl 16 0 (put_u16_at ?sl 14 (ucast status)
      (put_u16_at ?sl 12 (ucast (drop_bit 16 status)) (put_u16_at ?sl 10 off (put_u16_at ?sl 8 h (put_u16_at ?sl 6 t m3))))))"
    using assms(4) by simp_all
  show "common' = common" by (rule e(1))
  have "built m' (put (?sl + 18) (be16 0) (put (?sl + 16) (be16 0) (put (?sl + 14) (be16 (ucast status)) (put (?sl + 12) (be16 (ucast (drop_bit 16 status)))
      (put (?sl + 10) (be16 off) (put (?sl + 8) (be16 h) (put (?sl + 6) (be16 t) ?w)))))))"
    unfolding e(2) using r(3) assms(2) by (intro built_slot) simp_all
  moreover have "off = of_nat (length A + 20 + length B)" unfolding b(1) by (simp add: add.assoc)
  then have "rx_item idx common (length A + 20 + length B) name host = ?X @ be16 t @ be16 h @ be16 off @
      be16 (ucast (drop_bit 16 status)) @ be16 (ucast status) @ be16 0 @ be16 0"
    by (simp only: rx_item_def r(2) [symmetric] prod.case append_assoc)
  moreover have "length ?X = 6" by simp
  ultimately show "built m' (A @ rx_item idx common (length A + 20 + length B) name host @ B @ rx_label idx @ [0] @ sub_strings name host)"
    using puts7 [OF assms(2), of ?X 0 0 "ucast status" "ucast (drop_bit 16 status)" off h t "B @ rx_label idx @ [0] @ sub_strings name host"]
    by (simp only: append_assoc)
qed

section \<open>The list of receive channels\<close>

lemma first_rx_item:
  assumes "put_common_descriptor g m = (common, m1)" "common \<noteq> 0" "idx \<le> DANTE_RX_CHANNELS" "pg_actual pg < pg_space pg"
  shows "rx_channels g a idx 0 pg m = rx_channels g a idx common pg m1"
proof -
  have "rx_channel_item g a idx 0 pg m = rx_channel_item g a idx common pg m1"
    using assms(1,2) by (simp add: rx_channel_item_def)
  then show ?thesis using assms(3,4) by (subst (1 2) rx_channels.simps) simp
qed

lemma rx_step:
  assumes "built m v" "length v < 800" "idx \<le> DANTE_RX_CHANNELS" "pg_actual pg < pg_space pg" "rx_channel_item g a idx common pg m0 = (common, m)"
  shows "rx_channels g a idx common pg m0 = rx_channels g a (idx + 1) common (pg\<lparr>pg_actual := pg_actual pg + 1\<rparr>) m"
  using assms by (subst rx_channels.simps) (simp add: built_def PACKET_SIZE_SOFT_LIMIT_def)

definition rx_body :: "dante_dev \<Rightarrow> arc \<Rightarrow> u8 list" where
  "rx_body g a = (let n1 = sub_tx_name a ! 0; h1 = sub_tx_host a ! 0; n2 = sub_tx_name a ! 1; h2 = sub_tx_host a ! 1;
       s1 = sub_strings n1 h1 in
     [2, 2] @ rx_item 1 52 68 n1 h1 @ rx_item 2 52 (72 + length s1) n2 h2 @ common_bytes g @
       rx_label 1 @ [0] @ s1 @ rx_label 2 @ [0] @ sub_strings n2 h2)"

lemma sub_strings_short:
  "arc_wf a \<Longrightarrow> i < 2 \<Longrightarrow> length (sub_strings (sub_tx_name a ! i) (sub_tx_host a ! i)) \<le> 64"
proof -
  assume "arc_wf a" "i < 2"
  then have "length (sub_tx_name a ! i) \<le> 31" "length (sub_tx_host a ! i) \<le> 31" by (simp_all add: arc_wf_def)
  then show ?thesis by (simp add: sub_strings_def)
qed

lemma rx_page_built:
  assumes "built m h" "length h = 10" "arc_wf a" "page_start c clen = 1" "arc_rx_channels g a c clen m = (code, m')"
  shows "code = DANTE_CODE_OK" "built m' (h @ rx_body g a)"
proof -
  let ?n = "\<lambda>i. sub_tx_name a ! i" and ?h = "\<lambda>i. sub_tx_host a ! i"
  let ?s1 = "sub_strings (?n 0) (?h 0)" and ?s2 = "sub_strings (?n 1) (?h 1)"
  obtain pg m0 where b: "page_begin 20 2 m = (pg, m0)" by fastforce
  have pg: "pg = \<lparr>items_at = 12, item_size = 20, pg_space = 2, pg_actual = 0\<rparr>"
    using begin_built(2) [OF assms(1) b] assms(2) by simp
  have m0: "built m0 (h @ [2, 0] @ replicate 40 0)" using begin_built(1) [OF assms(1) b] by simp
  obtain common m1 where c: "put_common_descriptor g m0 = (common, m1)" by fastforce
  have m1: "common = 52" "built m1 ((h @ [2, 0] @ replicate 40 0) @ common_bytes g)"
    using common_built [OF m0 c] assms(2) by simp_all
  have cl: "length (common_bytes g) = 16" by (simp add: common_bytes_def)
  have sl: "length ?s1 \<le> 64" "length ?s2 \<le> 64" using sub_strings_short [OF assms(3)] by simp_all
  let ?pg1 = "pg\<lparr>pg_actual := 1\<rparr>" and ?pg2 = "pg\<lparr>pg_actual := 2\<rparr>"
  let ?A1 = "h @ [2, 0]" and ?B1 = "replicate 20 0 @ common_bytes g" and ?i1 = "rx_item 1 52 68 (?n 0) (?h 0)"
  let ?A2 = "?A1 @ ?i1" and ?B2 = "common_bytes g @ rx_label 1 @ [0] @ ?s1" and ?i2 = "rx_item 2 52 (72 + length ?s1) (?n 1) (?h 1)"
  have v1: "built m1 (?A1 @ replicate 20 0 @ ?B1)"
  proof -
    have "replicate 40 (0 :: u8) = replicate 20 0 @ replicate 20 0" by (simp add: replicate_add [symmetric])
    then show ?thesis using m1(2) by simp
  qed
  obtain c2 m2 where i1: "rx_channel_item g a 1 common pg m1 = (c2, m2)" by fastforce
  have nz: "common \<noteq> 0" by (simp add: m1(1))
  have a1: "length ?A1 = page_slot pg" by (simp add: page_slot_def pg assms(2))
  have e1: "length ?A1 + 20 + length ?B1 = 68" "(1 :: nat) - 1 = 0" using cl by (simp_all add: assms(2))
  note r1 = rx_channel_item_built [OF v1 a1 nz i1 refl refl, unfolded e1 m1(1)]
  have v2: "built m2 (?A2 @ replicate 20 0 @ ?B2)" using r1(2) by simp
  have a2: "length ?A2 = page_slot ?pg1" by (simp add: page_slot_def pg assms(2))
  obtain c3 m3 where i2: "rx_channel_item g a 2 common ?pg1 m2 = (c3, m3)" by fastforce
  have e2: "length ?A2 + 20 + length ?B2 = 72 + length ?s1" "(2 :: nat) - 1 = 1" using cl by (simp_all add: assms(2))
  note r2 = rx_channel_item_built [OF v2 a2 nz i2 refl refl, unfolded e2 m1(1)]
  have v3: "built m3 (?A2 @ ?i2 @ ?B2 @ rx_label 2 @ [0] @ ?s2)" by (rule r2(2))
  have le: "length (?A2 @ replicate 20 0 @ ?B2) < 800" "length (?A2 @ ?i2 @ ?B2 @ rx_label 2 @ [0] @ ?s2) < 800"
    using sl cl assms(2) by simp_all
  have "rx_channels g a 1 0 pg m0 = rx_channels g a 1 common pg m1"
    by (rule first_rx_item [OF c nz]) (simp_all add: pg DANTE_RX_CHANNELS_def)
  also have "\<dots> = rx_channels g a 2 common ?pg1 m2"
    using rx_step [OF v2 le(1), of 1 pg g a common m1] i1 r1(1) m1(1) by (simp add: pg DANTE_RX_CHANNELS_def numeral_2_eq_2)
  also have "\<dots> = rx_channels g a 3 common ?pg2 m3"
    using rx_step [OF v3 le(2), of 2 ?pg1 g a common m2] i2 r2(1) m1(1) by (simp add: pg DANTE_RX_CHANNELS_def numeral_eq_Suc)
  also have "\<dots> = (3, ?pg2, m3)" by (subst rx_channels.simps) (simp add: DANTE_RX_CHANNELS_def)
  finally have r: "code = page_code 3 2" "m' = page_end ?pg2 m3"
    using assms(4,5) b by (simp_all add: arc_rx_channels_def DANTE_RX_CHANNELS_def)
  show "code = DANTE_CODE_OK" by (simp add: r(1) page_code_def)
  have "built m3 (h @ [2, 0] @ (?i1 @ ?i2 @ ?B2 @ rx_label 2 @ [0] @ ?s2))" using v3 by simp
  from end_built [OF this, of ?pg2] show "built m' (h @ rx_body g a)"
    unfolding r(2) by (simp add: pg assms(2) rx_body_def Let_def)
qed

text \<open>Reading the item of a subscribed channel back.\<close>

lemma rx_item_read:
  assumes "p = P @ rx_item idx common off name host @ Q" "p = X @ name @ [0] @ (if host = [] then [] else host @ [0]) @ Y"
    and "length X = off + 4" "off < 1000" "name \<noteq> []" "length name \<le> 31" "0 \<notin> set name" "0 \<notin> set host"
  shows "rd16 (ptr_of p) (length P) = of_nat idx" "cstr_at p (unat (rd16 (ptr_of p) (length P + 6))) = name"
    "if host = [] then rd16 (ptr_of p) (length P + 8) = 0 else cstr_at p (unat (rd16 (ptr_of p) (length P + 8))) = host"
    "rd16 (ptr_of p) (length P + 12) = 0" "rd16 (ptr_of p) (length P + 14) = 1"
proof -
  let ?t = "of_nat (off + 4) :: u16" and ?u = "if host = [] then 0 else of_nat (off + 4 + length name + 1) :: u16"
  have it: "rx_item idx common off name host = be16 (of_nat idx) @ be16 6 @ be16 common @ be16 ?t @ be16 ?u @ be16 (of_nat off) @
      be16 0 @ be16 1 @ be16 0 @ be16 0"
    using assms(5) by (simp add: rx_item_def sub_fields_def SUB_STATUS_PENDING_def)
  have at: "rd16 (ptr_of (P @ A @ be16 v @ B)) (length P + length A) = v" for A B v
    using rd16_at [of "P @ A" v B] by simp
  show "rd16 (ptr_of p) (length P) = of_nat idx"
    using at [of "[]" "of_nat idx"] by (simp add: assms(1) it)
  have t: "rd16 (ptr_of p) (length P + 6) = ?t"
    using at [of "be16 (of_nat idx) @ be16 6 @ be16 common" ?t] by (simp add: assms(1) it)
  have u: "rd16 (ptr_of p) (length P + 8) = ?u"
    using at [of "be16 (of_nat idx) @ be16 6 @ be16 common @ be16 ?t" ?u] by (simp add: assms(1) it)
  show "rd16 (ptr_of p) (length P + 12) = 0"
    using at [of "be16 (of_nat idx) @ be16 6 @ be16 common @ be16 ?t @ be16 ?u @ be16 (of_nat off)" 0] by (simp add: assms(1) it)
  show "rd16 (ptr_of p) (length P + 14) = 1"
    using at [of "be16 (of_nat idx) @ be16 6 @ be16 common @ be16 ?t @ be16 ?u @ be16 (of_nat off) @ be16 0" 1] by (simp add: assms(1) it)
  have w: "unat (of_nat k :: u16) = k" if "k < 65536" for k using that by (simp only: unat_of_nat) simp
  have pe: "p = X @ name @ 0 # ((if host = [] then [] else host @ [0]) @ Y)" using assms(2) by simp
  have "cstr_at p (length X) = name" unfolding pe by (rule cstr_at_mid [OF assms(7)])
  moreover have "unat ?t = length X" using w [of "off + 4"] assms(3,4) by simp
  ultimately show "cstr_at p (unat (rd16 (ptr_of p) (length P + 6))) = name" by (simp only: t)
  show "if host = [] then rd16 (ptr_of p) (length P + 8) = 0 else cstr_at p (unat (rd16 (ptr_of p) (length P + 8))) = host"
  proof (cases "host = []")
    case False
    then have pe: "p = (X @ name @ [0]) @ host @ 0 # Y" using assms(2) by simp
    have "cstr_at p (length (X @ name @ [0])) = host" unfolding pe by (rule cstr_at_mid [OF assms(8)])
    moreover have "unat (rd16 (ptr_of p) (length P + 8)) = length (X @ name @ [0])"
      using w [of "off + 4 + length name + 1"] assms(3,4,6) False by (simp add: u)
    ultimately show ?thesis using False by simp
  qed (simp add: u)
qed

lemma sub_copy_cstr:
  assumes "off \<noteq> 0" "unat off < length xs"
  shows "sub_copy (ptr_of xs) (length xs) off = take 31 (cstr_at xs (unat off))"
proof -
  have "bytes_at (ptr_of xs) (unat off) (length xs - unat off) = drop (unat off) xs"
    by (intro nth_equalityI) (auto simp: bytes_at_def ptr_of_def less_diff_conv add.commute)
  then show ?thesis using assms by (simp add: sub_copy_def cstr_at_def DANTE_MAX_SUBNAME_def)
qed

lemma sub_copy_no_nul: "0 \<notin> set (sub_copy req len off)"
  by (auto simp: sub_copy_def dest!: in_set_takeD set_takeWhileD)

text \<open>The list of receive channels, read at the item of a subscribed channel.\<close>

lemma rx_body_read:
  assumes "ch = 1 \<or> ch = 2" "arc_wf a" "length H = 10" "p = H @ rx_body g a" "name = sub_tx_name a ! (ch - 1)"
    and "host = sub_tx_host a ! (ch - 1)" "name \<noteq> []" "0 \<notin> set name" "0 \<notin> set host" "k = 12 + 20 * (ch - 1)"
  shows "rd16 (ptr_of p) k = of_nat ch" "cstr_at p (unat (rd16 (ptr_of p) (k + 6))) = name"
    "if host = [] then rd16 (ptr_of p) (k + 8) = 0 else cstr_at p (unat (rd16 (ptr_of p) (k + 8))) = host"
    "rd16 (ptr_of p) (k + 12) = 0" "rd16 (ptr_of p) (k + 14) = 1"
proof -
  let ?n = "\<lambda>i. sub_tx_name a ! i" and ?h = "\<lambda>i. sub_tx_host a ! i"
  let ?s1 = "sub_strings (?n 0) (?h 0)" and ?s2 = "sub_strings (?n 1) (?h 1)"
  let ?i1 = "rx_item 1 52 68 (?n 0) (?h 0)" and ?i2 = "rx_item 2 52 (72 + length ?s1) (?n 1) (?h 1)"
  have cl: "length (common_bytes g) = 16" by (simp add: common_bytes_def)
  have nl: "length name \<le> 31" using assms(1,2,5) by (auto simp: arc_wf_def)
  have p: "p = H @ [2, 2] @ ?i1 @ ?i2 @ common_bytes g @ rx_label 1 @ [0] @ ?s1 @ rx_label 2 @ [0] @ ?s2"
    by (simp add: assms(4) rx_body_def Let_def)
  have all: "rd16 (ptr_of p) k = of_nat ch \<and> cstr_at p (unat (rd16 (ptr_of p) (k + 6))) = name \<and>
    (if host = [] then rd16 (ptr_of p) (k + 8) = 0 else cstr_at p (unat (rd16 (ptr_of p) (k + 8))) = host) \<and>
    rd16 (ptr_of p) (k + 12) = 0 \<and> rd16 (ptr_of p) (k + 14) = 1"
    using assms(1)
  proof
    assume c: "ch = 1"
    let ?P = "H @ [2, 2]" and ?X = "H @ [2, 2] @ ?i1 @ ?i2 @ common_bytes g @ rx_label 1 @ [0]"
    have "name = ?n 0" "host = ?h 0" using assms(5,6) c by simp_all
    then have e: "p = ?P @ rx_item 1 52 68 name host @ (?i2 @ common_bytes g @ rx_label 1 @ [0] @ ?s1 @ rx_label 2 @ [0] @ ?s2)"
      "p = ?X @ name @ [0] @ (if host = [] then [] else host @ [0]) @ (rx_label 2 @ [0] @ ?s2)"
      using p assms(7) by (simp_all add: sub_strings_def)
    have l: "length ?X = 68 + 4" "k = length ?P" "(68 :: nat) < 1000" using cl assms(3,10) c by simp_all
    show ?thesis using rx_item_read [OF e l(1,3) assms(7) nl assms(8,9)] unfolding c l(2) by blast
  next
    assume c: "ch = 2"
    let ?P = "H @ [2, 2] @ ?i1" and ?o = "72 + length ?s1"
      and ?X = "H @ [2, 2] @ ?i1 @ ?i2 @ common_bytes g @ rx_label 1 @ [0] @ ?s1 @ rx_label 2 @ [0]"
    have "name = ?n 1" "host = ?h 1" using assms(5,6) c by simp_all
    then have e: "p = ?P @ rx_item 2 52 ?o name host @ (common_bytes g @ rx_label 1 @ [0] @ ?s1 @ rx_label 2 @ [0] @ ?s2)"
      "p = ?X @ name @ [0] @ (if host = [] then [] else host @ [0]) @ []"
      using p assms(7) by (simp_all add: sub_strings_def)
    have l: "length ?X = ?o + 4" "k = length ?P" using cl assms(3,10) c by simp_all
    have "?o < 1000" using sub_strings_short [OF assms(2), of 0] by simp
    then show ?thesis using rx_item_read [OF e l(1) _ assms(7) nl assms(8,9)] unfolding c l(2) by blast
  qed
  then show "rd16 (ptr_of p) k = of_nat ch" "cstr_at p (unat (rd16 (ptr_of p) (k + 6))) = name"
    "if host = [] then rd16 (ptr_of p) (k + 8) = 0 else cstr_at p (unat (rd16 (ptr_of p) (k + 8))) = host"
    "rd16 (ptr_of p) (k + 12) = 0" "rd16 (ptr_of p) (k + 14) = 1" by blast+
qed

section \<open>Properties\<close>

lemma arc_wf_counts [simp]: "arc_wf (a\<lparr>ar_rx := x\<rparr>) = arc_wf a" "arc_wf (a\<lparr>ar_tx := y\<rparr>) = arc_wf a"
  by (simp_all add: arc_wf_def)

lemma subscribe_sends:
  assumes "tx_wf nt" "net_arp_lookup (dg_src d) nt = (Some dmac, nt)" "g_arc_mirror_ip a = (0, 0, 0, 0)"
    and "req = ptr_of (dg_payload d)" "18 \<le> length (dg_payload d)" "rd16 req 8 = 0" "rd16 req 6 = 0x3010"
    and "arc_rx rd now g d a s nt = (a', s', nt')"
  shows "a' = (arc_subscribe req (length (dg_payload d)) (a\<lparr>ar_rx := ar_rx a + 1\<rparr>))\<lparr>ar_tx := ar_tx a + 1\<rparr>" "s' = s"
proof -
  let ?a = "a\<lparr>ar_rx := ar_rx a + 1\<rparr>" and ?m = "dante_msg_begin (drop 42 (tx_buf nt)) req"
  let ?a1 = "arc_subscribe req (length (dg_payload d)) ?a" and ?h = "[req 0, req 1, 0, 0, req 4, req 5, req 6, req 7, 0, 0]"
  have b: "built ?m (?h @ [])" using built_begin [of "drop 42 (tx_buf nt)" req] tx_buf_len [OF assms(1)] by simp
  have dp: "arc_dispatch rd now g (g_net_ip nt) req (length (dg_payload d)) ?a s ?m = (DANTE_CODE_OK, ?m, ?a1, s)"
    using assms(7)
    by (simp add: arc_dispatch_def Let_def dante_req_rd16 OP_GET_TX_CHANNELS_def OP_CHANNELS_AND_FLOWS_COUNT_def OP_GET_DEVICE_NAME_def
        OP_GET_DEVICE_NAMES_def OP_GET_TX_FRIENDLY_NAMES_def OP_GET_RX_CHANNELS_def OP_QUERY_TX_FLOWS_def OP_QUERY_RX_FLOWS_def
        OP_UNKNOWN_3300_def OP_UNKNOWN_1100_def OP_UNKNOWN_1102_def)
  have k: "g_arc_mirror_ip ?a1 = g_arc_mirror_ip a" "ar_tx ?a1 = ar_tx a"
    using dispatch_mirror [OF dp] dispatch_counts [OF dp] by simp_all
  have l: "10 \<le> length (dg_payload d)" "length [] \<le> (1390 :: nat)" using assms(5) by simp_all
  show "a' = ?a1\<lparr>ar_tx := ar_tx a + 1\<rparr>" "s' = s"
    using arc_rx_sends(1,2) [OF assms(1-4) l(1) assms(6) dp b l(2) k(1) assms(8)] k(2) by simp_all
qed

text \<open>
  C23: a subscription is remembered. After a request that subscribes receive channel \<open>ch\<close> to
  a channel and a host, both named by strings of the request, the list of receive channels
  asked for next, whatever happened to the network and the talker in between, shows both names
  under that channel (their first 31 bytes) and the state of a pending subscription.
\<close>

theorem subscription_read_back:
  assumes "tx_wf nt" "net_arp_lookup (dg_src d) nt = (Some dmac, nt)" "arc_wf a" "g_arc_mirror_ip a = (0, 0, 0, 0)"
    and "req = ptr_of (dg_payload d)" "18 \<le> length (dg_payload d)" "rd16 req 8 = 0" "rd16 req 6 = 0x3010"
    and "ch = unat (rd16 req 12)" "ch = 1 \<or> ch = 2" "noff = rd16 req 14" "hoff = rd16 req 16"
    and "noff \<noteq> 0" "unat noff < length (dg_payload d)" "hoff \<noteq> 0" "unat hoff < length (dg_payload d)"
    and "name = take 31 (cstr_at (dg_payload d) (unat noff))" "host = take 31 (cstr_at (dg_payload d) (unat hoff))" "name \<noteq> []" "host \<noteq> []"
    and "arc_rx rd now g d a s nt = (a1, s1, nt1)"
    and "tx_wf nu" "net_arp_lookup (dg_src e) nu = (Some emac, nu)" "10 \<le> length (dg_payload e)" "rd16 (ptr_of (dg_payload e)) 8 = 0"
    and "rd16 (ptr_of (dg_payload e)) 6 = OP_GET_RX_CHANNELS"
    and "page_start (\<lambda>i. ptr_of (dg_payload e) (10 + i)) (length (dg_payload e) - 10) = 1"
    and "arc_rx rd2 now2 g e a1 s2 nu = (a2, s3, nu2)"
  shows "\<exists>F p. wire nu2 = wire nu @ [F] \<and> carries (dg_sport e) F p \<and> rd16 (ptr_of p) (12 + 20 * (ch - 1)) = of_nat ch \<and>
    cstr_at p (unat (rd16 (ptr_of p) (12 + 20 * (ch - 1) + 6))) = name \<and>
    cstr_at p (unat (rd16 (ptr_of p) (12 + 20 * (ch - 1) + 8))) = host \<and> rd16 (ptr_of p) (12 + 20 * (ch - 1) + 14) = 1"
proof -
  let ?xs = "dg_payload d" and ?ereq = "ptr_of (dg_payload e)" and ?a = "a1\<lparr>ar_rx := ar_rx a1 + 1\<rparr>"
  let ?m = "dante_msg_begin (drop 42 (tx_buf nu)) ?ereq" and ?c = "\<lambda>i. ?ereq (10 + i)"
  let ?h = "[?ereq 0, ?ereq 1, 0, 0, ?ereq 4, ?ereq 5, ?ereq 6, ?ereq 7, 0, 0]"
  note sub = subscribe_sends(1) [OF assms(1,2,4-8,21)]
  have cp: "sub_copy req (length ?xs) noff = name" "sub_copy req (length ?xs) hoff = host"
    using sub_copy_cstr [OF assms(13,14)] sub_copy_cstr [OF assms(15,16)] by (simp_all add: assms(5,17,18))
  have rq: "dante_req_u16 (\<lambda>i. req (10 + i)) 2 = rd16 req 12" "dante_req_u16 (\<lambda>i. req (10 + i)) 4 = noff"
    "dante_req_u16 (\<lambda>i. req (10 + i)) 6 = hoff" by (simp_all add: dante_req_rd16 rd16_def assms(11,12))
  have "\<not> length ?xs - 10 < 8" "ch \<le> DANTE_RX_CHANNELS" using assms(6,10) by (auto simp: DANTE_RX_CHANNELS_def)
  then have st: "sub_tx_name a1 = (sub_tx_name a)[ch - 1 := name]" "sub_tx_host a1 = (sub_tx_host a)[ch - 1 := host]" "g_arc_mirror_ip a1 = (0, 0, 0, 0)"
    using assms(4,10) unfolding sub arc_subscribe_def Let_def DANTE_HDR_LEN_def rq assms(9) [symmetric] cp by auto
  have wf: "arc_wf ?a" unfolding sub by (simp add: arc_subscribe_wf assms(3))
  have nm: "sub_tx_name ?a ! (ch - 1) = name" "sub_tx_host ?a ! (ch - 1) = host"
    using assms(3,10) by (auto simp: st arc_wf_def)
  have nn: "0 \<notin> set name" "0 \<notin> set host" using sub_copy_no_nul cp by blast+
  obtain code m' where r: "arc_rx_channels g ?a ?c (length (dg_payload e) - 10) ?m = (code, m')" by fastforce
  have m: "built ?m ?h" using tx_buf_len [OF assms(22)] by (intro built_begin) simp
  have t: "code = DANTE_CODE_OK" "built m' (?h @ rx_body g ?a)" using rx_page_built [OF m _ wf assms(27) r] by simp_all
  have dp: "arc_dispatch rd2 now2 g (g_net_ip nu) ?ereq (length (dg_payload e)) ?a s2 ?m = (code, m', ?a, s2)"
    using assms(26) r
    by (simp add: arc_dispatch_def Let_def dante_req_rd16 OP_GET_TX_CHANNELS_def OP_CHANNELS_AND_FLOWS_COUNT_def OP_GET_DEVICE_NAME_def
        OP_GET_DEVICE_NAMES_def OP_GET_TX_FRIENDLY_NAMES_def OP_GET_RX_CHANNELS_def DANTE_HDR_LEN_def)
  have l: "length (rx_body g ?a) \<le> 1390"
    using sub_strings_short [OF wf, of 0] sub_strings_short [OF wf, of 1] by (simp add: rx_body_def Let_def common_bytes_def)
  obtain F where F: "wire nu2 = wire nu @ [F]" "carries (dg_sport e) F (flow_reply ?ereq code (rx_body g ?a))"
    using arc_rx_sends(3) [OF assms(22,23) st(3) refl assms(24,25) dp t(2) l _ assms(28)] by auto
  let ?H = "[?ereq 0, ?ereq 1] @ be16 (of_nat (10 + length (rx_body g ?a))) @ [?ereq 4, ?ereq 5, ?ereq 6, ?ereq 7] @ be16 code"
  have p: "length ?H = 10" "flow_reply ?ereq code (rx_body g ?a) = ?H @ rx_body g ?a" by (simp_all add: flow_reply_def)
  note x = rx_body_read [OF assms(10) wf p nm(1,2) [symmetric] assms(19) nn refl]
  from x(3) have "cstr_at (flow_reply ?ereq code (rx_body g ?a)) (unat (rd16 (ptr_of (flow_reply ?ereq code (rx_body g ?a)))
      (12 + 20 * (ch - 1) + 8))) = host" unfolding if_not_P [OF assms(20)] .
  with F x(1,2,5) show ?thesis by blast
qed

text \<open>A subscription of channel 2 to channel \<open>01\<close> of \<open>A\<close>.\<close>

definition subscribe_content :: "u8 list" where
  "subscribe_content = [2, 1, 0, 2, 0, 20, 0, 23, 0, 0, 48, 49, 0, 65, 0]"

theorem subscription_read_back_witness:
  "\<exists>a1 s1 nt1 a2 s3 nu2 F p. arc_rx (\<lambda>_. 0) 5 (dante_dev_init (0, 0, 0, 0, 0, 1)) (arc_request 0x3010 subscribe_content) arc0 boot_tx demo_net = (a1, s1, nt1) \<and>
    arc_rx (\<lambda>_. 0) 5 (dante_dev_init (0, 0, 0, 0, 0, 1)) (arc_request OP_GET_RX_CHANNELS []) a1 boot_tx demo_net = (a2, s3, nu2) \<and>
    wire nu2 = wire demo_net @ [F] \<and> carries 5001 F p \<and> cstr_at p (unat (rd16 (ptr_of p) (12 + 20 * (2 - 1) + 6))) = [48, 49]"
proof -
  let ?g = "dante_dev_init (0, 0, 0, 0, 0, 1)" and ?d = "arc_request 0x3010 subscribe_content" and ?e = "arc_request OP_GET_RX_CHANNELS []"
  obtain a1 s1 nt1 where r1: "arc_rx (\<lambda>_. 0) 5 ?g ?d arc0 boot_tx demo_net = (a1, s1, nt1)" by (metis prod_cases3)
  obtain a2 s3 nu2 where r2: "arc_rx (\<lambda>_. 0) 5 ?g ?e a1 boot_tx demo_net = (a2, s3, nu2)" by (metis prod_cases3)
  have m: "g_arc_mirror_ip arc0 = (0, 0, 0, 0)" by (simp add: arc0_def)
  have pl: "dg_payload ?d = [0x28, 0x09, 0, 25, 0x12, 0x34, 0x30, 0x10, 0, 0, 2, 1, 0, 2, 0, 20, 0, 23, 0, 0, 48, 49, 0, 65, 0]"
    by (simp add: arc_request_def subscribe_content_def be16_def)
  have v: "18 \<le> length (dg_payload ?d)" "unat (rd16 (ptr_of (dg_payload ?d)) 12) = 2" "rd16 (ptr_of (dg_payload ?d)) 14 = 20"
    "rd16 (ptr_of (dg_payload ?d)) 16 = 23" by (simp_all add: pl rd16_def ptr_of_def)
  have n: "take 31 (cstr_at (dg_payload ?d) (unat (20 :: u16))) = [48, 49]" "take 31 (cstr_at (dg_payload ?d) (unat (23 :: u16))) = [65]"
    by (simp_all add: pl cstr_at_def)
  have k: "unat (20 :: u16) < length (dg_payload ?d)" "unat (23 :: u16) < length (dg_payload ?d)" "(20 :: u16) \<noteq> 0" "(23 :: u16) \<noteq> 0"
    by (simp_all add: pl)
  have st: "page_start (\<lambda>i. ptr_of (dg_payload ?e) (10 + i)) (length (dg_payload ?e) - 10) = 1"
    by (simp add: page_start_def arc_request_fields)
  have two: "(2 :: nat) = 1 \<or> (2 :: nat) = 2" by simp
  from subscription_read_back [OF demo_net_wf arc_request_known arc0_wf m refl v(1) arc_request_fields(2,3) v(2) [symmetric] two v(3,4) [symmetric]
      k(3,1) k(4,2) n [symmetric] _ _ r1 demo_net_wf arc_request_known arc_request_fields(1-3) st r2] r1 r2
  show ?thesis unfolding arc_request_fields(5) by auto
qed

end
