(* ===== verification/Dante_Arc_Flows.thy ===== *)
theory Dante_Arc_Flows
  imports Dante_Arc_Subs
begin

text \<open>
  Multicast flows a controller creates and deletes through the ARC server, and the identifiers
  under which flows are listed.
\<close>

section \<open>Binding a multicast flow\<close>

text \<open>The slot a multicast bind leaves.\<close>

definition mcast_slot :: "u32 \<Rightarrow> u16 \<Rightarrow> u16 list \<Rightarrow> u8 \<Rightarrow> ip4 \<Rightarrow> flow_slot \<Rightarrow> bool" where
  "mcast_slot now eid chans n dip x \<longleftrightarrow> in_use x \<and> fl_mcast x \<and> ext_id x = eid \<and> fl_nslots x = n \<and> fl_dst x = dip \<and>
     fl_dport x = DANTE_PORT_MEDIA \<and> fl_chans x = map (\<lambda>i. if i < unat n then chans ! i else 0) [0..<8]"

lemma bind_multicast_slot:
  assumes "table_wf s" "n \<noteq> 0" "n \<le> 8" "dante_tx_bind_multicast rd now our eid chans n s = (r, s')"
    and "\<forall>i<N_FLOWS. in_use (flows s ! i) \<longrightarrow> ext_id (flows s ! i) \<noteq> eid"
  obtains f x where "f < N_FLOWS" "r = int f" "flows s' = (flows s)[f := x]" "mcast_slot now eid chans n (flow_ip s ! f) x"
    "first_slot (\<lambda>x. \<not> in_use x) s = Some k \<Longrightarrow> f = k"
proof -
  have none: "first_slot (\<lambda>x. in_use x \<and> fl_mcast x \<and> ext_id x = eid) s = None" using assms(5) by (auto simp: first_slot_None)
  let ?old = "oldest_any (\<lambda>age. if age > 3600000 then 3600000 else age) now s"
  define f where "f = (case first_slot (\<lambda>x. \<not> in_use x) s of Some f \<Rightarrow> f | None \<Rightarrow> ?old)"
  define t where "t = (case first_slot (\<lambda>x. \<not> in_use x) s of Some f \<Rightarrow> s | None \<Rightarrow> snd (dante_tx_unbind ?old now s))"
  have fl: "f < N_FLOWS" using oldest_any_less first_slot_Some by (auto simp: f_def split: option.splits)
  have wf: "length (flows s) = N_FLOWS" using assms(1) by (simp add: table_wf_def)
  have t: "(\<exists>y. flows t = (flows s)[f := y]) \<and> flow_ip t = flow_ip s \<and> g_mcast_fpp t = g_mcast_fpp s"
  proof (cases "first_slot (\<lambda>x. \<not> in_use x) s")
    case None
    then have "\<forall>i<N_FLOWS. in_use (flows s ! i)" by (simp add: first_slot_None)
    then have "in_use (flows s ! ?old)" using oldest_any_less by blast
    then have "flows t = (flows s)[f := (flows s ! f)\<lparr>in_use := False\<rparr>] \<and> flow_ip t = flow_ip s \<and> g_mcast_fpp t = g_mcast_fpp s"
      using None oldest_any_less wf
      by (simp add: t_def f_def dante_tx_unbind_def upd_flow_def upd_ctx_def log_event_def not_le [symmetric])
    then show ?thesis by blast
  next
    case (Some k)
    then show ?thesis by (auto simp: t_def f_def intro!: exI [of _ "flows s ! k"])
  qed
  then obtain y where y: "flows t = (flows s)[f := y]" "flow_ip t = flow_ip s" by blast
  have ft: "(case first_slot (\<lambda>x. in_use x \<and> fl_mcast x \<and> ext_id x = eid) s of Some f \<Rightarrow> (f, s)
      | None \<Rightarrow> (case first_slot (\<lambda>x. \<not> in_use x) s of Some f \<Rightarrow> (f, s)
         | None \<Rightarrow> let f = ?old in (f, snd (dante_tx_unbind f now s)))) = (f, t)"
    by (simp add: none f_def t_def Let_def split: option.splits)
  define t2 where "t2 = write_ctx rd our f (flow_ip t ! f) (mcast_dmac (flow_ip t ! f)) DANTE_PORT_MEDIA chans n (ucast (g_mcast_fpp t)) t"
  let ?x = "(y\<lparr>in_use := True, fl_dst := flow_ip t ! f, fl_dport := DANTE_PORT_MEDIA\<rparr>)\<lparr>fl_nslots := n, fl_fpp := ucast (g_mcast_fpp t2), fl_mcast := True,
      ext_id := eid, fl_chans := map (\<lambda>i. if i < unat n then chans ! i else 0) [0..<8], last_ms := now\<rparr>"
  have "\<not> (n = 0 \<or> n > 8)" using assms(2,3) by auto
  then have rs: "r = int f" "flows s' = (flows s)[f := ?x]"
    using assms(4) y fl wf unfolding dante_tx_bind_multicast_def ft
    by (auto simp: Let_def t2_def [symmetric] upd_flow_def mdns_announce_def) (simp_all add: t2_def)
  have "mcast_slot now eid chans n (flow_ip s ! f) ?x" by (simp add: mcast_slot_def y)
  then show thesis using that [OF fl rs] by (simp add: f_def)
qed

section \<open>A create request\<close>

text \<open>A request that names one flow: its item's offset, and there its id, type and channels.\<close>

definition create_request :: "datagram \<Rightarrow> u16 \<Rightarrow> u16 list \<Rightarrow> bool" where
  "create_request d fid chans \<longleftrightarrow>
    (let req = ptr_of (dg_payload d); len = length (dg_payload d); off = unat (rd16 req 12) in
     14 \<le> len \<and> req 11 = 1 \<and> 10 \<le> off \<and> off + 16 + 2 * length chans \<le> len \<and> rd16 req off = fid \<and> rd16 req (off + 2) = 2 \<and>
     rd16 req (off + 14) = of_nat (length chans) \<and> chans = map (\<lambda>k. rd16 req (off + 16 + 2 * k)) [0..<length chans] \<and>
     fid \<noteq> 0 \<and> 0 < length chans \<and> length chans \<le> 8)"

lemma create_one:
  assumes "create_request d fid chans" "req = ptr_of (dg_payload d)" "c = (\<lambda>i. req (10 + i))" "clen = length (dg_payload d) - 10"
    and "dante_tx_bind_multicast rd now ip fid chans (of_nat (length chans)) s = (int f, s1)"
  shows "mcast_create rd now ip c clen [0..<(if clen \<ge> 2 then unat (c 1) else 0)] [] DANTE_CODE_OK s = ([fid], DANTE_CODE_OK, s1)"
proof -
  let ?off = "unat (rd16 req 12)" and ?n = "length chans"
  have q: "14 \<le> length (dg_payload d)" "req 11 = 1" "10 \<le> ?off" "?off + 16 + 2 * ?n \<le> length (dg_payload d)" "rd16 req ?off = fid"
    "rd16 req (?off + 2) = 2" "rd16 req (?off + 14) = of_nat ?n" "chans = map (\<lambda>k. rd16 req (?off + 16 + 2 * k)) [0..<?n]"
    "fid \<noteq> 0" "0 < ?n" "?n \<le> 8"
    using assms(1) unfolding create_request_def Let_def assms(2) [symmetric] by blast+
  have one: "c 1 = 1" "clen \<ge> 2" using q(1,2) by (simp_all add: assms(3,4))
  have at: "dante_req_u16 c k = rd16 req (10 + k)" for k by (simp add: assms(3) dante_req_rd16 rd16_def)
  have l: "\<not> (length [] \<ge> (8 :: nat) \<or> 2 + 0 * 2 + 2 > clen)" using q(1) by (simp add: assms(4))
  have o: "dante_req_u16 c (2 + 0 * 2) = rd16 req 12" by (simp add: at)
  have w: "\<not> (?off < DANTE_HDR_LEN \<or> ?off - DANTE_HDR_LEN + 16 > clen)" using q(3,4) by (auto simp: DANTE_HDR_LEN_def assms(4))
  have e: "10 + (?off - DANTE_HDR_LEN) = ?off" "10 + (?off - DANTE_HDR_LEN + k) = ?off + k" for k using q(3) by (simp_all add: DANTE_HDR_LEN_def)
  have un: "unat (of_nat ?n :: u16) = ?n" "(ucast (of_nat ?n :: u16) :: u8) = of_nat ?n"
    using q(11) by (simp_all add: unsigned_of_nat take_bit_nat_eq_self)
  have g: "dante_req_u16 c (?off - DANTE_HDR_LEN) = fid" "dante_req_u16 c (?off - DANTE_HDR_LEN + 2) = 2"
    "dante_req_u16 c (?off - DANTE_HDR_LEN + 14) = of_nat ?n" by (simp_all only: at e q(5-7))
  have ch: "map (\<lambda>k. dante_req_u16 c (?off - DANTE_HDR_LEN + 16 + 2 * k)) [0..<?n] = chans"
  proof -
    have "10 + (?off - DANTE_HDR_LEN + 16 + 2 * k) = ?off + 16 + 2 * k" for k using q(3) by (simp add: DANTE_HDR_LEN_def)
    then have "map (\<lambda>k. dante_req_u16 c (?off - DANTE_HDR_LEN + 16 + 2 * k)) [0..<?n] = map (\<lambda>k. rd16 req (?off + 16 + 2 * k)) [0..<?n]"
      by (simp only: at)
    also have "\<dots> = chans" by (rule q(8) [symmetric])
    finally show ?thesis .
  qed
  have nz: "\<not> ((of_nat ?n :: u16) = 0 \<or> (of_nat ?n :: u16) > 8 \<or> ?off - DANTE_HDR_LEN + 16 + 2 * ?n > clen)"
    using q(3,4,10,11) un(1) by (auto simp: word_less_nat_alt DANTE_HDR_LEN_def assms(4) simp flip: unat_eq_zero)
  have "\<not> int f < 0" "\<not> (2 \<noteq> (2 :: u16) \<or> fid = 0)" using q(9) by simp_all
  then have "mcast_create rd now ip c clen [0] [] DANTE_CODE_OK s = ([fid], DANTE_CODE_OK, s1)"
    unfolding mcast_create.simps if_not_P [OF l] o Let_def if_not_P [OF w] g un ch if_not_P [OF nz] assms(5) prod.case by simp
  then show ?thesis using one by simp
qed

section \<open>Properties\<close>

lemma delete_one:
  assumes "length (flows s) = N_FLOWS" "f < N_FLOWS" "mcast_slot now eid chans n dip (flows s ! f)" "eid \<noteq> 0"
    and "\<forall>i<N_FLOWS. i \<noteq> f \<longrightarrow> in_use (flows s ! i) \<longrightarrow> ext_id (flows s ! i) \<noteq> eid"
  shows "flows (mcast_delete t s eid) = (flows s)[f := (flows s ! f)\<lparr>in_use := False\<rparr>]"
    "dante_tx_mcast_by_id eid s = Some (dip, n)" "dante_tx_mcast_by_id eid (mcast_delete t s eid) = None"
proof -
  have x: "in_use (flows s ! f)" "fl_mcast (flows s ! f)" "ext_id (flows s ! f) = eid" "fl_dst (flows s ! f) = dip" "fl_nslots (flows s ! f) = n"
    using assms(3) by (simp_all add: mcast_slot_def)
  have "first_slot (\<lambda>x. in_use x \<and> ext_id x = eid) s = Some f" "first_slot (\<lambda>x. in_use x \<and> fl_mcast x \<and> ext_id x = eid) s = Some f"
    using x assms(2,5) by (intro first_slot_first; force)+
  then have c: "dante_tx_ctx_for_id eid s = int f" "dante_tx_mcast_by_id eid s = Some (dip, n)"
    by (simp_all add: dante_tx_ctx_for_id_def dante_tx_mcast_by_id_def x)
  show "dante_tx_mcast_by_id eid s = Some (dip, n)" by (rule c(2))
  show d: "flows (mcast_delete t s eid) = (flows s)[f := (flows s ! f)\<lparr>in_use := False\<rparr>]"
    using unbind_keeps(1) [OF assms(1,2) x(1)] assms(4) by (simp add: mcast_delete_def c(1))
  have "first_slot (\<lambda>x. in_use x \<and> fl_mcast x \<and> ext_id x = eid) (mcast_delete t s eid) = None"
    unfolding first_slot_None d using assms(1,2,5) by (auto simp: nth_list_update)
  then show "dante_tx_mcast_by_id eid (mcast_delete t s eid) = None" by (simp add: dante_tx_mcast_by_id_def)
qed

lemma create_sends:
  assumes "table_wf s" "\<forall>i<N_FLOWS. in_use (flows s ! i) \<longrightarrow> ext_id (flows s ! i) \<noteq> fid" "create_request d fid chans"
    and "tx_wf nt" "net_arp_lookup (dg_src d) nt = (Some dmac, nt)" "g_arc_mirror_ip a = (0, 0, 0, 0)" "req = ptr_of (dg_payload d)"
    and "rd16 req 8 = 0" "rd16 req 6 = 0x2201" "arc_rx rd now g d a s nt = (a1, s1, nt1)"
  obtains f x where "f < N_FLOWS" "flows s1 = (flows s)[f := x]" "mcast_slot now fid chans (of_nat (length chans)) (flow_ip s ! f) x"
    "first_slot (\<lambda>x. \<not> in_use x) s = Some k \<Longrightarrow> f = k" "g_arc_mirror_ip a1 = (0, 0, 0, 0)"
    "\<exists>F. wire nt1 = wire nt @ [F] \<and> carries (dg_sport d) F (flow_reply req DANTE_CODE_OK (be16 1 @ be16 0 @ be16 fid))"
proof -
  let ?a = "a\<lparr>ar_rx := ar_rx a + 1\<rparr>" and ?m = "dante_msg_begin (drop 42 (tx_buf nt)) req" and ?c = "\<lambda>i. req (10 + i)"
  let ?h = "[req 0, req 1, 0, 0, req 4, req 5, req 6, req 7, 0, 0]" and ?clen = "length (dg_payload d) - 10"
  have len: "14 \<le> length (dg_payload d)" "0 < length chans" "length chans \<le> 8"
    using assms(3) unfolding create_request_def Let_def by blast+
  obtain r s2 where b: "dante_tx_bind_multicast rd now (g_net_ip nt) fid chans (of_nat (length chans)) s = (r, s2)" by fastforce
  have n: "(of_nat (length chans) :: u8) \<noteq> 0" "(of_nat (length chans) :: u8) \<le> 8"
    using len(2,3) by (auto simp: word_le_nat_alt unat_of_nat simp flip: unat_eq_zero)
  obtain f x where f: "f < N_FLOWS" "r = int f" "flows s2 = (flows s)[f := x]" "mcast_slot now fid chans (of_nat (length chans)) (flow_ip s ! f) x"
    "first_slot (\<lambda>x. \<not> in_use x) s = Some k \<Longrightarrow> f = k" using bind_multicast_slot [OF assms(1) n b assms(2)] by blast
  note cr = create_one [OF assms(3,7) refl refl b [unfolded f(2)]]
  let ?m1 = "dante_msg_u16 fid (dante_msg_u16 0 (dante_msg_u16 1 ?m))"
  have m: "arc_mcast_create rd now (g_net_ip nt) ?c ?clen s ?m = (DANTE_CODE_OK, ?m1, s2)"
    unfolding arc_mcast_create_def Let_def cr prod.case by simp
  have "built ?m ?h" using tx_buf_len [OF assms(4)] by (intro built_begin) simp
  then have "built ?m1 (((?h @ be16 1) @ be16 0) @ be16 fid)" by (intro built_appends)
  then have bm: "built ?m1 (?h @ be16 1 @ be16 0 @ be16 fid)" by (simp only: append_assoc)
  have dp: "arc_dispatch rd now g (g_net_ip nt) req (length (dg_payload d)) ?a s ?m = (DANTE_CODE_OK, ?m1, ?a, s2)"
    using assms(9) m
    by (simp add: arc_dispatch_def Let_def dante_req_rd16 OP_GET_TX_CHANNELS_def OP_CHANNELS_AND_FLOWS_COUNT_def OP_GET_DEVICE_NAME_def
        OP_GET_DEVICE_NAMES_def OP_GET_TX_FRIENDLY_NAMES_def OP_GET_RX_CHANNELS_def OP_QUERY_TX_FLOWS_def DANTE_HDR_LEN_def)
  have l: "10 \<le> length (dg_payload d)" "length (be16 1 @ be16 0 @ be16 fid) \<le> 1390" using len(1) by simp_all
  note y = arc_rx_sends [OF assms(4-7) l(1) assms(8) dp bm l(2) _ assms(10)]
  show thesis using that [OF f(1) _ f(4,5)] f(3) y assms(6) by simp
qed

text \<open>
  C26: a multicast flow is created and deleted by its handle. A request for a flow under a
  handle not in use binds one slot with the group of that slot and the channels asked for,
  touches no other slot, and is answered with the handle; the flow is then found under the
  handle; a request to delete the handle frees that slot and no other, and the handle finds
  nothing.
\<close>

theorem multicast_created_and_deleted:
  assumes "table_wf s" "\<forall>i<N_FLOWS. in_use (flows s ! i) \<longrightarrow> ext_id (flows s ! i) \<noteq> fid" "create_request d fid chans"
    and "tx_wf nt" "net_arp_lookup (dg_src d) nt = (Some dmac, nt)" "g_arc_mirror_ip a = (0, 0, 0, 0)" "req = ptr_of (dg_payload d)"
    and "rd16 req 8 = 0" "rd16 req 6 = 0x2201" "arc_rx rd now g d a s nt = (a1, s1, nt1)"
    and "ereq = ptr_of (dg_payload e)" "length (dg_payload e) = 12" "rd16 ereq 8 = 0" "rd16 ereq 6 = 0x2202" "rd16 ereq 10 = fid"
    and "arc_rx rd2 now2 g e a1 s1 nu = (a2, s2, nu2)"
  shows "(\<exists>F. wire nt1 = wire nt @ [F] \<and> carries (dg_sport d) F (flow_reply req DANTE_CODE_OK (be16 1 @ be16 0 @ be16 fid))) \<and>
    (\<exists>f x. f < N_FLOWS \<and> flows s1 = (flows s)[f := x] \<and> mcast_slot now fid chans (of_nat (length chans)) (flow_ip s ! f) x \<and>
      dante_tx_mcast_by_id fid s1 = Some (flow_ip s ! f, of_nat (length chans)) \<and>
      flows s2 = (flows s1)[f := x\<lparr>in_use := False\<rparr>] \<and> dante_tx_mcast_by_id fid s2 = None)"
proof (rule create_sends [OF assms(1-10)])
  fix f x
  assume f: "f < N_FLOWS" "flows s1 = (flows s)[f := x]" "mcast_slot now fid chans (of_nat (length chans)) (flow_ip s ! f) x"
    and F: "\<exists>F. wire nt1 = wire nt @ [F] \<and> carries (dg_sport d) F (flow_reply req DANTE_CODE_OK (be16 1 @ be16 0 @ be16 fid))"
  have wf: "length (flows s) = N_FLOWS" using assms(1) by (simp add: table_wf_def)
  then have g: "length (flows s1) = N_FLOWS" "flows s1 ! f = x" using f(1,2) by simp_all
  have o: "\<forall>i<N_FLOWS. i \<noteq> f \<longrightarrow> in_use (flows s1 ! i) \<longrightarrow> ext_id (flows s1 ! i) \<noteq> fid" using assms(2) by (simp add: f(2))
  have nz: "fid \<noteq> 0" using assms(3) unfolding create_request_def Let_def by blast
  note d = delete_one [OF g(1) f(1) _ nz o, unfolded g(2), OF f(3)]
  let ?c = "\<lambda>i. ereq (10 + i)"
  have "arc_mcast_delete now2 ?c 2 s1 = mcast_delete now2 s1 fid"
    using assms(15) by (simp add: arc_mcast_delete_def dante_req_rd16 rd16_def)
  then have "s2 = mcast_delete now2 s1 fid"
    using assms(12-14,16) unfolding arc_rx_def arc_dispatch_def Let_def assms(11) [symmetric]
    by (auto simp: dante_req_rd16 OP_GET_TX_CHANNELS_def OP_CHANNELS_AND_FLOWS_COUNT_def OP_GET_DEVICE_NAME_def DANTE_HDR_LEN_def
        OP_GET_DEVICE_NAMES_def OP_GET_TX_FRIENDLY_NAMES_def OP_GET_RX_CHANNELS_def OP_QUERY_TX_FLOWS_def split: prod.splits)
  then show ?thesis using F f d by blast
qed

text \<open>A request for channels 1 and 2 under the handle 3, and the request to delete it.\<close>

definition create_content :: "u8 list" where
  "create_content = [1, 1, 0, 14, 0, 3, 0, 2, 0, 0, 0, 0, 0, 0, 0, 0, 0, 0, 0, 2, 0, 1, 0, 2]"

lemma create_content_request: "create_request (arc_request 0x2201 create_content) 3 [1, 2]"
proof -
  have pl: "dg_payload (arc_request 0x2201 create_content) = [0x28, 0x09, 0, 34, 0x12, 0x34, 0x22, 0x01, 0, 0, 1, 1, 0, 14, 0, 3, 0, 2,
      0, 0, 0, 0, 0, 0, 0, 0, 0, 0, 0, 2, 0, 1, 0, 2]"
    by (simp add: arc_request_def create_content_def be16_def)
  show ?thesis by (simp add: create_request_def pl rd16_def ptr_of_def upt_rec)
qed

theorem multicast_created_and_deleted_witness:
  "\<exists>a1 s1 nt1 a2 s2 nu2 f. arc_rx (\<lambda>_. 0) 5 (dante_dev_init (0, 0, 0, 0, 0, 1)) (arc_request 0x2201 create_content) arc0 boot_tx demo_net = (a1, s1, nt1) \<and>
    arc_rx (\<lambda>_. 0) 9 (dante_dev_init (0, 0, 0, 0, 0, 1)) (arc_request 0x2202 [0, 3]) a1 s1 nt1 = (a2, s2, nu2) \<and>
    dante_tx_mcast_by_id 3 s1 = Some (flow_ip boot_tx ! f, 2) \<and> dante_tx_mcast_by_id 3 s2 = None"
proof -
  let ?g = "dante_dev_init (0, 0, 0, 0, 0, 1)" and ?d = "arc_request 0x2201 create_content" and ?e = "arc_request 0x2202 [0, 3]"
  obtain a1 s1 nt1 where r1: "arc_rx (\<lambda>_. 0) 5 ?g ?d arc0 boot_tx demo_net = (a1, s1, nt1)" by (metis prod_cases3)
  obtain a2 s2 nu2 where r2: "arc_rx (\<lambda>_. 0) 9 ?g ?e a1 s1 nt1 = (a2, s2, nu2)" by (metis prod_cases3)
  have m: "g_arc_mirror_ip arc0 = (0, 0, 0, 0)" by (simp add: arc0_def)
  have wf: "table_wf boot_tx" by (simp add: table_wf_def boot_tx_def N_FLOWS_def)
  have u: "\<forall>i<N_FLOWS. in_use (flows boot_tx ! i) \<longrightarrow> ext_id (flows boot_tx ! i) \<noteq> 3"
    by (simp add: boot_tx_def demo_slot_def N_FLOWS_def)
  have f3: "length (dg_payload ?e) = 12" "rd16 (ptr_of (dg_payload ?e)) 10 = 3"
    by (simp_all add: arc_request_def be16_def rd16_def ptr_of_def)
  from multicast_created_and_deleted [OF wf u create_content_request demo_net_wf arc_request_known m refl arc_request_fields(2,3) r1
      refl f3(1) arc_request_fields(2,3) f3(2) r2]
  obtain f where "dante_tx_mcast_by_id 3 s1 = Some (flow_ip boot_tx ! f, of_nat (length [1, 2 :: u16]))" "dante_tx_mcast_by_id 3 s2 = None" by blast
  then show ?thesis using r1 r2 by auto
qed

text \<open>
  C36: two flows under one handle. The list of flows shows a receiver's flow in slot \<open>f\<close>, which
  has no handle, under the number \<open>f + 1\<close>; a controller that has created a multicast flow under
  the handle \<open>f + 1\<close> sees two flows of that handle, and deleting it leaves the one a receiver
  asked for listed under it.
\<close>

theorem listed_handles_collide:
  assumes "table_wf s" "f < N_FLOWS" "in_use (flows s ! f)" "\<not> fl_mcast (flows s ! f)" "ext_id (flows s ! f) = 0" "fid = of_nat (f + 1)"
    and "\<forall>i<N_FLOWS. in_use (flows s ! i) \<longrightarrow> ext_id (flows s ! i) \<noteq> fid" "first_slot (\<lambda>x. \<not> in_use x) s = Some k"
    and "create_request d fid chans" "tx_wf nt" "net_arp_lookup (dg_src d) nt = (Some dmac, nt)" "g_arc_mirror_ip a = (0, 0, 0, 0)"
    and "rd16 (ptr_of (dg_payload d)) 8 = 0" "rd16 (ptr_of (dg_payload d)) 6 = 0x2201" "arc_rx rd now g d a s nt = (a1, s1, nt1)"
  shows "k \<noteq> f \<and> map_option (\<lambda>(ip, port, n, fpp, mc, eid). (mc, eid)) (dante_tx_flow_desc f s1) = Some (False, fid) \<and>
    map_option (\<lambda>(ip, port, n, fpp, mc, eid). (mc, eid)) (dante_tx_flow_desc k s1) = Some (True, fid) \<and>
    map_option (\<lambda>(ip, port, n, fpp, mc, eid). (mc, eid)) (dante_tx_flow_desc f (mcast_delete t s1 fid)) = Some (False, fid)"
proof (rule create_sends [OF assms(1,7,9-12) refl assms(13-15), where k = k])
  fix f' x
  assume "f' < N_FLOWS" "flows s1 = (flows s)[f' := x]" "first_slot (\<lambda>x. \<not> in_use x) s = Some k \<Longrightarrow> f' = k"
    and x: "mcast_slot now fid chans (of_nat (length chans)) (flow_ip s ! f') x"
  then have k: "k < N_FLOWS" "flows s1 = (flows s)[k := x]" using assms(8) by simp_all
  have wf: "length (flows s) = N_FLOWS" using assms(1) by (simp add: table_wf_def)
  have kf: "k \<noteq> f" using first_slot_Some [OF assms(8)] assms(3) by auto
  have at: "flows s1 ! f = flows s ! f" "flows s1 ! k = x" "length (flows s1) = N_FLOWS" using k kf wf by simp_all
  have nz: "fid \<noteq> 0" using assms(9) unfolding create_request_def Let_def by blast
  have o: "\<forall>i<N_FLOWS. i \<noteq> k \<longrightarrow> in_use (flows s1 ! i) \<longrightarrow> ext_id (flows s1 ! i) \<noteq> fid" using assms(7) by (simp add: k(2))
  note dl = delete_one(1) [OF at(3) k(1) _ nz o, unfolded at(2), OF x, of t]
  have "flows (mcast_delete t s1 fid) ! f = flows s ! f" using kf at(1) by (simp add: dl)
  then show ?thesis
    using kf at assms(2-6) k(1) x nz by (simp add: dante_tx_flow_desc_def mcast_slot_def Let_def)
qed

definition one_flow_tx :: tx where
  "one_flow_tx = boot_tx\<lparr>flows := [demo_slot, demo_slot, demo_slot\<lparr>in_use := True\<rparr>, demo_slot, demo_slot, demo_slot]\<rparr>"

theorem listed_handles_collide_witness:
  "\<exists>a1 s1 nt1. arc_rx (\<lambda>_. 0) 5 (dante_dev_init (0, 0, 0, 0, 0, 1)) (arc_request 0x2201 create_content) arc0 one_flow_tx demo_net = (a1, s1, nt1) \<and>
    map_option (\<lambda>(ip, port, n, fpp, mc, eid). (mc, eid)) (dante_tx_flow_desc 2 s1) = Some (False, 3) \<and>
    map_option (\<lambda>(ip, port, n, fpp, mc, eid). (mc, eid)) (dante_tx_flow_desc 0 s1) = Some (True, 3)"
proof -
  let ?g = "dante_dev_init (0, 0, 0, 0, 0, 1)" and ?d = "arc_request 0x2201 create_content"
  obtain a1 s1 nt1 where r: "arc_rx (\<lambda>_. 0) 5 ?g ?d arc0 one_flow_tx demo_net = (a1, s1, nt1)" by (metis prod_cases3)
  have m: "g_arc_mirror_ip arc0 = (0, 0, 0, 0)" by (simp add: arc0_def)
  have wf: "table_wf one_flow_tx" by (simp add: table_wf_def one_flow_tx_def boot_tx_def N_FLOWS_def)
  have fl: "flows one_flow_tx = [demo_slot, demo_slot, demo_slot\<lparr>in_use := True\<rparr>, demo_slot, demo_slot, demo_slot]"
    by (simp add: one_flow_tx_def)
  have two: "2 < N_FLOWS" "in_use (flows one_flow_tx ! 2)" "\<not> fl_mcast (flows one_flow_tx ! 2)" "ext_id (flows one_flow_tx ! 2) = 0"
    "(3 :: u16) = of_nat (2 + 1)" by (simp_all add: fl N_FLOWS_def demo_slot_def)
  have u: "\<forall>i<N_FLOWS. in_use (flows one_flow_tx ! i) \<longrightarrow> ext_id (flows one_flow_tx ! i) \<noteq> 3"
    by (auto simp: fl N_FLOWS_def demo_slot_def nth_Cons' )
  have k: "first_slot (\<lambda>x. \<not> in_use x) one_flow_tx = Some 0"
    by (intro first_slot_first) (simp_all add: fl N_FLOWS_def demo_slot_def)
  from listed_handles_collide [OF wf two u k create_content_request demo_net_wf arc_request_known m arc_request_fields(2,3) r] r
  show ?thesis by blast
qed

end
