(* ===== verification/Dante_Info.thy ===== *)
theory Dante_Info
  imports Dante_Arc Ptpv1
begin

text \<open>
  Device information, \<^theory_text>\<open>firmware/dante_info.c\<close>: the heartbeat and the announcements
  that go to the multicast groups, and the requests on port 8700.
\<close>

section \<open>State\<close>

definition DANTE_PORT_INFO :: u16 where "DANTE_PORT_INFO = 8702"
definition DANTE_PORT_HEARTBEAT :: u16 where "DANTE_PORT_HEARTBEAT = 8708"
definition MCAST_HDR_LEN :: nat where "MCAST_HDR_LEN = 32"
definition HEARTBEAT_MS :: u32 where "HEARTBEAT_MS = 1000"
definition INFO_ANNOUNCE_MS :: u32 where "INFO_ANNOUNCE_MS = 3000"
definition grp_heartbeat :: ip4 where "grp_heartbeat = (224, 0, 0, 233)"
definition grp_devinfo :: ip4 where "grp_devinfo = (224, 0, 0, 231)"
definition vendor_str :: "u8 list" where "vendor_str = ascii ''Audinate''"

record info =
  seqnum :: u16
  next_heartbeat_ms :: u32
  info_announce_next_ms :: u32
  in_rx :: u32
  in_rx_unknown :: u32
  in_tx_heartbeat :: u32
  in_tx_info :: u32

section \<open>Messages\<close>

text \<open>The 32 bytes every message starts with; the length is filled in when it is sent.\<close>

definition put_hdr_seq :: "dante_dev \<Rightarrow> u16 \<Rightarrow> u8 list \<Rightarrow> u16 \<Rightarrow> u8 list" where
  "put_hdr_seq g start_code opcode seq =
     be16 start_code @ [0, 0] @ be16 seq @ be16 (process_id g) @ take 8 (device_id g) @ vendor_str @ take 8 opcode"

definition put_hdr :: "dante_dev \<Rightarrow> u16 \<Rightarrow> u8 list \<Rightarrow> info \<Rightarrow> u8 list" where
  "put_hdr g start_code opcode i =
     be16 start_code @ [0, 0] @ be16 (seqnum i) @ be16 (process_id g) @ take 8 (device_id g) @ vendor_str @ take 8 opcode"

definition put_fixed :: "nat \<Rightarrow> nat \<Rightarrow> u8 list \<Rightarrow> u8 list \<Rightarrow> u8 list" where
  "put_fixed at width s c = put at (take width s @ replicate (width - length (take width s)) 0) c"

text \<open>The total length goes to offset 2 of a message, which is sent from port 8700.\<close>

definition with_total :: "u8 list \<Rightarrow> u8 list" where
  "with_total p = put 2 (be16 (of_nat (length p))) p"

definition info_commit :: "ip4 \<Rightarrow> u16 \<Rightarrow> u8 list \<Rightarrow> net \<Rightarrow> int \<times> net" where
  "info_commit dst dport p nt =
     net_udp_commit dst dport DANTE_PORT_INFO_REQ (length p) 0 (payload_put 0 (with_total p) nt)"

definition info_send :: "ip4 \<Rightarrow> u16 \<Rightarrow> u8 list \<Rightarrow> info \<times> net \<Rightarrow> info \<times> net" where
  "info_send dst dport p = (\<lambda>(i, nt).
    let (r, nt) = info_commit dst dport p nt;
        i = (if r = 0 then i\<lparr>in_tx_info := in_tx_info i + 1\<rparr> else i) in
    (i\<lparr>seqnum := seqnum i + 1\<rparr>, nt))"

section \<open>Heartbeat\<close>

text \<open>How far the servo has pulled the rate from nominal, in parts per billion.\<close>

definition servo_ppb :: "'a ptpv1_scheme \<Rightarrow> int" where
  "servo_ppb p =
    (if base_addend_full p \<noteq> 0
     then to_i32 (((current_addend_full p - base_addend_full p) * 1000000000) sdiv base_addend_full p) else 0)"

text \<open>The five sub-records, each with its length first.\<close>

definition rec_8001 :: "u16 \<Rightarrow> int \<Rightarrow> u8 list" where
  "rec_8001 seq ppb = be16 16 @ be16 0x8001 @ be16 4 @ be16 4 @ be16 seq @ be16 0 @ be32 (of_int ppb)"

definition clamp_u32 :: "int \<Rightarrow> u32" where
  "clamp_u32 x = of_int (if x > 0xFFFFFFFF then 0xFFFFFFFF else x)"

definition rec_8000 :: "u16 \<Rightarrow> int \<Rightarrow> int \<Rightarrow> u8 list" where
  "rec_8000 seq offs pd =
    (let offs = (if offs < 0 then - offs else offs); pd = (if pd < 0 then 0 else pd) in
     be16 36 @ be16 0x8000 @ be16 4 @ be16 4 @ be16 seq @ be16 0 @ be16 0x0010 @ be16 0 @ be16 1 @ be16 0x0010 @
     be32 (clamp_u32 offs) @ be32 (clamp_u32 pd) @ be32 0 @ be32 0)"

definition rec_8002 :: "u16 \<Rightarrow> u8 list" where
  "rec_8002 seq =
    (let ntx = of_nat DANTE_TX_CHANNELS; nrx = of_nat DANTE_RX_CHANNELS; npk = ntx + nrx; pad = (4 - (npk AND 3)) AND 3 in
     be16 (24 + npk + pad) @ be16 0x8002 @ be16 4 @ be16 (12 + npk) @ be16 seq @ be16 0 @
     be16 ntx @ be16 0 @ be16 nrx @ be16 0 @ be16 24 @ be16 0 @ replicate (unat (npk + pad)) 0)"

definition rec_8003 :: "u16 \<Rightarrow> u8 list" where
  "rec_8003 seq =
    (let nflows = of_nat DANTE_RX_CHANNELS in
     be16 (12 + 8 + 4 + 4 * nflows) @ be16 0x8003 @ be16 4 @ be16 (8 + 4 + 4 * nflows) @ be16 seq @ be16 0 @
     be16 nflows @ be16 0 @ be16 0x0018 @ be16 0 @ be32 48000 @ concat (replicate (unat nflows) (be32 0)))"

definition rec_8004 :: "u16 \<Rightarrow> u8 list" where
  "rec_8004 seq =
    (let nflows = of_nat DANTE_RX_CHANNELS in
     be16 (12 + 8 + 4 * nflows) @ be16 0x8004 @ be16 4 @ be16 (8 + 4 * nflows) @ be16 seq @ be16 0 @
     be16 nflows @ be16 0 @ be16 0x0014 @ be16 0 @ concat (replicate (unat nflows) (be32 0)))"

definition heartbeat_bytes :: "dante_dev \<Rightarrow> 'a ptpv1_scheme \<Rightarrow> info \<Rightarrow> u8 list" where
  "heartbeat_bytes g p i =
     put_hdr g 0xFFFE [0x00, 0x08, 0x00, 0x01, 0x10, 0x00, 0x00, 0x00] i @
     rec_8001 (seqnum i) (servo_ppb p) @ rec_8000 (seqnum i) (offset_ns p) (mean_path_delay_ns p) @
     rec_8002 (seqnum i) @ rec_8003 (seqnum i) @ rec_8004 (seqnum i)"

definition send_heartbeat :: "dante_dev \<Rightarrow> 'a ptpv1_scheme \<Rightarrow> info \<times> net \<Rightarrow> info \<times> net" where
  "send_heartbeat g p = (\<lambda>(i, nt).
    let (r, nt) = info_commit grp_heartbeat DANTE_PORT_HEARTBEAT (heartbeat_bytes g p i) nt;
        i = (if r = 0 then i\<lparr>in_tx_heartbeat := in_tx_heartbeat i + 1\<rparr> else i) in
    (i\<lparr>seqnum := seqnum i + 1\<rparr>, nt))"

section \<open>Device, product, clock, capabilities, network\<close>

definition device_info_body :: "u8 list" where
  "device_info_body =
    (let c = replicate 200 0;
         c = put 0 [4, 1, 0, 6] c;
         c = put 0x23 [2] c;
         c = put 4 [4, 1, 0, 3] c;
         c = put 0x27 [1] c;
         c = put 0x28 [1] c;
         c = put 0x14 [0] c;
         c = put 0x15 [0] c;
         c = put 0x16 [0x10] c;
         c = put 0x17 [0] c;
         c = put 0xBB [0x1F] c;
         c = put_fixed 12 8 (ascii ''NSerAoI'') c in
     put_fixed 0x38 16 (ascii ''N-Series AoIP'') c)"

definition send_device_info :: "dante_dev \<Rightarrow> ip4 \<Rightarrow> u16 \<Rightarrow> info \<times> net \<Rightarrow> info \<times> net" where
  "send_device_info g dst dport = (\<lambda>(i, nt).
     info_send dst dport (put_hdr g 0xFFFF [0x07, 0x2A, 0x00, 0x60, 0, 0, 0, 0] i @ device_info_body) (i, nt))"

definition product_info_body :: "u8 list" where
  "product_info_body =
    (let c = replicate 336 0;
         c = put_fixed 0x00 8 (ascii ''NSeries'') c;
         c = put_fixed 0x08 8 (ascii ''USBSwtc'') c;
         c = put 0x1C [0, 0, 1, 0] c;
         c = put_fixed 0x2C 16 (ascii ''N-Series'') c in
     put_fixed 0xAC 16 (ascii ''USB Switchover'') c)"

definition send_product_info :: "dante_dev \<Rightarrow> ip4 \<Rightarrow> u16 \<Rightarrow> info \<times> net \<Rightarrow> info \<times> net" where
  "send_product_info g dst dport = (\<lambda>(i, nt).
     info_send dst dport (put_hdr g 0xFFFF [0x07, 0x2A, 0x00, 0xC0, 0, 0, 0, 0] i @ product_info_body) (i, nt))"

definition clock_stats_tmpl :: "u8 list" where
  "clock_stats_tmpl = [
    0x00, 0x03, 0x00, 0x03, 0x00, 0x00, 0x00, 0xFF, 0xFF, 0xFF, 0xF1, 0x6A,
    0xC8, 0xA3, 0x62, 0xEB, 0xF8, 0xC8, 0x00, 0x00, 0x00, 0x1D, 0xC1, 0x2D,
    0x4A, 0x18, 0x00, 0x00, 0x00, 0x1D, 0xC1, 0x2D, 0x4A, 0x18, 0x00, 0x00,
    0x00, 0x01, 0x00, 0x34, 0x00, 0x09, 0x00, 0x00, 0x02, 0x34, 0x00, 0x00,
    0x00, 0x00, 0x00, 0x00, 0x00, 0x00, 0x00, 0x06, 0x00, 0x00, 0x00, 0x00,
    0x00, 0x00, 0x00, 0x00, 0x00, 0x00, 0x00, 0x00, 0x00, 0x00, 0x00, 0x00,
    0x00, 0x00, 0x00, 0x00, 0x00, 0x60, 0x0C, 0x00, 0x00, 0x00, 0x00, 0x0C,
    0x00, 0x78, 0x00, 0x20, 0x00, 0x01, 0x00, 0x00, 0x00, 0x68, 0x10, 0x00,
    0x00, 0x00, 0x00, 0x01, 0x01, 0x02, 0x01, 0x00, 0x00, 0x00, 0x00, 0x04,
    0x00, 0x09, 0x00, 0x07, 0x00, 0x01, 0x00, 0x07, 0x00, 0x98, 0x00, 0x04,
    0xC8, 0xA3, 0x62, 0xFF, 0xFE, 0xEB, 0xF8, 0xC8, 0x00, 0x1D, 0xC1, 0xFF,
    0xFE, 0x2D, 0x4A, 0x18, 0x00, 0x1D, 0xC1, 0xFF, 0xFE, 0x2D, 0x4A, 0x18,
    0x00, 0x01, 0x00, 0x00]"

text \<open>The opcode and number of the reply: those of the request, or our own for an announcement.\<close>

definition clock_stats_op :: "ptr option \<Rightarrow> info \<Rightarrow> u8 list \<times> u16" where
  "clock_stats_op req i =
    (case req of
       Some r \<Rightarrow> ((bytes_at r 24 8)[3 := 0x20], rd16 r 4)
     | None \<Rightarrow> ([0x07, 0x2A, 0x00, 0x20, 0, 0, 0, 0], seqnum i))"

definition clock_stats_body :: "dante_dev \<Rightarrow> 'a ptpv1_scheme \<Rightarrow> u8 list" where
  "clock_stats_body g p =
    (let c = clock_stats_tmpl;
         c = put 2 [0x00, if locked p then 0x03 else 0x01] c;
         c = put 8 (be32 (of_int (servo_ppb p))) c;
         c = put 12 (mac_bytes (dd_mac g) @ [0, 0]) c;
         c = put 20 (mac_bytes (master_uuid p) @ [0, 0]) c;
         c = put 28 (mac_bytes (master_uuid p) @ [0, 0]) c;
         c = put 120 (take 8 (device_id g)) c;
         c = put 128 (eui64 (master_uuid p)) c in
     put 136 (eui64 (master_uuid p)) c)"

definition send_clock_stats :: "dante_dev \<Rightarrow> 'a ptpv1_scheme \<Rightarrow> ip4 \<Rightarrow> u16 \<Rightarrow> ptr option \<Rightarrow> info \<times> net \<Rightarrow> info \<times> net" where
  "send_clock_stats g p dst dport req = (\<lambda>(i, nt).
    if \<not> have_master p then (i, nt)
    else let (opcode, rseq) = clock_stats_op req i in
      info_send dst dport (put_hdr_seq g 0xFFFF opcode rseq @ clock_stats_body g p) (i, nt))"

text \<open>The four capability messages, the third byte and the fourth of their opcodes and their bodies.\<close>

definition caps_messages :: "(u8 \<times> u8 \<times> u8 list) list" where
  "caps_messages =
    [(0x00, 0x80, be16 0x0018 @ be16 1 @ be32 48000 @ be32 0 @ be16 0 @ be16 0 @ be32 48000),
     (0x00, 0x82, be16 0x0018 @ be16 1 @ be32 24 @ be32 0 @ be16 2 @ be16 0 @ be32 24),
     (0x10, 0x09, replicate 16 0),
     (0x00, 0x84, [
        0x00, 0x30, 0x00, 0x05, 0x00, 0x00, 0x00, 0x00, 0x00, 0x00, 0x00, 0x00,
        0x00, 0x02, 0x00, 0x00, 0x00, 0x00, 0x00, 0x01, 0x00, 0x00, 0x00, 0x00,
        0x00, 0x00, 0x00, 0x00, 0x00, 0x00, 0x00, 0x00, 0x00, 0x00, 0x00, 0x00,
        0x00, 0x00, 0x00, 0x00, 0x00, 0x00, 0x00, 0x00, 0x00, 0x00, 0x00, 0x01,
        0x00, 0x00, 0x00, 0x02, 0x00, 0x00, 0x00, 0x03, 0x00, 0x00, 0x00, 0x04])]"

definition send_cap :: "dante_dev \<Rightarrow> ip4 \<Rightarrow> u16 \<Rightarrow> info \<times> net \<Rightarrow> u8 \<times> u8 \<times> u8 list \<Rightarrow> info \<times> net" where
  "send_cap g dst dport = (\<lambda>(i, nt) (a, b, body).
    let (r, nt) = info_commit dst dport (put_hdr g 0xFFFF [0x07, 0x2A, a, b, 0, 0, 0, 0] i @ body) nt in
    (i\<lparr>seqnum := seqnum i + 1\<rparr>, nt))"

definition send_caps :: "dante_dev \<Rightarrow> ip4 \<Rightarrow> u16 \<Rightarrow> info \<times> net \<Rightarrow> info \<times> net" where
  "send_caps g dst dport s = foldl (send_cap g dst dport) s caps_messages"

definition network_info_body :: "dante_dev \<Rightarrow> net \<Rightarrow> u8 list" where
  "network_info_body g nt =
     [0x00, 0x01, 0x00, 0x00, 0x00, 0x00] @ be16 1000 @ be16 1 @ mac_bytes (dd_mac g) @ ip_bytes (g_net_ip nt) @
     [255, 255, if g_net_prefix nt = 24 then 255 else 0, 0] @ replicate 4 0 @ replicate 4 0 @
     [0x00, 0x18, 0x00, 0x30] @ replicate 28 0"

definition send_network_info :: "dante_dev \<Rightarrow> ip4 \<Rightarrow> u16 \<Rightarrow> info \<times> net \<Rightarrow> info \<times> net" where
  "send_network_info g dst dport = (\<lambda>(i, nt).
     info_send dst dport (put_hdr g 0xFFFF [0x07, 0x2A, 0x00, 0x11, 0, 0, 0, 0] i @ network_info_body g nt) (i, nt))"

section \<open>Requests and the poll\<close>

definition info_rx :: "dante_dev \<Rightarrow> 'a ptpv1_scheme \<Rightarrow> datagram \<Rightarrow> info \<times> net \<Rightarrow> info \<times> net" where
  "info_rx g p d = (\<lambda>(i, nt).
    let req = ptr_of (dg_payload d) in
    if length (dg_payload d) < MCAST_HDR_LEN then (i, nt)
    else
      let i = i\<lparr>in_rx := in_rx i + 1\<rparr>; q = req (24 + 3) in
      if q = 0x60 \<or> q = 0x61 then send_device_info g (dg_src d) (dg_sport d) (i, nt)
      else if q = 0xC0 \<or> q = 0xC1 then send_product_info g (dg_src d) (dg_sport d) (i, nt)
      else if q = 0x13 then send_network_info g (dg_src d) (dg_sport d) (i, nt)
      else if q = 0x21 then send_clock_stats g p grp_devinfo DANTE_PORT_INFO (Some req) (i, nt)
      else (i\<lparr>in_rx_unknown := in_rx_unknown i + 1\<rparr>, nt))"

text \<open>The announcement of everything.\<close>

definition info_announce :: "dante_dev \<Rightarrow> 'a ptpv1_scheme \<Rightarrow> info \<times> net \<Rightarrow> info \<times> net" where
  "info_announce g p s =
    (let s = send_device_info g grp_devinfo DANTE_PORT_INFO s;
         s = send_product_info g grp_devinfo DANTE_PORT_INFO s;
         s = send_network_info g grp_devinfo DANTE_PORT_INFO s;
         s = send_clock_stats g p grp_devinfo DANTE_PORT_INFO None s in
     send_caps g grp_devinfo DANTE_PORT_INFO s)"

definition dante_info_poll :: "u32 \<Rightarrow> dante_dev \<Rightarrow> 'a ptpv1_scheme \<Rightarrow> info \<times> net \<Rightarrow> info \<times> net" where
  "dante_info_poll now g p = (\<lambda>(i, nt).
    if info_announce_next_ms i = 0 \<or> sint (now - info_announce_next_ms i) \<ge> 0 then
      let (i, nt) = info_announce g p (i, nt) in
      (i\<lparr>info_announce_next_ms := now + INFO_ANNOUNCE_MS\<rparr>, nt)
    else if next_heartbeat_ms i \<noteq> 0 \<and> sint (now - next_heartbeat_ms i) < 0 then (i, nt)
    else send_heartbeat g p (i\<lparr>next_heartbeat_ms := now + HEARTBEAT_MS\<rparr>, nt))"

definition dante_info_init :: "info \<times> net \<Rightarrow> info \<times> net" where
  "dante_info_init = (\<lambda>(i, nt).
    let nt = snd (net_udp_bind DANTE_PORT_INFO_REQ (Some Info_Rx) nt);
        nt = snd (net_igmp_join grp_heartbeat nt);
        nt = snd (net_igmp_join grp_devinfo nt) in
    (i\<lparr>next_heartbeat_ms := 0, info_announce_next_ms := 0\<rparr>, nt))"

end
