(* ===== verification/Gptp.thy ===== *)
theory Gptp
  imports Ptpv1
begin

text \<open>
  The 802.1AS slave of \<^theory_text>\<open>firmware/gptp.c\<close>: the messages it takes and sends, the peer
  delay, the offset filter, the frequency servo and its lock. The firmware initialises it and
  does not poll it any more; the time-stamp unit it drives is that of theory Tsu. A frame sent
  is appended to \<open>gp_wire\<close>: every byte of it is written before it is sent. 64-bit signed
  arithmetic is taken to wrap where a peer chooses the numbers.
\<close>

section \<open>Constants\<close>

definition PTP_ETHERTYPE :: u16 where "PTP_ETHERTYPE = 0x88F7"
definition gptp_mcast :: "u8 list" where "gptp_mcast = [0x01, 0x80, 0xC2, 0x00, 0x00, 0x0E]"
definition PTP_MSG_SYNC :: u8 where "PTP_MSG_SYNC = 0x0"
definition PTP_MSG_PDELAY_REQ :: u8 where "PTP_MSG_PDELAY_REQ = 0x2"
definition PTP_MSG_PDELAY_RESP :: u8 where "PTP_MSG_PDELAY_RESP = 0x3"
definition PTP_MSG_FOLLOW_UP :: u8 where "PTP_MSG_FOLLOW_UP = 0x8"
definition PTP_MSG_PDELAY_RESP_FUP :: u8 where "PTP_MSG_PDELAY_RESP_FUP = 0xA"
definition PTP_MSG_ANNOUNCE :: u8 where "PTP_MSG_ANNOUNCE = 0xB"
definition PTP_FLAG_TWO_STEP :: u16 where "PTP_FLAG_TWO_STEP = 0x0200"
definition PTP_FLAG_PTP_TIMESCALE :: u16 where "PTP_FLAG_PTP_TIMESCALE = 0x0008"
definition PTP_HEADER_LEN :: nat where "PTP_HEADER_LEN = 34"
definition ETH_HEADER_LEN :: nat where "ETH_HEADER_LEN = 14"
definition CLOCK_ID_LEN :: nat where "CLOCK_ID_LEN = 8"
definition GPTP_DOMAIN :: u8 where "GPTP_DOMAIN = 0"
definition PDELAY_LOST_RESPONSES_ALLOWED :: int where "PDELAY_LOST_RESPONSES_ALLOWED = 3"
definition GPTP_KP_NUM :: int where "GPTP_KP_NUM = 72"
definition GPTP_KP_DEN :: int where "GPTP_KP_DEN = 1000"
definition GPTP_KI_NUM :: int where "GPTP_KI_NUM = 3600"
definition GPTP_KI_DEN :: int where "GPTP_KI_DEN = 1000000"
definition SERVO_INTEGRAL_CLAMP_NS :: int where "SERVO_INTEGRAL_CLAMP_NS = 100000000"
definition SERVO_ANTIWINDUP_NS :: int where "SERVO_ANTIWINDUP_NS = 1000000"
definition PTP_OFF_LENGTH :: nat where "PTP_OFF_LENGTH = 2"
definition PTP_OFF_DOMAIN :: nat where "PTP_OFF_DOMAIN = 4"
definition PTP_OFF_CORRECTION :: nat where "PTP_OFF_CORRECTION = 8"
definition PTP_OFF_SRC_PORT_ID :: nat where "PTP_OFF_SRC_PORT_ID = 20"
definition PTP_OFF_SEQ_ID :: nat where "PTP_OFF_SEQ_ID = 30"

section \<open>State\<close>

datatype gptp_state = GPTP_STATE_INIT | GPTP_STATE_LISTENING | GPTP_STATE_SLAVE

text \<open>Groups of fields of \<^theory_text>\<open>gptp_t\<close>: the grandmaster, the counters, the window of averages, the log.\<close>

record gptp_gm =
  gm_clock_id :: "u8 list"
  gm_priority1 :: u8
  gm_clock_class :: u8
  gm_clock_accuracy :: u8
  gm_offset_scaled_log_variance :: u16
  gm_priority2 :: u8
  gm_valid :: bool

record gptp_counts =
  rx_sync_count :: u32
  rx_followup_count :: u32
  rx_pdelay_req_count :: u32
  rx_pdelay_resp_count :: u32
  rx_pdelay_resp_fup_count :: u32
  rx_announce_count :: u32
  rx_other_count :: u32
  rx_wrong_domain_count :: u32
  rx_last_msg_type :: u8
  rx_last_domain :: u8

record gptp_win =
  off_sum_ns_win :: int
  off_abs_sum_ns_win :: int
  off_count_win :: u32
  off_win_start_ms :: u32
  off_avg_ns_last :: int
  off_abs_avg_ns_last :: int
  off_avg_count_last :: u32

record gptp_log =
  conv_log :: "(int \<times> int \<times> bool) list"
  conv_idx :: nat
  conv_count :: nat
  conv_postlock :: u8

record gptp =
  gp_state :: gptp_state
  our_mac :: mac6
  clock_id :: "u8 list"
  port_number :: u16
  master_clock_id :: "u8 list"
  master_port_number :: u16
  gp_gm :: gptp_gm
  pdelay_seq_id :: u16
  pdelay_t1 :: tstamp
  pdelay_t2 :: tstamp
  pdelay_t3 :: tstamp
  pdelay_t4 :: tstamp
  gp_path_delay :: int
  pdelay_lost_count :: int
  pdelay_resp_received :: bool
  pdelay_fup_received :: bool
  sync_seq_id :: u16
  sync_rx_ts :: tstamp
  sync_origin_ts :: tstamp
  sync_correction :: int
  sync_received :: bool
  offset_from_master_ns :: int
  gp_integral :: int
  gp_base :: int
  gp_addend :: int
  servo_locked :: bool
  servo_step_count :: u32
  gp_win :: gptp_win
  prev_t3_ns :: int
  prev_t4_ns :: int
  nrr_ppb :: int
  pdelay_pair_count :: u32
  pdelay_outlier_count :: u32
  off_median_buf :: "int list"
  off_median_idx :: nat
  off_median_filled :: nat
  last_pdelay_time_ms :: u32
  last_sync_time_ms :: u32
  lock_sample_count :: u8
  pdelay_interval_ms :: u32
  sync_count :: u32
  pdelay_count :: u32
  pdelay_timeout_count :: u32
  gp_rx :: gptp_counts
  gp_log :: gptp_log
  gp_tsu :: tsu
  gp_wire :: "u8 list list"

text \<open>What one operation reads: the time, the time after a step, the two captured stamps.\<close>

record gptp_view =
  gv_time :: tstamp
  gv_after :: tstamp
  gv_rx_ts :: tstamp
  gv_tx_ts :: tstamp

abbreviation gp_now :: "gptp_view \<Rightarrow> gptp \<Rightarrow> u32" where
  "gp_now v g \<equiv> gptp_uptime_ms (gv_time v) (gp_tsu g)"

abbreviation gp_count :: "(gptp_counts \<Rightarrow> gptp_counts) \<Rightarrow> gptp \<Rightarrow> gptp" where
  "gp_count f g \<equiv> g\<lparr>gp_rx := f (gp_rx g)\<rparr>"

section \<open>Fields on the wire\<close>

definition to_i64 :: "int \<Rightarrow> int" where
  "to_i64 x = signed_take_bit 63 x"

definition get_be48 :: "ptr \<Rightarrow> nat \<Rightarrow> u64" where
  "get_be48 p i = push_bit 40 (ucast (p i)) OR push_bit 32 (ucast (p (i + 1))) OR push_bit 24 (ucast (p (i + 2)))
     OR push_bit 16 (ucast (p (i + 3))) OR push_bit 8 (ucast (p (i + 4))) OR ucast (p (i + 5))"

definition get_be64_signed :: "ptr \<Rightarrow> nat \<Rightarrow> int" where
  "get_be64_signed p i =
     sint (push_bit 56 (ucast (p i)) OR push_bit 48 (ucast (p (i + 1))) OR push_bit 40 (ucast (p (i + 2)))
       OR push_bit 32 (ucast (p (i + 3))) OR push_bit 24 (ucast (p (i + 4))) OR push_bit 16 (ucast (p (i + 5)))
       OR push_bit 8 (ucast (p (i + 6))) OR ucast (p (i + 7)) :: u64)"

definition put_be48 :: "u64 \<Rightarrow> u8 list" where
  "put_be48 v = [ucast (drop_bit 40 v), ucast (drop_bit 32 v), ucast (drop_bit 24 v), ucast (drop_bit 16 v),
     ucast (drop_bit 8 v), ucast v]"

definition get_ptp_ts :: "ptr \<Rightarrow> nat \<Rightarrow> tstamp" where
  "get_ptp_ts p i = \<lparr>tsec = get_be48 p i, tnsec = rd32 p (i + 6)\<rparr>"

definition put_ptp_ts :: "tstamp \<Rightarrow> u8 list" where
  "put_ptp_ts t = put_be48 (tsec t) @ be32 (tnsec t)"

text \<open>Nanoseconds since zero.\<close>

definition ts_ns :: "tstamp \<Rightarrow> int" where
  "ts_ns t = to_i64 (gptp_ts_diff_ns t \<lparr>tsec = 0, tnsec = 0\<rparr>)"

section \<open>Messages sent\<close>

definition build_eth_header :: "mac6 \<Rightarrow> u8 list" where
  "build_eth_header mac = gptp_mcast @ mac_bytes mac @ be16 PTP_ETHERTYPE"

definition build_ptp_header :: "u8 \<Rightarrow> u16 \<Rightarrow> u8 list \<Rightarrow> u16 \<Rightarrow> u16 \<Rightarrow> u8 list" where
  "build_ptp_header msg_type msg_len cid port_num seq =
    (let flags = PTP_FLAG_PTP_TIMESCALE OR (if msg_type = PTP_MSG_PDELAY_RESP then PTP_FLAG_TWO_STEP else 0);
         control = (if msg_type = PTP_MSG_SYNC then 0x00 else if msg_type = PTP_MSG_FOLLOW_UP then 0x02 else 0x05) in
     [0x10 OR (msg_type AND 0x0F), 0x02] @ be16 msg_len @ [GPTP_DOMAIN, 0] @ be16 flags @ replicate 12 0 @
     take CLOCK_ID_LEN cid @ be16 port_num @ be16 seq @ [control, 0])"

definition gptp_frame :: "u8 \<Rightarrow> u16 \<Rightarrow> u8 list \<Rightarrow> gptp \<Rightarrow> u8 list" where
  "gptp_frame msg_type seq body g =
     build_eth_header (our_mac g) @ build_ptp_header msg_type 54 (clock_id g) (port_number g) seq @ body"

definition gptp_send_pdelay_req :: "gptp_view \<Rightarrow> gptp \<Rightarrow> gptp" where
  "gptp_send_pdelay_req v g =
     g\<lparr>gp_wire := gp_wire g @ [gptp_frame PTP_MSG_PDELAY_REQ (pdelay_seq_id g) (replicate 20 0) g],
       pdelay_resp_received := False, pdelay_fup_received := False, pdelay_t1 := gv_tx_ts v,
       last_pdelay_time_ms := gp_now v g, pdelay_count := pdelay_count g + 1\<rparr>"

definition gptp_send_pdelay_resp :: "ptr \<Rightarrow> tstamp \<Rightarrow> gptp \<Rightarrow> gptp" where
  "gptp_send_pdelay_resp req rx_ts g =
     g\<lparr>gp_wire := gp_wire g @ [gptp_frame PTP_MSG_PDELAY_RESP (rd16 req PTP_OFF_SEQ_ID)
         (put_ptp_ts rx_ts @ bytes_at req PTP_OFF_SRC_PORT_ID 10) g]\<rparr>"

definition gptp_send_pdelay_resp_fup :: "ptr \<Rightarrow> tstamp \<Rightarrow> gptp \<Rightarrow> gptp" where
  "gptp_send_pdelay_resp_fup req resp_tx_ts g =
     g\<lparr>gp_wire := gp_wire g @ [gptp_frame PTP_MSG_PDELAY_RESP_FUP (rd16 req PTP_OFF_SEQ_ID)
         (put_ptp_ts resp_tx_ts @ bytes_at req PTP_OFF_SRC_PORT_ID 10) g]\<rparr>"

section \<open>The servo\<close>

definition sat_2e9 :: "int \<Rightarrow> int" where
  "sat_2e9 x = clamp_sym 2000000000 x"

definition gptp_log_sync :: "gptp \<Rightarrow> gptp" where
  "gptp_log_sync g =
    (if sync_count g AND 0x07 = 0 then
       let l = gp_log g in
       g\<lparr>gp_log := l\<lparr>conv_log := (conv_log l)[conv_idx l := (sat_2e9 (offset_from_master_ns g), sat_2e9 (gp_addend g - gp_base g), servo_locked g)],
           conv_idx := (conv_idx l + 1) mod 400, conv_count := (if conv_count l < 400 then conv_count l + 1 else conv_count l),
           conv_postlock := (if servo_locked g then conv_postlock l + 1 else conv_postlock l)\<rparr>\<rparr>
     else g)"

definition gptp_set_rate :: "int \<Rightarrow> gptp \<Rightarrow> gptp" where
  "gptp_set_rate a g = g\<lparr>gp_addend := a, gp_tsu := gptp_set_addend_full (of_int a) (gp_tsu g)\<rparr>"

definition gptp_big_step :: "gptp_view \<Rightarrow> gptp \<Rightarrow> gptp" where
  "gptp_big_step v g =
    (let new_ns = ts_ns (gv_time v) - offset_from_master_ns g; new_ns = (if new_ns < 0 then 0 else new_ns);
         tgt = \<lparr>tsec = of_int (new_ns div 1000000000), tnsec = of_int (new_ns mod 1000000000)\<rparr>;
         g = g\<lparr>gp_tsu := gptp_step_time (gv_time v) tgt (gp_tsu g), servo_step_count := 1, gp_integral := 0\<rparr>;
         g = gptp_set_rate (gp_base g) g;
         g = g\<lparr>off_median_filled := 0, off_median_idx := 0\<rparr>;
         now = gptp_uptime_ms (gv_after v) (gp_tsu g) in
     g\<lparr>last_sync_time_ms := now, last_pdelay_time_ms := now\<rparr>)"

definition gptp_pi :: "gptp \<Rightarrow> gptp" where
  "gptp_pi g =
    (let offset = offset_from_master_ns g;
         g = (if offset < SERVO_ANTIWINDUP_NS \<and> offset > - SERVO_ANTIWINDUP_NS
              then g\<lparr>gp_integral := clamp_sym SERVO_INTEGRAL_CLAMP_NS (gp_integral g + offset)\<rparr> else g);
         kp_num = (if \<bar>offset\<bar> > 1000 then 200 else GPTP_KP_NUM);
         kp_den = (if \<bar>offset\<bar> > 1000 then 1000 else GPTP_KP_DEN);
         kp_term = (offset * kp_num) sdiv kp_den;
         ki_term = (gp_integral g * GPTP_KI_NUM) sdiv GPTP_KI_DEN;
         addend_new = gp_base g - (kp_term + ki_term);
         addend_new = (if addend_new < 1 then 1 else addend_new);
         addend_new = (if addend_new \<ge> 2 ^ 52 then 2 ^ 52 - 1 else addend_new);
         g = gptp_set_rate addend_new g in
     g\<lparr>servo_step_count := servo_step_count g + 1\<rparr>)"

definition gptp_lock :: "gptp \<Rightarrow> gptp" where
  "gptp_lock g =
    (let abs_off = \<bar>offset_from_master_ns g\<bar> in
     if \<not> servo_locked g then
       (if abs_off < 500 then
          (if lock_sample_count g < 8 then g\<lparr>lock_sample_count := lock_sample_count g + 1\<rparr> else g\<lparr>servo_locked := True\<rparr>)
        else g\<lparr>lock_sample_count := 0\<rparr>)
     else if abs_off > 2000 then g\<lparr>servo_locked := False, lock_sample_count := 0\<rparr> else g)"

definition gptp_window :: "u32 \<Rightarrow> gptp \<Rightarrow> gptp" where
  "gptp_window now g =
    (let w = gp_win g; offset = offset_from_master_ns g;
         w = (if off_win_start_ms w = 0 then w\<lparr>off_win_start_ms := now\<rparr> else w);
         w = w\<lparr>off_sum_ns_win := off_sum_ns_win w + offset, off_abs_sum_ns_win := off_abs_sum_ns_win w + \<bar>offset\<bar>,
               off_count_win := off_count_win w + 1\<rparr>;
         w = (if now - off_win_start_ms w \<ge> 30000 then
                (let w = (if off_count_win w > 0 then
                            w\<lparr>off_avg_ns_last := off_sum_ns_win w sdiv uint (off_count_win w),
                              off_abs_avg_ns_last := off_abs_sum_ns_win w sdiv uint (off_count_win w),
                              off_avg_count_last := off_count_win w\<rparr> else w) in
                 w\<lparr>off_sum_ns_win := 0, off_abs_sum_ns_win := 0, off_count_win := 0, off_win_start_ms := now\<rparr>)
              else w) in
     g\<lparr>gp_win := w\<rparr>)"

definition gptp_servo_update :: "gptp_view \<Rightarrow> gptp \<Rightarrow> gptp" where
  "gptp_servo_update v g =
    (let g = gptp_log_sync g; offset = offset_from_master_ns g in
     if servo_step_count g = 0 \<or> offset > 500000000 \<or> offset < -500000000 then gptp_big_step v g
     else (let g = gptp_lock (gptp_pi g) in gptp_window (gp_now v g) g))"

section \<open>Messages received\<close>

definition process_sync :: "gptp_view \<Rightarrow> ptr \<Rightarrow> gptp \<Rightarrow> gptp" where
  "process_sync v p g =
     g\<lparr>sync_seq_id := rd16 p PTP_OFF_SEQ_ID, sync_correction := get_be64_signed p PTP_OFF_CORRECTION,
       sync_rx_ts := gv_rx_ts v, sync_received := True, master_clock_id := bytes_at p PTP_OFF_SRC_PORT_ID CLOCK_ID_LEN,
       master_port_number := rd16 p (PTP_OFF_SRC_PORT_ID + 8), last_sync_time_ms := gp_now v g,
       gp_state := (if gp_state g = GPTP_STATE_LISTENING then GPTP_STATE_SLAVE else gp_state g)\<rparr>"

definition gptp_filter :: "int \<Rightarrow> gptp \<Rightarrow> gptp" where
  "gptp_filter raw g =
    (let g = g\<lparr>off_median_buf := (off_median_buf g)[off_median_idx g := raw], off_median_idx := (off_median_idx g + 1) mod 5\<rparr>;
         g = (if off_median_filled g < 5 then g\<lparr>off_median_filled := off_median_filled g + 1\<rparr> else g);
         n = off_median_filled g in
     g\<lparr>offset_from_master_ns := insertion_sort (take n (off_median_buf g)) ! (n div 2)\<rparr>)"

definition process_follow_up :: "gptp_view \<Rightarrow> ptr \<Rightarrow> gptp \<Rightarrow> gptp" where
  "process_follow_up v p g =
    (if \<not> sync_received g \<or> rd16 p PTP_OFF_SEQ_ID \<noteq> sync_seq_id g then g
     else
       let g = g\<lparr>sync_origin_ts := get_ptp_ts p PTP_HEADER_LEN\<rparr>;
           corr_ns = get_be64_signed p PTP_OFF_CORRECTION div 2 ^ 16;
           raw_offset = to_i64 (ts_ns (sync_rx_ts g) - ts_ns (sync_origin_ts g) - corr_ns - gp_path_delay g);
           g = gptp_filter raw_offset g;
           g = g\<lparr>sync_received := False, sync_count := sync_count g + 1\<rparr> in
       gptp_servo_update v g)"

definition process_pdelay_req :: "gptp_view \<Rightarrow> ptr \<Rightarrow> gptp \<Rightarrow> gptp" where
  "process_pdelay_req v p g = gptp_send_pdelay_resp_fup p (gv_tx_ts v) (gptp_send_pdelay_resp p (gv_rx_ts v) g)"

definition process_pdelay_resp :: "gptp_view \<Rightarrow> ptr \<Rightarrow> gptp \<Rightarrow> gptp" where
  "process_pdelay_resp v p g =
    (if rd16 p PTP_OFF_SEQ_ID \<noteq> pdelay_seq_id g then g
     else if bytes_at p (PTP_HEADER_LEN + 10) CLOCK_ID_LEN \<noteq> clock_id g then g
     else g\<lparr>pdelay_t4 := gv_rx_ts v, pdelay_t2 := get_ptp_ts p PTP_HEADER_LEN, pdelay_resp_received := True\<rparr>)"

definition rate_ratio :: "int \<Rightarrow> int \<Rightarrow> gptp \<Rightarrow> gptp" where
  "rate_ratio t3_ns t4_ns g =
    (let g = (if pdelay_pair_count g > 0 then
                (let dt3 = to_i64 (t3_ns - prev_t3_ns g); dt4 = to_i64 (t4_ns - prev_t4_ns g) in
                 if dt4 > 100000 then
                   (let inst = to_i32 (to_i64 ((dt3 - dt4) * 1000000000) sdiv dt4) in
                    if inst > -10000 \<and> inst < 10000 then g\<lparr>nrr_ppb := (nrr_ppb g * 7 + inst) sdiv 8\<rparr> else g)
                 else g)
              else g) in
     g\<lparr>prev_t3_ns := t3_ns, prev_t4_ns := t4_ns, pdelay_pair_count := pdelay_pair_count g + 1\<rparr>)"

definition peer_delay :: "int \<Rightarrow> gptp \<Rightarrow> gptp" where
  "peer_delay delay g =
    (if delay \<ge> 0 \<and> delay < 20000 then
       g\<lparr>gp_path_delay := (if gp_path_delay g = 0 then delay else (gp_path_delay g * 7 + delay) sdiv 8)\<rparr>
     else g\<lparr>pdelay_outlier_count := pdelay_outlier_count g + 1\<rparr>)"

definition process_pdelay_resp_fup :: "ptr \<Rightarrow> gptp \<Rightarrow> gptp" where
  "process_pdelay_resp_fup p g =
    (if rd16 p PTP_OFF_SEQ_ID \<noteq> pdelay_seq_id g then g
     else if \<not> pdelay_resp_received g then g
     else
       let g = g\<lparr>pdelay_t3 := get_ptp_ts p PTP_HEADER_LEN, pdelay_fup_received := True\<rparr>;
           t1 = ts_ns (pdelay_t1 g); t2 = ts_ns (pdelay_t2 g); t3 = ts_ns (pdelay_t3 g); t4 = ts_ns (pdelay_t4 g);
           g = rate_ratio t3 t4 g;
           round_trip = to_i64 (t4 - t1);
           rt_corrected = round_trip + to_i64 (round_trip * nrr_ppb g) sdiv 1000000000;
           delay = to_i64 (rt_corrected - (t3 - t2)) sdiv 2;
           g = peer_delay delay g in
       g\<lparr>pdelay_lost_count := 0, pdelay_seq_id := pdelay_seq_id g + 1\<rparr>)"

definition process_announce :: "nat \<Rightarrow> ptr \<Rightarrow> gptp \<Rightarrow> gptp" where
  "process_announce ptp_len p g =
    (if ptp_len \<ge> PTP_HEADER_LEN + 30 then
       let b = PTP_HEADER_LEN in
       g\<lparr>gp_gm := \<lparr>gm_clock_id = bytes_at p (b + 19) CLOCK_ID_LEN, gm_priority1 = p (b + 13), gm_clock_class = p (b + 14),
           gm_clock_accuracy = p (b + 15), gm_offset_scaled_log_variance = rd16 p (b + 16), gm_priority2 = p (b + 18),
           gm_valid = True\<rparr>\<rparr>
     else g)"

text \<open>\<^theory_text>\<open>gptp_process_rx\<close>; \<open>frame\<close> is the Ethernet frame of \<open>len\<close> bytes.\<close>

definition gptp_process_rx :: "gptp_view \<Rightarrow> ptr \<Rightarrow> nat \<Rightarrow> gptp \<Rightarrow> gptp" where
  "gptp_process_rx v frame len g =
    (if len < ETH_HEADER_LEN + PTP_HEADER_LEN then g
     else if rd16 frame 12 \<noteq> PTP_ETHERTYPE then g
     else
       let p = (\<lambda>i. frame (ETH_HEADER_LEN + i)); ptp_len = len - ETH_HEADER_LEN in
       if drop_bit 4 (p 0) \<noteq> 0x1 then gp_count (\<lambda>c. c\<lparr>rx_other_count := rx_other_count c + 1\<rparr>) g
       else
         let msg_type = p 0 AND 0x0F; dom = p PTP_OFF_DOMAIN;
             g = gp_count (\<lambda>c. c\<lparr>rx_last_msg_type := msg_type, rx_last_domain := dom\<rparr>) g in
         if dom \<noteq> GPTP_DOMAIN then gp_count (\<lambda>c. c\<lparr>rx_wrong_domain_count := rx_wrong_domain_count c + 1\<rparr>) g
         else if msg_type = PTP_MSG_SYNC then process_sync v p (gp_count (\<lambda>c. c\<lparr>rx_sync_count := rx_sync_count c + 1\<rparr>) g)
         else if msg_type = PTP_MSG_FOLLOW_UP then process_follow_up v p (gp_count (\<lambda>c. c\<lparr>rx_followup_count := rx_followup_count c + 1\<rparr>) g)
         else if msg_type = PTP_MSG_PDELAY_REQ then process_pdelay_req v p (gp_count (\<lambda>c. c\<lparr>rx_pdelay_req_count := rx_pdelay_req_count c + 1\<rparr>) g)
         else if msg_type = PTP_MSG_PDELAY_RESP then process_pdelay_resp v p (gp_count (\<lambda>c. c\<lparr>rx_pdelay_resp_count := rx_pdelay_resp_count c + 1\<rparr>) g)
         else if msg_type = PTP_MSG_PDELAY_RESP_FUP then process_pdelay_resp_fup p (gp_count (\<lambda>c. c\<lparr>rx_pdelay_resp_fup_count := rx_pdelay_resp_fup_count c + 1\<rparr>) g)
         else if msg_type = PTP_MSG_ANNOUNCE then process_announce ptp_len p (gp_count (\<lambda>c. c\<lparr>rx_announce_count := rx_announce_count c + 1\<rparr>) g)
         else gp_count (\<lambda>c. c\<lparr>rx_other_count := rx_other_count c + 1\<rparr>) g)"

section \<open>Start and poll\<close>

definition gptp_nominal :: int where
  "gptp_nominal = 2 ^ 52 div CONFIG_CLOCK_FREQUENCY + (if 2 ^ 52 mod CONFIG_CLOCK_FREQUENCY > CONFIG_CLOCK_FREQUENCY div 2 then 1 else 0)"

fun gptp_clock_id :: "mac6 \<Rightarrow> u8 list" where
  "gptp_clock_id (a, b, c, d, e, f) = [a, b, c, 0xFF, 0xFE, d, e, f]"

definition zero_ts :: tstamp where "zero_ts = \<lparr>tsec = 0, tnsec = 0\<rparr>"

text \<open>All fields are zeroed; the time-stamp unit and the frames sent are not fields of the struct.\<close>

definition gptp_init :: "mac6 \<Rightarrow> tsu \<Rightarrow> u8 list list \<Rightarrow> gptp" where
  "gptp_init mac u w = \<lparr>gp_state = GPTP_STATE_LISTENING, our_mac = mac, clock_id = gptp_clock_id mac, port_number = 1,
     master_clock_id = replicate 8 0, master_port_number = 0,
     gp_gm = \<lparr>gm_clock_id = replicate 8 0, gm_priority1 = 0, gm_clock_class = 0, gm_clock_accuracy = 0,
       gm_offset_scaled_log_variance = 0, gm_priority2 = 0, gm_valid = False\<rparr>,
     pdelay_seq_id = 0, pdelay_t1 = zero_ts, pdelay_t2 = zero_ts, pdelay_t3 = zero_ts, pdelay_t4 = zero_ts,
     gp_path_delay = 0, pdelay_lost_count = 0, pdelay_resp_received = False, pdelay_fup_received = False,
     sync_seq_id = 0, sync_rx_ts = zero_ts, sync_origin_ts = zero_ts, sync_correction = 0, sync_received = False,
     offset_from_master_ns = 0, gp_integral = 0, gp_base = gptp_nominal, gp_addend = gptp_nominal, servo_locked = False,
     servo_step_count = 0,
     gp_win = \<lparr>off_sum_ns_win = 0, off_abs_sum_ns_win = 0, off_count_win = 0, off_win_start_ms = 0, off_avg_ns_last = 0,
       off_abs_avg_ns_last = 0, off_avg_count_last = 0\<rparr>,
     prev_t3_ns = 0, prev_t4_ns = 0, nrr_ppb = 0, pdelay_pair_count = 0, pdelay_outlier_count = 0,
     off_median_buf = replicate 5 0, off_median_idx = 0, off_median_filled = 0, last_pdelay_time_ms = 0,
     last_sync_time_ms = 0, lock_sample_count = 0, pdelay_interval_ms = 1000, sync_count = 0, pdelay_count = 0,
     pdelay_timeout_count = 0,
     gp_rx = \<lparr>rx_sync_count = 0, rx_followup_count = 0, rx_pdelay_req_count = 0, rx_pdelay_resp_count = 0,
       rx_pdelay_resp_fup_count = 0, rx_announce_count = 0, rx_other_count = 0, rx_wrong_domain_count = 0,
       rx_last_msg_type = 0, rx_last_domain = 0\<rparr>,
     gp_log = \<lparr>conv_log = replicate 400 (0, 0, False), conv_idx = 0, conv_count = 0, conv_postlock = 0\<rparr>,
     gp_tsu = gptp_set_addend_full (of_int gptp_nominal) u, gp_wire = w\<rparr>"

definition gptp_poll :: "gptp_view \<Rightarrow> gptp \<Rightarrow> gptp" where
  "gptp_poll v g =
    (let now = gp_now v g;
         g = (if now - last_pdelay_time_ms g \<ge> pdelay_interval_ms g then
                (let g = (if pdelay_count g > 0 \<and> \<not> pdelay_fup_received g
                          then g\<lparr>pdelay_lost_count := pdelay_lost_count g + 1, pdelay_timeout_count := pdelay_timeout_count g + 1\<rparr>
                          else g) in
                 gptp_send_pdelay_req v g)
              else g) in
     if gp_state g = GPTP_STATE_SLAVE \<and> now - last_sync_time_ms g > 3000
     then g\<lparr>gp_state := GPTP_STATE_LISTENING, servo_locked := False\<rparr> else g)"

end
