(* ===== verification/Mcr.thy ===== *)
theory Mcr
  imports Gptp Mcr_Dante
begin

text \<open>
  The legacy media clock, \<^theory_text>\<open>firmware/mcr.c\<close>: recovery of an audio rate from the stamps of
  a CRF stream, the servo on the level of the USB ring, and the fall back to the rate of the
  802.1AS clock. The firmware starts it, polls the parts that do nothing without a bound stream,
  and lets its console unbind it. The increment register \<open>mr_nco\<close> is the one \<open>nco_inc\<close> of theory
  Mcr_Dante stands for.
\<close>

section \<open>Constants and state\<close>

definition CRF_TYPE_AUDIO_SAMPLE :: u8 where "CRF_TYPE_AUDIO_SAMPLE = 1"
definition AVTP_SUBTYPE_CRF :: u8 where "AVTP_SUBTYPE_CRF = 0x04"
definition CRF_HDR_LEN :: nat where "CRF_HDR_LEN = 20"
definition CRF_WINDOW_MS :: u32 where "CRF_WINDOW_MS = 32"
definition CRF_OFF_FILT_SHIFT :: nat where "CRF_OFF_FILT_SHIFT = 3"
definition CRF_PPB_SHIFT :: nat where "CRF_PPB_SHIFT = 4"
definition CRF_MEAS_SAMPLES :: nat where "CRF_MEAS_SAMPLES = 16"
definition CRF_PPB_OUTLIER :: int where "CRF_PPB_OUTLIER = 300000"
definition MCR_DELTA_OUTLIER_NS :: int where "MCR_DELTA_OUTLIER_NS = 100000"
definition MCR_GPTP_CORR_SHIFT :: nat where "MCR_GPTP_CORR_SHIFT = 9"
definition MCR_GPTP_DEADBAND :: u32 where "MCR_GPTP_DEADBAND = 2"
definition MCR_STALE_THRESHOLD_MS :: u32 where "MCR_STALE_THRESHOLD_MS = 1000"
definition USB_KP :: int where "USB_KP = 400"
definition USB_KI_NUM :: int where "USB_KI_NUM = 1"
definition USB_KI_DEN :: int where "USB_KI_DEN = 1"
definition USB_INT_CLAMP :: int where "USB_INT_CLAMP = 100000"
definition USB_FILT_SHIFT :: nat where "USB_FILT_SHIFT = 5"
definition USB_CORR_SHIFT :: nat where "USB_CORR_SHIFT = 6"

record mcr_counts =
  mr_rx_count :: u32
  mr_hw_rx_count :: u32
  mr_rx_other :: u32
  mr_bad_type :: u32
  mr_seq_errors :: u32
  mr_rejects :: u32

record crf_trace =
  crf_log :: "(int \<times> int \<times> int \<times> bool) list"
  crf_log_idx :: nat
  crf_log_count :: nat
  crf_log_postlock :: nat
  crf_log_last_ms :: u32

record mcr =
  mr_bound :: bool
  stream_id :: "u8 list"
  base_frequency :: u32
  mr_pull :: u32
  mr_type :: u8
  timestamp_interval :: u16
  timestamps_per_pdu :: nat
  latest_avtp_ts :: u64
  latest_local_ts :: u64
  latest_offset_ns :: int
  have_latest :: bool
  servo_consumed :: bool
  prev_offset_ns :: int
  have_prev :: bool
  mr_integral :: int
  usb_integral :: int
  usb_level_filt :: int
  usb_last_level :: int
  base_increment :: u32
  current_increment :: u32
  mr_locked :: bool
  mr_lock_streak :: u8
  mr_step_count :: u32
  delta_max_abs :: int
  delta_sum_abs :: int
  delta_window_count :: u32
  mr_counts :: mcr_counts
  last_seq :: u8
  have_last_seq :: bool
  last_rx_count_snapshot :: u32
  last_rx_check_ms :: u32
  watchdog_reset_active :: bool
  have_gptp :: bool
  mr_cs :: u8
  gptp_locked_base :: u32
  mr_trace :: crf_trace
  crf_off_filt :: int
  crf_off_win_start :: int
  crf_win_start_ms :: u32
  crf_ppb_filt :: int
  crf_last_err_ppb :: int
  crf_meas_count :: nat
  crf_rate_valid :: bool
  mcr_trim_ppb :: int
  inc_last :: u32
  inc_writes :: "u32 list"
  mr_nco :: u32

abbreviation mr_count :: "(mcr_counts \<Rightarrow> mcr_counts) \<Rightarrow> mcr \<Rightarrow> mcr" where
  "mr_count f m \<equiv> m\<lparr>mr_counts := f (mr_counts m)\<rparr>"

definition rd64 :: "ptr \<Rightarrow> nat \<Rightarrow> u64" where
  "rd64 p i = push_bit 32 (ucast (rd32 p i)) OR ucast (rd32 p (i + 4))"

definition crf_pull_frac :: "u32 \<Rightarrow> u64 \<times> u64" where
  "crf_pull_frac p =
    (if p = 1 then (1000, 1001) else if p = 2 then (1001, 1000) else if p = 3 then (24, 25)
     else if p = 4 then (25, 24) else if p = 5 then (10000, 10001) else if p = 6 then (10001, 10000) else (1, 1))"

section \<open>Start, source, binding\<close>

definition inc_write :: "u32 \<Rightarrow> mcr \<Rightarrow> mcr" where
  "inc_write v m = m\<lparr>current_increment := v, mr_nco := v\<rparr>"

definition inc_write_dbg :: "u32 \<Rightarrow> nat \<Rightarrow> mcr \<Rightarrow> mcr" where
  "inc_write_dbg v who m =
     m\<lparr>inc_writes := (inc_writes m)[who mod 4 := inc_writes m ! (who mod 4) + 1], inc_last := v\<rparr>"

text \<open>All fields are zeroed, except the trim and the debug counters, which are not fields of the struct.\<close>

definition mcr_init :: "u32 \<Rightarrow> u32 \<Rightarrow> mcr \<Rightarrow> mcr" where
  "mcr_init sys_clk_freq fs m =
    (let inc = nominal_inc sys_clk_freq fs in
     inc_write_dbg inc 0
       \<lparr>mr_bound = False, stream_id = replicate 8 0, base_frequency = 0, mr_pull = 0, mr_type = 0, timestamp_interval = 0,
        timestamps_per_pdu = 0, latest_avtp_ts = 0, latest_local_ts = 0, latest_offset_ns = 0, have_latest = False,
        servo_consumed = False, prev_offset_ns = 0, have_prev = False, mr_integral = 0, usb_integral = 0,
        usb_level_filt = 0, usb_last_level = 0, base_increment = inc, current_increment = inc, mr_locked = False,
        mr_lock_streak = 0, mr_step_count = 0, delta_max_abs = 0, delta_sum_abs = 0, delta_window_count = 0,
        mr_counts = \<lparr>mr_rx_count = 0, mr_hw_rx_count = 0, mr_rx_other = 0, mr_bad_type = 0, mr_seq_errors = 0, mr_rejects = 0\<rparr>,
        last_seq = 0, have_last_seq = False, last_rx_count_snapshot = 0, last_rx_check_ms = 0, watchdog_reset_active = True,
        have_gptp = False, mr_cs = 0, gptp_locked_base = inc,
        mr_trace = \<lparr>crf_log = replicate 320 (0, 0, 0, False), crf_log_idx = 0, crf_log_count = 0, crf_log_postlock = 0,
          crf_log_last_ms = 0\<rparr>,
        crf_off_filt = 0, crf_off_win_start = 0, crf_win_start_ms = 0, crf_ppb_filt = 0, crf_last_err_ppb = 0,
        crf_meas_count = 0, crf_rate_valid = False, mcr_trim_ppb = mcr_trim_ppb m, inc_last = inc_last m,
        inc_writes = inc_writes m, mr_nco = inc\<rparr>)"

definition mcr_set_gptp :: "mcr \<Rightarrow> mcr" where
  "mcr_set_gptp m = m\<lparr>have_gptp := True, gptp_locked_base := base_increment m\<rparr>"

definition mcr_set_clock_source :: "u8 \<Rightarrow> mcr \<Rightarrow> mcr" where
  "mcr_set_clock_source c m =
    (let c = (if c = 1 then 1 else 0) in
     if c = mr_cs m then m
     else
       let m = m\<lparr>mr_cs := c, have_prev := False, servo_consumed := True, mr_integral := 0, mr_locked := False, mr_lock_streak := 0,
                 crf_meas_count := 0, crf_rate_valid := False, crf_ppb_filt := 0,
                 mr_trace := (mr_trace m)\<lparr>crf_log_idx := 0, crf_log_count := 0, crf_log_last_ms := 0\<rparr>\<rparr> in
       (inc_write (gptp_locked_base m) m)\<lparr>watchdog_reset_active := True\<rparr>)"

definition mcr_set_trim_ppb :: "int \<Rightarrow> mcr \<Rightarrow> mcr" where
  "mcr_set_trim_ppb ppb m = m\<lparr>mcr_trim_ppb := clamp_sym 50000 ppb\<rparr>"

definition mcr_compute_gptp_base :: "gptp \<Rightarrow> mcr \<Rightarrow> u32" where
  "mcr_compute_gptp_base g m =
    (let b = uint (base_increment m) in
     if \<not> have_gptp m \<or> \<not> servo_locked g \<or> gp_base g = 0 then
       (let b = b + (b * mcr_trim_ppb m) sdiv 1000000000 in of_int (if b < 1 then 1 else b))
     else
       let d = gp_addend g - gp_base g; corr = clamp_sym (b div 2 ^ MCR_GPTP_CORR_SHIFT) ((b * d) sdiv gp_base g);
           inc = b + corr + (b * mcr_trim_ppb m) sdiv 1000000000 in
       of_int (if inc < 1 then 1 else inc))"

definition far_apart :: "u32 \<Rightarrow> u32 \<Rightarrow> bool" where
  "far_apart a b \<longleftrightarrow> (if a > b then a - b else b - a) > MCR_GPTP_DEADBAND"

definition mcr_watchdog_tick :: "gptp \<Rightarrow> u32 \<Rightarrow> mcr \<Rightarrow> mcr" where
  "mcr_watchdog_tick g now m =
    (let gbase = mcr_compute_gptp_base g m; m = m\<lparr>gptp_locked_base := gbase\<rparr> in
     if mr_cs m \<noteq> 1 \<or> \<not> mr_bound m then
       (if \<not> watchdog_reset_active m \<or> far_apart gbase (current_increment m)
        then (inc_write gbase m)\<lparr>watchdog_reset_active := True\<rparr> else m)
     else if mr_rx_count (mr_counts m) \<noteq> last_rx_count_snapshot m then
       (let m = m\<lparr>last_rx_count_snapshot := mr_rx_count (mr_counts m), last_rx_check_ms := now, watchdog_reset_active := False\<rparr> in
        if \<not> crf_rate_valid m \<and> far_apart gbase (current_increment m) then inc_write gbase m else m)
     else if now - last_rx_check_ms m > MCR_STALE_THRESHOLD_MS \<and> \<not> watchdog_reset_active m then
       (inc_write (gptp_locked_base m) m)\<lparr>mr_integral := 0, have_prev := False, mr_locked := False, mr_lock_streak := 0,
          crf_meas_count := 0, crf_rate_valid := False, watchdog_reset_active := True\<rparr>
     else m)"

definition mcr_bind :: "u8 list \<Rightarrow> mcr \<Rightarrow> mcr" where
  "mcr_bind sid m =
     m\<lparr>stream_id := take 8 sid, mr_bound := True,
       mr_counts := (mr_counts m)\<lparr>mr_rx_count := 0, mr_rx_other := 0, mr_bad_type := 0, mr_seq_errors := 0, mr_hw_rx_count := 0\<rparr>,
       have_last_seq := False, have_latest := False, have_prev := False, servo_consumed := True, mr_integral := 0,
       mr_locked := False, mr_step_count := 0, crf_meas_count := 0, crf_rate_valid := False, crf_ppb_filt := 0,
       mr_trace := (mr_trace m)\<lparr>crf_log_idx := 0, crf_log_count := 0, crf_log_postlock := 0, crf_log_last_ms := 0\<rparr>\<rparr>"

definition mcr_unbind :: "mcr \<Rightarrow> mcr" where
  "mcr_unbind m =
    (let m = m\<lparr>mr_bound := False, mr_locked := False, mr_lock_streak := 0, have_latest := False, servo_consumed := True\<rparr> in
     (inc_write (gptp_locked_base m) m)\<lparr>watchdog_reset_active := True\<rparr>)"

section \<open>Reception\<close>

text \<open>The rate error of one measurement, and what it does to the clock.\<close>

definition crf_apply :: "mcr \<Rightarrow> mcr" where
  "crf_apply m =
    (if mr_cs m = 1 \<and> crf_rate_valid m then
       let corr = (uint (gptp_locked_base m) * crf_ppb_filt m) sdiv 1000000000;
           inc = uint (gptp_locked_base m) - corr; inc = of_int (if inc < 1 then 1 else inc) in
       (inc_write inc (inc_write_dbg inc 1 m))\<lparr>mr_locked := True\<rparr>
     else m)"

definition crf_measured :: "int \<Rightarrow> mcr \<Rightarrow> mcr" where
  "crf_measured err_ppb m =
    (if err_ppb < CRF_PPB_OUTLIER \<and> err_ppb > - CRF_PPB_OUTLIER then
       let m = m\<lparr>crf_last_err_ppb := err_ppb,
                 crf_ppb_filt := (if crf_meas_count m = 0 then err_ppb
                                  else crf_ppb_filt m + (err_ppb - crf_ppb_filt m) div 2 ^ CRF_PPB_SHIFT)\<rparr>;
           m = (if crf_meas_count m < CRF_MEAS_SAMPLES then
                  (let m = m\<lparr>crf_meas_count := crf_meas_count m + 1\<rparr> in
                   if crf_meas_count m \<ge> CRF_MEAS_SAMPLES then m\<lparr>crf_rate_valid := True\<rparr> else m)
                else m) in
       crf_apply m
     else m)"

definition crf_rate :: "int \<Rightarrow> u64 \<Rightarrow> mcr \<Rightarrow> mcr" where
  "crf_rate d_avtp events m =
    (if base_frequency m \<noteq> 0 \<and> timestamp_interval m \<noteq> 0 \<and> events \<noteq> 0 then
       let (pnum, pden) = crf_pull_frac (mr_pull m);
           expected = sint ((events * 1000000000 * pden) div (ucast (base_frequency m) * pnum)) in
       if expected > 0 then crf_measured (to_i64 ((d_avtp - expected) * 1000000000) sdiv expected) m else m
     else m)"

definition mcr_process_rx :: "tstamp \<Rightarrow> ptr \<Rightarrow> nat \<Rightarrow> mcr \<Rightarrow> mcr" where
  "mcr_process_rx rx frame len m =
    (let pdu = (\<lambda>i. frame (14 + i)) in
     if \<not> mr_bound m \<or> len < 14 + CRF_HDR_LEN \<or> pdu 0 \<noteq> AVTP_SUBTYPE_CRF then m
     else if bytes_at pdu 4 8 \<noteq> stream_id m then mr_count (\<lambda>c. c\<lparr>mr_rx_other := mr_rx_other c + 1\<rparr>) m
     else
       let sq = pdu 2;
           m = (if have_last_seq m \<and> sq \<noteq> last_seq m + 1 then mr_count (\<lambda>c. c\<lparr>mr_seq_errors := mr_seq_errors c + 1\<rparr>) m else m);
           m = m\<lparr>last_seq := sq, have_last_seq := True\<rparr>;
           m = (if pdu 3 \<noteq> CRF_TYPE_AUDIO_SAMPLE then mr_count (\<lambda>c. c\<lparr>mr_bad_type := mr_bad_type c + 1\<rparr>) m else m);
           pb = rd32 pdu 12;
           m = m\<lparr>mr_pull := drop_bit 29 pb AND 0x7, base_frequency := pb AND 0x1FFFFFFF, mr_type := pdu 3,
                 timestamp_interval := rd16 pdu 18\<rparr>;
           avail = len - (14 + CRF_HDR_LEN); ts_count = unat (rd16 pdu 16) div 8;
           ts_count = (if ts_count * 8 > avail then avail div 8 else ts_count) in
       if ts_count = 0 then m
       else
         let m = m\<lparr>timestamps_per_pdu := (if ts_count > 0xFF then 0xFF else ts_count)\<rparr>;
             avtp_ts = rd64 pdu (CRF_HDR_LEN + 8 * (ts_count - 1));
             m = (if ts_count \<ge> 2 then
                    crf_rate (sint (avtp_ts - rd64 pdu CRF_HDR_LEN)) (of_nat (ts_count - 1) * ucast (timestamp_interval m)) m
                  else if have_latest m then
                    crf_rate (sint (avtp_ts - latest_avtp_ts m)) (of_nat (timestamps_per_pdu m) * ucast (timestamp_interval m)) m
                  else m);
             local_ts = tsec rx * 1000000000 + ucast (tnsec rx);
             m = m\<lparr>latest_avtp_ts := avtp_ts, latest_local_ts := local_ts, latest_offset_ns := sint (avtp_ts - local_ts),
                   have_latest := True, servo_consumed := False\<rparr> in
         mr_count (\<lambda>c. c\<lparr>mr_rx_count := mr_rx_count c + 1\<rparr>) m)"

section \<open>The servos\<close>

definition mcr_usb_lock_reset :: "mcr \<Rightarrow> mcr" where
  "mcr_usb_lock_reset m = m\<lparr>usb_integral := 0, usb_level_filt := 32 * 256\<rparr>"

definition mcr_usb_lock :: "int \<Rightarrow> int \<Rightarrow> mcr \<Rightarrow> mcr" where
  "mcr_usb_lock fifo_level center m =
    (let m = m\<lparr>usb_last_level := fifo_level\<rparr>;
         m = m\<lparr>usb_level_filt := usb_level_filt m + (fifo_level * 256 - usb_level_filt m) div 2 ^ USB_FILT_SHIFT\<rparr>;
         err = usb_level_filt m div 256 - center;
         m = m\<lparr>usb_integral := clamp_sym USB_INT_CLAMP (usb_integral m + err)\<rparr>;
         correction = err * USB_KP + (usb_integral m * USB_KI_NUM) sdiv USB_KI_DEN;
         correction = clamp_sym (uint (base_increment m) div 2 ^ USB_CORR_SHIFT) correction;
         inc = uint (base_increment m) + correction;
         inc = (if inc < 1 then 1 else inc);
         inc = of_int (if inc > 0xFFFFFFFF then 0xFFFFFFFF else inc) in
     inc_write inc (inc_write_dbg inc 2 m))"

definition crf_window :: "u32 \<Rightarrow> mcr \<Rightarrow> mcr" where
  "crf_window now m =
    (if now - crf_win_start_ms m \<ge> CRF_WINDOW_MS
     then m\<lparr>crf_off_win_start := crf_off_filt m, crf_win_start_ms := now, mr_step_count := mr_step_count m + 1\<rparr> else m)"

definition crf_snapshot :: "u32 \<Rightarrow> int \<Rightarrow> int \<Rightarrow> mcr \<Rightarrow> mcr" where
  "crf_snapshot now offs delta m =
    (let t = mr_trace m in
     if crf_log_count t = 0 \<or> now - crf_log_last_ms t \<ge> 10 then
       m\<lparr>mr_trace := t\<lparr>crf_log_last_ms := now,
           crf_log := (crf_log t)[crf_log_idx t := (sat_2e9 offs, sat_2e9 delta,
             sat_2e9 (uint (current_increment m) - uint (base_increment m)), mr_locked m)],
           crf_log_idx := (crf_log_idx t + 1) mod 320,
           crf_log_count := (if crf_log_count t < 320 then crf_log_count t + 1 else crf_log_count t)\<rparr>\<rparr>
     else m)"

definition mcr_servo_update :: "u32 \<Rightarrow> mcr \<Rightarrow> mcr" where
  "mcr_servo_update now m =
    (if \<not> mr_bound m \<or> servo_consumed m \<or> mr_cs m \<noteq> 1 then m
     else
       let m = m\<lparr>servo_consumed := True\<rparr>; offs = latest_offset_ns m in
       if \<not> have_prev m then m\<lparr>prev_offset_ns := offs, crf_off_filt := offs, crf_off_win_start := offs,
         crf_win_start_ms := now, have_prev := True\<rparr>
       else
         let delta = to_i64 (offs - prev_offset_ns m); m = m\<lparr>prev_offset_ns := offs\<rparr> in
         if delta > MCR_DELTA_OUTLIER_NS \<or> delta < - MCR_DELTA_OUTLIER_NS
         then mr_count (\<lambda>c. c\<lparr>mr_rejects := mr_rejects c + 1\<rparr>) m
         else
           let m = m\<lparr>crf_off_filt := crf_off_filt m + to_i64 (offs - crf_off_filt m) div 2 ^ CRF_OFF_FILT_SHIFT\<rparr>;
               m = m\<lparr>delta_max_abs := (if \<bar>delta\<bar> > delta_max_abs m then \<bar>delta\<bar> else delta_max_abs m),
                     delta_sum_abs := delta_sum_abs m + \<bar>delta\<bar>, delta_window_count := delta_window_count m + 1\<rparr> in
           crf_snapshot now offs delta (crf_window now m))"

definition mcr_pump_hw :: "mcr \<Rightarrow> mcr" where
  "mcr_pump_hw m = m"

end
