(* ===== verification/Firmware.thy ===== *)
theory Firmware
  imports Dante_Info Rx_Gate Mcr_Dante Dante_Flows Mcr
begin

text \<open>
  The state of the whole firmware: one component state for every file, the variables that are
  set from one file and read in another, and what an operation reads from the hardware. There is
  one telemetry ring and one announcement: an operation of a component that logs or announces is
  given the ring and its requests are passed on.
\<close>

section \<open>Hardware\<close>

text \<open>The registers an operation reads.\<close>

record hw =
  h_now :: u32
  h_time :: tstamp
  h_rx_ts :: tstamp
  h_tx_ts :: tstamp
  h_sub :: "nat \<Rightarrow> u32"
  h_last_sec :: "nat \<Rightarrow> u32"
  h_last_ts :: "nat \<Rightarrow> u32"
  h_underrun :: u32
  h_overrun :: u32
  h_packets :: u32
  h_fifo_level :: u32
  h_writer_errors :: u32
  h_crc_errors :: u32
  h_gate_drop :: "u32 \<times> u32"
  h_gate_counts :: "u32 \<times> u32 \<times> u32"
  h_usb_beats :: u32
  h_usb_out :: u32

section \<open>State\<close>

text \<open>The loop statistics of \<^theory_text>\<open>main.c\<close>, and the switches of its console.\<close>

record bench =
  window_start_ms :: u32
  s_writer_errors :: u32
  s_sync_rx :: u32
  s_pdresp_rx :: u32
  last_iter_ns :: u32
  max_iter_ns :: u32
  sum_iter_ns :: u64
  iter_count :: u32
  r_writer_errors :: u32
  r_sync_rx :: u32
  r_pdresp_rx :: u32
  r_iter_per_sec :: u32
  r_iter_avg_ns :: u32
  r_iter_max_ns :: u32

record console =
  g_verbose :: bool
  usb_nco_freeze :: bool
  g_src_kp :: int
  g_src_ki :: int
  g_src_integ :: int
  kp_idx :: nat
  ki_idx :: nat
  fb_idx :: nat
  utap :: u8
  ts_off :: int
  ulpi_tap :: u8
  pkt_ts_offset :: u32
  reset_req :: bool

record 'd fw =
  fw_net :: net
  fw_gate :: rx_gate
  fw_cfg :: cfg
  fw_flash :: 'd
  fw_dev :: dante_dev
  fw_mdns :: mdns
  fw_arc :: arc
  fw_cmc :: cmc
  fw_info :: info
  fw_ptp :: ptp
  fw_tx :: tx
  fw_flows :: flows_srv
  fw_mclk :: mclk
  fw_telem :: telem
  fw_gptp :: gptp
  fw_mcr :: mcr
  fw_bench :: bench
  fw_con :: console
  g_fpp_adv_max :: u8
  usb_fb_manual :: u32
  usb_fb_sweep_hold :: bool
  usb_fb_ovr :: u32
  usb_last_ms :: u32
  usb_lock_calls :: u32
  aaf_gw_enabled :: bool
  scratch :: "u8 list"
  rx_total :: u32
  rx_ptp :: u32
  rx_other :: u32
  rx_filtered :: u32
  rx_pops :: u32
  rx_ts_resyncs :: u32
  g_lvl_pre :: u32
  g_lvl_post :: u32
  rx_last_ethertype :: u16
  rx_last_dst :: "u8 list"
  rx_last_src :: "u8 list"

text \<open>A component with the shared ring in its place, and the state after it.\<close>

definition tx_in :: "'d fw \<Rightarrow> tx" where
  "tx_in s = (fw_tx s)\<lparr>tx_telem := fw_telem s\<rparr>"

definition tx_out :: "tx \<Rightarrow> 'd fw \<Rightarrow> 'd fw" where
  "tx_out t s = s\<lparr>fw_tx := t, fw_telem := tx_telem t,
     fw_mdns := (if mdns_announces t = mdns_announces (fw_tx s) then fw_mdns s else mdns_announce_md (fw_mdns s))\<rparr>"

definition ptp_in :: "'d fw \<Rightarrow> ptp" where
  "ptp_in s = (fw_ptp s)\<lparr>pt_telem := fw_telem s\<rparr>"

definition ptp_out :: "ptp \<Rightarrow> 'd fw \<Rightarrow> 'd fw" where
  "ptp_out p s = s\<lparr>fw_ptp := p, fw_telem := pt_telem p\<rparr>"

definition mclk_in :: "'d fw \<Rightarrow> mclk" where
  "mclk_in s = (fw_mclk s)\<lparr>mc_telem := fw_telem s\<rparr>"

definition mclk_out :: "mclk \<Rightarrow> 'd fw \<Rightarrow> 'd fw" where
  "mclk_out m s = s\<lparr>fw_mclk := m, fw_telem := mc_telem m\<rparr>"

text \<open>The increment register of the sample clock is written by both media clocks.\<close>

definition mcr_in :: "'d fw \<Rightarrow> mcr" where
  "mcr_in s = (fw_mcr s)\<lparr>mr_nco := nco_inc (fw_mclk s)\<rparr>"

definition mcr_out :: "mcr \<Rightarrow> 'd fw \<Rightarrow> 'd fw" where
  "mcr_out m s = s\<lparr>fw_mcr := m, fw_mclk := (fw_mclk s)\<lparr>nco_inc := mr_nco m\<rparr>\<rparr>"

text \<open>The time-stamp unit is driven by both clock slaves.\<close>

definition gptp_out :: "gptp \<Rightarrow> 'd fw \<Rightarrow> 'd fw" where
  "gptp_out g s = s\<lparr>fw_gptp := g, fw_ptp := (fw_ptp s)\<lparr>pt_tsu := gp_tsu g\<rparr>\<rparr>"

text \<open>What a component reads of the others.\<close>

definition ptp_view_of :: "hw \<Rightarrow> ptp_view" where
  "ptp_view_of h = \<lparr>pv_now = h_now h, pv_time = h_time h, pv_rx_ts = h_rx_ts h, pv_tx_ts = h_tx_ts h\<rparr>"

definition tx_view_of :: "hw \<Rightarrow> 'd fw \<Rightarrow> tx_view" where
  "tx_view_of h s = \<lparr>vw_now = h_now h, vw_sec = tsec (h_time h), vw_ns = tnsec (h_time h),
     vw_last_sec = h_last_sec h, vw_last_ts = h_last_ts h, vw_locked = locked (fw_ptp s),
     vw_phase_settled = phase_settled (fw_ptp s), vw_path_delay = mean_path_delay_ns (fw_ptp s),
     vw_steps = step_count (fw_ptp s), vw_rate_ready = mcr_dante_rate_ready (locked (fw_ptp s)) (fw_mclk s)\<rparr>"

definition mclk_view_of :: "hw \<Rightarrow> 'd fw \<Rightarrow> mclk_view" where
  "mclk_view_of h s = tx_view.extend (tx_view_of h s)
     (mclk_view.fields (h_underrun h) (anchors (tx_stats (fw_tx s))) (talker_on (fw_tx s)) (rate_ppb (fw_ptp s)))"

text \<open>The clock that the network stack reads.\<close>

definition at_time :: "hw \<Rightarrow> 'd fw \<Rightarrow> 'd fw" where
  "at_time h s = s\<lparr>fw_net := (fw_net s)\<lparr>now_ms := h_now h\<rparr>\<rparr>"

end
