(* ===== verification/Dstats.thy ===== *)
theory Dstats
  imports Firmware
begin

text \<open>
  The diagnostic port 7779, \<^theory_text>\<open>firmware/dstats.c\<close>: counters, and the knobs that can be
  turned while the device runs.
\<close>

section \<open>Replies\<close>

definition STATS_PORT :: u16 where "STATS_PORT = 7779"
definition RXGATE_REVERT_MS :: u32 where "RXGATE_REVERT_MS = 30000"

definition words :: "u32 list \<Rightarrow> u8 list" where
  "words ws = concat (map be32 ws)"

definition stats_reply :: "datagram \<Rightarrow> u8 list \<Rightarrow> 'd fw \<Rightarrow> 'd fw" where
  "stats_reply d p s =
     s\<lparr>fw_net := snd (net_udp_commit (dg_src d) (dg_sport d) STATS_PORT (length p) 0 (payload_put 0 p (fw_net s)))\<rparr>"

fun mac_hi4 :: "mac6 \<Rightarrow> u32" where
  "mac_hi4 (a, b, c, d, e, f) = push_bit 24 (ucast a) OR push_bit 16 (ucast b) OR push_bit 8 (ucast c) OR ucast d"

fun mac_lo2 :: "mac6 \<Rightarrow> u32" where
  "mac_lo2 (a, b, c, d, e, f) = push_bit 8 (ucast e) OR ucast f"

section \<open>The receive gate and the media clock\<close>

definition rxgate_words :: "hw \<Rightarrow> 'd fw \<Rightarrow> u32 list" where
  "rxgate_words h s =
    (let g = rx_gate_get_status (h_now h) (h_gate_drop h) (h_gate_counts h) (fw_gate s) in
     [0x52584731, of_bool (st_enabled g), of_bool (st_pending_revert g), st_revert_in_ms g, st_match g, st_nomatch g,
      st_discarded g, mac_hi4 (st_last_drop_mac g), mac_lo2 (st_last_drop_mac g), h_writer_errors h, rx_filtered s])"

definition rxgate_rx :: "hw \<Rightarrow> datagram \<Rightarrow> 'd fw \<Rightarrow> 'd fw" where
  "rxgate_rx h d s =
    (let req = ptr_of (dg_payload d); g = fw_gate s;
         g = (if length (dg_payload d) \<ge> 2 then
                (if req 1 = 0x31 then rx_gate_set True RXGATE_REVERT_MS (h_now h) g
                 else if req 1 = 0x30 then rx_gate_set False 0 (h_now h) g
                 else if req 1 = 0x63 then rx_gate_commit g else g)
              else g);
         s = s\<lparr>fw_gate := g\<rparr> in
     stats_reply d (words (rxgate_words h s)) s)"

definition mclk_words :: "hw \<Rightarrow> 'd fw \<Rightarrow> u32 list" where
  "mclk_words h s =
    (let m = fw_mclk s in
     [0x4D434C4B, of_bool (mc_enabled m), of_bool (locked (fw_ptp s)), of_int (target_ppb m), of_int (applied_ppb m),
      base_inc m, applied_inc m, nco_writes m, trips m, ucast (lvl_min m), ucast (lvl_avg m), ucast (lvl_max m),
      underrun_per_s m, of_int (drift_samples m), h_underrun h, h_overrun h, of_bool (phase_enabled m), of_int (phase_ppb m)])"

definition mclk_rx :: "hw \<Rightarrow> datagram \<Rightarrow> 'd fw \<Rightarrow> 'd fw" where
  "mclk_rx h d s =
    (let req = ptr_of (dg_payload d);
         s = (if length (dg_payload d) \<ge> 2 then
                (if req 1 = 0x31 then mclk_out (mcr_dante_set_enabled True (h_now h) (mclk_in s)) s
                 else if req 1 = 0x30 then mclk_out (mcr_dante_set_enabled False (h_now h) (mclk_in s)) s
                 else if req 1 = 0x50 then s\<lparr>fw_mclk := mcr_dante_set_phase_enabled True (fw_mclk s)\<rparr>
                 else if req 1 = 0x70 then s\<lparr>fw_mclk := mcr_dante_set_phase_enabled False (fw_mclk s)\<rparr> else s)
              else s) in
     stats_reply d (words (mclk_words h s)) s)"

section \<open>Numbers in requests\<close>

text \<open>The digits from an offset on.\<close>

definition digits_at :: "u8 list \<Rightarrow> nat \<Rightarrow> u8 list" where
  "digits_at req i = takeWhile (\<lambda>c. 0x30 \<le> c \<and> c \<le> 0x39) (drop i req)"

definition dec_u32 :: "u8 list \<Rightarrow> u32" where
  "dec_u32 ds = foldl (\<lambda>v c. v * 10 + (ucast c - 0x30)) 0 ds"

definition dec_u16 :: "u8 list \<Rightarrow> u16" where
  "dec_u16 ds = foldl (\<lambda>v c. v * 10 + (ucast c - 0x30)) 0 ds"

text \<open>Signed digits; the addition is taken to wrap.\<close>

definition dec_i32 :: "u8 list \<Rightarrow> int" where
  "dec_i32 ds = foldl (\<lambda>v c. to_i32 (v * 10 + (uint c - 0x30))) 0 ds"

section \<open>The knobs\<close>

definition st_tuning :: "datagram \<Rightarrow> 'd fw \<Rightarrow> 'd fw" where
  "st_tuning d s =
    (let req = ptr_of (dg_payload d);
         s = (if length (dg_payload d) \<ge> 7
              then s\<lparr>fw_ptp := ptpv1_set_tuning (unat (req 1)) (sint (rd32 req 2)) (req 6 \<noteq> 0) (fw_ptp s)\<rparr> else s);
         p = fw_ptp s in
     stats_reply d (words [0x53525630, of_nat (rt_median_n p), of_int (rt_ki_num p), of_bool (rt_exact_integ p)]) s)"

definition st_pacing :: "hw \<Rightarrow> datagram \<Rightarrow> 'd fw \<Rightarrow> 'd fw" where
  "st_pacing h d s = stats_reply d (words [0x50414331, of_nat (DANTE_TX_CHANNELS div 8), h_sub h 0]) s"

definition flow_detail_words :: "u32 \<Rightarrow> flow_slot \<Rightarrow> u32 list" where
  "flow_detail_words now x =
     [push_bit 24 (of_bool (in_use x)) OR push_bit 16 (ucast (fl_nslots x)) OR push_bit 8 (ucast (fl_fpp x)) OR of_bool (fl_mcast x),
      ip_word (fl_dst x), ucast (fl_dport x), now - last_ms x] @
     map (\<lambda>i. push_bit 16 (ucast (fl_chans x ! i)) OR ucast (fl_chans x ! (i + 1))) [0, 2, 4, 6]"

definition st_flows :: "hw \<Rightarrow> datagram \<Rightarrow> 'd fw \<Rightarrow> 'd fw" where
  "st_flows h d s =
     stats_reply d (words ([0x464C5731, 6] @ concat (map (\<lambda>f. flow_detail_words (h_now h) (flows (fw_tx s) ! f)) [0..<6]))) s"

definition st_phase_adj :: "datagram \<Rightarrow> 'd fw \<Rightarrow> 'd fw" where
  "st_phase_adj d s =
    (let ds = digits_at (dg_payload d) 1;
         s = (if ds \<noteq> [] then s\<lparr>fw_tx := (fw_tx s)\<lparr>g_phase_adj := dec_u32 ds\<rparr>\<rparr> else s) in
     stats_reply d (words [0x50485631, g_phase_adj (fw_tx s)]) s)"

definition st_mcast :: "hw \<Rightarrow> datagram \<Rightarrow> 'd fw \<Rightarrow> 'd fw" where
  "st_mcast h d s =
    (let ds = digits_at (dg_payload d) 1;
         s = (if ds \<noteq> [] then
                (let v = dec_u16 ds in
                 if dante_tx_fpp_supported (fw_tx s) v then s\<lparr>fw_tx := (fw_tx s)\<lparr>g_mcast_fpp := v\<rparr>\<rparr> else s)
              else tx_out (snd (dante_tx_bind_multicast (h_sub h) (h_now h) (g_net_ip (fw_net s)) 0x40 [1, 2, 3, 4] 4 (tx_in s))) s) in
     stats_reply d (words [0x4D434131, ucast (g_mcast_fpp (fw_tx s))]) s)"

definition st_versions :: "datagram \<Rightarrow> 'd fw \<Rightarrow> 'd fw" where
  "st_versions d s =
    (let req = ptr_of (dg_payload d) in
     stats_reply d (words [0x56455231]) (s\<lparr>fw_arc := (fw_arc s)\<lparr>g_router_vers := rd16 req 1, g_arcp_vers := rd16 req 3\<rparr>\<rparr>))"

definition st_caps :: "datagram \<Rightarrow> 'd fw \<Rightarrow> 'd fw" where
  "st_caps d s =
    (let req = ptr_of (dg_payload d) in
     stats_reply d (words [0x43415031] @ [req 1, req 2]) (s\<lparr>fw_arc := (fw_arc s)\<lparr>g_dev_flags0 := req 1, g_dev_flags2 := req 2\<rparr>\<rparr>))"

definition st_patch_u32 :: "datagram \<Rightarrow> 'd fw \<Rightarrow> 'd fw" where
  "st_patch_u32 d s =
    (let req = ptr_of (dg_payload d); (r, a) = dante_arc_patch_1100_u32 (rd16 req 1) (rd32 req 3) (fw_arc s) in
     stats_reply d (words [if r \<noteq> 0 then 0x424C4242 else 0x424C424F]) (s\<lparr>fw_arc := a\<rparr>))"

definition st_patch :: "datagram \<Rightarrow> 'd fw \<Rightarrow> 'd fw" where
  "st_patch d s =
    (let req = ptr_of (dg_payload d); (r, a) = dante_arc_patch_1100 (rd16 req 1) (rd16 req 3) (fw_arc s) in
     stats_reply d (words [if r \<noteq> 0 then 0x4B455242 else 0x4B45594F]) (s\<lparr>fw_arc := a\<rparr>))"

definition st_mirror :: "datagram \<Rightarrow> 'd fw \<Rightarrow> 'd fw" where
  "st_mirror d s =
    (let s = (if length (dg_payload d) \<ge> 5 then s\<lparr>fw_arc := (fw_arc s)\<lparr>g_arc_mirror_ip := ip_at (ptr_of (dg_payload d)) 1\<rparr>\<rparr> else s) in
     stats_reply d (words [0x4D495231] @ ip_bytes (g_arc_mirror_ip (fw_arc s))) s)"

definition st_clamp :: "hw \<Rightarrow> datagram \<Rightarrow> 'd fw \<Rightarrow> 'd fw" where
  "st_clamp h d s =
    (let c = dg_payload d ! 1 \<noteq> 0; s = tx_out (dante_tx_drop_all (h_now h) ((tx_in s)\<lparr>g_fpp_clamp := c\<rparr>)) s in
     stats_reply d (words [0x434C4D31] @ [of_bool c]) s)"

definition st_autoraise :: "datagram \<Rightarrow> 'd fw \<Rightarrow> 'd fw" where
  "st_autoraise d s =
    (let c = dg_payload d ! 1 \<noteq> 0; s = tx_out (mdns_announce ((tx_in s)\<lparr>g_latency_autoraise := c\<rparr>)) s in
     stats_reply d (words [0x4C415A31] @ [of_bool c]) s)"

definition st_adv_max :: "datagram \<Rightarrow> 'd fw \<Rightarrow> 'd fw" where
  "st_adv_max d s =
    (let v = (if dg_payload d ! 1 \<noteq> 0 then dg_payload d ! 1 else 8); s = tx_out (mdns_announce (tx_in s)) (s\<lparr>g_fpp_adv_max := v\<rparr>) in
     stats_reply d (words [0x46505941] @ [v]) s)"

definition st_max_accept :: "hw \<Rightarrow> datagram \<Rightarrow> 'd fw \<Rightarrow> 'd fw" where
  "st_max_accept h d s =
    (let v = (if dg_payload d ! 1 \<noteq> 0 then dg_payload d ! 1 else 60);
         s = tx_out (dante_tx_drop_all (h_now h) ((tx_in s)\<lparr>g_fpp_max_accept := v\<rparr>)) s in
     stats_reply d (words [0x46505831] @ [v]) s)"

definition st_latency :: "datagram \<Rightarrow> 'd fw \<Rightarrow> 'd fw" where
  "st_latency d s =
    (let s = (if length (dg_payload d) \<ge> 5 then
                (let v = rd32 (ptr_of (dg_payload d)) 1 in
                 if v \<ge> 100000 \<and> v \<le> 40000000 then tx_out (mdns_announce ((tx_in s)\<lparr>g_latency_ns := v\<rparr>)) s else s)
              else s) in
     stats_reply d (words [0x4C415431, g_latency_ns (fw_tx s)]) s)"

definition st_usb :: "hw \<Rightarrow> datagram \<Rightarrow> 'd fw \<Rightarrow> 'd fw" where
  "st_usb h d s = stats_reply d (words [0x55534231, h_usb_beats h, h_usb_out h, h_overrun h, h_underrun h]) s"

definition st_feedback :: "datagram \<Rightarrow> 'd fw \<Rightarrow> 'd fw" where
  "st_feedback d s =
    (let ds = digits_at (dg_payload d) 1;
         s = (if ds \<noteq> [] then s\<lparr>usb_fb_manual := dec_u32 ds, usb_fb_sweep_hold := (dec_u32 ds \<noteq> 0)\<rparr> else s) in
     stats_reply d (words [0x46425631, usb_fb_manual s]) s)"

definition st_offset :: "hw \<Rightarrow> datagram \<Rightarrow> 'd fw \<Rightarrow> 'd fw" where
  "st_offset h d s =
    (let req = dg_payload d; neg = (length req \<ge> 2 \<and> req ! 1 = 0x2D); plus = (length req \<ge> 2 \<and> req ! 1 = 0x2B);
         ds = digits_at req (if neg \<or> plus then 2 else 1);
         v = dec_i32 ds;
         s = (if ds \<noteq> [] then tx_out (dante_tx_set_ts_offset (to_i32 (if neg then - v else v)) (tx_view_of h s) (tx_in s)) s else s) in
     stats_reply d (words [0x54534F31, of_int (ts_offset_samples (fw_tx s))]) s)"

section \<open>The counters\<close>

definition flow_words :: "u32 \<Rightarrow> tx \<Rightarrow> nat \<Rightarrow> u32 list" where
  "flow_words now t f =
    (let (iu, age, rb) = dante_tx_flow_info f now t; m = dante_tx_flow_mac f t in
     [of_bool iu, age, rb, mac_hi4 m, mac_lo2 m])"

definition counter_words :: "hw \<Rightarrow> 'd fw \<Rightarrow> u32 list" where
  "counter_words h s =
    (let t = fw_tx s in
     [of_bool (talker_on t), h_packets h, h_underrun h, h_overrun h, h_fifo_level h, h_last_sec h 0, h_last_ts h 0,
      anchors (tx_stats t), enables (tx_stats t), disables (tx_stats t), of_bool (locked (fw_ptp s)),
      of_int (offset_ns (fw_ptp s)), of_int (mean_path_delay_ns (fw_ptp s)), h_writer_errors h, h_crc_errors h,
      ucast (tsec (h_time h)), ns_samples (tnsec (h_time h)),
      of_nat (dante_tx_active t), fs_requests (fw_flows s), fs_rejected (fw_flows s)] @
     concat (map (flow_words (h_now h) t) [0..<6]))"

section \<open>The handler\<close>

definition stats_rx :: "hw \<Rightarrow> datagram \<Rightarrow> 'd fw \<Rightarrow> 'd fw" where
  "stats_rx h d s =
    (let len = length (dg_payload d); req = ptr_of (dg_payload d); op = req 0 in
     if len \<ge> 1 \<and> op = 0x67 then rxgate_rx h d s
     else if len \<ge> 1 \<and> op = 0x73 then st_tuning d s
     else if len \<ge> 1 \<and> op = 0x70 then st_pacing h d s
     else if len \<ge> 1 \<and> op = 0x66 then st_flows h d s
     else if len \<ge> 1 \<and> op = 0x50 then st_phase_adj d s
     else if len \<ge> 1 \<and> op = 0x4D then st_mcast h d s
     else if len \<ge> 5 \<and> op = 0x56 then st_versions d s
     else if len \<ge> 3 \<and> op = 0x47 then st_caps d s
     else if len \<ge> 7 \<and> op = 0x42 then st_patch_u32 d s
     else if len \<ge> 5 \<and> op = 0x4B then st_patch d s
     else if len \<ge> 1 \<and> op = 0x41 then st_mirror d s
     else if len \<ge> 2 \<and> op = 0x43 then st_clamp h d s
     else if len \<ge> 2 \<and> op = 0x5A then st_autoraise d s
     else if len \<ge> 2 \<and> op = 0x59 then st_adv_max d s
     else if len \<ge> 2 \<and> op = 0x58 then st_max_accept h d s
     else if len \<ge> 1 \<and> op = 0x4C then st_latency d s
     else if len \<ge> 1 \<and> op = 0x75 then st_usb h d s
     else if len \<ge> 1 \<and> op = 0x46 then st_feedback d s
     else if len \<ge> 1 \<and> op = 0x6F then st_offset h d s
     else if len \<ge> 1 \<and> op = 0x74 then s\<lparr>fw_net := telem_rx (dg_src d) (dg_sport d) (dg_payload d) (fw_telem s) (fw_net s)\<rparr>
     else if len \<ge> 1 \<and> op = 0x6D then mclk_rx h d s
     else stats_reply d (words (counter_words h s)) s)"

definition dante_stats_init :: "'d fw \<Rightarrow> 'd fw" where
  "dante_stats_init s = s\<lparr>fw_net := snd (net_udp_bind STATS_PORT (Some Stats_Rx) (fw_net s))\<rparr>"

end
