(* ===== verification/Mainloop.thy ===== *)
theory Mainloop
  imports Dstats
begin

text \<open>
  The main program, \<^theory_text>\<open>firmware/main.c\<close>: start-up, the receive dispatcher with its
  software filter and VLAN strip, the calls of the UDP handlers, the order of the polls, and the
  console commands that change state. The frames pending in the MAC are a list of pairs of hardware
  readings and slot contents.
\<close>

section \<open>The handlers behind the ports\<close>

definition udp_call :: "'d spi \<Rightarrow> hw \<Rightarrow> datagram \<Rightarrow> 'd fw \<Rightarrow> 'd fw" where
  "udp_call xfer h d s =
    (case dg_fn d of
       Arc_Rx \<Rightarrow> (let (a, t, nt) = arc_rx (h_sub h) (h_now h) (fw_dev s) d (fw_arc s) (tx_in s) (fw_net s) in
         tx_out t (s\<lparr>fw_arc := a, fw_net := nt\<rparr>))
     | Cmc_Rx \<Rightarrow> (let (c, nt) = cmc_rx (fw_dev s) d (fw_cmc s) (fw_net s) in s\<lparr>fw_cmc := c, fw_net := nt\<rparr>)
     | Flows_Rx \<Rightarrow> (let (c, t, nt) = flows_rx (h_sub h) (h_now h) (fw_dev s) (g_arc_mirror_ip (fw_arc s)) d (fw_flows s) (tx_in s) (fw_net s) in
         tx_out t (s\<lparr>fw_flows := c, fw_net := nt\<rparr>))
     | Info_Rx \<Rightarrow> (let (i, nt) = info_rx (fw_dev s) (fw_ptp s) d (fw_info s, fw_net s) in s\<lparr>fw_info := i, fw_net := nt\<rparr>)
     | Stats_Rx \<Rightarrow> stats_rx h d s
     | Mdns_Rx \<Rightarrow> (let (m, nt) = mdns_rx (fw_dev s) (fw_tx s) (g_fpp_adv_max s) d (fw_mdns s) (fw_net s) in
         s\<lparr>fw_mdns := m, fw_net := nt\<rparr>)
     | Ptpv1_Rx \<Rightarrow> (let (p, g, f) = ptpv1_rx xfer (ptp_view_of h) d (ptp_in s, fw_cfg s, fw_flash s) in
         ptp_out p (s\<lparr>fw_cfg := g, fw_flash := f\<rparr>))
     | Probe_Rx \<Rightarrow> s\<lparr>fw_ptp := probe_rx (ptp_view_of h) d (fw_ptp s)\<rparr>
     | Cap_Req_Rx \<Rightarrow> s\<lparr>fw_net := cap_req_rx (dg_src d) (dg_payload d) (fw_net s)\<rparr>)"

section \<open>Reception\<close>

text \<open>Which group addresses the software filter keeps.\<close>

definition rx_keep :: "ptr \<Rightarrow> bool" where
  "rx_keep f =
    (if f 0 = 0xFF \<and> f 1 = 0xFF \<and> f 2 = 0xFF then True
     else if f 0 = 0x01 \<and> f 1 = 0x00 \<and> f 2 = 0x5E then
       (if f 3 = 0x00 \<and> f 4 = 0x00 then True
        else f 3 = 0x00 \<and> f 4 = 0x01 \<and> f 5 = 0x81)
     else f 0 = 0x01 \<and> f 1 = 0x80 \<and> f 2 = 0xC2)"

text \<open>The copy into \<^theory_text>\<open>scratch\<close>, without a VLAN tag; the length after it.\<close>

definition rx_strip :: "u8 list \<Rightarrow> u8 list \<Rightarrow> u8 list \<times> nat" where
  "rx_strip sc slot =
    (let tagged = (length slot \<ge> 18 \<and> rd16 (ptr_of slot) 12 = 0x8100);
         len = min (length slot) 1600;
         sc = put 0 (take len slot) sc in
     if tagged then (put 12 (take (len - 16) (drop 16 sc)) sc, len - 4) else (sc, len))"

definition rx_ethertype :: "'d spi \<Rightarrow> hw \<Rightarrow> nat \<Rightarrow> 'd fw \<Rightarrow> 'd fw" where
  "rx_ethertype xfer h len s =
    (let et = rd16 (ptr_of (scratch s)) 12; s = s\<lparr>rx_total := rx_total s + 1, rx_last_ethertype := et\<rparr> in
     if et = PTP_ETHERTYPE then s\<lparr>rx_ptp := rx_ptp s + 1\<rparr>
     else if et = 0x0806 \<or> et = 0x0800 then
       (let (r, d, nt) = net_rx_frame (ptr_of (scratch s)) len (fw_net s); s = s\<lparr>fw_net := nt\<rparr> in
        case d of None \<Rightarrow> s | Some d \<Rightarrow> udp_call xfer h d s)
     else s\<lparr>rx_other := rx_other s + 1\<rparr>)"

definition rx_frame :: "'d spi \<Rightarrow> 'd fw \<Rightarrow> hw \<times> u8 list \<Rightarrow> 'd fw" where
  "rx_frame xfer s = (\<lambda>(h, slot).
    let f = ptr_of slot; s = at_time h s in
    if f 0 AND 0x01 \<noteq> 0 \<and> \<not> rx_keep f then s\<lparr>rx_filtered := rx_filtered s + 1, rx_pops := rx_pops s + 1\<rparr>
    else
      let s = s\<lparr>fw_net := (fw_net s)\<lparr>cap := cap_record 0 f (length slot) (h_now h) (cap (fw_net s))\<rparr>, rx_pops := rx_pops s + 1\<rparr>;
          (sc, len) = rx_strip (scratch s) slot; s = s\<lparr>scratch := sc\<rparr> in
      if len \<ge> 14 then rx_ethertype xfer h len (s\<lparr>rx_last_dst := bytes_at f 0 6, rx_last_src := bytes_at f 6 6\<rparr>) else s)"

text \<open>The time-stamp ring is brought back to two entries, then at most 64 frames are taken.\<close>

definition dispatch_rx :: "'d spi \<Rightarrow> u32 \<times> u32 \<Rightarrow> (hw \<times> u8 list) list \<Rightarrow> 'd fw \<Rightarrow> 'd fw" where
  "dispatch_rx xfer = (\<lambda>(lvl, post) frames s.
    let s = s\<lparr>g_lvl_pre := lvl, rx_ts_resyncs := rx_ts_resyncs s + (if lvl > 2 then lvl - 2 else 0), g_lvl_post := post\<rparr> in
     foldl (rx_frame xfer) s (take 64 frames))"

section \<open>Statistics of the loop\<close>

definition bench_window :: "hw \<Rightarrow> 'd fw \<Rightarrow> bench \<Rightarrow> bench" where
  "bench_window h s b =
    (let c = gp_rx (fw_gptp s) in
     b\<lparr>r_writer_errors := h_writer_errors h - s_writer_errors b, r_sync_rx := rx_sync_count c - s_sync_rx b,
       r_pdresp_rx := rx_pdelay_resp_count c - s_pdresp_rx b, r_iter_per_sec := iter_count b, r_iter_max_ns := max_iter_ns b,
       r_iter_avg_ns := (if iter_count b \<noteq> 0 then ucast (sum_iter_ns b div ucast (iter_count b)) else 0),
       s_writer_errors := h_writer_errors h, s_sync_rx := rx_sync_count c, s_pdresp_rx := rx_pdelay_resp_count c,
       window_start_ms := h_now h, iter_count := 0, sum_iter_ns := 0, max_iter_ns := 0\<rparr>)"

definition bench_iter :: "u32 \<Rightarrow> bench \<Rightarrow> bench" where
  "bench_iter now_ns b =
    (let b = (if last_iter_ns b \<noteq> 0 then
                (let dt = now_ns - last_iter_ns b; dt = (if sint dt < 0 then dt + 1000000000 else dt) in
                 b\<lparr>max_iter_ns := (if dt > max_iter_ns b then dt else max_iter_ns b),
                   sum_iter_ns := sum_iter_ns b + ucast dt, iter_count := iter_count b + 1\<rparr>)
              else b) in
     b\<lparr>last_iter_ns := now_ns\<rparr>)"

definition bench_tick :: "hw \<Rightarrow> 'd fw \<Rightarrow> 'd fw" where
  "bench_tick h s =
    (let b = bench_iter (tnsec (h_time h)) (fw_bench s);
         elapsed = h_now h - window_start_ms b; elapsed = (if elapsed > 2000000000 then 0 else elapsed) in
     s\<lparr>fw_bench := (if elapsed < 1000 then b else bench_window h s b)\<rparr>)"

section \<open>The gateware talker\<close>

text \<open>\<^theory_text>\<open>dante_tx_init\<close> also clears the register of the timestamp offset.\<close>

definition start_talker :: "'d fw \<Rightarrow> 'd fw" where
  "start_talker s =
     s\<lparr>fw_tx := dante_tx_init (g_net_ip (fw_net s)) (dd_mac (fw_dev s)) (fw_tx s), fw_con := (fw_con s)\<lparr>pkt_ts_offset := 0\<rparr>\<rparr>"

definition aaf_gw_push_binding :: "'d fw \<Rightarrow> 'd fw" where
  "aaf_gw_push_binding s =
    (let s = start_talker s; s = s\<lparr>fw_net := dante_flows_init Flows_Rx (fw_net s)\<rparr> in
     dante_stats_init s)"

definition aaf_gw_set :: "bool \<Rightarrow> 'd fw \<Rightarrow> 'd fw" where
  "aaf_gw_set on s =
    (let s = (if on then aaf_gw_push_binding s else s\<lparr>fw_tx := (fw_tx s)\<lparr>pkt_enable := False\<rparr>\<rparr>) in
     s\<lparr>aaf_gw_enabled := on\<rparr>)"

section \<open>The console\<close>

definition fbtab :: "u32 list" where
  "fbtab = [0, 0x60000, 0x60800, 0x61000, 0x61800, 0x62000, 0x63000]"

definition kps :: "int list" where "kps = [4096, 8192, 16384, 32768, 65536]"
definition kis :: "int list" where "kis = [0, 1, 2, 4, 8, 16]"

definition cfg_clear_crf :: "cfg \<Rightarrow> cfg" where
  "cfg_clear_crf g = g\<lparr>cf_crf_valid := 0, cf_crf_stream_id := replicate 8 0, cf_crf_dmac := replicate 6 0,
     cf_crf_talker_eid := replicate 8 0\<rparr>"

definition clear_binding :: "'d spi \<Rightarrow> 'd fw \<Rightarrow> 'd fw" where
  "clear_binding xfer s =
    (let (g, d) = cfg_save xfer (cfg_clear_crf (fw_cfg s)) (fw_flash s) in
     mcr_out (mcr_unbind (mcr_in s)) (s\<lparr>fw_cfg := g, fw_flash := d\<rparr>))"

text \<open>The commands that only turn a switch of the console.\<close>

definition con_ulpi :: "console \<Rightarrow> console" where
  "con_ulpi k = (let k = k\<lparr>utap := (utap k + 1) AND 0x1F\<rparr> in k\<lparr>ulpi_tap := utap k\<rparr>)"

definition con_reset :: "console \<Rightarrow> console" where
  "con_reset k = k\<lparr>reset_req := True\<rparr>"

definition con_freeze :: "console \<Rightarrow> console" where
  "con_freeze k = k\<lparr>usb_nco_freeze := \<not> usb_nco_freeze k\<rparr>"

definition con_kp :: "console \<Rightarrow> console" where
  "con_kp k = (let i = (kp_idx k + 1) mod length kps in k\<lparr>kp_idx := i, g_src_kp := kps ! i, g_src_integ := 0\<rparr>)"

definition con_ki :: "console \<Rightarrow> console" where
  "con_ki k = (let i = (ki_idx k + 1) mod length kis in k\<lparr>ki_idx := i, g_src_ki := kis ! i, g_src_integ := 0\<rparr>)"

definition con_verbose :: "console \<Rightarrow> console" where
  "con_verbose k = k\<lparr>g_verbose := \<not> g_verbose k\<rparr>"

definition con_offset :: "console \<Rightarrow> console" where
  "con_offset k =
    (let t = ts_off k - 4; t = (if t < -64 then 0 else t) in k\<lparr>ts_off := t, pkt_ts_offset := of_int t\<rparr>)"

definition con_switch :: "u8 \<Rightarrow> console \<Rightarrow> console" where
  "con_switch c =
    (if c = 0x75 then con_ulpi else if c = 0x72 then con_reset else if c = 0x66 then con_freeze else if c = 0x6B then con_kp
     else if c = 0x6A then con_ki else if c = 0x76 then con_verbose else if c = 0x50 then con_offset else id)"

definition con_feedback :: "'d fw \<Rightarrow> 'd fw" where
  "con_feedback s =
    (let i = (fb_idx (fw_con s) + 1) mod length fbtab in
     s\<lparr>fw_con := (fw_con s)\<lparr>fb_idx := i\<rparr>, usb_fb_manual := fbtab ! i\<rparr>)"

definition con_delta_reset :: "'d fw \<Rightarrow> 'd fw" where
  "con_delta_reset s = s\<lparr>fw_mcr := (fw_mcr s)\<lparr>delta_max_abs := 0, delta_sum_abs := 0, delta_window_count := 0\<rparr>\<rparr>"

definition check_uart_cmd :: "'d spi \<Rightarrow> hw \<Rightarrow> u8 option \<Rightarrow> 'd fw \<Rightarrow> 'd fw" where
  "check_uart_cmd xfer h key s =
    (case key of None \<Rightarrow> s
     | Some c \<Rightarrow>
       if c = 0x7A then s\<lparr>fw_net := (fw_net s)\<lparr>cap := cap_reset (cap (fw_net s))\<rparr>\<rparr>
       else if c = 0x6D then con_delta_reset s
       else if c = 0x74 then aaf_gw_set True s
       else if c = 0x54 then aaf_gw_set False s
       else if c = 0x46 then con_feedback s
       else if c = 0x4E then clear_binding xfer s
       else if c = 0x78 then s\<lparr>fw_gate := rx_gate_set (\<not> s_enabled (fw_gate s)) 0 (h_now h) (fw_gate s)\<rparr>
       else if c = 0x64 then mclk_out (mcr_dante_set_enabled (\<not> mc_enabled (fw_mclk s)) (h_now h) (mclk_in s)) s
       else s\<lparr>fw_con := con_switch c (fw_con s)\<rparr>)"

section \<open>Start-up\<close>

definition mac_addr :: mac6 where "mac_addr = (0x02, 0x00, 0x00, 0x00, 0x00, 0x42)"

text \<open>The address in the configuration, if it is one.\<close>

definition boot_ip :: "cfg \<Rightarrow> ip4 option \<times> u8" where
  "boot_ip g = (if (cf_osc_prefix g = 16 \<or> cf_osc_prefix g = 24) \<and> fst (cf_osc_ip g) \<noteq> 0
                then (Some (cf_osc_ip g), cf_osc_prefix g) else (None, 0))"

text \<open>The network and the servers, in the order they are started.\<close>

definition main_net :: "'d fw \<Rightarrow> 'd fw" where
  "main_net s =
    (let (ip, prefix) = boot_ip (fw_cfg s);
         nt = net_init mac_addr ip prefix (fw_net s);
         s = s\<lparr>fw_gate := rx_gate_init mac_addr (fw_gate s)\<rparr>;
         nt = snd (net_igmp_join ptp_group nt);
         s = s\<lparr>fw_dev := dante_dev_init mac_addr\<rparr>;
         (md, nt) = mdns_init (fw_dev s) (fw_mdns s) nt;
         nt = dante_cmc_init (dante_arc_init nt);
         (i, nt) = dante_info_init (fw_info s, nt);
         (p, nt) = ptpv1_init mac_addr (fw_cfg s) (fw_ptp s) nt;
         s = start_talker (s\<lparr>fw_mdns := md, fw_info := i, fw_ptp := p, fw_net := nt\<rparr>) in
     s\<lparr>fw_net := cap_init (fw_net s)\<rparr>)"

definition main_boot :: "'d spi \<Rightarrow> hw \<Rightarrow> 'd fw \<Rightarrow> 'd fw" where
  "main_boot xfer h s =
    (let d = cfgflash_warmup xfer (fw_flash s);
         (j, d) = cfgflash_jedec xfer d;
         (found, g, d) = cfg_load xfer d;
         s = s\<lparr>fw_cfg := g, fw_flash := d\<rparr>;
         s = gptp_out (gptp_init mac_addr (pt_tsu (fw_ptp s)) (gp_wire (fw_gptp s))) s;
         s = main_net s;
         s = mcr_out (mcr_set_gptp (mcr_init (of_int CONFIG_CLOCK_FREQUENCY) 48000 (mcr_in s))) s;
         s = s\<lparr>fw_mclk := mcr_dante_init (of_int CONFIG_CLOCK_FREQUENCY) 48000 (h_underrun h) (h_now h) (fw_cfg s) (fw_mclk s)\<rparr>;
         s = aaf_gw_set True s in
     mcr_out (mcr_set_clock_source 0 (mcr_in s)) s)"

section \<open>The loop\<close>

text \<open>The polls of one pass; reading \<open>h k\<close> is made in step \<open>k\<close>.\<close>

definition poll_servers :: "(nat \<Rightarrow> hw) \<Rightarrow> 'd fw \<Rightarrow> 'd fw" where
  "poll_servers h s =
    (let s = s\<lparr>fw_gate := rx_gate_poll (h_now (h 0)) (fw_gate s)\<rparr>;
         s = at_time (h 1) s;
         (m, nt) = mdns_poll (fw_dev s) (fw_tx s) (g_fpp_adv_max s) (h_now (h 1)) (fw_mdns s) (fw_net s);
         s = at_time (h 2) (s\<lparr>fw_mdns := m, fw_net := nt\<rparr>);
         (i, nt) = dante_info_poll (h_now (h 2)) (fw_dev s) (fw_ptp s) (fw_info s, fw_net s);
         s = at_time (h 3) (s\<lparr>fw_info := i, fw_net := nt\<rparr>);
         (p, nt) = ptpv1_poll (ptp_view_of (h 3)) (ptp_in s) (fw_net s) in
     ptp_out p (s\<lparr>fw_net := nt\<rparr>))"

definition poll_clock :: "'d spi \<Rightarrow> hw \<Rightarrow> 'd fw \<Rightarrow> 'd fw" where
  "poll_clock xfer h s =
    (let s = mcr_out (mcr_servo_update (h_now h) (mcr_pump_hw (mcr_in s))) s;
         (m, g, d) = mcr_dante_poll xfer (mclk_view_of h s) (mclk_in s, fw_cfg s, fw_flash s) in
     mclk_out m (s\<lparr>fw_cfg := g, fw_flash := d\<rparr>))"

definition poll_talker :: "hw \<Rightarrow> 'd fw \<Rightarrow> 'd fw" where
  "poll_talker h s =
    (if aaf_gw_enabled s then tx_out (dante_tx_expire (dante_tx_poll (tx_view_of h s) (tx_in s))) s
     else if talker_on (fw_tx s) then s\<lparr>fw_tx := (fw_tx s)\<lparr>pkt_enable := False\<rparr>\<rparr> else s)"

definition poll_usb :: "hw \<Rightarrow> 'd fw \<Rightarrow> 'd fw" where
  "poll_usb h s =
    (if h_now h \<noteq> usb_last_ms s then
       let s = s\<lparr>usb_last_ms := h_now h, usb_lock_calls := usb_lock_calls s + 1, usb_fb_ovr := usb_fb_manual s,
               fw_mcr := (fw_mcr s)\<lparr>usb_last_level := sint (h_fifo_level h)\<rparr>\<rparr> in
       s\<lparr>fw_mclk := mcr_dante_level_sample (h_fifo_level h) (fw_mclk s)\<rparr>
     else s)"

definition main_iter :: "'d spi \<Rightarrow> (nat \<Rightarrow> hw) \<Rightarrow> u32 \<times> u32 \<Rightarrow> (hw \<times> u8 list) list \<Rightarrow> u8 option \<Rightarrow> 'd fw \<Rightarrow> 'd fw" where
  "main_iter xfer h lvl frames key s =
    (let s = bench_tick (h 8) s;
         s = dispatch_rx xfer lvl frames s;
         s = poll_servers h s;
         s = poll_clock xfer (h 4) s;
         s = poll_talker (h 5) s;
         s = poll_usb (h 6) s in
     check_uart_cmd xfer (h 7) key s)"

end
