(* ===== verification/Mainloop_Net.thy ===== *)
theory Mainloop_Net
  imports Mainloop Dante_Arc_Claims
begin

text \<open>
  What the servers do to the network stack: whatever they receive, and at every poll, they leave
  its tables and addresses alone and keep the transmit slots and the capture ring well formed. So
  the invariant of the stack needs nothing of a server but that it is one.
\<close>

section \<open>Keeping the stack\<close>

definition keeps_net :: "net \<Rightarrow> net \<Rightarrow> bool" where
  "keeps_net s s' \<longleftrightarrow> tables s' = tables s \<and> (hw_ok s \<longrightarrow> hw_ok s')"

named_theorems net_keeps

lemma keeps_refl [simp, net_keeps]: "keeps_net s s"
  by (simp add: keeps_net_def)

lemma keeps_trans: "keeps_net s t \<Longrightarrow> keeps_net t u \<Longrightarrow> keeps_net s u"
  by (simp add: keeps_net_def)

lemma keeps_inv: "net_inv s \<Longrightarrow> keeps_net s s' \<Longrightarrow> net_inv s'"
  unfolding keeps_net_def using net_inv_frame net_inv_hw by blast

lemma keeps_tables: "keeps_net s s' \<Longrightarrow> udp_bindings s' = udp_bindings s \<and> arp_cache s' = arp_cache s \<and> g_net_ip s' = g_net_ip s"
  by (simp add: keeps_net_def tables_def)

text \<open>Storing never shrinks a slot, whatever is stored.\<close>

lemma put_grows: "length buf \<le> length (put off bs buf)"
  by (simp add: put_def)

lemma put_longer: "n \<le> length buf \<Longrightarrow> n \<le> length (put off bs buf)"
  using put_grows le_trans by blast

lemma hw_ok_put_any: "hw_ok s \<Longrightarrow> hw_ok (tx_put off bs s)"
proof -
  assume s: "hw_ok s"
  then have "1442 \<le> length (put off bs (tx_buf s))" using tx_buf_len [OF hw_ok_tx(1)] by (intro put_longer)
  with s show ?thesis
    by (auto simp: hw_ok_def tx_wf_def tx_put_def dest!: set_list_update_in)
qed

lemma keeps_put [net_keeps]: "keeps_net s t \<Longrightarrow> keeps_net s (payload_put off bs t)"
  using hw_ok_put_any by (simp add: keeps_net_def payload_put_def)

lemma keeps_commit [net_keeps]: "keeps_net s t \<Longrightarrow> keeps_net s (snd (net_udp_commit dst dp sp n tos t))"
  using net_udp_commit_frame by (metis keeps_net_def keeps_trans)

lemma keeps_lookup: "net_arp_lookup ip s = (m, t) \<Longrightarrow> keeps_net s t"
  using net_arp_lookup_frame [of ip s] by (simp add: keeps_net_def)

lemma slot_len: "hw_ok t \<Longrightarrow> k < length (tx_slots t) \<Longrightarrow> 1442 \<le> length (tx_slots t ! k)"
  unfolding hw_ok_def tx_wf_def by (meson nth_mem)

lemma keeps_slot:
  assumes "keeps_net s t" "hw_ok t \<Longrightarrow> k < length (tx_slots t) \<Longrightarrow> 1400 \<le> length (m_buf m)"
  shows "keeps_net s (msg_slot k m t)"
proof -
  have "hw_ok (msg_slot k m t)" if t: "hw_ok t"
  proof (cases "k < length (tx_slots t)")
    case True
    with slot_len [OF t] have "42 \<le> length (tx_slots t ! k)" by fastforce
    then show ?thesis using t True assms(2)
      by (auto simp: hw_ok_def tx_wf_def msg_slot_def min_def dest!: set_list_update_in)
  qed (use t in \<open>simp add: msg_slot_def list_update_beyond not_less\<close>)
  then show ?thesis using assms(1) by (simp add: keeps_net_def tables_def msg_slot_def)
qed

text \<open>The builder on what a slot holds is long enough, and so is one with more appended.\<close>

lemma slot_msg_long: "hw_ok t \<Longrightarrow> k < length (tx_slots t) \<Longrightarrow> 1400 \<le> length (m_buf (slot_msg k n t))"
  using slot_len [of t k] by (simp add: slot_msg_def)

lemma msg_longer:
  "n \<le> length (m_buf m) \<Longrightarrow> n \<le> length (m_buf (dante_msg_u16 w m))" "n \<le> length (m_buf m) \<Longrightarrow> n \<le> length (m_buf (dante_msg_u32 x m))"
  "n \<le> length (m_buf m) \<Longrightarrow> n \<le> length (m_buf (snd (dante_msg_finish code m)))"
  "n \<le> length buf \<Longrightarrow> n \<le> length (m_buf (dante_msg_begin buf req))"
  by (simp_all add: dante_msg_u16_def dante_msg_u32_def dante_msg_finish_def dante_msg_patch_u16_def dante_msg_begin_def Let_def put_longer)

lemma keeps_foldl: "(\<And>t x. keeps_net t (f t x)) \<Longrightarrow> keeps_net s (foldl f s xs)"
proof (induction xs arbitrary: s)
  case (Cons x xs)
  then show ?case using keeps_trans [of s "f s x"] by simp
qed simp

section \<open>The servers\<close>

lemma cap_req_keeps: "keeps_net s (cap_req_rx src pl s)"
proof -
  have "keeps_net s (cap_send_ring src CAP_OUT_PORT s)"
    unfolding cap_send_ring_def by (intro keeps_foldl) (simp add: cap_send_pair_def net_keeps)
  moreover have "keeps_net t (t\<lparr>cap := cap_reset (cap t)\<rparr>)" for t
    by (simp add: keeps_net_def tables_def hw_ok_def tx_wf_def cap_reset_inv)
  ultimately show ?thesis using keeps_trans by (auto simp: cap_req_rx_def Let_def)
qed

lemma cmc_keeps: "keeps_net s (snd (cmc_rx g d c s))"
  by (simp add: cmc_rx_def Let_def split_beta net_keeps)

lemma telem_keeps: "keeps_net nt (telem_rx src sp req s nt)"
  by (simp add: telem_rx_def Let_def net_keeps)

lemma response_keeps_net: "keeps_net nt (snd (send_response g s adv want md nt))"
  by (simp add: send_response_def Let_def split_beta net_keeps)

lemma mdns_rx_keeps: "keeps_net nt (snd (mdns_rx g s adv d md nt))"
  by (simp add: mdns_rx_def Let_def response_keeps_net split: prod.splits option.splits)

lemma mdns_poll_keeps: "keeps_net nt (snd (mdns_poll g s adv now md nt))"
proof -
  have "keeps_net nt (snd (send_response g s adv w m2 (snd (send_response g s adv w' m1 nt))))" for w w' m1 m2
    by (rule keeps_trans [OF response_keeps_net response_keeps_net])
  then show ?thesis by (simp add: mdns_poll_def Let_def split_beta response_keeps_net)
qed

lemma bind_unicast_keeps:
  assumes "dante_tx_bind_unicast rd now p dst dport chans n fpp s nt = (r, s', nt')"
  shows "keeps_net nt nt'"
proof (cases "net_arp_lookup dst nt")
  case (Pair m t)
  then have "nt' = t" using assms by (cases m) (auto simp: dante_tx_bind_unicast_def Let_def split: prod.splits)
  with keeps_lookup [OF Pair] show ?thesis by simp
qed

lemma flow_decide_keeps:
  assumes "flow_decide rd now g src req len k c s nt = (code, n, c', s', nt')"
  shows "keeps_net nt nt'"
proof -
  have grant: "keeps_net nt t'" if "flow_grant rd now src q fpp k c s nt = (code, n, c', s', t')" for q fpp code n c c' s' t'
  proof -
    obtain f s1 t where b: "dante_tx_bind_unicast rd now src (fq_dst q) (fq_dport q) (fq_chans q) (ucast (fq_nch q)) (ucast fpp) s nt = (f, s1, t)"
      by (metis prod_cases3)
    have "t' = t \<or> (\<exists>x y. t' = msg_slot k (dante_msg_u16 x (dante_msg_u32 y (slot_msg k DANTE_HDR_LEN t))) t)"
      using that by (auto simp: flow_grant_def b Let_def split: if_splits)
    then show ?thesis using bind_unicast_keeps [OF b] slot_msg_long by (auto intro!: keeps_slot msg_longer)
  qed
  show ?thesis
    using assms grant by (auto simp: flow_decide_def Let_def split: if_splits prod.splits)
qed

lemma flows_keeps: "keeps_net nt (snd (snd (flows_rx rd now g mir d c s nt)))"
proof -
  let ?req = "ptr_of (dg_payload d)" and ?len = "length (dg_payload d)" and ?k = "txslot nt"
  let ?nt = "msg_slot ?k (dante_msg_begin (drop 42 (tx_buf nt)) ?req) nt"
  obtain code n c1 s1 t where dec: "flow_decide rd now g (dg_src d) ?req ?len ?k (c\<lparr>fs_rx := fs_rx c + 1\<rparr>) s ?nt = (code, n, c1, s1, t)"
    by (metis prod_cases5)
  obtain total m where f: "dante_msg_finish code (slot_msg ?k n t) = (total, m)" by fastforce
  have m: "m = snd (dante_msg_finish code (slot_msg ?k n t))" using f by simp
  have "keeps_net nt ?nt" by (intro keeps_slot keeps_refl msg_longer) (use slot_len [of nt "txslot nt"] in \<open>simp add: tx_buf_def\<close>)
  then have "keeps_net nt t" by (rule keeps_trans [OF _ flow_decide_keeps [OF dec]])
  then have s: "keeps_net nt (msg_slot ?k m t)" unfolding m by (intro keeps_slot msg_longer slot_msg_long)
  have mir: "keeps_net nt (flow_mirror mir code (dg_src d) fm u)" if "keeps_net nt u" for fm u
    using that by (simp add: flow_mirror_def Let_def net_keeps)
  show ?thesis unfolding flows_rx_def Let_def
    by (clarsimp simp: dec f split_beta mir [OF keeps_commit [OF s]])
qed

text \<open>The ARC server needs its own tables well formed, and keeps them so.\<close>

lemma arc_keeps:
  assumes "arc_wf a" "length (dd_name g) \<le> 31" "hw_ok nt" "arc_rx rd now g d a s nt = (a', s', nt')"
  shows "arc_wf a' \<and> keeps_net nt nt'"
proof (cases "length (dg_payload d) < DANTE_HDR_LEN \<or> dante_req_u16 (ptr_of (dg_payload d)) 8 \<noteq> 0")
  case True
  then have "arc_rx rd now g d a s nt = (a, s, nt)" unfolding arc_rx_def Let_def by argo
  then show ?thesis using assms by simp
next
  case False
  let ?req = "ptr_of (dg_payload d)" and ?a = "a\<lparr>ar_rx := ar_rx a + 1\<rparr>" and ?len = "length (dg_payload d)"
  let ?h = "[?req 0, ?req 1, 0, 0, ?req 4, ?req 5, ?req 6, ?req 7, 0, 0]"
  obtain code m a1 s1 where r: "arc_dispatch rd now g (g_net_ip nt) ?req ?len ?a s (dante_msg_begin (drop 42 (tx_buf nt)) ?req) = (code, m, a1, s1)"
    by (metis prod_cases4)
  obtain total m1 where f: "dante_msg_finish code m = (total, m1)" by fastforce
  have "1400 \<le> length (drop 42 (tx_buf nt))" using tx_buf_len [OF hw_ok_tx(1) [OF assms(3)]] by simp
  note o = opened_begin [OF this, of ?req]
  have "arc_wf ?a" using assms(1) by (simp add: arc_wf_def)
  from dispatch_ok [OF conjunct1 [OF o] conjunct2 [OF o] this max.cobounded1 max.cobounded2 assms(2), of ?len rd now "g_net_ip nt" ?req s]
  have k: "opened ?h m" "arc_wf a1" by (simp_all add: r answer_ok_def)
  have "1400 \<le> length (m_buf m1)" using msg_longer(3) [of 1400 m code] k(1) f by (simp add: opened_def)
  then have "keeps_net nt (msg_slot (txslot nt) m1 nt)" by (intro keeps_slot keeps_refl)
  note c = keeps_commit [OF this]
  have mir: "keeps_net nt (arc_mirror ip code (dg_src d) mi u)" if "keeps_net nt u" for ip mi u
    using that by (simp add: arc_mirror_def Let_def net_keeps)
  show ?thesis
    using assms(4) False k(2) unfolding arc_rx_def Let_def
    by (clarsimp simp: r f split_beta arc_wf_def mir [OF c])
qed

lemma info_commit_keeps: "keeps_net nt (snd (info_commit dst dp p nt))"
  by (simp add: info_commit_def net_keeps)

definition keeps_info :: "(info \<times> net \<Rightarrow> info \<times> net) \<Rightarrow> bool" where
  "keeps_info f \<longleftrightarrow> (\<forall>s. keeps_net (snd s) (snd (f s)))"

lemma keeps_infoI: "(\<And>i nt. keeps_net nt (snd (f (i, nt)))) \<Longrightarrow> keeps_info f"
  by (simp add: keeps_info_def)

lemma info_sends_keep:
  "keeps_info (info_send dst dp p)" "keeps_info (send_heartbeat g q)" "keeps_info (send_device_info g dst dp)"
  "keeps_info (send_product_info g dst dp)" "keeps_info (send_network_info g dst dp)" "keeps_info (send_clock_stats g q dst dp req)"
  "keeps_info (send_caps g dst dp)"
proof -
  have s: "keeps_net nt (snd (info_send dst dp p (i, nt)))" for dst dp p i nt
    using info_commit_keeps by (simp add: info_send_def Let_def split_beta)
  show "keeps_info (info_send dst dp p)" by (rule keeps_infoI [OF s])
  show "keeps_info (send_heartbeat g q)"
    by (rule keeps_infoI) (simp add: send_heartbeat_def Let_def split_beta info_commit_keeps)
  show "keeps_info (send_device_info g dst dp)" "keeps_info (send_product_info g dst dp)" "keeps_info (send_network_info g dst dp)"
    "keeps_info (send_clock_stats g q dst dp req)"
    by (rule keeps_infoI; simp add: send_device_info_def send_product_info_def send_network_info_def send_clock_stats_def s split_beta)+
  have "keeps_net (snd s) (snd (send_cap g dst dp s x))" for s x
    by (simp add: send_cap_def Let_def split_beta info_commit_keeps)
  then have "keeps_net (snd s) (snd (foldl (send_cap g dst dp) s xs))" for s xs
    by (induction xs arbitrary: s) (simp_all, blast intro: keeps_trans)
  then show "keeps_info (send_caps g dst dp)" by (simp add: keeps_info_def send_caps_def)
qed

lemma info_keeps: "keeps_info (info_rx g p d)" "keeps_info (dante_info_poll now g p)"
proof -
  note k = info_sends_keep [unfolded keeps_info_def, rule_format, of "(i, nt)" for i nt, unfolded snd_conv]
  show "keeps_info (info_rx g p d)"
    by (rule keeps_infoI) (simp add: info_rx_def Let_def k)
  note f = info_sends_keep [unfolded keeps_info_def, rule_format]
  have a: "keeps_net (snd s) (snd (info_announce g p s))" for s
    unfolding info_announce_def Let_def
    by (rule keeps_trans [OF keeps_trans [OF keeps_trans [OF keeps_trans [OF f(3) f(4)] f(5)] f(6)] f(7)])
  show "keeps_info (dante_info_poll now g p)"
    by (rule keeps_infoI) (simp add: dante_info_poll_def Let_def split_beta k(2) a [of "(i, nt)" for i nt, unfolded snd_conv])
qed

lemma ptp_poll_keeps: "keeps_net nt (snd (ptpv1_poll v p nt))"
proof -
  have "keeps_net t (snd (send_delay_req v q t))" for q t by (simp add: send_delay_req_def Let_def split_beta net_keeps)
  moreover have "keeps_net t (snd (ptp_dump v q t))" for q t by (simp add: ptp_dump_def Let_def split_beta net_keeps)
  ultimately have "keeps_net nt (snd (ptp_dump v q (snd (send_delay_req v p nt))))" "keeps_net nt (snd (ptp_dump v q nt))" for q
    using keeps_trans by blast+
  then show ?thesis by (simp add: ptpv1_poll_def Let_def split_beta)
qed

end
