(* ===== verification/Mainloop_Inv.thy ===== *)
theory Mainloop_Inv
  imports Mainloop_Net Ptpv1_Claims
begin

text \<open>
  The invariant of the whole firmware and its preservation by every handler, every poll and the
  console: the invariants of the components hold together, the UDP table stays what start-up made it,
  and the retired media clock stays on its internal source, so that its write sites are dead. What
  three keys of the console break is held under a flag that says they were not pressed.
\<close>

section \<open>The invariant\<close>

type_synonym bindings = "(u16 \<times> udp_fn option) list"

text \<open>The talker's invariant if \<open>kt\<close>: the talker was neither restarted nor stopped by hand; the sample clock's if \<open>kn\<close>.\<close>

definition tx_good :: "bool \<Rightarrow> tx \<Rightarrow> bool" where
  "tx_good kt t \<longleftrightarrow> (kt \<longrightarrow> tx_inv t)"

definition mc_good :: "bool \<Rightarrow> mclk \<Rightarrow> bool" where
  "mc_good kn m \<longleftrightarrow> (kn \<longrightarrow> mc_inv m)"

lemma tx_goodI: "tx_good kt t \<Longrightarrow> (tx_inv t \<Longrightarrow> tx_inv t') \<Longrightarrow> tx_good kt t'"
  by (simp add: tx_good_def)

lemma mc_goodI: "mc_good kn m \<Longrightarrow> (mc_inv m \<Longrightarrow> mc_inv m') \<Longrightarrow> mc_good kn m'"
  by (simp add: mc_good_def)

definition fw_ok :: "bool \<Rightarrow> bool \<Rightarrow> bindings \<Rightarrow> 'd fw \<Rightarrow> bool" where
  "fw_ok kt kn bs s \<longleftrightarrow> net_inv (fw_net s) \<and> udp_bindings (fw_net s) = bs \<and> arc_wf (fw_arc s) \<and> length (dd_name (fw_dev s)) \<le> 31 \<and>
     tx_good kt (fw_tx s) \<and> servo_wf (fw_ptp s) \<and> mc_good kn (fw_mclk s) \<and> gate_inv (fw_gate s) \<and>
     mr_cs (fw_mcr s) = 0 \<and> (kt \<longrightarrow> aaf_gw_enabled s)"

text \<open>What it does not speak of.\<close>

lemma fw_ok_simps [simp]:
  "fw_ok kt kn bs (fw_mdns_update f1 s) = fw_ok kt kn bs s" "fw_ok kt kn bs (fw_cfg_update f2 s) = fw_ok kt kn bs s"
  "fw_ok kt kn bs (fw_flash_update f3 s) = fw_ok kt kn bs s" "fw_ok kt kn bs (fw_cmc_update f4 s) = fw_ok kt kn bs s"
  "fw_ok kt kn bs (fw_info_update f5 s) = fw_ok kt kn bs s" "fw_ok kt kn bs (fw_flows_update f6 s) = fw_ok kt kn bs s"
  "fw_ok kt kn bs (fw_telem_update f7 s) = fw_ok kt kn bs s" "fw_ok kt kn bs (fw_bench_update f8 s) = fw_ok kt kn bs s"
  "fw_ok kt kn bs (fw_con_update f9 s) = fw_ok kt kn bs s" "fw_ok kt kn bs (g_fpp_adv_max_update f10 s) = fw_ok kt kn bs s"
  "fw_ok kt kn bs (usb_fb_manual_update f11 s) = fw_ok kt kn bs s" "fw_ok kt kn bs (usb_fb_sweep_hold_update f12 s) = fw_ok kt kn bs s"
  "fw_ok kt kn bs (usb_fb_ovr_update f11 s) = fw_ok kt kn bs s" "fw_ok kt kn bs (usb_last_ms_update f11 s) = fw_ok kt kn bs s"
  "fw_ok kt kn bs (usb_lock_calls_update f11 s) = fw_ok kt kn bs s" "fw_ok kt kn bs (scratch_update f13 s) = fw_ok kt kn bs s"
  by (simp_all add: fw_ok_def)

lemma fw_ok_counters [simp]:
  "fw_ok kt kn bs (rx_total_update f s) = fw_ok kt kn bs s" "fw_ok kt kn bs (rx_ptp_update f s) = fw_ok kt kn bs s" "fw_ok kt kn bs (rx_other_update f s) = fw_ok kt kn bs s"
  "fw_ok kt kn bs (rx_filtered_update f s) = fw_ok kt kn bs s" "fw_ok kt kn bs (rx_pops_update f s) = fw_ok kt kn bs s"
  "fw_ok kt kn bs (rx_ts_resyncs_update f s) = fw_ok kt kn bs s" "fw_ok kt kn bs (g_lvl_pre_update f s) = fw_ok kt kn bs s"
  "fw_ok kt kn bs (g_lvl_post_update f s) = fw_ok kt kn bs s" "fw_ok kt kn bs (rx_last_ethertype_update e s) = fw_ok kt kn bs s"
  "fw_ok kt kn bs (rx_last_dst_update g s) = fw_ok kt kn bs s" "fw_ok kt kn bs (rx_last_src_update g s) = fw_ok kt kn bs s"
  by (simp_all add: fw_ok_def)

text \<open>What it speaks of, one component at a time.\<close>

lemma fw_ok_net:
  assumes "fw_ok kt kn bs s" "keeps_net (fw_net s) nt"
  shows "fw_ok kt kn bs (s\<lparr>fw_net := nt\<rparr>)"
  using assms keeps_inv [of "fw_net s" nt] keeps_tables [of "fw_net s" nt] by (simp add: fw_ok_def)

lemma fw_ok_arc: "fw_ok kt kn bs s \<Longrightarrow> arc_wf a \<Longrightarrow> fw_ok kt kn bs (s\<lparr>fw_arc := a\<rparr>)"
  by (simp add: fw_ok_def)

lemma fw_ok_gate: "fw_ok kt kn bs s \<Longrightarrow> gate_inv a \<Longrightarrow> fw_ok kt kn bs (s\<lparr>fw_gate := a\<rparr>)"
  by (simp add: fw_ok_def)

lemma fw_ok_tx: "fw_ok kt kn bs s \<Longrightarrow> tx_good kt t \<Longrightarrow> fw_ok kt kn bs (s\<lparr>fw_tx := t\<rparr>)"
  by (simp add: fw_ok_def)

lemma fw_ok_ptp: "fw_ok kt kn bs s \<Longrightarrow> servo_wf t \<Longrightarrow> fw_ok kt kn bs (s\<lparr>fw_ptp := t\<rparr>)"
  by (simp add: fw_ok_def)

lemma fw_ok_mclk: "fw_ok kt kn bs s \<Longrightarrow> mc_good kn t \<Longrightarrow> fw_ok kt kn bs (s\<lparr>fw_mclk := t\<rparr>)"
  by (simp add: fw_ok_def)

lemma fw_ok_mcr: "fw_ok kt kn bs s \<Longrightarrow> mr_cs t = 0 \<Longrightarrow> fw_ok kt kn bs (s\<lparr>fw_mcr := t\<rparr>)"
  by (simp add: fw_ok_def)

lemma fw_okD:
  assumes "fw_ok kt kn bs s"
  shows "net_inv (fw_net s)" "udp_bindings (fw_net s) = bs" "arc_wf (fw_arc s)" "length (dd_name (fw_dev s)) \<le> 31"
    "tx_good kt (fw_tx s)" "servo_wf (fw_ptp s)" "mc_good kn (fw_mclk s)" "gate_inv (fw_gate s)" "mr_cs (fw_mcr s) = 0"
    "kt \<Longrightarrow> aaf_gw_enabled s"
  using assms by (simp_all add: fw_ok_def)

text \<open>Handing the telemetry ring over changes nothing.\<close>

lemma tx_inv_telem [simp]: "tx_inv (t\<lparr>tx_telem := r\<rparr>) = tx_inv t"
  by (simp add: tx_inv_def table_wf_def)

lemma servo_wf_telem [simp]: "servo_wf (p\<lparr>pt_telem := r\<rparr>) = servo_wf p"
  by (simp add: servo_wf_def window_wf_def window_def)

lemma mc_inv_telem [simp]: "mc_inv (m\<lparr>mc_telem := r\<rparr>) = mc_inv m"
  by (simp add: mc_inv_def)

lemma in_inv:
  "fw_ok kt kn bs s \<Longrightarrow> tx_good kt (tx_in s)" "fw_ok kt kn bs s \<Longrightarrow> servo_wf (ptp_in s)" "fw_ok kt kn bs s \<Longrightarrow> mc_good kn (mclk_in s)"
  by (simp_all add: fw_ok_def tx_good_def mc_good_def tx_in_def ptp_in_def mclk_in_def)

lemma out_ok:
  "fw_ok kt kn bs s \<Longrightarrow> tx_good kt t \<Longrightarrow> fw_ok kt kn bs (tx_out t s)" "fw_ok kt kn bs s \<Longrightarrow> servo_wf p \<Longrightarrow> fw_ok kt kn bs (ptp_out p s)"
  "fw_ok kt kn bs s \<Longrightarrow> mc_good kn m \<Longrightarrow> fw_ok kt kn bs (mclk_out m s)"
  by (simp_all add: fw_ok_def tx_good_def mc_good_def tx_out_def ptp_out_def mclk_out_def)

lemma at_time_ok: "fw_ok kt kn bs s \<Longrightarrow> fw_ok kt kn bs (at_time h s)"
  using net_step_inv [of "fw_net s" "Net_Tick (h_now h)"] by (simp add: fw_ok_def at_time_def)

lemma cap_ok:
  assumes "fw_ok kt kn bs s" "cap_inv c"
  shows "fw_ok kt kn bs (s\<lparr>fw_net := (fw_net s)\<lparr>cap := c\<rparr>\<rparr>)"
  by (rule fw_ok_net [OF assms(1)]) (use assms(2) in \<open>simp add: keeps_net_def tables_def hw_ok_def tx_wf_def\<close>)

lemma net_cap_inv: "fw_ok kt kn bs s \<Longrightarrow> cap_inv (cap (fw_net s))"
  using net_inv_hw [OF fw_okD(1), of kt kn bs s] by (simp add: hw_ok_def)

section \<open>The talker under its servers\<close>

lemma set_inv:
  "tx_inv (t\<lparr>g_latency_ns := x\<rparr>) = tx_inv t" "tx_inv (t\<lparr>g_fpp_clamp := b\<rparr>) = tx_inv t" "tx_inv (t\<lparr>g_latency_autoraise := b\<rparr>) = tx_inv t"
  "tx_inv (t\<lparr>g_fpp_max_accept := y\<rparr>) = tx_inv t" "tx_inv (t\<lparr>g_phase_adj := z\<rparr>) = tx_inv t" "tx_inv (t\<lparr>g_mcast_fpp := w\<rparr>) = tx_inv t"
  "tx_inv (mdns_announce t) = tx_inv t"
  by (simp_all add: tx_inv_def table_wf_def mdns_announce_def)

lemma multicast_inv: "tx_inv s \<Longrightarrow> tx_inv (snd (dante_tx_bind_multicast rd now our eid chans n s))"
  using bind_multicast_inv by (metis prod.collapse)

lemma mcast_create_inv:
  "tx_inv s \<Longrightarrow> mcast_create rd now ip c clen is acc code s = (acc', code', s') \<Longrightarrow> tx_inv s'"
proof (induction "is" arbitrary: acc code s)
  case (Cons i "is")
  let ?d = "unat (dante_req_u16 c (2 + i * 2)) - DANTE_HDR_LEN"
  obtain f s1 where b: "dante_tx_bind_multicast rd now ip (dante_req_u16 c ?d)
      (map (\<lambda>k. dante_req_u16 c (?d + 16 + 2 * k)) [0..<unat (dante_req_u16 c (?d + 14))]) (ucast (dante_req_u16 c (?d + 14))) s = (f, s1)"
    by fastforce
  have s1: "tx_inv s1" by (rule bind_multicast_inv [OF Cons.prems(1) b])
  from Cons.prems(2) [unfolded mcast_create.simps Let_def b prod.case] show ?case
    using Cons.prems(1) Cons.IH [of s acc code] Cons.IH [OF s1, of acc "0x0315"]
      Cons.IH [OF s1, of "acc @ [dante_req_u16 c ?d]" code]
    by (simp split: if_splits)
qed simp

lemma mcast_delete_inv: "tx_inv s \<Longrightarrow> tx_inv (arc_mcast_delete now c clen s)"
proof -
  have "tx_inv s \<Longrightarrow> tx_inv (foldl (mcast_delete now) s xs)" for xs
    by (induction xs arbitrary: s) (auto simp: mcast_delete_def Let_def intro: unbind_inv)
  then show "tx_inv s \<Longrightarrow> ?thesis" by (simp add: arc_mcast_delete_def)
qed

lemma latency_inv: "tx_inv s \<Longrightarrow> arc_set_latency now c clen s m = (code, m', s') \<Longrightarrow> tx_inv s'"
  by (auto simp: arc_set_latency_def Let_def set_inv split: if_splits intro: drop_all_inv)

lemma create_inv: "tx_inv s \<Longrightarrow> arc_mcast_create rd now ip c clen s m = (code, m', s') \<Longrightarrow> tx_inv s'"
  using mcast_create_inv
  by (auto simp: arc_mcast_create_def Let_def split: if_splits prod.splits)

definition out_tx :: "u16 \<times> dante_msg \<times> arc \<times> tx \<Rightarrow> tx" where
  "out_tx = (\<lambda>(code, m, a, s). s)"

lemma dispatch_tx_inv:
  assumes "tx_inv s"
  shows "tx_inv (out_tx (arc_dispatch rd now g ip req len a s m))"
proof -
  have plain: "tx_inv (out_tx (code, m, a, s))" for code m a using assms by (simp add: out_tx_def)
  have page: "tx_inv (out_tx (case r of (code, m) \<Rightarrow> (code, m, a, s)))" for r :: "u16 \<times> dante_msg" and a
    using assms by (simp add: out_tx_def split: prod.split)
  have pr: "tx_inv (out_tx (case arc_properties s a m of (m, a) \<Rightarrow> (DANTE_CODE_OK, m, a, s)))"
    using assms by (simp add: out_tx_def split: prod.split)
  have flow: "tx_inv (out_tx (case arc_set_latency now c k s m of (code, m, s) \<Rightarrow> (code, m, a, s)))"
    "tx_inv (out_tx (case arc_mcast_create rd now ip c k s m of (code, m, s) \<Rightarrow> (code, m, a, s)))" for c k
    using latency_inv [OF assms] create_inv [OF assms] by (auto simp: out_tx_def split: prod.splits)
  have del: "tx_inv (out_tx (DANTE_CODE_OK, m, a, arc_mcast_delete now c k s))" for c k
    using mcast_delete_inv [OF assms] by (simp add: out_tx_def)
  have ite: "tx_inv (out_tx x) \<Longrightarrow> tx_inv (out_tx y) \<Longrightarrow> tx_inv (out_tx (if b then x else y))" for x y b by simp
  show ?thesis
    unfolding arc_dispatch_def Let_def by (intro ite; rule plain page pr flow del)
qed

lemma arc_rx_tx_inv:
  assumes "tx_inv s" "arc_rx rd now g d a s nt = (a', s', nt')"
  shows "tx_inv s'"
proof (cases "length (dg_payload d) < DANTE_HDR_LEN \<or> dante_req_u16 (ptr_of (dg_payload d)) 8 \<noteq> 0")
  case True
  then have "arc_rx rd now g d a s nt = (a, s, nt)" unfolding arc_rx_def Let_def by argo
  then show ?thesis using assms by simp
next
  case False
  let ?req = "ptr_of (dg_payload d)"
  obtain code m a1 s1 where r: "arc_dispatch rd now g (g_net_ip nt) ?req (length (dg_payload d)) (a\<lparr>ar_rx := ar_rx a + 1\<rparr>) s
      (dante_msg_begin (drop 42 (tx_buf nt)) ?req) = (code, m, a1, s1)" by (metis prod_cases4)
  have "s' = s1" using assms(2) False unfolding arc_rx_def Let_def by (clarsimp simp: r split_beta)
  with dispatch_tx_inv [OF assms(1), of rd now g "g_net_ip nt" ?req "length (dg_payload d)" "a\<lparr>ar_rx := ar_rx a + 1\<rparr>"
      "dante_msg_begin (drop 42 (tx_buf nt)) ?req"]
  show ?thesis by (simp add: r out_tx_def)
qed

lemma flow_decide_inv:
  assumes "tx_inv s" "flow_decide rd now g src req len k c s nt = (code, n, c', s', nt')"
  shows "tx_inv s'"
proof -
  have grant: "tx_inv t'" if "flow_grant rd now src q fpp k c s nt = (code, n, c', t', nt')" for q fpp code n c c' t' nt'
  proof -
    obtain f s1 t where b: "dante_tx_bind_unicast rd now src (fq_dst q) (fq_dport q) (fq_chans q) (ucast (fq_nch q)) (ucast fpp) s nt = (f, s1, t)"
      by (metis prod_cases3)
    have "t' = s1" using that by (auto simp: flow_grant_def b Let_def split: if_splits)
    then show ?thesis using bind_unicast_inv [OF assms(1) b] by simp
  qed
  show ?thesis using assms grant by (auto simp: flow_decide_def Let_def split: if_splits prod.splits)
qed

lemma flows_rx_tx_inv:
  assumes "tx_inv s" "flows_rx rd now g mir d c s nt = (c', s', nt')"
  shows "tx_inv s'"
proof (cases "length (dg_payload d) < DANTE_HDR_LEN \<or> dante_req_u16 (ptr_of (dg_payload d)) 8 \<noteq> 0")
  case True
  then have "s' = s" using assms(2) unfolding flows_rx_def Let_def by (auto split: if_splits)
  then show ?thesis using assms(1) by simp
next
  case False
  let ?nt = "msg_slot (txslot nt) (dante_msg_begin (drop 42 (tx_buf nt)) (ptr_of (dg_payload d))) nt"
  obtain code n c1 s1 t where dec: "flow_decide rd now g (dg_src d) (ptr_of (dg_payload d)) (length (dg_payload d)) (txslot nt)
      (c\<lparr>fs_rx := fs_rx c + 1\<rparr>) s ?nt = (code, n, c1, s1, t)" by (metis prod_cases5)
  have "s' = s1" using assms(2) False unfolding flows_rx_def Let_def by (clarsimp simp: dec split_beta)
  then show ?thesis using flow_decide_inv [OF assms(1) dec] by simp
qed

section \<open>The diagnostic port\<close>

lemma stats_reply_ok: "fw_ok kt kn bs s \<Longrightarrow> fw_ok kt kn bs (stats_reply d p s)"
  unfolding stats_reply_def by (rule fw_ok_net) (simp_all add: net_keeps)

lemma gate_ops:
  "gate_inv g \<Longrightarrow> gate_inv (rx_gate_set on r now g)" "gate_inv g \<Longrightarrow> gate_inv (rx_gate_commit g)" "gate_inv g \<Longrightarrow> gate_inv (rx_gate_poll now g)"
  using gate.step_inv [of g "Gate_Set on r now"] gate.step_inv [of g Gate_Commit] gate.step_inv [of g "Gate_Poll now"] by simp_all

lemma mclk_ops:
  "mc_good kn m \<Longrightarrow> mc_good kn (mcr_dante_set_enabled on now m)" "mc_good kn m \<Longrightarrow> mc_good kn (mcr_dante_set_phase_enabled on m)"
  "mc_good kn m \<Longrightarrow> mc_good kn (mcr_dante_level_sample l m)"
proof -
  define xf :: "unit spi" where "xf = (\<lambda>_ _ d. (0, d))"
  have "mc_inv m \<Longrightarrow> mc_inv (mcr_dante_set_enabled on now m)" by (rule mc_inv_step [OF mc_step.arm [of xf _ g "()"]])
  moreover have "mc_inv m \<Longrightarrow> mc_inv (mcr_dante_set_phase_enabled on m)" by (rule mc_inv_step [OF mc_step.phase [of xf _ g "()"]])
  moreover have "mc_inv m \<Longrightarrow> mc_inv (mcr_dante_level_sample l m)" by (rule mc_inv_step [OF mc_step.sample [of xf _ g "()"]])
  ultimately show "mc_good kn m \<Longrightarrow> mc_good kn (mcr_dante_set_enabled on now m)"
    "mc_good kn m \<Longrightarrow> mc_good kn (mcr_dante_set_phase_enabled on m)" "mc_good kn m \<Longrightarrow> mc_good kn (mcr_dante_level_sample l m)"
    by (simp_all add: mc_good_def)
qed

lemma gate_mclk_rx_ok: "fw_ok kt kn bs s \<Longrightarrow> fw_ok kt kn bs (rxgate_rx h d s)" "fw_ok kt kn bs s \<Longrightarrow> fw_ok kt kn bs (mclk_rx h d s)"
proof -
  assume s: "fw_ok kt kn bs s"
  have g: "gate_inv (fw_gate s)" by (rule fw_okD(8) [OF s])
  show "fw_ok kt kn bs (rxgate_rx h d s)"
    unfolding rxgate_rx_def Let_def by (intro stats_reply_ok fw_ok_gate s) (simp add: g gate_ops)
  have m: "fw_ok kt kn bs (mclk_out (mcr_dante_set_enabled on now (mclk_in s)) s)" for on now
    by (rule out_ok(3) [OF s mclk_ops(1) [OF in_inv(3) [OF s]]])
  have p: "fw_ok kt kn bs (s\<lparr>fw_mclk := mcr_dante_set_phase_enabled on (fw_mclk s)\<rparr>)" for on
    by (rule fw_ok_mclk [OF s mclk_ops(2) [OF fw_okD(7) [OF s]]])
  show "fw_ok kt kn bs (mclk_rx h d s)"
    unfolding mclk_rx_def Let_def by (intro stats_reply_ok) (simp add: s m p)
qed

lemma tuning_ok:
  assumes "fw_ok kt kn bs s"
  shows "fw_ok kt kn bs (st_tuning d s)"
proof -
  have k: "\<bar>sint x\<bar> \<le> 2147483648" for x :: u32 using sint_greater_eq [of x] sint_less [of x] by simp
  have "fw_ok kt kn bs (s\<lparr>fw_ptp := ptpv1_set_tuning n (sint x) e (fw_ptp s)\<rparr>)" for n e and x :: u32
    by (rule fw_ok_ptp [OF assms tuning_wf [OF fw_okD(6) [OF assms] k]])
  then show ?thesis using assms unfolding st_tuning_def Let_def by (intro stats_reply_ok) simp
qed

lemma knobs_ok:
  assumes s: "fw_ok kt kn bs s"
  shows "fw_ok kt kn bs (st_phase_adj d s)" "fw_ok kt kn bs (st_mcast h d s)" "fw_ok kt kn bs (st_clamp h d s)" "fw_ok kt kn bs (st_autoraise d s)"
    "fw_ok kt kn bs (st_adv_max d s)" "fw_ok kt kn bs (st_max_accept h d s)" "fw_ok kt kn bs (st_latency d s)" "fw_ok kt kn bs (st_offset h d s)"
proof -
  note t = fw_okD(5) [OF s] and i = in_inv(1) [OF s]
  have o: "fw_ok kt kn bs (tx_out (dante_tx_set_ts_offset k v (tx_in s)) s)" for k v
    by (rule out_ok(1) [OF s tx_goodI [OF i tx_step_inv [OF Step_Offset]]])
  have q: "tx_good kt r \<Longrightarrow> fw_ok kt kn bs (tx_out r s)" for r by (rule out_ok(1) [OF s])
  have q': "tx_good kt r \<Longrightarrow> fw_ok kt kn bs (tx_out r (s\<lparr>g_fpp_adv_max := x\<rparr>))" for r x by (rule out_ok(1)) (simp_all add: s)
  have u: "tx_good kt r \<Longrightarrow> fw_ok kt kn bs (s\<lparr>fw_tx := r\<rparr>)" for r by (rule fw_ok_tx [OF s])
  have dr: "tx_good kt r \<Longrightarrow> tx_good kt (dante_tx_drop_all now r)" for now r by (erule tx_goodI) (rule drop_all_inv)
  have mu: "tx_good kt r \<Longrightarrow> tx_good kt (snd (dante_tx_bind_multicast rd now our eid chans n r))" for rd now our eid chans n r
    by (erule tx_goodI) (rule multicast_inv)
  note set = set_inv [THEN arg_cong [of _ _ "\<lambda>b. kt \<longrightarrow> b"], folded tx_good_def]
  show "fw_ok kt kn bs (st_phase_adj d s)" "fw_ok kt kn bs (st_mcast h d s)"
    unfolding st_phase_adj_def st_mcast_def Let_def by (intro stats_reply_ok; simp add: s u q t i set mu)+
  show "fw_ok kt kn bs (st_clamp h d s)" "fw_ok kt kn bs (st_autoraise d s)" "fw_ok kt kn bs (st_adv_max d s)" "fw_ok kt kn bs (st_max_accept h d s)"
    unfolding st_clamp_def st_autoraise_def st_adv_max_def st_max_accept_def Let_def
    by (intro stats_reply_ok; simp add: q q' dr i set)+
  show "fw_ok kt kn bs (st_latency d s)" "fw_ok kt kn bs (st_offset h d s)"
    unfolding st_latency_def st_offset_def Let_def by (intro stats_reply_ok; simp add: s o q i set)+
qed

lemma key_entry_inside: "key_entry key b = Some i \<Longrightarrow> 2 + i * 4 + 4 \<le> length b"
  unfolding key_entry_def find_Some_iff using set_takeWhileD by (metis nth_mem)

lemma arc_knobs_ok:
  assumes s: "fw_ok kt kn bs s"
  shows "fw_ok kt kn bs (st_versions d s)" "fw_ok kt kn bs (st_caps d s)" "fw_ok kt kn bs (st_patch_u32 d s)" "fw_ok kt kn bs (st_patch d s)" "fw_ok kt kn bs (st_mirror d s)"
proof -
  note a = fw_okD(3) [OF s]
  have wf: "arc_wf (fw_arc s\<lparr>g_router_vers := x, g_arcp_vers := y\<rparr>)" "arc_wf (fw_arc s\<lparr>g_dev_flags0 := b, g_dev_flags2 := c\<rparr>)"
    "arc_wf (fw_arc s\<lparr>g_arc_mirror_ip := ip\<rparr>)" for x y b c ip using a by (simp_all add: arc_wf_def)
  show "fw_ok kt kn bs (st_versions d s)" "fw_ok kt kn bs (st_caps d s)" "fw_ok kt kn bs (st_mirror d s)"
    unfolding st_versions_def st_caps_def st_mirror_def Let_def
    by (intro stats_reply_ok; simp add: s fw_ok_arc [OF s] wf)+
  have p: "length (snd (arc_1100_patch key v b)) = length b" for key v b
    using key_entry_inside [of key b] by (auto simp: arc_1100_patch_def Let_def split: option.splits)
  have "arc_wf (snd (dante_arc_patch_1100_u32 key v (fw_arc s)))" "arc_wf (snd (dante_arc_patch_1100 key w (fw_arc s)))" for key v w
    using a by (simp_all add: arc_wf_def dante_arc_patch_1100_u32_def dante_arc_patch_1100_def split_beta p patch_u32_length)
  then show "fw_ok kt kn bs (st_patch_u32 d s)" "fw_ok kt kn bs (st_patch d s)"
    unfolding st_patch_u32_def st_patch_def Let_def split_beta by (intro stats_reply_ok; simp add: fw_ok_arc [OF s])+
qed

lemma stats_ok:
  assumes s: "fw_ok kt kn bs s"
  shows "fw_ok kt kn bs (stats_rx h d s)"
proof -
  have r: "fw_ok kt kn bs (st_pacing h d s)" "fw_ok kt kn bs (st_flows h d s)" "fw_ok kt kn bs (st_usb h d s)" "fw_ok kt kn bs (stats_reply d p s)" for p
    using s by (simp_all add: st_pacing_def st_flows_def st_usb_def stats_reply_ok)
  have f: "fw_ok kt kn bs (st_feedback d s)" unfolding st_feedback_def Let_def by (intro stats_reply_ok) (simp add: s)
  have t: "fw_ok kt kn bs (s\<lparr>fw_net := telem_rx src sp req tl (fw_net s)\<rparr>)" for src sp req tl by (rule fw_ok_net [OF s telem_keeps])
  have ite: "fw_ok kt kn bs x \<Longrightarrow> fw_ok kt kn bs y \<Longrightarrow> fw_ok kt kn bs (if b then x else y)" for x y b by simp
  show ?thesis unfolding stats_rx_def Let_def
    by (intro ite; rule gate_mclk_rx_ok [OF s] tuning_ok [OF s] knobs_ok [OF s] arc_knobs_ok [OF s] r f t)
qed

section \<open>Every datagram\<close>

lemma udp_call_ok:
  assumes s: "fw_ok kt kn bs s"
  shows "fw_ok kt kn bs (udp_call xfer h d s)"
proof (cases "dg_fn d")
  case Arc_Rx
  obtain a t nt where r: "arc_rx (h_sub h) (h_now h) (fw_dev s) d (fw_arc s) (tx_in s) (fw_net s) = (a, t, nt)" by (metis prod_cases3)
  note k = arc_keeps [OF fw_okD(3,4) [OF s] net_inv_hw [OF fw_okD(1) [OF s]] r]
  have "fw_ok kt kn bs (s\<lparr>fw_arc := a, fw_net := nt\<rparr>)" using fw_ok_net [OF fw_ok_arc [OF s, of a]] k by simp
  then show ?thesis using tx_goodI [OF in_inv(1) [OF s] arc_rx_tx_inv [OF _ r]] by (simp add: udp_call_def Arc_Rx r out_ok)
next
  case Flows_Rx
  obtain c t nt where r: "flows_rx (h_sub h) (h_now h) (fw_dev s) (g_arc_mirror_ip (fw_arc s)) d (fw_flows s) (tx_in s) (fw_net s) = (c, t, nt)"
    by (metis prod_cases3)
  have "keeps_net (fw_net s) nt"
    using flows_keeps [of "fw_net s" "h_sub h" "h_now h" "fw_dev s" "g_arc_mirror_ip (fw_arc s)" d "fw_flows s" "tx_in s"] by (simp add: r)
  from fw_ok_net [OF s this] have "fw_ok kt kn bs (s\<lparr>fw_flows := c, fw_net := nt\<rparr>)" by (simp add: fw_ok_def)
  then show ?thesis using tx_goodI [OF in_inv(1) [OF s] flows_rx_tx_inv [OF _ r]] by (simp add: udp_call_def Flows_Rx r out_ok)
next
  case Ptpv1_Rx
  obtain p g f where r: "ptpv1_rx xfer (ptp_view_of h) d (ptp_in s, fw_cfg s, fw_flash s) = (p, g, f)" by (metis prod_cases3)
  have "servo_wf p" by (rule ptpv1_rx_wf [OF in_inv(2) [OF s] r])
  then show ?thesis by (simp add: udp_call_def Ptpv1_Rx r out_ok s)
next
  case Probe_Rx
  have "servo_wf (probe_rx (ptp_view_of h) d (fw_ptp s))"
    by (rule ptp_step_wf [OF ptp_step.probe [where xfer = "\<lambda>_ _ d. (0, d)" and d = "()"] fw_okD(6) [OF s]])
  then show ?thesis by (simp add: udp_call_def Probe_Rx fw_ok_ptp s)
next
  case Cmc_Rx
  have "fw_ok kt kn bs (s\<lparr>fw_net := snd (cmc_rx (fw_dev s) d (fw_cmc s) (fw_net s))\<rparr>)" by (rule fw_ok_net [OF s cmc_keeps])
  then show ?thesis by (simp add: udp_call_def Cmc_Rx fw_ok_def split_beta)
next
  case Info_Rx
  have "keeps_net (fw_net s) (snd (info_rx (fw_dev s) (fw_ptp s) d (fw_info s, fw_net s)))"
    using info_keeps(1) unfolding keeps_info_def by (metis snd_conv)
  from fw_ok_net [OF s this] show ?thesis by (simp add: udp_call_def Info_Rx fw_ok_def split_beta)
next
  case Mdns_Rx
  have "fw_ok kt kn bs (s\<lparr>fw_net := snd (mdns_rx (fw_dev s) (fw_tx s) (g_fpp_adv_max s) d (fw_mdns s) (fw_net s))\<rparr>)"
    by (rule fw_ok_net [OF s mdns_rx_keeps])
  then show ?thesis by (simp add: udp_call_def Mdns_Rx fw_ok_def split_beta)
qed (simp_all add: udp_call_def stats_ok s fw_ok_net cap_req_keeps)

section \<open>Reception\<close>

lemma rx_bindings: "udp_bindings (snd (snd (net_rx_frame f n s))) = udp_bindings s"
proof -
  have a: "udp_bindings (arp_learn ip mac t) = udp_bindings t" for ip mac t by (auto simp: arp_learn_def split: option.splits)
  have b: "udp_bindings t' = udp_bindings t" if "tables t' = tables t" for t t' :: net using that by (simp add: tables_def)
  have d: "udp_bindings (snd (ip_deliver f off plen t)) = udp_bindings t" for off plen t
    using b [OF conjunct1 [OF icmp_rx_frame [of "ip_at f 26" "\<lambda>i. f (off + i)" plen t]]]
      b [OF conjunct1 [OF igmp_rx_frame [of "\<lambda>i. f (off + i)" plen t]]]
    by (auto simp: ip_deliver_def Let_def split: option.splits)
  have r: "udp_bindings (arp_rx f n s) = udp_bindings s"
    using b [OF conjunct1 [OF arp_send_frame]] by (auto simp: arp_rx_def Let_def a)
  show ?thesis by (auto simp: net_rx_frame_def Let_def a d r split_beta)
qed

lemma rx_frame_ok:
  assumes s: "fw_ok kt kn bs s"
  shows "fw_ok kt kn bs (rx_frame xfer s x)"
proof (cases x)
  case (Pair h slot)
  have e: "fw_ok kt kn bs (rx_ethertype xfer h len t)" if t: "fw_ok kt kn bs t" for len t
  proof -
    obtain r d nt where n: "net_rx_frame (ptr_of (scratch t)) len (fw_net t) = (r, d, nt)" by (metis prod_cases3)
    have "net_inv nt" "udp_bindings nt = bs"
      using net_rx_frame_net_inv [OF fw_okD(1) [OF t], of "ptr_of (scratch t)" len] rx_bindings [of "ptr_of (scratch t)" len "fw_net t"]
        fw_okD(2) [OF t] by (simp_all add: n)
    then have "fw_ok kt kn bs (t\<lparr>rx_total := a, rx_last_ethertype := b, fw_net := nt\<rparr>)" for a b using t by (simp add: fw_ok_def)
    then show ?thesis using t by (simp add: rx_ethertype_def Let_def n udp_call_ok split: option.split)
  qed
  let ?s = "at_time h s"
  have t: "fw_ok kt kn bs ?s" by (rule at_time_ok [OF s])
  have c: "fw_ok kt kn bs (?s\<lparr>fw_net := (fw_net ?s)\<lparr>cap := cap_record 0 f n (h_now h) (cap (fw_net ?s))\<rparr>\<rparr>)" for f n
    by (rule cap_ok [OF t cap_record_inv [OF net_cap_inv [OF t]]])
  show ?thesis unfolding rx_frame_def Pair prod.case Let_def split_beta using t c e by simp
qed

lemma dispatch_rx_ok: "fw_ok kt kn bs s \<Longrightarrow> fw_ok kt kn bs (dispatch_rx xfer lvl frames s)"
proof -
  have "fw_ok kt kn bs s \<Longrightarrow> fw_ok kt kn bs (foldl (rx_frame xfer) s xs)" for s xs
    by (induction xs arbitrary: s) (simp_all add: rx_frame_ok)
  then show "fw_ok kt kn bs s \<Longrightarrow> ?thesis" by (cases lvl) (simp add: dispatch_rx_def Let_def)
qed

section \<open>The polls\<close>

lemma poll_servers_ok:
  assumes s: "fw_ok kt kn bs s"
  shows "fw_ok kt kn bs (poll_servers h s)"
proof -
  let ?a = "at_time (h 1) (s\<lparr>fw_gate := rx_gate_poll (h_now (h 0)) (fw_gate s)\<rparr>)"
  have a: "fw_ok kt kn bs ?a" by (rule at_time_ok [OF fw_ok_gate [OF s gate_ops(3) [OF fw_okD(8) [OF s]]]])
  obtain m nt where r: "mdns_poll (fw_dev ?a) (fw_tx ?a) (g_fpp_adv_max ?a) (h_now (h 1)) (fw_mdns ?a) (fw_net ?a) = (m, nt)" by fastforce
  let ?b = "at_time (h 2) (?a\<lparr>fw_mdns := m, fw_net := nt\<rparr>)"
  have "keeps_net (fw_net ?a) nt" using mdns_poll_keeps by (metis r snd_conv)
  from fw_ok_net [OF a this] have "fw_ok kt kn bs (?a\<lparr>fw_mdns := m, fw_net := nt\<rparr>)" by (simp add: fw_ok_def)
  then have b: "fw_ok kt kn bs ?b" by (rule at_time_ok)
  obtain i nt2 where r2: "dante_info_poll (h_now (h 2)) (fw_dev ?b) (fw_ptp ?b) (fw_info ?b, fw_net ?b) = (i, nt2)" by fastforce
  let ?c = "at_time (h 3) (?b\<lparr>fw_info := i, fw_net := nt2\<rparr>)"
  have "keeps_net (fw_net ?b) nt2" using info_keeps(2) r2 unfolding keeps_info_def by (metis snd_conv)
  from fw_ok_net [OF b this] have "fw_ok kt kn bs (?b\<lparr>fw_info := i, fw_net := nt2\<rparr>)" by (simp add: fw_ok_def)
  then have c: "fw_ok kt kn bs ?c" by (rule at_time_ok)
  obtain p nt3 where r3: "ptpv1_poll (ptp_view_of (h 3)) (ptp_in ?c) (fw_net ?c) = (p, nt3)" by fastforce
  have k: "keeps_net (fw_net ?c) nt3" using ptp_poll_keeps by (metis r3 snd_conv)
  have p: "servo_wf p" using part_wf [OF in_inv(2) [OF c] poll_part] by (metis r3 fst_conv)
  show ?thesis
    using out_ok(2) [OF fw_ok_net [OF c k] p] unfolding poll_servers_def Let_def r prod.case r2 r3 .
qed

text \<open>The retired clock follows nothing: on its internal source its servo is idle.\<close>

lemma idle_mcr: "mr_cs m = 0 \<Longrightarrow> mcr_servo_update now (mcr_pump_hw m) = m"
  by (simp add: mcr_servo_update_def mcr_pump_hw_def)

lemma mcr_out_in: "mcr_out (mcr_in s) s = s\<lparr>fw_mcr := mcr_in s\<rparr>"
  by (simp add: mcr_out_def mcr_in_def)

lemma poll_clock_ok:
  assumes s: "fw_ok kt kn bs s"
  shows "fw_ok kt kn bs (poll_clock xfer h s)"
proof -
  have cs: "mr_cs (mcr_in s) = 0" using fw_okD(9) [OF s] by (simp add: mcr_in_def)
  let ?s = "mcr_out (mcr_servo_update (h_now h) (mcr_pump_hw (mcr_in s))) s"
  have t: "fw_ok kt kn bs ?s" unfolding idle_mcr [OF cs] mcr_out_in by (rule fw_ok_mcr [OF s cs])
  obtain m g d where r: "mcr_dante_poll xfer (mclk_view_of h ?s) (mclk_in ?s, fw_cfg ?s, fw_flash ?s) = (m, g, d)" by (metis prod_cases3)
  have "mc_good kn m" by (rule mc_goodI [OF in_inv(3) [OF t] mc_inv_poll [OF _ r]])
  then have "fw_ok kt kn bs (mclk_out m (?s\<lparr>fw_cfg := g, fw_flash := d\<rparr>))" using t by (intro out_ok) simp_all
  then show ?thesis unfolding poll_clock_def Let_def r prod.case .
qed

lemma poll_talker_ok: "fw_ok kt kn bs s \<Longrightarrow> fw_ok kt kn bs (poll_talker h s)"
proof -
  assume s: "fw_ok kt kn bs s"
  have "tx_good kt (dante_tx_expire (dante_tx_poll (tx_view_of h s) (tx_in s)))"
    by (rule tx_goodI [OF in_inv(1) [OF s]]) (rule tx_step_inv [OF Step_Expire tx_step_inv [OF Step_Poll]])
  then have "aaf_gw_enabled s \<Longrightarrow> ?thesis" by (simp add: poll_talker_def out_ok(1) [OF s])
  moreover have "\<not> aaf_gw_enabled s \<Longrightarrow> \<not> kt" using fw_okD(10) [OF s] by blast
  then have "\<not> aaf_gw_enabled s \<Longrightarrow> ?thesis" using s by (simp add: poll_talker_def fw_ok_tx tx_good_def)
  ultimately show ?thesis by blast
qed

lemma poll_usb_ok: "fw_ok kt kn bs s \<Longrightarrow> fw_ok kt kn bs (poll_usb h s)"
  by (simp add: poll_usb_def Let_def fw_ok_def mclk_ops(3))

section \<open>The console\<close>

text \<open>Which keys leave the talker and the sample clock alone.\<close>

definition talker_key :: "u8 option \<Rightarrow> bool" where
  "talker_key key \<longleftrightarrow> key = Some 0x74 \<or> key = Some 0x54"

definition unbind_key :: "u8 option \<Rightarrow> bool" where
  "unbind_key key \<longleftrightarrow> key = Some 0x4E"

text \<open>Starting the talker again binds its two servers again, to the ports they have.\<close>

definition gw_net :: "net \<Rightarrow> net" where
  "gw_net nt = snd (net_udp_bind STATS_PORT (Some Stats_Rx) (snd (net_udp_bind DANTE_PORT_FLOWS (Some Flows_Rx) nt)))"

definition gw_bound :: "bindings \<Rightarrow> bool" where
  "gw_bound bs \<longleftrightarrow> (\<forall>nt. udp_bindings nt = bs \<longrightarrow> udp_bindings (gw_net nt) = bs)"

lemma gw_fields:
  "fw_net (aaf_gw_set True s) = gw_net (fw_net s)" "fw_tx (aaf_gw_set True s) \<in> range (\<lambda>ip. dante_tx_init ip (dd_mac (fw_dev s)) (fw_tx s))"
  "fw_ptp (aaf_gw_set True s) = fw_ptp s" "fw_arc (aaf_gw_set True s) = fw_arc s" "fw_dev (aaf_gw_set True s) = fw_dev s"
  "fw_mclk (aaf_gw_set True s) = fw_mclk s" "fw_gate (aaf_gw_set True s) = fw_gate s" "fw_mcr (aaf_gw_set True s) = fw_mcr s"
  "aaf_gw_enabled (aaf_gw_set True s)"
  by (simp_all add: aaf_gw_set_def aaf_gw_push_binding_def start_talker_def dante_flows_init_def dante_stats_init_def gw_net_def Let_def)

lemma gw_net_inv: "net_inv nt \<Longrightarrow> net_inv (gw_net nt)"
  unfolding gw_net_def by (intro net_udp_bind_net_inv) (simp_all add: STATS_PORT_def DANTE_PORT_FLOWS_def)

lemma restart_ok:
  assumes s: "fw_ok False kn bs s" and b: "gw_bound bs"
  shows "fw_ok False kn bs (aaf_gw_set on s)"
proof (cases on)
  case True
  have "net_inv (gw_net (fw_net s))" "udp_bindings (gw_net (fw_net s)) = bs"
    using gw_net_inv [OF fw_okD(1) [OF s]] b fw_okD(2) [OF s] by (simp_all add: gw_bound_def)
  then show ?thesis using s True by (simp add: fw_ok_def gw_fields tx_good_def)
qed (use s in \<open>simp add: aaf_gw_set_def fw_ok_def tx_good_def\<close>)

lemma unbind_ok:
  assumes s: "fw_ok kt False bs s"
  shows "fw_ok kt False bs (clear_binding xfer s)"
proof -
  have "mr_cs (mcr_unbind (mcr_in s)) = 0"
    using fw_okD(9) [OF s] by (simp add: mcr_unbind_def inc_write_def mcr_in_def Let_def)
  then show ?thesis using s by (simp add: clear_binding_def Let_def split_beta mcr_out_def fw_ok_def mc_good_def)
qed

lemma key_ok:
  assumes s: "fw_ok kt kn bs s" and b: "gw_bound bs" and kt: "kt \<Longrightarrow> \<not> talker_key key" and kn: "kn \<Longrightarrow> \<not> unbind_key key"
  shows "fw_ok kt kn bs (check_uart_cmd xfer h key s)"
proof (cases key)
  case (Some c)
  have z: "fw_ok kt kn bs (s\<lparr>fw_net := (fw_net s)\<lparr>cap := cap_reset (cap (fw_net s))\<rparr>\<rparr>)" by (rule cap_ok [OF s cap_reset_inv])
  have m: "fw_ok kt kn bs (con_delta_reset s)" using s by (simp add: con_delta_reset_def fw_ok_def)
  have g: "fw_ok kt kn bs (s\<lparr>fw_gate := rx_gate_set on r now (fw_gate s)\<rparr>)" for on r now
    by (rule fw_ok_gate [OF s gate_ops(1) [OF fw_okD(8) [OF s]]])
  have d: "fw_ok kt kn bs (mclk_out (mcr_dante_set_enabled on now (mclk_in s)) s)" for on now
    by (rule out_ok(3) [OF s mclk_ops(1) [OF in_inv(3) [OF s]]])
  have f: "fw_ok kt kn bs (con_feedback s)" using s by (simp add: con_feedback_def Let_def)
  have t: "c = 0x74 \<or> c = 0x54 \<Longrightarrow> fw_ok kt kn bs (aaf_gw_set on s)" for on
    using restart_ok [OF _ b, of kn s] s kt by (cases kt) (auto simp: Some talker_key_def)
  have n: "c = 0x4E \<Longrightarrow> fw_ok kt kn bs (clear_binding xfer s)"
    using unbind_ok [of kt bs s] s kn by (cases kn) (auto simp: Some unbind_key_def)
  show ?thesis using s by (simp add: check_uart_cmd_def Some z m g d f t n)
qed (use s in \<open>simp add: check_uart_cmd_def\<close>)

section \<open>The loop\<close>

type_synonym pass = "(nat \<Rightarrow> hw) \<times> (u32 \<times> u32) \<times> (hw \<times> u8 list) list \<times> u8 option"

definition main_run :: "'d spi \<Rightarrow> pass list \<Rightarrow> 'd fw \<Rightarrow> 'd fw" where
  "main_run xfer ps s = foldl (\<lambda>s (h, lvl, frames, key). main_iter xfer h lvl frames key s) s ps"

text \<open>No key that restarts or stops the talker was pressed; none that unbinds the retired clock.\<close>

definition no_talker_key :: "pass list \<Rightarrow> bool" where
  "no_talker_key ps \<longleftrightarrow> list_all (\<lambda>(h, lvl, frames, key). \<not> talker_key key) ps"

definition no_unbind_key :: "pass list \<Rightarrow> bool" where
  "no_unbind_key ps \<longleftrightarrow> list_all (\<lambda>(h, lvl, frames, key). \<not> unbind_key key) ps"

lemma main_iter_ok:
  assumes s: "fw_ok kt kn bs s" and b: "gw_bound bs" and k: "kt \<Longrightarrow> \<not> talker_key key" "kn \<Longrightarrow> \<not> unbind_key key"
  shows "fw_ok kt kn bs (main_iter xfer h lvl frames key s)"
proof -
  have "fw_ok kt kn bs (bench_tick (h 8) s)" using s by (simp add: bench_tick_def Let_def)
  then show ?thesis
    unfolding main_iter_def Let_def
    by (intro key_ok b k poll_usb_ok poll_talker_ok poll_clock_ok poll_servers_ok dispatch_rx_ok)
qed

lemma main_run_ok:
  assumes "fw_ok kt kn bs s" "gw_bound bs" "kt \<Longrightarrow> no_talker_key ps" "kn \<Longrightarrow> no_unbind_key ps"
  shows "fw_ok kt kn bs (main_run xfer ps s)"
  using assms(1,3,4)
proof (induction ps arbitrary: s)
  case (Cons p ps)
  obtain h lvl frames key where p: "p = (h, lvl, frames, key)" by (metis prod_cases4)
  have "fw_ok kt kn bs (main_iter xfer h lvl frames key s)"
    by (rule main_iter_ok [OF Cons.prems(1) assms(2)]) (use Cons.prems(2,3) in \<open>auto simp: p no_talker_key_def no_unbind_key_def\<close>)
  from Cons.IH [OF this] Cons.prems(2,3) show ?case by (simp add: main_run_def p no_talker_key_def no_unbind_key_def)
qed (simp add: main_run_def)

text \<open>What starts with everything in order keeps it as far as the keys pressed allow.\<close>

lemma fw_ok_weaken: "fw_ok True True bs s \<Longrightarrow> fw_ok kt kn bs s"
  by (auto simp: fw_ok_def tx_good_def mc_good_def)

end
