(* ===== verification/Mainloop_Boot.thy ===== *)
theory Mainloop_Boot
  imports Mainloop_Inv
begin

text \<open>
  Start-up: from memory as the loader leaves it the servers are bound, one to a port, and the
  invariant of the firmware is established.
\<close>

section \<open>The table of servers\<close>

definition server_ports :: "(u16 \<times> udp_fn) list" where
  "server_ports = [(MDNS_PORT, Mdns_Rx), (DANTE_PORT_ARC, Arc_Rx), (DANTE_PORT_CMC, Cmc_Rx), (DANTE_PORT_INFO_REQ, Info_Rx),
     (PTP_EVENT_PORT, Ptpv1_Rx), (PTP_GENERAL_PORT, Ptpv1_Rx), (PROBE_PORT, Probe_Rx), (CAP_REQ_PORT, Cap_Req_Rx),
     (DANTE_PORT_FLOWS, Flows_Rx), (STATS_PORT, Stats_Rx)]"

lemmas port_defs = MDNS_PORT_def DANTE_PORT_ARC_def DANTE_PORT_CMC_def DANTE_PORT_INFO_REQ_def PTP_EVENT_PORT_def
  PTP_GENERAL_PORT_def PROBE_PORT_def CAP_REQ_PORT_def DANTE_PORT_FLOWS_def STATS_PORT_def

definition bound_table :: "(u16 \<times> udp_fn) list \<Rightarrow> bindings" where
  "bound_table ps = map (\<lambda>(p, f). (p, Some f)) ps @ replicate (UDP_BINDINGS - length ps) (0, None)"

definition booting :: "(u16 \<times> udp_fn) list \<Rightarrow> net \<Rightarrow> bool" where
  "booting ps nt \<longleftrightarrow> net_inv nt \<and> udp_bindings nt = bound_table ps"

lemma lookup_bound: "udp_lookup (bound_table ps) port = map_of ps port"
proof -
  have free: "udp_lookup (replicate n (0, None)) port = None" for n
    by (induction n) (simp_all add: udp_lookup_def)
  have "udp_lookup (map (\<lambda>(p, f). (p, Some f)) ps @ replicate n (0, None)) port = map_of ps port" for n
  proof (induction ps)
    case (Cons p ps)
    then show ?case by (cases p) (simp add: udp_lookup_def)
  qed (simp add: free)
  then show ?thesis unfolding bound_table_def by blast
qed

lemma length_bound: "length ps \<le> UDP_BINDINGS \<Longrightarrow> length (bound_table ps) = UDP_BINDINGS"
  by (simp add: bound_table_def)

lemma booting_join: "booting ps nt \<Longrightarrow> booting ps (snd (net_igmp_join g nt))"
proof -
  assume b: "booting ps nt"
  have "udp_bindings (igmp_report g t) = udp_bindings t" for t using igmp_report_frame [of g t] by (simp add: tables_def)
  then have "udp_bindings (snd (net_igmp_join g nt)) = udp_bindings nt" by (simp add: net_igmp_join_def)
  with b net_igmp_join_net_inv [of nt g] show ?thesis by (simp add: booting_def)
qed

lemma booting_bind:
  assumes b: "booting ps nt" and p: "port \<noteq> 0" "port \<notin> fst ` set ps" "length ps < UDP_BINDINGS"
  shows "booting (ps @ [(port, fn)]) (snd (net_udp_bind port (Some fn) nt))"
proof -
  have t: "udp_bindings nt = bound_table ps" using b by (simp add: booting_def)
  have l: "length (bound_table ps) = UDP_BINDINGS" using p(3) by (simp add: length_bound)
  have nth: "bound_table ps ! i = (if i < length ps then (fst (ps ! i), Some (snd (ps ! i))) else (0, None))"
    if "i < UDP_BINDINGS" for i using that by (auto simp: bound_table_def nth_append split_beta)
  have none: "List.find (\<lambda>i. fst (bound_table ps ! i) = port) [0..<UDP_BINDINGS] = None"
    unfolding find_upt_None
  proof (intro allI impI)
    fix i assume "i < UDP_BINDINGS"
    then show "fst (bound_table ps ! i) \<noteq> port" using p(1,2) by (cases "i < length ps") (auto simp: nth)
  qed
  have inv: "udp_inv nt" using b by (simp add: booting_def net_inv_def)
  have taken: "fst (bound_table ps ! i) \<noteq> 0" if "i < length ps" for i
  proof -
    have i: "i < UDP_BINDINGS" using that p(3) by simp
    have "fst (udp_bindings nt ! i) = 0 \<longleftrightarrow> snd (udp_bindings nt ! i) = None" using inv i unfolding udp_inv_def by blast
    then show ?thesis using nth [OF i] that by (simp add: t)
  qed
  have some: "List.find (\<lambda>i. fst (bound_table ps ! i) = 0) [0..<UDP_BINDINGS] = Some (length ps)"
    unfolding find_upt_Some using p(3) taken by (auto simp: nth)
  have "(bound_table ps)[length ps := (port, Some fn)] = bound_table (ps @ [(port, fn)])"
  proof (rule nth_equalityI)
    fix i assume "i < length ((bound_table ps)[length ps := (port, Some fn)])"
    then have i: "i < UDP_BINDINGS" using l by simp
    then show "(bound_table ps)[length ps := (port, Some fn)] ! i = bound_table (ps @ [(port, fn)]) ! i"
      using l p(3) by (cases "i = length ps") (auto simp: nth bound_table_def nth_append split_beta)
  qed (use l p(3) in \<open>simp add: length_bound\<close>)
  then have "udp_bindings (snd (net_udp_bind port (Some fn) nt)) = bound_table (ps @ [(port, fn)])"
    by (simp add: net_udp_bind_def t l none some)
  with net_udp_bind_net_inv [of nt port fn] b p(1) show ?thesis by (simp add: booting_def)
qed

section \<open>Memory at start\<close>

definition fw_cold :: "'d fw \<Rightarrow> bool" where
  "fw_cold s \<longleftrightarrow>
     hw_ok (fw_net s) \<and> arp_next (fw_net s) = 0 \<and> length (igmp_groups (fw_net s)) = IGMP_N \<and>
     udp_bindings (fw_net s) = replicate UDP_BINDINGS (0, None) \<and> arc_wf (fw_arc s) \<and> tx_cold (fw_tx s) \<and>
     window_wf (fw_ptp s) \<and> median_count (fw_ptp s) = 0 \<and> freq_integral (fw_ptp s) = 0 \<and> freq_integral_num (fw_ptp s) = 0 \<and>
     \<bar>rt_ki_num (fw_ptp s)\<bar> \<le> 2147483648 \<and> phase_integ (fw_mclk s) = 0 \<and> phase_ppb (fw_mclk s) = 0"

lemma net_init_booting:
  assumes "fw_cold s"
  shows "booting [] (net_init mac ip prefix (fw_net s))"
proof -
  have "hw_ok (net_init mac ip prefix (fw_net s))"
    using assms by (auto simp: fw_cold_def net_init_def hw_ok_def tx_wf_def)
  moreover have "length (replicate UDP_BINDINGS (0 :: u16, None :: udp_fn option)) = UDP_BINDINGS" by simp
  ultimately show ?thesis
    using assms by (simp add: booting_def bound_table_def fw_cold_def net_inv_def arp_inv_def udp_inv_def igmp_inv_def
        net_init_def ARP_CACHE_N_def IGMP_N_def)
qed

lemma tx_cold_init: "tx_cold s \<Longrightarrow> tx_cold (dante_tx_init our mac s)"
proof (cases mac)
  case (fields m0 m1 m2 m3 m4 m5)
  assume "tx_cold s"
  then show ?thesis by (simp add: dante_tx_init_def fields Let_def tx_cold_def bind_flows_ctxs)
qed

section \<open>Start-up\<close>

text \<open>The servers started before the clock, on a state whose network was just set up.\<close>

lemma servers_boot:
  assumes "booting [] nt"
  shows "booting (take 7 server_ports) (snd (ptpv1_init mac g p (snd (dante_info_init (i,
     dante_cmc_init (dante_arc_init (snd (mdns_init dev md (snd (net_igmp_join ptp_group nt))))))))))"
proof -
  have ports: "take 7 server_ports = [] @ [(MDNS_PORT, Mdns_Rx)] @ [(DANTE_PORT_ARC, Arc_Rx)] @ [(DANTE_PORT_CMC, Cmc_Rx)] @
      [(DANTE_PORT_INFO_REQ, Info_Rx)] @ [(PTP_EVENT_PORT, Ptpv1_Rx)] @ [(PTP_GENERAL_PORT, Ptpv1_Rx)] @ [(PROBE_PORT, Probe_Rx)]"
    by (simp add: server_ports_def)
  show ?thesis
    unfolding ports append_assoc [symmetric]
      ptpv1_init_def dante_info_init_def dante_cmc_init_def dante_arc_init_def mdns_init_def Let_def prod.case snd_conv
    by (intro booting_join booting_bind assms) (simp_all add: port_defs UDP_BINDINGS_def)
qed

lemma main_net_fields:
  "fw_net (main_net s) = cap_init (snd (ptpv1_init mac_addr (fw_cfg s) (fw_ptp s) (snd (dante_info_init (fw_info s,
     dante_cmc_init (dante_arc_init (snd (mdns_init (dante_dev_init mac_addr) (fw_mdns s) (snd (net_igmp_join ptp_group
       (net_init mac_addr (fst (boot_ip (fw_cfg s))) (snd (boot_ip (fw_cfg s))) (fw_net s))))))))))))"
  "fw_tx (main_net s) \<in> range (\<lambda>ip. dante_tx_init ip mac_addr (fw_tx s))" "fw_ptp (main_net s) = ptpv1_start mac_addr (fw_cfg s) (fw_ptp s)"
  "fw_arc (main_net s) = fw_arc s" "fw_dev (main_net s) = dante_dev_init mac_addr" "fw_mclk (main_net s) = fw_mclk s"
  "fw_gate (main_net s) = rx_gate_init mac_addr (fw_gate s)" "fw_mcr (main_net s) = fw_mcr s"
  by (simp_all add: main_net_def Let_def split_beta start_talker_def ptpv1_init_def dante_dev_init_def)

lemma main_net_booting:
  assumes "fw_cold s"
  shows "booting (take 8 server_ports) (fw_net (main_net s))"
proof -
  note b = servers_boot [OF net_init_booting [OF assms]]
  have t: "take 8 server_ports = take 7 server_ports @ [(CAP_REQ_PORT, Cap_Req_Rx)]" by (simp add: server_ports_def)
  show ?thesis
    unfolding main_net_fields cap_init_def t
    by (rule booting_bind [OF b]) (simp_all add: server_ports_def port_defs UDP_BINDINGS_def)
qed

lemma gw_booting:
  assumes "booting (take 8 server_ports) nt"
  shows "booting server_ports (gw_net nt)"
proof -
  have t: "server_ports = (take 8 server_ports @ [(DANTE_PORT_FLOWS, Flows_Rx)]) @ [(STATS_PORT, Stats_Rx)]" by (simp add: server_ports_def)
  show ?thesis unfolding gw_net_def
    by (subst t, intro booting_bind assms) (simp_all add: server_ports_def port_defs UDP_BINDINGS_def)
qed

text \<open>Binding a server to the port it has changes nothing.\<close>

lemma rebind:
  assumes "udp_bindings nt = bs" "i < length bs" "bs ! i = (port, Some fn)" "port \<notin> fst ` set (take i bs)"
  shows "udp_bindings (snd (net_udp_bind port (Some fn) nt)) = bs"
proof -
  have "fst (bs ! j) \<noteq> port" if "j < i" for j
  proof
    have "take i bs ! j \<in> set (take i bs)" using that assms(2) by (intro nth_mem) simp
    moreover assume "fst (bs ! j) = port"
    ultimately show False using that assms(4) by auto
  qed
  then have "List.find (\<lambda>i. fst (bs ! i) = port) [0..<length bs] = Some i"
    unfolding find_upt_Some using assms(2,3) by simp
  then show ?thesis using list_update_id [of bs i] by (simp add: net_udp_bind_def assms(1,3))
qed

lemma gw_rebind: "gw_bound (bound_table server_ports)"
proof -
  have "udp_bindings (snd (net_udp_bind DANTE_PORT_FLOWS (Some Flows_Rx) nt)) = bound_table server_ports"
    "udp_bindings (snd (net_udp_bind STATS_PORT (Some Stats_Rx) nt)) = bound_table server_ports"
    if "udp_bindings nt = bound_table server_ports" for nt
    by (rule rebind [OF that, of 8] rebind [OF that, of 9]; simp add: bound_table_def server_ports_def port_defs UDP_BINDINGS_def)+
  then show ?thesis by (simp add: gw_bound_def gw_net_def)
qed

text \<open>The clocks: the media clock is started last, the retired one is on its internal source.\<close>

lemma boot_inc: "0 < nominal_inc (of_int CONFIG_CLOCK_FREQUENCY) 48000"
  by (simp add: nominal_inc_def CONFIG_CLOCK_FREQUENCY_def)

definition boot_clock :: "hw \<Rightarrow> 'd fw \<Rightarrow> 'd fw" where
  "boot_clock h s =
    (let s = mcr_out (mcr_set_gptp (mcr_init (of_int CONFIG_CLOCK_FREQUENCY) 48000 (mcr_in s))) s in
     s\<lparr>fw_mclk := mcr_dante_init (of_int CONFIG_CLOCK_FREQUENCY) 48000 (h_underrun h) (h_now h) (fw_cfg s) (fw_mclk s)\<rparr>)"

lemma boot_clock_fields:
  "fw_net (boot_clock h s) = fw_net s" "fw_tx (boot_clock h s) = fw_tx s" "fw_ptp (boot_clock h s) = fw_ptp s"
  "fw_arc (boot_clock h s) = fw_arc s" "fw_dev (boot_clock h s) = fw_dev s" "fw_gate (boot_clock h s) = fw_gate s"
  "mr_cs (fw_mcr (boot_clock h s)) = 0"
  "phase_integ (fw_mclk s) = 0 \<Longrightarrow> phase_ppb (fw_mclk s) = 0 \<Longrightarrow> mc_inv (fw_mclk (boot_clock h s))"
proof -
  show "phase_integ (fw_mclk s) = 0 \<Longrightarrow> phase_ppb (fw_mclk s) = 0 \<Longrightarrow> mc_inv (fw_mclk (boot_clock h s))"
    unfolding boot_clock_def Let_def by (simp add: mc_inv_init [OF boot_inc] mcr_out_def)
qed (simp_all add: boot_clock_def Let_def mcr_out_def mcr_init_def mcr_set_gptp_def inc_write_dbg_def)

definition boot_flash :: "'d spi \<Rightarrow> 'd fw \<Rightarrow> 'd fw" where
  "boot_flash xfer s =
    (let d = cfgflash_warmup xfer (fw_flash s);
         (j, d) = cfgflash_jedec xfer d;
         (found, g, d) = cfg_load xfer d;
         s = s\<lparr>fw_cfg := g, fw_flash := d\<rparr> in
     gptp_out (gptp_init mac_addr (pt_tsu (fw_ptp s)) (gp_wire (fw_gptp s))) s)"

lemma main_boot_parts:
  "main_boot xfer h s = (let s = aaf_gw_set True (boot_clock h (main_net (boot_flash xfer s))) in
     mcr_out (mcr_set_clock_source 0 (mcr_in s)) s)"
  by (simp only: main_boot_def boot_flash_def boot_clock_def Let_def split_beta)

lemma boot_flash_cold: "fw_cold s \<Longrightarrow> fw_cold (boot_flash xfer s)"
  by (simp add: boot_flash_def Let_def split_beta gptp_out_def fw_cold_def window_wf_def)

lemma source_kept: "mr_cs m = 0 \<Longrightarrow> mcr_set_clock_source 0 m = m"
  by (simp add: mcr_set_clock_source_def)

lemma main_boot_ok:
  assumes "fw_cold s"
  shows "fw_ok True True (bound_table server_ports) (main_boot xfer h s)"
proof -
  let ?a = "boot_flash xfer s" and ?b = "main_net (boot_flash xfer s)"
  let ?c = "boot_clock h ?b"
  let ?d = "aaf_gw_set True ?c"
  have a: "fw_cold ?a" by (rule boot_flash_cold [OF assms])
  note cold = a [unfolded fw_cold_def]
  have net: "net_inv (fw_net ?d)" "udp_bindings (fw_net ?d) = bound_table server_ports"
    using gw_booting [OF main_net_booting [OF a]] by (simp_all add: gw_fields boot_clock_fields booting_def)
  obtain ip where tb: "fw_tx ?b = dante_tx_init ip mac_addr (fw_tx ?a)" using main_net_fields(2) [of ?a] by auto
  obtain ip2 where td: "fw_tx ?d = dante_tx_init ip2 (dd_mac (fw_dev ?c)) (fw_tx ?c)" using gw_fields(2) [of ?c] by auto
  have tx: "tx_inv (fw_tx ?d)"
    unfolding td boot_clock_fields tb using cold by (intro dante_tx_init_inv tx_cold_init) simp
  have ptp: "servo_wf (fw_ptp ?d)"
    unfolding gw_fields boot_clock_fields main_net_fields using cold by (intro start_wf) simp_all
  have mclk: "mc_inv (fw_mclk ?d)"
    unfolding gw_fields using cold by (intro boot_clock_fields(8)) (simp_all add: main_net_fields)
  have gate: "gate_inv (fw_gate ?d)" by (simp add: gw_fields boot_clock_fields main_net_fields gate_inv_def rx_gate_init_def)
  have dev: "length (dd_name (fw_dev ?d)) \<le> 31"
    by (simp add: gw_fields boot_clock_fields main_net_fields dante_dev_init_name dev_name_def)
  have cs: "mr_cs (fw_mcr ?d) = 0" by (simp add: gw_fields boot_clock_fields)
  have arc: "arc_wf (fw_arc ?d)" using cold by (simp add: gw_fields boot_clock_fields main_net_fields)
  have ok: "fw_ok True True (bound_table server_ports) ?d"
    using net tx ptp mclk gate dev cs arc gw_fields(9) unfolding fw_ok_def tx_good_def mc_good_def by blast
  have m: "mr_cs (mcr_in ?d) = 0" using cs by (simp add: mcr_in_def)
  show ?thesis
    unfolding main_boot_parts Let_def source_kept [OF m] mcr_out_in by (rule fw_ok_mcr [OF ok m])
qed

text \<open>Whatever runs from start-up keeps the invariant as far as the keys pressed allow.\<close>

lemma boot_run_ok:
  assumes "fw_cold s" "kt \<Longrightarrow> no_talker_key ps" "kn \<Longrightarrow> no_unbind_key ps"
  shows "fw_ok kt kn (bound_table server_ports) (main_run xfer ps (main_boot xfer h s))"
  by (rule main_run_ok [OF fw_ok_weaken [OF main_boot_ok [OF assms(1)]] gw_rebind]) (use assms(2,3) in blast)+

end
