(* ===== verification/Dante_Info_Claims.thy ===== *)
theory Dante_Info_Claims
  imports Dante_Info Dante_Arc_Claims Ptpv1_Claims
begin

text \<open>
  What the information multicast carries: the sub-records of the heartbeat, the clock state a
  controller asks for, and the times at which messages go out.
\<close>

section \<open>A message to a group is sent\<close>

lemma with_total_length [simp]: "4 \<le> length p \<Longrightarrow> length (with_total p) = length p"
  by (simp add: with_total_def)

lemma group_known:
  "net_arp_lookup grp_heartbeat nt = (Some (net_mcast_mac grp_heartbeat), nt)"
  "net_arp_lookup grp_devinfo nt = (Some (net_mcast_mac grp_devinfo), nt)"
  by (simp_all add: net_arp_lookup_def grp_heartbeat_def grp_devinfo_def)

lemma info_commit_sends:
  assumes "hw_ok nt" "4 \<le> length p" "length p \<le> 1400" "net_arp_lookup dst nt = (Some mac, nt)"
  shows "\<exists>F nt'. info_commit dst dport p nt = (0, nt') \<and> wire nt' = wire nt @ [F] \<and> carries dport F (with_total p) \<and>
    hw_ok nt' \<and> tables nt' = tables nt"
proof -
  have l: "length (with_total p) = length p" using assms(2) by simp
  obtain nt' where c: "net_udp_commit dst dport DANTE_PORT_INFO_REQ (length p) 0 (payload_put 0 (with_total p) nt) = (0, nt')"
    "wire nt' = wire nt @ [udp_frame mac dst dport DANTE_PORT_INFO_REQ 0 (with_total p) nt @
       take (18 - length p) (drop (42 + length p) (tx_buf nt))]"
    using payload_commit_ok [OF hw_ok_tx(1) [OF assms(1)] _ assms(4), of "with_total p" dport DANTE_PORT_INFO_REQ 0] assms(3) l
    by auto
  have h: "hw_ok (payload_put 0 (with_total p) nt)" using assms(1,3) l by (intro hw_ok_payload) simp_all
  have "hw_ok nt' \<and> tables nt' = tables nt"
    using net_udp_commit_frame [of dst dport DANTE_PORT_INFO_REQ "length p" 0 "payload_put 0 (with_total p) nt"] h c(1) by simp
  moreover have "carries dport (udp_frame mac dst dport DANTE_PORT_INFO_REQ 0 (with_total p) nt @
       take (18 - length p) (drop (42 + length p) (tx_buf nt))) (with_total p)"
    by (rule udp_frame_carries) (simp add: l assms(3))
  ultimately show ?thesis unfolding info_commit_def using c by blast
qed

text \<open>A step of the server that sends the frames \<open>ps\<close> to \<open>dport\<close> and keeps the timers.\<close>

definition sends :: "u16 \<Rightarrow> u8 list list \<Rightarrow> info \<times> net \<Rightarrow> info \<times> net \<Rightarrow> bool" where
  "sends dport ps s s' \<longleftrightarrow> hw_ok (snd s') \<and> tables (snd s') = tables (snd s) \<and>
     seqnum (fst s') = seqnum (fst s) + of_nat (length ps) \<and>
     info_announce_next_ms (fst s') = info_announce_next_ms (fst s) \<and> next_heartbeat_ms (fst s') = next_heartbeat_ms (fst s) \<and>
     (\<exists>fs. wire (snd s') = wire (snd s) @ fs \<and> list_all2 (carries dport) fs (map with_total ps))"

lemma sends_none: "hw_ok (snd s) \<Longrightarrow> sends dport [] s s"
  by (simp add: sends_def)

lemma sends_trans: "sends dport ps s s1 \<Longrightarrow> sends dport qs s1 s2 \<Longrightarrow> sends dport (ps @ qs) s s2"
  unfolding sends_def by (auto simp: add.assoc intro: list_all2_appendI)

lemma info_send_sends:
  assumes "hw_ok nt" "4 \<le> length p" "length p \<le> 1400"
  shows "sends dport [p] (i, nt) (info_send grp_devinfo dport p (i, nt))"
  using info_commit_sends [OF assms group_known(2), of dport] by (auto simp: sends_def info_send_def)

lemma put_hdr_length: "length (device_id g) = 8 \<Longrightarrow> length opcode = 8 \<Longrightarrow> length (put_hdr g sc opcode i) = 32"
  by (simp add: put_hdr_def vendor_str_def ascii_def)

lemma put_hdr_seq_length: "length (device_id g) = 8 \<Longrightarrow> length opcode = 8 \<Longrightarrow> length (put_hdr_seq g sc opcode q) = 32"
  by (simp add: put_hdr_seq_def vendor_str_def ascii_def)

lemma bodies_length [simp]:
  "length device_info_body = 200" "length product_info_body = 336" "length clock_stats_tmpl = 148"
  "length (network_info_body g nt) = 64"
  by (simp_all add: device_info_body_def product_info_body_def put_fixed_def Let_def ascii_def clock_stats_tmpl_def
      network_info_body_def)

lemma length_eui64 [simp]: "length (eui64 m) = 8"
  by (cases m) simp

lemma clock_stats_body_length [simp]: "length (device_id g) = 8 \<Longrightarrow> length (clock_stats_body g p) = 148"
  by (simp add: clock_stats_body_def Let_def)

lemma clock_stats_op_length: "clock_stats_op req i = (opcode, q) \<Longrightarrow> length opcode = 8"
  by (auto simp: clock_stats_op_def split: option.splits)


text \<open>The messages of an announcement.\<close>

lemma announce_parts:
  assumes "hw_ok nt" "length (device_id g) = 8"
  shows "\<exists>p. sends dport [p] (i, nt) (send_device_info g grp_devinfo dport (i, nt))"
    "\<exists>p. sends dport [p] (i, nt) (send_product_info g grp_devinfo dport (i, nt))"
    "\<exists>p. sends dport [p] (i, nt) (send_network_info g grp_devinfo dport (i, nt))"
  unfolding send_device_info_def send_product_info_def send_network_info_def prod.case
  by (rule exI, rule info_send_sends [OF assms(1)]; simp add: put_hdr_length assms(2))+

text \<open>The reply about the clock.\<close>

definition clock_message :: "dante_dev \<Rightarrow> 'a ptpv1_scheme \<Rightarrow> ptr option \<Rightarrow> info \<Rightarrow> u8 list" where
  "clock_message g p req i = (case clock_stats_op req i of (opcode, q) \<Rightarrow> put_hdr_seq g 0xFFFF opcode q @ clock_stats_body g p)"

lemma clock_message_length: "length (device_id g) = 8 \<Longrightarrow> length (clock_message g p req i) = 180"
  by (simp add: clock_message_def put_hdr_seq_length clock_stats_op_length split: prod.splits)

lemma send_clock_stats_sends:
  assumes "hw_ok nt" "length (device_id g) = 8"
  shows "sends dport (if have_master p then [clock_message g p req i] else []) (i, nt)
    (send_clock_stats g p grp_devinfo dport req (i, nt))"
proof (cases "have_master p")
  case True
  obtain opcode q where o: "clock_stats_op req i = (opcode, q)" by fastforce
  have m: "clock_message g p req i = put_hdr_seq g 0xFFFF opcode q @ clock_stats_body g p" by (simp add: clock_message_def o)
  have "sends dport [clock_message g p req i] (i, nt) (info_send grp_devinfo dport (clock_message g p req i) (i, nt))"
    by (rule info_send_sends [OF assms(1)]) (simp_all add: clock_message_length [OF assms(2)])
  then show ?thesis using True by (simp add: send_clock_stats_def o m)
qed (simp add: send_clock_stats_def sends_none assms(1))

lemma send_cap_sends:
  assumes "hw_ok nt" "length (device_id g) = 8" "length body \<le> 1000"
  shows "\<exists>p. sends dport [p] (i, nt) (send_cap g grp_devinfo dport (i, nt) (a, b, body))"
proof -
  let ?p = "put_hdr g 0xFFFF [0x07, 0x2A, a, b, 0, 0, 0, 0] i @ body"
  have l: "4 \<le> length ?p" "length ?p \<le> 1400" using assms(3) by (simp_all add: put_hdr_length assms(2))
  obtain F nt' where c: "info_commit grp_devinfo dport ?p nt = (0, nt')" "wire nt' = wire nt @ [F]"
    "carries dport F (with_total ?p)" "hw_ok nt'" "tables nt' = tables nt"
    using info_commit_sends [OF assms(1) l group_known(2)] by blast
  have "sends dport [?p] (i, nt) (send_cap g grp_devinfo dport (i, nt) (a, b, body))"
    using c(2-) by (simp add: sends_def send_cap_def c(1))
  then show ?thesis by blast
qed

lemma send_caps_sends:
  assumes "length (device_id g) = 8" "hw_ok (snd s)" "\<forall>(a, b, body) \<in> set ms. length body \<le> 1000"
  shows "\<exists>ps. length ps = length ms \<and> sends dport ps s (foldl (send_cap g grp_devinfo dport) s ms)"
  using assms(2,3)
proof (induction ms arbitrary: s)
  case (Cons m ms)
  obtain a b body where m: "m = (a, b, body)" by (cases m)
  obtain p where p: "sends dport [p] s (send_cap g grp_devinfo dport s m)"
    using send_cap_sends [of "snd s" g body dport "fst s" a b] Cons.prems assms(1) m by auto
  then have h: "hw_ok (snd (send_cap g grp_devinfo dport s m))" by (simp add: sends_def)
  have "\<forall>(a, b, body) \<in> set ms. length body \<le> 1000" using Cons.prems(2) by simp
  from Cons.IH [OF h this] obtain ps where ps: "length ps = length ms"
    "sends dport ps (send_cap g grp_devinfo dport s m) (foldl (send_cap g grp_devinfo dport) (send_cap g grp_devinfo dport s m) ms)"
    by blast
  then show ?case using sends_trans [OF p ps(2)] by (intro exI [of _ "p # ps"]) simp
qed (auto simp: sends_none)

lemma caps_messages_short: "length caps_messages = 4 \<and> (\<forall>(a, b, body) \<in> set caps_messages. length body \<le> 1000)"
  by (simp add: caps_messages_def be32_def be16_def)

lemma info_announce_sends:
  assumes "hw_ok (snd s)" "length (device_id g) = 8"
  shows "\<exists>ps. length ps = 7 + of_bool (have_master p) \<and> sends DANTE_PORT_INFO ps s (info_announce g p s)"
proof -
  let ?s1 = "send_device_info g grp_devinfo DANTE_PORT_INFO s"
  let ?s2 = "send_product_info g grp_devinfo DANTE_PORT_INFO ?s1"
  let ?s3 = "send_network_info g grp_devinfo DANTE_PORT_INFO ?s2"
  let ?s4 = "send_clock_stats g p grp_devinfo DANTE_PORT_INFO None ?s3"
  obtain a where a: "sends DANTE_PORT_INFO [a] s ?s1" using announce_parts(1) [OF assms, of DANTE_PORT_INFO "fst s"] by auto
  then have h1: "hw_ok (snd ?s1)" by (simp add: sends_def)
  obtain b where b: "sends DANTE_PORT_INFO [b] ?s1 ?s2" using announce_parts(2) [OF h1 assms(2), of DANTE_PORT_INFO "fst ?s1"] by auto
  then have h2: "hw_ok (snd ?s2)" by (simp add: sends_def)
  obtain c where c: "sends DANTE_PORT_INFO [c] ?s2 ?s3" using announce_parts(3) [OF h2 assms(2), of DANTE_PORT_INFO "fst ?s2"] by auto
  then have h3: "hw_ok (snd ?s3)" by (simp add: sends_def)
  have d: "sends DANTE_PORT_INFO (if have_master p then [clock_message g p None (fst ?s3)] else []) ?s3 ?s4"
    using send_clock_stats_sends [OF h3 assms(2), of DANTE_PORT_INFO p None "fst ?s3"] by simp
  then have h4: "hw_ok (snd ?s4)" by (simp add: sends_def)
  obtain es where e: "length es = 4" "sends DANTE_PORT_INFO es ?s4 (send_caps g grp_devinfo DANTE_PORT_INFO ?s4)"
    using send_caps_sends [OF assms(2) h4] caps_messages_short unfolding send_caps_def by metis
  have "sends DANTE_PORT_INFO ((([a] @ [b]) @ [c]) @ (if have_master p then [clock_message g p None (fst ?s3)] else []) @ es) s
      (info_announce g p s)"
    unfolding info_announce_def Let_def
    using sends_trans [OF sends_trans [OF sends_trans [OF a b] c] sends_trans [OF d e(2)]] by simp
  then show ?thesis using e(1) by (intro exI) (auto simp: algebra_simps)
qed


section \<open>The heartbeat is read record by record\<close>

text \<open>What a receiver makes of the content: types and contents, each record as long as it says.\<close>

function sub_records :: "u8 list \<Rightarrow> (u16 \<times> u8 list) list option" where
  "sub_records b =
    (if b = [] then Some []
     else let n = unat (rd16 (ptr_of b) 0) in
       if n < 12 \<or> length b < n then None
       else map_option ((#) (rd16 (ptr_of b) 2, drop 12 (take n b))) (sub_records (drop n b)))"
  by pat_completeness auto
termination
  by (relation "measure length") auto

declare sub_records.simps [simp del]

lemma sub_records_Nil: "sub_records [] = Some []"
  by (subst sub_records.simps) simp

lemma sub_records_step:
  assumes "r = be16 n @ be16 t @ xs" "length r = unat n" "12 \<le> unat n"
  shows "sub_records (r @ b) = map_option ((#) (t, drop 12 r)) (sub_records b)"
proof -
  have f: "rd16 (ptr_of (r @ b)) 0 = n" "rd16 (ptr_of (r @ b)) 2 = t"
    using rd16_at [of "[]" n "be16 t @ xs @ b"] rd16_at [of "be16 n" t "xs @ b"] assms(1) by simp_all
  have "r \<noteq> []" "12 \<le> length r" using assms(2,3) by auto
  then show ?thesis
    by (subst sub_records.simps) (simp add: f Let_def assms(2) [symmetric])
qed

lemma servo_ppb_exact:
  assumes "servo_wf p"
  shows "servo_ppb p = ((current_addend_full p - base_addend_full p) * 1000000000) sdiv base_addend_full p"
    "\<bar>servo_ppb p\<bar> < 2 ^ 31"
proof -
  let ?x = "(current_addend_full p - base_addend_full p) * 1000000000"
  have b: "base_addend_full p = 90071993" using assms by (simp add: servo_wf_def nominal_addend_value)
  have c: "80000000 \<le> current_addend_full p" "current_addend_full p \<le> 100000000" using assms by (simp_all add: servo_wf_def)
  have "\<bar>?x\<bar> \<le> 10071993000000000" unfolding b abs_le_iff using c by auto
  then have "\<bar>?x\<bar> div 90071993 \<le> 10071993000000000 div 90071993" by (rule zdiv_mono1) simp
  then have "\<bar>?x\<bar> div 90071993 \<le> 111821585" by simp
  moreover have "\<bar>?x sdiv 90071993\<bar> = \<bar>?x\<bar> div 90071993"
    by (auto simp: signed_divide_int_def sgn_if pos_imp_zdiv_nonneg_iff)
  ultimately have r: "\<bar>?x sdiv base_addend_full p\<bar> \<le> 111821585" by (simp add: b)
  have "to_i32 y = y" if "\<bar>y\<bar> \<le> 111821585" for y using that by (intro to_i32_id) auto
  from this [OF r] have "to_i32 (?x sdiv base_addend_full p) = ?x sdiv base_addend_full p" .
  then show "servo_ppb p = ?x sdiv base_addend_full p" by (simp add: servo_ppb_def b)
  then show "\<bar>servo_ppb p\<bar> < 2 ^ 31" using r by simp
qed

text \<open>The contents of the five records.\<close>

definition heartbeat_records :: "'a ptpv1_scheme \<Rightarrow> (u16 \<times> u8 list) list" where
  "heartbeat_records p =
    [(0x8001, be32 (of_int (((current_addend_full p - base_addend_full p) * 1000000000) sdiv base_addend_full p))),
     (0x8000, be16 0x10 @ be16 0 @ be16 1 @ be16 0x10 @ be32 (of_int (min \<bar>offset_ns p\<bar> 0xFFFFFFFF)) @
        be32 (of_int (mean_path_delay_ns p)) @ replicate 8 0),
     (0x8002, be16 48 @ be16 0 @ be16 2 @ be16 0 @ be16 24 @ be16 0 @ replicate (48 + 2 + 2) 0),
     (0x8003, be16 2 @ be16 0 @ be16 0x18 @ be16 0 @ be32 48000 @ replicate (2 * 4) 0),
     (0x8004, be16 2 @ be16 0 @ be16 0x14 @ be16 0 @ replicate (2 * 4) 0)]"

lemma heartbeat_walk:
  assumes "servo_wf p"
  shows "sub_records (rec_8001 q (servo_ppb p) @ rec_8000 q (offset_ns p) (mean_path_delay_ns p) @ rec_8002 q @ rec_8003 q @ rec_8004 q)
    = Some (heartbeat_records p)"
proof -
  have m: "0 \<le> mean_path_delay_ns p" "mean_path_delay_ns p < 10000000" using assms by (simp_all add: servo_wf_def)
  have z: "be32 0 @ be32 0 = replicate 8 0" "concat (replicate 2 (be32 0)) = replicate 8 0"
    by (simp_all add: be32_def numeral_eq_Suc)
  have u: "unat (2 :: u16) = 2" by simp
  have r1: "sub_records (rec_8001 q x @ b) = map_option ((#) (0x8001, be32 (of_int x))) (sub_records b)" for x b
    by (subst sub_records_step [of _ 16 "0x8001" "drop 4 (rec_8001 q x)"]) (simp_all add: rec_8001_def be16_def be32_def)
  have r2: "sub_records (rec_8000 q off (mean_path_delay_ns p) @ b) = map_option ((#) (0x8000, be16 0x10 @ be16 0 @ be16 1 @ be16 0x10 @
      be32 (of_int (min \<bar>off\<bar> 0xFFFFFFFF)) @ be32 (of_int (mean_path_delay_ns p)) @ replicate 8 0)) (sub_records b)" for off b
  proof -
    have e: "rec_8000 q off (mean_path_delay_ns p) = be16 36 @ be16 0x8000 @ be16 4 @ be16 4 @ be16 q @ be16 0 @ be16 0x10 @ be16 0 @ be16 1 @
        be16 0x10 @ be32 (of_int (min \<bar>off\<bar> 0xFFFFFFFF)) @ be32 (of_int (mean_path_delay_ns p)) @ replicate 8 0"
      using m unfolding rec_8000_def clamp_u32_def Let_def by (simp add: z min_def)
    show ?thesis unfolding e
      by (subst sub_records_step [of _ 36 "0x8000"], rule refl) (simp_all add: be16_def)
  qed
  have r3: "sub_records (rec_8002 q @ b) = map_option ((#) (0x8002, be16 48 @ be16 0 @ be16 2 @ be16 0 @ be16 24 @ be16 0 @ replicate (48 + 2 + 2) 0)) (sub_records b)" for b
    by (subst sub_records_step [of _ 76 "0x8002" "drop 4 (rec_8002 q)"])
      (simp_all add: rec_8002_def be16_def Let_def DANTE_TX_CHANNELS_def DANTE_RX_CHANNELS_def)
  have r4: "sub_records (rec_8003 q @ b) = map_option ((#) (0x8003, be16 2 @ be16 0 @ be16 0x18 @ be16 0 @ be32 48000 @ replicate (2 * 4) 0)) (sub_records b)" for b
    by (subst sub_records_step [of _ 32 "0x8003" "drop 4 (rec_8003 q)"])
      (simp_all add: rec_8003_def be16_def Let_def DANTE_RX_CHANNELS_def z)
  have r5: "sub_records (rec_8004 q) = Some [(0x8004, be16 2 @ be16 0 @ be16 0x14 @ be16 0 @ replicate (2 * 4) 0)]"
    using sub_records_step [of "rec_8004 q" 28 "0x8004" "drop 4 (rec_8004 q)" "[]"]
    by (simp add: rec_8004_def be16_def Let_def DANTE_RX_CHANNELS_def z sub_records_Nil)
  show ?thesis unfolding r1 r2 r3 r4 r5 servo_ppb_exact(1) [OF assms] heartbeat_records_def by simp
qed


section \<open>The clock state\<close>

lemma take_drop_put:
  "off + length bs \<le> length c \<Longrightarrow> length bs = n \<Longrightarrow> take n (drop off (put off bs c)) = bs"
  "k + n \<le> off \<Longrightarrow> off \<le> length c \<Longrightarrow> take n (drop k (put off bs c)) = take n (drop k c)"
  "off + length bs \<le> k \<Longrightarrow> off + length bs \<le> length c \<Longrightarrow> take n (drop k (put off bs c)) = take n (drop k c)"
  by (auto simp: put_def drop_take min_def drop_drop add.commute)

lemma clock_stats_body_fields:
  assumes "length (device_id g) = 8"
  shows "take 2 (drop 2 (clock_stats_body g p)) = [0, if locked p then 3 else 1]"
    "take 4 (drop 8 (clock_stats_body g p)) = be32 (of_int (servo_ppb p))"
    "take 8 (drop 12 (clock_stats_body g p)) = mac_bytes (dd_mac g) @ [0, 0]"
    "take 8 (drop 20 (clock_stats_body g p)) = mac_bytes (master_uuid p) @ [0, 0]"
    "take 8 (drop 120 (clock_stats_body g p)) = device_id g"
    "take 8 (drop 128 (clock_stats_body g p)) = eui64 (master_uuid p)"
  using assms by (simp_all add: clock_stats_body_def Let_def take_drop_put)

lemma with_total_parts:
  assumes "4 \<le> length p"
  shows "take 2 (with_total p) = take 2 p" "take 2 (drop 2 (with_total p)) = be16 (of_nat (length p))"
    "4 \<le> k \<Longrightarrow> drop k (with_total p) = drop k p"
  using assms by (auto simp: with_total_def take_drop_put take_put drop_put)

section \<open>Timers\<close>

definition info_run :: "dante_dev \<Rightarrow> 'a ptpv1_scheme \<Rightarrow> nat list \<Rightarrow> info \<times> net \<Rightarrow> info \<times> net" where
  "info_run g p us s = foldl (\<lambda>s u. dante_info_poll (of_nat u) g p s) s us"

text \<open>Signed differences of times less than half the clock's range apart.\<close>

lemma sint_diff:
  assumes "int v - int u < 2 ^ 31" "int u - int v \<le> 2 ^ 31"
  shows "sint (of_nat v - of_nat u :: u32) = int v - int u"
proof -
  have "(of_nat v - of_nat u :: u32) = of_int (int v - int u)" by simp
  also have "sint \<dots> = int v - int u"
    using assms by (simp only: signed_of_int) (auto intro!: signed_take_bit_int_eq_self)
  finally show ?thesis .
qed


lemma rec_lengths:
  "length (rec_8001 q x) = 16" "length (rec_8000 q x y) = 36" "length (rec_8002 q) = 76" "length (rec_8003 q) = 32"
  "length (rec_8004 q) = 28"
  by (simp add: rec_8001_def, simp add: rec_8000_def Let_def,
      simp_all add: rec_8002_def rec_8003_def rec_8004_def Let_def DANTE_TX_CHANNELS_def DANTE_RX_CHANNELS_def
        length_concat map_replicate sum_list_replicate)

lemma heartbeat_length: "length (device_id g) = 8 \<Longrightarrow> length (heartbeat_bytes g p i) = 220"
  by (simp add: heartbeat_bytes_def put_hdr_length rec_lengths)

lemma send_heartbeat_sends:
  assumes "hw_ok nt" "length (device_id g) = 8"
  shows "\<exists>nt'. send_heartbeat g p (i, nt) = (i\<lparr>in_tx_heartbeat := in_tx_heartbeat i + 1, seqnum := seqnum i + 1\<rparr>, nt') \<and>
    hw_ok nt' \<and> tables nt' = tables nt \<and>
    (\<exists>F. wire nt' = wire nt @ [F] \<and> carries DANTE_PORT_HEARTBEAT F (with_total (heartbeat_bytes g p i)))"
proof -
  have "4 \<le> length (heartbeat_bytes g p i)" "length (heartbeat_bytes g p i) \<le> 1400"
    by (simp_all add: heartbeat_length [OF assms(2)])
  from info_commit_sends [OF assms(1) this group_known(1), of DANTE_PORT_HEARTBEAT] show ?thesis
    by (auto simp: send_heartbeat_def)
qed

text \<open>A poll before the next announcement is due: a heartbeat, or nothing.\<close>

lemma poll_between:
  assumes "hw_ok nt" "length (device_id g) = 8" "info_announce_next_ms i \<noteq> 0" "sint (now - info_announce_next_ms i) < 0"
    and "dante_info_poll now g p (i, nt) = (i', nt')"
  shows "hw_ok nt' \<and> tables nt' = tables nt \<and> info_announce_next_ms i' = info_announce_next_ms i \<and>
    (\<exists>hs. wire nt' = wire nt @ hs \<and> length hs \<le> 1 \<and> (\<forall>F \<in> set hs. rd16 (ptr_of F) 36 = DANTE_PORT_HEARTBEAT))"
proof (cases "next_heartbeat_ms i \<noteq> 0 \<and> sint (now - next_heartbeat_ms i) < 0")
  case True
  then show ?thesis using assms by (auto simp: dante_info_poll_def)
next
  case False
  let ?i = "i\<lparr>next_heartbeat_ms := now + HEARTBEAT_MS\<rparr>"
  have e: "send_heartbeat g p (?i, nt) = (i', nt')"
    using assms(3-5) False by (simp add: dante_info_poll_def not_le)
  with send_heartbeat_sends [OF assms(1,2), of p ?i] obtain F where "hw_ok nt'" "tables nt' = tables nt"
    "i' = ?i\<lparr>in_tx_heartbeat := in_tx_heartbeat ?i + 1, seqnum := seqnum ?i + 1\<rparr>"
    "wire nt' = wire nt @ [F]" "carries DANTE_PORT_HEARTBEAT F (with_total (heartbeat_bytes g p ?i))" by auto
  then show ?thesis by (auto simp: carries_def)
qed

lemma info_run_between:
  assumes "hw_ok (snd s)" "length (device_id g) = 8" "info_announce_next_ms (fst s) = of_nat (t + 3000)" "(of_nat (t + 3000) :: u32) \<noteq> 0"
    and "\<forall>u \<in> set us. t \<le> u \<and> u < t + 3000"
  shows "hw_ok (snd (info_run g p us s)) \<and> tables (snd (info_run g p us s)) = tables (snd s) \<and>
    info_announce_next_ms (fst (info_run g p us s)) = of_nat (t + 3000) \<and>
    (\<exists>hs. wire (snd (info_run g p us s)) = wire (snd s) @ hs \<and> length hs \<le> length us \<and>
      (\<forall>F \<in> set hs. rd16 (ptr_of F) 36 = DANTE_PORT_HEARTBEAT))"
  using assms(1,3,5)
proof (induction us arbitrary: s)
  case (Cons u us)
  obtain i nt where s: "s = (i, nt)" by (cases s)
  obtain i1 nt1 where q: "dante_info_poll (of_nat u) g p (i, nt) = (i1, nt1)" by fastforce
  have "sint (of_nat u - of_nat (t + 3000) :: u32) = int u - int (t + 3000)"
    using Cons.prems(3) by (intro sint_diff) auto
  then have n: "sint (of_nat u - info_announce_next_ms i) < 0" using Cons.prems(2,3) by (simp add: s)
  have z: "info_announce_next_ms i \<noteq> 0" using Cons.prems(2) assms(4) by (simp add: s)
  from poll_between [OF _ assms(2) z n q] Cons.prems(1)
  obtain hs where h: "hw_ok nt1" "tables nt1 = tables nt" "info_announce_next_ms i1 = info_announce_next_ms i"
    "wire nt1 = wire nt @ hs" "length hs \<le> 1" "\<forall>F \<in> set hs. rd16 (ptr_of F) 36 = DANTE_PORT_HEARTBEAT" by (auto simp: s)
  have "hw_ok (snd (i1, nt1))" "info_announce_next_ms (fst (i1, nt1)) = of_nat (t + 3000)" "\<forall>u \<in> set us. t \<le> u \<and> u < t + 3000"
    using h Cons.prems by (simp_all add: s)
  from Cons.IH [OF this] obtain ks where k: "hw_ok (snd (info_run g p us (i1, nt1)))"
    "tables (snd (info_run g p us (i1, nt1))) = tables nt1" "info_announce_next_ms (fst (info_run g p us (i1, nt1))) = of_nat (t + 3000)"
    "wire (snd (info_run g p us (i1, nt1))) = wire nt1 @ ks" "length ks \<le> length us"
    "\<forall>F \<in> set ks. rd16 (ptr_of F) 36 = DANTE_PORT_HEARTBEAT" by auto
  have "info_run g p (u # us) s = info_run g p us (i1, nt1)" by (simp add: info_run_def s q)
  then show ?case using k h by (auto intro!: exI [of _ "hs @ ks"] simp: s)
qed (simp add: info_run_def)

section \<open>Properties\<close>

text \<open>
  C28: the heartbeat can be read record by record. In every state the servo can be in, a heartbeat
  is one datagram whose length field is its length, and a receiver that walks its sub-records
  by their own lengths finds exactly the five of them, with the rate error in parts per billion
  (no 64-bit overflow, no truncation), the offset and path delay, the channel counts, and the
  flow counts.
\<close>

theorem heartbeat_read_back:
  assumes "hw_ok nt" "length (device_id g) = 8" "servo_wf p" "send_heartbeat g p (i, nt) = (i', nt')"
  shows "seqnum i' = seqnum i + 1 \<and> (\<exists>F b. wire nt' = wire nt @ [F] \<and> carries DANTE_PORT_HEARTBEAT F b \<and>
    unat (rd16 (ptr_of b) 2) = length b \<and> sub_records (drop MCAST_HDR_LEN b) = Some (heartbeat_records p))"
proof -
  let ?p = "heartbeat_bytes g p i"
  have l: "length ?p = 220" by (rule heartbeat_length [OF assms(2)])
  have "take 4 (with_total ?p) = take 2 ?p @ be16 220"
    using with_total_parts(1,2) [of ?p] l take_add [of 2 2 "with_total ?p"] by simp
  then have "with_total ?p = take 2 ?p @ be16 220 @ drop 4 (with_total ?p)"
    using append_take_drop_id [of 4 "with_total ?p"] by (metis append.assoc)
  then have t: "rd16 (ptr_of (with_total ?p)) 2 = 220"
    using rd16_at [of "take 2 ?p" 220 "drop 4 (with_total ?p)"] l by simp
  have "drop 32 ?p = rec_8001 (seqnum i) (servo_ppb p) @ rec_8000 (seqnum i) (offset_ns p) (mean_path_delay_ns p) @
      rec_8002 (seqnum i) @ rec_8003 (seqnum i) @ rec_8004 (seqnum i)"
    unfolding heartbeat_bytes_def by (simp add: put_hdr_length assms(2))
  then have w: "sub_records (drop 32 (with_total ?p)) = Some (heartbeat_records p)"
    using with_total_parts(3) [of ?p 32] l heartbeat_walk [OF assms(3)] by simp
  have "length (with_total ?p) = 220" using l by simp
  with t w have b: "unat (rd16 (ptr_of (with_total ?p)) 2) = length (with_total ?p)"
    "sub_records (drop MCAST_HDR_LEN (with_total ?p)) = Some (heartbeat_records p)" by (simp_all add: MCAST_HDR_LEN_def)
  obtain F where "seqnum i' = seqnum i + 1" "wire nt' = wire nt @ [F]" "carries DANTE_PORT_HEARTBEAT F (with_total ?p)"
    using send_heartbeat_sends [OF assms(1,2), of p i] assms(4) by auto
  with b show ?thesis by blast
qed


lemma demo_net_hw: "hw_ok demo_net"
  using net_boot_inv [of "(0, 0x1D, 0xC1, 1, 2, 3)"] by (simp add: demo_net_def net_inv_def)

lemma demo_servo_wf: "servo_wf demo_ptp"
  unfolding demo_ptp_def by (rule start_wf) (simp_all add: ptp0_def window_wf_def MEDIAN_N_def)

lemma demo_dev_id: "length (device_id (dante_dev_init mac)) = 8"
  by (simp add: dante_dev_init_def Let_def)

definition info0 :: info where
  "info0 = \<lparr>seqnum = 0, next_heartbeat_ms = 0, info_announce_next_ms = 0, in_rx = 0, in_rx_unknown = 0, in_tx_heartbeat = 0, in_tx_info = 0\<rparr>"

theorem heartbeat_read_back_witness:
  "\<exists>i' nt' F b. send_heartbeat (dante_dev_init (0, 0, 0, 0, 0, 1)) demo_ptp (info0, demo_net) = (i', nt') \<and> wire nt' = wire demo_net @ [F] \<and>
    carries DANTE_PORT_HEARTBEAT F b \<and> sub_records (drop MCAST_HDR_LEN b) = Some (heartbeat_records demo_ptp)"
proof -
  obtain i' nt' where r: "send_heartbeat (dante_dev_init (0, 0, 0, 0, 0, 1)) demo_ptp (info0, demo_net) = (i', nt')" by fastforce
  from heartbeat_read_back [OF demo_net_hw demo_dev_id demo_servo_wf r] r show ?thesis by blast
qed

text \<open>
  C29: a controller learns whose follower we are. A request for the clock state, once there is a
  master, is answered with one datagram to the information group that carries the number and
  the opcode of the request, its fourth byte turned to the reply's, and in the body the lock
  state, the rate error, our own address, and the master's in both its forms. Without a master
  nothing is sent.
\<close>

theorem clock_state_answered:
  assumes "hw_ok nt" "length (device_id g) = 8" "req = ptr_of (dg_payload d)" "32 \<le> length (dg_payload d)" "req 27 = 0x21"
    and "info_rx g p d (i, nt) = (i', nt')"
  shows "(\<not> have_master p \<longrightarrow> nt' = nt) \<and> (have_master p \<longrightarrow> (\<exists>F b. wire nt' = wire nt @ [F] \<and> carries DANTE_PORT_INFO F b \<and>
    take 2 (drop 4 b) = be16 (rd16 req 4) \<and> take 8 (drop 24 b) = (bytes_at req 24 8)[3 := 0x20] \<and>
    (let c = drop MCAST_HDR_LEN b in take 2 (drop 2 c) = [0, if locked p then 3 else 1] \<and>
      take 4 (drop 8 c) = be32 (of_int (servo_ppb p)) \<and> take 8 (drop 12 c) = mac_bytes (dd_mac g) @ [0, 0] \<and>
      take 8 (drop 20 c) = mac_bytes (master_uuid p) @ [0, 0] \<and> take 8 (drop 128 c) = eui64 (master_uuid p))))"
proof -
  let ?i = "i\<lparr>in_rx := in_rx i + 1\<rparr>"
  have e: "info_rx g p d (i, nt) = send_clock_stats g p grp_devinfo DANTE_PORT_INFO (Some req) (?i, nt)"
    using assms(4,5) unfolding info_rx_def prod.case Let_def assms(3) [symmetric] by (simp add: MCAST_HDR_LEN_def)
  show ?thesis
  proof (cases "have_master p")
    case False
    then show ?thesis using assms(6) by (simp add: e send_clock_stats_def)
  next
    case True
    let ?p = "clock_message g p (Some req) ?i"
    have l: "length ?p = 180" by (rule clock_message_length [OF assms(2)])
    from send_clock_stats_sends [OF assms(1,2), of DANTE_PORT_INFO p "Some req" ?i] True
    have "sends DANTE_PORT_INFO [?p] (?i, nt) (i', nt')" unfolding e [symmetric] assms(6) by simp
    then obtain F where F: "wire nt' = wire nt @ [F]" "carries DANTE_PORT_INFO F (with_total ?p)"
      by (auto simp: sends_def list_all2_Cons2)
    have m: "?p = put_hdr_seq g 0xFFFF ((bytes_at req 24 8)[3 := 0x20]) (rd16 req 4) @ clock_stats_body g p"
      by (simp add: clock_message_def clock_stats_op_def)
    have d: "drop k (with_total ?p) = drop k ?p" if "4 \<le> k" for k using with_total_parts(3) l that by simp
    have "drop 4 ?p = be16 (rd16 req 4) @ be16 (process_id g) @ device_id g @ vendor_str @ (bytes_at req 24 8)[3 := 0x20] @ clock_stats_body g p"
      by (simp add: m put_hdr_seq_def assms(2))
    then have "take 2 (drop 4 (with_total ?p)) = be16 (rd16 req 4)" by (simp add: d)
    moreover have "drop 24 ?p = (bytes_at req 24 8)[3 := 0x20] @ clock_stats_body g p" "drop 32 ?p = clock_stats_body g p"
      by (simp_all add: m put_hdr_seq_def assms(2) vendor_str_def ascii_def)
    then have "take 8 (drop 24 (with_total ?p)) = (bytes_at req 24 8)[3 := 0x20]" "drop 32 (with_total ?p) = clock_stats_body g p"
      by (simp_all add: d)
    moreover from this(2) have "let c = drop MCAST_HDR_LEN (with_total ?p) in take 2 (drop 2 c) = [0, if locked p then 3 else 1] \<and>
        take 4 (drop 8 c) = be32 (of_int (servo_ppb p)) \<and> take 8 (drop 12 c) = mac_bytes (dd_mac g) @ [0, 0] \<and>
        take 8 (drop 20 c) = mac_bytes (master_uuid p) @ [0, 0] \<and> take 8 (drop 128 c) = eui64 (master_uuid p)"
      unfolding MCAST_HDR_LEN_def Let_def by (simp only: clock_stats_body_fields [OF assms(2), of p] simp_thms)
    ultimately show ?thesis using F True by blast
  qed
qed

theorem clock_state_answered_witness:
  "\<exists>i' nt' F b. info_rx (dante_dev_init (0, 0, 0, 0, 0, 1)) (demo_ptp\<lparr>have_master := True\<rparr>)
      \<lparr>dg_fn = Info_Rx, dg_src = (169, 254, 1, 2), dg_dst = (169, 254, 1, 3), dg_sport = 8700,
       dg_payload = replicate 27 0 @ [0x21] @ replicate 4 0\<rparr> (info0, demo_net) = (i', nt') \<and> wire nt' = wire demo_net @ [F] \<and> carries DANTE_PORT_INFO F b"
proof -
  let ?d = "\<lparr>dg_fn = Info_Rx, dg_src = (169, 254, 1, 2), dg_dst = (169, 254, 1, 3), dg_sport = 8700, dg_payload = replicate 27 0 @ [0x21] @ replicate 4 0\<rparr>"
  let ?g = "dante_dev_init (0, 0, 0, 0, 0, 1)" and ?p = "demo_ptp\<lparr>have_master := True\<rparr>"
  obtain i' nt' where r: "info_rx ?g ?p ?d (info0, demo_net) = (i', nt')" by fastforce
  have "32 \<le> length (dg_payload ?d)" "ptr_of (dg_payload ?d) 27 = 0x21" by (simp_all add: ptr_of_def nth_append)
  from clock_state_answered [OF demo_net_hw demo_dev_id refl this r] r show ?thesis by auto
qed

text \<open>
  C30: the device is announced every three seconds. Once an announcement was sent at time \<open>t\<close>,
  the polls of the next three seconds send nothing but heartbeats, at most one each, and the
  first poll after them, however late, announces the device again, with all its messages, and
  sets the next time three seconds on.
\<close>

theorem announced_every_three_seconds:
  assumes "hw_ok nt" "length (device_id g) = 8" "info_announce_next_ms i = of_nat (t + 3000)" "(of_nat (t + 3000) :: u32) \<noteq> 0"
    and "\<forall>u \<in> set us. t \<le> u \<and> u < t + 3000" "t + 3000 \<le> v" "v < t + 3000 + 2 ^ 31"
    and "info_run g p us (i, nt) = (i1, nt1)" "dante_info_poll (of_nat v) g p (i1, nt1) = (i2, nt2)"
  shows "\<exists>hs fs. wire nt1 = wire nt @ hs \<and> length hs \<le> length us \<and> (\<forall>F \<in> set hs. rd16 (ptr_of F) 36 = DANTE_PORT_HEARTBEAT) \<and>
    wire nt2 = wire nt1 @ fs \<and> length fs = 7 + of_bool (have_master p) \<and> (\<forall>F \<in> set fs. rd16 (ptr_of F) 36 = DANTE_PORT_INFO) \<and>
    info_announce_next_ms i2 = of_nat (v + 3000)"
proof -
  have "hw_ok (snd (i, nt))" "info_announce_next_ms (fst (i, nt)) = of_nat (t + 3000)" using assms(1,3) by simp_all
  from info_run_between [OF this(1) assms(2) this(2) assms(4,5), of p] obtain hs where
    h: "hw_ok nt1" "info_announce_next_ms i1 = of_nat (t + 3000)" "wire nt1 = wire nt @ hs" "length hs \<le> length us"
      "\<forall>F \<in> set hs. rd16 (ptr_of F) 36 = DANTE_PORT_HEARTBEAT" by (auto simp: assms(8))
  have "sint (of_nat v - of_nat (t + 3000) :: u32) = int v - int (t + 3000)" using assms(6,7) by (intro sint_diff) auto
  then have due: "sint (of_nat v - info_announce_next_ms i1) \<ge> 0" using assms(6) h(2) by simp
  obtain i3 nt3 where a: "info_announce g p (i1, nt1) = (i3, nt3)" by fastforce
  have e: "i2 = i3\<lparr>info_announce_next_ms := of_nat v + INFO_ANNOUNCE_MS\<rparr>" "nt2 = nt3"
    using assms(9) due by (simp_all add: dante_info_poll_def a)
  have "hw_ok (snd (i1, nt1))" using h(1) by simp
  from info_announce_sends [OF this assms(2), of p] obtain ps fs where
    "length ps = 7 + of_bool (have_master p)" "wire nt3 = wire nt1 @ fs" "list_all2 (carries DANTE_PORT_INFO) fs (map with_total ps)"
    by (auto simp: sends_def a)
  moreover from this(3) have "\<forall>F \<in> set fs. rd16 (ptr_of F) 36 = DANTE_PORT_INFO" "length fs = length ps"
    by (auto simp: list_all2_conv_all_nth carries_def in_set_conv_nth)
  ultimately show ?thesis using h e by (auto simp: INFO_ANNOUNCE_MS_def)
qed

theorem announced_every_three_seconds_witness:
  "\<exists>i2 nt2 fs. dante_info_poll 3005 (dante_dev_init (0, 0, 0, 0, 0, 1)) demo_ptp
      (info_run (dante_dev_init (0, 0, 0, 0, 0, 1)) demo_ptp [7, 1500] (info0\<lparr>info_announce_next_ms := 3001\<rparr>, demo_net)) = (i2, nt2) \<and>
    length fs \<ge> 7 \<and> (\<forall>F \<in> set fs. rd16 (ptr_of F) 36 = DANTE_PORT_INFO) \<and> set fs \<subseteq> set (wire nt2)"
proof -
  let ?g = "dante_dev_init (0, 0, 0, 0, 0, 1)" and ?i = "info0\<lparr>info_announce_next_ms := 3001\<rparr>"
  obtain i1 nt1 where a: "info_run ?g demo_ptp [7, 1500] (?i, demo_net) = (i1, nt1)" by fastforce
  obtain i2 nt2 where b: "dante_info_poll (of_nat 3005) ?g demo_ptp (i1, nt1) = (i2, nt2)" by fastforce
  have "info_announce_next_ms ?i = of_nat (1 + 3000)" "(of_nat (1 + 3000) :: u32) \<noteq> 0" "\<forall>u \<in> set [7, 1500]. (1 :: nat) \<le> u \<and> u < 1 + 3000"
    by simp_all
  from announced_every_three_seconds [OF demo_net_hw demo_dev_id this _ _ a b] obtain fs where
    "wire nt2 = wire nt1 @ fs" "length fs = 7 + of_bool (have_master demo_ptp)" "\<forall>F \<in> set fs. rd16 (ptr_of F) 36 = DANTE_PORT_INFO" by auto
  moreover have "dante_info_poll 3005 ?g demo_ptp (info_run ?g demo_ptp [7, 1500] (?i, demo_net)) = (i2, nt2)" using b by (simp add: a)
  ultimately show ?thesis by (intro exI [of _ i2] exI [of _ nt2] exI [of _ fs]) simp
qed

end
