(* ===== verification/Mainloop_Claims.thy ===== *)
theory Mainloop_Claims
  imports Mainloop_Boot Mdns_Claims Dante_Info_Claims
begin

text \<open>
  The firmware as a whole: what holds in every state the main loop can reach from start-up, and what
  becomes of a datagram and of a request for statistics, whatever keys are pressed.
\<close>

section \<open>A demonstration device\<close>

text \<open>Zeroed memory with the static initialisers, a flash that reads as zeros, registers at rest.\<close>

definition mcr0 :: mcr where
  "mcr0 = \<lparr>mr_bound = False, stream_id = replicate 8 0, base_frequency = 0, mr_pull = 0, mr_type = 0, timestamp_interval = 0,
     timestamps_per_pdu = 0, latest_avtp_ts = 0, latest_local_ts = 0, latest_offset_ns = 0, have_latest = False,
     servo_consumed = False, prev_offset_ns = 0, have_prev = False, mr_integral = 0, usb_integral = 0,
     usb_level_filt = 0, usb_last_level = 0, base_increment = 0, current_increment = 0, mr_locked = False,
     mr_lock_streak = 0, mr_step_count = 0, delta_max_abs = 0, delta_sum_abs = 0, delta_window_count = 0,
     mr_counts = \<lparr>mr_rx_count = 0, mr_hw_rx_count = 0, mr_rx_other = 0, mr_bad_type = 0, mr_seq_errors = 0, mr_rejects = 0\<rparr>,
     last_seq = 0, have_last_seq = False, last_rx_count_snapshot = 0, last_rx_check_ms = 0, watchdog_reset_active = False,
     have_gptp = False, mr_cs = 0, gptp_locked_base = 0,
     mr_trace = \<lparr>crf_log = replicate 320 (0, 0, 0, False), crf_log_idx = 0, crf_log_count = 0, crf_log_postlock = 0,
       crf_log_last_ms = 0\<rparr>,
     crf_off_filt = 0, crf_off_win_start = 0, crf_win_start_ms = 0, crf_ppb_filt = 0, crf_last_err_ppb = 0,
     crf_meas_count = 0, crf_rate_valid = False, mcr_trim_ppb = 0, inc_last = 0,
     inc_writes = replicate 4 0, mr_nco = 0\<rparr>"

definition bench0 :: bench where
  "bench0 = \<lparr>window_start_ms = 0, s_writer_errors = 0, s_sync_rx = 0, s_pdresp_rx = 0, last_iter_ns = 0, max_iter_ns = 0,
     sum_iter_ns = 0, iter_count = 0, r_writer_errors = 0, r_sync_rx = 0, r_pdresp_rx = 0, r_iter_per_sec = 0,
     r_iter_avg_ns = 0, r_iter_max_ns = 0\<rparr>"

definition console0 :: console where
  "console0 = \<lparr>g_verbose = False, usb_nco_freeze = False, g_src_kp = 16384, g_src_ki = 2, g_src_integ = 0, kp_idx = 2, ki_idx = 2,
     fb_idx = 0, utap = 0, ts_off = 0, ulpi_tap = 0, pkt_ts_offset = 0, reset_req = False\<rparr>"

definition demo_fw :: "unit fw" where
  "demo_fw = \<lparr>fw_net = demo_net, fw_gate = demo_gate, fw_cfg = cfg_defaults, fw_flash = (), fw_dev = demo_dev, fw_mdns = mdns0,
     fw_arc = arc0, fw_cmc = \<lparr>cmc_rx_count = 0, cmc_tx_count = 0\<rparr>, fw_info = info0, fw_ptp = ptp0, fw_tx = boot_tx,
     fw_flows = flows_srv0, fw_mclk = mclk0, fw_telem = telem0,
     fw_gptp = gptp_init mac_addr \<lparr>uptime_bias_ms = 0, tsu_cmds = []\<rparr> [], fw_mcr = mcr0, fw_bench = bench0,
     fw_con = console0, g_fpp_adv_max = 8, usb_fb_manual = 0, usb_fb_sweep_hold = False, usb_fb_ovr = 0, usb_last_ms = 0,
     usb_lock_calls = 0, aaf_gw_enabled = False, scratch = replicate 1600 0, rx_total = 0, rx_ptp = 0, rx_other = 0,
     rx_filtered = 0, rx_pops = 0, rx_ts_resyncs = 0, g_lvl_pre = 0, g_lvl_post = 0, rx_last_ethertype = 0,
     rx_last_dst = replicate 6 0, rx_last_src = replicate 6 0\<rparr>"

definition zero_spi :: "unit spi" where
  "zero_spi = (\<lambda>_ _ d. (0, d))"

definition demo_hw :: hw where
  "demo_hw = \<lparr>h_now = 1000, h_time = \<lparr>tsec = 1, tnsec = 0\<rparr>, h_rx_ts = \<lparr>tsec = 1, tnsec = 0\<rparr>, h_tx_ts = \<lparr>tsec = 1, tnsec = 0\<rparr>,
     h_sub = (\<lambda>_. 0), h_last_sec = (\<lambda>_. 0), h_last_ts = (\<lambda>_. 0), h_underrun = 0, h_overrun = 0, h_packets = 0,
     h_fifo_level = 0, h_writer_errors = 0, h_crc_errors = 0, h_gate_drop = (0, 0), h_gate_counts = (0, 0, 0),
     h_usb_beats = 0, h_usb_out = 0\<rparr>"

text \<open>The state after start-up, and a first pass in which a key is pressed and a frame arrives.\<close>

definition demo_boot :: "unit fw" where
  "demo_boot = main_boot zero_spi demo_hw demo_fw"

definition demo_pass :: pass where
  "demo_pass = ((\<lambda>_. demo_hw), (1, 1), [(demo_hw, replicate 60 0xFF)], Some 0x76)"

lemma demo_fw_cold: "fw_cold demo_fw"
proof -
  have "hw_ok demo_net" using net_boot_inv [of "(0, 0x1D, 0xC1, 1, 2, 3)"] by (simp add: demo_net_def net_inv_def)
  moreover have "arp_next demo_net = 0" "length (igmp_groups demo_net) = IGMP_N" "udp_bindings demo_net = replicate UDP_BINDINGS (0, None)"
    by (simp_all add: demo_net_def net_boot_def net_init_def)
  moreover have "tx_cold boot_tx" by (auto simp: tx_cold_def boot_tx_def N_FLOWS_def demo_slot_def nth_Cons')
  moreover have "window_wf ptp0" by (simp add: window_wf_def ptp0_def MEDIAN_N_def)
  ultimately show ?thesis by (simp add: fw_cold_def demo_fw_def arc0_wf) (simp add: ptp0_def mclk0_def)
qed

text \<open>A pass in which the talker is restarted, and one in which the retired clock is unbound.\<close>

definition demo_keys :: "pass list" where
  "demo_keys = [((\<lambda>_. demo_hw), (1, 1), [], Some 0x74), ((\<lambda>_. demo_hw), (1, 1), [], Some 0x4E)]"

lemma demo_quiet: "no_talker_key [demo_pass]" "no_unbind_key [demo_pass]"
  by (simp_all add: no_talker_key_def no_unbind_key_def talker_key_def unbind_key_def demo_pass_def)

section \<open>Every reachable state\<close>

text \<open>
  C1: from start-up, in any number of passes of the main loop, with any frames, readings and keys,
  the network stack keeps its tables and slots, the clock servo its bounds, the receive filter the
  state reported of it and the ARC server its tables, all at once. Unless a key restarts or stops
  the talker (\<open>t\<close>, \<open>T\<close>), each packetizer context also carries the flow the table holds and the
  talker is on exactly when it says so; unless a key unbinds the retired clock (\<open>N\<close>), the register
  of the sample clock holds the applied rate, within its limit.
\<close>

theorem main_loop_keeps_invariants:
  assumes "fw_cold s0"
  shows "\<exists>s. s = main_run xfer ps (main_boot xfer h s0) \<and>
    net_inv (fw_net s) \<and> servo_wf (fw_ptp s) \<and> s_enabled (fw_gate s) = csr_enable (fw_gate s) \<and> arc_wf (fw_arc s) \<and>
    (no_talker_key ps \<longrightarrow>
      (\<forall>f<N_FLOWS. slot_mirrored (flows (fw_tx s) ! f) (ctxs (fw_tx s) ! f)) \<and> pkt_enable (fw_tx s) = talker_on (fw_tx s)) \<and>
    (no_unbind_key ps \<longrightarrow>
      nco_inc (fw_mclk s) = inc_for_ppb (base_inc (fw_mclk s)) (applied_ppb (fw_mclk s)) \<and> \<bar>applied_ppb (fw_mclk s)\<bar> \<le> MAX_PPB)"
proof -
  have "fw_ok (no_talker_key ps) (no_unbind_key ps) (bound_table server_ports) (main_run xfer ps (main_boot xfer h s0))"
    by (rule boot_run_ok [OF assms])
  then show ?thesis by (simp add: fw_ok_def tx_good_def mc_good_def tx_inv_def mc_inv_def gate_inv_def)
qed

theorem main_loop_keeps_invariants_witness:
  "(\<exists>s. s = main_run zero_spi [demo_pass] (main_boot zero_spi demo_hw demo_fw) \<and> net_inv (fw_net s) \<and>
      (\<forall>f<N_FLOWS. slot_mirrored (flows (fw_tx s) ! f) (ctxs (fw_tx s) ! f)) \<and> \<bar>applied_ppb (fw_mclk s)\<bar> \<le> MAX_PPB) \<and>
   (\<exists>s. s = main_run zero_spi demo_keys (main_boot zero_spi demo_hw demo_fw) \<and> net_inv (fw_net s) \<and> servo_wf (fw_ptp s))"
  using main_loop_keeps_invariants [OF demo_fw_cold, of zero_spi "[demo_pass]" demo_hw]
    main_loop_keeps_invariants [OF demo_fw_cold, of zero_spi demo_keys demo_hw] demo_quiet by blast

text \<open>
  C19: start-up binds ten servers, one to each of their ports, and no other port; however long the
  main loop has run and whatever keys were pressed, a datagram for one of these ports is given to
  that server, and one for any other port to none.
\<close>

theorem servers_stay_bound:
  assumes "fw_cold s0"
  shows "udp_lookup (udp_bindings (fw_net (main_run xfer ps (main_boot xfer h s0)))) port = map_of server_ports port"
proof -
  have "fw_ok False False (bound_table server_ports) (main_run xfer ps (main_boot xfer h s0))"
    by (rule boot_run_ok [OF assms]) simp_all
  then show ?thesis by (simp add: fw_ok_def lookup_bound)
qed

theorem servers_stay_bound_witness:
  "udp_lookup (udp_bindings (fw_net (main_run zero_spi (demo_pass # demo_keys) (main_boot zero_spi demo_hw demo_fw)))) 4455 = Some Flows_Rx"
  unfolding servers_stay_bound [OF demo_fw_cold] by (simp add: server_ports_def port_defs)

section \<open>From the wire to the server\<close>

text \<open>A frame as the switch hands it over: as it was sent, or with a VLAN tag behind the addresses.\<close>

definition vlan_tagged :: "u16 \<Rightarrow> u8 list \<Rightarrow> u8 list" where
  "vlan_tagged tci F = take 12 F @ be16 0x8100 @ be16 tci @ drop 12 F"

lemma put_agrees: "agree (length F) (ptr_of F) (ptr_of (put 0 F sc))"
  by (auto simp: agree_def ptr_of_def put_0 nth_append)

lemma strip_plain:
  assumes "length F \<le> 1600" "rd16 (ptr_of F) 12 \<noteq> 0x8100"
  shows "rx_strip sc F = (put 0 F sc, length F)"
  using assms by (simp add: rx_strip_def Let_def)

lemma strip_tagged:
  assumes "14 \<le> length F" "length F \<le> 1596"
  shows "snd (rx_strip sc (vlan_tagged tci F)) = length F \<and> agree (length F) (ptr_of F) (ptr_of (fst (rx_strip sc (vlan_tagged tci F))))"
proof -
  have a: "length (take 12 F) = 12" using assms by simp
  have l: "length (vlan_tagged tci F) = length F + 4" using assms by (simp add: vlan_tagged_def)
  have t: "rd16 (ptr_of (vlan_tagged tci F)) 12 = 0x8100"
    using rd16_at [of "take 12 F" "0x8100" "be16 tci @ drop 12 F"] a by (simp add: vlan_tagged_def)
  define r where "r = drop (length F + 4) sc"
  have p: "put 0 (vlan_tagged tci F) sc = take 12 F @ be16 0x8100 @ be16 tci @ drop 12 F @ r"
    by (simp add: put_0 l r_def) (simp add: vlan_tagged_def)
  have "take (length F + 4 - 16) (drop 16 (take 12 F @ be16 0x8100 @ be16 tci @ drop 12 F @ r)) = drop 12 F" using assms by simp
  then have "rx_strip sc (vlan_tagged tci F) = (put 12 (drop 12 F) (take 12 F @ be16 0x8100 @ be16 tci @ drop 12 F @ r), length F)"
    using assms l t p by (simp add: rx_strip_def Let_def)
  moreover have "put 12 (drop 12 F) (take 12 F @ be16 0x8100 @ be16 tci @ drop 12 F @ r) =
      F @ drop (length F) (take 12 F @ be16 0x8100 @ be16 tci @ drop 12 F @ r)"
    using assms a by (simp add: put_def)
  ultimately show ?thesis by (simp add: agree_def ptr_of_def nth_append)
qed

lemma udp_frame_front:
  assumes "length payload \<le> 1400" "F = udp_frame dmac dst dport sport tos payload nt @ pad"
  shows "42 \<le> length F" "rd16 (ptr_of F) 12 = 0x0800" "ip_len_ok (ptr_of F)"
proof -
  note f = udp_frame_fields [OF assms]
  show "42 \<le> length F" using f(12) by simp
  show "rd16 (ptr_of F) 12 = 0x0800" by (rule f(1))
  show "ip_len_ok (ptr_of F)" by (simp add: ip_len_ok_def f(2,3))
qed

text \<open>What the filter looks at comes before the tag.\<close>

lemma tagged_front: "14 \<le> length F \<Longrightarrow> i < 12 \<Longrightarrow> ptr_of (vlan_tagged tci F) i = ptr_of F i"
  by (simp add: vlan_tagged_def ptr_of_def nth_append)

definition passes :: "ptr \<Rightarrow> bool" where
  "passes f \<longleftrightarrow> f 0 AND 1 = 0 \<or> rx_keep f"

lemma tagged_passes: "14 \<le> length F \<Longrightarrow> passes (ptr_of (vlan_tagged tci F)) = passes (ptr_of F)"
  by (simp add: passes_def rx_keep_def tagged_front)

lemma rx_frame_taken:
  assumes "passes (ptr_of slot)" "rx_strip (scratch s) slot = (sc, len)" "14 \<le> len"
  shows "\<exists>t. rx_frame xfer s (h, slot) = rx_ethertype xfer h len t \<and> scratch t = sc \<and> rx_total t = rx_total s \<and>
    rx_pops t = rx_pops s + 1 \<and> udp_bindings (fw_net t) = udp_bindings (fw_net s) \<and> g_net_ip (fw_net t) = g_net_ip (fw_net s) \<and>
    g_net_prefix (fw_net t) = g_net_prefix (fw_net s) \<and> fw_arc t = fw_arc s \<and> fw_tx t = fw_tx s \<and> fw_ptp t = fw_ptp s \<and> fw_mclk t = fw_mclk s"
proof -
  have k: "\<not> (ptr_of slot 0 AND 1 \<noteq> 0 \<and> \<not> rx_keep (ptr_of slot))" using assms(1) by (simp add: passes_def)
  let ?a = "at_time h s"
  let ?t = "?a\<lparr>fw_net := (fw_net ?a)\<lparr>cap := cap_record 0 (ptr_of slot) (length slot) (h_now h) (cap (fw_net ?a))\<rparr>, rx_pops := rx_pops ?a + 1,
    scratch := sc, rx_last_dst := bytes_at (ptr_of slot) 0 6, rx_last_src := bytes_at (ptr_of slot) 6 6\<rparr>"
  have "scratch (?a\<lparr>fw_net := n, rx_pops := x\<rparr>) = scratch s" for n x by (simp add: at_time_def)
  then have "rx_frame xfer s (h, slot) = rx_ethertype xfer h len ?t"
    unfolding rx_frame_def prod.case Let_def if_not_P [OF k] using assms(3) by (simp add: assms(2))
  then show ?thesis by (intro exI [of _ ?t]) (simp add: at_time_def)
qed

text \<open>
  C2: however long the main loop has run, whatever keys were pressed, a UDP frame for this host to the port of a server, with or
  without a VLAN tag and whatever padding, that the software filter lets pass, is given to that
  server and to no other with exactly the payload that was sent and the address and port of the sender.
\<close>

theorem datagram_reaches_its_server:
  assumes "fw_cold s0" "s = main_run xfer ps (main_boot xfer h0 s0)"
    and "length payload \<le> 1400" "F = udp_frame dmac dst dport sport tos payload nt @ pad" "length F \<le> 1596"
    and "frame = F \<or> frame = vlan_tagged tci F" "passes (ptr_of F)"
    and "ip_for_us dst (fw_net s)" "map_of server_ports dport = Some fn"
  shows "\<exists>t. rx_frame xfer s (h, frame) = udp_call xfer h \<lparr>dg_fn = fn, dg_src = g_net_ip nt, dg_dst = dst, dg_sport = sport,
      dg_payload = payload\<rparr> t \<and> rx_total t = rx_total s + 1 \<and> fw_arc t = fw_arc s \<and> fw_tx t = fw_tx s \<and> fw_ptp t = fw_ptp s \<and>
    fw_mclk t = fw_mclk s"
proof -
  note F = udp_frame_front [OF assms(3,4)]
  have l: "14 \<le> length F" using F(1) by simp
  have "\<exists>sc. rx_strip (scratch s) frame = (sc, length F) \<and> agree (length F) (ptr_of F) (ptr_of sc)"
    using assms(6)
  proof
    assume "frame = F"
    then show ?thesis using strip_plain [of F "scratch s"] put_agrees assms(5) F(2) by auto
  next
    assume "frame = vlan_tagged tci F"
    then show ?thesis using strip_tagged [OF l assms(5), of "scratch s" tci] by (metis prod.collapse)
  qed
  then obtain sc where sc: "rx_strip (scratch s) frame = (sc, length F)" "agree (length F) (ptr_of F) (ptr_of sc)" by blast
  have p: "passes (ptr_of frame)" using assms(6,7) tagged_passes [OF l] by auto
  obtain t where t: "rx_frame xfer s (h, frame) = rx_ethertype xfer h (length F) t" "scratch t = sc" "rx_total t = rx_total s"
    "udp_bindings (fw_net t) = udp_bindings (fw_net s)" "g_net_ip (fw_net t) = g_net_ip (fw_net s)"
    "g_net_prefix (fw_net t) = g_net_prefix (fw_net s)" "fw_arc t = fw_arc s" "fw_tx t = fw_tx s" "fw_ptp t = fw_ptp s" "fw_mclk t = fw_mclk s"
    using rx_frame_taken [OF p sc(1) l, of xfer h] by blast
  have "fw_ok False False (bound_table server_ports) s" unfolding assms(2) by (rule boot_run_ok [OF assms(1)]) simp_all
  then have "udp_get (fw_net t) dport = Some fn" using assms(9) t(4) by (simp add: fw_ok_def udp_get_def lookup_bound)
  moreover have "ip_for_us dst (fw_net t)" using assms(8) unfolding ip_for_us_def t(5,6) .
  ultimately obtain nt' where r: "net_rx_frame (ptr_of F) (length F) (fw_net t) =
      (1, Some \<lparr>dg_fn = fn, dg_src = g_net_ip nt, dg_dst = dst, dg_sport = sport, dg_payload = payload\<rparr>, nt')"
    using udp_frame_received [OF assms(3,4)] by blast
  have et: "rd16 (ptr_of sc) 12 = 0x0800" using agree_rd16 [OF sc(2), of 12] F(1,2) by simp
  show ?thesis
    using r [unfolded net_rx_frame_local [OF sc(2) F(3)]] t(7-10)
    by (intro exI [of _ "t\<lparr>rx_total := rx_total t + 1, rx_last_ethertype := 0x0800, fw_net := nt'\<rparr>"])
      (simp add: t(1-3) rx_ethertype_def Let_def et PTP_ETHERTYPE_def)
qed

text \<open>A request for the statistics, broadcast by another host, with a tag.\<close>

definition demo_request :: "u8 list" where
  "demo_request = udp_frame (0xFF, 0xFF, 0xFF, 0xFF, 0xFF, 0xFF) (255, 255, 255, 255) 7779 40000 0 [0x67] demo_net @ replicate 17 0"

theorem datagram_reaches_its_server_witness:
  "\<exists>t. rx_frame zero_spi (main_run zero_spi [demo_pass] (main_boot zero_spi demo_hw demo_fw)) (demo_hw, vlan_tagged 5 demo_request) =
    udp_call zero_spi demo_hw \<lparr>dg_fn = Stats_Rx, dg_src = g_net_ip demo_net, dg_dst = (255, 255, 255, 255), dg_sport = 40000,
      dg_payload = [0x67]\<rparr> t"
proof -
  have l: "length demo_request = 60" by (simp add: demo_request_def udp_frame_def eth_header_def)
  have "ptr_of demo_request i = 0xFF" if "i < 6" for i
    using that by (auto simp: demo_request_def udp_frame_def eth_header_def ptr_of_def nth_append less_Suc_eq numeral_eq_Suc)
  then have "passes (ptr_of demo_request)" by (simp add: passes_def rx_keep_def)
  moreover have "map_of server_ports 7779 = Some Stats_Rx" by (simp add: server_ports_def port_defs)
  moreover have "ip_for_us (255, 255, 255, 255) (fw_net (main_run zero_spi [demo_pass] (main_boot zero_spi demo_hw demo_fw)))"
    by (simp add: ip_for_us_def)
  ultimately show ?thesis
    using datagram_reaches_its_server [OF demo_fw_cold refl _ demo_request_def _ disjI2 [OF refl], of zero_spi "[demo_pass]" demo_hw Stats_Rx demo_hw 5] l
    by auto
qed

section \<open>Requests for statistics\<close>

definition answers :: "datagram \<Rightarrow> 'd fw \<Rightarrow> 'd fw \<Rightarrow> bool" where
  "answers d s t \<longleftrightarrow> (\<exists>p s'. t = stats_reply d p s' \<and> fw_net s' = fw_net s \<and> 4 \<le> length p \<and> length p \<le> 1400)"

lemma answersI: "fw_net s' = fw_net s \<Longrightarrow> 4 \<le> length p \<Longrightarrow> length p \<le> 1400 \<Longrightarrow> answers d s (stats_reply d p s')"
  unfolding answers_def by blast

lemma length_words [simp]: "length (words ws) = 4 * length ws"
  by (induction ws) (simp_all add: words_def)

lemma out_net [simp]: "fw_net (tx_out t s) = fw_net s" "fw_net (mclk_out m s) = fw_net s"
  by (simp_all add: tx_out_def mclk_out_def)

lemma knobs_answer:
  "answers d s (rxgate_rx h d s)" "answers d s (st_tuning d s)" "answers d s (st_pacing h d s)" "answers d s (st_phase_adj d s)"
  "answers d s (st_mcast h d s)" "answers d s (st_versions d s)" "answers d s (st_caps d s)" "answers d s (st_mirror d s)"
  "answers d s (st_clamp h d s)" "answers d s (st_autoraise d s)" "answers d s (st_adv_max d s)" "answers d s (st_max_accept h d s)"
  "answers d s (st_latency d s)" "answers d s (st_usb h d s)" "answers d s (st_feedback d s)" "answers d s (st_offset h d s)"
  "answers d s (mclk_rx h d s)" "answers d s (st_patch_u32 d s)" "answers d s (st_patch d s)"
  unfolding rxgate_rx_def st_tuning_def st_pacing_def st_phase_adj_def st_mcast_def st_versions_def st_caps_def st_mirror_def
    st_clamp_def st_autoraise_def st_adv_max_def st_max_accept_def st_latency_def st_usb_def st_feedback_def st_offset_def mclk_rx_def
    st_patch_u32_def st_patch_def Let_def split_beta
  by (rule answersI; simp add: rxgate_words_def mclk_words_def Let_def)+

lemma tables_answer: "answers d s (st_flows h d s)" "answers d s (stats_reply d (words (counter_words h s)) s)"
proof -
  have u: "[0..<6 :: nat] = [0, 1, 2, 3, 4, 5]" by (simp add: upt_rec)
  show "answers d s (st_flows h d s)"
    unfolding st_flows_def by (rule answersI) (simp_all add: u flow_detail_words_def)
  show "answers d s (stats_reply d (words (counter_words h s)) s)"
    by (rule answersI) (simp_all add: counter_words_def u flow_words_def Let_def split_beta)
qed

lemma length_telem_emit: "length (telem_emit s want n) \<le> TELEM_MAX_PER_REPLY - n"
proof (induction s want n rule: telem_emit.induct)
  case (1 s want n)
  then show ?case by (subst telem_emit.simps) (auto simp: Let_def)
qed

lemma telem_answers: "answers d s (s\<lparr>fw_net := telem_rx (dg_src d) (dg_sport d) (dg_payload d) r (fw_net s)\<rparr>)"
proof -
  have "length (concat (map telem_bytes rs)) = 28 * length rs" for rs
    by (induction rs) (simp_all add: telem_bytes_def split: prod.split)
  moreover have "28 * length (telem_emit r w 0) \<le> 448" for w using length_telem_emit [of r w 0] by (simp add: TELEM_MAX_PER_REPLY_def)
  then have "28 * length (telem_emit r w 0) + 20 \<le> 1400" for w by (rule le_trans [OF add_le_mono1]) simp
  ultimately have "4 \<le> length (telem_reply (dg_payload d) r)" "length (telem_reply (dg_payload d) r) \<le> 1400"
    by (simp_all add: telem_reply_def Let_def)
  from answersI [OF refl this, of d s] show ?thesis
    by (simp add: stats_reply_def telem_rx_def Let_def STATS_PORT_def TELEM_PORT_def)
qed

lemma stats_answer: "answers d s (stats_rx h d s)"
proof -
  have ite: "answers d s x \<Longrightarrow> answers d s y \<Longrightarrow> answers d s (if b then x else y)" for x y b by simp
  show ?thesis unfolding stats_rx_def Let_def by (intro ite; rule knobs_answer tables_answer telem_answers)
qed

text \<open>
  C17: however long the main loop has run, whatever keys were pressed, every datagram to the diagnostic port, whatever it asks for
  and however malformed, is answered with exactly one datagram to its sender, which fits.
\<close>

theorem every_stats_request_answered:
  assumes "fw_cold s0" "s = main_run xfer ps (main_boot xfer h0 s0)"
    and "net_arp_lookup (dg_src d) (fw_net s) = (Some dmac, fw_net s)"
  shows "\<exists>F p. wire (fw_net (stats_rx h d s)) = wire (fw_net s) @ [F] \<and> 4 \<le> length p \<and> length p \<le> 1400 \<and> carries (dg_sport d) F p"
proof -
  have "fw_ok False False (bound_table server_ports) s" unfolding assms(2) by (rule boot_run_ok [OF assms(1)]) simp_all
  then have wf: "tx_wf (fw_net s)" by (rule hw_ok_tx(1) [OF net_inv_hw [OF fw_okD(1)]])
  obtain p s' where p: "stats_rx h d s = stats_reply d p s'" "fw_net s' = fw_net s" "4 \<le> length p" "length p \<le> 1400"
    using stats_answer [of d s h] unfolding answers_def by blast
  from payload_commit_ok [OF wf p(4) assms(3), of "dg_sport d" STATS_PORT 0] obtain nt pad where
    "net_udp_commit (dg_src d) (dg_sport d) STATS_PORT (length p) 0 (payload_put 0 p (fw_net s)) = (0, nt)"
    "wire nt = wire (fw_net s) @ [udp_frame dmac (dg_src d) (dg_sport d) STATS_PORT 0 p (fw_net s) @ pad]" by blast
  then have "wire (fw_net (stats_rx h d s)) = wire (fw_net s) @ [udp_frame dmac (dg_src d) (dg_sport d) STATS_PORT 0 p (fw_net s) @ pad]"
    by (simp add: p(1,2) stats_reply_def)
  with p(3,4) udp_frame_carries [OF p(4)] show ?thesis by blast
qed

theorem every_stats_request_answered_witness:
  "\<exists>F p. wire (fw_net (stats_rx demo_hw (arc_request 0 []) demo_boot)) = wire (fw_net demo_boot) @ [F] \<and> 4 \<le> length p \<and> carries 5001 F p"
proof -
  have "demo_boot = main_run zero_spi [] (main_boot zero_spi demo_hw demo_fw)" by (simp add: demo_boot_def main_run_def)
  moreover have "dg_sport (arc_request 0 []) = 5001" by (rule arc_request_fields)
  ultimately show ?thesis
    using every_stats_request_answered [OF demo_fw_cold _ arc_request_known, of demo_boot zero_spi "[]" demo_hw demo_hw 0 "[]"] by auto
qed

end
