(* ===== verification/Mainloop_Console.thy ===== *)
theory Mainloop_Console
  imports Mainloop_Claims
begin

text \<open>
  What the console keys excluded from the invariant of the main loop do to it: unbinding the retired
  media clock writes the sample clock register behind the back of the clock that owns it, and
  restarting the talker sends bound unicast flows to the multicast groups. And a defect of the
  network stack and the ARC server together: an echo that runs past its transmit slot.
\<close>

section \<open>Unbinding the retired clock\<close>

text \<open>A disciplined clock that has converged, whatever its register holds.\<close>

definition converged :: "mclk \<Rightarrow> bool" where
  "converged m \<longleftrightarrow> mc_enabled m \<and> \<not> phase_enabled m \<and> \<bar>applied_ppb m\<bar> \<le> MAX_PPB \<and>
     applied_inc m = inc_for_ppb (base_inc m) (applied_ppb m) \<and> last_written_inc m = applied_inc m"

lemma converged_poll:
  assumes c: "converged s" and st: "steady (applied_ppb s) (last_underrun s) v"
    and poll: "mcr_dante_poll xfer v (s, g, d) = (s', g', d')"
  shows "converged s' \<and> nco_inc s' = nco_inc s \<and> applied_inc s' = applied_inc s \<and> applied_ppb s' = applied_ppb s \<and>
    last_underrun s' = last_underrun s"
proof (cases "vw_now v - last_update_ms s < UPDATE_MS")
  case True
  then show ?thesis using c poll by (simp add: mcr_dante_poll_def)
next
  case False
  let ?m = "mc_measure v s" and ?t = "mc_target v (mc_measure v s)"
  have v: "vw_locked v" "vm_rate_ppb v = applied_ppb s" "vm_underrun v = last_underrun s" using st by (simp_all add: steady_def)
  have no: "\<not> trip_streak ?m \<ge> TRIP_STREAK_S" using steady_measure [OF v(3)] by (simp add: TRIP_STREAK_S_def)
  have f: "clock_part ?t = clock_part s" using target_frame(1) [of v ?m] measure_frame(1) [of v s] by simp
  then have e: "mc_enabled ?t = mc_enabled s" "base_inc ?t = base_inc s" "nco_inc ?t = nco_inc s" "applied_inc ?t = applied_inc s"
    "last_written_inc ?t = last_written_inc s" "applied_ppb ?t = applied_ppb s" by (simp_all add: clock_part_def)
  have off: "\<not> phase_enabled (mc_setpoint v ?m)"
    using c measure_frame(4) [of v s] by (simp add: mc_setpoint_def Let_def converged_def)
  have "clamp_sym MAX_PPB (applied_ppb s) = applied_ppb s" by (rule clamp_sym_id) (use c in \<open>auto simp: converged_def\<close>)
  then have "target_ppb ?t = applied_ppb s" using off v(2) by (simp add: mc_target_def mc_phase_def)
  moreover have "\<not> phase_enabled ?t" "last_underrun ?t = last_underrun s"
    using c v(3) by (simp_all add: target_frame measure_frame converged_def)
  ultimately have t: "target_ppb ?t = applied_ppb s" "\<not> phase_enabled ?t" "last_underrun ?t = last_underrun s" by blast+
  have "mc_slew ?t = ?t"
    using c t(1) by (simp add: mc_slew_def Let_def e converged_def clamp_sym_id SLEW_PPB_def)
  then have "mc_persist xfer (vw_now v) (?t, g, d) = (s', g', d')"
    using poll False no v(1) c by (simp add: mcr_dante_poll_def Let_def e converged_def)
  then have "s' = ?t \<or> s' = ?t\<lparr>last_nv_ms := vw_now v\<rparr>"
    using persist_fst [of xfer "vw_now v" ?t g d] by auto
  then show ?thesis using c e t by (auto simp: converged_def)
qed

lemma converged_run:
  "converged s \<Longrightarrow> \<forall>v \<in> set vs. steady (applied_ppb s) (last_underrun s) v \<Longrightarrow> mc_run xfer vs (s, g, d) = (s', g', d') \<Longrightarrow>
    nco_inc s' = nco_inc s \<and> applied_inc s' = applied_inc s"
proof (induction vs arbitrary: s g d)
  case (Cons v vs)
  obtain t h e where p: "mcr_dante_poll xfer v (s, g, d) = (t, h, e)" by (metis prod_cases3)
  have "steady (applied_ppb s) (last_underrun s) v" using Cons.prems(2) by simp
  note q = converged_poll [OF Cons.prems(1) this p]
  with Cons.IH [of t h e] Cons.prems p show ?case by (simp add: mc_run_def)
qed (simp add: mc_run_def)

lemma unbound_clock: "fw_mclk (check_uart_cmd xfer h (Some 0x4E) s) = (fw_mclk s)\<lparr>nco_inc := gptp_locked_base (fw_mcr s)\<rparr>"
  by (simp add: check_uart_cmd_def clear_binding_def split_beta mcr_out_def mcr_in_def mcr_unbind_def inc_write_def Let_def)

text \<open>
  C20: the key that clears a stale binding takes the sample clock off the rate the device follows.
  It writes the nominal increment into the register the media clock owns; that clock only writes
  when its rate changes, so for as long as the rate is steady the register stays at nominal while
  the clock reports the increment it applied before.
\<close>

theorem unbind_detunes_the_clock:
  assumes "mc_inv (fw_mclk s)" "mc_enabled (fw_mclk s)" "\<not> phase_enabled (fw_mclk s)"
    and "applied_inc (fw_mclk s) \<noteq> gptp_locked_base (fw_mcr s)"
    and "\<forall>v \<in> set vs. steady (applied_ppb (fw_mclk s)) (last_underrun (fw_mclk s)) v"
    and "mc_run xfer vs (fw_mclk (check_uart_cmd xfer h (Some 0x4E) s), g, d) = (m, g', d')"
  shows "nco_inc m = gptp_locked_base (fw_mcr s) \<and> applied_inc m = applied_inc (fw_mclk s) \<and> nco_inc m \<noteq> applied_inc m"
proof -
  let ?m = "(fw_mclk s)\<lparr>nco_inc := gptp_locked_base (fw_mcr s)\<rparr>"
  have "converged ?m" using assms(1-3) by (simp add: converged_def mc_inv_def)
  from converged_run [OF this _ assms(6) [unfolded unbound_clock]] assms(4,5) show ?thesis by simp
qed

text \<open>A clock that runs five parts per million fast.\<close>

definition fast_fw :: "unit fw" where
  "fast_fw = demo_fw\<lparr>fw_mclk := mcr_dante_init 50000000 48000 0 0 (cfg_defaults\<lparr>cf_mclk_ppb_valid := 1, cf_mclk_ppb := 5000\<rparr>) mclk0,
     fw_mcr := mcr0\<lparr>gptp_locked_base := nominal_inc 50000000 48000\<rparr>\<rparr>"

lemma fast_fields:
  "mc_inv (fw_mclk fast_fw)" "mc_enabled (fw_mclk fast_fw)" "\<not> phase_enabled (fw_mclk fast_fw)" "applied_inc (fw_mclk fast_fw) = 4123189"
  "gptp_locked_base (fw_mcr fast_fw) = 4123169" "applied_ppb (fw_mclk fast_fw) = 5000" "last_underrun (fw_mclk fast_fw) = 0"
proof -
  show "mc_inv (fw_mclk fast_fw)" by (simp add: fast_fw_def, rule mc_inv_init) (simp_all add: demo_inc mclk0_def)
qed (simp_all add: fast_fw_def mcr_dante_init_def Let_def MAX_PPB_def demo_inc mcr_increment_write_def mclk0_def inc_for_ppb_def signed_divide_int_def)

theorem unbind_detunes_the_clock_witness:
  "\<exists>m g' d'. mc_run zero_spi [demo_mview True 5000 0 1, demo_mview True 5000 0 2]
      (fw_mclk (check_uart_cmd zero_spi demo_hw (Some 0x4E) fast_fw), cfg_defaults, ()) = (m, g', d') \<and> nco_inc m = 4123169 \<and> applied_inc m = 4123189"
proof -
  let ?vs = "[demo_mview True 5000 0 1, demo_mview True 5000 0 2]"
  obtain m g' d' where r: "mc_run zero_spi ?vs (fw_mclk (check_uart_cmd zero_spi demo_hw (Some 0x4E) fast_fw), cfg_defaults, ()) = (m, g', d')"
    by (metis prod_cases3)
  have "\<forall>v \<in> set ?vs. steady (applied_ppb (fw_mclk fast_fw)) (last_underrun (fw_mclk fast_fw)) v" by (simp add: fast_fields demo_steady)
  from unbind_detunes_the_clock [OF fast_fields(1-3) _ this r] r show ?thesis by (simp add: fast_fields)
qed

section \<open>Restarting the talker\<close>

lemma bind_flows_dst:
  "n \<le> N_FLOWS \<Longrightarrow> length (ctxs s) = N_FLOWS \<Longrightarrow> j < n \<Longrightarrow>
    cx_dst_ip (ctxs (foldl (\<lambda>s f. bind_flow our f s) s [0..<n]) ! j) = ip_word (flow_ip s ! j)"
proof (induction n)
  case (Suc n)
  then show ?case using bind_flows_ctxs(2,4) [of our s "[0..<n]"]
    by (cases "j = n") (auto simp: bind_flow_def Let_def)
qed simp

lemma init_dst:
  assumes "length (ctxs s) = N_FLOWS" "f < N_FLOWS"
  shows "cx_dst_ip (ctxs (dante_tx_init our (m0, m1, m2, m3, m4, m5) s) ! f) = ip_word (239, 255, m4, m5 + of_nat f)"
    "flows (dante_tx_init our mac s) = flows s" "length (ctxs (dante_tx_init our mac s)) = length (ctxs s)"
proof -
  show "cx_dst_ip (ctxs (dante_tx_init our (m0, m1, m2, m3, m4, m5) s) ! f) = ip_word (239, 255, m4, m5 + of_nat f)"
    using assms by (simp add: dante_tx_init_def Let_def bind_flows_dst)
  show "flows (dante_tx_init our mac s) = flows s" "length (ctxs (dante_tx_init our mac s)) = length (ctxs s)"
    by (cases mac; simp add: dante_tx_init_def Let_def bind_flows_ctxs)+
qed

lemma anchor_dst: "length (ctxs s) = N_FLOWS \<Longrightarrow> f < N_FLOWS \<Longrightarrow> cx_dst_ip (ctxs (ts_anchor v s) ! f) = cx_dst_ip (ctxs s ! f)"
  by (simp add: ts_anchor_ctxs reseed_ctx)

lemma poll_dst:
  assumes "length (ctxs s) = N_FLOWS" "f < N_FLOWS"
  shows "cx_dst_ip (ctxs (dante_tx_poll v s) ! f) = cx_dst_ip (ctxs s ! f) \<and> length (ctxs (dante_tx_poll v s)) = N_FLOWS"
proof -
  define P where "P t \<longleftrightarrow> length (ctxs t) = N_FLOWS \<and> cx_dst_ip (ctxs t ! f) = cx_dst_ip (ctxs s ! f)" for t :: tx
  have a: "P (ts_anchor w t)" if "P t" for w t using that anchor_dst [OF _ assms(2)] by (simp add: P_def)
  have st: "P (poll_steps v t)" if "P t" for t
    using that by (auto simp: poll_steps_def Let_def P_def anchor_dst [OF _ assms(2)] split: option.splits)
  have ph: "P (poll_phase v b t)" if "P t" for b t
    using that by (auto simp: poll_phase_def Let_def P_def anchor_dst [OF _ assms(2)])
  have ga: "P (poll_gate v b t)" if "P t" for b t
    using that by (auto simp: poll_gate_def Let_def P_def log_event_def anchor_dst [OF _ assms(2)])
  have "P (poll_lock v (poll_announce s))" using assms by (simp add: P_def)
  note u = st [OF this]
  then have "P (poll_servo v (poll_steps v (poll_lock v (poll_announce s))))" by (simp add: P_def)
  then have "P (dante_tx_poll v s)" unfolding dante_tx_poll_def Let_def by (intro ga ph)
  then show ?thesis by (simp add: P_def)
qed

lemma poll_flows: "flows (dante_tx_poll v s) = flows s"
  by (simp add: dante_tx_poll_def Let_def)

lemma polls_dst:
  "length (ctxs s) = N_FLOWS \<Longrightarrow> f < N_FLOWS \<Longrightarrow> cx_dst_ip (ctxs (foldl (\<lambda>s v. dante_tx_poll v s) s vs) ! f) = cx_dst_ip (ctxs s ! f)"
  "flows (foldl (\<lambda>s v. dante_tx_poll v s) s vs) = flows s"
  by (induction vs arbitrary: s) (simp_all add: poll_dst poll_flows)

text \<open>
  C21: the key that restarts the talker sends a bound flow elsewhere. The table keeps the flow with the
  receiver's address, its packetizer context is set to the multicast group of the slot, and no poll
  sets it back: until the receiver asks again its audio goes to a group it has not joined.
\<close>

theorem restart_diverts_flows:
  assumes "table_wf (fw_tx s)" "f < N_FLOWS" "in_use (flows (fw_tx s) ! f)" "dd_mac (fw_dev s) = (m0, m1, m2, m3, m4, m5)"
    and "u = foldl (\<lambda>t v. dante_tx_poll v t) (fw_tx (check_uart_cmd xfer h (Some 0x74) s)) vs"
    and "ip_word (fl_dst (flows (fw_tx s) ! f)) \<noteq> ip_word (239, 255, m4, m5 + of_nat f)"
  shows "in_use (flows u ! f) \<and> fl_dst (flows u ! f) = fl_dst (flows (fw_tx s) ! f) \<and>
    cx_dst_ip (ctxs u ! f) = ip_word (239, 255, m4, m5 + of_nat f) \<and> \<not> slot_mirrored (flows u ! f) (ctxs u ! f)"
proof -
  have "fw_tx (check_uart_cmd xfer h (Some 0x74) s) \<in> range (\<lambda>ip. dante_tx_init ip (dd_mac (fw_dev s)) (fw_tx s))"
    using gw_fields(2) [of s] by (simp add: check_uart_cmd_def)
  then obtain ip where i: "fw_tx (check_uart_cmd xfer h (Some 0x74) s) = dante_tx_init ip (m0, m1, m2, m3, m4, m5) (fw_tx s)"
    using assms(4) by auto
  have l: "length (ctxs (fw_tx s)) = N_FLOWS" using assms(1) by (simp add: table_wf_def)
  have d: "cx_dst_ip (ctxs u ! f) = ip_word (239, 255, m4, m5 + of_nat f)"
    unfolding assms(5) i using l assms(2) by (simp add: polls_dst init_dst)
  have fl: "flows u = flows (fw_tx s)" unfolding assms(5) i by (simp add: polls_dst init_dst(2) [OF l assms(2)])
  show ?thesis using d assms(3,6) by (simp add: fl slot_mirrored_def)
qed

definition bound_fw :: "unit fw" where
  "bound_fw = demo_fw\<lparr>fw_tx := boot_tx\<lparr>flows := (flows boot_tx)[2 := demo_slot\<lparr>in_use := True, fl_dst := (192, 168, 1, 20)\<rparr>]\<rparr>\<rparr>"

theorem restart_diverts_flows_witness:
  "\<exists>u. u = foldl (\<lambda>t v. dante_tx_poll v t) (fw_tx (check_uart_cmd zero_spi demo_hw (Some 0x74) bound_fw)) [demo_view, demo_view] \<and>
    fl_dst (flows u ! 2) = (192, 168, 1, 20) \<and> cx_dst_ip (ctxs u ! 2) = ip_word (239, 255, 2, 5)"
proof -
  have w: "table_wf (fw_tx bound_fw)" "2 < N_FLOWS" using boot_tx_ok by (simp_all add: bound_fw_def table_wf_def N_FLOWS_def)
  have f: "in_use (flows (fw_tx bound_fw) ! 2)" "fl_dst (flows (fw_tx bound_fw) ! 2) = (192, 168, 1, 20)"
    "dd_mac (fw_dev bound_fw) = (0, 0x1D, 0xC1, 1, 2, 3)"
    by (simp_all add: bound_fw_def boot_tx_def demo_fw_def demo_dev_def dante_dev_init_def Let_def)
  have n: "ip_word (fl_dst (flows (fw_tx bound_fw) ! 2)) \<noteq> ip_word (239, 255, 2, 3 + of_nat 2)" unfolding f(2) by simp
  from restart_diverts_flows [OF w f(1,3) refl n, of zero_spi demo_hw "[demo_view, demo_view]"] show ?thesis by (simp add: f(2))
qed

section \<open>An echo past the end of its slot\<close>

lemma put_past: "off \<le> length buf \<Longrightarrow> length buf \<le> off + length bs \<Longrightarrow> length (put off bs buf) = off + length bs"
  by (simp add: put_def)

lemmas arc_op_defs = OP_CHANNELS_AND_FLOWS_COUNT_def OP_GET_DEVICE_NAME_def OP_GET_DEVICE_NAMES_def OP_UNKNOWN_1100_def
  OP_UNKNOWN_1102_def OP_GET_TX_CHANNELS_def OP_GET_TX_FRIENDLY_NAMES_def OP_QUERY_TX_FLOWS_def OP_UNKNOWN_2320_def
  OP_GET_RX_CHANNELS_def OP_QUERY_RX_FLOWS_def OP_UNKNOWN_3300_def

lemma latency_echo:
  assumes "30 \<le> clen" "rd32 c 22 = rd32 c 26" "100000 \<le> rd32 c 22" "rd32 c 22 \<le> 40000000"
  shows "\<exists>s'. arc_set_latency now c clen s m = (DANTE_CODE_OK, dante_msg_bytes (bytes_at c 0 clen) m, s')"
proof -
  have "\<not> rd32 c 22 < 100000" "\<not> rd32 c 22 > 40000000" using assms(3,4) by (simp_all add: not_less)
  then show ?thesis using assms(1,2) by (simp add: arc_set_latency_def Let_def)
qed

lemma echo_length:
  assumes "length buf < len" "1400 \<le> length buf"
    and "m = snd (dante_msg_finish code (dante_msg_bytes (bytes_at c 0 (len - 10)) (dante_msg_begin buf req)))"
  shows "length (m_buf m) = len"
proof -
  let ?b = "dante_msg_begin buf req" and ?p = "bytes_at c 0 (len - 10)"
  have b: "length (m_buf ?b) = length buf" "m_len ?b = 10"
    using assms(2) by (simp_all add: dante_msg_begin_def DANTE_HDR_LEN_def)
  have p: "length ?p = len - 10" by (simp add: bytes_at_def)
  have "length (put 10 ?p (m_buf ?b)) = 10 + length ?p" by (rule put_past) (use assms(1,2) b p in simp_all)
  then have "length (m_buf (dante_msg_bytes ?p ?b)) = len" using assms(1,2) b p by (simp add: dante_msg_bytes_def)
  then show ?thesis
    using assms(1,2) unfolding assms(3) dante_msg_finish_def Let_def snd_conv dante_msg_patch_u16_def by simp
qed

lemma echo_overruns:
  assumes "tx_wf nt" "length (tx_buf nt) < 42 + length (dg_payload d)" "g_arc_mirror_ip a = (0, 0, 0, 0)" "1400 < length (dg_payload d)"
    and "req = ptr_of (dg_payload d)" "rd16 req 6 = 0x1101" "rd16 req 8 = 0" "rd32 req 32 = rd32 req 36"
    and "100000 \<le> rd32 req 32" "rd32 req 32 \<le> 40000000" "arc_rx rd now g d a s nt = (a', s', nt')"
  shows "length (tx_slots nt' ! txslot nt) = 42 + length (dg_payload d) \<and> wire nt' = wire nt"
proof -
  let ?len = "length (dg_payload d)" and ?c = "\<lambda>i. req (DANTE_HDR_LEN + i)"
  let ?m = "dante_msg_begin (drop 42 (tx_buf nt)) req"
  have c: "rd32 ?c 22 = rd32 req 32" "rd32 ?c 26 = rd32 req 36" by (simp_all add: rd32_def DANTE_HDR_LEN_def)
  have k: "30 \<le> ?len - DANTE_HDR_LEN" and h: "\<not> ?len < DANTE_HDR_LEN" using assms(4) by (simp_all add: DANTE_HDR_LEN_def)
  obtain s1 where l: "arc_set_latency now ?c (?len - DANTE_HDR_LEN) s ?m =
      (DANTE_CODE_OK, dante_msg_bytes (bytes_at ?c 0 (?len - DANTE_HDR_LEN)) ?m, s1)"
    using latency_echo [of "?len - DANTE_HDR_LEN" ?c now s ?m] assms(8-10) k unfolding c by blast
  have r: "arc_dispatch rd now g (g_net_ip nt) req ?len (a\<lparr>ar_rx := ar_rx a + 1\<rparr>) s ?m =
      (DANTE_CODE_OK, dante_msg_bytes (bytes_at ?c 0 (?len - DANTE_HDR_LEN)) ?m, a\<lparr>ar_rx := ar_rx a + 1\<rparr>, s1)"
    unfolding arc_dispatch_def Let_def dante_req_rd16 assms(6) l by (simp add: arc_op_defs)
  obtain total m where f: "dante_msg_finish DANTE_CODE_OK (dante_msg_bytes (bytes_at ?c 0 (?len - DANTE_HDR_LEN)) ?m) = (total, m)" by fastforce
  have total: "total = ?len" using f assms(4) by (auto simp: dante_msg_finish_def Let_def dante_msg_patch_u16_def dante_msg_begin_def DANTE_HDR_LEN_def bytes_at_def)
  have m: "length (m_buf m) = ?len"
    by (rule echo_length [of "drop 42 (tx_buf nt)" _ _ DANTE_CODE_OK ?c req]) (use assms(2,4) f tx_buf_len [OF assms(1)] in \<open>simp_all add: DANTE_HDR_LEN_def\<close>)
  let ?nt = "msg_slot (txslot nt) m nt"
  have cm: "net_udp_commit (dg_src d) (dg_sport d) DANTE_PORT_ARC total 0 ?nt = (-1, bump tx_dropped_update ?nt)"
    using assms(4) by (simp add: net_udp_commit_def total NET_MAX_PAYLOAD_def)
  have "nt' = bump tx_dropped_update ?nt"
    using assms(11,7) h unfolding arc_rx_def Let_def assms(5) [symmetric]
    by (auto simp: r f cm arc_mirror_def assms(3) dante_req_rd16)
  moreover have "txslot nt < length (tx_slots nt)" "42 \<le> length (tx_slots nt ! txslot nt)"
    using slot_length [OF assms(1)] by auto
  ultimately show ?thesis by (simp add: msg_slot_def m)
qed

lemma rx_slots: "net_rx_frame f n s = (r, Some d, t) \<Longrightarrow> tx_slots t = tx_slots s \<and> txslot t = txslot s \<and> wire t = wire s"
proof -
  have a: "tx_slots (arp_learn ip m x) = tx_slots x \<and> txslot (arp_learn ip m x) = txslot x \<and> wire (arp_learn ip m x) = wire x" for ip m x
    by (auto simp: arp_learn_def split: option.splits)
  have d: "tx_slots u = tx_slots x \<and> txslot u = txslot x \<and> wire u = wire x" if "ip_deliver f off plen x = (Some d, u)" for off plen x u
    using that by (auto simp: ip_deliver_def Let_def split: if_splits option.splits)
  show "net_rx_frame f n s = (r, Some d, t) \<Longrightarrow> ?thesis"
    by (auto simp: net_rx_frame_def Let_def a split: if_splits prod.splits dest!: d)
qed

lemma ptr_bytes_at: "i < n \<Longrightarrow> ptr_of (bytes_at f k n) i = f (k + i)"
  by (simp add: ptr_of_def bytes_at_def)

text \<open>
  C18: a frame for the ARC port whose IPv4 total length is shorter than the header, and whose content
  is a well-formed latency request, makes the server write past the end of a transmit slot. The
  stack hands the handler as many bytes as the UDP length claims, the handler echoes them
  into the slot behind the headers, up to 65 KB of them whatever the size of the slot, and only the send that follows
  refuses the length: no answer goes out.
\<close>

theorem short_frame_overruns_slot:
  assumes "60 \<le> n" "rd16 f 12 = 0x0800" "f 14 = 0x45" "unat (rd16 f 16) < 20" "f 23 = 17" "ip_for_us (ip_at f 30) s"
    and "udp_get s (rd16 f 36) = Some Arc_Rx" "\<forall>b \<in> set (tx_slots s). length b = sz" "sz < 34 + unat (rd16 f 38)"
    and "rd16 f 48 = 0x1101" "rd16 f 50 = 0"
    and "rd32 f 74 = rd32 f 78" "100000 \<le> rd32 f 74" "rd32 f 74 \<le> 40000000"
    and "net_inv s" "g_arc_mirror_ip a = (0, 0, 0, 0)"
  shows "\<exists>d t a' x' nt'. net_rx_frame f n s = (1, Some d, t) \<and> dg_fn d = Arc_Rx \<and> arc_rx rd now g d a x t = (a', x', nt') \<and>
    length (tx_slots nt' ! txslot t) = 34 + unat (rd16 f 38) \<and> wire nt' = wire s"
proof -
  have len: "1442 \<le> sz" using assms(8,15) net_inv_hw [of s] by (auto simp: hw_ok_def tx_wf_def dest!: nth_mem)
  have u: "8 \<le> unat (rd16 f 38)" using assms(9) len by simp
  obtain d t where d: "net_rx_frame f n s = (1, Some d, t)" "dg_fn d = Arc_Rx" "dg_payload d = bytes_at f 42 (unat (rd16 f 38) - 8)"
    using short_total_overread [OF assms(1-6) u assms(7)] by blast
  note sl = rx_slots [OF d(1)]
  have "net_inv t" using net_rx_frame_net_inv [OF assms(15), of f n] by (simp add: d(1))
  then have wf: "tx_wf t" by (rule hw_ok_tx(1) [OF net_inv_hw])
  have l: "length (dg_payload d) = unat (rd16 f 38) - 8" by (simp add: d(3) bytes_at_def)
  have l2: "1400 < length (dg_payload d)" unfolding l using assms(9) len by simp
  have "length (tx_buf t) = sz" using assms(8) wf sl by (simp add: tx_buf_def tx_wf_def)
  then have buf: "length (tx_buf t) < 42 + length (dg_payload d)" unfolding l using assms(9) u by simp
  let ?q = "ptr_of (dg_payload d)"
  have p: "?q i = f (42 + i)" if "i < 100" for i using that assms(9) len unfolding d(3) by (intro ptr_bytes_at) simp
  have q: "rd16 ?q 6 = 0x1101" "rd16 ?q 8 = 0" "rd32 ?q 32 = rd32 f 74" "rd32 ?q 36 = rd32 f 78"
    using assms(10,11) by (simp_all add: rd16_def rd32_def p)
  obtain a' x' nt' where r: "arc_rx rd now g d a x t = (a', x', nt')" by (metis prod_cases3)
  have "rd32 ?q 32 = rd32 ?q 36" "100000 \<le> rd32 ?q 32" "rd32 ?q 32 \<le> 40000000" unfolding q(3,4) by (fact assms(12-14))+
  note e = echo_overruns [OF wf buf assms(16) l2 refl q(1,2) this r]
  have "length (tx_slots nt' ! txslot t) = 34 + unat (rd16 f 38)" "wire nt' = wire s" using e u sl by (simp_all add: l)
  with d(1,2) r show ?thesis by blast
qed

text \<open>A frame of 96 bytes that asks for 65,527.\<close>

definition long_echo :: "u8 list" where
  "long_echo = [255, 255, 255, 255, 255, 255, 0, 1, 2, 3, 4, 5] @ be16 0x0800 @ [0x45, 0] @ be16 0 @
     [0, 0, 0, 0, 1, 17, 0, 0, 10, 0, 0, 1, 255, 255, 255, 255] @ be16 5001 @ be16 4440 @ be16 65535 @ be16 0 @
     [0x28, 0x09, 0, 0, 0, 1] @ be16 0x1101 @ be16 0 @
     [0, 0, 0, 0, 0, 0, 0, 0, 0, 0, 0, 0, 0, 0, 0, 0, 0, 0, 0, 0, 0, 0] @ be32 1000000 @ be32 1000000 @ replicate 14 0"

definition arc_net :: net where
  "arc_net = snd (net_udp_bind DANTE_PORT_ARC (Some Arc_Rx) demo_net)"

lemma arc_net_ok: "net_inv arc_net" "udp_get arc_net 4440 = Some Arc_Rx" "\<forall>b \<in> set (tx_slots arc_net). length b = 2048"
proof -
  have "booting [] demo_net" using net_boot_inv [of "(0, 0x1D, 0xC1, 1, 2, 3)"]
    by (simp add: booting_def demo_net_def bound_table_def) (simp add: net_boot_def net_init_def)
  from booting_bind [OF this, of DANTE_PORT_ARC Arc_Rx] have b: "booting [(DANTE_PORT_ARC, Arc_Rx)] arc_net"
    by (simp add: arc_net_def port_defs UDP_BINDINGS_def)
  then show "net_inv arc_net" "udp_get arc_net 4440 = Some Arc_Rx"
    by (simp_all add: booting_def udp_get_def lookup_bound port_defs)
  have "tx_slots (snd (net_udp_bind p fn s)) = tx_slots s" for p fn s by (auto simp: net_udp_bind_def split: option.splits)
  then show "\<forall>b \<in> set (tx_slots arc_net). length b = 2048"
    by (simp add: arc_net_def demo_net_def net_boot_def net_init_def)
qed

theorem short_frame_overruns_slot_witness:
  "\<exists>d t a' x' nt'. net_rx_frame (ptr_of long_echo) (length long_echo) arc_net = (1, Some d, t) \<and>
    arc_rx (\<lambda>_. 0) 5 demo_dev d arc0 boot_tx t = (a', x', nt') \<and> length (tx_slots nt' ! txslot t) = 65569"
proof -
  let ?p = "ptr_of long_echo"
  have *: "rd16 ?p 12 = 0x0800" "?p 14 = 0x45" "unat (rd16 ?p 16) < 20" "?p 23 = 17" "ip_at ?p 30 = (255, 255, 255, 255)" "rd16 ?p 36 = 4440"
    "rd16 ?p 38 = 65535" "rd16 ?p 48 = 0x1101" "rd16 ?p 50 = 0" "rd32 ?p 74 = 1000000" "rd32 ?p 78 = 1000000" "length long_echo = 96"
    by (simp_all add: long_echo_def rd16_def rd32_def ptr_of_def ip_at_def be16_def be32_def)
  have "g_arc_mirror_ip arc0 = (0, 0, 0, 0)" by (simp add: arc0_def)
  moreover have "ip_for_us (ip_at ?p 30) arc_net" unfolding *(5) ip_for_us_def by simp
  moreover have "udp_get arc_net (rd16 ?p 36) = Some Arc_Rx" unfolding *(6) by (rule arc_net_ok)
  ultimately have "\<exists>d t a' x' nt'. net_rx_frame ?p 96 arc_net = (1, Some d, t) \<and> dg_fn d = Arc_Rx \<and>
      arc_rx (\<lambda>_. 0) 5 demo_dev d arc0 boot_tx t = (a', x', nt') \<and>
      length (tx_slots nt' ! txslot t) = 34 + unat (rd16 ?p 38) \<and> wire nt' = wire arc_net"
    by (intro short_frame_overruns_slot [where sz = 2048] *(1-4,8,9) arc_net_ok) (simp_all add: *)
  then show ?thesis unfolding *(7,12) by auto
qed

end
