(* ===== verification/Spec2Isabelle.thy ===== *)
theory Spec2Isabelle
  imports Net_Claims Net_Text Cap_Serve Loader Config Dante_Dev Dante_Msg Rx_Gate Telem Dante_Tx_Clock
    Dante_Flows Mcr_Dante Ptpv1_Claims Mdns_Browsing Dante_Arc_Flows Mainloop_Console
begin

text \<open>
  A verification development of the firmware of an FPGA audio interface that appears on the
  network as a Dante transmitter. The sources are under \<^theory_text>\<open>src/firmware\<close>; file names
  below are relative to it.

  \<^bold>\<open>The program.\<close> A soft CPU runs one loop, without interrupts. A boot loader
  (\<^theory_text>\<open>loader/loader.c\<close>) takes an image from the network or from flash and jumps to it.
  The firmware drives an Ethernet MAC with a small IP stack (\<^theory_text>\<open>net.c\<close>) that hands UDP
  datagrams to bound handlers and copies control traffic into a ring (\<^theory_text>\<open>cap.c\<close>); it
  answers mDNS queries (\<^theory_text>\<open>mdns.c\<close>), the channel and flow lists a controller asks for
  (ARC, \<^theory_text>\<open>dante_arc.c\<close>), the CMC (\<^theory_text>\<open>dante_cmc.c\<close>) and flow control (\<^theory_text>\<open>dante_flows.c\<close>) protocols with
  messages built by \<^theory_text>\<open>dante_msg.c\<close>; it announces itself and its clock to controllers
  (\<^theory_text>\<open>dante_info.c\<close>) and answers a diagnostic port with counters and knobs
  (\<^theory_text>\<open>dstats.c\<close>); it is a PTPv1 slave (\<^theory_text>\<open>ptpv1.c\<close>) that steers the
  time-stamp unit (\<^theory_text>\<open>gptp.c\<close>); it follows the PTP rate with the audio sample clock
  (\<^theory_text>\<open>mcr_dante.c\<close>); it keeps the table of audio flows and the packetizer of the FPGA in
  step (\<^theory_text>\<open>dante_tx.c\<close>); it keeps a configuration in SPI flash (\<^theory_text>\<open>config.c\<close>,
  \<^theory_text>\<open>cfgflash.c\<close>), a ring of telemetry (\<^theory_text>\<open>telem.c\<close>) and a hardware receive filter
  (\<^theory_text>\<open>rx_gate.c\<close>). \<^theory_text>\<open>main.c\<close> starts all of it, takes the frames from the MAC and hands
  them on, polls every part in turn and obeys a serial console. Two parts of an earlier AVB
  device are still linked: an 802.1AS slave (\<^theory_text>\<open>gptp.c\<close>) that is started and never polled,
  and a media clock (\<^theory_text>\<open>mcr.c\<close>) that does nothing unless the console unbinds it.

  \<^bold>\<open>Theories and files.\<close>
  Prelude: machine integers, byte buffers, big-endian fields, C conversions, and the interfaces.
  Checksum, Net, Net_Frame, Net_Tables, Net_Inv, Net_Rx, Net_Claims, Net_Text: \<^theory_text>\<open>net.c\<close>
  (record \<open>net\<close>; one definition per function; the frames put on the wire; the three tables;
  the invariant; reception; the properties; the text form of addresses).
  Cap, Cap_Serve: \<^theory_text>\<open>cap.c\<close> (filter and ring; the reply to a host).
  Crc32, Loader: \<^theory_text>\<open>loader/loader.c\<close>. Cfgflash: \<^theory_text>\<open>cfgflash.c\<close>.
  Config: \<^theory_text>\<open>config.c\<close>. Dante_Msg: \<^theory_text>\<open>dante_msg.c\<close>.
  Dante_Dev: \<^theory_text>\<open>dante_dev.c\<close> and \<^theory_text>\<open>dante_cmc.c\<close>. Rx_Gate: \<^theory_text>\<open>rx_gate.c\<close>.
  Telem: \<^theory_text>\<open>telem.c\<close>. Dante_Tx, Dante_Tx_Clock: \<^theory_text>\<open>dante_tx.c\<close> (flow table and
  contexts; clock anchor, phase guard, poll). Dante_Flows: \<^theory_text>\<open>dante_flows.c\<close>.
  Tsu: the time-stamp unit part of \<^theory_text>\<open>gptp.c\<close>. Ptpv1, Ptpv1_Servo, Ptpv1_Claims:
  \<^theory_text>\<open>ptpv1.c\<close> (the code; its invariant; its properties). Mcr_Dante: \<^theory_text>\<open>mcr_dante.c\<close>.
  Mdns, Mdns_Names, Mdns_Claims, Mdns_Browse, Mdns_Announce, Mdns_Browsing: \<^theory_text>\<open>mdns.c\<close> (the code; names
  and their compression read back; the answer to a channel query; the channels a browse lists; announcements;
  browsing from start-up on).
  Dante_Info, Dante_Info_Claims: \<^theory_text>\<open>dante_info.c\<close> (the code; its properties).
  Gptp: the 802.1AS slave of \<^theory_text>\<open>gptp.c\<close>. Mcr: \<^theory_text>\<open>mcr.c\<close>.
  Firmware: the state of everything, and what the parts share. Dstats: \<^theory_text>\<open>dstats.c\<close>.
  Mainloop: \<^theory_text>\<open>main.c\<close>. Mainloop_Net, Mainloop_Inv, Mainloop_Boot, Mainloop_Claims, Mainloop_Console:
  the network state under every server; the invariant of the whole firmware and one pass of
  the loop; start-up; the properties of every run; what three unguarded paths do.
  Dante_Arc, Dante_Arc_View, Dante_Arc_Claims, Dante_Arc_Pages, Dante_Arc_Settings, Dante_Arc_Subs,
  Dante_Arc_Flows: \<^theory_text>\<open>dante_arc.c\<close> (the code; how a message under construction grows; every request answered;
  the channel pages; property table and latency; subscriptions; multicast flows).

  \<^bold>\<open>State and operations.\<close> The static variables of a file are the fields of one record
  (\<open>net\<close>, \<open>cap_st\<close>, \<open>tx\<close>, \<open>ptp\<close>, \<open>mclk\<close>, \<open>cfg\<close>, \<open>telem\<close>, \<open>rx_gate\<close>, \<open>ldr\<close>) under the names
  of the source, prefixed where two files use one name. A function of the file is a definition
  of the same name that takes the record and returns it updated; a branch of a long function
  is a definition of its own, composed in the source's order. A function that uses the state
  of another file takes and returns that state too. Bytes are \<open>u8\<close>, a buffer is a list, a
  pointer to received bytes is a function from offsets. Unsigned C integers are words of
  their width; \<open>int32_t\<close> and \<open>int64_t\<close> values are \<open>int\<close> with C's truncating division, and
  are narrowed where the code narrows them; for the servo the bounds proved show that its
  64-bit arithmetic does not overflow. Array indices and lengths are \<open>nat\<close>.

  \<^bold>\<open>Hardware.\<close> What a register read returns is an argument (\<open>tx_view\<close>, \<open>ptp_view\<close>,
  \<open>mclk_view\<close>, or a plain argument), one value for each operation: the clock is read once for
  an operation even where the code reads it twice. What is written is a field of the state or,
  for the time-stamp unit, a list of commands. Frames sent are appended to \<open>wire\<close>. The flash
  is a transfer function \<open>'d spi\<close> that satisfies the laws of the locale \<open>flash_device\<close>, which
  are the documented behaviour of a NOR flash; \<open>nor_xfer\<close> is a device that satisfies them.
  The configuration is a value handed from module to module. What two modules share is one value
  in \<open>fw\<close>, put into the state of each before it runs and taken out after (\<open>tx_in\<close>, \<open>tx_out\<close> and
  their like): the telemetry ring, the increment register of the sample clock, the time-stamp
  unit. The frames the MAC holds and the key pressed are arguments of one pass of the loop.

  \<^bold>\<open>Interfaces.\<close> The locales \<open>machine\<close> (a step function with an invariant; interpreted by
  the network stack and the receive gate), \<open>keyed_table\<close> (a bounded table with eviction;
  by the neighbour cache, the UDP bindings and the flow table), \<open>recent_log\<close> (the last n of
  a sequence in a ring; by the capture ring) and \<open>flash_device\<close>.

  \<^bold>\<open>What the lemmas show.\<close> Network: well-formedness after any event, reads inside the
  frame, the exact frame sent and its delivery, and the over-read a short total length causes.
  Loader: only a checked image is run, an honest host loads its image, the window is open for its
  polls and no longer, the CRC finds bursts. Configuration: save and load round trip, damage gives defaults. Talker:
  contexts mirror the table after any run of requests, deletions and polls; the gate; the
  exact anchor; binding; advertised latency. Flow server: what is granted, how it is answered,
  and the reply lost when the receiver's address is not cached. PTP: bounds over every run,
  the filter is a median, what steers the clock, lock, warm start, the delay exchange, and the
  dead band of a locked servo. Media clock: the register follows the rate, slew and guard
  limits, convergence, warm start. mDNS: a compressed name is read back, a channel asked for
  is answered for, an announcement publishes every channel, and two defects: a browser that
  asks only for the channels never sees a third of them, and the first of two questions is
  forgotten. ARC: every request is answered, a page of channels and a subscription are read back from the bytes sent, a
  latency takes effect and shows in the property table, a multicast flow is created and
  deleted by its handle, and the listed number of a unicast flow can be such a handle.
  Info server: the heartbeat is read back, a query of the clock state is answered, the device is announced every three seconds. Telemetry and capture:
  the rings hold the latest records. The firmware as a whole: the invariants of
  network stack, clock servo, receive filter and ARC server hold together over every run of the
  main loop from start-up, whatever frames arrive and whatever keys are pressed, that of the
  talker as well unless \<open>t\<close> or \<open>T\<close> and that of the sample clock unless \<open>N\<close> is; the servers stay bound; a
  datagram, tagged or not, reaches its server; every statistics request is answered. Three
  defects show on this level: the unbind key detunes the sample clock, the restart key
  diverts unicast flows, and a frame with a short total length makes an ARC reply run past
  its transmit slot (the model lengthens the slot's list by what is written past its end).

  \<^bold>\<open>Bounds and fuel.\<close> Loops of the source with a fixed count are recursion on it: the wait
  for the flash polls \<open>WIP_POLLS\<close> times, the loader's window \<open>NETLOAD_WINDOW_SPINS\<close> times, the
  carry of \<open>step_target\<close> as often as there are whole seconds to carry. No function needs
  fuel that the source does not bound itself.

  \<^bold>\<open>Not modelled.\<close> Console output, PHY set-up and busy waits on the MAC. The queue that is popped while
  the talker is off, the disabled feedback loop of \<^theory_text>\<open>main.c\<close>, and what only prints. The
  slot the 802.1AS slave sends from. The question a query carries is recorded by
  \<^theory_text>\<open>mdns.c\<close> and never used. The reference sources of the
  earlier AVB device (\<^theory_text>\<open>_avb_reference\<close>, \<^theory_text>\<open>_avtp_backup\<close>, \<^theory_text>\<open>_aes3_backup\<close>) are
  kept in the repository but are not built.
\<close>

end
